(* ===== verification/Pj_Prelude.thy ===== *)
theory Pj_Prelude
  imports Main "HOL-Library.Word" "HOL-Library.Signed_Division"
begin

unbundle bit_operations_syntax

text \<open>
  Shared vocabulary of the development: the C integer types, the status codes of
  \<^verbatim>\<open>pjlib/include/pj/errno.h\<close>, the time values of \<^verbatim>\<open>pjlib/include/pj/types.h\<close> with their order,
  the collections of rewrite rules the component theories extend, and the generic facts on
  lists and machine words that several components use.
\<close>

section \<open>Collections of facts\<close>

named_theorems pj_defs \<open>definitions of operations, for unfolding whole handlers\<close>
named_theorems pj_frame \<open>which fields an operation leaves alone\<close>
named_theorems pj_inv \<open>operations that keep a component's invariant\<close>

section \<open>Machine types\<close>

type_synonym u8 = "8 word"
type_synonym u16 = "16 word"
type_synonym u32 = "32 word"
type_synonym u64 = "64 word"

type_synonym bytes = "u8 list"

text \<open>
  A C expression of type \<^verbatim>\<open>unsigned\<close> whose operands the model keeps as \<open>int\<close>: the mathematical
  value reduced modulo \<open>2 ^ 32\<close>.
\<close>

definition as_u32 :: "int \<Rightarrow> nat" where
  "as_u32 x = nat (x mod 2 ^ 32)"

text \<open>The same value stored in a variable of type \<^verbatim>\<open>int\<close>.\<close>

definition as_s32 :: "int \<Rightarrow> int" where
  "as_s32 x = (x + 2 ^ 31) mod 2 ^ 32 - 2 ^ 31"

lemma as_s32_small [simp]: "- (2 ^ 31) \<le> x \<Longrightarrow> x < 2 ^ 31 \<Longrightarrow> as_s32 x = x"
  by (simp add: as_s32_def)

lemma as_u32_small: "0 \<le> x \<Longrightarrow> x < 2 ^ 32 \<Longrightarrow> as_u32 x = nat x"
  by (simp add: as_u32_def)

lemma as_u32_diff: "a \<le> b \<Longrightarrow> b < 2 ^ 32 \<Longrightarrow> as_u32 (int b - int a) = b - a"
  by (simp add: as_u32_def)

lemma unat_of_nat_u32: "n < 2 ^ 32 \<Longrightarrow> unat (of_nat n :: u32) = n"
  by (simp add: unat_of_nat)

text \<open>A word has no bits at or beyond its width.\<close>

lemma no_high_bit [simp]:
  "8 \<le> n \<Longrightarrow> \<not> bit (a :: u8) n"
  "16 \<le> n \<Longrightarrow> \<not> bit (b :: u16) n"
  "32 \<le> n \<Longrightarrow> \<not> bit (c :: u32) n"
  using bit_imp_le_length [of a n] bit_imp_le_length [of b n] bit_imp_le_length [of c n] by auto

lemma less_8_cases:
  "(n :: nat) < 8 \<Longrightarrow> n = 0 \<or> n = 1 \<or> n = 2 \<or> n = 3 \<or> n = 4 \<or> n = 5 \<or> n = 6 \<or> n = 7"
  by arith

section \<open>Status codes\<close>

text \<open>
  \<^verbatim>\<open>pj_status_t\<close> is an integer; the codes of \<^verbatim>\<open>pjlib\<close> that the modelled code produces are constructors.
  Every other library has a range of codes of its own, counted from its \<^verbatim>\<open>ERRNO_START\<close>, and
  \<open>PJ_STATUS n\<close> is any other non-zero code handed up by the operating system or by a transport.
\<close>

datatype pj_status =
    PJ_SUCCESS | PJ_EUNKNOWN | PJ_EPENDING | PJ_EINVAL | PJ_ENOTFOUND | PJ_ENOMEM | PJ_EBUG
  | PJ_ETOOMANY | PJ_EBUSY | PJ_EINVALIDOP | PJ_EEXISTS | PJ_ERESOLVE | PJ_ETOOSMALL
  | PJ_EIGNORED | PJ_ERROR_MINUS_ONE | PJ_ETOOBIG | PJSIP_ERRNO nat | PJMEDIA_ERRNO nat
  | PJLIB_UTIL_ERRNO nat | PJNATH_ERRNO nat | PJ_STATUS int

abbreviation PJSIP_EMISSINGHDR :: pj_status where "PJSIP_EMISSINGHDR \<equiv> PJSIP_ERRNO 50"
abbreviation PJSIP_EINVALIDHDR :: pj_status where "PJSIP_EINVALIDHDR \<equiv> PJSIP_ERRNO 51"
abbreviation PJSIP_ENOTREQUESTMSG :: pj_status where "PJSIP_ENOTREQUESTMSG \<equiv> PJSIP_ERRNO 21"
abbreviation PJSIP_ENOTRESPONSEMSG :: pj_status where "PJSIP_ENOTRESPONSEMSG \<equiv> PJSIP_ERRNO 22"
abbreviation PJSIP_EINVALIDMETHOD :: pj_status where "PJSIP_EINVALIDMETHOD \<equiv> PJSIP_ERRNO 55"
abbreviation PJLIB_UTIL_EDNS_NXDOMAIN :: pj_status where "PJLIB_UTIL_EDNS_NXDOMAIN \<equiv> PJLIB_UTIL_ERRNO 53"
abbreviation PJMEDIA_RTP_EINVER :: pj_status where "PJMEDIA_RTP_EINVER \<equiv> PJMEDIA_ERRNO 122"
abbreviation PJMEDIA_RTP_EINLEN :: pj_status where "PJMEDIA_RTP_EINLEN \<equiv> PJMEDIA_ERRNO 125"
abbreviation PJMEDIA_SDP_EINSDP :: pj_status where "PJMEDIA_SDP_EINSDP \<equiv> PJMEDIA_ERRNO 20"
abbreviation PJMEDIA_SDP_EINVER :: pj_status where "PJMEDIA_SDP_EINVER \<equiv> PJMEDIA_ERRNO 21"
abbreviation PJMEDIA_SDP_EINORIGIN :: pj_status where "PJMEDIA_SDP_EINORIGIN \<equiv> PJMEDIA_ERRNO 22"
abbreviation PJMEDIA_SDP_EINTIME :: pj_status where "PJMEDIA_SDP_EINTIME \<equiv> PJMEDIA_ERRNO 23"
abbreviation PJMEDIA_SDP_EINNAME :: pj_status where "PJMEDIA_SDP_EINNAME \<equiv> PJMEDIA_ERRNO 24"
abbreviation PJMEDIA_SDP_EINCONN :: pj_status where "PJMEDIA_SDP_EINCONN \<equiv> PJMEDIA_ERRNO 25"
abbreviation PJMEDIA_SDP_EMISSINGCONN :: pj_status where "PJMEDIA_SDP_EMISSINGCONN \<equiv> PJMEDIA_ERRNO 26"
abbreviation PJMEDIA_SDP_EINATTR :: pj_status where "PJMEDIA_SDP_EINATTR \<equiv> PJMEDIA_ERRNO 27"
abbreviation PJMEDIA_SDP_EINRTPMAP :: pj_status where "PJMEDIA_SDP_EINRTPMAP \<equiv> PJMEDIA_ERRNO 28"
abbreviation PJMEDIA_SDP_ERTPMAPTOOLONG :: pj_status where "PJMEDIA_SDP_ERTPMAPTOOLONG \<equiv> PJMEDIA_ERRNO 29"
abbreviation PJMEDIA_SDP_EMISSINGRTPMAP :: pj_status where "PJMEDIA_SDP_EMISSINGRTPMAP \<equiv> PJMEDIA_ERRNO 30"
abbreviation PJMEDIA_SDP_EINMEDIA :: pj_status where "PJMEDIA_SDP_EINMEDIA \<equiv> PJMEDIA_ERRNO 31"
abbreviation PJMEDIA_SDP_ENOFMT :: pj_status where "PJMEDIA_SDP_ENOFMT \<equiv> PJMEDIA_ERRNO 32"
abbreviation PJMEDIA_SDP_EINPT :: pj_status where "PJMEDIA_SDP_EINPT \<equiv> PJMEDIA_ERRNO 33"
abbreviation PJMEDIA_SDP_EINFMTP :: pj_status where "PJMEDIA_SDP_EINFMTP \<equiv> PJMEDIA_ERRNO 34"
abbreviation PJMEDIA_SDP_EINRTCP :: pj_status where "PJMEDIA_SDP_EINRTCP \<equiv> PJMEDIA_ERRNO 35"
abbreviation PJMEDIA_SDP_EINBANDW :: pj_status where "PJMEDIA_SDP_EINBANDW \<equiv> PJMEDIA_ERRNO 37"
abbreviation PJMEDIA_SDP_EINSSRC :: pj_status where "PJMEDIA_SDP_EINSSRC \<equiv> PJMEDIA_ERRNO 38"
abbreviation PJMEDIA_SDP_EMEDIANOTEQUAL :: pj_status where "PJMEDIA_SDP_EMEDIANOTEQUAL \<equiv> PJMEDIA_ERRNO 60"
abbreviation PJMEDIA_SDP_EPORTNOTEQUAL :: pj_status where "PJMEDIA_SDP_EPORTNOTEQUAL \<equiv> PJMEDIA_ERRNO 61"
abbreviation PJMEDIA_SDP_ETPORTNOTEQUAL :: pj_status where "PJMEDIA_SDP_ETPORTNOTEQUAL \<equiv> PJMEDIA_ERRNO 62"
abbreviation PJMEDIA_SDP_EFORMATNOTEQUAL :: pj_status where "PJMEDIA_SDP_EFORMATNOTEQUAL \<equiv> PJMEDIA_ERRNO 63"
abbreviation PJMEDIA_SDP_ECONNNOTEQUAL :: pj_status where "PJMEDIA_SDP_ECONNNOTEQUAL \<equiv> PJMEDIA_ERRNO 64"
abbreviation PJMEDIA_SDP_EDIRNOTEQUAL :: pj_status where "PJMEDIA_SDP_EDIRNOTEQUAL \<equiv> PJMEDIA_ERRNO 66"
abbreviation PJMEDIA_SDP_EFMTPNOTEQUAL :: pj_status where "PJMEDIA_SDP_EFMTPNOTEQUAL \<equiv> PJMEDIA_ERRNO 67"
abbreviation PJMEDIA_SDP_ERTPMAPNOTEQUAL :: pj_status where "PJMEDIA_SDP_ERTPMAPNOTEQUAL \<equiv> PJMEDIA_ERRNO 68"
abbreviation PJMEDIA_SDP_EORIGINNOTEQUAL :: pj_status where "PJMEDIA_SDP_EORIGINNOTEQUAL \<equiv> PJMEDIA_ERRNO 70"
abbreviation PJMEDIA_SDP_ENAMENOTEQUAL :: pj_status where "PJMEDIA_SDP_ENAMENOTEQUAL \<equiv> PJMEDIA_ERRNO 71"
abbreviation PJMEDIA_SDP_ETIMENOTEQUAL :: pj_status where "PJMEDIA_SDP_ETIMENOTEQUAL \<equiv> PJMEDIA_ERRNO 72"
abbreviation PJLIB_UTIL_EDNSQRYTOOSMALL :: pj_status where "PJLIB_UTIL_EDNSQRYTOOSMALL \<equiv> PJLIB_UTIL_ERRNO 40"
abbreviation PJLIB_UTIL_EDNSINSIZE :: pj_status where "PJLIB_UTIL_EDNSINSIZE \<equiv> PJLIB_UTIL_ERRNO 41"
abbreviation PJLIB_UTIL_EDNSINCLASS :: pj_status where "PJLIB_UTIL_EDNSINCLASS \<equiv> PJLIB_UTIL_ERRNO 42"
abbreviation PJLIB_UTIL_EDNSINNAMEPTR :: pj_status where "PJLIB_UTIL_EDNSINNAMEPTR \<equiv> PJLIB_UTIL_ERRNO 43"
abbreviation PJNATH_EINSTUNMSG :: pj_status where "PJNATH_EINSTUNMSG \<equiv> PJNATH_ERRNO 1"
abbreviation PJNATH_EINSTUNMSGLEN :: pj_status where "PJNATH_EINSTUNMSGLEN \<equiv> PJNATH_ERRNO 2"
abbreviation PJNATH_EINSTUNMSGTYPE :: pj_status where "PJNATH_EINSTUNMSGTYPE \<equiv> PJNATH_ERRNO 3"
abbreviation PJNATH_ESTUNTOOMANYATTR :: pj_status where "PJNATH_ESTUNTOOMANYATTR \<equiv> PJNATH_ERRNO 21"
abbreviation PJNATH_ESTUNINATTRLEN :: pj_status where "PJNATH_ESTUNINATTRLEN \<equiv> PJNATH_ERRNO 22"
abbreviation PJNATH_ESTUNDUPATTR :: pj_status where "PJNATH_ESTUNDUPATTR \<equiv> PJNATH_ERRNO 23"
abbreviation PJNATH_ESTUNFINGERPRINT :: pj_status where "PJNATH_ESTUNFINGERPRINT \<equiv> PJNATH_ERRNO 30"
abbreviation PJNATH_ESTUNMSGINTPOS :: pj_status where "PJNATH_ESTUNMSGINTPOS \<equiv> PJNATH_ERRNO 31"
abbreviation PJNATH_ESTUNFINGERPOS :: pj_status where "PJNATH_ESTUNFINGERPOS \<equiv> PJNATH_ERRNO 33"
abbreviation PJNATH_EINVAF :: pj_status where "PJNATH_EINVAF \<equiv> PJNATH_ERRNO 42"
abbreviation PJMEDIA_SDPNEG_EINSTATE :: pj_status where "PJMEDIA_SDPNEG_EINSTATE \<equiv> PJMEDIA_ERRNO 40"
abbreviation PJMEDIA_SDPNEG_ENOINITIAL :: pj_status where "PJMEDIA_SDPNEG_ENOINITIAL \<equiv> PJMEDIA_ERRNO 41"
abbreviation PJMEDIA_SDPNEG_ENOACTIVE :: pj_status where "PJMEDIA_SDPNEG_ENOACTIVE \<equiv> PJMEDIA_ERRNO 42"
abbreviation PJMEDIA_SDPNEG_ENONEG :: pj_status where "PJMEDIA_SDPNEG_ENONEG \<equiv> PJMEDIA_ERRNO 43"
abbreviation PJMEDIA_SDPNEG_EINVANSMEDIA :: pj_status where "PJMEDIA_SDPNEG_EINVANSMEDIA \<equiv> PJMEDIA_ERRNO 45"
abbreviation PJMEDIA_SDPNEG_EINVANSTP :: pj_status where "PJMEDIA_SDPNEG_EINVANSTP \<equiv> PJMEDIA_ERRNO 46"
abbreviation PJMEDIA_SDPNEG_EANSNOMEDIA :: pj_status where "PJMEDIA_SDPNEG_EANSNOMEDIA \<equiv> PJMEDIA_ERRNO 47"
abbreviation PJMEDIA_SDPNEG_ENOMEDIA :: pj_status where "PJMEDIA_SDPNEG_ENOMEDIA \<equiv> PJMEDIA_ERRNO 48"
abbreviation PJMEDIA_SDPNEG_NOANSCODEC :: pj_status where "PJMEDIA_SDPNEG_NOANSCODEC \<equiv> PJMEDIA_ERRNO 49"
abbreviation PJMEDIA_SDPNEG_NOANSUNKNOWN :: pj_status where "PJMEDIA_SDPNEG_NOANSUNKNOWN \<equiv> PJMEDIA_ERRNO 51"

section \<open>Time values\<close>

text \<open>
  \<^verbatim>\<open>pj_time_val\<close>: seconds and milliseconds. The macros \<^verbatim>\<open>PJ_TIME_VAL_GT\<close>, \<^verbatim>\<open>GTE\<close>, \<^verbatim>\<open>LT\<close>, \<^verbatim>\<open>LTE\<close>
  compare the pair lexicographically.
\<close>

datatype pj_time_val = Time_Val (tv_sec: int) (tv_msec: int)

definition PJ_TIME_VAL_EQ :: "pj_time_val \<Rightarrow> pj_time_val \<Rightarrow> bool" where
  "PJ_TIME_VAL_EQ t1 t2 \<longleftrightarrow> tv_sec t1 = tv_sec t2 \<and> tv_msec t1 = tv_msec t2"

definition PJ_TIME_VAL_GT :: "pj_time_val \<Rightarrow> pj_time_val \<Rightarrow> bool" where
  "PJ_TIME_VAL_GT t1 t2 \<longleftrightarrow>
     tv_sec t1 > tv_sec t2 \<or> (tv_sec t1 = tv_sec t2 \<and> tv_msec t1 > tv_msec t2)"

definition PJ_TIME_VAL_GTE :: "pj_time_val \<Rightarrow> pj_time_val \<Rightarrow> bool" where
  "PJ_TIME_VAL_GTE t1 t2 \<longleftrightarrow> PJ_TIME_VAL_GT t1 t2 \<or> PJ_TIME_VAL_EQ t1 t2"

definition PJ_TIME_VAL_LT :: "pj_time_val \<Rightarrow> pj_time_val \<Rightarrow> bool" where
  "PJ_TIME_VAL_LT t1 t2 \<longleftrightarrow> \<not> PJ_TIME_VAL_GTE t1 t2"

definition PJ_TIME_VAL_LTE :: "pj_time_val \<Rightarrow> pj_time_val \<Rightarrow> bool" where
  "PJ_TIME_VAL_LTE t1 t2 \<longleftrightarrow> \<not> PJ_TIME_VAL_GT t1 t2"

instantiation pj_time_val :: linorder
begin

definition less_eq_pj_time_val :: "pj_time_val \<Rightarrow> pj_time_val \<Rightarrow> bool" where
  "a \<le> b \<longleftrightarrow> tv_sec a < tv_sec b \<or> (tv_sec a = tv_sec b \<and> tv_msec a \<le> tv_msec b)"

definition less_pj_time_val :: "pj_time_val \<Rightarrow> pj_time_val \<Rightarrow> bool" where
  "a < b \<longleftrightarrow> tv_sec a < tv_sec b \<or> (tv_sec a = tv_sec b \<and> tv_msec a < tv_msec b)"

instance
  by standard (auto simp: less_eq_pj_time_val_def less_pj_time_val_def intro: pj_time_val.expand)

end

text \<open>The macros are this order, so the library's facts on linear orders apply to them.\<close>

lemma PJ_TIME_VAL_order [simp]:
  "PJ_TIME_VAL_GT a b \<longleftrightarrow> b < a"
  "PJ_TIME_VAL_GTE a b \<longleftrightarrow> b \<le> a"
  "PJ_TIME_VAL_LT a b \<longleftrightarrow> a < b"
  "PJ_TIME_VAL_LTE a b \<longleftrightarrow> a \<le> b"
  by (auto simp: PJ_TIME_VAL_GT_def PJ_TIME_VAL_GTE_def PJ_TIME_VAL_LT_def PJ_TIME_VAL_LTE_def
      PJ_TIME_VAL_EQ_def less_eq_pj_time_val_def less_pj_time_val_def)

text \<open>
  \<^verbatim>\<open>pj_time_val_normalize\<close>: the loop that raises a very negative millisecond field adds one
  thousand until it exceeds \<open>-1000\<close>.
\<close>

function raise_msec :: "int \<Rightarrow> int \<Rightarrow> int \<times> int" where
  "raise_msec sec msec =
     (let sec' = sec - 1; msec' = msec + 1000
      in if msec' \<le> - 1000 then raise_msec sec' msec' else (sec', msec'))"
  by pat_completeness auto
termination
  by (relation "measure (\<lambda>(sec, msec). nat (- msec))") auto

declare raise_msec.simps [simp del]

definition pj_time_val_normalize :: "pj_time_val \<Rightarrow> pj_time_val" where
  "pj_time_val_normalize t =
     (let (sec, msec) =
            (if tv_msec t \<ge> 1000
             then (tv_sec t + tv_msec t sdiv 1000, tv_msec t smod 1000)
             else if tv_msec t \<le> - 1000 then raise_msec (tv_sec t) (tv_msec t)
             else (tv_sec t, tv_msec t))
      in if sec \<ge> 1 \<and> msec < 0 then Time_Val (sec - 1) (msec + 1000)
         else if sec < 0 \<and> msec > 0 then Time_Val (sec + 1) (msec - 1000)
         else Time_Val sec msec)"

definition PJ_TIME_VAL_ADD :: "pj_time_val \<Rightarrow> pj_time_val \<Rightarrow> pj_time_val" where
  "PJ_TIME_VAL_ADD t1 t2 =
     pj_time_val_normalize (Time_Val (tv_sec t1 + tv_sec t2) (tv_msec t1 + tv_msec t2))"

definition PJ_TIME_VAL_SUB :: "pj_time_val \<Rightarrow> pj_time_val \<Rightarrow> pj_time_val" where
  "PJ_TIME_VAL_SUB t1 t2 =
     pj_time_val_normalize (Time_Val (tv_sec t1 - tv_sec t2) (tv_msec t1 - tv_msec t2))"

definition PJ_TIME_VAL_MSEC :: "pj_time_val \<Rightarrow> int" where
  "PJ_TIME_VAL_MSEC t = tv_sec t * 1000 + tv_msec t"

lemma raise_msec_total:
  "msec \<le> - 1000 \<Longrightarrow> fst (raise_msec sec msec) * 1000 + snd (raise_msec sec msec) = sec * 1000 + msec
     \<and> - 1000 < snd (raise_msec sec msec) \<and> snd (raise_msec sec msec) \<le> 0"
proof (induction sec msec rule: raise_msec.induct)
  case (1 sec msec)
  show ?case
  proof (cases "msec + 1000 \<le> - 1000")
    case True
    then show ?thesis
      using "1.IH" [of "sec - 1" "msec + 1000"] by (simp add: raise_msec.simps [of sec msec])
  next
    case False
    then show ?thesis using "1.prems" by (simp add: raise_msec.simps [of sec msec])
  qed
qed

lemma sdivmod_pos_int:
  fixes a b :: int
  assumes "0 \<le> a" "0 < b"
  shows "a sdiv b = a div b" "a smod b = a mod b"
  using assms by (auto simp: signed_divide_int_def signed_modulo_int_def sgn_if minus_div_mult_eq_mod
      mult.commute)

text \<open>Normalising keeps the represented duration and brings the milliseconds into range.\<close>

lemma pj_time_val_normalize_msec [simp]:
  "PJ_TIME_VAL_MSEC (pj_time_val_normalize t) = PJ_TIME_VAL_MSEC t"
proof -
  consider "tv_msec t \<ge> 1000" | "tv_msec t \<le> - 1000" | "- 1000 < tv_msec t" "tv_msec t < 1000"
    by linarith
  then show ?thesis
  proof cases
    case 1
    then have "tv_msec t sdiv 1000 = tv_msec t div 1000" "tv_msec t smod 1000 = tv_msec t mod 1000"
      by (simp_all add: sdivmod_pos_int)
    with 1 show ?thesis
      by (auto simp: pj_time_val_normalize_def PJ_TIME_VAL_MSEC_def Let_def)
  next
    case 2
    then show ?thesis using raise_msec_total [OF 2, of "tv_sec t"]
      by (auto simp: pj_time_val_normalize_def PJ_TIME_VAL_MSEC_def Let_def split: prod.splits)
  next
    case 3
    then show ?thesis by (auto simp: pj_time_val_normalize_def PJ_TIME_VAL_MSEC_def Let_def)
  qed
qed

section \<open>Lists\<close>

lemma nth_list_update_if:
  "i < length xs \<Longrightarrow> xs[j := x] ! i = (if i = j then x else xs ! i)"
  by (simp add: nth_list_update)

lemma take_drop_nth_decomp:
  "i < length xs \<Longrightarrow> xs = take i xs @ xs ! i # drop (Suc i) xs"
  by (simp add: id_take_nth_drop)

end
