(* ===== verification/Base64.thy ===== *)
theory Base64
  imports Pj_Prelude
begin

text \<open>
  Model of \<^verbatim>\<open>pjlib-util/src/pjlib-util/base64.c\<close>: the encoder, the decoder with its
  character filter and its two length checks, and the round trip between them. Characters and
  octets are 8-bit words; a buffer the caller passes is the list of what it holds, and the size
  the caller announces in \<^verbatim>\<open>*out_len\<close> is an argument.
\<close>

section \<open>Alphabet\<close>

definition base64_char :: bytes where
  "base64_char =
    [65, 66, 67, 68, 69, 70, 71, 72, 73, 74,
     75, 76, 77, 78, 79, 80, 81, 82, 83, 84,
     85, 86, 87, 88, 89, 90, 97, 98, 99, 100,
     101, 102, 103, 104, 105, 106, 107, 108, 109, 110,
     111, 112, 113, 114, 115, 116, 117, 118, 119, 120,
     121, 122, 48, 49, 50, 51, 52, 53, 54, 55,
     56, 57, 43, 47]"

definition PADDING :: u8 where
  "PADDING = 61"

text \<open>\<^verbatim>\<open>base256_char\<close> returns \<^verbatim>\<open>INV\<close>, that is \<open>-1\<close>, on a character outside the alphabet.\<close>

definition base256_char :: "u8 \<Rightarrow> int" where
  "base256_char c =
     (if 65 \<le> c \<and> c \<le> 90 then uint c - 65
      else if 97 \<le> c \<and> c \<le> 122 then uint c - 97 + 26
      else if 48 \<le> c \<and> c \<le> 57 then uint c - 48 + 52
      else if c = 43 then 62
      else if c = 47 then 63
      else - 1)"

section \<open>Encoder\<close>

definition base256to64 :: "u8 \<Rightarrow> u8 \<Rightarrow> u8 \<Rightarrow> int \<Rightarrow> bytes" where
  "base256to64 c1 c2 c3 padding =
     (let o1 = base64_char ! unat (drop_bit 2 c1);
          o2 = base64_char ! unat (push_bit 4 (c1 AND 0x3) OR drop_bit 4 (c2 AND 0xF0))
      in if padding = 0 then
           [o1, o2,
            base64_char ! unat (push_bit 2 (c2 AND 0xF) OR drop_bit 6 (c3 AND 0xC0)),
            base64_char ! unat (c3 AND 0x3F)]
         else if padding = 1 then
           [o1, o2,
            base64_char ! unat (push_bit 2 (c2 AND 0xF) OR drop_bit 6 (c3 AND 0xC0)),
            PADDING]
         else [o1, o2, PADDING, PADDING])"

text \<open>The loop of \<^verbatim>\<open>pj_base64_encode\<close>: three octets per turn, the last turn padded.\<close>

fun encode_loop :: "bytes \<Rightarrow> bytes" where
  "encode_loop [] = []"
| "encode_loop [c1] = base256to64 c1 0 0 2"
| "encode_loop [c1, c2] = base256to64 c1 c2 0 1"
| "encode_loop (c1 # c2 # c3 # pi) = base256to64 c1 c2 c3 0 @ encode_loop pi"

definition PJ_BASE256_TO_BASE64_LEN :: "nat \<Rightarrow> nat" where
  "PJ_BASE256_TO_BASE64_LEN len = len * 4 div 3 + 3"

definition PJ_BASE64_TO_BASE256_LEN :: "nat \<Rightarrow> nat" where
  "PJ_BASE64_TO_BASE256_LEN len = len * 3 div 4"

definition pj_base64_encode :: "bytes \<Rightarrow> nat \<Rightarrow> pj_status + bytes" where
  "pj_base64_encode input out_len =
     (if out_len < PJ_BASE256_TO_BASE64_LEN (length input) then Inl PJ_ETOOSMALL
      else Inr (encode_loop input))"

section \<open>Decoder\<close>

text \<open>\<^verbatim>\<open>while (len && buf[len-1] == '=') --len;\<close>\<close>

definition strip_padding :: "bytes \<Rightarrow> bytes" where
  "strip_padding buf = rev (dropWhile (\<lambda>c. c = PADDING) (rev buf))"

text \<open>
  The inner \<^verbatim>\<open>do ... while\<close>: read characters until one is in the alphabet or the input is
  exhausted. The value left in \<^verbatim>\<open>c[k]\<close> is \<^verbatim>\<open>INV\<close> when the input ends on a character outside the
  alphabet. The function is applied to a non-empty rest of the input, as \<^verbatim>\<open>i < len\<close> guarantees.
\<close>

fun next_char :: "bytes \<Rightarrow> int \<times> bytes" where
  "next_char [] = (- 1, [])"
| "next_char (b # bs) =
     (let c = base256_char b in if c = - 1 \<and> bs \<noteq> [] then next_char bs else (c, bs))"

text \<open>\<^verbatim>\<open>for (k=0; k<4 && i<len; ++k)\<close>: at most \<open>n\<close> further values.\<close>

fun fill_quad :: "nat \<Rightarrow> bytes \<Rightarrow> int list \<times> bytes" where
  "fill_quad 0 bs = ([], bs)"
| "fill_quad (Suc n) bs =
     (if bs = [] then ([], [])
      else let (c, bs') = next_char bs; (cs, rest) = fill_quad n bs' in (c # cs, rest))"

text \<open>The shifts and masks on the \<^verbatim>\<open>int\<close> array \<^verbatim>\<open>c\<close>, cut to an octet on assignment.\<close>

definition out_byte1 :: "int \<Rightarrow> int \<Rightarrow> u8" where
  "out_byte1 c0 c1 = word_of_int (push_bit 2 c0 OR drop_bit 4 (c1 AND 0x30))"

definition out_byte2 :: "int \<Rightarrow> int \<Rightarrow> u8" where
  "out_byte2 c1 c2 = word_of_int (push_bit 4 (c1 AND 0x0F) OR drop_bit 2 (c2 AND 0x3C))"

definition out_byte3 :: "int \<Rightarrow> int \<Rightarrow> u8" where
  "out_byte3 c2 c3 = word_of_int (push_bit 6 (c2 AND 0x03) OR (c3 AND 0x3F))"

lemma next_char_shorter [termination_simp]: "bs \<noteq> [] \<Longrightarrow> length (snd (next_char bs)) < length bs"
  by (induction bs rule: next_char.induct) (auto simp: Let_def less_Suc_eq)

lemma fill_quad_shorter:
  "fill_quad n bs = (cs, rest) \<Longrightarrow> length rest + length cs \<le> length bs"
proof (induction n arbitrary: bs cs rest)
  case 0
  then show ?case by simp
next
  case (Suc n)
  show ?case
  proof (cases "bs = []")
    case False
    obtain c bs' where nc: "next_char bs = (c, bs')" by (cases "next_char bs")
    obtain cs' rest' where fq: "fill_quad n bs' = (cs', rest')" by (cases "fill_quad n bs'")
    from next_char_shorter [OF False] nc have "length bs' < length bs" by simp
    with Suc.IH [OF fq] Suc.prems False nc fq show ?thesis by auto
  qed (use Suc.prems in auto)
qed

function decode_loop :: "bytes \<Rightarrow> bytes" where
  "decode_loop bs =
     (if bs = [] then []
      else case fill_quad 4 bs of
        ([c0, c1, c2, c3], rest) \<Rightarrow>
          out_byte1 c0 c1 # out_byte2 c1 c2 # out_byte3 c2 c3 # decode_loop rest
      | ([c0, c1, c2], rest) \<Rightarrow> [out_byte1 c0 c1, out_byte2 c1 c2]
      | ([c0, c1], rest) \<Rightarrow> [out_byte1 c0 c1]
      | (_, rest) \<Rightarrow> [])"
  by pat_completeness auto
termination
  by (relation "measure length") (auto dest!: fill_quad_shorter [OF sym])

declare decode_loop.simps [simp del]

definition pj_base64_decode :: "bytes \<Rightarrow> nat \<Rightarrow> pj_status + bytes" where
  "pj_base64_decode input out_len =
     (let buf = strip_padding input
      in if out_len < PJ_BASE64_TO_BASE256_LEN (length buf) then Inl PJ_ETOOSMALL
         else Inr (decode_loop buf))"

section \<open>Round trip\<close>

lemma base64_char_table:
  "list_all (\<lambda>n. base256_char (base64_char ! n) = int n \<and> base64_char ! n \<noteq> PADDING) [0..<64]"
  by code_simp

lemma base64_char_inverse [simp]:
  "n < 64 \<Longrightarrow> base256_char (base64_char ! n) = int n"
  "n < 64 \<Longrightarrow> base64_char ! n \<noteq> PADDING"
  using base64_char_table by (auto simp: list_all_iff)

lemma u8_eqI:
  fixes a b :: u8
  assumes "bit a 0 = bit b 0" "bit a 1 = bit b 1" "bit a 2 = bit b 2" "bit a 3 = bit b 3"
    "bit a 4 = bit b 4" "bit a 5 = bit b 5" "bit a 6 = bit b 6" "bit a 7 = bit b 7"
  shows "a = b"
  using assms by (intro bit_word_eqI) (auto dest!: less_8_cases)

text \<open>The four 6-bit indices of a group of three octets, as the encoder computes them.\<close>

definition ix1 :: "u8 \<Rightarrow> u8" where
  "ix1 c1 = drop_bit 2 c1"

definition ix2 :: "u8 \<Rightarrow> u8 \<Rightarrow> u8" where
  "ix2 c1 c2 = push_bit 4 (c1 AND 0x3) OR drop_bit 4 (c2 AND 0xF0)"

definition ix3 :: "u8 \<Rightarrow> u8 \<Rightarrow> u8" where
  "ix3 c2 c3 = push_bit 2 (c2 AND 0xF) OR drop_bit 6 (c3 AND 0xC0)"

definition ix4 :: "u8 \<Rightarrow> u8" where
  "ix4 c3 = c3 AND 0x3F"

lemmas ix_defs = ix1_def ix2_def ix3_def ix4_def

lemma out_bytes_inverse:
  "out_byte1 (uint (ix1 c1)) (uint (ix2 c1 c2)) = c1"
  "out_byte2 (uint (ix2 c1 c2)) (uint (ix3 c2 c3)) = c2"
  "out_byte3 (uint (ix3 c2 c3)) (uint (ix4 c3)) = c3"
  unfolding out_byte1_def out_byte2_def out_byte3_def ix_defs
  by (rule u8_eqI; simp add: bit_simps bit_numeral_rec)+


lemma u8_less_64:
  fixes x :: u8
  assumes "\<not> bit x 6" "\<not> bit x 7"
  shows "unat x < 64"
proof -
  have "take_bit 6 x = x"
    using assms by (intro u8_eqI) (simp_all add: bit_simps)
  then have "unat x = take_bit 6 (unat x)"
    by (metis unsigned_take_bit_eq)
  then show ?thesis
    using take_bit_nat_less_exp [of 6 "unat x"] by simp
qed

lemma ix_bound [simp]:
  "unat (ix1 c1) < 64" "unat (ix2 c1 c2) < 64" "unat (ix3 c2 c3) < 64" "unat (ix4 c3) < 64"
  unfolding ix_defs by (rule u8_less_64; simp add: bit_simps bit_numeral_rec)+

lemma base256to64_eq:
  "base256to64 c1 c2 c3 0 =
     map (\<lambda>i. base64_char ! unat i) [ix1 c1, ix2 c1 c2, ix3 c2 c3, ix4 c3]"
  "base256to64 c1 c2 c3 1 =
     map (\<lambda>i. base64_char ! unat i) [ix1 c1, ix2 c1 c2, ix3 c2 c3] @ [PADDING]"
  "base256to64 c1 c2 c3 2 =
     map (\<lambda>i. base64_char ! unat i) [ix1 c1, ix2 c1 c2] @ [PADDING, PADDING]"
  by (simp_all add: base256to64_def ix_defs)

lemma next_char_alphabet [simp]:
  "n < 64 \<Longrightarrow> next_char (base64_char ! n # bs) = (int n, bs)"
  by simp

lemma strip_padding_Cons [simp]:
  "n < 64 \<Longrightarrow> strip_padding (base64_char ! n # ys) = base64_char ! n # strip_padding ys"
  by (simp add: strip_padding_def dropWhile_append)

lemma strip_padding_simps [simp]:
  "strip_padding [] = []"
  "strip_padding [PADDING] = []"
  "strip_padding [PADDING, PADDING] = []"
  by (simp_all add: strip_padding_def)

lemma decode_loop_quad:
  "i < 64 \<Longrightarrow> j < 64 \<Longrightarrow> k < 64 \<Longrightarrow> l < 64 \<Longrightarrow>
   decode_loop (base64_char ! i # base64_char ! j # base64_char ! k # base64_char ! l # rest) =
     out_byte1 (int i) (int j) # out_byte2 (int j) (int k) # out_byte3 (int k) (int l)
       # decode_loop rest"
  by (subst decode_loop.simps) (simp add: numeral_eq_Suc del: next_char.simps)

lemma decode_loop_triple:
  "i < 64 \<Longrightarrow> j < 64 \<Longrightarrow> k < 64 \<Longrightarrow>
   decode_loop [base64_char ! i, base64_char ! j, base64_char ! k] =
     [out_byte1 (int i) (int j), out_byte2 (int j) (int k)]"
  by (subst decode_loop.simps) (simp add: numeral_eq_Suc del: next_char.simps)

lemma decode_loop_pair:
  "i < 64 \<Longrightarrow> j < 64 \<Longrightarrow>
   decode_loop [base64_char ! i, base64_char ! j] = [out_byte1 (int i) (int j)]"
  by (subst decode_loop.simps) (simp add: numeral_eq_Suc del: next_char.simps)

lemma decode_loop_Nil [simp]: "decode_loop [] = []"
  by (subst decode_loop.simps) simp

lemmas decode_loop_groups = decode_loop_quad decode_loop_triple decode_loop_pair

text \<open>Decoding what the encoder wrote gives the input back, group by group.\<close>

lemma decode_encode_loop: "decode_loop (strip_padding (encode_loop xs)) = xs"
  by (induction xs rule: encode_loop.induct)
    (simp_all add: base256to64_eq decode_loop_groups out_bytes_inverse)

lemma length_encode_loop: "length (encode_loop xs) = 4 * ((length xs + 2) div 3)"
proof (induction xs rule: encode_loop.induct)
  case (4 c1 c2 c3 pi)
  have "(5 + length pi) div 3 = (2 + length pi) div 3 + 1" by presburger
  with "4.IH" show ?case by (simp add: base256to64_eq)
qed (simp_all add: base256to64_eq)


lemma decode_length_strip_encode:
  "PJ_BASE64_TO_BASE256_LEN (length (strip_padding (encode_loop xs))) = length xs"
proof (induction xs rule: encode_loop.induct)
  case (4 c1 c2 c3 pi)
  then show ?case by (simp add: base256to64_eq PJ_BASE64_TO_BASE256_LEN_def)
qed (simp_all add: base256to64_eq PJ_BASE64_TO_BASE256_LEN_def)

text \<open>
  C39: Base64 round trip. Encoding any octets into a buffer of the size the macro asks for
  succeeds, and decoding the result into a buffer that can hold the octets gives them back.
\<close>

theorem base64_roundtrip:
  assumes "PJ_BASE256_TO_BASE64_LEN (length xs) \<le> n" and "length xs \<le> m"
  shows "\<exists>enc. pj_base64_encode xs n = Inr enc \<and> length enc = 4 * ((length xs + 2) div 3)
    \<and> length enc \<le> n \<and> pj_base64_decode enc m = Inr xs"
  using assms length_encode_loop [of xs]
  by (auto simp: pj_base64_encode_def pj_base64_decode_def decode_encode_loop
      decode_length_strip_encode PJ_BASE256_TO_BASE64_LEN_def)

theorem base64_roundtrip_witness:
  "\<exists>enc. pj_base64_encode [77, 97, 110, 33] 8 = Inr enc \<and> length enc = 8
    \<and> pj_base64_decode enc 4 = Inr [77, 97, 110, 33]"
  using base64_roundtrip [of "[77, 97, 110, 33]" 8 4] by (auto simp: PJ_BASE256_TO_BASE64_LEN_def)

lemma fill_quad_length: "length (fst (fill_quad n bs)) \<le> n"
  by (induction n bs rule: fill_quad.induct) (auto split: prod.splits)

lemma decode_loop_length: "length (decode_loop bs) \<le> PJ_BASE64_TO_BASE256_LEN (length bs)"
proof (induction bs rule: length_induct)
  case (1 bs)
  obtain cs rest where fq: "fill_quad 4 bs = (cs, rest)" by (cases "fill_quad 4 bs")
  have "length cs \<le> 4" using fill_quad_length [of 4 bs] fq by simp
  then consider "length cs < 4" | c0 c1 c2 c3 where "cs = [c0, c1, c2, c3]"
    by (auto simp: numeral_eq_Suc le_less length_Suc_conv)
  then show ?case
  proof cases
    case 1
    with fill_quad_shorter [OF fq] fq show ?thesis
      by (subst decode_loop.simps)
        (auto simp: PJ_BASE64_TO_BASE256_LEN_def split: list.split)
  next
    case 2
    with fill_quad_shorter [OF fq] have "length rest + 4 \<le> length bs" by simp
    moreover from this have "length (decode_loop rest) \<le> PJ_BASE64_TO_BASE256_LEN (length rest)"
      using "1.IH" by simp
    ultimately show ?thesis
      using 2 fq by (subst decode_loop.simps) (auto simp: PJ_BASE64_TO_BASE256_LEN_def)
  qed
qed

text \<open>
  The decoder never writes more octets than the announced buffer size, whatever the
  input (the assertion at the end of the function).
\<close>

theorem base64_decode_bounded:
  "pj_base64_decode input m = Inr out \<Longrightarrow> length out \<le> m"
  using decode_loop_length [of "strip_padding input"]
  by (auto simp: pj_base64_decode_def Let_def split: if_splits)

theorem base64_decode_bounded_witness:
  "length [65, 66, 63 :: u8] \<le> 3"
proof -
  have "pj_base64_decode [81, 85, 73, 10] 3 = Inr [65, 66, 63]" by code_simp
  then show ?thesis by (rule base64_decode_bounded)
qed

text \<open>
  A character outside the alphabet is skipped when an alphabet character follows it, but
  at the end of the input it is taken as the value \<open>-1\<close> and decoded: \<^verbatim>\<open>QUI\<close> is the two octets
  \<^verbatim>\<open>AB\<close>, a line feed inside it changes nothing, and a line feed after it yields a third octet.
\<close>

theorem base64_decode_trailing_invalid:
  "pj_base64_decode [81, 85, 73] 3 = Inr [65, 66]
   \<and> pj_base64_decode [81, 85, 10, 73] 3 = Inr [65, 66]
   \<and> pj_base64_decode [81, 85, 73, 10] 3 = Inr [65, 66, 63]"
  by code_simp

end
