(* ===== verification/Hash_Table.thy ===== *)
theory Hash_Table
  imports Pj_Prelude
begin

text \<open>
  Model of \<^verbatim>\<open>pjlib/src/pj/hash.c\<close>: the multiplicative string hash, the table of chains,
  \<^verbatim>\<open>find_entry\<close>, the get, set and delete operations in their case sensitive and lower case
  variants, and the iterator. The interface other components rely on is the locale
  \<open>assoc_store\<close>, interpreted on both variants.

  An entry's key pointer and length are one list of octets; a null value pointer is
  \<open>None\<close>. The \<^verbatim>\<open>pool\<close> and \<^verbatim>\<open>entry_buf\<close> pointers only matter for being null or not.
\<close>

section \<open>Hashing\<close>

definition PJ_HASH_MULTIPLIER :: u32 where
  "PJ_HASH_MULTIPLIER = 33"

definition PJ_HASH_KEY_STRING :: u32 where
  "PJ_HASH_KEY_STRING = - 1"

text \<open>The C library's \<^verbatim>\<open>tolower\<close> in the C locale.\<close>

definition pj_tolower :: "u8 \<Rightarrow> u8" where
  "pj_tolower c = (if 65 \<le> c \<and> c \<le> 90 then c + 32 else c)"

text \<open>
  The octets a key denotes: up to the terminating null octet for \<^verbatim>\<open>PJ_HASH_KEY_STRING\<close>,
  the first \<^verbatim>\<open>keylen\<close> ones otherwise.
\<close>

definition key_octets :: "bytes \<Rightarrow> u32 \<Rightarrow> bytes" where
  "key_octets key keylen =
     (if keylen = PJ_HASH_KEY_STRING then takeWhile (\<lambda>b. b \<noteq> 0) key else take (unat keylen) key)"

fun hash_octets :: "(u8 \<Rightarrow> u8) \<Rightarrow> u32 \<Rightarrow> bytes \<Rightarrow> u32" where
  "hash_octets f hash [] = hash"
| "hash_octets f hash (p # ps) = hash_octets f (hash * PJ_HASH_MULTIPLIER + ucast (f p)) ps"

definition pj_hash_calc :: "u32 \<Rightarrow> bytes \<Rightarrow> u32 \<Rightarrow> u32" where
  "pj_hash_calc hash key keylen = hash_octets id hash (key_octets key keylen)"

text \<open>The second component is what is stored to \<^verbatim>\<open>result\<close> when that buffer is given.\<close>

fun pj_hash_calc_tolower :: "u32 \<Rightarrow> bytes \<Rightarrow> u32 \<times> bytes" where
  "pj_hash_calc_tolower hval [] = (hval, [])"
| "pj_hash_calc_tolower hval (c # cs) =
     (let lower = pj_tolower c;
          (h, result) = pj_hash_calc_tolower (hval * PJ_HASH_MULTIPLIER + ucast lower) cs
      in (h, lower # result))"

section \<open>The table\<close>

record 'v hash_entry =
  he_key :: bytes
  he_hash :: u32
  he_value :: 'v

record 'v hash_table =
  ht_table :: "'v hash_entry list list"
  ht_count :: u32
  ht_rows :: u32

text \<open>
  \<^verbatim>\<open>do table_size <<= 1; while (table_size < size);\<close> on an unsigned 32-bit size. Above
  \<open>2 ^ 31\<close> the shift overflows to zero and the loop never ends, which is the value \<open>None\<close>.
\<close>

partial_function (option) table_size_loop :: "u32 \<Rightarrow> u32 \<Rightarrow> u32 option" where
  "table_size_loop table_size sz =
     (let table_size' = push_bit 1 table_size
      in if table_size' < sz then table_size_loop table_size' sz else Some table_size')"

definition pj_hash_create :: "u32 \<Rightarrow> 'v hash_table option" where
  "pj_hash_create sz =
     (case table_size_loop 8 sz of
        None \<Rightarrow> None
      | Some n \<Rightarrow> Some \<lparr>ht_table = replicate (unat (n - 1) + 1) [], ht_count = 0, ht_rows = n - 1\<rparr>)"

text \<open>
  \<^verbatim>\<open>pj_ansi_strnicmp(a, b, n) == 0\<close> on two blocks of \<open>n\<close> octets: like the C library it stops
  at a null octet common to both.
\<close>

fun strnicmp_eq :: "bytes \<Rightarrow> bytes \<Rightarrow> bool" where
  "strnicmp_eq (a # as) (b # bs) =
     (if pj_tolower a \<noteq> pj_tolower b then False else if a = 0 then True else strnicmp_eq as bs)"
| "strnicmp_eq as bs = (as = [] \<and> bs = [])"

definition entry_matches :: "bool \<Rightarrow> u32 \<Rightarrow> bytes \<Rightarrow> 'v hash_entry \<Rightarrow> bool" where
  "entry_matches lower hash key entry \<longleftrightarrow>
     he_hash entry = hash \<and> length (he_key entry) = length key \<and>
     ((lower \<and> strnicmp_eq (he_key entry) key) \<or> (\<not> lower \<and> he_key entry = key))"

text \<open>
  The scan of a chain: how many links the pointer \<^verbatim>\<open>p_entry\<close> advances before it rests on the
  link to the matching entry, or on the null link at the end.
\<close>

fun scan_chain :: "('v hash_entry \<Rightarrow> bool) \<Rightarrow> 'v hash_entry list \<Rightarrow> nat" where
  "scan_chain match [] = 0"
| "scan_chain match (entry # next) = (if match entry then 0 else Suc (scan_chain match next))"

text \<open>
  \<^verbatim>\<open>find_entry\<close> returns the table (with a new entry linked in when \<^verbatim>\<open>val\<close> is given and the key
  is absent), the link \<^verbatim>\<open>p_entry\<close> as row and position (\<open>None\<close> for the null pointer returned
  when neither a pool nor a buffer is available), and the hash reported through \<^verbatim>\<open>hval\<close>.
\<close>

definition find_entry ::
  "bool \<Rightarrow> 'v hash_table \<Rightarrow> bytes \<Rightarrow> u32 \<Rightarrow> 'v option \<Rightarrow> u32 \<Rightarrow> bool \<Rightarrow> bool
    \<Rightarrow> 'v hash_table \<times> (nat \<times> nat) option \<times> u32" where
  "find_entry pool ht key keylen val hval entry_buf lower =
     (let k = key_octets key keylen;
          hash = (if hval \<noteq> 0 then hval else hash_octets (if lower then pj_tolower else id) 0 k);
          row = unat (hash AND ht_rows ht);
          chain = ht_table ht ! row;
          pos = scan_chain (entry_matches lower hash k) chain
      in if pos < length chain then (ht, Some (row, pos), hash)
         else case val of
           None \<Rightarrow> (ht, Some (row, pos), hash)
         | Some v \<Rightarrow>
             if \<not> entry_buf \<and> \<not> pool then (ht, None, hash)
             else (ht\<lparr>ht_table := (ht_table ht)
                        [row := chain @ [\<lparr>he_key = k, he_hash = hash, he_value = v\<rparr>]],
                     ht_count := ht_count ht + 1\<rparr>,
                   Some (row, pos), hash))"

text \<open>The entry behind a link, and the value returned for it.\<close>

definition entry_at :: "'v hash_table \<Rightarrow> nat \<times> nat \<Rightarrow> 'v hash_entry option" where
  "entry_at ht p_entry =
     (let chain = ht_table ht ! fst p_entry
      in if snd p_entry < length chain then Some (chain ! snd p_entry) else None)"

definition hash_get :: "'v hash_table \<Rightarrow> bytes \<Rightarrow> u32 \<Rightarrow> u32 \<Rightarrow> bool \<Rightarrow> 'v option" where
  "hash_get ht key keylen hval lower =
     (case find_entry False ht key keylen None hval False lower of
        (_, Some p_entry, _) \<Rightarrow> map_option he_value (entry_at ht p_entry)
      | (_, None, _) \<Rightarrow> None)"

definition pj_hash_get :: "'v hash_table \<Rightarrow> bytes \<Rightarrow> u32 \<Rightarrow> u32 \<Rightarrow> 'v option" where
  "pj_hash_get ht key keylen hval = hash_get ht key keylen hval False"

definition pj_hash_get_lower :: "'v hash_table \<Rightarrow> bytes \<Rightarrow> u32 \<Rightarrow> u32 \<Rightarrow> 'v option" where
  "pj_hash_get_lower ht key keylen hval = hash_get ht key keylen hval True"

text \<open>
  \<^verbatim>\<open>hash_set\<close>: with a null value the entry is unlinked, otherwise its value is overwritten.
  When \<^verbatim>\<open>find_entry\<close> returns the null pointer, the program dereferences it: \<open>None\<close>.
\<close>

definition hash_set ::
  "bool \<Rightarrow> 'v hash_table \<Rightarrow> bytes \<Rightarrow> u32 \<Rightarrow> u32 \<Rightarrow> 'v option \<Rightarrow> bool \<Rightarrow> bool \<Rightarrow> 'v hash_table option" where
  "hash_set pool ht key keylen hval val entry_buf lower =
     (case find_entry pool ht key keylen val hval entry_buf lower of
        (_, None, _) \<Rightarrow> None
      | (ht', Some (row, pos), _) \<Rightarrow>
          (let chain = ht_table ht' ! row
           in if pos < length chain then
                (case val of
                   None \<Rightarrow> Some (ht'\<lparr>ht_table := (ht_table ht')[row := take pos chain @ drop (Suc pos) chain],
                                  ht_count := ht_count ht' - 1\<rparr>)
                 | Some v \<Rightarrow> Some (ht'\<lparr>ht_table := (ht_table ht')
                                  [row := chain[pos := (chain ! pos)\<lparr>he_value := v\<rparr>]]\<rparr>))
              else Some ht'))"

definition pj_hash_set :: "bool \<Rightarrow> 'v hash_table \<Rightarrow> bytes \<Rightarrow> u32 \<Rightarrow> u32 \<Rightarrow> 'v option \<Rightarrow> 'v hash_table option" where
  "pj_hash_set pool ht key keylen hval val = hash_set pool ht key keylen hval val False False"

definition pj_hash_set_lower :: "bool \<Rightarrow> 'v hash_table \<Rightarrow> bytes \<Rightarrow> u32 \<Rightarrow> u32 \<Rightarrow> 'v option \<Rightarrow> 'v hash_table option" where
  "pj_hash_set_lower pool ht key keylen hval val = hash_set pool ht key keylen hval val False True"

definition pj_hash_set_np :: "'v hash_table \<Rightarrow> bytes \<Rightarrow> u32 \<Rightarrow> u32 \<Rightarrow> 'v option \<Rightarrow> 'v hash_table option" where
  "pj_hash_set_np ht key keylen hval val = hash_set False ht key keylen hval val True False"

definition pj_hash_set_np_lower :: "'v hash_table \<Rightarrow> bytes \<Rightarrow> u32 \<Rightarrow> u32 \<Rightarrow> 'v option \<Rightarrow> 'v hash_table option" where
  "pj_hash_set_np_lower ht key keylen hval val = hash_set False ht key keylen hval val True True"

definition pj_hash_count :: "'v hash_table \<Rightarrow> u32" where
  "pj_hash_count ht = ht_count ht"

section \<open>Iterator\<close>

text \<open>The entry pointer of an iterator is the rest of its chain; the null pointer is \<open>[]\<close>.\<close>

record 'v hash_iterator =
  it_index :: nat
  it_entry :: "'v hash_entry list"

function iter_rows :: "'v hash_table \<Rightarrow> nat \<Rightarrow> 'v hash_iterator" where
  "iter_rows ht index =
     (if index \<le> unat (ht_rows ht) then
        (if ht_table ht ! index \<noteq> [] then \<lparr>it_index = index, it_entry = ht_table ht ! index\<rparr>
         else iter_rows ht (Suc index))
      else \<lparr>it_index = index, it_entry = []\<rparr>)"
  by pat_completeness auto
termination
  by (relation "measure (\<lambda>(ht, index). Suc (unat (ht_rows ht)) - index)") auto

declare iter_rows.simps [simp del]

definition pj_hash_first :: "'v hash_table \<Rightarrow> 'v hash_iterator option" where
  "pj_hash_first ht = (let it = iter_rows ht 0 in if it_entry it \<noteq> [] then Some it else None)"

definition pj_hash_next :: "'v hash_table \<Rightarrow> 'v hash_iterator \<Rightarrow> 'v hash_iterator option" where
  "pj_hash_next ht it =
     (if tl (it_entry it) \<noteq> [] then Some (it\<lparr>it_entry := tl (it_entry it)\<rparr>)
      else let it' = iter_rows ht (Suc (it_index it)) in if it_entry it' \<noteq> [] then Some it' else None)"

definition pj_hash_this :: "'v hash_iterator \<Rightarrow> 'v" where
  "pj_hash_this it = he_value (hd (it_entry it))"

section \<open>Hash values\<close>

lemma hash_octets_map: "hash_octets f h ks = hash_octets id h (map f ks)"
  by (induction f h ks rule: hash_octets.induct) simp_all

lemma pj_hash_calc_tolower_eq:
  "pj_hash_calc_tolower h ks = (hash_octets pj_tolower h ks, map pj_tolower ks)"
  by (induction ks arbitrary: h) (simp_all add: Let_def)

section \<open>Invariant\<close>

definition key_hash :: "bool \<Rightarrow> bytes \<Rightarrow> u32" where
  "key_hash lower k = hash_octets (if lower then pj_tolower else id) 0 k"

definition canon :: "bool \<Rightarrow> bytes \<Rightarrow> bytes" where
  "canon lower k = (if lower then map pj_tolower k else k)"

text \<open>
  Keys with a null octet before their last position are outside the contract of the lower case
  operations, whose comparison stops there.
\<close>

definition key_ok :: "bool \<Rightarrow> bytes \<Rightarrow> bool" where
  "key_ok lower k \<longleftrightarrow> (lower \<longrightarrow> 0 \<notin> set (butlast k)) \<and> length k < 2 ^ 32 - 1"

definition chain_ok :: "bool \<Rightarrow> u32 \<Rightarrow> nat \<Rightarrow> 'v hash_entry list \<Rightarrow> bool" where
  "chain_ok lower rows row chain \<longleftrightarrow>
     distinct (map (\<lambda>e. canon lower (he_key e)) chain) \<and>
     (\<forall>e \<in> set chain. key_ok lower (he_key e) \<and> he_hash e = key_hash lower (he_key e) \<and>
        unat (key_hash lower (he_key e) AND rows) = row)"

definition hash_inv :: "bool \<Rightarrow> 'v hash_table \<Rightarrow> bool" where
  "hash_inv lower ht \<longleftrightarrow>
     length (ht_table ht) = Suc (unat (ht_rows ht)) \<and>
     ht_count ht = of_nat (length (concat (ht_table ht))) \<and>
     (\<forall>row < length (ht_table ht). chain_ok lower (ht_rows ht) row (ht_table ht ! row))"

lemma key_hash_canon: "key_hash lower k = hash_octets id 0 (canon lower k)"
  by (simp add: key_hash_def canon_def hash_octets_map [of pj_tolower])

lemma key_hash_cong: "canon lower k = canon lower k' \<Longrightarrow> key_hash lower k = key_hash lower k'"
  by (simp add: key_hash_canon)

lemma tolower_eq_0 [simp]: "pj_tolower c = 0 \<longleftrightarrow> c = 0"
proof (cases "65 \<le> c \<and> c \<le> 90")
  case True
  then have "unat (c + 32) = unat c + 32" "65 \<le> unat c"
    by (simp_all add: word_le_nat_alt unat_word_ariths)
  then show ?thesis using True by (auto simp: pj_tolower_def)
qed (auto simp: pj_tolower_def)

lemma strnicmp_eq_iff:
  "length a = length b \<Longrightarrow> 0 \<notin> set (butlast a) \<Longrightarrow> 0 \<notin> set (butlast b) \<Longrightarrow>
   strnicmp_eq a b \<longleftrightarrow> map pj_tolower a = map pj_tolower b"
proof (induction a b rule: strnicmp_eq.induct)
  case (1 a as b bs)
  then show ?case by (cases "as = []"; cases "bs = []") auto
qed auto

lemma canon_length: "canon lower k = canon lower k' \<Longrightarrow> length k = length k'"
  by (metis canon_def length_map)

lemma entry_matches_iff:
  assumes "key_ok lower (he_key e)" "key_ok lower k" "he_hash e = key_hash lower (he_key e)"
  shows "entry_matches lower (key_hash lower k) k e \<longleftrightarrow> canon lower (he_key e) = canon lower k"
proof (cases "length (he_key e) = length k")
  case True
  then show ?thesis
    using assms strnicmp_eq_iff [OF True] key_hash_cong [of lower "he_key e" k]
    by (auto simp: entry_matches_def key_ok_def canon_def)
next
  case False
  then show ?thesis using canon_length [of lower "he_key e" k] by (auto simp: entry_matches_def)
qed


section \<open>Chains\<close>

text \<open>The contents of a chain as a finite map from canonical keys to values.\<close>

definition chain_map :: "bool \<Rightarrow> 'v hash_entry list \<Rightarrow> bytes \<Rightarrow> 'v option" where
  "chain_map lower chain = map_of (map (\<lambda>e. (canon lower (he_key e), he_value e)) chain)"

lemma chain_map_simps [simp]:
  "chain_map lower [] = Map.empty"
  "chain_map lower (e # es) = (chain_map lower es)(canon lower (he_key e) \<mapsto> he_value e)"
  "chain_map lower (as @ bs) = chain_map lower bs ++ chain_map lower as"
  by (simp_all add: chain_map_def map_of_append)

lemma chain_map_None:
  "chain_map lower chain ck = None \<longleftrightarrow> ck \<notin> (\<lambda>e. canon lower (he_key e)) ` set chain"
  by (auto simp: chain_map_def map_of_eq_None_iff image_image)

lemma scan_chain_le: "scan_chain p xs \<le> length xs"
  by (induction xs) auto

lemma scan_chain_split:
  "scan_chain p xs < length xs \<Longrightarrow>
   \<exists>as e bs. xs = as @ e # bs \<and> length as = scan_chain p xs \<and> p e \<and> (\<forall>a \<in> set as. \<not> p a)"
proof (induction xs)
  case (Cons x xs)
  show ?case
  proof (cases "p x")
    case True
    then show ?thesis by (intro exI [of _ "[]"]) auto
  next
    case False
    with Cons obtain as e bs where "xs = as @ e # bs" "length as = scan_chain p xs" "p e"
      "\<forall>a \<in> set as. \<not> p a" by auto
    with False show ?thesis by (intro exI [of _ "x # as"] exI [of _ e] exI [of _ bs]) simp
  qed
qed simp

lemma scan_chain_end: "\<not> scan_chain p xs < length xs \<Longrightarrow> x \<in> set xs \<Longrightarrow> \<not> p x"
  by (induction xs) (auto split: if_splits)


text \<open>
  Where the scan stops, in terms of the map: on the entry with the key, which splits the chain,
  or at the end because the key is absent.
\<close>

lemma chain_scan_cases:
  assumes ok: "chain_ok lower rows row chain" and k: "key_ok lower k"
    and pos: "pos = scan_chain (entry_matches lower (key_hash lower k) k) chain"
  obtains (found) as e bs where "chain = as @ e # bs" "length as = pos"
      "canon lower (he_key e) = canon lower k"
      "chain_map lower as (canon lower k) = None" "chain_map lower bs (canon lower k) = None"
  | (absent) "pos = length chain" "chain_map lower chain (canon lower k) = None"
proof -
  let ?p = "entry_matches lower (key_hash lower k) k"
  have p: "?p e \<longleftrightarrow> canon lower (he_key e) = canon lower k" if "e \<in> set chain" for e
    using that ok k by (auto simp: chain_ok_def entry_matches_iff)
  show ?thesis
  proof (cases "pos < length chain")
    case True
    with scan_chain_split [of ?p chain] pos obtain as e bs where
      ch: "chain = as @ e # bs" "length as = pos" "?p e" "\<forall>a \<in> set as. \<not> ?p a" by auto
    from ch p have ke: "canon lower (he_key e) = canon lower k" by simp
    from ok have d: "distinct (map (\<lambda>e. canon lower (he_key e)) (as @ e # bs))"
      by (simp add: chain_ok_def ch(1))
    from d ke have "chain_map lower as (canon lower k) = None"
      "chain_map lower bs (canon lower k) = None"
      by (auto simp: chain_map_None)
    with ch(1,2) ke show ?thesis by (rule found)
  next
    case False
    with scan_chain_end [of ?p chain] pos p have "\<forall>e \<in> set chain. canon lower (he_key e) \<noteq> canon lower k"
      by blast
    then have "chain_map lower chain (canon lower k) = None"
      by (auto simp: chain_map_None)
    with False scan_chain_le [of ?p chain] pos show ?thesis by (intro absent) auto
  qed
qed

section \<open>The table as a map\<close>

definition key_row :: "'v hash_table \<Rightarrow> bytes \<Rightarrow> nat" where
  "key_row ht ck = unat (hash_octets id 0 ck AND ht_rows ht)"

definition hash_abs :: "bool \<Rightarrow> 'v hash_table \<Rightarrow> bytes \<Rightarrow> 'v option" where
  "hash_abs lower ht ck = chain_map lower (ht_table ht ! key_row ht ck) ck"

lemma key_row_bound: "hash_inv lower ht \<Longrightarrow> key_row ht ck < length (ht_table ht)"
  by (simp add: hash_inv_def key_row_def less_Suc_eq_le word_and_le1 word_le_nat_alt [THEN iffD1])

lemma hash_inv_chain: "hash_inv lower ht \<Longrightarrow>
  chain_ok lower (ht_rows ht) (key_row ht ck) (ht_table ht ! key_row ht ck)"
  using key_row_bound by (auto simp: hash_inv_def)

text \<open>The hash \<^verbatim>\<open>find_entry\<close> works with: computed, or the caller's precomputed one.\<close>

definition hval_ok :: "bool \<Rightarrow> bytes \<Rightarrow> u32 \<Rightarrow> bool" where
  "hval_ok lower k hval \<longleftrightarrow> hval = 0 \<or> hval = key_hash lower k"

lemma find_entry_eq:
  assumes "hval_ok lower (key_octets key keylen) hval"
  shows "find_entry pool ht key keylen val hval entry_buf lower =
     (let k = key_octets key keylen; row = key_row ht (canon lower k); chain = ht_table ht ! row;
          pos = scan_chain (entry_matches lower (key_hash lower k) k) chain
      in if pos < length chain \<or> val = None then (ht, Some (row, pos), key_hash lower k)
         else if \<not> entry_buf \<and> \<not> pool then (ht, None, key_hash lower k)
         else (ht\<lparr>ht_table := (ht_table ht)
                    [row := chain @ [\<lparr>he_key = k, he_hash = key_hash lower k, he_value = the val\<rparr>]],
                 ht_count := ht_count ht + 1\<rparr>,
               Some (row, pos), key_hash lower k))"
proof -
  have heq: "(if hval \<noteq> 0 then hval else hash_octets (if lower then pj_tolower else id) 0 (key_octets key keylen))
      = key_hash lower (key_octets key keylen)"
    using assms by (auto simp: hval_ok_def key_hash_def)
  have row: "unat (key_hash lower k AND ht_rows ht) = key_row ht (canon lower k)" for k
    by (simp add: key_row_def key_hash_canon)
  show ?thesis
    unfolding find_entry_def Let_def heq row by (simp split: option.split)
qed

lemma hash_get_abs:
  assumes "hash_inv lower ht" "key_ok lower (key_octets key keylen)"
    "hval_ok lower (key_octets key keylen) hval"
  shows "hash_get ht key keylen hval lower = hash_abs lower ht (canon lower (key_octets key keylen))"
proof -
  let ?k = "key_octets key keylen"
  let ?row = "key_row ht (canon lower ?k)"
  let ?chain = "ht_table ht ! ?row"
  let ?pos = "scan_chain (entry_matches lower (key_hash lower ?k) ?k) ?chain"
  have eq: "hash_get ht key keylen hval lower =
      (if ?pos < length ?chain then Some (he_value (?chain ! ?pos)) else None)"
    by (simp add: hash_get_def find_entry_eq [OF assms(3)] entry_at_def Let_def)
  show ?thesis
  proof (cases rule: chain_scan_cases [OF hash_inv_chain [OF assms(1), of "canon lower ?k"] assms(2) refl])
    case (1 as e bs)
    then show ?thesis by (simp add: eq hash_abs_def nth_append map_add_def)
  next
    case 2
    then show ?thesis by (simp add: eq hash_abs_def)
  qed
qed

lemma length_concat_update:
  "i < length xss \<Longrightarrow>
   length (concat (xss[i := ys])) + length (xss ! i) = length (concat xss) + length ys"
proof (induction xss arbitrary: i)
  case (Cons xs xss)
  then show ?case by (cases i) auto
qed simp

text \<open>Replacing the chain of one row keeps the invariant when the new chain is a good one.\<close>

lemma hash_inv_update:
  assumes inv: "hash_inv lower ht" and row: "row < length (ht_table ht)"
    and ok: "chain_ok lower (ht_rows ht) row chain'"
    and cnt: "c + of_nat (length (ht_table ht ! row)) = ht_count ht + of_nat (length chain')"
  shows "hash_inv lower (ht\<lparr>ht_table := (ht_table ht)[row := chain'], ht_count := c\<rparr>)"
proof -
  have "of_nat (length (concat ((ht_table ht)[row := chain']))) + of_nat (length (ht_table ht ! row))
      = of_nat (length (concat (ht_table ht))) + (of_nat (length chain') :: u32)"
    using length_concat_update [OF row, of chain'] by (metis of_nat_add)
  with inv cnt have "c = of_nat (length (concat ((ht_table ht)[row := chain'])))"
    by (simp add: hash_inv_def) (metis add_right_cancel)
  with inv ok show ?thesis by (auto simp: hash_inv_def nth_list_update_if)
qed

lemma hash_abs_update:
  assumes inv: "hash_inv lower ht" and row: "row = key_row ht ck"
    and map: "chain_map lower chain' = (chain_map lower (ht_table ht ! row))(ck := v)"
  shows "hash_abs lower (ht\<lparr>ht_table := (ht_table ht)[row := chain'], ht_count := c\<rparr>)
    = (hash_abs lower ht)(ck := v)"
proof
  fix ck'
  have "key_row (ht\<lparr>ht_table := (ht_table ht)[row := chain'], ht_count := c\<rparr>) ck' = key_row ht ck'"
    by (simp add: key_row_def)
  with key_row_bound [OF inv] map row
  show "hash_abs lower (ht\<lparr>ht_table := (ht_table ht)[row := chain'], ht_count := c\<rparr>) ck'
      = ((hash_abs lower ht)(ck := v)) ck'"
    by (cases "key_row ht ck' = row") (auto simp: hash_abs_def)
qed


lemma chain_ok_remove:
  "chain_ok lower rows row (as @ e # bs) \<Longrightarrow> chain_ok lower rows row (as @ bs)"
  by (simp add: chain_ok_def)

lemma hash_set_abs:
  assumes inv: "hash_inv lower ht" and k: "key_ok lower (key_octets key keylen)"
    and hv: "hval_ok lower (key_octets key keylen) hval" and mem: "val = None \<or> pool \<or> entry_buf"
  shows "\<exists>ht'. hash_set pool ht key keylen hval val entry_buf lower = Some ht' \<and> hash_inv lower ht' \<and>
    ht_rows ht' = ht_rows ht \<and>
    hash_abs lower ht' = (hash_abs lower ht)(canon lower (key_octets key keylen) := val)"
proof -
  let ?k = "key_octets key keylen"
  let ?ck = "canon lower ?k"
  let ?row = "key_row ht ?ck"
  let ?chain = "ht_table ht ! ?row"
  let ?pos = "scan_chain (entry_matches lower (key_hash lower ?k) ?k) ?chain"
  let ?upd = "\<lambda>chain' c. ht\<lparr>ht_table := (ht_table ht)[?row := chain'], ht_count := c\<rparr>"
  let ?new = "\<lparr>he_key = ?k, he_hash = key_hash lower ?k, he_value = the val\<rparr>"
  note ok = hash_inv_chain [OF inv, of ?ck]
  note row = key_row_bound [OF inv, of ?ck]
  show ?thesis
  proof (cases rule: chain_scan_cases [OF ok k refl])
    case (1 as e bs)
    show ?thesis
    proof (cases val)
      case None
      have "hash_set pool ht key keylen hval val entry_buf lower = Some (?upd (as @ bs) (ht_count ht - 1))"
        using 1 None by (simp add: hash_set_def find_entry_eq [OF hv] Let_def)
      moreover have "hash_inv lower (?upd (as @ bs) (ht_count ht - 1))"
        using 1 ok by (intro hash_inv_update [OF inv row]) (auto intro: chain_ok_remove)
      moreover have "hash_abs lower (?upd (as @ bs) (ht_count ht - 1)) = (hash_abs lower ht)(?ck := None)"
        using 1 by (intro hash_abs_update [OF inv refl]) (auto simp: fun_eq_iff map_add_def split: option.split)
      ultimately show ?thesis using None by simp
    next
      case (Some v)
      let ?chain' = "as @ e\<lparr>he_value := v\<rparr> # bs"
      have "hash_set pool ht key keylen hval val entry_buf lower = Some (?upd ?chain' (ht_count ht))"
        using 1 Some by (simp add: hash_set_def find_entry_eq [OF hv] Let_def nth_append list_update_append)
      moreover have "hash_inv lower (?upd ?chain' (ht_count ht))"
        using 1 ok by (intro hash_inv_update [OF inv row]) (auto simp: chain_ok_def)
      moreover have "hash_abs lower (?upd ?chain' (ht_count ht)) = (hash_abs lower ht)(?ck := val)"
        using 1 Some by (intro hash_abs_update [OF inv refl]) (auto simp: fun_eq_iff map_add_def split: option.split)
      ultimately show ?thesis by simp
    qed
  next
    case 2
    show ?thesis
    proof (cases val)
      case None
      then have "hash_set pool ht key keylen hval val entry_buf lower = Some ht"
        using 2 by (simp add: hash_set_def find_entry_eq [OF hv] Let_def)
      then show ?thesis using inv 2 None by (auto simp: fun_eq_iff hash_abs_def)
    next
      case (Some v)
      let ?chain' = "?chain @ [?new]"
      have "hash_set pool ht key keylen hval val entry_buf lower = Some (?upd ?chain' (ht_count ht + 1))"
        using 2 Some mem row
        by (auto simp: hash_set_def find_entry_eq [OF hv] Let_def nth_append list_update_append)
      moreover have "hash_inv lower (?upd ?chain' (ht_count ht + 1))"
        using 2 ok k
        by (intro hash_inv_update [OF inv row])
          (auto simp: chain_ok_def chain_map_None key_row_def key_hash_canon)
      moreover have "hash_abs lower (?upd ?chain' (ht_count ht + 1)) = (hash_abs lower ht)(?ck := val)"
        using 2 Some by (intro hash_abs_update [OF inv refl]) (auto simp: fun_eq_iff map_add_def split: option.split)
      ultimately show ?thesis by simp
    qed
  qed
qed


section \<open>Counting\<close>

lemma chain_map_dom: "dom (chain_map lower chain) = (\<lambda>e. canon lower (he_key e)) ` set chain"
  by (auto simp: chain_map_def dom_map_of_conv_image_fst image_image)

lemma chain_ok_card: "chain_ok lower rows row chain \<Longrightarrow> card (dom (chain_map lower chain)) = length chain"
  unfolding chain_map_dom chain_ok_def by (metis distinct_card length_map list.set_map)

lemma chain_ok_key_row:
  assumes "hash_inv lower ht" "row < length (ht_table ht)"
    "ck \<in> dom (chain_map lower (ht_table ht ! row))"
  shows "key_row ht ck = row"
  using assms by (auto simp: hash_inv_def chain_ok_def chain_map_dom key_row_def key_hash_canon)

lemma hash_abs_dom:
  assumes "hash_inv lower ht"
  shows "dom (hash_abs lower ht) = (\<Union>row < length (ht_table ht). dom (chain_map lower (ht_table ht ! row)))"
proof (intro equalityI subsetI)
  fix ck assume "ck \<in> dom (hash_abs lower ht)"
  then have "ck \<in> dom (chain_map lower (ht_table ht ! key_row ht ck))"
    by (auto simp: hash_abs_def)
  with key_row_bound [OF assms, of ck]
  show "ck \<in> (\<Union>row < length (ht_table ht). dom (chain_map lower (ht_table ht ! row)))" by blast
next
  fix ck assume "ck \<in> (\<Union>row < length (ht_table ht). dom (chain_map lower (ht_table ht ! row)))"
  then obtain row where "row < length (ht_table ht)" "ck \<in> dom (chain_map lower (ht_table ht ! row))"
    by blast
  with chain_ok_key_row [OF assms] show "ck \<in> dom (hash_abs lower ht)"
    by (metis (no_types, lifting) domIff hash_abs_def)
qed

lemma hash_abs_card:
  assumes "hash_inv lower ht"
  shows "card (dom (hash_abs lower ht)) = length (concat (ht_table ht))"
proof -
  let ?rows = "{..< length (ht_table ht)}"
  let ?d = "\<lambda>row. dom (chain_map lower (ht_table ht ! row))"
  have "card (\<Union>row \<in> ?rows. ?d row) = (\<Sum>row \<in> ?rows. card (?d row))"
  proof (rule card_UN_disjoint)
    show "\<forall>i \<in> ?rows. \<forall>j \<in> ?rows. i \<noteq> j \<longrightarrow> ?d i \<inter> ?d j = {}"
      using chain_ok_key_row [OF assms] by (metis disjoint_iff lessThan_iff)
  qed (auto simp: chain_map_dom)
  also have "\<dots> = (\<Sum>row \<in> ?rows. length (ht_table ht ! row))"
    using assms by (intro sum.cong refl) (auto simp: hash_inv_def intro: chain_ok_card)
  also have "\<dots> = length (concat (ht_table ht))"
    by (simp add: length_concat sum_list_sum_nth atLeast0LessThan)
  finally show ?thesis by (simp add: hash_abs_dom [OF assms])
qed

section \<open>Creation\<close>

lemma table_size_loop_power:
  assumes "k \<le> 30" "sz \<le> 2 ^ 31"
  shows "\<exists>j. k < j \<and> j \<le> 31 \<and> table_size_loop (2 ^ k) sz = Some (2 ^ j) \<and> sz \<le> 2 ^ j"
  using assms(1)
proof (induction "30 - k" arbitrary: k)
  case 0
  then have "k = 30" by simp
  then show ?case using assms(2)
    by (subst table_size_loop.simps) (auto simp: push_bit_eq_mult Let_def not_less)
next
  case (Suc n)
  have dbl: "push_bit 1 ((2 :: u32) ^ k) = 2 ^ Suc k" by (simp add: push_bit_eq_mult)
  show ?case
  proof (cases "(2 :: u32) ^ Suc k < sz")
    case True
    from Suc.hyps have "n = 30 - Suc k" "Suc k \<le> 30" by simp_all
    from Suc.hyps(1) [OF this] obtain j where "Suc k < j" "j \<le> 31"
      "table_size_loop (2 ^ Suc k) sz = Some (2 ^ j)" "sz \<le> 2 ^ j" by blast
    with True dbl show ?thesis
      by (intro exI [of _ j]) (simp add: table_size_loop.simps [of "2 ^ k"] Let_def mult.commute)
  next
    case False
    with dbl Suc.prems show ?thesis
      by (intro exI [of _ "Suc k"]) (auto simp: table_size_loop.simps [of "2 ^ k"] Let_def not_less mult.commute dest: leD)
  qed
qed


lemma pj_hash_create_power:
  assumes "sz \<le> 2 ^ 31"
  shows "\<exists>j. 4 \<le> j \<and> j \<le> 31 \<and> sz \<le> 2 ^ j \<and>
    pj_hash_create sz = Some \<lparr>ht_table = replicate (2 ^ j) [], ht_count = 0, ht_rows = 2 ^ j - 1\<rparr>"
proof -
  obtain j where j: "3 < j" "j \<le> 31" "table_size_loop (2 ^ 3) sz = Some (2 ^ j)" "sz \<le> 2 ^ j"
    using table_size_loop_power [of 3 sz] assms by auto
  have "unat (of_nat (2 ^ j) :: u32) = 2 ^ j"
    using j(2) power_increasing [of j 31 "2 :: nat"] by (intro unat_of_nat_u32) simp
  then have "unat ((2 :: u32) ^ j) = 2 ^ j" by simp
  moreover have "(2 :: u32) ^ j \<noteq> 0" using j(2) by (simp add: exp_eq_zero_iff)
  ultimately have "unat ((2 :: u32) ^ j - 1) + 1 = 2 ^ j"
    by (metis Suc_eq_plus1 unat_minus_one Suc_diff_1 zero_less_numeral zero_less_power)
  with j show ?thesis by (intro exI [of _ j]) (simp add: pj_hash_create_def)
qed

section \<open>Iteration\<close>

text \<open>What an iterator has still to visit, its own entry first.\<close>

definition it_rest :: "'v hash_table \<Rightarrow> 'v hash_iterator \<Rightarrow> 'v hash_entry list" where
  "it_rest ht it = it_entry it @ concat (drop (Suc (it_index it)) (ht_table ht))"

lemma iter_rows_rest:
  assumes "length (ht_table ht) = Suc (unat (ht_rows ht))"
  shows "it_rest ht (iter_rows ht index) = concat (drop index (ht_table ht)) \<and>
    (it_entry (iter_rows ht index) = [] \<longleftrightarrow> concat (drop index (ht_table ht)) = [])"
  using assms
proof (induction ht index rule: iter_rows.induct)
  case (1 ht index)
  show ?case
  proof (cases "index \<le> unat (ht_rows ht)")
    case True
    then have dr: "drop index (ht_table ht) = ht_table ht ! index # drop (Suc index) (ht_table ht)"
      using 1 by (simp add: Cons_nth_drop_Suc)
    show ?thesis
    proof (cases "ht_table ht ! index = []")
      case True
      with 1 dr \<open>index \<le> unat (ht_rows ht)\<close> show ?thesis
        by (simp add: iter_rows.simps [of ht index])
    next
      case False
      with dr \<open>index \<le> unat (ht_rows ht)\<close> show ?thesis
        by (simp add: iter_rows.simps [of ht index] it_rest_def)
    qed
  next
    case False
    with 1 show ?thesis by (simp add: iter_rows.simps [of ht index] it_rest_def)
  qed
qed

section \<open>The interface\<close>

text \<open>
  What a client of a keyed store relies on: \<open>assign t k None\<close> removes the binding of \<open>k\<close>,
  \<open>assign t k (Some v)\<close> sets it, and keys are compared through their canonical form.
\<close>

locale assoc_store =
  fixes lookup :: "'t \<Rightarrow> bytes \<Rightarrow> 'v option"
    and assign :: "'t \<Rightarrow> bytes \<Rightarrow> 'v option \<Rightarrow> 't option"
    and total :: "'t \<Rightarrow> u32"
    and invar :: "'t \<Rightarrow> bool"
    and usable :: "bytes \<Rightarrow> bool"
    and ckey :: "bytes \<Rightarrow> bytes"
    and absmap :: "'t \<Rightarrow> bytes \<Rightarrow> 'v option"
  assumes lookup_absmap: "invar t \<Longrightarrow> usable k \<Longrightarrow> lookup t k = absmap t (ckey k)"
    and assign_absmap: "invar t \<Longrightarrow> usable k \<Longrightarrow>
      \<exists>t'. assign t k v = Some t' \<and> invar t' \<and> absmap t' = (absmap t)(ckey k := v)"
    and total_absmap: "invar t \<Longrightarrow> total t = of_nat (card (dom (absmap t)))"
    and finite_absmap: "invar t \<Longrightarrow> finite (dom (absmap t))"
begin

lemma assign_total: "invar t \<Longrightarrow> usable k \<Longrightarrow> assign t k v \<noteq> None"
  using assign_absmap [of t k v] by auto

lemma assign_invar: "invar t \<Longrightarrow> usable k \<Longrightarrow> assign t k v = Some t' \<Longrightarrow> invar t'"
  using assign_absmap [of t k v] by auto

lemma lookup_assign:
  "invar t \<Longrightarrow> usable k \<Longrightarrow> usable k' \<Longrightarrow> assign t k v = Some t' \<Longrightarrow>
   lookup t' k' = (if ckey k' = ckey k then v else lookup t k')"
  using assign_absmap [of t k v] by (auto simp: lookup_absmap)

lemma total_assign:
  assumes "invar t" "usable k" "assign t k v = Some t'"
  shows "total t' = total t + (if v \<noteq> None then 1 else 0) - (if lookup t k \<noteq> None then 1 else 0)"
proof -
  have t': "invar t'" "absmap t' = (absmap t)(ckey k := v)"
    using assms assign_absmap [of t k v] by auto
  have "card (dom (absmap t)) =
      card (dom (absmap t) - {ckey k}) + (if lookup t k \<noteq> None then 1 else 0)"
    using finite_absmap [OF assms(1)] assms card.remove [of "dom (absmap t)" "ckey k"]
    by (cases "absmap t (ckey k)") (auto simp: lookup_absmap domIff)
  moreover have "card (dom (absmap t')) = card (dom (absmap t) - {ckey k}) + (if v \<noteq> None then 1 else 0)"
    using finite_absmap [OF assms(1)] t'(2) by (auto simp: dom_fun_upd card.insert_remove)
  ultimately show ?thesis
    using assms(1) t'(1) by (auto simp: total_absmap)
qed

end


text \<open>A key given with its exact length denotes itself.\<close>

lemma key_octets_exact [simp]: "key_ok lower k \<Longrightarrow> key_octets k (of_nat (length k)) = k"
proof -
  assume "key_ok lower k"
  then have len: "length k < 2 ^ 32 - 1" by (simp add: key_ok_def)
  then have un: "unat (of_nat (length k) :: u32) = length k"
    by (intro unat_of_nat_u32) simp
  have "unat (- 1 :: u32) = 2 ^ 32 - 1"
    by (simp add: unsigned_minus_1_eq_mask mask_eq_exp_minus_1)
  with un len have "(of_nat (length k) :: u32) \<noteq> - 1" by (metis less_irrefl)
  with un show ?thesis by (simp add: key_octets_def PJ_HASH_KEY_STRING_def)
qed

lemma hash_total: "hash_inv lower ht \<Longrightarrow> pj_hash_count ht = of_nat (card (dom (hash_abs lower ht)))"
  using hash_abs_card [of lower ht] by (simp add: pj_hash_count_def hash_inv_def)

lemma hash_finite: "hash_inv lower ht \<Longrightarrow> finite (dom (hash_abs lower ht))"
  by (simp add: hash_abs_dom chain_map_dom)

lemma hval_ok_calc [simp]:
  "hval_ok lower k 0"
  "hval_ok True k (fst (pj_hash_calc_tolower 0 k))"
  "key_ok lower k \<Longrightarrow> hval_ok False k (pj_hash_calc 0 k (of_nat (length k)))"
  by (simp_all add: hval_ok_def pj_hash_calc_tolower_eq key_hash_def pj_hash_calc_def)

text \<open>
  The store as the transaction layer uses it: lower case keys, the hash computed beforehand for
  \<^verbatim>\<open>pj_hash_set_lower\<close> and left to \<^verbatim>\<open>find_entry\<close> for \<^verbatim>\<open>pj_hash_get_lower\<close>, no pool when an entry
  is removed.
\<close>

interpretation hash_lower: assoc_store
  "\<lambda>ht k. pj_hash_get_lower ht k (of_nat (length k)) 0"
  "\<lambda>ht k v. pj_hash_set_lower (v \<noteq> None) ht k (of_nat (length k)) (fst (pj_hash_calc_tolower 0 k)) v"
  pj_hash_count "hash_inv True" "key_ok True" "canon True" "hash_abs True"
proof
  fix t :: "'v hash_table" and k and v :: "'v option"
  assume inv: "hash_inv True t"
  show "pj_hash_count t = of_nat (card (dom (hash_abs True t)))" using inv by (rule hash_total)
  show "finite (dom (hash_abs True t))" using inv by (rule hash_finite)
  assume k: "key_ok True k"
  show "pj_hash_get_lower t k (of_nat (length k)) 0 = hash_abs True t (canon True k)"
    using hash_get_abs [OF inv, of k "of_nat (length k)" 0] k by (simp add: pj_hash_get_lower_def)
  show "\<exists>t'. pj_hash_set_lower (v \<noteq> None) t k (of_nat (length k)) (fst (pj_hash_calc_tolower 0 k)) v = Some t'
      \<and> hash_inv True t' \<and> hash_abs True t' = (hash_abs True t)(canon True k := v)"
    using hash_set_abs [OF inv, of k "of_nat (length k)" "fst (pj_hash_calc_tolower 0 k)" v "v \<noteq> None" False] k
    by (cases v) (auto simp: pj_hash_set_lower_def)
qed

interpretation hash_exact: assoc_store
  "\<lambda>ht k. pj_hash_get ht k (of_nat (length k)) 0"
  "\<lambda>ht k v. pj_hash_set True ht k (of_nat (length k)) 0 v"
  pj_hash_count "hash_inv False" "key_ok False" "canon False" "hash_abs False"
proof
  fix t :: "'v hash_table" and k and v :: "'v option"
  assume inv: "hash_inv False t"
  show "pj_hash_count t = of_nat (card (dom (hash_abs False t)))" using inv by (rule hash_total)
  show "finite (dom (hash_abs False t))" using inv by (rule hash_finite)
  assume k: "key_ok False k"
  show "pj_hash_get t k (of_nat (length k)) 0 = hash_abs False t (canon False k)"
    using hash_get_abs [OF inv, of k "of_nat (length k)" 0] k by (simp add: pj_hash_get_def)
  show "\<exists>t'. pj_hash_set True t k (of_nat (length k)) 0 v = Some t'
      \<and> hash_inv False t' \<and> hash_abs False t' = (hash_abs False t)(canon False k := v)"
    using hash_set_abs [OF inv, of k "of_nat (length k)" 0 v True False] k
    by (auto simp: pj_hash_set_def)
qed

lemma hash_inv_create:
  assumes "pj_hash_create sz = Some ht" "sz \<le> 2 ^ 31"
  shows "hash_inv lower ht \<and> hash_abs lower ht = Map.empty"
proof -
  obtain j where j: "j \<le> 31"
    "ht = \<lparr>ht_table = replicate (2 ^ j) [], ht_count = 0, ht_rows = 2 ^ j - 1\<rparr>"
    using pj_hash_create_power [OF assms(2)] assms(1) by (metis option.inject)
  have un: "unat (of_nat (2 ^ j) :: u32) = 2 ^ j"
    using j(1) power_increasing [of j 31 "2 :: nat"] by (intro unat_of_nat_u32) simp
  have inv: "hash_inv lower ht"
    using un j by (simp add: hash_inv_def chain_ok_def unat_minus_one exp_eq_zero_iff)
  moreover have "hash_abs lower ht = Map.empty"
    using key_row_bound [OF inv] j(2) by (auto simp: fun_eq_iff hash_abs_def)
  ultimately show ?thesis ..
qed


lemma table_size_loop_zero: "table_size_loop ts sz = Some r \<Longrightarrow> ts = 0 \<Longrightarrow> sz = 0"
proof -
  assume ret: "table_size_loop ts sz = Some r"
  have "ts = 0 \<longrightarrow> sz = 0"
  proof (rule table_size_loop.raw_induct [where P = "\<lambda>ts sz r. ts = 0 \<longrightarrow> sz = 0", OF _ ret])
    fix f and ts sz r :: u32
    assume IH: "\<And>ts sz r. f ts sz = Some r \<Longrightarrow> ts = 0 \<longrightarrow> sz = 0"
      and eq: "(let ts' = push_bit 1 ts in if ts' < sz then f ts' sz else Some ts') = Some r"
    show "ts = 0 \<longrightarrow> sz = 0"
    proof
      assume "ts = 0"
      then show "sz = 0"
        using eq IH [of 0 sz r] by (auto simp: Let_def word_gt_0 split: if_splits)
    qed
  qed
  then show "ts = 0 \<Longrightarrow> sz = 0" by simp
qed

lemma table_size_loop_diverges:
  assumes "k \<le> 31" "2 ^ 31 < sz"
  shows "table_size_loop (2 ^ k) sz = None"
  using assms(1)
proof (induction "31 - k" arbitrary: k)
  case 0
  then have "k = 31" by simp
  moreover have "table_size_loop 0 sz = None"
    using table_size_loop_zero [of 0 sz] assms(2) by (cases "table_size_loop 0 sz") auto
  moreover have "0 < sz" using assms(2) by (auto simp: word_gt_0)
  moreover have "push_bit 1 ((2 :: u32) ^ 31) = 0" by (simp add: push_bit_eq_mult)
  ultimately show ?case
    by (subst table_size_loop.simps) (simp only: Let_def if_True)
next
  case (Suc n)
  then have "n = 31 - Suc k" "Suc k \<le> 31" by simp_all
  then have IH: "table_size_loop (2 ^ Suc k) sz = None" by (rule Suc.hyps(1))
  have "unat ((2 :: u32) ^ Suc k) \<le> unat ((2 :: u32) ^ 31)"
    using unat_of_nat_u32 [of "2 ^ Suc k"] unat_of_nat_u32 [of "2 ^ 31"] \<open>Suc k \<le> 31\<close>
      power_increasing [of "Suc k" 31 "2 :: nat"] by simp
  then have "(2 :: u32) ^ Suc k < sz" using assms(2) by (simp add: word_less_nat_alt)
  with IH show ?case
    by (subst table_size_loop.simps) (simp add: push_bit_eq_mult Let_def mult.commute)
qed

section \<open>Properties\<close>

definition empty16 :: "nat hash_table" where
  "empty16 = \<lparr>ht_table = replicate 16 [], ht_count = 0, ht_rows = 15\<rparr>"

lemma empty16_create: "pj_hash_create 8 = Some empty16"
  by (simp add: pj_hash_create_def table_size_loop.simps empty16_def)

lemma empty16_inv: "hash_inv lower empty16"
  using hash_inv_create [OF empty16_create] by simp

lemma small_keys_ok [simp]: "key_ok lower [c]"
  by (simp add: key_ok_def)

text \<open>
  C33: the lower case table is a map. After storing a value under a key (with the hash the
  caller computed beforehand), a lookup that computes the hash itself returns that value for
  every key equal up to the case of ASCII letters, and is unchanged for every other key.
\<close>

theorem hash_get_lower_after_set:
  assumes "hash_inv True ht" and "key_ok True k" and "key_ok True k'"
  shows "\<exists>ht'. pj_hash_set_lower True ht k (of_nat (length k)) (fst (pj_hash_calc_tolower 0 k)) (Some v) = Some ht'
    \<and> hash_inv True ht'
    \<and> pj_hash_get_lower ht' k' (of_nat (length k')) 0 =
        (if map pj_tolower k' = map pj_tolower k then Some v
         else pj_hash_get_lower ht k' (of_nat (length k')) 0)"
proof -
  obtain ht' where ht': "pj_hash_set_lower True ht k (of_nat (length k)) (fst (pj_hash_calc_tolower 0 k)) (Some v) = Some ht'"
    using hash_lower.assign_total [OF assms(1,2), of "Some v"] by auto
  with hash_lower.assign_invar [OF assms(1,2), of "Some v"]
    hash_lower.lookup_assign [OF assms, of "Some v"]
  show ?thesis by (auto simp: canon_def)
qed

theorem hash_get_lower_after_set_witness:
  "\<exists>ht'. pj_hash_set_lower True empty16 [65] 1 (fst (pj_hash_calc_tolower 0 [65])) (Some 7) = Some ht'
    \<and> pj_hash_get_lower ht' [97] 1 0 = Some 7"
  using hash_get_lower_after_set [OF empty16_inv small_keys_ok small_keys_ok, of 65 7 97]
  by (auto simp: pj_tolower_def)

text \<open>
  Storing a null value removes the key and nothing else, and the entry count always
  equals the number of stored keys: it drops by one exactly when the key was present.
\<close>

theorem hash_set_null_removes:
  assumes "hash_inv True ht" and "key_ok True k" and "key_ok True k'"
  shows "\<exists>ht'. pj_hash_set_lower False ht k (of_nat (length k)) (fst (pj_hash_calc_tolower 0 k)) None = Some ht'
    \<and> hash_inv True ht'
    \<and> pj_hash_get_lower ht' k' (of_nat (length k')) 0 =
        (if map pj_tolower k' = map pj_tolower k then None
         else pj_hash_get_lower ht k' (of_nat (length k')) 0)
    \<and> pj_hash_count ht' =
        pj_hash_count ht - (if pj_hash_get_lower ht k (of_nat (length k)) 0 = None then 0 else 1)"
proof -
  obtain ht' where ht': "pj_hash_set_lower False ht k (of_nat (length k)) (fst (pj_hash_calc_tolower 0 k)) None = Some ht'"
    using hash_lower.assign_total [OF assms(1,2), of None] by auto
  with hash_lower.assign_invar [OF assms(1,2), of None]
    hash_lower.lookup_assign [OF assms, of None] hash_lower.total_assign [OF assms(1,2), of None]
  show ?thesis by (auto simp: canon_def)
qed

theorem hash_set_null_removes_witness:
  "\<exists>ht'. pj_hash_set_lower False empty16 [65] 1 (fst (pj_hash_calc_tolower 0 [65])) None = Some ht'
    \<and> pj_hash_get_lower ht' [97] 1 0 = None"
  using hash_set_null_removes [OF empty16_inv small_keys_ok small_keys_ok, of 65 97]
  by (auto simp: pj_tolower_def)



text \<open>
  C34: the iterator enumerates the entries row by row: \<^verbatim>\<open>pj_hash_first\<close> is null exactly on an
  empty table and otherwise has all entries ahead of it, and each \<^verbatim>\<open>pj_hash_next\<close> drops exactly
  the entry just visited, becoming null after the last one.
\<close>

theorem hash_iteration:
  assumes "hash_inv lower ht"
  shows "(case pj_hash_first ht of
            None \<Rightarrow> concat (ht_table ht) = []
          | Some it \<Rightarrow> it_rest ht it = concat (ht_table ht) \<and> it_entry it \<noteq> [])
    \<and> (\<forall>it. it_entry it \<noteq> [] \<longrightarrow>
         (case pj_hash_next ht it of
            None \<Rightarrow> tl (it_rest ht it) = []
          | Some it' \<Rightarrow> it_rest ht it' = tl (it_rest ht it) \<and> it_entry it' \<noteq> []))"
proof -
  have len: "length (ht_table ht) = Suc (unat (ht_rows ht))" using assms by (simp add: hash_inv_def)
  show ?thesis
    using iter_rows_rest [OF len]
    by (auto simp: pj_hash_first_def pj_hash_next_def Let_def it_rest_def)
qed

theorem hash_iteration_witness: "pj_hash_first empty16 = None"
  using hash_iteration [OF empty16_inv]
  by (cases "pj_hash_first empty16") (auto simp: empty16_def it_rest_def)

end
