(* ===== verification/Rtp.thy ===== *)
theory Rtp
  imports Pj_Prelude
begin

text \<open>
  Model of \<^verbatim>\<open>pjmedia/src/pjmedia/rtp.c\<close>: the outgoing header, the decoder of incoming packets,
  and the sequence number control that classifies them. Bit fields have their declared widths;
  the host is little-endian, so the conversions to network order swap octets. The two values
  drawn from \<^verbatim>\<open>pj_rand\<close> are arguments.
\<close>

section \<open>Byte order\<close>

definition pj_htons :: "u16 \<Rightarrow> u16" where
  "pj_htons w = push_bit 8 w OR drop_bit 8 w"

definition pj_htonl :: "u32 \<Rightarrow> u32" where
  "pj_htonl w = push_bit 24 w OR push_bit 8 (w AND 0xFF00) OR drop_bit 8 (w AND 0xFF0000) OR drop_bit 24 w"

abbreviation pj_ntohs :: "u16 \<Rightarrow> u16" where
  "pj_ntohs \<equiv> pj_htons"

abbreviation pj_ntohl :: "u32 \<Rightarrow> u32" where
  "pj_ntohl \<equiv> pj_htonl"

section \<open>Data\<close>

definition RTP_VERSION :: "2 word" where "RTP_VERSION = 2"
definition RTP_SEQ_MOD :: int where "RTP_SEQ_MOD = 65536"
definition MAX_DROPOUT :: int where "MAX_DROPOUT = 3000"
definition MAX_MISORDER :: int where "MAX_MISORDER = 100"
definition MIN_SEQUENTIAL :: int where "MIN_SEQUENTIAL = 2"

text \<open>\<^verbatim>\<open>seq\<close>, \<^verbatim>\<open>ts\<close> and \<^verbatim>\<open>ssrc\<close> of a header are kept in network order, as in memory.\<close>

record rtp_hdr =
  hdr_v :: "2 word"
  hdr_p :: "1 word"
  hdr_x :: "1 word"
  hdr_cc :: "4 word"
  hdr_m :: "1 word"
  hdr_pt :: "7 word"
  hdr_seq :: u16
  hdr_ts :: u32
  hdr_ssrc :: u32

record rtp_seq_session =
  max_seq :: u16
  cycles :: u32
  base_seq :: u32
  bad_seq :: u32
  probation :: u32

record rtp_session =
  out_hdr :: rtp_hdr
  seq_ctrl :: rtp_seq_session
  out_pt :: u16
  out_extseq :: u32
  has_peer_ssrc :: bool
  peer_ssrc :: u32
  received :: u32

record rtp_status =
  st_bad :: bool
  st_badpt :: bool
  st_badssrc :: bool
  st_dup :: bool
  st_outorder :: bool
  st_probation :: bool
  st_restart :: bool
  st_diff :: u16

definition no_status :: rtp_status where
  "no_status = \<lparr>st_bad = False, st_badpt = False, st_badssrc = False, st_dup = False,
     st_outorder = False, st_probation = False, st_restart = False, st_diff = 0\<rparr>"

record rtp_setting =
  set_flags :: u8
  set_default_pt :: int
  set_sender_ssrc :: u32
  set_peer_ssrc :: u32
  set_seq :: u16
  set_ts :: u32

section \<open>Outgoing side\<close>

definition pjmedia_rtp_session_init :: "u32 \<Rightarrow> u32 \<Rightarrow> int \<Rightarrow> u32 \<Rightarrow> rtp_session" where
  "pjmedia_rtp_session_init rand1 rand2 default_pt sender_ssrc =
     (let ssrc = (if sender_ssrc = 0 \<or> sender_ssrc = - 1 then pj_htonl rand1 else pj_htonl sender_ssrc);
          extseq = rand2 AND 0x7FFF
      in \<lparr>out_hdr = \<lparr>hdr_v = RTP_VERSION, hdr_p = 0, hdr_x = 0, hdr_cc = 0, hdr_m = 0,
                     hdr_pt = ucast (word_of_int default_pt :: u8),
                     hdr_seq = pj_htons (ucast extseq), hdr_ts = 0, hdr_ssrc = ssrc\<rparr>,
          seq_ctrl = \<lparr>max_seq = 0, cycles = 0, base_seq = 0, bad_seq = 0, probation = 0\<rparr>,
          out_pt = word_of_int default_pt,
          out_extseq = extseq, has_peer_ssrc = False, peer_ssrc = 0, received = 0\<rparr>)"

definition pjmedia_rtp_session_init2 :: "u32 \<Rightarrow> u32 \<Rightarrow> rtp_setting \<Rightarrow> rtp_session" where
  "pjmedia_rtp_session_init2 rand1 rand2 settings =
     (let fl = set_flags settings;
          pt = (if fl AND 1 \<noteq> 0 then set_default_pt settings else 0);
          sender_ssrc = (if fl AND 2 \<noteq> 0 then set_sender_ssrc settings else 0);
          ses = pjmedia_rtp_session_init rand1 rand2 pt sender_ssrc;
          ses = (if fl AND 4 \<noteq> 0
                 then ses\<lparr>out_extseq := ucast (set_seq settings),
                          out_hdr := (out_hdr ses)\<lparr>hdr_seq := pj_htons (set_seq settings)\<rparr>\<rparr>
                 else ses);
          ses = (if fl AND 8 \<noteq> 0
                 then ses\<lparr>out_hdr := (out_hdr ses)\<lparr>hdr_ts := pj_htonl (set_ts settings)\<rparr>\<rparr>
                 else ses)
      in if fl AND 16 \<noteq> 0
         then ses\<lparr>has_peer_ssrc := True, peer_ssrc := set_peer_ssrc settings\<rparr> else ses)"

text \<open>
  \<^verbatim>\<open>pjmedia_rtp_encode_rtp\<close>: the header to transmit, or none for a clock frame without payload.
\<close>

definition pjmedia_rtp_encode_rtp ::
  "rtp_session \<Rightarrow> int \<Rightarrow> int \<Rightarrow> int \<Rightarrow> int \<Rightarrow> rtp_session \<times> rtp_hdr option" where
  "pjmedia_rtp_encode_rtp ses pt m payload_len ts_len =
     (let ses = ses\<lparr>out_hdr := (out_hdr ses)
                  \<lparr>hdr_ts := pj_htonl (pj_ntohl (hdr_ts (out_hdr ses)) + word_of_int ts_len)\<rparr>\<rparr>
      in if payload_len = 0 then (ses, None)
         else let extseq = out_extseq ses + 1;
                  hdr = (out_hdr ses)
                    \<lparr>hdr_pt := ucast (if pt = - 1 then ucast (out_pt ses) else word_of_int pt :: u8),
                     hdr_m := ucast (word_of_int m :: u16),
                     hdr_seq := pj_htons (ucast extseq)\<rparr>
              in (ses\<lparr>out_extseq := extseq, out_hdr := hdr\<rparr>, Some hdr))"

section \<open>Incoming packets\<close>

text \<open>
  The packed header structure in memory, octet by octet, and a packet read back through a
  pointer to the structure.
\<close>

definition hdr_image :: "rtp_hdr \<Rightarrow> bytes" where
  "hdr_image h =
     [ucast (hdr_cc h) OR push_bit 4 (ucast (hdr_x h)) OR push_bit 5 (ucast (hdr_p h))
        OR push_bit 6 (ucast (hdr_v h)),
      ucast (hdr_pt h) OR push_bit 7 (ucast (hdr_m h)),
      ucast (hdr_seq h), ucast (drop_bit 8 (hdr_seq h)),
      ucast (hdr_ts h), ucast (drop_bit 8 (hdr_ts h)), ucast (drop_bit 16 (hdr_ts h)), ucast (drop_bit 24 (hdr_ts h)),
      ucast (hdr_ssrc h), ucast (drop_bit 8 (hdr_ssrc h)), ucast (drop_bit 16 (hdr_ssrc h)), ucast (drop_bit 24 (hdr_ssrc h))]"

definition load_u16 :: "bytes \<Rightarrow> nat \<Rightarrow> u16" where
  "load_u16 pkt i = ucast (pkt ! i) OR push_bit 8 (ucast (pkt ! (i + 1)))"

definition load_u32 :: "bytes \<Rightarrow> nat \<Rightarrow> u32" where
  "load_u32 pkt i = ucast (pkt ! i) OR push_bit 8 (ucast (pkt ! (i + 1)))
     OR push_bit 16 (ucast (pkt ! (i + 2))) OR push_bit 24 (ucast (pkt ! (i + 3)))"

definition hdr_cast :: "bytes \<Rightarrow> rtp_hdr" where
  "hdr_cast pkt =
     \<lparr>hdr_v = ucast (drop_bit 6 (pkt ! 0)), hdr_p = ucast (drop_bit 5 (pkt ! 0)),
      hdr_x = ucast (drop_bit 4 (pkt ! 0)), hdr_cc = ucast (pkt ! 0),
      hdr_m = ucast (drop_bit 7 (pkt ! 1)), hdr_pt = ucast (pkt ! 1),
      hdr_seq = load_u16 pkt 2, hdr_ts = load_u32 pkt 4, hdr_ssrc = load_u32 pkt 8\<rparr>"

text \<open>
  What the decoder reports: a status with the position and length of the payload, or a read
  beyond the \<^verbatim>\<open>pkt_len\<close> octets of the packet. The code looks at the version octet and at the
  extension header before it compares any length, so such reads can happen.
\<close>

datatype rtp_decoded =
    Rtp_Error pj_status
  | Rtp_Payload (pl_offset: nat) (pl_len: nat) (pl_ext_len: nat)
  | Rtp_Out_Of_Bounds

definition pjmedia_rtp_decode_rtp2 :: "bytes \<Rightarrow> rtp_decoded" where
  "pjmedia_rtp_decode_rtp2 pkt =
     (if length pkt < 1 then Rtp_Out_Of_Bounds
      else if hdr_v (hdr_cast pkt) \<noteq> RTP_VERSION then Rtp_Error PJMEDIA_RTP_EINVER
      else
        let offset = 12 + unat (hdr_cc (hdr_cast pkt)) * 4
        in if hdr_x (hdr_cast pkt) \<noteq> 0 \<and> length pkt < offset + 4 then Rtp_Out_Of_Bounds
           else
             let ext_len = (if hdr_x (hdr_cast pkt) \<noteq> 0
                            then unat (pj_ntohs (load_u16 pkt (offset + 2))) else 0);
                 offset = (if hdr_x (hdr_cast pkt) \<noteq> 0 then offset + (ext_len + 1) * 4 else offset)
             in if offset > length pkt then Rtp_Error PJMEDIA_RTP_EINLEN
                else
                  let payloadlen = length pkt - offset
                  in if hdr_p (hdr_cast pkt) \<noteq> 0 \<and> payloadlen > 0 then
                       let pad_len = unat (pkt ! (offset + payloadlen - 1))
                       in if pad_len \<le> payloadlen
                          then Rtp_Payload offset (payloadlen - pad_len) ext_len
                          else Rtp_Payload offset payloadlen ext_len
                     else Rtp_Payload offset payloadlen ext_len)"

definition pjmedia_rtp_decode_rtp :: "bytes \<Rightarrow> rtp_decoded" where
  "pjmedia_rtp_decode_rtp pkt = pjmedia_rtp_decode_rtp2 pkt"

section \<open>Sequence numbers\<close>

definition pjmedia_rtp_seq_restart :: "rtp_seq_session \<Rightarrow> u16 \<Rightarrow> rtp_seq_session" where
  "pjmedia_rtp_seq_restart sess seq =
     sess\<lparr>base_seq := ucast seq, max_seq := seq, bad_seq := word_of_int (RTP_SEQ_MOD + 1), cycles := 0\<rparr>"

definition pjmedia_rtp_seq_init :: "rtp_seq_session \<Rightarrow> u16 \<Rightarrow> rtp_seq_session" where
  "pjmedia_rtp_seq_init sess seq =
     (pjmedia_rtp_seq_restart sess seq)\<lparr>max_seq := seq - 1, probation := word_of_int MIN_SEQUENTIAL\<rparr>"

text \<open>
  \<^verbatim>\<open>sess->max_seq + 1\<close> is computed in \<^verbatim>\<open>int\<close>, without wrap-around; \<^verbatim>\<open>udelta\<close> is 16 bits wide.
\<close>

definition pjmedia_rtp_seq_update :: "rtp_seq_session \<Rightarrow> u16 \<Rightarrow> rtp_seq_session \<times> rtp_status" where
  "pjmedia_rtp_seq_update sess seq =
     (let udelta = seq - max_seq sess; st = no_status
      in if probation sess \<noteq> 0 then
           (if uint seq = uint (max_seq sess) + 1 then
              let probation' = probation sess - 1
              in (sess\<lparr>probation := probation', max_seq := seq\<rparr>,
                  st\<lparr>st_probation := (probation' \<noteq> 0), st_diff := 1\<rparr>)
            else
              (sess\<lparr>probation := word_of_int (MIN_SEQUENTIAL - 1), max_seq := seq\<rparr>,
               st\<lparr>st_probation := True, st_bad := True, st_dup := (seq = max_seq sess),
                  st_outorder := (seq \<noteq> max_seq sess)\<rparr>))
         else if udelta = 0 then (sess, st\<lparr>st_dup := True\<rparr>)
         else if uint udelta < MAX_DROPOUT then
           (sess\<lparr>cycles := (if seq < max_seq sess then cycles sess + word_of_int RTP_SEQ_MOD else cycles sess),
                 max_seq := seq\<rparr>,
            st\<lparr>st_diff := udelta\<rparr>)
         else if uint udelta \<le> RTP_SEQ_MOD - MAX_MISORDER then
           (if ucast seq = bad_seq sess then
              (pjmedia_rtp_seq_restart sess seq, st\<lparr>st_restart := True, st_probation := True, st_diff := 1\<rparr>)
            else
              (sess\<lparr>bad_seq := (ucast seq + 1) AND word_of_int (RTP_SEQ_MOD - 1)\<rparr>,
               st\<lparr>st_bad := True, st_outorder := True\<rparr>))
         else (sess, st\<lparr>st_outorder := True\<rparr>))"

text \<open>
  On a bad payload type the code leaves \<^verbatim>\<open>p_seq_st->diff\<close> as the caller had it; the model
  reports 0 there.
\<close>

definition pjmedia_rtp_session_update2 :: "rtp_session \<Rightarrow> rtp_hdr \<Rightarrow> bool \<Rightarrow> rtp_session \<times> rtp_status" where
  "pjmedia_rtp_session_update2 ses hdr check_pt =
     (let seq_st = no_status; ssrc = pj_ntohl (hdr_ssrc hdr);
          ses = (if \<not> has_peer_ssrc ses \<and> peer_ssrc ses = 0 then ses\<lparr>peer_ssrc := ssrc\<rparr> else ses);
          (ses, seq_st) =
            (if ssrc \<noteq> peer_ssrc ses
             then (if \<not> has_peer_ssrc ses then ses\<lparr>peer_ssrc := ssrc\<rparr> else ses, seq_st\<lparr>st_badssrc := True\<rparr>)
             else (ses, seq_st))
      in if check_pt \<and> ucast (hdr_pt hdr) \<noteq> out_pt ses
         then (ses, seq_st\<lparr>st_bad := True, st_badpt := True\<rparr>)
         else
           let sq = pj_ntohs (hdr_seq hdr);
               ses = (if received ses = 0 then ses\<lparr>seq_ctrl := pjmedia_rtp_seq_init (seq_ctrl ses) sq\<rparr> else ses);
               (ctrl, seq_st) = pjmedia_rtp_seq_update (seq_ctrl ses) sq;
               ses = ses\<lparr>seq_ctrl := ctrl\<rparr>;
               ses = (if st_restart seq_st then ses\<lparr>received := received ses + 1\<rparr>
                      else if \<not> st_bad seq_st then ses\<lparr>received := received ses + 1\<rparr> else ses)
           in (ses, seq_st))"

definition pjmedia_rtp_session_update :: "rtp_session \<Rightarrow> rtp_hdr \<Rightarrow> rtp_session \<times> rtp_status" where
  "pjmedia_rtp_session_update ses hdr = pjmedia_rtp_session_update2 ses hdr True"

section \<open>Derived notions\<close>

text \<open>The first two octets hold the bit fields.\<close>

definition hdr_byte0 :: "rtp_hdr \<Rightarrow> u8" where
  "hdr_byte0 h = ucast (hdr_cc h) OR push_bit 4 (ucast (hdr_x h)) OR push_bit 5 (ucast (hdr_p h))
     OR push_bit 6 (ucast (hdr_v h))"

definition hdr_byte1 :: "rtp_hdr \<Rightarrow> u8" where
  "hdr_byte1 h = ucast (hdr_pt h) OR push_bit 7 (ucast (hdr_m h))"

text \<open>Headers of a session: version 2, no padding, no extension, no contributing sources.\<close>

definition hdr_plain :: "rtp_hdr \<Rightarrow> bool" where
  "hdr_plain h \<longleftrightarrow> hdr_v h = RTP_VERSION \<and> hdr_p h = 0 \<and> hdr_x h = 0 \<and> hdr_cc h = 0"

text \<open>The extended sequence number: cycles plus the highest number heard.\<close>

definition ext_seq :: "rtp_seq_session \<Rightarrow> u32" where
  "ext_seq sess = cycles sess + ucast (max_seq sess)"

section \<open>Bits and bytes\<close>

lemma pj_htons_invol [simp]: "pj_htons (pj_htons w) = w"
  by (rule bit_word_eqI) (auto simp: pj_htons_def bit_simps dest: bit_imp_le_length)

lemma pj_htons_zero [simp]: "pj_htons 0 = 0"
  by (simp add: pj_htons_def)

lemma upt_nat_cases: "n < 32 \<Longrightarrow> P 0 \<Longrightarrow> P 1 \<Longrightarrow> P 2 \<Longrightarrow> P 3 \<Longrightarrow> P 4 \<Longrightarrow> P 5 \<Longrightarrow> P 6 \<Longrightarrow> P 7
  \<Longrightarrow> P 8 \<Longrightarrow> P 9 \<Longrightarrow> P 10 \<Longrightarrow> P 11 \<Longrightarrow> P 12 \<Longrightarrow> P 13 \<Longrightarrow> P 14 \<Longrightarrow> P 15
  \<Longrightarrow> P 16 \<Longrightarrow> P 17 \<Longrightarrow> P 18 \<Longrightarrow> P 19 \<Longrightarrow> P 20 \<Longrightarrow> P 21 \<Longrightarrow> P 22 \<Longrightarrow> P 23
  \<Longrightarrow> P 24 \<Longrightarrow> P 25 \<Longrightarrow> P 26 \<Longrightarrow> P 27 \<Longrightarrow> P 28 \<Longrightarrow> P 29 \<Longrightarrow> P 30 \<Longrightarrow> P 31 \<Longrightarrow> P (n::nat)"
  by (simp add: numeral_eq_Suc less_Suc_eq) (elim disjE; simp)

lemma pj_htonl_invol [simp]: "pj_htonl (pj_htonl w) = w"
proof (rule bit_word_eqI)
  fix n assume "n < LENGTH(32)"
  then have "n < 32" by simp
  then show "bit (pj_htonl (pj_htonl w)) n = bit w n"
    by (rule upt_nat_cases; simp add: pj_htonl_def bit_simps bit_numeral_rec)
qed

lemma word_join:
  "ucast (ucast w :: u8) OR push_bit 8 (ucast (ucast (drop_bit 8 w) :: u8)) = (w :: u16)"
  "ucast (ucast x :: u8) OR push_bit 8 (ucast (ucast (drop_bit 8 x) :: u8))
     OR push_bit 16 (ucast (ucast (drop_bit 16 x) :: u8)) OR push_bit 24 (ucast (ucast (drop_bit 24 x) :: u8))
   = (x :: u32)"
   apply (rule bit_word_eqI, auto simp: bit_simps dest: bit_imp_le_length)[1]
proof (rule bit_word_eqI)
  fix n assume "n < LENGTH(32)"
  then have "n < 32" by simp
  then show "bit (ucast (ucast x :: u8) OR push_bit 8 (ucast (ucast (drop_bit 8 x) :: u8))
     OR push_bit 16 (ucast (ucast (drop_bit 16 x) :: u8)) OR push_bit 24 (ucast (ucast (drop_bit 24 x) :: u8)) :: u32) n
   = bit x n"
    by (rule upt_nat_cases; simp add: bit_simps)
qed

lemma bit_field_no_high [simp]:
  "1 \<le> n \<Longrightarrow> \<not> bit (a :: 1 word) n"
  "2 \<le> n \<Longrightarrow> \<not> bit (b :: 2 word) n"
  "4 \<le> n \<Longrightarrow> \<not> bit (c :: 4 word) n"
  "7 \<le> n \<Longrightarrow> \<not> bit (d :: 7 word) n"
  using bit_imp_le_length [of a n] bit_imp_le_length [of b n] bit_imp_le_length [of c n]
    bit_imp_le_length [of d n] by auto

lemma hdr_byte_v: "ucast (drop_bit 6 (hdr_byte0 h)) = hdr_v h"
  by (rule bit_word_eqI) (auto simp: hdr_byte0_def bit_simps)

lemma hdr_byte_p: "ucast (drop_bit 5 (hdr_byte0 h)) = hdr_p h"
  by (rule bit_word_eqI) (auto simp: hdr_byte0_def bit_simps)

lemma hdr_byte_x: "ucast (drop_bit 4 (hdr_byte0 h)) = hdr_x h"
  by (rule bit_word_eqI) (auto simp: hdr_byte0_def bit_simps)

lemma hdr_byte_cc: "ucast (hdr_byte0 h) = hdr_cc h"
  by (rule bit_word_eqI) (auto simp: hdr_byte0_def bit_simps)

lemma hdr_byte_m: "ucast (drop_bit 7 (hdr_byte1 h)) = hdr_m h"
  by (rule bit_word_eqI) (auto simp: hdr_byte1_def bit_simps)

lemma hdr_byte_pt: "ucast (hdr_byte1 h) = hdr_pt h"
  by (rule bit_word_eqI) (auto simp: hdr_byte1_def bit_simps)

lemmas hdr_bytes = hdr_byte_v hdr_byte_p hdr_byte_x hdr_byte_cc hdr_byte_m hdr_byte_pt

lemma hdr_cast_image [simp]: "hdr_cast (hdr_image h @ rest) = h"
proof -
  have "hdr_image h = hdr_byte0 h # hdr_byte1 h # tl (tl (hdr_image h))"
    by (simp add: hdr_image_def hdr_byte0_def hdr_byte1_def)
  moreover have "hdr_cast (hdr_byte0 h # hdr_byte1 h # tl (tl (hdr_image h)) @ rest) = h"
    by (simp add: hdr_cast_def hdr_bytes hdr_image_def load_u16_def load_u32_def word_join)
  ultimately show ?thesis by (metis append_Cons)
qed

lemma length_hdr_image [simp]: "length (hdr_image h) = 12"
  by (simp add: hdr_image_def)

section \<open>Sequence arithmetic\<close>

lemma uint_diff_wrap:
  fixes s m :: u16
  shows "uint (s - m) = (if s < m then 65536 else 0) + uint s - uint m"
proof -
  have d: "uint (s - m) = (uint s - uint m) mod 65536"
    by (simp add: uint_word_ariths)
  have b: "uint s < 65536" "uint m < 65536" "0 \<le> uint s" "0 \<le> uint m"
    using uint_bounded [of s] uint_bounded [of m] by auto
  show ?thesis
  proof (cases "s < m")
    case True
    have "(uint s - uint m) mod 65536 = (uint s - uint m + 65536) mod 65536" by simp
    also have "\<dots> = uint s - uint m + 65536"
      using b True unfolding word_less_alt by (intro mod_pos_pos_trivial; linarith)
    finally show ?thesis using d True by simp
  next
    case False
    then show ?thesis using d b by (simp add: word_less_alt)
  qed
qed

lemma uint_of_u16: "(ucast (x :: u16) :: u32) = word_of_int (uint x)"
  by simp

lemma ucast_diff_wrap:
  fixes s m :: u16
  shows "(if s < m then 65536 else 0) + ucast s = (ucast m :: u32) + ucast (s - m)"
proof -
  show ?thesis
    by (simp only: uint_of_u16 uint_diff_wrap) simp
qed

lemma seq_update_in_order:
  assumes "probation sess = 0" "seq \<noteq> max_seq sess" "uint (seq - max_seq sess) < MAX_DROPOUT"
  shows "pjmedia_rtp_seq_update sess seq =
    (sess\<lparr>cycles := (if seq < max_seq sess then cycles sess + 65536 else cycles sess), max_seq := seq\<rparr>,
     no_status\<lparr>st_diff := seq - max_seq sess\<rparr>)"
  using assms by (simp add: pjmedia_rtp_seq_update_def Let_def RTP_SEQ_MOD_def)

section \<open>Properties\<close>

lemma session_init_plain:
  "hdr_plain (out_hdr (pjmedia_rtp_session_init r1 r2 pt ssrc))"
  "hdr_plain (out_hdr (pjmedia_rtp_session_init2 r1 r2 settings))"
  by (simp_all add: hdr_plain_def pjmedia_rtp_session_init_def pjmedia_rtp_session_init2_def Let_def)

lemma encode_plain:
  "hdr_plain (out_hdr ses) \<Longrightarrow> hdr_plain (out_hdr (fst (pjmedia_rtp_encode_rtp ses pt m n ts)))"
  by (simp add: hdr_plain_def pjmedia_rtp_encode_rtp_def Let_def)

lemma decode_plain:
  "hdr_plain h \<Longrightarrow> pjmedia_rtp_decode_rtp2 (hdr_image h @ payload) = Rtp_Payload 12 (length payload) 0"
  by (simp add: pjmedia_rtp_decode_rtp2_def hdr_plain_def Let_def)

text \<open>
  C36: what a session encodes, the decoder reads back. For a session whose header is plain (as
  both initialisers make it), encoding a frame advances the extended sequence number by one and
  the time stamp by the frame's length, and a receiver that casts the transmitted octets finds
  the same header fields in host order and exactly the payload.
\<close>

theorem rtp_encode_decode:
  assumes "hdr_plain (out_hdr ses)" and "payload \<noteq> []"
    and "pjmedia_rtp_encode_rtp ses pt m (int (length payload)) ts_len = (ses', Some hdr)"
  shows "pjmedia_rtp_decode_rtp2 (hdr_image hdr @ payload) = Rtp_Payload 12 (length payload) 0
    \<and> hdr_cast (hdr_image hdr @ payload) = hdr
    \<and> pj_ntohs (hdr_seq hdr) = ucast (out_extseq ses + 1) \<and> out_extseq ses' = out_extseq ses + 1
    \<and> pj_ntohl (hdr_ts hdr) = pj_ntohl (hdr_ts (out_hdr ses)) + word_of_int ts_len
    \<and> out_hdr ses' = hdr \<and> hdr_plain hdr"
proof -
  from assms(2) have "int (length payload) \<noteq> 0" by simp
  with assms(3) have hdr: "out_hdr ses' = hdr" "pj_ntohs (hdr_seq hdr) = ucast (out_extseq ses + 1)"
    "out_extseq ses' = out_extseq ses + 1"
    "pj_ntohl (hdr_ts hdr) = pj_ntohl (hdr_ts (out_hdr ses)) + word_of_int ts_len"
    by (auto simp: pjmedia_rtp_encode_rtp_def Let_def)
  with encode_plain [OF assms(1), of pt m "int (length payload)" ts_len] assms(3)
  have "hdr_plain hdr" by simp
  then show ?thesis using hdr decode_plain by simp
qed

theorem rtp_encode_decode_witness:
  "\<exists>hdr ses'. pjmedia_rtp_encode_rtp (pjmedia_rtp_session_init 1 2 8 3) (- 1) 0 2 160 = (ses', Some hdr)
    \<and> pjmedia_rtp_decode_rtp2 (hdr_image hdr @ [1, 2]) = Rtp_Payload 12 2 0"
proof -
  obtain hdr ses' where e: "pjmedia_rtp_encode_rtp (pjmedia_rtp_session_init 1 2 8 3) (- 1) 0 (int (length [1, 2 :: u8])) 160
      = (ses', Some hdr)"
    by (simp add: pjmedia_rtp_encode_rtp_def Let_def)
  from rtp_encode_decode [OF session_init_plain(1) _ e] e show ?thesis by auto
qed

text \<open>
  A payload the decoder reports lies inside the packet, behind the fixed header, whatever
  the packet contains.
\<close>

theorem rtp_decode_in_bounds:
  "pjmedia_rtp_decode_rtp2 pkt = Rtp_Payload off len ext \<Longrightarrow> 12 \<le> off \<and> off + len \<le> length pkt"
  by (auto simp: pjmedia_rtp_decode_rtp2_def Let_def split: if_splits)

theorem rtp_decode_in_bounds_witness:
  "12 \<le> (12 :: nat) \<and> 12 + 1 \<le> length [128, 0, 0, 0, 0, 0, 0, 0, 0, 0, 0, 0, 7 :: u8]"
proof -
  have "pjmedia_rtp_decode_rtp2 [128, 0, 0, 0, 0, 0, 0, 0, 0, 0, 0, 0, 7] = Rtp_Payload 12 1 0"
    by code_simp
  then show ?thesis by (rule rtp_decode_in_bounds)
qed


text \<open>
  C38: once a source is validated, a packet whose number is 1 to 2999 ahead of the highest number
  heard, modulo 2 to the 16, is accepted, reported with that distance, and advances the 32-bit
  extended sequence number by exactly the distance, also across the wrap-around.
\<close>

theorem rtp_seq_in_order:
  assumes "probation sess = 0" and "1 \<le> k" and "k < MAX_DROPOUT"
  shows "\<exists>sess'. pjmedia_rtp_seq_update sess (max_seq sess + word_of_int k) = (sess', no_status\<lparr>st_diff := word_of_int k\<rparr>)
    \<and> ext_seq sess' = ext_seq sess + word_of_int k \<and> base_seq sess' = base_seq sess \<and> probation sess' = 0"
proof -
  let ?d = "word_of_int k :: u16" let ?s = "max_seq sess + ?d"
  have k: "uint ?d = k" using assms by (simp add: MAX_DROPOUT_def uint_word_of_int)
  then have nz: "?d \<noteq> 0" using assms(2) by (metis uint_0_eq zero_less_one_class.zero_less_one not_le)
  have d: "?s - max_seq sess = ?d" by simp
  have "pjmedia_rtp_seq_update sess ?s =
    (sess\<lparr>cycles := (if ?s < max_seq sess then cycles sess + 65536 else cycles sess), max_seq := ?s\<rparr>,
     no_status\<lparr>st_diff := ?d\<rparr>)"
    using seq_update_in_order [of sess ?s] assms nz k d by simp
  moreover have "(if ?s < max_seq sess then cycles sess + 65536 else cycles sess) + ucast ?s
      = cycles sess + (ucast (max_seq sess) + ucast ?d)"
    using ucast_diff_wrap [of ?s "max_seq sess"] d by (simp add: add.assoc split: if_splits)
  moreover have "ucast ?d = (word_of_int k :: u32)" using uint_of_u16 [of ?d] by (simp only: k)
  ultimately show ?thesis using assms(1) by (simp add: ext_seq_def add.assoc)
qed

theorem rtp_seq_in_order_witness:
  "\<exists>sess'. pjmedia_rtp_seq_update (\<lparr>max_seq = 65535, cycles = 0, base_seq = 9, bad_seq = 65537, probation = 0\<rparr>) 1
      = (sess', no_status\<lparr>st_diff := 2\<rparr>) \<and> ext_seq sess' = 65537"
proof -
  let ?s = "\<lparr>max_seq = 65535, cycles = 0, base_seq = 9, bad_seq = 65537, probation = 0\<rparr> :: rtp_seq_session"
  have "\<exists>sess'. pjmedia_rtp_seq_update ?s (max_seq ?s + word_of_int 2) = (sess', no_status\<lparr>st_diff := word_of_int 2\<rparr>)
    \<and> ext_seq sess' = ext_seq ?s + word_of_int 2 \<and> base_seq sess' = base_seq ?s \<and> probation sess' = 0"
    by (rule rtp_seq_in_order) (simp_all add: MAX_DROPOUT_def)
  moreover have "max_seq ?s + word_of_int 2 = 1" by simp
  ultimately have "\<exists>sess'. pjmedia_rtp_seq_update ?s 1 = (sess', no_status\<lparr>st_diff := word_of_int 2\<rparr>)
    \<and> ext_seq sess' = ext_seq ?s + word_of_int 2" by metis
  then show ?thesis by (simp add: ext_seq_def)
qed

text \<open>
  A validated source's packet that repeats the highest number, or is less than 100 behind it,
  leaves the sequence state as it is; it is flagged duplicate in the first case and out of order
  in the second, never bad.
\<close>

theorem rtp_seq_dup_or_old:
  assumes "probation sess = 0" and "0 \<le> k" and "k < MAX_MISORDER"
  shows "pjmedia_rtp_seq_update sess (max_seq sess - word_of_int k) =
    (sess, no_status\<lparr>st_dup := (k = 0), st_outorder := (k \<noteq> 0)\<rparr>)"
proof -
  let ?d = "word_of_int k :: u16" let ?s = "max_seq sess - ?d"
  have k: "uint ?d = k" using assms by (simp add: MAX_MISORDER_def uint_word_of_int)
  have d: "?s - max_seq sess = - ?d" by simp
  have u: "uint (- ?d) = (if k = 0 then 0 else 65536 - k)"
    using uint_diff_wrap [of 0 ?d] k assms(2) by (auto simp: word_less_alt)
  have "?d = 0 \<longleftrightarrow> k = 0" using k by (metis uint_0_eq uint_0_iff)
  with u assms show ?thesis
    by (simp add: pjmedia_rtp_seq_update_def Let_def RTP_SEQ_MOD_def MAX_MISORDER_def MAX_DROPOUT_def d no_status_def)
qed

theorem rtp_seq_dup_or_old_witness:
  "pjmedia_rtp_seq_update (\<lparr>max_seq = 2, cycles = 65536, base_seq = 9, bad_seq = 65537, probation = 0\<rparr>) 65535
    = (\<lparr>max_seq = 2, cycles = 65536, base_seq = 9, bad_seq = 65537, probation = 0\<rparr>, no_status\<lparr>st_outorder := True\<rparr>)"
proof -
  let ?s = "\<lparr>max_seq = 2, cycles = 65536, base_seq = 9, bad_seq = 65537, probation = 0\<rparr> :: rtp_seq_session"
  have "pjmedia_rtp_seq_update ?s (max_seq ?s - word_of_int 3) = (?s, no_status\<lparr>st_dup := ((3::int) = 0), st_outorder := ((3::int) \<noteq> 0)\<rparr>)"
    by (rule rtp_seq_dup_or_old) (simp_all add: MAX_MISORDER_def)
  moreover have "max_seq ?s - word_of_int 3 = 65535" by simp
  ultimately have "pjmedia_rtp_seq_update ?s 65535 = (?s, no_status\<lparr>st_dup := ((3::int) = 0), st_outorder := ((3::int) \<noteq> 0)\<rparr>)"
    by metis
  then show ?thesis by (simp add: no_status_def)
qed

text \<open>
  A jump of the sequence number beyond the permitted gap is refused without touching the
  extended sequence number, but when the next packet continues the new numbering the receiver
  restarts there and reports the restart.
\<close>

theorem rtp_seq_two_packet_restart:
  assumes "probation sess = 0"
    and "MAX_DROPOUT \<le> uint (seq - max_seq sess)" and "uint (seq - max_seq sess) < RTP_SEQ_MOD - MAX_MISORDER"
    and "bad_seq sess \<noteq> ucast seq"
  shows "\<exists>sess1. pjmedia_rtp_seq_update sess seq = (sess1, no_status\<lparr>st_bad := True, st_outorder := True\<rparr>)
    \<and> ext_seq sess1 = ext_seq sess
    \<and> pjmedia_rtp_seq_update sess1 (seq + 1) =
        (pjmedia_rtp_seq_restart sess1 (seq + 1), no_status\<lparr>st_restart := True, st_probation := True, st_diff := 1\<rparr>)"
proof -
  let ?b = "(ucast seq + 1) AND (65535 :: u32)" let ?d = "seq - max_seq sess"
  let ?sess1 = "sess\<lparr>bad_seq := ?b\<rparr>"
  have b: "?b = ucast (seq + 1)"
  proof -
    have "uint ?b = (uint seq + 1) mod 65536"
      using uint_bounded [of seq] take_bit_eq_mask [of 16 "uint seq + 1"]
      by (simp add: uint_and uint_word_ariths mask_eq_exp_minus_1 take_bit_eq_mod unsigned_ucast_eq)
    moreover have "uint (ucast (seq + 1) :: u32) = (uint seq + 1) mod 65536"
      by (simp add: unsigned_ucast_eq uint_word_ariths take_bit_eq_mod)
    ultimately show ?thesis by (simp add: word_uint_eq_iff)
  qed
  have "?d \<noteq> 0" using assms(2) by (auto simp: MAX_DROPOUT_def)
  then have one: "pjmedia_rtp_seq_update sess seq = (?sess1, no_status\<lparr>st_bad := True, st_outorder := True\<rparr>)"
    using assms by (simp add: pjmedia_rtp_seq_update_def Let_def RTP_SEQ_MOD_def)
  have "uint (?d + 1) = uint ?d + 1"
    using assms(3) by (simp add: uint_word_ariths RTP_SEQ_MOD_def MAX_MISORDER_def)
  moreover have "?d + 1 = seq + 1 - max_seq sess" by simp
  ultimately have e: "uint (seq + 1 - max_seq sess) = uint ?d + 1" by metis
  then have "seq + 1 \<noteq> max_seq sess" using assms(2) by (auto simp: MAX_DROPOUT_def)
  then have "pjmedia_rtp_seq_update ?sess1 (seq + 1) =
     (pjmedia_rtp_seq_restart ?sess1 (seq + 1), no_status\<lparr>st_restart := True, st_probation := True, st_diff := 1\<rparr>)"
    using assms b e
    by (simp add: pjmedia_rtp_seq_update_def Let_def RTP_SEQ_MOD_def MAX_MISORDER_def MAX_DROPOUT_def)
  with one show ?thesis by (auto simp: ext_seq_def)
qed

theorem rtp_seq_two_packet_restart_witness:
  "\<exists>sess1. pjmedia_rtp_seq_update (\<lparr>max_seq = 10, cycles = 0, base_seq = 9, bad_seq = 65537, probation = 0\<rparr>) 40000
      = (sess1, no_status\<lparr>st_bad := True, st_outorder := True\<rparr>)
    \<and> max_seq (fst (pjmedia_rtp_seq_update sess1 40001)) = 40001"
proof -
  let ?s = "\<lparr>max_seq = 10, cycles = 0, base_seq = 9, bad_seq = 65537, probation = 0\<rparr> :: rtp_seq_session"
  have "\<exists>sess1. pjmedia_rtp_seq_update ?s 40000 = (sess1, no_status\<lparr>st_bad := True, st_outorder := True\<rparr>)
    \<and> ext_seq sess1 = ext_seq ?s
    \<and> pjmedia_rtp_seq_update sess1 (40000 + 1) =
        (pjmedia_rtp_seq_restart sess1 (40000 + 1), no_status\<lparr>st_restart := True, st_probation := True, st_diff := 1\<rparr>)"
    by (rule rtp_seq_two_packet_restart) (simp_all add: MAX_DROPOUT_def RTP_SEQ_MOD_def MAX_MISORDER_def)
  then show ?thesis by (auto simp: pjmedia_rtp_seq_restart_def)
qed

text \<open>
  The first packet of a fresh session is classified bad exactly when its sequence number is 0:
  initialisation stores its predecessor 65535, and the comparison with \<^verbatim>\<open>max_seq + 1\<close> is done in
  \<^verbatim>\<open>int\<close>, where 65536 is not 0.
\<close>

theorem rtp_first_packet_zero:
  "st_bad (snd (pjmedia_rtp_session_update2 (pjmedia_rtp_session_init r1 r2 pt ssrc) hdr False)) \<longleftrightarrow> hdr_seq hdr = 0"
proof -
  have m: "uint seq = uint (seq - 1) + 1 \<longleftrightarrow> seq \<noteq> 0" for seq :: u16
  proof (cases "seq = 0")
    case False
    then have "\<not> seq < 1" using word_less_1 by blast
    then show ?thesis using False uint_diff_wrap [of seq 1] by simp
  next
    case True
    moreover have "uint (- 1 :: u16) = 65535" by code_simp
    ultimately show ?thesis by simp
  qed
  have z: "pj_htons (hdr_seq hdr) = 0 \<longleftrightarrow> hdr_seq hdr = 0"
    using pj_htons_invol [of "hdr_seq hdr"] pj_htons_zero by metis
  show ?thesis
    by (simp add: pjmedia_rtp_session_update2_def pjmedia_rtp_session_init_def Let_def pjmedia_rtp_seq_init_def
      pjmedia_rtp_seq_restart_def pjmedia_rtp_seq_update_def MIN_SEQUENTIAL_def no_status_def m z)
qed

text \<open>
  The report never carries the bad SSRC flag when the payload type is accepted: the sequence
  number check overwrites the whole status word after the SSRC was compared. The peer's SSRC is
  learnt all the same, unless it was configured.
\<close>

theorem rtp_badssrc_lost:
  assumes "\<not> check_pt \<or> ucast (hdr_pt hdr) = out_pt ses"
  shows "\<not> st_badssrc (snd (pjmedia_rtp_session_update2 ses hdr check_pt))
    \<and> peer_ssrc (fst (pjmedia_rtp_session_update2 ses hdr check_pt))
        = (if has_peer_ssrc ses then peer_ssrc ses else pj_ntohl (hdr_ssrc hdr))"
proof -
  have "\<not> st_badssrc (snd (pjmedia_rtp_seq_update sess seq))" for sess seq
    by (simp add: pjmedia_rtp_seq_update_def Let_def no_status_def)
  then show ?thesis using assms
    by (auto simp: pjmedia_rtp_session_update2_def Let_def split: prod.splits)
       (metis snd_conv)+
qed

theorem rtp_badssrc_lost_witness:
  "\<not> st_badssrc (snd (pjmedia_rtp_session_update2
      ((pjmedia_rtp_session_init 1 2 8 3)\<lparr>has_peer_ssrc := True, peer_ssrc := 77\<rparr>)
      \<lparr>hdr_v = 2, hdr_p = 0, hdr_x = 0, hdr_cc = 0, hdr_m = 0, hdr_pt = 8, hdr_seq = 1, hdr_ts = 0, hdr_ssrc = 5\<rparr> False))"
  using rtp_badssrc_lost [of False] by blast

end
