(* ===== verification/Jbuf.thy ===== *)
theory Jbuf
  imports Pj_Prelude
begin

text \<open>
  Model of the adaptive jitter buffer, \<^verbatim>\<open>pjmedia/src/pjmedia/jbuf.c\<close>: the circular list of frames and the
  logic that adapts the delay and discards frames. The parallel arrays of the list are one list of
  slots. Sizes are natural numbers and the places where \<^verbatim>\<open>unsigned\<close> arithmetic can wrap around are
  written out; signed sequence numbers are integers. A loop that need not end returns an option. The
  two statistics, which nothing else reads, are the samples they were updated with.
\<close>

section \<open>Data\<close>

datatype jb_frame_type =
    PJMEDIA_JB_MISSING_FRAME | PJMEDIA_JB_NORMAL_FRAME | PJMEDIA_JB_ZERO_PREFETCH_FRAME
  | PJMEDIA_JB_ZERO_EMPTY_FRAME | PJMEDIA_JB_DISCARDED_FRAME

record jb_slot =
  frame_type :: jb_frame_type
  content :: bytes
  content_len :: nat
  bit_info :: u32
  slot_ts :: u32

record jb_framelist =
  frame_size :: nat
  max_count :: nat
  slots :: "jb_slot list"
  head :: nat
  fl_size :: nat
  discarded_num :: nat
  origin :: int

definition INVALID_OFFSET :: int where "INVALID_OFFSET = - 9999"
definition MAX_BURST_MSEC :: nat where "MAX_BURST_MSEC = 1000"
definition INIT_CYCLE :: int where "INIT_CYCLE = 10"
definition MAX_FRAME_INDEX :: int where "MAX_FRAME_INDEX = 4294967295 div 9000"
definition STA_DISC_SAFE_SHRINKING_DIFF :: int where "STA_DISC_SAFE_SHRINKING_DIFF = 1"
definition JB_MAX_MISORDER :: int where "JB_MAX_MISORDER = 100"
definition JB_MAX_DROPOUT :: int where "JB_MAX_DROPOUT = 3000"
definition PJMEDIA_JB_DEFAULT_INIT_DELAY :: nat where "PJMEDIA_JB_DEFAULT_INIT_DELAY = 15"
definition PJMEDIA_JBUF_DISC_MIN_GAP :: nat where "PJMEDIA_JBUF_DISC_MIN_GAP = 200"
definition PJMEDIA_JBUF_PRO_DISC_MIN_BURST :: nat where "PJMEDIA_JBUF_PRO_DISC_MIN_BURST = 1"
definition PJMEDIA_JBUF_PRO_DISC_MAX_BURST :: nat where "PJMEDIA_JBUF_PRO_DISC_MAX_BURST = 100"
definition PJMEDIA_JBUF_PRO_DISC_T1 :: nat where "PJMEDIA_JBUF_PRO_DISC_T1 = 2000"
definition PJMEDIA_JBUF_PRO_DISC_T2 :: nat where "PJMEDIA_JBUF_PRO_DISC_T2 = 10000"

section \<open>The list of frames\<close>

definition clear_slot :: "jb_slot \<Rightarrow> jb_slot" where
  "clear_slot s = s\<lparr>frame_type := PJMEDIA_JB_MISSING_FRAME, content_len := 0\<rparr>"

definition jb_framelist_reset :: "jb_framelist \<Rightarrow> jb_framelist" where
  "jb_framelist_reset fl =
     fl\<lparr>head := 0, origin := INVALID_OFFSET, fl_size := 0, discarded_num := 0, slots := map clear_slot (slots fl)\<rparr>"

text \<open>\<^verbatim>\<open>jb_framelist_init\<close>; the octets of the freshly allocated arrays are arbitrary.\<close>

definition jb_framelist_init :: "jb_slot list \<Rightarrow> nat \<Rightarrow> nat \<Rightarrow> jb_framelist" where
  "jb_framelist_init mem fsize mcount =
     jb_framelist_reset \<lparr>frame_size = fsize, max_count = mcount, slots = mem, head = 0, fl_size = 0,
       discarded_num = 0, origin = 0\<rparr>"

definition jb_framelist_eff_size :: "jb_framelist \<Rightarrow> nat" where
  "jb_framelist_eff_size fl = as_u32 (int (fl_size fl) - int (discarded_num fl))"

text \<open>The loop of \<^verbatim>\<open>jb_framelist_remove_head\<close> that counts the discarded frames it passes.\<close>

fun uncount_discarded :: "jb_slot list \<Rightarrow> nat \<Rightarrow> nat" where
  "uncount_discarded [] n = n"
| "uncount_discarded (s # ss) n =
     uncount_discarded ss (if frame_type s = PJMEDIA_JB_DISCARDED_FRAME then as_u32 (int n - 1) else n)"

definition clear_range :: "nat \<Rightarrow> nat \<Rightarrow> jb_framelist \<Rightarrow> jb_framelist" where
  "clear_range i n fl =
     fl\<lparr>discarded_num := uncount_discarded (take n (drop i (slots fl))) (discarded_num fl),
        slots := take i (slots fl) @ map clear_slot (take n (drop i (slots fl))) @ drop (i + n) (slots fl)\<rparr>"

definition jb_framelist_remove_head :: "nat \<Rightarrow> jb_framelist \<Rightarrow> jb_framelist \<times> nat" where
  "jb_framelist_remove_head cnt fl =
     (let count = (if cnt > fl_size fl then fl_size fl else cnt)
      in if count = 0 then (fl, 0)
         else
           let tmp = head fl + count;
               (step1, step2) = (if tmp > max_count fl
                                 then (max_count fl - head fl, count - (max_count fl - head fl)) else (count, 0));
               fl = clear_range (head fl) step1 fl;
               fl = (if step2 \<noteq> 0 then clear_range 0 step2 fl else fl)
           in (fl\<lparr>origin := origin fl + int count, head := (head fl + count) mod max_count fl,
                  fl_size := fl_size fl - count\<rparr>, count))"

text \<open>What a frame is returned with.\<close>

record jb_frame =
  got_type :: jb_frame_type
  got_data :: bytes
  got_bits :: u32
  got_ts :: u32
  got_seq :: int

text \<open>
  The loop of \<^verbatim>\<open>jb_framelist_get\<close> over discarded frames. The second component tells whether there
  were any.
\<close>

partial_function (option) skip_discarded :: "jb_framelist \<Rightarrow> bool \<Rightarrow> (jb_framelist \<times> bool) option" where
  "skip_discarded fl prev =
     (if frame_type (slots fl ! head fl) = PJMEDIA_JB_DISCARDED_FRAME
      then skip_discarded (fst (jb_framelist_remove_head 1 fl)) True else Some (fl, prev))"

text \<open>The length of a returned frame is that of \<^verbatim>\<open>got_data\<close>; \<^verbatim>\<open>bufsize\<close> is the value behind a non-null \<^verbatim>\<open>size\<close>.\<close>

definition take_head :: "nat option \<Rightarrow> bool \<Rightarrow> jb_framelist \<Rightarrow> jb_framelist \<times> jb_frame" where
  "take_head bufsize prev_discarded fl =
     (let s = slots fl ! head fl;
          max_size = (case bufsize of Some n \<Rightarrow> n | None \<Rightarrow> content_len s);
          fr = (if prev_discarded
                then \<lparr>got_type = PJMEDIA_JB_MISSING_FRAME, got_data = [], got_bits = 0, got_ts = slot_ts s, got_seq = origin fl\<rparr>
                else \<lparr>got_type = frame_type s, got_data = take (min max_size (content_len s)) (content s),
                      got_bits = bit_info s, got_ts = slot_ts s, got_seq = origin fl\<rparr>)
      in (fl\<lparr>slots := (slots fl)[head fl := s\<lparr>frame_type := PJMEDIA_JB_MISSING_FRAME, content_len := 0,
                                              bit_info := 0, slot_ts := 0\<rparr>],
             origin := origin fl + 1, head := (head fl + 1) mod max_count fl, fl_size := fl_size fl - 1\<rparr>, fr))"

definition jb_framelist_get :: "nat option \<Rightarrow> jb_framelist \<Rightarrow> (jb_framelist \<times> jb_frame option) option" where
  "jb_framelist_get bufsize fl =
     (if fl_size fl = 0 then Some (fl, None)
      else case skip_discarded fl False of
             None \<Rightarrow> None
           | Some (fl, prev_discarded) \<Rightarrow>
               if fl_size fl = 0 then Some (fl, None)
               else let (fl, fr) = take_head bufsize prev_discarded fl in Some (fl, Some fr))"

partial_function (option) peek_pos :: "jb_framelist \<Rightarrow> nat \<Rightarrow> nat \<Rightarrow> nat option" where
  "peek_pos fl pos idx =
     (if frame_type (slots fl ! pos) \<noteq> PJMEDIA_JB_DISCARDED_FRAME then
        (if idx = 0 then Some pos else peek_pos fl ((pos + 1) mod max_count fl) (idx - 1))
      else peek_pos fl ((pos + 1) mod max_count fl) idx)"

definition jb_framelist_peek :: "nat \<Rightarrow> jb_framelist \<Rightarrow> jb_frame option option" where
  "jb_framelist_peek offset fl =
     (if offset \<ge> jb_framelist_eff_size fl then Some None
      else map_option (\<lambda>pos. let s = slots fl ! pos
                             in Some \<lparr>got_type = frame_type s, got_data = take (content_len s) (content s),
                                      got_bits = bit_info s, got_ts = slot_ts s, got_seq = as_s32 (origin fl + int offset)\<rparr>)
             (peek_pos fl (head fl) offset))"

text \<open>
  \<^verbatim>\<open>jb_framelist_put_at\<close>: the first part finds the distance of the frame from the first frame of the
  list, for a list whose origin may have to move, or refuses the frame.
\<close>

definition put_distance :: "int \<Rightarrow> jb_framelist \<Rightarrow> jb_framelist \<times> (pj_status + int)" where
  "put_distance index fl =
     (let distance = index - origin fl
      in if distance < 0 then
           (if origin fl - index < JB_MAX_MISORDER then (fl, Inl PJ_ETOOSMALL)
            else if (origin fl + int (fl_size fl)) mod 2 ^ 32 \<ge> MAX_FRAME_INDEX
            then (fl\<lparr>origin := as_s32 (index - int (fl_size fl))\<rparr>, Inr (int (fl_size fl)))
            else ((jb_framelist_reset fl)\<lparr>origin := index\<rparr>, Inr 0))
         else (fl, Inr distance))"

definition put_window :: "int \<Rightarrow> int \<Rightarrow> jb_framelist \<Rightarrow> jb_framelist \<times> (pj_status + int)" where
  "put_window index distance fl =
     (let (fl, distance) = (if fl_size fl = 0 then (fl\<lparr>origin := index\<rparr>, 0) else (fl, distance))
      in if distance \<ge> int (max_count fl) then
           (if distance > JB_MAX_DROPOUT then ((jb_framelist_reset fl)\<lparr>origin := index\<rparr>, Inr 0)
            else (fl, Inl PJ_ETOOMANY))
         else (fl, Inr distance))"

definition put_slot :: "int \<Rightarrow> int \<Rightarrow> bytes \<Rightarrow> u32 \<Rightarrow> u32 \<Rightarrow> jb_frame_type \<Rightarrow> jb_framelist \<Rightarrow> jb_framelist \<times> pj_status" where
  "put_slot index distance frame bits ts ftype fl =
     (let pos = (head fl + nat distance) mod max_count fl;
          s = slots fl ! pos
      in if frame_type s \<noteq> PJMEDIA_JB_MISSING_FRAME then (fl, PJ_EEXISTS)
         else
           let s = s\<lparr>frame_type := ftype, content_len := length frame, bit_info := bits, slot_ts := ts\<rparr>;
               s = (if ftype = PJMEDIA_JB_NORMAL_FRAME
                    then s\<lparr>content := frame @ drop (length frame) (content s)\<rparr> else s)
           in (fl\<lparr>slots := (slots fl)[pos := s],
                  fl_size := (if origin fl + int (fl_size fl) \<le> index then nat (distance + 1) else fl_size fl)\<rparr>,
               PJ_SUCCESS))"

definition jb_framelist_put_at ::
  "int \<Rightarrow> bytes \<Rightarrow> u32 \<Rightarrow> u32 \<Rightarrow> jb_frame_type \<Rightarrow> jb_framelist \<Rightarrow> jb_framelist \<times> pj_status" where
  "jb_framelist_put_at index frame bits ts ftype fl =
     (if length frame > frame_size fl then (fl, PJ_EINVAL)
      else case put_distance index fl of
             (fl, Inl status) \<Rightarrow> (fl, status)
           | (fl, Inr distance) \<Rightarrow>
               (case put_window index distance fl of
                  (fl, Inl status) \<Rightarrow> (fl, status)
                | (fl, Inr distance) \<Rightarrow> put_slot index distance frame bits ts ftype fl))"

definition jb_framelist_discard :: "int \<Rightarrow> jb_framelist \<Rightarrow> jb_framelist \<times> pj_status" where
  "jb_framelist_discard index fl =
     (if \<not> (index \<ge> origin fl \<and> index < origin fl + int (fl_size fl)) then (fl, PJ_EINVAL)
      else
        let pos = (head fl + nat (index - origin fl)) mod max_count fl
        in (fl\<lparr>slots := (slots fl)[pos := (slots fl ! pos)\<lparr>frame_type := PJMEDIA_JB_DISCARDED_FRAME\<rparr>],
               discarded_num := as_u32 (int (discarded_num fl) + 1)\<rparr>, PJ_SUCCESS))"

declare skip_discarded.simps [code] peek_pos.simps [code]

section \<open>The jitter buffer\<close>

datatype pjmedia_jb_discard_algo = PJMEDIA_JB_DISCARD_NONE | PJMEDIA_JB_DISCARD_STATIC | PJMEDIA_JB_DISCARD_PROGRESSIVE

datatype pjmedia_jb_op = JB_OP_INIT | JB_OP_PUT | JB_OP_GET

datatype jb_status = JB_STATUS_INITIALIZING | JB_STATUS_PROCESSING

text \<open>
  \<^verbatim>\<open>struct pjmedia_jbuf\<close>. The discard function pointer is the algorithm it stands for, null being
  \<open>PJMEDIA_JB_DISCARD_NONE\<close>; of the two statistics, whose mean is a floating point number, the
  model keeps the samples they were updated with.
\<close>

record pjmedia_jbuf =
  jb_frame_size :: nat
  jb_frame_ptime :: nat
  jb_max_count :: nat
  jb_init_prefetch :: int
  jb_min_prefetch :: int
  jb_max_prefetch :: int
  jb_max_burst :: int
  jb_min_shrink_gap :: int
  jb_discard_algo :: pjmedia_jb_discard_algo
  framelist :: jb_framelist
  jb_level :: int
  jb_max_hist_level :: int
  jb_stable_hist :: int
  jb_last_op :: pjmedia_jb_op
  jb_eff_level :: int
  jb_prefetch :: int
  jb_prefetching :: bool
  jb_status :: jb_status
  jb_init_cycle_cnt :: int
  jb_discard_ref :: int
  jb_discard_dist :: nat
  jb_delay :: "nat list"
  jb_burst :: "int list"
  jb_lost :: u32
  jb_discard :: u32
  jb_empty :: u32

definition pjmedia_jbuf_set_discard :: "pjmedia_jb_discard_algo \<Rightarrow> pjmedia_jbuf \<Rightarrow> pjmedia_jbuf \<times> pj_status" where
  "pjmedia_jbuf_set_discard algo jb = (jb\<lparr>jb_discard_algo := algo\<rparr>, PJ_SUCCESS)"

definition pjmedia_jbuf_reset :: "pjmedia_jbuf \<Rightarrow> pjmedia_jbuf" where
  "pjmedia_jbuf_reset jb =
     jb\<lparr>jb_level := 0, jb_last_op := JB_OP_INIT, jb_stable_hist := 0, jb_status := JB_STATUS_INITIALIZING,
        jb_init_cycle_cnt := 0, jb_max_hist_level := 0, jb_prefetching := jb_prefetch jb \<noteq> 0,
        jb_discard_dist := 0, framelist := jb_framelist_reset (framelist jb)\<rparr>"

text \<open>\<^verbatim>\<open>pjmedia_jbuf_create\<close>; a frame duration of zero is a division by zero.\<close>

definition pjmedia_jbuf_create :: "jb_slot list \<Rightarrow> nat \<Rightarrow> nat \<Rightarrow> nat \<Rightarrow> pjmedia_jbuf option" where
  "pjmedia_jbuf_create mem fsize ptime mcount =
     (if ptime = 0 then None
      else
        let jb = \<lparr>jb_frame_size = fsize, jb_frame_ptime = ptime, jb_max_count = mcount, jb_init_prefetch = 0,
                  jb_min_prefetch = 0, jb_max_prefetch = int (as_u32 (int mcount * 4) div 5),
                  jb_max_burst = int (max (MAX_BURST_MSEC div ptime) (as_u32 (int mcount * 3) div 4)),
                  jb_min_shrink_gap = int (PJMEDIA_JBUF_DISC_MIN_GAP div ptime),
                  jb_discard_algo = PJMEDIA_JB_DISCARD_NONE, framelist = jb_framelist_init mem fsize mcount,
                  jb_level = 0, jb_max_hist_level = 0, jb_stable_hist = 0, jb_last_op = JB_OP_INIT, jb_eff_level = 0,
                  jb_prefetch = int (min PJMEDIA_JB_DEFAULT_INIT_DELAY (as_u32 (int mcount * 4) div 5)),
                  jb_prefetching = False, jb_status = JB_STATUS_INITIALIZING, jb_init_cycle_cnt = 0, jb_discard_ref = 0,
                  jb_discard_dist = 0, jb_delay = [], jb_burst = [], jb_lost = 0, jb_discard = 0, jb_empty = 0\<rparr>;
            (jb, _) = pjmedia_jbuf_set_discard PJMEDIA_JB_DISCARD_PROGRESSIVE jb
        in Some (pjmedia_jbuf_reset jb))"

definition pjmedia_jbuf_set_ptime :: "nat \<Rightarrow> pjmedia_jbuf \<Rightarrow> pjmedia_jbuf option" where
  "pjmedia_jbuf_set_ptime ptime jb =
     (if ptime = 0 then None
      else Some (jb\<lparr>jb_frame_ptime := ptime, jb_min_shrink_gap := int (PJMEDIA_JBUF_DISC_MIN_GAP div ptime),
                    jb_max_burst := int (max (MAX_BURST_MSEC div ptime) (jb_max_count jb * 3 div 4))\<rparr>))"

definition pjmedia_jbuf_set_fixed :: "nat \<Rightarrow> pjmedia_jbuf \<Rightarrow> pjmedia_jbuf \<times> pj_status" where
  "pjmedia_jbuf_set_fixed prefetch jb =
     (if \<not> prefetch \<le> jb_max_count jb then (jb, PJ_EINVAL)
      else pjmedia_jbuf_set_discard PJMEDIA_JB_DISCARD_NONE
             (jb\<lparr>jb_min_prefetch := int prefetch, jb_max_prefetch := int prefetch,
                 jb_prefetch := int prefetch, jb_init_prefetch := int prefetch\<rparr>))"

definition pjmedia_jbuf_set_adaptive :: "nat \<Rightarrow> nat \<Rightarrow> nat \<Rightarrow> pjmedia_jbuf \<Rightarrow> pjmedia_jbuf \<times> pj_status" where
  "pjmedia_jbuf_set_adaptive prefetch min_prefetch max_prefetch jb =
     (if \<not> (min_prefetch \<le> max_prefetch \<and> prefetch \<le> max_prefetch \<and> max_prefetch \<le> jb_max_count jb) then (jb, PJ_EINVAL)
      else (jb\<lparr>jb_prefetch := int prefetch, jb_init_prefetch := int prefetch, jb_min_prefetch := int min_prefetch,
               jb_max_prefetch := int max_prefetch\<rparr>, PJ_SUCCESS))"

definition pjmedia_jbuf_is_full :: "pjmedia_jbuf \<Rightarrow> bool" where
  "pjmedia_jbuf_is_full jb \<longleftrightarrow> fl_size (framelist jb) = max_count (framelist jb)"

definition STABLE_HISTORY_LIMIT :: int where "STABLE_HISTORY_LIMIT = 20"

definition jbuf_calculate_jitter :: "pjmedia_jbuf \<Rightarrow> pjmedia_jbuf" where
  "jbuf_calculate_jitter jb =
     (let jb = jb\<lparr>jb_burst := jb_burst jb @ [jb_level jb], jb_max_hist_level := max (jb_max_hist_level jb) (jb_level jb)\<rparr>
      in if jb_level jb < jb_eff_level jb then
           let jb = jb\<lparr>jb_stable_hist := jb_stable_hist jb + 1\<rparr>
           in if jb_stable_hist jb > STABLE_HISTORY_LIMIT then
                let diff = (jb_eff_level jb - jb_max_hist_level jb) sdiv 3;
                    diff = (if diff < 1 then 1 else diff);
                    jb = jb\<lparr>jb_eff_level := jb_eff_level jb - diff\<rparr>;
                    jb = (if jb_init_prefetch jb \<noteq> 0 then
                            let p = jb_eff_level jb;
                                p = (if p < jb_min_prefetch jb then jb_min_prefetch jb else p);
                                p = (if p > jb_max_prefetch jb then jb_max_prefetch jb else p)
                            in jb\<lparr>jb_prefetch := p\<rparr>
                          else jb)
                in jb\<lparr>jb_max_hist_level := 0, jb_stable_hist := 0\<rparr>
              else jb
         else if jb_level jb > jb_eff_level jb then
           let jb = jb\<lparr>jb_eff_level := min (jb_max_hist_level jb) (as_s32 (int (jb_max_count jb * 4 div 5)))\<rparr>;
               jb = (if jb_init_prefetch jb \<noteq> 0 then
                       let p = jb_eff_level jb;
                           p = (if p > jb_max_prefetch jb then jb_max_prefetch jb else p);
                           p = (if p < jb_min_prefetch jb then jb_min_prefetch jb else p)
                       in jb\<lparr>jb_prefetch := p\<rparr>
                     else jb)
           in jb\<lparr>jb_stable_hist := 0\<rparr>
         else jb\<lparr>jb_stable_hist := 0\<rparr>)"

definition jbuf_discard_static :: "pjmedia_jbuf \<Rightarrow> pjmedia_jbuf" where
  "jbuf_discard_static jb =
     (let burst_level = max (jb_eff_level jb) (jb_level jb);
          diff = as_s32 (int (jb_framelist_eff_size (framelist jb)) - burst_level * 2)
      in if diff \<ge> STA_DISC_SAFE_SHRINKING_DIFF then
           let seq_origin = origin (framelist jb);
               jb = (if seq_origin < jb_discard_ref jb then jb\<lparr>jb_discard_ref := seq_origin\<rparr> else jb)
           in if seq_origin - jb_discard_ref jb \<ge> jb_min_shrink_gap jb then
                let (fl, diff) = jb_framelist_remove_head 1 (framelist jb)
                in jb\<lparr>framelist := fl, jb_discard_ref := origin fl, jb_discard := jb_discard jb + of_nat diff\<rparr>
              else jb
         else jb)"

text \<open>The estimate \<^verbatim>\<open>T\<close> of \<^verbatim>\<open>jbuf_discard_progressive\<close>, in milliseconds.\<close>

definition discard_duration :: "nat \<Rightarrow> nat" where
  "discard_duration burst_level =
     (if burst_level \<le> PJMEDIA_JBUF_PRO_DISC_MIN_BURST then PJMEDIA_JBUF_PRO_DISC_T1
      else if burst_level \<ge> PJMEDIA_JBUF_PRO_DISC_MAX_BURST then PJMEDIA_JBUF_PRO_DISC_T2
      else PJMEDIA_JBUF_PRO_DISC_T1 +
           (PJMEDIA_JBUF_PRO_DISC_T2 - PJMEDIA_JBUF_PRO_DISC_T1) * (burst_level - PJMEDIA_JBUF_PRO_DISC_MIN_BURST) div
           (PJMEDIA_JBUF_PRO_DISC_MAX_BURST - PJMEDIA_JBUF_PRO_DISC_MIN_BURST))"

definition jbuf_discard_progressive :: "pjmedia_jbuf \<Rightarrow> pjmedia_jbuf" where
  "jbuf_discard_progressive jb =
     (if jb_last_op jb \<noteq> JB_OP_PUT then jb
      else
        let cur_size = jb_framelist_eff_size (framelist jb);
            burst_level = as_u32 (max (jb_eff_level jb) (jb_level jb))
        in if cur_size \<le> burst_level then jb\<lparr>jb_discard_dist := 0\<rparr>
           else
             let overflow = cur_size - burst_level;
                 discard_dist = discard_duration burst_level div overflow div jb_frame_ptime jb;
                 last_seq = as_s32 (origin (framelist jb) + int (fl_size (framelist jb)) - 1);
                 jb = (if jb_discard_dist jb = 0 then jb\<lparr>jb_discard_ref := last_seq\<rparr>
                       else if last_seq < jb_discard_ref jb then jb\<lparr>jb_discard_ref := last_seq\<rparr> else jb);
                 jb = jb\<lparr>jb_discard_dist := as_u32 (max (jb_min_shrink_gap jb) (as_s32 (int discard_dist)))\<rparr>
             in if last_seq \<ge> jb_discard_ref jb + as_s32 (int (jb_discard_dist jb)) then
                  let discard_seq = as_s32 (jb_discard_ref jb + int (jb_discard_dist jb));
                      discard_seq = (if discard_seq < origin (framelist jb) then origin (framelist jb) else discard_seq);
                      (fl, _) = jb_framelist_discard discard_seq (framelist jb)
                  in jb\<lparr>framelist := fl, jb_discard_ref := discard_seq\<rparr>
                else jb)"

definition run_discard_algo :: "pjmedia_jbuf \<Rightarrow> pjmedia_jbuf" where
  "run_discard_algo jb =
     (case jb_discard_algo jb of
        PJMEDIA_JB_DISCARD_NONE \<Rightarrow> jb
      | PJMEDIA_JB_DISCARD_STATIC \<Rightarrow> jbuf_discard_static jb
      | PJMEDIA_JB_DISCARD_PROGRESSIVE \<Rightarrow> jbuf_discard_progressive jb)"

text \<open>\<^verbatim>\<open>jbuf_update\<close>: what happens at a switch of operation; the second component is false on the early return.\<close>

definition jbuf_switch :: "pjmedia_jb_op \<Rightarrow> pjmedia_jbuf \<Rightarrow> pjmedia_jbuf \<times> bool" where
  "jbuf_switch oper jb =
     (let jb = jb\<lparr>jb_last_op := oper\<rparr>;
          (jb, continue) =
            (if jb_status jb = JB_STATUS_INITIALIZING then
               let jb = jb\<lparr>jb_init_cycle_cnt := jb_init_cycle_cnt jb + 1\<rparr>
               in if jb_init_cycle_cnt jb \<ge> INIT_CYCLE \<and> oper = JB_OP_GET
                  then (jb\<lparr>jb_status := JB_STATUS_PROCESSING, jb_level := min (jb_level jb) (jb_max_burst jb)\<rparr>, True)
                  else (jb\<lparr>jb_level := 0\<rparr>, False)
             else (jb, True))
      in if \<not> continue then (jb, False)
         else
           let jb = (if oper = JB_OP_GET \<and> jb_level jb \<le> jb_max_burst jb then jbuf_calculate_jitter jb else jb)
           in (jb\<lparr>jb_level := 0\<rparr>, True))"

definition jbuf_update :: "pjmedia_jb_op \<Rightarrow> pjmedia_jbuf \<Rightarrow> pjmedia_jbuf" where
  "jbuf_update oper jb =
     (let (jb, continue) = (if jb_last_op jb \<noteq> oper then jbuf_switch oper jb else (jb, True))
      in if continue \<and> jb_status jb = JB_STATUS_PROCESSING then run_discard_algo jb else jb)"

text \<open>The loop of \<^verbatim>\<open>pjmedia_jbuf_put_frame3\<close> that makes room for the frame.\<close>

partial_function (option) put_retry ::
  "int \<Rightarrow> bytes \<Rightarrow> u32 \<Rightarrow> u32 \<Rightarrow> pjmedia_jbuf \<Rightarrow> pj_status \<Rightarrow> (pjmedia_jbuf \<times> pj_status) option" where
  "put_retry frame_seq frame bits ts jb status =
     (if status \<noteq> PJ_ETOOMANY then Some (jb, status)
      else
        let distance = frame_seq - origin (framelist jb) - int (jb_max_count jb) + 1;
            (fl, removed) = jb_framelist_remove_head (as_u32 distance) (framelist jb);
            (fl, status) = jb_framelist_put_at frame_seq frame bits ts PJMEDIA_JB_NORMAL_FRAME fl
        in put_retry frame_seq frame bits ts
             (jb\<lparr>framelist := fl, jb_discard := jb_discard jb + of_nat removed\<rparr>) status)"

declare put_retry.simps [code]

text \<open>The end of \<^verbatim>\<open>pjmedia_jbuf_put_frame3\<close>, once the frame is stored or refused.\<close>

definition put_account :: "int \<Rightarrow> pj_status \<Rightarrow> pjmedia_jbuf \<Rightarrow> pjmedia_jbuf \<times> bool" where
  "put_account cur_size status jb =
     (let new_size = as_s32 (int (jb_framelist_eff_size (framelist jb)))
      in if status = PJ_SUCCESS then
           let jb = (if jb_prefetching jb \<and> new_size \<ge> jb_prefetch jb then jb\<lparr>jb_prefetching := False\<rparr> else jb);
               jb = jb\<lparr>jb_level := jb_level jb + (if new_size > cur_size then new_size - cur_size else 1)\<rparr>
           in (jbuf_update JB_OP_PUT jb, False)
         else (jb\<lparr>jb_discard := jb_discard jb + 1\<rparr>, True))"

text \<open>\<^verbatim>\<open>pjmedia_jbuf_put_frame3\<close>; the boolean is the flag \<^verbatim>\<open>discarded\<close>.\<close>

definition pjmedia_jbuf_put_frame3 ::
  "bytes \<Rightarrow> u32 \<Rightarrow> int \<Rightarrow> u32 \<Rightarrow> pjmedia_jbuf \<Rightarrow> (pjmedia_jbuf \<times> bool) option" where
  "pjmedia_jbuf_put_frame3 frame bits frame_seq ts jb =
     (let cur_size = as_s32 (int (jb_framelist_eff_size (framelist jb)));
          frame = take (min (length frame) (jb_frame_size jb)) frame;
          (fl, status) = jb_framelist_put_at frame_seq frame bits ts PJMEDIA_JB_NORMAL_FRAME (framelist jb)
      in map_option (\<lambda>(jb, status). put_account cur_size status jb)
           (put_retry frame_seq frame bits ts (jb\<lparr>framelist := fl\<rparr>) status))"

definition pjmedia_jbuf_put_frame :: "bytes \<Rightarrow> int \<Rightarrow> pjmedia_jbuf \<Rightarrow> pjmedia_jbuf option" where
  "pjmedia_jbuf_put_frame frame frame_seq jb = map_option fst (pjmedia_jbuf_put_frame3 frame 0 frame_seq 0 jb)"

definition pjmedia_jbuf_put_frame2 :: "bytes \<Rightarrow> u32 \<Rightarrow> int \<Rightarrow> pjmedia_jbuf \<Rightarrow> (pjmedia_jbuf \<times> bool) option" where
  "pjmedia_jbuf_put_frame2 frame bits frame_seq jb = pjmedia_jbuf_put_frame3 frame bits frame_seq 0 jb"

text \<open>
  \<^verbatim>\<open>pjmedia_jbuf_get_frame3\<close>: the type handed back and, when the frame list returned a frame, what
  is stored behind the other pointers.
\<close>

definition pjmedia_jbuf_get_frame3 ::
  "nat option \<Rightarrow> pjmedia_jbuf \<Rightarrow> (pjmedia_jbuf \<times> jb_frame_type \<times> jb_frame option) option" where
  "pjmedia_jbuf_get_frame3 bufsize jb =
     (if jb_prefetching jb then
        let jb = jb\<lparr>jb_empty := jb_empty jb + 1, jb_level := jb_level jb + 1\<rparr>
        in Some (jbuf_update JB_OP_GET jb, PJMEDIA_JB_ZERO_PREFETCH_FRAME, None)
      else case jb_framelist_get bufsize (framelist jb) of
             None \<Rightarrow> None
           | Some (fl, Some fr) \<Rightarrow>
               let jb = jb\<lparr>framelist := fl\<rparr>;
                   (jb, ftype) = (if got_type fr = PJMEDIA_JB_NORMAL_FRAME then (jb, PJMEDIA_JB_NORMAL_FRAME)
                                  else (jb\<lparr>jb_lost := jb_lost jb + 1\<rparr>, PJMEDIA_JB_MISSING_FRAME));
                   jb = (if jb_last_op jb = JB_OP_PUT then
                           jb\<lparr>jb_delay := jb_delay jb @
                               [as_u32 ((int (jb_framelist_eff_size (framelist jb)) + 1) * int (jb_frame_ptime jb))]\<rparr>
                         else jb);
                   jb = jb\<lparr>jb_level := jb_level jb + 1\<rparr>
               in Some (jbuf_update JB_OP_GET jb, ftype, Some fr)
           | Some (fl, None) \<Rightarrow>
               let jb = jb\<lparr>framelist := fl\<rparr>;
                   jb = (if jb_prefetch jb \<noteq> 0 then jb\<lparr>jb_prefetching := True\<rparr> else jb);
                   jb = jb\<lparr>jb_empty := jb_empty jb + 1, jb_level := jb_level jb + 1\<rparr>
               in Some (jbuf_update JB_OP_GET jb, PJMEDIA_JB_ZERO_EMPTY_FRAME, None))"

definition pjmedia_jbuf_get_frame2 ::
  "nat option \<Rightarrow> pjmedia_jbuf \<Rightarrow> (pjmedia_jbuf \<times> jb_frame_type \<times> (bytes \<times> u32) option) option" where
  "pjmedia_jbuf_get_frame2 bufsize jb =
     map_option (\<lambda>(jb, ftype, fr). (jb, ftype, map_option (\<lambda>fr. (got_data fr, got_bits fr)) fr))
       (pjmedia_jbuf_get_frame3 bufsize jb)"

definition pjmedia_jbuf_get_frame :: "pjmedia_jbuf \<Rightarrow> (pjmedia_jbuf \<times> jb_frame_type \<times> bytes option) option" where
  "pjmedia_jbuf_get_frame jb =
     map_option (\<lambda>(jb, ftype, fr). (jb, ftype, map_option got_data fr)) (pjmedia_jbuf_get_frame3 None jb)"

definition pjmedia_jbuf_peek_frame :: "nat \<Rightarrow> pjmedia_jbuf \<Rightarrow> (jb_frame_type \<times> jb_frame option) option" where
  "pjmedia_jbuf_peek_frame offset jb =
     (case jb_framelist_peek offset (framelist jb) of
        None \<Rightarrow> None
      | Some None \<Rightarrow> Some (PJMEDIA_JB_ZERO_EMPTY_FRAME, None)
      | Some (Some fr) \<Rightarrow>
          Some (if got_type fr = PJMEDIA_JB_NORMAL_FRAME then PJMEDIA_JB_NORMAL_FRAME else PJMEDIA_JB_MISSING_FRAME, Some fr))"

text \<open>The loop of \<^verbatim>\<open>pjmedia_jbuf_remove_frame\<close>; \<^verbatim>\<open>count\<close> is unsigned.\<close>

partial_function (option) remove_more :: "jb_framelist \<Rightarrow> nat \<Rightarrow> nat \<Rightarrow> (jb_framelist \<times> nat) option" where
  "remove_more fl count last_discard_num =
     (if \<not> discarded_num fl < last_discard_num then Some (fl, count)
      else
        let frame_cnt = last_discard_num - discarded_num fl;
            (fl', removed) = jb_framelist_remove_head frame_cnt fl
        in remove_more fl' (as_u32 (int count - int frame_cnt + int removed)) (discarded_num fl))"

declare remove_more.simps [code]

definition pjmedia_jbuf_remove_frame :: "nat \<Rightarrow> pjmedia_jbuf \<Rightarrow> (pjmedia_jbuf \<times> nat) option" where
  "pjmedia_jbuf_remove_frame frame_cnt jb =
     (let (fl, count) = jb_framelist_remove_head frame_cnt (framelist jb)
      in map_option (\<lambda>(fl, count). (jb\<lparr>framelist := fl\<rparr>, count))
           (remove_more fl count (discarded_num (framelist jb))))"

text \<open>\<^verbatim>\<open>pjmedia_jbuf_get_state\<close>, without the delay and burst statistics.\<close>

record pjmedia_jb_state =
  st_frame_size :: nat
  st_min_prefetch :: int
  st_max_prefetch :: int
  st_max_count :: nat
  st_burst :: int
  st_prefetch :: int
  st_size :: nat
  st_empty :: u32
  st_discard :: u32
  st_lost :: u32

definition pjmedia_jbuf_get_state :: "pjmedia_jbuf \<Rightarrow> pjmedia_jb_state" where
  "pjmedia_jbuf_get_state jb =
     \<lparr>st_frame_size = jb_frame_size jb, st_min_prefetch = jb_min_prefetch jb, st_max_prefetch = jb_max_prefetch jb,
      st_max_count = jb_max_count jb, st_burst = jb_eff_level jb, st_prefetch = jb_prefetch jb,
      st_size = jb_framelist_eff_size (framelist jb), st_empty = jb_empty jb, st_discard = jb_discard jb,
      st_lost = jb_lost jb\<rparr>"

end
