(* ===== verification/Jbuf_Window.thy ===== *)
theory Jbuf_Window
  imports Jbuf
begin

text \<open>
  The frame list of the jitter buffer is a window of consecutive sequence numbers. This theory has the
  invariant of the circular array, the abstract window with its operations, and the proofs that the
  operations of \<^verbatim>\<open>jbuf.c\<close> keep the invariant and act on the window as specified. The locale
  \<open>jitter_list\<close> states what the jitter buffer relies on.
\<close>

section \<open>The invariant of the frame list\<close>

text \<open>
  The array read from its head on. Slots beyond the size are missing, the number of discarded slots
  is the one counted, and every slot is of the form the operations leave.
\<close>

definition is_discarded :: "jb_slot \<Rightarrow> bool" where
  "is_discarded s \<longleftrightarrow> frame_type s = PJMEDIA_JB_DISCARDED_FRAME"

definition slot_ok :: "nat \<Rightarrow> jb_slot \<Rightarrow> bool" where
  "slot_ok n s \<longleftrightarrow> length (content s) = n \<and> content_len s \<le> n
     \<and> frame_type s \<in> {PJMEDIA_JB_MISSING_FRAME, PJMEDIA_JB_NORMAL_FRAME, PJMEDIA_JB_DISCARDED_FRAME}
     \<and> (frame_type s = PJMEDIA_JB_MISSING_FRAME \<longrightarrow> content_len s = 0)"

definition ring :: "jb_framelist \<Rightarrow> jb_slot list" where
  "ring fl = rotate (head fl) (slots fl)"

definition fl_inv :: "jb_framelist \<Rightarrow> bool" where
  "fl_inv fl \<longleftrightarrow> 0 < max_count fl \<and> max_count fl \<le> 2 ^ 29 \<and> length (slots fl) = max_count fl
     \<and> head fl < max_count fl \<and> fl_size fl \<le> max_count fl
     \<and> (\<forall>s \<in> set (drop (fl_size fl) (ring fl)). frame_type s = PJMEDIA_JB_MISSING_FRAME)
     \<and> discarded_num fl = length (filter is_discarded (ring fl))
     \<and> (\<forall>s \<in> set (slots fl). slot_ok (frame_size fl) s)"

definition seq_ok :: "int \<Rightarrow> bool" where
  "seq_ok q \<longleftrightarrow> - (2 ^ 30) \<le> q \<and> q < 2 ^ 31"

section \<open>The window of sequence numbers\<close>

text \<open>
  The abstract frame list: the sequence number of its first cell, and for each number from there on
  what is known of the frame, as operations on lists without any circular array.
\<close>

datatype jb_cell = Lost | Held bytes u32 u32 | Dropped

type_synonym jb_window = "int \<times> jb_cell list"

datatype jb_played = Played int bytes u32 u32 | Gap int

definition cell :: "jb_slot \<Rightarrow> jb_cell" where
  "cell s = (case frame_type s of
               PJMEDIA_JB_NORMAL_FRAME \<Rightarrow> Held (take (content_len s) (content s)) (bit_info s) (slot_ts s)
             | PJMEDIA_JB_DISCARDED_FRAME \<Rightarrow> Dropped
             | _ \<Rightarrow> Lost)"

definition window :: "jb_framelist \<Rightarrow> jb_window" where
  "window fl = (origin fl, map cell (take (fl_size fl) (ring fl)))"

definition played :: "jb_frame \<Rightarrow> jb_played" where
  "played fr = (if got_type fr = PJMEDIA_JB_NORMAL_FRAME then Played (got_seq fr) (got_data fr) (got_bits fr) (got_ts fr)
                else Gap (got_seq fr))"

definition win_restart :: "int \<Rightarrow> jb_window \<Rightarrow> jb_window" where
  "win_restart q win =
     (let (a, w) = win
      in if a - q \<ge> JB_MAX_MISORDER
         then (if (a + int (length w)) mod 2 ^ 32 \<ge> MAX_FRAME_INDEX then (q - int (length w), w) else (q, []))
         else (a, w))"

definition win_jump :: "nat \<Rightarrow> int \<Rightarrow> jb_window \<Rightarrow> jb_window" where
  "win_jump mx q win =
     (let (a, w) = win in if w = [] \<or> (q - a \<ge> int mx \<and> q - a > JB_MAX_DROPOUT) then (q, []) else (a, w))"

definition win_put :: "nat \<Rightarrow> int \<Rightarrow> jb_cell \<Rightarrow> jb_window \<Rightarrow> jb_window \<times> pj_status" where
  "win_put mx q f win =
     (let (a, w) = win_restart q win
      in if q < a then ((a, w), PJ_ETOOSMALL)
         else
           let (a, w) = win_jump mx q (a, w); d = nat (q - a)
           in if d \<ge> mx then ((a, w), PJ_ETOOMANY)
              else if d \<ge> length w then ((a, w @ replicate (d - length w) Lost @ [f]), PJ_SUCCESS)
              else if w ! d = Lost then ((a, w[d := f]), PJ_SUCCESS)
              else ((a, w), PJ_EEXISTS))"

definition win_get :: "jb_window \<Rightarrow> jb_window \<times> jb_played option" where
  "win_get win =
     (let (a, w) = win; n = length (takeWhile (\<lambda>c. c = Dropped) w); b = a + int n
      in case drop n w of
           [] \<Rightarrow> ((b, []), None)
         | c # w' \<Rightarrow>
             ((b + 1, w'), Some (case c of Held f bits ts \<Rightarrow> if n = 0 then Played b f bits ts else Gap b | _ \<Rightarrow> Gap b)))"

definition win_remove :: "nat \<Rightarrow> jb_window \<Rightarrow> jb_window \<times> nat" where
  "win_remove n win = (let (a, w) = win in ((a + int (min n (length w)), drop n w), min n (length w)))"

definition win_discard :: "int \<Rightarrow> jb_window \<Rightarrow> jb_window \<times> pj_status" where
  "win_discard q win =
     (let (a, w) = win
      in if a \<le> q \<and> q < a + int (length w) then ((a, w[nat (q - a) := Dropped]), PJ_SUCCESS) else (win, PJ_EINVAL))"

definition stored :: "bytes \<Rightarrow> u32 \<Rightarrow> u32 \<Rightarrow> jb_slot \<Rightarrow> jb_slot" where
  "stored frame bits ts s = s\<lparr>frame_type := PJMEDIA_JB_NORMAL_FRAME, content_len := length frame, bit_info := bits,
     slot_ts := ts, content := frame @ drop (length frame) (content s)\<rparr>"

text \<open>What a window holds after a list of arrivals, whatever their order: the first frame of each number.\<close>

definition lookup_cell :: "(int \<times> jb_cell) list \<Rightarrow> int \<Rightarrow> jb_cell" where
  "lookup_cell ps q = (case map_of ps q of None \<Rightarrow> Lost | Some c \<Rightarrow> c)"

fun span :: "int \<Rightarrow> (int \<times> jb_cell) list \<Rightarrow> nat" where
  "span a [] = 0"
| "span a ((q, c) # ps) = max (Suc (nat (q - a))) (span a ps)"

definition filled :: "int \<Rightarrow> (int \<times> jb_cell) list \<Rightarrow> jb_window" where
  "filled a ps = (a, map (\<lambda>k. lookup_cell ps (a + int k)) [0..<span a ps])"

section \<open>The ring\<close>

lemma ring_length [simp]: "length (ring fl) = length (slots fl)"
  by (simp add: ring_def)

lemma set_ring [simp]: "set (ring fl) = set (slots fl)"
  by (simp add: ring_def)

lemma ring_split: "head fl < length (slots fl) \<Longrightarrow> ring fl = drop (head fl) (slots fl) @ take (head fl) (slots fl)"
  by (simp add: ring_def rotate_drop_take)

lemma ring_nth:
  "k < length (slots fl) \<Longrightarrow> ring fl ! k = slots fl ! ((head fl + k) mod length (slots fl))"
  by (simp add: ring_def nth_rotate)

lemma mod_add_inj:
  fixes h i d n :: nat
  assumes "i < n" "d < n" "(h + i) mod n = (h + d) mod n"
  shows "i = d"
proof (cases i d rule: linorder_cases)
  case less
  then have "n dvd (h + d) - (h + i)" using assms(3) by (metis add_le_cancel_left mod_eq_dvd_iff_nat less_imp_le)
  with less assms(2) show ?thesis by (simp add: nat_dvd_not_less)
next
  case greater
  then have "n dvd (h + i) - (h + d)" using assms(3) by (metis add_le_cancel_left mod_eq_dvd_iff_nat less_imp_le)
  with greater assms(1) show ?thesis by (simp add: nat_dvd_not_less)
qed

lemma rotate_update:
  assumes "d < length xs"
  shows "rotate h (xs[(h + d) mod length xs := v]) = (rotate h xs)[d := v]"
proof (rule nth_equalityI)
  fix i assume "i < length (rotate h (xs[(h + d) mod length xs := v]))"
  then have i: "i < length xs" by simp
  have "(h + i) mod length xs = (h + d) mod length xs \<longleftrightarrow> i = d"
    using mod_add_inj [OF i assms] by blast
  moreover have "(h + d) mod length xs < length xs" using assms by (intro mod_less_divisor) linarith
  ultimately show "rotate h (xs[(h + d) mod length xs := v]) ! i = (rotate h xs)[d := v] ! i"
    using i assms by (auto simp: nth_rotate nth_list_update)
qed simp

section \<open>Removing the oldest frames\<close>

lemma uncount_discarded_eq:
  "length (filter is_discarded ss) \<le> n \<Longrightarrow> n < 2 ^ 32 \<Longrightarrow>
     uncount_discarded ss n = n - length (filter is_discarded ss)"
proof (induction ss arbitrary: n)
  case (Cons s ss)
  have "as_u32 (int n - 1) = n - 1" if "0 < n" using as_u32_diff [of 1 n] that Cons.prems(2) by simp
  with Cons show ?case by (auto simp: is_discarded_def)
qed simp

lemma clear_range_0 [simp]: "clear_range i 0 fl = fl"
  by (simp add: clear_range_def)

lemma clear_range_fields [simp]:
  "head (clear_range i n fl) = head fl" "max_count (clear_range i n fl) = max_count fl"
  "origin (clear_range i n fl) = origin fl" "fl_size (clear_range i n fl) = fl_size fl"
  "frame_size (clear_range i n fl) = frame_size fl"
  by (simp_all add: clear_range_def)

lemma remove_head_eq:
  assumes "head fl < max_count fl" "c = min cnt (fl_size fl)" "0 < c"
  shows "jb_framelist_remove_head cnt fl =
    ((clear_range 0 (c - (max_count fl - head fl)) (clear_range (head fl) (min c (max_count fl - head fl)) fl))
       \<lparr>origin := origin fl + int c, head := (head fl + c) mod max_count fl, fl_size := fl_size fl - c\<rparr>, c)"
proof -
  have "(if cnt > fl_size fl then fl_size fl else cnt) = c" using assms by simp
  moreover have "head fl + c > max_count fl \<longleftrightarrow> c > max_count fl - head fl" using assms by linarith
  ultimately show ?thesis using assms(3) by (simp add: jb_framelist_remove_head_def Let_def)
qed

lemma remove_head_none:
  "min cnt (fl_size fl) = 0 \<Longrightarrow> jb_framelist_remove_head cnt fl = (fl, 0)"
  by (auto simp: jb_framelist_remove_head_def min_def split: if_splits)

lemma clear_range_front: "length xs = n \<Longrightarrow> slots fl = xs @ ys \<Longrightarrow> slots (clear_range 0 n fl) = map clear_slot xs @ ys"
  by (simp add: clear_range_def)

lemma clear_range_mid:
  "length xs = i \<Longrightarrow> length ys = n \<Longrightarrow> slots fl = xs @ ys @ zs \<Longrightarrow>
     slots (clear_range i n fl) = xs @ map clear_slot ys @ zs"
  by (simp add: clear_range_def)

text \<open>The two steps of a removal, whichever way the removed range lies in the array.\<close>

lemma clear_two_ranges:
  assumes "slots fl = A @ B" "length A = h" "length B = m - h" "h < m" "c \<le> m"
  shows "rotate ((h + c) mod m) (slots (clear_range 0 (c - (m - h)) (clear_range h (min c (m - h)) fl)))
           = drop c (B @ A) @ map clear_slot (take c (B @ A))"
proof (cases "c \<le> m - h")
  case True
  define B1 B2 where "B1 = take c B" and "B2 = drop c B"
  have B: "B = B1 @ B2" "length B1 = c" using True assms(3) by (simp_all add: B1_def B2_def)
  have "slots (clear_range h c fl) = A @ map clear_slot B1 @ B2"
    using assms(1,2) B by (intro clear_range_mid) auto
  moreover have "rotate ((h + c) mod m) (A @ map clear_slot B1 @ B2) = B2 @ A @ map clear_slot B1"
  proof (cases "h + c = m")
    case True
    moreover have "c + length B2 = m - h" using assms(3) B by simp
    ultimately have "B2 = []" using assms(4) by (simp flip: length_0_conv)
    with True show ?thesis by simp
  next
    case False
    then have "(h + c) mod m = length (A @ map clear_slot B1)" using True assms B by simp
    then show ?thesis by (metis append.assoc rotate_append)
  qed
  ultimately show ?thesis using True B by simp
next
  case False
  define A1 A2 where "A1 = take (c - (m - h)) A" and "A2 = drop (c - (m - h)) A"
  have A: "A = A1 @ A2" "length A1 = c - (m - h)" using False assms by (simp_all add: A1_def A2_def)
  have "slots (clear_range h (m - h) fl) = A1 @ A2 @ map clear_slot B"
    using clear_range_mid [of A h B "m - h" fl "[]"] assms A by simp
  then have "slots (clear_range 0 (c - (m - h)) (clear_range h (m - h) fl)) = map clear_slot A1 @ A2 @ map clear_slot B"
    using A by (intro clear_range_front) auto
  moreover have "(h + c) mod m = length (map clear_slot A1)"
  proof -
    have "h + c = m + (c - (m - h))" "c - (m - h) < m" using False assms by linarith+
    then have "(h + c) mod m = c - (m - h)" by (metis mod_add_self1 mod_less)
    then show ?thesis using A by simp
  qed
  moreover have "rotate (length (map clear_slot A1)) (map clear_slot A1 @ A2 @ map clear_slot B)
      = (A2 @ map clear_slot B) @ map clear_slot A1" by (rule rotate_append)
  moreover have "drop c (B @ A) = A2" "take c (B @ A) = B @ A1" using False A assms(2,3,4) by simp_all
  ultimately show ?thesis using False by simp
qed

lemma ring_fields [simp]:
  "ring (fl\<lparr>origin := a\<rparr>) = ring fl" "ring (fl\<lparr>fl_size := b\<rparr>) = ring fl" "ring (fl\<lparr>discarded_num := c\<rparr>) = ring fl"
  by (simp_all add: ring_def)

lemma remove_head_ring:
  assumes fl: "head fl < max_count fl" "length (slots fl) = max_count fl" "fl_size fl \<le> max_count fl"
    and c: "c = min cnt (fl_size fl)"
  shows "ring (fst (jb_framelist_remove_head cnt fl)) = drop c (ring fl) @ map clear_slot (take c (ring fl))"
proof (cases "c = 0")
  case True
  then show ?thesis using c by (simp add: remove_head_none)
next
  case False
  have r: "ring fl = drop (head fl) (slots fl) @ take (head fl) (slots fl)" using fl by (simp add: ring_split)
  show ?thesis unfolding r using False fl c
      clear_two_ranges [of fl "take (head fl) (slots fl)" "drop (head fl) (slots fl)" "head fl" "max_count fl" c]
    by (subst remove_head_eq [OF fl(1) c]) (simp_all add: ring_def)
qed

lemma clear_two_discarded:
  assumes "slots fl = A @ B" "length A = h" "length B = m - h" "h < m" "c \<le> m"
    and "discarded_num fl < 2 ^ 32" "length (filter is_discarded (take c (B @ A))) \<le> discarded_num fl"
  shows "discarded_num (clear_range 0 (c - (m - h)) (clear_range h (min c (m - h)) fl))
           = discarded_num fl - length (filter is_discarded (take c (B @ A)))"
proof (cases "c \<le> m - h")
  case True
  then show ?thesis using assms by (simp add: clear_range_def uncount_discarded_eq)
next
  case False
  have "take (c - (m - h)) (slots (clear_range h (m - h) fl)) = take (c - (m - h)) A"
    using clear_range_mid [of A h B "m - h" fl "[]"] assms False by simp
  moreover have "discarded_num (clear_range h (m - h) fl) = discarded_num fl - length (filter is_discarded B)"
    using assms False by (simp add: clear_range_def uncount_discarded_eq)
  moreover have "discarded_num (clear_range 0 (c - (m - h)) (clear_range h (m - h) fl))
      = uncount_discarded (take (c - (m - h)) (slots (clear_range h (m - h) fl))) (discarded_num (clear_range h (m - h) fl))"
    by (simp add: clear_range_def [of 0])
  moreover have "take c (B @ A) = B @ take (c - (m - h)) A" using assms False by simp
  ultimately show ?thesis using assms False
    by (simp add: uncount_discarded_eq)
qed

lemma remove_head_discarded:
  assumes fl: "head fl < max_count fl" "length (slots fl) = max_count fl" "fl_size fl \<le> max_count fl"
    and c: "c = min cnt (fl_size fl)"
    and d: "discarded_num fl < 2 ^ 32" "length (filter is_discarded (take c (ring fl))) \<le> discarded_num fl"
  shows "discarded_num (fst (jb_framelist_remove_head cnt fl)) = discarded_num fl - length (filter is_discarded (take c (ring fl)))"
proof (cases "c = 0")
  case True
  then show ?thesis using c by (simp add: remove_head_none)
next
  case False
  have r: "ring fl = drop (head fl) (slots fl) @ take (head fl) (slots fl)" using fl by (simp add: ring_split)
  show ?thesis using d unfolding r using False fl c
      clear_two_discarded [of fl "take (head fl) (slots fl)" "drop (head fl) (slots fl)" "head fl" "max_count fl" c]
    by (subst remove_head_eq [OF fl(1) c]) simp_all
qed

lemma remove_head_fields:
  assumes "head fl < max_count fl"
  shows "head (fst (jb_framelist_remove_head cnt fl)) < max_count fl"
    "max_count (fst (jb_framelist_remove_head cnt fl)) = max_count fl"
    "frame_size (fst (jb_framelist_remove_head cnt fl)) = frame_size fl"
    "origin (fst (jb_framelist_remove_head cnt fl)) = origin fl + int (min cnt (fl_size fl))"
    "fl_size (fst (jb_framelist_remove_head cnt fl)) = fl_size fl - min cnt (fl_size fl)"
    "snd (jb_framelist_remove_head cnt fl) = min cnt (fl_size fl)"
  using remove_head_eq [OF assms refl, of cnt] remove_head_none [of cnt fl] assms
  by (cases "min cnt (fl_size fl) = 0"; simp)+

lemma length_from_ring: "length (slots fl) = length (ring fl)" by simp

lemma clear_slot_simps [simp]:
  "frame_type (clear_slot s) = PJMEDIA_JB_MISSING_FRAME" "content_len (clear_slot s) = 0"
  "content (clear_slot s) = content s" "\<not> is_discarded (clear_slot s)"
  by (simp_all add: clear_slot_def is_discarded_def)

lemma slot_ok_clear [simp]: "slot_ok n s \<Longrightarrow> slot_ok n (clear_slot s)"
  by (simp add: slot_ok_def)

lemma fl_invD:
  assumes "fl_inv fl"
  shows "0 < max_count fl" "max_count fl \<le> 2 ^ 29" "length (slots fl) = max_count fl" "head fl < max_count fl"
    "fl_size fl \<le> max_count fl" "discarded_num fl = length (filter is_discarded (ring fl))"
    "\<And>s. s \<in> set (drop (fl_size fl) (ring fl)) \<Longrightarrow> frame_type s = PJMEDIA_JB_MISSING_FRAME"
    "\<And>s. s \<in> set (slots fl) \<Longrightarrow> slot_ok (frame_size fl) s"
  using assms by (simp_all add: fl_inv_def)

lemma discarded_num_window:
  assumes "fl_inv fl"
  shows "discarded_num fl = length (filter is_discarded (take (fl_size fl) (ring fl)))" "discarded_num fl \<le> fl_size fl"
proof -
  have "filter is_discarded (drop (fl_size fl) (ring fl)) = []"
    using fl_invD(7) [OF assms] by (auto simp: filter_empty_conv is_discarded_def)
  then show d: "discarded_num fl = length (filter is_discarded (take (fl_size fl) (ring fl)))"
    using fl_invD(6) [OF assms] append_take_drop_id [of "fl_size fl" "ring fl"]
    by (metis append_Nil2 filter_append)
  show "discarded_num fl \<le> fl_size fl"
    unfolding d by (rule order_trans [OF length_filter_le]) simp
qed

lemma fl_inv_remove_head:
  assumes i: "fl_inv fl"
  shows "fl_inv (fst (jb_framelist_remove_head cnt fl))"
proof -
  note i' = fl_invD [OF i]
  define c where "c = min cnt (fl_size fl)"
  define fl' where "fl' = fst (jb_framelist_remove_head cnt fl)"
  have r: "ring fl' = drop c (ring fl) @ map clear_slot (take c (ring fl))"
    using remove_head_ring [OF i'(4,3,5) c_def] by (simp add: fl'_def)
  have f: "filter is_discarded (ring fl) = filter is_discarded (take c (ring fl)) @ filter is_discarded (drop c (ring fl))"
    by (metis append_take_drop_id filter_append)
  have d: "discarded_num fl' = discarded_num fl - length (filter is_discarded (take c (ring fl)))"
    unfolding fl'_def using remove_head_discarded [OF i'(4,3,5) c_def] discarded_num_window(2) [OF i] i'(2,5,6) f by simp
  note fs = remove_head_fields [OF i'(4), of cnt, folded fl'_def c_def]
  have l: "length (slots fl') = max_count fl" using i'(3) by (simp add: length_from_ring r del: ring_length)
  have "c \<le> fl_size fl" by (simp add: c_def)
  then have "drop (fl_size fl - c) (ring fl') = drop (fl_size fl) (ring fl) @ map clear_slot (take c (ring fl))"
    using i'(3,5) by (simp add: r)
  moreover have "set (slots fl') \<subseteq> set (slots fl) \<union> clear_slot ` set (slots fl)"
    unfolding set_ring [of fl', symmetric] r by (auto dest: in_set_takeD in_set_dropD)
  moreover have "frame_type s = PJMEDIA_JB_MISSING_FRAME"
    if "s \<in> set (drop (fl_size fl) (ring fl) @ map clear_slot (take c (ring fl)))" for s
    using that i'(7) by auto
  moreover have "discarded_num fl' = length (filter is_discarded (ring fl'))"
    unfolding r d i'(6) f by (simp add: filter_map o_def)
  ultimately show ?thesis unfolding fl'_def [symmetric] fl_inv_def using i'(1,2,5,8) fs l
    by fastforce
qed

lemma window_length [simp]: "fl_inv fl \<Longrightarrow> length (snd (window fl)) = fl_size fl"
  by (simp add: window_def fl_invD)

lemma remove_head_refines:
  assumes i: "fl_inv fl"
  shows "win_remove n (window fl) =
           (window (fst (jb_framelist_remove_head n fl)), snd (jb_framelist_remove_head n fl))"
proof -
  note i' = fl_invD [OF i]
  show ?thesis
    using remove_head_fields [OF i'(4), of n] remove_head_ring [OF i'(4,3,5) refl, of n] i'(3,5)
    by (simp add: win_remove_def window_def drop_map drop_take min_def)
qed

lemma filter_update_count:
  assumes "d < length xs" "\<not> P (xs ! d)" "P v"
  shows "length (filter P (xs[d := v])) = Suc (length (filter P xs))"
  using assms by (subst (2) id_take_nth_drop [OF assms(1)]) (simp add: upd_conv_take_nth_drop)

lemma filter_update_same:
  assumes "d < length xs" "\<not> P (xs ! d)" "\<not> P v"
  shows "filter P (xs[d := v]) = filter P xs"
  using assms by (subst (2) id_take_nth_drop [OF assms(1)]) (simp add: upd_conv_take_nth_drop)

lemma ring_update:
  assumes "fl_inv fl" "d < max_count fl" "slots fl' = (slots fl)[(head fl + d) mod max_count fl := v]" "head fl' = head fl"
  shows "ring fl' = (ring fl)[d := v]"
  using assms rotate_update [of d "slots fl" "head fl" v] by (simp add: ring_def fl_invD)

section \<open>Storing a frame\<close>

lemma cell_lost: "slot_ok n s \<Longrightarrow> cell s = Lost \<longleftrightarrow> frame_type s = PJMEDIA_JB_MISSING_FRAME"
  by (auto simp: cell_def slot_ok_def)

lemma cell_dropped: "slot_ok n s \<Longrightarrow> cell s = Dropped \<longleftrightarrow> frame_type s = PJMEDIA_JB_DISCARDED_FRAME"
  by (auto simp: cell_def slot_ok_def)

lemma ring_ok: "fl_inv fl \<Longrightarrow> k < max_count fl \<Longrightarrow> slot_ok (frame_size fl) (ring fl ! k)"
  using fl_invD(3,8) nth_mem [of k "ring fl"] by (simp add: fl_invD)

lemma ring_missing: "fl_inv fl \<Longrightarrow> fl_size fl \<le> k \<Longrightarrow> k < max_count fl \<Longrightarrow> frame_type (ring fl ! k) = PJMEDIA_JB_MISSING_FRAME"
  using fl_invD(7) [of fl "ring fl ! k"] fl_invD(3) [of fl] nth_mem [of "k - fl_size fl" "drop (fl_size fl) (ring fl)"] by simp

lemma put_slot_eq:
  assumes "fl_inv fl" "d < max_count fl" "index = origin fl + int d"
  shows "put_slot index (int d) frame bits ts PJMEDIA_JB_NORMAL_FRAME fl =
     (if frame_type (ring fl ! d) \<noteq> PJMEDIA_JB_MISSING_FRAME then (fl, PJ_EEXISTS)
      else (fl\<lparr>slots := (slots fl)[(head fl + d) mod max_count fl := stored frame bits ts (ring fl ! d)],
               fl_size := max (fl_size fl) (Suc d)\<rparr>, PJ_SUCCESS))"
  using assms by (auto simp: put_slot_def Let_def ring_nth fl_invD stored_def max_def nat_add_distrib)

lemma stored_simps [simp]:
  "frame_type (stored frame bits ts s) = PJMEDIA_JB_NORMAL_FRAME" "\<not> is_discarded (stored frame bits ts s)"
  "cell (stored frame bits ts s) = Held frame bits ts"
  by (simp_all add: stored_def is_discarded_def cell_def)

lemma slot_ok_stored: "slot_ok n s \<Longrightarrow> length frame \<le> n \<Longrightarrow> slot_ok n (stored frame bits ts s)"
  by (simp add: stored_def slot_ok_def)

lemma fl_inv_put_slot:
  assumes i: "fl_inv fl" and d: "d < max_count fl" and q: "index = origin fl + int d" and f: "length frame \<le> frame_size fl"
  shows "fl_inv (fst (put_slot index (int d) frame bits ts PJMEDIA_JB_NORMAL_FRAME fl))"
proof (cases "frame_type (ring fl ! d) = PJMEDIA_JB_MISSING_FRAME")
  case True
  note i' = fl_invD [OF i]
  define v where "v = stored frame bits ts (ring fl ! d)"
  define fl' where "fl' = fst (put_slot index (int d) frame bits ts PJMEDIA_JB_NORMAL_FRAME fl)"
  have e: "fl' = fl\<lparr>slots := (slots fl)[(head fl + d) mod max_count fl := v], fl_size := max (fl_size fl) (Suc d)\<rparr>"
    unfolding fl'_def put_slot_eq [OF i d q] using True by (simp add: v_def)
  have r: "ring fl' = (ring fl)[d := v]" by (rule ring_update [OF i d]) (simp_all add: e)
  have v: "slot_ok (frame_size fl) v" "\<not> is_discarded v"
    using slot_ok_stored [OF ring_ok [OF i d] f] by (simp_all add: v_def)
  have "\<not> is_discarded (ring fl ! d)" using True by (simp add: is_discarded_def)
  then have "filter is_discarded (ring fl') = filter is_discarded (ring fl)"
    unfolding r using d i'(3) v(2) by (intro filter_update_same) simp_all
  moreover have "drop (max (fl_size fl) (Suc d)) (ring fl') = drop (max (fl_size fl) (Suc d)) (ring fl)"
    unfolding r by simp
  moreover have "set (drop (max (fl_size fl) (Suc d)) (ring fl)) \<subseteq> set (drop (fl_size fl) (ring fl))"
    by (rule set_drop_subset_set_drop) simp
  moreover have "set (slots fl') \<subseteq> insert v (set (slots fl))"
    unfolding e by (simp add: set_update_subset_insert)
  ultimately show ?thesis unfolding fl'_def [symmetric] fl_inv_def using i' v d
    by (auto simp: e)
next
  case False
  then show ?thesis using i by (simp add: put_slot_eq [OF i d q])
qed

lemma put_slot_refines:
  assumes i: "fl_inv fl" and d: "d < max_count fl" and q: "index = origin fl + int d" and win: "window fl = (a, w)"
  shows "(window (fst (put_slot index (int d) frame bits ts PJMEDIA_JB_NORMAL_FRAME fl)),
          snd (put_slot index (int d) frame bits ts PJMEDIA_JB_NORMAL_FRAME fl)) =
     (if d \<ge> length w then ((a, w @ replicate (d - length w) Lost @ [Held frame bits ts]), PJ_SUCCESS)
      else if w ! d = Lost then ((a, w[d := Held frame bits ts]), PJ_SUCCESS)
      else ((a, w), PJ_EEXISTS))"
proof -
  note i' = fl_invD [OF i]
  define v where "v = stored frame bits ts (ring fl ! d)"
  have w: "a = origin fl" "w = map cell (take (fl_size fl) (ring fl))" "length w = fl_size fl"
    using win i'(3,5) by (auto simp: window_def)
  show ?thesis
  proof (cases "frame_type (ring fl ! d) = PJMEDIA_JB_MISSING_FRAME")
    case True
    define fl' where "fl' = fst (put_slot index (int d) frame bits ts PJMEDIA_JB_NORMAL_FRAME fl)"
    have e: "fl' = fl\<lparr>slots := (slots fl)[(head fl + d) mod max_count fl := v], fl_size := max (fl_size fl) (Suc d)\<rparr>"
      and st: "snd (put_slot index (int d) frame bits ts PJMEDIA_JB_NORMAL_FRAME fl) = PJ_SUCCESS"
      unfolding fl'_def put_slot_eq [OF i d q] using True by (simp_all add: v_def)
    have r: "ring fl' = (ring fl)[d := v]" by (rule ring_update [OF i d]) (simp_all add: e)
    have wf: "window fl' = (a, map cell (take (max (fl_size fl) (Suc d)) ((ring fl)[d := v])))"
      unfolding window_def r using w by (simp add: e)
    show ?thesis
    proof (cases "d \<ge> length w")
      case ge: True
      have "map cell (take d (ring fl)) = w @ replicate (d - length w) Lost"
      proof (rule nth_equalityI)
        fix k assume k: "k < length (map cell (take d (ring fl)))"
        then have "cell (ring fl ! k) = Lost" if "k \<ge> fl_size fl"
          using that d i'(3) ring_missing [OF i that] cell_lost [OF ring_ok [OF i]] by simp
        then show "map cell (take d (ring fl)) ! k = (w @ replicate (d - length w) Lost) ! k"
          using k d w i'(3) by (auto simp: nth_append)
      qed (use ge d w i'(3) in simp)
      moreover have "take (Suc d) ((ring fl)[d := v]) = take d (ring fl) @ [v]"
        using d i'(3) by (simp add: take_Suc_conv_app_nth)
      ultimately show ?thesis unfolding fl'_def [symmetric] st wf using ge w by (simp add: max_def v_def)
    next
      case lt: False
      then have "w ! d = Lost" using w True cell_lost [OF ring_ok [OF i d]] d i'(3) by simp
      moreover have "max (fl_size fl) (Suc d) = fl_size fl" using lt w by simp
      ultimately show ?thesis unfolding fl'_def [symmetric] st wf using lt w by (simp add: v_def map_update take_update_swap)
    qed
  next
    case False
    then have "d < fl_size fl" using ring_missing [OF i _ d] by (meson not_le)
    then have "w ! d \<noteq> Lost" "d < length w" using w False cell_lost [OF ring_ok [OF i d]] d i'(3) by simp_all
    then show ?thesis using False win by (simp add: put_slot_eq [OF i d q])
  qed
qed

text \<open>The steps before the slot is written.\<close>

lemma fl_inv_origin [simp]: "fl_inv (fl\<lparr>origin := a\<rparr>) = fl_inv fl"
  by (simp add: fl_inv_def)

lemma fl_inv_reset: 
  assumes i: "fl_inv fl"
  shows "fl_inv (jb_framelist_reset fl)"
proof -
  have "ring (jb_framelist_reset fl) = map clear_slot (slots fl)" by (simp add: ring_def jb_framelist_reset_def)
  then show ?thesis using fl_invD [OF i] by (auto simp: fl_inv_def jb_framelist_reset_def filter_map o_def)
qed

lemma reset_fields [simp]:
  "max_count (jb_framelist_reset fl) = max_count fl" "frame_size (jb_framelist_reset fl) = frame_size fl"
  "fl_size (jb_framelist_reset fl) = 0" "window (jb_framelist_reset fl) = (INVALID_OFFSET, [])"
  "window ((jb_framelist_reset fl)\<lparr>origin := a\<rparr>) = (a, [])" "origin (jb_framelist_reset fl) = INVALID_OFFSET"
  by (simp_all add: jb_framelist_reset_def window_def)

lemma window_origin [simp]: "window (fl\<lparr>origin := a\<rparr>) = (a, snd (window fl))"
  by (simp add: window_def)

lemma put_distance_ok:
  assumes i: "fl_inv fl" and q: "seq_ok q" and win: "win_restart q (window fl) = (a, w)"
    and p: "put_distance q fl = (fl', r)"
  shows "fl_inv fl'" "window fl' = (a, w)" "max_count fl' = max_count fl" "frame_size fl' = frame_size fl"
    "q < a \<Longrightarrow> r = Inl PJ_ETOOSMALL" "a \<le> q \<Longrightarrow> r = Inr (q - a)"
proof -
  obtain v where wl: "window fl = (origin fl, v)" "length v = fl_size fl"
    using i window_length [OF i] by (simp add: window_def)
  consider (late) "origin fl - q < JB_MAX_MISORDER" "q < origin fl"
    | (restart) "origin fl - q \<ge> JB_MAX_MISORDER" "(origin fl + int (fl_size fl)) mod 2 ^ 32 \<ge> MAX_FRAME_INDEX"
    | (jump) "origin fl - q \<ge> JB_MAX_MISORDER" "\<not> (origin fl + int (fl_size fl)) mod 2 ^ 32 \<ge> MAX_FRAME_INDEX"
    | (inside) "origin fl \<le> q" by linarith
  then have "fl_inv fl' \<and> window fl' = (a, w) \<and> max_count fl' = max_count fl \<and> frame_size fl' = frame_size fl
      \<and> (q < a \<longrightarrow> r = Inl PJ_ETOOSMALL) \<and> (a \<le> q \<longrightarrow> r = Inr (q - a))"
  proof cases
    case late
    then have "(a, w) = (origin fl, v)" "fl' = fl" "r = Inl PJ_ETOOSMALL"
      using win p wl by (auto simp: win_restart_def put_distance_def split: prod.splits)
    then show ?thesis using late i wl by auto
  next
    case restart
    have "as_s32 (q - int (fl_size fl)) = q - int (fl_size fl)"
      using q fl_invD(2,5) [OF i] by (intro as_s32_small) (auto simp: seq_ok_def)
    then have "(a, w) = (q - int (fl_size fl), v)" "fl' = fl\<lparr>origin := q - int (fl_size fl)\<rparr>" "r = Inr (int (fl_size fl))"
      using restart win p wl by (auto simp: win_restart_def put_distance_def JB_MAX_MISORDER_def Let_def split: prod.splits if_splits)
    then show ?thesis using i wl by auto
  next
    case jump
    then have "(a, w) = (q, [])" "fl' = (jb_framelist_reset fl)\<lparr>origin := q\<rparr>" "r = Inr 0"
      using win p wl by (auto simp: win_restart_def put_distance_def JB_MAX_MISORDER_def Let_def split: prod.splits if_splits)
    then show ?thesis using fl_inv_reset [OF i] by auto
  next
    case inside
    then have "(a, w) = (origin fl, v)" "fl' = fl" "r = Inr (q - origin fl)"
      using win p wl by (auto simp: win_restart_def put_distance_def JB_MAX_MISORDER_def Let_def split: prod.splits if_splits)
    then show ?thesis using inside i wl by auto
  qed
  then show "fl_inv fl'" "window fl' = (a, w)" "max_count fl' = max_count fl" "frame_size fl' = frame_size fl"
    "q < a \<Longrightarrow> r = Inl PJ_ETOOSMALL" "a \<le> q \<Longrightarrow> r = Inr (q - a)" by blast+
qed

lemma put_window_ok:
  assumes i: "fl_inv fl" and win: "window fl = (a, w)" and q: "a \<le> q"
    and j: "win_jump (max_count fl) q (a, w) = (b, u)" and p: "put_window q (q - a) fl = (fl', r)"
  shows "fl_inv fl' \<and> window fl' = (b, u) \<and> max_count fl' = max_count fl \<and> frame_size fl' = frame_size fl \<and> b \<le> q
    \<and> r = (if q - b \<ge> int (max_count fl) then Inl PJ_ETOOMANY else Inr (q - b))"
proof -
  have wl: "length w = fl_size fl" "a = origin fl"
    using win i window_length [OF i] by (auto simp: window_def)
  have m: "0 < max_count fl" using i by (simp add: fl_invD)
  consider (empty) "fl_size fl = 0" | (jump) "fl_size fl \<noteq> 0" "q - a \<ge> int (max_count fl)" "q - a > JB_MAX_DROPOUT"
    | (full) "fl_size fl \<noteq> 0" "q - a \<ge> int (max_count fl)" "\<not> q - a > JB_MAX_DROPOUT"
    | (inside) "fl_size fl \<noteq> 0" "q - a < int (max_count fl)" by linarith
  then show ?thesis
  proof cases
    case empty
    then have "w = []" "(b, u) = (q, [])" "fl' = fl\<lparr>origin := q\<rparr>" "r = Inr 0"
      using j p wl m by (auto simp: win_jump_def put_window_def split: if_splits)
    then show ?thesis using i m win by simp
  next
    case jump
    then have "(b, u) = (q, [])" "fl' = (jb_framelist_reset fl)\<lparr>origin := q\<rparr>" "r = Inr 0"
      using j p wl m by (auto simp: win_jump_def put_window_def split: if_splits)
    then show ?thesis using fl_inv_reset [OF i] m by simp
  next
    case full
    then have "(b, u) = (a, w)" "fl' = fl" "r = Inl PJ_ETOOMANY"
      using j p wl m by (auto simp: win_jump_def put_window_def split: if_splits)
    then show ?thesis using full i q win by simp
  next
    case inside
    then have "(b, u) = (a, w)" "fl' = fl" "r = Inr (q - a)"
      using j p wl m by (auto simp: win_jump_def put_window_def split: if_splits)
    then show ?thesis using inside i q win by simp
  qed
qed

lemma put_at_refines:
  assumes i: "fl_inv fl" and q: "seq_ok q" and f: "length frame \<le> frame_size fl"
    and p: "jb_framelist_put_at q frame bits ts PJMEDIA_JB_NORMAL_FRAME fl = (fl', st)"
  shows "fl_inv fl' \<and> win_put (max_count fl) q (Held frame bits ts) (window fl) = (window fl', st)
    \<and> max_count fl' = max_count fl \<and> frame_size fl' = frame_size fl"
proof -
  obtain a w where aw: "win_restart q (window fl) = (a, w)" by fastforce
  obtain fl1 r1 where p1: "put_distance q fl = (fl1, r1)" by fastforce
  note 1 = put_distance_ok [OF i q aw p1]
  show ?thesis
  proof (cases "q < a")
    case True
    then show ?thesis using 1 aw p p1 f by (auto simp: jb_framelist_put_at_def win_put_def)
  next
    case False
    then have r1: "r1 = Inr (q - a)" using 1(6) by simp
    obtain b u where bu: "win_jump (max_count fl1) q (a, w) = (b, u)" by fastforce
    obtain fl2 r2 where p2: "put_window q (q - a) fl1 = (fl2, r2)" by fastforce
    have 2: "fl_inv fl2" "window fl2 = (b, u)" "max_count fl2 = max_count fl1" "frame_size fl2 = frame_size fl1" "b \<le> q"
      "r2 = (if q - b \<ge> int (max_count fl1) then Inl PJ_ETOOMANY else Inr (q - b))"
      using put_window_ok [OF 1(1,2) _ bu p2] False by auto
    show ?thesis
    proof (cases "q - b \<ge> int (max_count fl)")
      case True
      then show ?thesis using False 1 2 r1 aw bu p p1 p2 f
        by (auto simp: jb_framelist_put_at_def win_put_def Let_def)
    next
      case inside: False
      define d where "d = nat (q - b)"
      have d: "d < max_count fl2" "q = origin fl2 + int d" "q - b = int d"
        using inside 1(3) 2(2,3,5) by (auto simp: d_def window_def)
      have "put_slot q (int d) frame bits ts PJMEDIA_JB_NORMAL_FRAME fl2 = (fl', st)"
        using inside False 1(3) 2(6) r1 p p1 p2 f d(3) by (simp add: jb_framelist_put_at_def)
      then have 3: "fl_inv fl'" "(window fl', st) =
          (if d \<ge> length u then ((b, u @ replicate (d - length u) Lost @ [Held frame bits ts]), PJ_SUCCESS)
           else if u ! d = Lost then ((b, u[d := Held frame bits ts]), PJ_SUCCESS) else ((b, u), PJ_EEXISTS))"
        and fs: "max_count fl' = max_count fl2" "frame_size fl' = frame_size fl2"
        using fl_inv_put_slot [OF 2(1) d(1,2), of frame bits ts] put_slot_refines [OF 2(1) d(1,2) 2(2), of frame bits ts]
          put_slot_eq [OF 2(1) d(1,2), of frame bits ts] f 1(4) 2(4) by (auto split: if_splits)
      have "win_put (max_count fl) q (Held frame bits ts) (window fl) = (window fl', st)"
        unfolding 3(2) using False d(1) aw bu 1(3) 2(3) by (simp add: win_put_def Let_def flip: d_def)
      then show ?thesis using 3(1) fs 1(3,4) 2(3,4) by simp
    qed
  qed
qed

lemma put_at_too_long:
  "length frame > frame_size fl \<Longrightarrow> jb_framelist_put_at q frame bits ts ft fl = (fl, PJ_EINVAL)"
  by (simp add: jb_framelist_put_at_def)

section \<open>Discarding and taking frames\<close>

lemma discard_refines:
  assumes i: "fl_inv fl" and p: "jb_framelist_discard q fl = (fl', st)"
    and nd: "\<And>a w. window fl = (a, w) \<Longrightarrow> a \<le> q \<Longrightarrow> q < a + int (length w) \<Longrightarrow> w ! nat (q - a) \<noteq> Dropped"
  shows "fl_inv fl'" "win_discard q (window fl) = (window fl', st)" "max_count fl' = max_count fl"
    "frame_size fl' = frame_size fl"
proof -
  note i' = fl_invD [OF i]
  define w where "w = map cell (take (fl_size fl) (ring fl))"
  have win: "window fl = (origin fl, w)" "length w = fl_size fl" using i' by (simp_all add: window_def w_def)
  have "fl_inv fl' \<and> win_discard q (window fl) = (window fl', st) \<and> max_count fl' = max_count fl \<and> frame_size fl' = frame_size fl"
  proof (cases "origin fl \<le> q \<and> q < origin fl + int (fl_size fl)")
    case True
    define d where "d = nat (q - origin fl)"
    have d: "d < fl_size fl" "d < max_count fl" "q - origin fl = int d" using True i'(5) by (auto simp: d_def)
    define v where "v = (ring fl ! d)\<lparr>frame_type := PJMEDIA_JB_DISCARDED_FRAME\<rparr>"
    have e: "fl' = fl\<lparr>slots := (slots fl)[(head fl + d) mod max_count fl := v],
                      discarded_num := as_u32 (int (discarded_num fl) + 1)\<rparr>" "st = PJ_SUCCESS"
      using p True ring_nth [of d fl] d(2) i'(3)
      by (auto simp: jb_framelist_discard_def Let_def v_def simp flip: d_def)
    have r: "ring fl' = (ring fl)[d := v]" by (rule ring_update [OF i d(2)]) (simp_all add: e)
    have ok: "slot_ok (frame_size fl) v" "cell v = Dropped" "is_discarded v"
      using ring_ok [OF i d(2)] by (auto simp: v_def slot_ok_def cell_def is_discarded_def)
    have "w ! d \<noteq> Dropped" using nd [OF win(1)] True win(2) by (simp add: d_def)
    then have nd': "\<not> is_discarded (ring fl ! d)"
      using d cell_dropped [OF ring_ok [OF i d(2)]] i'(3) by (simp add: w_def is_discarded_def)
    have "discarded_num fl' = length (filter is_discarded (ring fl'))"
      unfolding r using filter_update_count [OF _ nd' ok(3)] d(2) i'(2,3,5,6) discarded_num_window(2) [OF i]
      by (simp add: e as_u32_small nat_add_distrib)
    moreover have "drop (fl_size fl) (ring fl') = drop (fl_size fl) (ring fl)" unfolding r using d by simp
    moreover have "set (slots fl') \<subseteq> insert v (set (slots fl))" by (simp add: e set_update_subset_insert)
    ultimately have "fl_inv fl'" unfolding fl_inv_def using i' ok(1) by (auto simp: e)
    moreover have "window fl' = (origin fl, w[d := Dropped])"
      unfolding window_def r using d(1) ok(2) by (simp add: e w_def map_update take_update_swap)
    ultimately show ?thesis using True win e by (simp add: win_discard_def d_def)
  next
    case False
    then show ?thesis using p i win by (auto simp: jb_framelist_discard_def win_discard_def)
  qed
  then show "fl_inv fl'" "win_discard q (window fl) = (window fl', st)" "max_count fl' = max_count fl"
    "frame_size fl' = frame_size fl" by auto
qed

lemma head_slot: "fl_inv fl \<Longrightarrow> slots fl ! head fl = ring fl ! 0"
  by (simp add: ring_nth fl_invD)

lemma take_head_refines:
  assumes i: "fl_inv fl" and n0: "0 < fl_size fl" and p: "take_head bufsize prev fl = (fl', fr)"
    and b: "\<And>n. bufsize = Some n \<Longrightarrow> frame_size fl \<le> n" and win: "window fl = (a, c # w)" and nd: "c \<noteq> Dropped"
  shows "fl_inv fl' \<and> window fl' = (a + 1, w) \<and> max_count fl' = max_count fl \<and> frame_size fl' = frame_size fl
    \<and> played fr = (case c of Held f bits ts \<Rightarrow> if prev then Gap a else Played a f bits ts | _ \<Rightarrow> Gap a)"
proof -
  note i' = fl_invD [OF i]
  obtain s rest where r: "ring fl = s # rest" using i'(1,3) by (metis length_0_conv list.exhaust ring_length less_numeral_extra(3))
  have s: "slots fl ! head fl = s" using head_slot [OF i] r by simp
  define v where "v = s\<lparr>frame_type := PJMEDIA_JB_MISSING_FRAME, content_len := 0, bit_info := 0, slot_ts := 0\<rparr>"
  have e: "fl' = fl\<lparr>slots := (slots fl)[head fl := v], origin := origin fl + 1, head := (head fl + 1) mod max_count fl,
                    fl_size := fl_size fl - 1\<rparr>"
    using p s by (simp add: take_head_def Let_def v_def)
  have r': "ring fl' = rest @ [v]"
  proof -
    have "ring fl' = rotate1 (rotate (head fl) ((slots fl)[(head fl + 0) mod length (slots fl) := v]))"
      using i'(3,4) by (simp add: e ring_def rotate_conv_mod [of "Suc (head fl)", symmetric] flip: rotate_Suc)
        (metis length_list_update rotate_Suc rotate_conv_mod)
    also have "\<dots> = rotate1 ((ring fl)[0 := v])"
      using rotate_update [of 0 "slots fl" "head fl" v] i'(1,3) by (simp add: ring_def)
    finally show ?thesis by (simp add: r)
  qed
  have ok: "slot_ok (frame_size fl) s" using ring_ok [OF i, of 0] i'(1) r by simp
  have wc: "c = cell s" "w = map cell (take (fl_size fl - 1) rest)" "a = origin fl"
    using win n0 r by (auto simp: window_def take_Cons')
  have v: "slot_ok (frame_size fl) v" "\<not> is_discarded v" "frame_type v = PJMEDIA_JB_MISSING_FRAME"
    using ok by (simp_all add: v_def slot_ok_def is_discarded_def)
  have nd': "\<not> is_discarded s" using nd wc(1) cell_dropped [OF ok] by (simp add: is_discarded_def)
  have l: "length rest = max_count fl - 1" using i'(3) r by (metis length_tl list.sel(3) ring_length)
  have "fl_inv fl'" unfolding fl_inv_def
  proof (intro conjI ballI)
    show "discarded_num fl' = length (filter is_discarded (ring fl'))" unfolding r' using i'(6) nd' v(2) by (simp add: r) (simp add: e)
    show "frame_type x = PJMEDIA_JB_MISSING_FRAME" if "x \<in> set (drop (fl_size fl') (ring fl'))" for x
    proof -
      have "fl_size fl - 1 \<le> length rest" using i'(5) l by simp
      then have "x \<in> set (drop (fl_size fl - 1) rest) \<or> x = v" using that unfolding r' by (auto simp: e)
      moreover have "drop (fl_size fl) (ring fl) = drop (fl_size fl - 1) rest" using n0 by (simp add: r drop_Cons')
      ultimately show ?thesis using i'(7) v(3) by auto
    qed
    show "slot_ok (frame_size fl') x" if "x \<in> set (slots fl')" for x
      using that i'(8) v(1) set_update_subset_insert [of "slots fl" "head fl" v] by (auto simp: e)
  qed (use i' in \<open>simp_all add: e\<close>)
  moreover have "window fl' = (a + 1, w)" using i'(5) l n0 wc by (simp add: window_def r') (simp add: e)
  moreover have "played fr = (case c of Held f bits ts \<Rightarrow> if prev then Gap a else Played a f bits ts | _ \<Rightarrow> Gap a)"
  proof -
    have fr: "fr = (if prev then \<lparr>got_type = PJMEDIA_JB_MISSING_FRAME, got_data = [], got_bits = 0, got_ts = slot_ts s, got_seq = origin fl\<rparr>
        else \<lparr>got_type = frame_type s, got_data = take (min (case bufsize of Some n \<Rightarrow> n | None \<Rightarrow> content_len s) (content_len s)) (content s),
              got_bits = bit_info s, got_ts = slot_ts s, got_seq = origin fl\<rparr>)"
      using p s by (simp add: take_head_def Let_def split: if_splits)
    have "min (case bufsize of Some n \<Rightarrow> n | None \<Rightarrow> content_len s) (content_len s) = content_len s"
      using ok b by (fastforce simp: slot_ok_def split: option.splits)
    then show ?thesis using ok wc(1,3) unfolding fr by (auto simp: played_def cell_def slot_ok_def)
  qed
  ultimately show ?thesis by (simp add: e)
qed

lemma skip_discarded_refines:
  assumes "fl_inv fl" "window fl = (a, w)" "n = length (takeWhile (\<lambda>c. c = Dropped) w)"
  shows "\<exists>fl'. skip_discarded fl prev = Some (fl', prev \<or> n > 0) \<and> fl_inv fl' \<and> window fl' = (a + int n, drop n w)
    \<and> max_count fl' = max_count fl \<and> frame_size fl' = frame_size fl"
  using assms
proof (induction w arbitrary: fl a n prev)
  case Nil
  then have "fl_size fl = 0" using window_length [of fl] by simp
  then have "frame_type (slots fl ! head fl) = PJMEDIA_JB_MISSING_FRAME"
    using ring_missing [OF Nil.prems(1), of 0] fl_invD(1) [OF Nil.prems(1)] head_slot [OF Nil.prems(1)] by simp
  then show ?case using Nil.prems by (subst skip_discarded.simps) simp
next
  case (Cons c w)
  note i = Cons.prems(1)
  note i' = fl_invD [OF i]
  have sz: "fl_size fl = Suc (length w)" using window_length [OF i] Cons.prems(2) by simp
  have "c = cell (ring fl ! 0)" using Cons.prems(2) sz i'(3,5) by (cases "ring fl") (auto simp: window_def)
  then have c: "frame_type (slots fl ! head fl) = PJMEDIA_JB_DISCARDED_FRAME \<longleftrightarrow> c = Dropped"
    using cell_dropped [OF ring_ok [OF i i'(1)]] head_slot [OF i] by simp
  show ?case
  proof (cases "c = Dropped")
    case True
    define fl1 where "fl1 = fst (jb_framelist_remove_head 1 fl)"
    have "fl_inv fl1" unfolding fl1_def by (rule fl_inv_remove_head [OF i])
    moreover have "window fl1 = (a + 1, w)"
      using remove_head_refines [OF i, of 1] Cons.prems(2) by (simp add: win_remove_def fl1_def)
    moreover have "max_count fl1 = max_count fl" "frame_size fl1 = frame_size fl"
      using remove_head_fields [OF i'(4)] by (simp_all add: fl1_def)
    moreover have "skip_discarded fl prev = skip_discarded fl1 True"
      using True c by (subst skip_discarded.simps) (simp add: fl1_def)
    ultimately show ?thesis
      using Cons.IH [of fl1 "a + 1" "length (takeWhile (\<lambda>c. c = Dropped) w)" True] Cons.prems(3) True by (auto simp: algebra_simps)
  next
    case False
    then show ?thesis using Cons.prems c by (subst skip_discarded.simps) simp
  qed
qed

lemma framelist_get_refines:
  assumes i: "fl_inv fl" and b: "\<And>n. bufsize = Some n \<Longrightarrow> frame_size fl \<le> n"
  shows "\<exists>fl' fr. jb_framelist_get bufsize fl = Some (fl', fr) \<and> fl_inv fl' \<and> max_count fl' = max_count fl
    \<and> frame_size fl' = frame_size fl \<and> win_get (window fl) = (window fl', map_option played fr)"
proof -
  obtain a w where win: "window fl = (a, w)" by fastforce
  have sz: "length w = fl_size fl" using window_length [OF i] win by simp
  define n where "n = length (takeWhile (\<lambda>c. c = Dropped) w)"
  obtain fl1 where 1: "skip_discarded fl False = Some (fl1, n > 0)" "fl_inv fl1" "window fl1 = (a + int n, drop n w)"
    "max_count fl1 = max_count fl" "frame_size fl1 = frame_size fl"
    using skip_discarded_refines [OF i win n_def, of False] by auto
  have sz1: "fl_size fl1 = length (drop n w)" using window_length [OF 1(2)] 1(3) by simp
  show ?thesis
  proof (cases "drop n w")
    case Nil
    moreover have "w = [] \<longleftrightarrow> fl_size fl = 0" using sz by auto
    ultimately show ?thesis using 1 sz1 win i
      by (cases "w = []") (simp_all add: jb_framelist_get_def win_get_def Let_def flip: n_def)
  next
    case (Cons c u)
    obtain fl' fr where t: "take_head bufsize (n > 0) fl1 = (fl', fr)" by fastforce
    have "c \<noteq> Dropped" using Cons dropWhile_eq_drop [of "\<lambda>c. c = Dropped" w] hd_dropWhile [of "\<lambda>c. c = Dropped" w]
      by (simp add: n_def)
    then have 2: "fl_inv fl' \<and> window fl' = (a + int n + 1, u) \<and> max_count fl' = max_count fl1 \<and> frame_size fl' = frame_size fl1
      \<and> played fr = (case c of Held f bits ts \<Rightarrow> if n > 0 then Gap (a + int n) else Played (a + int n) f bits ts | _ \<Rightarrow> Gap (a + int n))"
      using take_head_refines [OF 1(2) _ t] b 1(3,5) sz1 Cons by simp
    have "fl_size fl > 0" using Cons sz by (cases w) auto
    then have g: "jb_framelist_get bufsize fl = Some (fl', Some fr)" using 1 t Cons sz sz1 by (auto simp: jb_framelist_get_def)
    have "win_get (window fl) = ((a + int n + 1, u), Some (case c of Held f bits ts \<Rightarrow> if n = 0 then Played (a + int n) f bits ts
        else Gap (a + int n) | _ \<Rightarrow> Gap (a + int n)))"
      unfolding win_get_def win Let_def prod.case n_def [symmetric] Cons by simp
    with 2 g 1 show ?thesis by (auto split: jb_cell.splits)
  qed
qed

section \<open>Arrivals in any order\<close>

lemma span_append [simp]: "span a (ps @ qs) = max (span a ps) (span a qs)"
  by (induction ps) auto

lemma span_bound: "\<forall>(q, c) \<in> set ps. q < a + int n \<Longrightarrow> 0 < n \<Longrightarrow> span a ps \<le> n"
  by (induction ps) auto

lemma lookup_beyond_span: "span a ps \<le> k \<Longrightarrow> \<forall>(q, c) \<in> set ps. a \<le> q \<Longrightarrow> lookup_cell ps (a + int k) = Lost"
  by (induction ps) (auto simp: lookup_cell_def)

lemma win_put_filled:
  assumes mx: "a \<le> q" "q < a + int mx" and ne: "ps \<noteq> []" and ge: "\<forall>(p, c) \<in> set ps. a \<le> p" and c: "\<forall>(p, c) \<in> set ps. c \<noteq> Lost"
  shows "win_put mx q c (filled a ps) = (filled a (ps @ [(q, c)]), if map_of ps q = None then PJ_SUCCESS else PJ_EEXISTS)"
proof -
  define d where "d = nat (q - a)"
  have d: "q = a + int d" "d < mx" using mx by (auto simp: d_def)
  define w where "w = map (\<lambda>k. lookup_cell ps (a + int k)) [0..<span a ps]"
  have w0: "w \<noteq> []" using ne by (cases ps) (auto simp: w_def)
  have put: "win_put mx q c (a, w) = (if d \<ge> length w then ((a, w @ replicate (d - length w) Lost @ [c]), PJ_SUCCESS)
        else if w ! d = Lost then ((a, w[d := c]), PJ_SUCCESS) else ((a, w), PJ_EEXISTS))"
    using mx w0 by (auto simp: win_put_def win_restart_def win_jump_def JB_MAX_MISORDER_def d_def Let_def)
  have f: "filled a ps = (a, w)" by (simp add: filled_def w_def)
  have new: "lookup_cell (ps @ [(q, c)]) (a + int k) = (if k = d \<and> map_of ps q = None then c else lookup_cell ps (a + int k))" for k
    by (auto simp: lookup_cell_def map_add_def d(1) split: option.splits)
  have lost: "lookup_cell ps q = Lost \<longleftrightarrow> map_of ps q = None"
    using c by (auto simp: lookup_cell_def split: option.splits dest: map_of_SomeD)
  show ?thesis
  proof (cases "d < span a ps")
    case True
    then have "span a (ps @ [(q, c)]) = span a ps" by (simp add: d(1) max_def)
    moreover have "map (\<lambda>k. lookup_cell (ps @ [(q, c)]) (a + int k)) [0..<span a ps] = (if map_of ps q = None then w[d := c] else w)"
      by (rule nth_equalityI) (auto simp: w_def new nth_list_update)
    moreover have "w ! d = Lost \<longleftrightarrow> map_of ps q = None" using True lost by (simp add: w_def d(1))
    ultimately show ?thesis using True unfolding f put by (simp add: filled_def w_def)
  next
    case False
    then have "map_of ps q = None" using lookup_beyond_span [OF _ ge, of d] lost d(1) by simp
    moreover have "map (\<lambda>k. lookup_cell (ps @ [(q, c)]) (a + int k)) [0..<Suc d] = w @ replicate (d - length w) Lost @ [c]"
    proof (rule nth_equalityI)
      fix k assume "k < length (map (\<lambda>k. lookup_cell (ps @ [(q, c)]) (a + int k)) [0..<Suc d])"
      then have k: "k < Suc d" by simp
      have "lookup_cell ps (a + int k) = Lost" if "span a ps \<le> k" using that by (rule lookup_beyond_span [OF _ ge])
      then show "map (\<lambda>k. lookup_cell (ps @ [(q, c)]) (a + int k)) [0..<Suc d] ! k = (w @ replicate (d - length w) Lost @ [c]) ! k"
        using k False \<open>map_of ps q = None\<close> by (auto simp: w_def new nth_append less_Suc_eq simp del: upt_Suc)
    qed (use False in \<open>simp add: w_def\<close>)
    moreover have "span a (ps @ [(q, c)]) = Suc d" using False by (simp add: d(1) max_def)
    ultimately show ?thesis using False unfolding f put by (simp add: filled_def w_def del: upt_Suc)
  qed
qed

lemma win_put_first:
  "\<lbrakk>q \<ge> a \<or> a - q \<ge> JB_MAX_MISORDER; 0 < mx\<rbrakk> \<Longrightarrow> win_put mx q c (a, []) = (filled q [(q, c)], PJ_SUCCESS)"
  by (auto simp: win_put_def win_restart_def win_jump_def filled_def lookup_cell_def Let_def)

section \<open>Making room\<close>

lemma win_put_full:
  assumes p: "win_put mx q c (a, w) = ((b, u), PJ_ETOOMANY)" and l: "length w \<le> mx" and m: "0 < mx"
  shows "int mx \<le> q - b \<and> q - b \<le> JB_MAX_DROPOUT \<and> u \<noteq> [] \<and> length u \<le> mx"
proof -
  obtain a1 w1 where r: "win_restart q (a, w) = (a1, w1)" by fastforce
  then have l1: "length w1 \<le> mx" using l by (auto simp: win_restart_def split: if_splits)
  obtain a2 w2 where j: "win_jump mx q (a1, w1) = (a2, w2)" by fastforce
  have 2: "a2 = b" "w2 = u" "int mx \<le> q - b" using p r j m
    by (auto simp: win_put_def Let_def split: if_splits)
  then have "w1 = u" "u \<noteq> []" "q - b \<le> JB_MAX_DROPOUT" using j m by (auto simp: win_jump_def split: if_splits)
  then show ?thesis using 2 l1 by simp
qed

lemma win_put_after_removal:
  assumes q: "int mx \<le> q - b" and u: "length u \<le> mx" "0 < mx" and n: "n = nat (q - b - int mx + 1)"
  shows "snd (win_put mx q c (fst (win_remove n (b, u)))) = PJ_SUCCESS"
proof (cases "n \<ge> length u")
  case True
  then have "win_remove n (b, u) = ((b + int (length u), []), length u)" by (simp add: win_remove_def)
  then show ?thesis using win_put_first [of "b + int (length u)" q mx c] q u by simp
next
  case False
  have e: "q - (b + int n) = int (mx - 1)" using q n u(2) by simp
  have "win_remove n (b, u) = ((b + int n, drop n u), n)" using False by (simp add: win_remove_def)
  moreover have "win_restart q (b + int n, drop n u) = (b + int n, drop n u)"
    using e by (simp add: win_restart_def JB_MAX_MISORDER_def)
  moreover have "win_jump mx q (b + int n, drop n u) = (b + int n, drop n u)"
    using e False u(2) by (simp add: win_jump_def)
  moreover have "\<not> q < b + int n" "nat (q - (b + int n)) = mx - 1" using e u(2) by linarith+
  moreover have "length (drop n u) \<le> mx - 1" using u q n by simp
  ultimately show ?thesis using u(2) by (simp add: win_put_def Let_def)
qed

lemma win_put_length:
  assumes p: "win_put mx q c (a, w) = ((b, u), st)" and l: "length w \<le> mx"
  shows "length u \<le> mx"
proof -
  obtain a1 w1 where r: "win_restart q (a, w) = (a1, w1)" by fastforce
  then have l1: "length w1 \<le> mx" using l by (auto simp: win_restart_def split: if_splits)
  obtain a2 w2 where j: "win_jump mx q (a1, w1) = (a2, w2)" by fastforce
  then have l2: "length w2 \<le> mx" using l1 by (auto simp: win_jump_def split: if_splits)
  show ?thesis using p r j l1 l2 by (auto simp: win_put_def Let_def split: if_splits)
qed

locale jitter_list =
  fixes ok :: "'s \<Rightarrow> bool" and view :: "'s \<Rightarrow> jb_window" and cap :: "'s \<Rightarrow> nat" and width :: "'s \<Rightarrow> nat"
    and put :: "int \<Rightarrow> bytes \<Rightarrow> u32 \<Rightarrow> u32 \<Rightarrow> 's \<Rightarrow> 's \<times> pj_status"
    and remove :: "nat \<Rightarrow> 's \<Rightarrow> 's \<times> nat"
    and get :: "'s \<Rightarrow> ('s \<times> jb_played option) option"
  assumes cap_pos: "ok s \<Longrightarrow> 0 < cap s"
    and within: "ok s \<Longrightarrow> length (snd (view s)) \<le> cap s"
    and put_law: "\<lbrakk>ok s; seq_ok q; length f \<le> width s; put q f b t s = (s', st)\<rbrakk> \<Longrightarrow>
      ok s' \<and> win_put (cap s) q (Held f b t) (view s) = (view s', st) \<and> cap s' = cap s \<and> width s' = width s"
    and remove_law: "\<lbrakk>ok s; remove n s = (s', k)\<rbrakk> \<Longrightarrow>
      ok s' \<and> win_remove n (view s) = (view s', k) \<and> cap s' = cap s \<and> width s' = width s"
    and get_law: "ok s \<Longrightarrow>
      \<exists>s' r. get s = Some (s', r) \<and> ok s' \<and> win_get (view s) = (view s', r) \<and> cap s' = cap s \<and> width s' = width s"
begin

text \<open>One removal of the oldest frames is enough to let a frame in that the list had no room for.\<close>

lemma room_after_removal:
  assumes s: "ok s" "seq_ok q" "length f \<le> width s" and p: "put q f b t s = (s1, PJ_ETOOMANY)"
    and r: "remove (as_u32 (q - fst (view s1) - int (cap s) + 1)) s1 = (s2, k)" and p2: "put q f b t s2 = (s3, st)"
  shows "st = PJ_SUCCESS"
proof -
  obtain a w where v: "view s = (a, w)" by fastforce
  obtain b' u where v1: "view s1 = (b', u)" by fastforce
  have 1: "ok s1" "win_put (cap s) q (Held f b t) (a, w) = ((b', u), PJ_ETOOMANY)" "cap s1 = cap s" "width s1 = width s"
    using put_law [OF s p] v v1 by auto
  have f: "int (cap s) \<le> q - b'" "q - b' \<le> JB_MAX_DROPOUT" "length u \<le> cap s"
    using win_put_full [OF 1(2)] within [OF s(1)] cap_pos [OF s(1)] v by auto
  have n: "as_u32 (q - fst (view s1) - int (cap s) + 1) = nat (q - b' - int (cap s) + 1)"
    using f(1,2) v1 by (simp add: as_u32_small JB_MAX_DROPOUT_def)
  have 2: "ok s2" "fst (win_remove (nat (q - b' - int (cap s) + 1)) (b', u)) = view s2" "cap s2 = cap s" "width s2 = width s"
    using remove_law [OF 1(1) r] v1 1(3,4) unfolding n by auto
  show ?thesis using put_law [OF 2(1) s(2) _ p2] win_put_after_removal [OF f(1,3) cap_pos [OF s(1)] refl, of "Held f b t"]
      s(3) 2 by simp
qed

end

definition list_get :: "jb_framelist \<Rightarrow> (jb_framelist \<times> jb_played option) option" where
  "list_get fl = map_option (\<lambda>(fl, fr). (fl, map_option played fr)) (jb_framelist_get None fl)"

interpretation frames: jitter_list fl_inv window max_count frame_size
  "\<lambda>q f b t. jb_framelist_put_at q f b t PJMEDIA_JB_NORMAL_FRAME" jb_framelist_remove_head list_get
proof unfold_locales
  fix s s' :: jb_framelist and q f b t st
  assume "fl_inv s" "seq_ok q" "length f \<le> frame_size s" "jb_framelist_put_at q f b t PJMEDIA_JB_NORMAL_FRAME s = (s', st)"
  then show "fl_inv s' \<and> win_put (max_count s) q (Held f b t) (window s) = (window s', st) \<and> max_count s' = max_count s
      \<and> frame_size s' = frame_size s"
    by (rule put_at_refines)
next
  fix s s' :: jb_framelist and n k assume "fl_inv s" "jb_framelist_remove_head n s = (s', k)"
  then show "fl_inv s' \<and> win_remove n (window s) = (window s', k) \<and> max_count s' = max_count s \<and> frame_size s' = frame_size s"
    using fl_inv_remove_head [of s n] remove_head_refines [of s n] remove_head_fields [of s n] fl_invD(4) [of s] by simp
next
  fix s assume "fl_inv s"
  then show "\<exists>s' r. list_get s = Some (s', r) \<and> fl_inv s' \<and> win_get (window s) = (window s', r) \<and> max_count s' = max_count s
      \<and> frame_size s' = frame_size s"
    using framelist_get_refines [of s None] by (auto simp: list_get_def)
qed (simp_all add: fl_invD)

end
