(* ===== verification/Jbuf_Props.thy ===== *)
theory Jbuf_Props
  imports Jbuf_Window
begin

text \<open>
  The jitter buffer over its frame list: that the loops end, what puts, gets and removals do in terms
  of the window, the invariant with the progressive discard algorithm, and the properties of the
  buffer.
\<close>

section \<open>Specifications\<close>

text \<open>Storing a frame in a window, with the removal of the oldest cells where there is no room.\<close>

definition win_store :: "nat \<Rightarrow> int \<Rightarrow> jb_cell \<Rightarrow> jb_window \<Rightarrow> jb_window \<times> pj_status \<times> nat" where
  "win_store mx q c win =
     (let (win1, st1) = win_put mx q c win
      in if st1 = PJ_ETOOMANY then
           let (win2, k) = win_remove (nat (q - fst win1 - int mx + 1)) win1;
               (win3, st3) = win_put mx q c win2
           in (win3, st3, k)
         else (win1, st1, 0))"

text \<open>The frame list of a jitter buffer is well formed and has the sizes of the buffer.\<close>

definition jb_base :: "pjmedia_jbuf \<Rightarrow> bool" where
  "jb_base jb \<longleftrightarrow> fl_inv (framelist jb) \<and> max_count (framelist jb) = jb_max_count jb
     \<and> frame_size (framelist jb) = jb_frame_size jb"

text \<open>A list of arrivals, each put into the buffer, and a number of frames taken from it.\<close>

fun jbuf_puts :: "(int \<times> bytes \<times> u32 \<times> u32) list \<Rightarrow> pjmedia_jbuf \<Rightarrow> pjmedia_jbuf option" where
  "jbuf_puts [] jb = Some jb"
| "jbuf_puts ((q, f, b, t) # ps) jb =
     (case pjmedia_jbuf_put_frame3 f b q t jb of None \<Rightarrow> None | Some (jb, _) \<Rightarrow> jbuf_puts ps jb)"

fun jbuf_gets :: "nat \<Rightarrow> pjmedia_jbuf \<Rightarrow> (pjmedia_jbuf \<times> (jb_frame_type \<times> jb_played option) list) option" where
  "jbuf_gets 0 jb = Some (jb, [])"
| "jbuf_gets (Suc n) jb =
     (case pjmedia_jbuf_get_frame3 None jb of
        None \<Rightarrow> None
      | Some (jb, ty, fr) \<Rightarrow> map_option (\<lambda>(jb, rs). (jb, (ty, map_option played fr) # rs)) (jbuf_gets n jb))"

definition arrival :: "int \<times> bytes \<times> u32 \<times> u32 \<Rightarrow> int \<times> jb_cell" where
  "arrival p = (case p of (q, f, b, t) \<Rightarrow> (q, Held f b t))"

text \<open>The buffer holds exactly the given arrivals, and is prefetching only while they are fewer than the prefetch.\<close>

definition holding :: "int \<Rightarrow> (int \<times> jb_cell) list \<Rightarrow> pjmedia_jbuf \<Rightarrow> bool" where
  "holding a ps jb \<longleftrightarrow> jb_base jb \<and> jb_discard_algo jb = PJMEDIA_JB_DISCARD_NONE \<and> window (framelist jb) = filled a ps
     \<and> (jb_prefetching jb \<longrightarrow> int (span a ps) < jb_prefetch jb)"

text \<open>What the player is handed for a cell.\<close>

definition heard :: "int \<Rightarrow> jb_cell \<Rightarrow> jb_frame_type \<times> jb_played option" where
  "heard q c = (case c of Held f b t \<Rightarrow> (PJMEDIA_JB_NORMAL_FRAME, Some (Played q f b t)) | _ \<Rightarrow> (PJMEDIA_JB_MISSING_FRAME, Some (Gap q)))"

text \<open>Every discarded frame has a sequence number up to the reference of the discard algorithm, and sequence numbers fit an \<^verbatim>\<open>int\<close>.\<close>

definition drops_upto :: "int \<Rightarrow> jb_window \<Rightarrow> bool" where
  "drops_upto r win \<longleftrightarrow> (\<forall>k < length (snd win). snd win ! k = Dropped \<longrightarrow> fst win + int k \<le> r)"

definition seqs_ok :: "jb_window \<Rightarrow> bool" where
  "seqs_ok win \<longleftrightarrow> - (2 ^ 31) \<le> fst win \<and> fst win + int (length (snd win)) \<le> 2 ^ 31"

text \<open>The invariant of the jitter buffer.\<close>

definition jb_inv :: "pjmedia_jbuf \<Rightarrow> bool" where
  "jb_inv jb \<longleftrightarrow> jb_base jb \<and> seqs_ok (window (framelist jb)) \<and> 0 < jb_frame_ptime jb
     \<and> 0 \<le> jb_min_prefetch jb \<and> jb_min_prefetch jb \<le> jb_max_prefetch jb \<and> jb_max_prefetch jb \<le> int (jb_max_count jb)
     \<and> 0 \<le> jb_prefetch jb \<and> jb_prefetch jb \<le> jb_max_prefetch jb
     \<and> 0 \<le> jb_min_shrink_gap jb \<and> jb_min_shrink_gap jb \<le> 200
     \<and> (jb_discard_algo jb = PJMEDIA_JB_DISCARD_PROGRESSIVE \<longrightarrow>
          1 \<le> jb_min_shrink_gap jb \<and> - (2 ^ 31) \<le> jb_discard_ref jb \<and> drops_upto (jb_discard_ref jb) (window (framelist jb)))"

text \<open>The quantities of the progressive algorithm, without the conversions between integer types.\<close>

definition last_seq_of :: "pjmedia_jbuf \<Rightarrow> int" where
  "last_seq_of jb = origin (framelist jb) + int (fl_size (framelist jb)) - 1"

definition new_ref :: "pjmedia_jbuf \<Rightarrow> int" where
  "new_ref jb = (if jb_discard_dist jb = 0 \<or> last_seq_of jb < jb_discard_ref jb then last_seq_of jb else jb_discard_ref jb)"

text \<open>The number of cells that are not discarded.\<close>

abbreviation live :: "jb_cell list \<Rightarrow> nat" where
  "live w \<equiv> length (filter (\<lambda>c. c \<noteq> Dropped) w)"

text \<open>The states a program can bring a buffer into, with frames of at most 200 ms and the discard algorithm switched on at most at creation.\<close>

inductive jbuf_reachable :: "pjmedia_jbuf \<Rightarrow> bool" where
  created: "pjmedia_jbuf_create mem fs ptime mc = Some jb \<Longrightarrow> 0 < mc \<Longrightarrow> mc \<le> 2 ^ 29 \<Longrightarrow> ptime \<le> 200 \<Longrightarrow> length mem = mc \<Longrightarrow>
    \<forall>s \<in> set mem. length (content s) = fs \<Longrightarrow> jbuf_reachable jb"
| put: "jbuf_reachable jb \<Longrightarrow> seq_ok q \<Longrightarrow> pjmedia_jbuf_put_frame3 f b q t jb = Some (jb', d) \<Longrightarrow> jbuf_reachable jb'"
| get: "jbuf_reachable jb \<Longrightarrow> bufsize = None \<or> jb_frame_size jb \<le> the bufsize \<Longrightarrow>
    pjmedia_jbuf_get_frame3 bufsize jb = Some (jb', r) \<Longrightarrow> jbuf_reachable jb'"
| remove: "jbuf_reachable jb \<Longrightarrow> pjmedia_jbuf_remove_frame n jb = Some (jb', c) \<Longrightarrow> jbuf_reachable jb'"
| reset: "jbuf_reachable jb \<Longrightarrow> jbuf_reachable (pjmedia_jbuf_reset jb)"
| ptime: "jbuf_reachable jb \<Longrightarrow> ptime \<le> 200 \<Longrightarrow> pjmedia_jbuf_set_ptime ptime jb = Some jb' \<Longrightarrow> jbuf_reachable jb'"
| fixed: "jbuf_reachable jb \<Longrightarrow> pjmedia_jbuf_set_fixed n jb = (jb', st) \<Longrightarrow> jbuf_reachable jb'"
| adaptive: "jbuf_reachable jb \<Longrightarrow> pjmedia_jbuf_set_adaptive n l h jb = (jb', st) \<Longrightarrow> jbuf_reachable jb'"
| algo: "jbuf_reachable jb \<Longrightarrow> algo \<noteq> PJMEDIA_JB_DISCARD_PROGRESSIVE \<Longrightarrow>
    pjmedia_jbuf_set_discard algo jb = (jb', st) \<Longrightarrow> jbuf_reachable jb'"

text \<open>Concrete buffers.\<close>

definition demo_mem :: "jb_slot list" where
  "demo_mem = replicate 4 \<lparr>frame_type = PJMEDIA_JB_MISSING_FRAME, content = replicate 2 0, content_len = 0, bit_info = 7, slot_ts = 9\<rparr>"

definition demo_jb :: pjmedia_jbuf where
  "demo_jb = fst (pjmedia_jbuf_set_fixed 2 (the (pjmedia_jbuf_create demo_mem 2 20 4)))"

definition demo_fl :: jb_framelist where
  "demo_fl = fst (jb_framelist_discard 5 (fst (jb_framelist_put_at 6 [3] 0 60 PJMEDIA_JB_NORMAL_FRAME
     (fst (jb_framelist_put_at 5 [1] 0 50 PJMEDIA_JB_NORMAL_FRAME (jb_framelist_init demo_mem 2 4))))))"

section \<open>Storing frames\<close>

lemma put_retry_store:
  assumes jb: "jb_base jb" and q: "seq_ok q" and f: "length f \<le> jb_frame_size jb"
    and p: "jb_framelist_put_at q f b t PJMEDIA_JB_NORMAL_FRAME (framelist jb) = (fl1, st1)"
  shows "\<exists>fl' st k. put_retry q f b t (jb\<lparr>framelist := fl1\<rparr>) st1 =
       Some (jb\<lparr>framelist := fl', jb_discard := jb_discard jb + of_nat k\<rparr>, st)
     \<and> st \<noteq> PJ_ETOOMANY \<and> fl_inv fl' \<and> max_count fl' = jb_max_count jb \<and> frame_size fl' = jb_frame_size jb
     \<and> win_store (jb_max_count jb) q (Held f b t) (window (framelist jb)) = (window fl', st, k)"
proof -
  have i: "fl_inv (framelist jb)" "max_count (framelist jb) = jb_max_count jb" "frame_size (framelist jb) = jb_frame_size jb"
    using jb by (simp_all add: jb_base_def)
  have f': "length f \<le> frame_size (framelist jb)" using f i by simp
  note 1 = frames.put_law [OF i(1) q f' p]
  show ?thesis
  proof (cases "st1 = PJ_ETOOMANY")
    case False
    then show ?thesis using 1 i by (intro exI [of _ fl1] exI [of _ st1] exI [of _ 0])
      (simp add: put_retry.simps win_store_def)
  next
    case True
    define n where "n = as_u32 (q - origin fl1 - int (jb_max_count jb) + 1)"
    obtain fl2 k where r: "jb_framelist_remove_head n fl1 = (fl2, k)" by fastforce
    obtain fl3 st3 where p3: "jb_framelist_put_at q f b t PJMEDIA_JB_NORMAL_FRAME fl2 = (fl3, st3)" by fastforce
    have o: "origin fl1 = fst (window fl1)" by (simp add: window_def)
    have st3: "st3 = PJ_SUCCESS"
      using frames.room_after_removal [OF i(1) q f' p [unfolded True] _ p3] r i(2) by (simp add: n_def o)
    have 2: "fl_inv fl2" "win_remove n (window fl1) = (window fl2, k)" "max_count fl2 = max_count fl1" "frame_size fl2 = frame_size fl1"
      using frames.remove_law [OF _ r] 1 by auto
    have 3: "fl_inv fl3" "win_put (max_count fl2) q (Held f b t) (window fl2) = (window fl3, st3)" "max_count fl3 = max_count fl2"
      "frame_size fl3 = frame_size fl2"
      using frames.put_law [OF 2(1) q _ p3] f' 1 2(4) by auto
    have full: "int (jb_max_count jb) \<le> q - fst (window fl1)" "q - fst (window fl1) \<le> JB_MAX_DROPOUT"
      using win_put_full [of "jb_max_count jb" q "Held f b t" "fst (window (framelist jb))" "snd (window (framelist jb))"
          "fst (window fl1)" "snd (window fl1)"] 1 True i frames.within [OF i(1)] frames.cap_pos [OF i(1)] by auto
    then have n: "n = nat (q - fst (window fl1) - int (jb_max_count jb) + 1)"
      by (simp add: n_def o as_u32_small JB_MAX_DROPOUT_def)
    have "put_retry q f b t (jb\<lparr>framelist := fl1\<rparr>) st1 = Some (jb\<lparr>framelist := fl3, jb_discard := jb_discard jb + of_nat k\<rparr>, st3)"
      using True r p3 st3 by (simp add: put_retry.simps flip: n_def)
    moreover have "win_store (jb_max_count jb) q (Held f b t) (window (framelist jb)) = (window fl3, st3, k)"
      using 1 2 3 True i(2) n by (simp add: win_store_def)
    ultimately show ?thesis using 1 2 3 st3 i by auto
  qed
qed

section \<open>Bookkeeping\<close>

text \<open>Which fields the bookkeeping leaves alone.\<close>

lemma calculate_jitter_fields [simp]:
  "framelist (jbuf_calculate_jitter jb) = framelist jb" "jb_prefetching (jbuf_calculate_jitter jb) = jb_prefetching jb"
  "jb_max_count (jbuf_calculate_jitter jb) = jb_max_count jb" "jb_frame_size (jbuf_calculate_jitter jb) = jb_frame_size jb"
  "jb_discard_algo (jbuf_calculate_jitter jb) = jb_discard_algo jb" "jb_status (jbuf_calculate_jitter jb) = jb_status jb"
  "jb_min_prefetch (jbuf_calculate_jitter jb) = jb_min_prefetch jb" "jb_max_prefetch (jbuf_calculate_jitter jb) = jb_max_prefetch jb"
  "jb_min_shrink_gap (jbuf_calculate_jitter jb) = jb_min_shrink_gap jb" "jb_discard_ref (jbuf_calculate_jitter jb) = jb_discard_ref jb"
  "jb_last_op (jbuf_calculate_jitter jb) = jb_last_op jb" "jb_frame_ptime (jbuf_calculate_jitter jb) = jb_frame_ptime jb"
  "jb_discard_dist (jbuf_calculate_jitter jb) = jb_discard_dist jb"
  by (simp_all add: jbuf_calculate_jitter_def Let_def)

lemma switch_fields [simp]:
  "framelist (fst (jbuf_switch oper jb)) = framelist jb" "jb_prefetching (fst (jbuf_switch oper jb)) = jb_prefetching jb"
  "jb_max_count (fst (jbuf_switch oper jb)) = jb_max_count jb" "jb_frame_size (fst (jbuf_switch oper jb)) = jb_frame_size jb"
  "jb_discard_algo (fst (jbuf_switch oper jb)) = jb_discard_algo jb"
  "jb_min_prefetch (fst (jbuf_switch oper jb)) = jb_min_prefetch jb" "jb_max_prefetch (fst (jbuf_switch oper jb)) = jb_max_prefetch jb"
  "jb_min_shrink_gap (fst (jbuf_switch oper jb)) = jb_min_shrink_gap jb" "jb_discard_ref (fst (jbuf_switch oper jb)) = jb_discard_ref jb"
  "jb_last_op (fst (jbuf_switch oper jb)) = oper" "jb_frame_ptime (fst (jbuf_switch oper jb)) = jb_frame_ptime jb"
  "jb_discard_dist (fst (jbuf_switch oper jb)) = jb_discard_dist jb"
  by (simp_all add: jbuf_switch_def Let_def)

lemma switch_put_prefetch [simp]: "jb_prefetch (fst (jbuf_switch JB_OP_PUT jb)) = jb_prefetch jb"
  by (simp add: jbuf_switch_def Let_def)

lemma calculate_jitter_prefetch:
  assumes "0 \<le> jb_prefetch jb" "jb_prefetch jb \<le> jb_max_prefetch jb" "0 \<le> jb_min_prefetch jb" "jb_min_prefetch jb \<le> jb_max_prefetch jb"
  shows "0 \<le> jb_prefetch (jbuf_calculate_jitter jb)" "jb_prefetch (jbuf_calculate_jitter jb) \<le> jb_max_prefetch jb"
  using assms by (auto simp: jbuf_calculate_jitter_def Let_def)

lemma update_switched:
  "jbuf_update oper jb = (let jb' = (if jb_last_op jb \<noteq> oper then fst (jbuf_switch oper jb) else jb);
       go = (jb_last_op jb \<noteq> oper \<longrightarrow> snd (jbuf_switch oper jb))
     in if go \<and> jb_status jb' = JB_STATUS_PROCESSING then run_discard_algo jb' else jb')"
  by (auto simp: jbuf_update_def Let_def split: prod.splits)

lemma dropped_window:
  assumes i: "fl_inv fl"
  shows "discarded_num fl = length (filter (\<lambda>c. c = Dropped) (snd (window fl)))"
proof -
  have "(\<lambda>c. c = Dropped) (cell s) = is_discarded s" if "s \<in> set (take (fl_size fl) (ring fl))" for s
    using that cell_dropped [OF fl_invD(8) [OF i]] in_set_takeD [of s "fl_size fl" "ring fl"] by (simp add: is_discarded_def)
  then have "filter ((\<lambda>c. c = Dropped) \<circ> cell) (take (fl_size fl) (ring fl)) = filter is_discarded (take (fl_size fl) (ring fl))"
    by (intro filter_cong) auto
  then show ?thesis using discarded_num_window(1) [OF i] by (simp add: window_def filter_map)
qed

lemma eff_size_eq:
  assumes i: "fl_inv fl"
  shows "jb_framelist_eff_size fl = fl_size fl - discarded_num fl"
    "as_s32 (int (jb_framelist_eff_size fl)) = int (fl_size fl) - int (discarded_num fl)"
    "jb_framelist_eff_size fl = length (filter (\<lambda>c. c \<noteq> Dropped) (snd (window fl)))"
proof -
  show e: "jb_framelist_eff_size fl = fl_size fl - discarded_num fl"
    using discarded_num_window(2) [OF i] fl_invD(2,5) [OF i] as_u32_diff [of "discarded_num fl" "fl_size fl"]
    by (simp add: jb_framelist_eff_size_def)
  show "as_s32 (int (jb_framelist_eff_size fl)) = int (fl_size fl) - int (discarded_num fl)"
    unfolding e using discarded_num_window(2) [OF i] fl_invD(2,5) [OF i] by (subst as_s32_small) (auto simp: of_nat_diff)
  show "jb_framelist_eff_size fl = length (filter (\<lambda>c. c \<noteq> Dropped) (snd (window fl)))"
    using e dropped_window [OF i] sum_length_filter_compl [of "\<lambda>c. c = Dropped" "snd (window fl)"] i by simp
qed

section \<open>Without a discard algorithm\<close>

lemma update_none:
  assumes "jb_discard_algo jb = PJMEDIA_JB_DISCARD_NONE"
  shows "framelist (jbuf_update oper jb) = framelist jb" "jb_prefetching (jbuf_update oper jb) = jb_prefetching jb"
    "jb_max_count (jbuf_update oper jb) = jb_max_count jb" "jb_frame_size (jbuf_update oper jb) = jb_frame_size jb"
    "jb_discard_algo (jbuf_update oper jb) = PJMEDIA_JB_DISCARD_NONE"
    "jb_prefetch (jbuf_update JB_OP_PUT jb) = jb_prefetch jb"
  using assms by (auto simp: update_switched Let_def run_discard_algo_def)

lemma put_frame3_none:
  assumes jb: "jb_base jb" and q: "seq_ok q" and f: "length f \<le> jb_frame_size jb"
    and n: "jb_discard_algo jb = PJMEDIA_JB_DISCARD_NONE"
  shows "\<exists>jb' d st k. pjmedia_jbuf_put_frame3 f b q t jb = Some (jb', d) \<and> jb_base jb'
    \<and> win_store (jb_max_count jb) q (Held f b t) (window (framelist jb)) = (window (framelist jb'), st, k)
    \<and> (d \<longleftrightarrow> st \<noteq> PJ_SUCCESS) \<and> jb_discard_algo jb' = PJMEDIA_JB_DISCARD_NONE \<and> jb_prefetch jb' = jb_prefetch jb
    \<and> jb_max_count jb' = jb_max_count jb \<and> jb_frame_size jb' = jb_frame_size jb
    \<and> (jb_prefetching jb' \<longleftrightarrow> jb_prefetching jb
         \<and> \<not> (st = PJ_SUCCESS \<and> int (length (filter (\<lambda>c. c \<noteq> Dropped) (snd (window (framelist jb'))))) \<ge> jb_prefetch jb))"
proof -
  obtain fl1 st1 where p: "jb_framelist_put_at q f b t PJMEDIA_JB_NORMAL_FRAME (framelist jb) = (fl1, st1)" by fastforce
  obtain fl' st k where r: "put_retry q f b t (jb\<lparr>framelist := fl1\<rparr>) st1 =
       Some (jb\<lparr>framelist := fl', jb_discard := jb_discard jb + of_nat k\<rparr>, st)"
    and fl': "fl_inv fl'" "max_count fl' = jb_max_count jb" "frame_size fl' = jb_frame_size jb"
    and w: "win_store (jb_max_count jb) q (Held f b t) (window (framelist jb)) = (window fl', st, k)"
    using put_retry_store [OF jb q f p] by blast
  define jb1 where "jb1 = jb\<lparr>framelist := fl', jb_discard := jb_discard jb + of_nat k\<rparr>"
  define cs where "cs = as_s32 (int (jb_framelist_eff_size (framelist jb)))"
  obtain jb' d where a: "put_account cs st jb1 = (jb', d)" by fastforce
  have e: "pjmedia_jbuf_put_frame3 f b q t jb = Some (jb', d)"
    using p r f a by (simp add: pjmedia_jbuf_put_frame3_def Let_def jb1_def cs_def)
  have s: "as_s32 (int (jb_framelist_eff_size fl')) = int (length (filter (\<lambda>c. c \<noteq> Dropped) (snd (window fl'))))"
    using eff_size_eq(1,2) [OF fl'(1)] eff_size_eq(3) [OF fl'(1)] discarded_num_window(2) [OF fl'(1)] by simp
  have 1: "framelist jb1 = fl'" "jb_discard_algo jb1 = PJMEDIA_JB_DISCARD_NONE" "jb_prefetch jb1 = jb_prefetch jb"
    "jb_max_count jb1 = jb_max_count jb" "jb_frame_size jb1 = jb_frame_size jb" "jb_prefetching jb1 = jb_prefetching jb"
    using n by (simp_all add: jb1_def)
  have "framelist jb' = fl'" "jb_discard_algo jb' = PJMEDIA_JB_DISCARD_NONE" "jb_prefetch jb' = jb_prefetch jb"
    "jb_max_count jb' = jb_max_count jb" "jb_frame_size jb' = jb_frame_size jb" "d \<longleftrightarrow> st \<noteq> PJ_SUCCESS"
    "jb_prefetching jb' \<longleftrightarrow> jb_prefetching jb \<and> \<not> (st = PJ_SUCCESS \<and> as_s32 (int (jb_framelist_eff_size fl')) \<ge> jb_prefetch jb)"
    using a 1 by (auto simp: put_account_def Let_def update_none split: if_splits)
  then show ?thesis using e w fl' s by (auto simp: jb_base_def)
qed

lemma arrival_simp [simp]: "arrival (q, f, b, t) = (q, Held f b t)"
  by (simp add: arrival_def)

lemma win_store_fits:
  "win_put mx q c win = (win', st) \<Longrightarrow> st \<noteq> PJ_ETOOMANY \<Longrightarrow> win_store mx q c win = (win', st, 0)"
  by (simp add: win_store_def)

lemma filled_no_drop: "\<forall>(p, c) \<in> set ps. \<exists>f b t. c = Held f b t \<Longrightarrow> filter (\<lambda>c. c \<noteq> Dropped) (snd (filled a ps)) = snd (filled a ps)"
  by (auto simp: filled_def lookup_cell_def filter_id_conv split: option.splits dest!: map_of_SomeD)

lemma puts_holding:
  assumes "holding a (map arrival ps) jb" "ps \<noteq> []" "\<forall>(q, f, b, t) \<in> set (ps @ qs). a \<le> q \<and> q < a + int (jb_max_count jb)
      \<and> seq_ok q \<and> length f \<le> jb_frame_size jb"
  shows "\<exists>jb'. jbuf_puts qs jb = Some jb' \<and> holding a (map arrival (ps @ qs)) jb' \<and> jb_prefetch jb' = jb_prefetch jb"
  using assms
proof (induction qs arbitrary: ps jb)
  case (Cons p qs)
  obtain q f b t where p: "p = (q, f, b, t)" by (cases p)
  have h: "jb_base jb" "jb_discard_algo jb = PJMEDIA_JB_DISCARD_NONE" "window (framelist jb) = filled a (map arrival ps)"
    "jb_prefetching jb \<longrightarrow> int (span a (map arrival ps)) < jb_prefetch jb"
    using Cons.prems(1) by (simp_all add: holding_def)
  have q: "a \<le> q" "q < a + int (jb_max_count jb)" "seq_ok q" "length f \<le> jb_frame_size jb"
    using Cons.prems(3) p by auto
  obtain jb' d st k where r: "pjmedia_jbuf_put_frame3 f b q t jb = Some (jb', d)" "jb_base jb'"
      "win_store (jb_max_count jb) q (Held f b t) (window (framelist jb)) = (window (framelist jb'), st, k)"
      "jb_discard_algo jb' = PJMEDIA_JB_DISCARD_NONE" "jb_prefetch jb' = jb_prefetch jb"
      "jb_max_count jb' = jb_max_count jb" "jb_frame_size jb' = jb_frame_size jb"
      "jb_prefetching jb' \<longleftrightarrow> jb_prefetching jb
         \<and> \<not> (st = PJ_SUCCESS \<and> int (length (filter (\<lambda>c. c \<noteq> Dropped) (snd (window (framelist jb'))))) \<ge> jb_prefetch jb)"
    using put_frame3_none [OF h(1) q(3,4) h(2)] by blast
  have held: "\<forall>(p, c) \<in> set (map arrival xs). \<exists>f b t. c = Held f b t" for xs by auto
  have ge: "\<forall>(p, c) \<in> set (map arrival ps). a \<le> p" "\<forall>(p, c) \<in> set (map arrival ps). c \<noteq> Lost"
    using Cons.prems(3) held [of ps] by fastforce+
  have st: "window (framelist jb') = filled a (map arrival (ps @ [p]))"
    "st = (if map_of (map arrival ps) q = None then PJ_SUCCESS else PJ_EEXISTS)"
    using r(3) win_put_filled [OF q(1,2) _ ge, of "Held f b t"] Cons.prems(2)
    by (auto simp: h(3) win_store_fits p split: if_splits)
  have "holding a (map arrival (ps @ [p])) jb'"
  proof -
    have "int (span a (map arrival (ps @ [p]))) < jb_prefetch jb'" if "jb_prefetching jb'"
    proof (cases "map_of (map arrival ps) q = None")
      case True
      then have "st = PJ_SUCCESS" using st(2) by simp
      then have "\<not> int (length (filter (\<lambda>c. c \<noteq> Dropped) (snd (window (framelist jb'))))) \<ge> jb_prefetch jb" using that r(8) by simp
      then show ?thesis unfolding st(1) filled_no_drop [OF held] r(5) by (simp add: filled_def)
    next
      case False
      then obtain y where y: "map_of (map arrival ps) q = Some y" by auto
      then have "y \<noteq> Lost" using ge(2) map_of_SomeD [OF y] by blast
      then have "\<not> span a (map arrival ps) \<le> nat (q - a)"
        using lookup_beyond_span [OF _ ge(1), of "nat (q - a)"] q(1) y by (auto simp: lookup_cell_def)
      then have "Suc (nat (q - a)) \<le> span a (map arrival ps)" by simp
      then show ?thesis using that r(5,8) h(4) p by (simp add: max_def)
    qed
    then show ?thesis using r st by (simp add: holding_def)
  qed
  then show ?case using Cons.IH [of "ps @ [p]" jb'] Cons.prems(3) r p by simp
qed auto

lemma get_frame3_none:
  assumes jb: "jb_base jb" and n: "jb_discard_algo jb = PJMEDIA_JB_DISCARD_NONE" and np: "\<not> jb_prefetching jb"
    and win: "window (framelist jb) = (a, c # w)" and nd: "c \<noteq> Dropped"
  shows "\<exists>jb' fr. pjmedia_jbuf_get_frame3 None jb = Some (jb', fst (heard a c), Some fr) \<and> Some (played fr) = snd (heard a c)
    \<and> jb_base jb' \<and> jb_discard_algo jb' = PJMEDIA_JB_DISCARD_NONE \<and> \<not> jb_prefetching jb' \<and> window (framelist jb') = (a + 1, w)"
proof -
  have i: "fl_inv (framelist jb)" "max_count (framelist jb) = jb_max_count jb" "frame_size (framelist jb) = jb_frame_size jb"
    using jb by (simp_all add: jb_base_def)
  obtain fl' r where g: "jb_framelist_get None (framelist jb) = Some (fl', r)" "fl_inv fl'" "max_count fl' = max_count (framelist jb)"
      "frame_size fl' = frame_size (framelist jb)" "win_get (window (framelist jb)) = (window fl', map_option played r)"
    using framelist_get_refines [OF i(1), of None] by auto
  have "win_get (a, c # w) = ((a + 1, w), snd (heard a c))"
    using nd by (cases c) (simp_all add: win_get_def heard_def)
  then have w: "window fl' = (a + 1, w)" "map_option played r = snd (heard a c)" using g(5) win by auto
  then obtain fr where r: "r = Some fr" "Some (played fr) = snd (heard a c)" by (cases r) (auto simp: heard_def split: jb_cell.splits)
  have ty: "got_type fr = PJMEDIA_JB_NORMAL_FRAME \<longleftrightarrow> fst (heard a c) = PJMEDIA_JB_NORMAL_FRAME"
    "fst (heard a c) = PJMEDIA_JB_NORMAL_FRAME \<or> fst (heard a c) = PJMEDIA_JB_MISSING_FRAME"
    using r(2) by (cases c; simp add: heard_def played_def split: if_splits)+
  define jb1 where "jb1 = (let jb = jb\<lparr>framelist := fl'\<rparr>;
      jb = (if got_type fr = PJMEDIA_JB_NORMAL_FRAME then jb else jb\<lparr>jb_lost := jb_lost jb + 1\<rparr>);
      jb = (if jb_last_op jb = JB_OP_PUT then jb\<lparr>jb_delay := jb_delay jb @
              [as_u32 ((int (jb_framelist_eff_size (framelist jb)) + 1) * int (jb_frame_ptime jb))]\<rparr> else jb)
    in jb\<lparr>jb_level := jb_level jb + 1\<rparr>)"
  have e: "pjmedia_jbuf_get_frame3 None jb = Some (jbuf_update JB_OP_GET jb1, fst (heard a c), Some fr)"
    using np g(1) r(1) ty by (auto simp: pjmedia_jbuf_get_frame3_def Let_def jb1_def)
  have "framelist jb1 = fl'" "jb_discard_algo jb1 = PJMEDIA_JB_DISCARD_NONE" "jb_max_count jb1 = jb_max_count jb"
    "jb_frame_size jb1 = jb_frame_size jb" "\<not> jb_prefetching jb1" using n np by (simp_all add: jb1_def Let_def)
  then show ?thesis using e r(2) g i w by (auto simp: jb_base_def update_none)
qed

lemma gets_window:
  assumes "jb_base jb" "jb_discard_algo jb = PJMEDIA_JB_DISCARD_NONE" "\<not> jb_prefetching jb"
    "window (framelist jb) = (a, w)" "Dropped \<notin> set w"
  shows "\<exists>jb'. jbuf_gets (length w) jb = Some (jb', map (\<lambda>k. heard (a + int k) (w ! k)) [0..<length w])"
  using assms
proof (induction w arbitrary: a jb)
  case (Cons c w)
  obtain jb' fr where g: "pjmedia_jbuf_get_frame3 None jb = Some (jb', fst (heard a c), Some fr)" "Some (played fr) = snd (heard a c)"
    "jb_base jb'" "jb_discard_algo jb' = PJMEDIA_JB_DISCARD_NONE" "\<not> jb_prefetching jb'" "window (framelist jb') = (a + 1, w)"
    using get_frame3_none [OF Cons.prems(1-4)] Cons.prems(5) by auto
  have "map (\<lambda>k. heard (a + int k) ((c # w) ! k)) [0..<length (c # w)]
      = heard a c # map (\<lambda>k. heard (a + 1 + int k) (w ! k)) [0..<length w]"
    by (simp add: upt_conv_Cons map_Suc_upt [symmetric] algebra_simps del: upt_Suc)
  moreover have "(fst (heard a c), map_option played (Some fr)) = heard a c" using g(2) by (metis option.map(2) prod.collapse)
  ultimately show ?case using Cons.IH [OF g(3-6)] Cons.prems(5) g(1) by (auto simp del: option.map)
qed simp

lemma lookup_held: "\<forall>(p, c) \<in> set ps. \<exists>f b t. c = Held f b t \<Longrightarrow> lookup_cell ps q \<noteq> Dropped"
  by (auto simp: lookup_cell_def split: option.splits dest!: map_of_SomeD)


section \<open>The invariant\<close>

lemma drops_upto_remove: "drops_upto r win \<Longrightarrow> drops_upto r (fst (win_remove n win))"
proof -
  assume d: "drops_upto r win"
  obtain a w where win: "win = (a, w)" by fastforce
  have "a + int n + int k \<le> r" if "k < length w - n" "w ! (n + k) = Dropped" for k
  proof -
    have "n + k < length w" using that(1) by simp
    then have "a + int (n + k) \<le> r" using d that(2) win unfolding drops_upto_def by auto
    then show ?thesis by simp
  qed
  then show ?thesis using win by (auto simp: drops_upto_def win_remove_def min_def)
qed

lemma seqs_ok_remove: "seqs_ok win \<Longrightarrow> seqs_ok (fst (win_remove n win))"
  by (cases win) (auto simp: seqs_ok_def win_remove_def min_def)

lemma win_get_as_remove: "\<exists>n. fst (win_get win) = fst (win_remove n win)"
proof -
  obtain a w where win: "win = (a, w)" by fastforce
  define n where "n = length (takeWhile (\<lambda>c. c = Dropped) w)"
  have n: "n \<le> length w" by (simp add: n_def length_takeWhile_le)
  show ?thesis
  proof (cases "drop n w")
    case Nil
    then have "fst (win_get win) = fst (win_remove n win)"
      using n unfolding win_get_def win_remove_def Let_def win prod.case n_def [symmetric] by simp
    then show ?thesis ..
  next
    case (Cons c u)
    then have "n < length w" "drop (Suc n) w = u" by (metis drop_all list.distinct(1) not_le) (metis Cons drop_Suc list.sel(3) tl_drop)
    then have "fst (win_get win) = fst (win_remove (Suc n) win)"
      using Cons unfolding win_get_def win_remove_def Let_def win prod.case n_def [symmetric] by simp
    then show ?thesis ..
  qed
qed

lemma drops_upto_get: "drops_upto r win \<Longrightarrow> drops_upto r (fst (win_get win))"
  using win_get_as_remove [of win] drops_upto_remove by metis

lemma seqs_ok_get: "seqs_ok win \<Longrightarrow> seqs_ok (fst (win_get win))"
  using win_get_as_remove [of win] seqs_ok_remove by metis

lemma restart_keeps:
  "drops_upto r win \<Longrightarrow> drops_upto r (win_restart q win)"
  "seqs_ok win \<Longrightarrow> seq_ok q \<Longrightarrow> length (snd win) \<le> 2 ^ 30 \<Longrightarrow> seqs_ok (win_restart q win)"
proof -
  assume "drops_upto r win"
  then show "drops_upto r (win_restart q win)"
    by (cases win) (fastforce simp: drops_upto_def win_restart_def JB_MAX_MISORDER_def)
next
  assume "seqs_ok win" "seq_ok q" "length (snd win) \<le> 2 ^ 30"
  then show "seqs_ok (win_restart q win)"
    by (cases win) (auto simp: seqs_ok_def seq_ok_def win_restart_def)
qed

lemma jump_keeps:
  "drops_upto r win \<Longrightarrow> drops_upto r (win_jump mx q win)"
  "seqs_ok win \<Longrightarrow> seq_ok q \<Longrightarrow> seqs_ok (win_jump mx q win)"
  by (cases win; auto simp: drops_upto_def seqs_ok_def seq_ok_def win_jump_def)+

lemma put_keeps:
  assumes p: "win_put mx q c win = (win', st)" and q: "seq_ok q" and l: "length (snd win) \<le> 2 ^ 30" and c: "c \<noteq> Dropped"
  shows "drops_upto r win \<Longrightarrow> drops_upto r win'" "seqs_ok win \<Longrightarrow> seqs_ok win'"
proof -
  obtain a1 w1 where r: "win_restart q win = (a1, w1)" by fastforce
  obtain a2 w2 where j: "win_jump mx q (a1, w1) = (a2, w2)" by fastforce
  have d: "win' = (a1, w1) \<or> win' = (a2, w2) \<or> (\<not> q < a1 \<and> (win' = (a2, w2 @ replicate (nat (q - a2) - length w2) Lost @ [c]) \<and> nat (q - a2) \<ge> length w2
      \<or> win' = (a2, w2[nat (q - a2) := c])))"
    using p r j by (auto simp: win_put_def Let_def split: if_splits)
  have a2: "a2 \<le> q" if "\<not> q < a1" using j that by (auto simp: win_jump_def split: if_splits)
  show "drops_upto r win'" if "drops_upto r win"
  proof -
    have "drops_upto r (a1, w1)" "drops_upto r (a2, w2)"
      using restart_keeps(1) [OF that, of q] r jump_keeps(1) [of r "(a1, w1)" mx q] j by simp_all
    then show ?thesis using d c by (auto simp: drops_upto_def nth_append nth_list_update_if nth_Cons' less_Suc_eq split: if_splits)
  qed
  show "seqs_ok win'" if "seqs_ok win"
  proof -
    have "seqs_ok (a1, w1)" "seqs_ok (a2, w2)"
      using restart_keeps(2) [OF that q l] r jump_keeps(2) [of "(a1, w1)" q mx] q j by simp_all
    then show ?thesis using d a2 q by (auto simp: seqs_ok_def seq_ok_def)
  qed
qed

lemma store_keeps:
  assumes p: "win_store mx q c win = (win', st, k)" and q: "seq_ok q" and l: "length (snd win) \<le> mx" "mx \<le> 2 ^ 30" and c: "c \<noteq> Dropped"
  shows "drops_upto r win \<Longrightarrow> drops_upto r win'" "seqs_ok win \<Longrightarrow> seqs_ok win'"
proof -
  obtain win1 st1 where 1: "win_put mx q c win = (win1, st1)" by fastforce
  define n where "n = nat (q - fst win1 - int mx + 1)"
  obtain win2 k2 where 2: "win_remove n win1 = (win2, k2)" by fastforce
  obtain win3 st3 where 3: "win_put mx q c win2 = (win3, st3)" by fastforce
  have w: "win' = win1 \<or> win' = win3" using p 1 2 3 by (auto simp: win_store_def Let_def n_def split: if_splits)
  have "length (snd win1) \<le> mx" using win_put_length [of mx q c "fst win" "snd win" "fst win1" "snd win1" st1] 1 l by simp
  then have l2: "length (snd win2) \<le> 2 ^ 30" using 2 l(2) by (cases win1) (auto simp: win_remove_def)
  have l0: "length (snd win) \<le> 2 ^ 30" using l by simp
  show "drops_upto r win'" if "drops_upto r win"
    using w put_keeps(1) [OF 1 q l0 c that] drops_upto_remove [of r win1 n] put_keeps(1) [OF 3 q l2 c] 2 by auto
  show "seqs_ok win'" if "seqs_ok win"
    using w put_keeps(2) [OF 1 q l0 c that] seqs_ok_remove [of win1 n] put_keeps(2) [OF 3 q l2 c] 2 by auto
qed

lemma discard_duration_bound: "discard_duration b \<le> 10000"
proof -
  have "8000 * (b - Suc 0) div 99 \<le> 8000" if "\<not> 100 \<le> b"
  proof -
    have "8000 * (b - Suc 0) \<le> 8000 * 99" using that by simp
    then have "8000 * (b - Suc 0) div 99 \<le> 8000 * 99 div 99" by (rule div_le_mono)
    then show ?thesis by simp
  qed
  then show ?thesis
    by (simp add: discard_duration_def PJMEDIA_JBUF_PRO_DISC_MIN_BURST_def PJMEDIA_JBUF_PRO_DISC_MAX_BURST_def
        PJMEDIA_JBUF_PRO_DISC_T1_def PJMEDIA_JBUF_PRO_DISC_T2_def)
qed

lemma discard_inv:
  assumes i: "fl_inv fl" and s: "seqs_ok (window fl)" and d: "drops_upto ref (window fl)"
    and q: "ref < q" and dis: "jb_framelist_discard q fl = (fl', st)"
  shows "fl_inv fl' \<and> max_count fl' = max_count fl \<and> frame_size fl' = frame_size fl \<and> seqs_ok (window fl') \<and> drops_upto q (window fl')"
proof -
  have nd: "w ! nat (q - a) \<noteq> Dropped" if "window fl = (a, w)" "a \<le> q" "q < a + int (length w)" for a w
  proof
    assume "w ! nat (q - a) = Dropped"
    moreover have "nat (q - a) < length w" using that by simp
    ultimately have "a + int (nat (q - a)) \<le> ref" using d that(1) unfolding drops_upto_def by auto
    then show False using that(2) q by simp
  qed
  note r = discard_refines [OF i dis nd]
  obtain a w where win: "window fl = (a, w)" by fastforce
  have "window fl' = (a, w) \<or> window fl' = (a, w[nat (q - a) := Dropped]) \<and> a \<le> q \<and> q < a + int (length w)"
    using r(2) win by (auto simp: win_discard_def split: if_splits)
  moreover have "drops_upto q (a, w)" using d q win by (fastforce simp: drops_upto_def)
  ultimately have "seqs_ok (window fl') \<and> drops_upto q (window fl')"
    using s win by (auto simp: seqs_ok_def drops_upto_def nth_list_update_if split: if_splits)
  then show ?thesis using r by simp
qed

lemma drops_upto_last: "r \<ge> fst win + int (length (snd win)) - 1 \<Longrightarrow> drops_upto r win"
  by (auto simp: drops_upto_def)

text \<open>The progressive algorithm with the conversions between integer types resolved.\<close>

lemma progressive_cases:
  assumes jb: "jb_inv jb" "jb_discard_algo jb = PJMEDIA_JB_DISCARD_PROGRESSIVE"
  obtains (idle) "jbuf_discard_progressive jb = jb"
  | (cancelled) "jbuf_discard_progressive jb = jb\<lparr>jb_discard_dist := 0\<rparr>"
  | (scheduled) dist where "- (2 ^ 31) \<le> new_ref jb"
      "jbuf_discard_progressive jb = jb\<lparr>jb_discard_ref := new_ref jb, jb_discard_dist := dist\<rparr>"
  | (discarded) dist q where "- (2 ^ 31) \<le> new_ref jb" "new_ref jb < q"
      "jbuf_discard_progressive jb =
         jb\<lparr>jb_discard_ref := q, jb_discard_dist := dist, framelist := fst (jb_framelist_discard q (framelist jb))\<rparr>"
proof -
  define burst where "burst = as_u32 (max (jb_eff_level jb) (jb_level jb))"
  define cur where "cur = jb_framelist_eff_size (framelist jb)"
  define dd where "dd = discard_duration burst div (cur - burst) div jb_frame_ptime jb"
  define dist where "dist = nat (max (jb_min_shrink_gap jb) (int dd))"
  have i: "fl_inv (framelist jb)" using jb(1) by (simp add: jb_inv_def jb_base_def)
  have s: "- (2 ^ 31) \<le> origin (framelist jb)" "origin (framelist jb) + int (fl_size (framelist jb)) \<le> 2 ^ 31"
    using jb(1) i window_length [OF i] by (auto simp: jb_inv_def seqs_ok_def window_def)
  have g: "1 \<le> jb_min_shrink_gap jb" "jb_min_shrink_gap jb \<le> 200" "- (2 ^ 31) \<le> jb_discard_ref jb" using jb by (auto simp: jb_inv_def)
  have "dd \<le> 10000" unfolding dd_def by (meson discard_duration_bound div_le_dividend order_trans)
  then have dist: "as_s32 (int dd) = int dd" "as_u32 (max (jb_min_shrink_gap jb) (int dd)) = dist" "1 \<le> dist" "dist \<le> 10000"
      "as_s32 (int dist) = int dist"
    using g by (auto simp: dist_def as_u32_small)
  show thesis
  proof (cases "jb_last_op jb = JB_OP_PUT \<and> cur > burst")
    case True
    have "1 \<le> fl_size (framelist jb)" using True eff_size_eq(1) [OF i] unfolding cur_def by linarith
    then have l: "as_s32 (last_seq_of jb) = last_seq_of jb" "- (2 ^ 31) \<le> last_seq_of jb" "last_seq_of jb < 2 ^ 31"
      using s by (auto simp: last_seq_of_def)
    have nr: "- (2 ^ 31) \<le> new_ref jb" "new_ref jb \<le> last_seq_of jb" using l g by (auto simp: new_ref_def)
    define jb1 where "jb1 = (if jb_discard_dist jb = 0 then jb\<lparr>jb_discard_ref := last_seq_of jb\<rparr>
        else if last_seq_of jb < jb_discard_ref jb then jb\<lparr>jb_discard_ref := last_seq_of jb\<rparr> else jb)"
    have jb1: "jb1 = jb\<lparr>jb_discard_ref := new_ref jb\<rparr>" by (auto simp: jb1_def new_ref_def)
    have e: "jbuf_discard_progressive jb =
        (if last_seq_of jb \<ge> new_ref jb + int dist then
           let q = as_s32 (new_ref jb + int dist); q = (if q < origin (framelist jb) then origin (framelist jb) else q);
               (fl, _) = jb_framelist_discard q (framelist jb)
           in jb\<lparr>jb_discard_ref := q, jb_discard_dist := dist, framelist := fl\<rparr>
         else jb\<lparr>jb_discard_ref := new_ref jb, jb_discard_dist := dist\<rparr>)"
      using True unfolding jbuf_discard_progressive_def Let_def cur_def [symmetric] burst_def [symmetric] dd_def [symmetric]
        last_seq_of_def [symmetric] l(1) jb1_def [symmetric]
      by (simp add: jb1 dist Let_def split: prod.splits)
    show thesis
    proof (cases "last_seq_of jb \<ge> new_ref jb + int dist")
      case True
      then have q: "as_s32 (new_ref jb + int dist) = new_ref jb + int dist"
        using l nr dist by (intro as_s32_small) auto
      show thesis
        by (rule discarded [OF nr(1), of "max (new_ref jb + int dist) (origin (framelist jb))" dist])
          (use True dist(3) q in \<open>auto simp: e Let_def max_def split: prod.splits\<close>)
    next
      case False
      then show thesis by (intro scheduled [OF nr(1)]) (simp add: e)
    qed
  next
    case False
    then consider "jb_last_op jb \<noteq> JB_OP_PUT" | "jb_last_op jb = JB_OP_PUT" "cur \<le> burst" by linarith
    then show thesis
    proof cases
      case 1
      then show thesis by (intro idle) (simp add: jbuf_discard_progressive_def)
    next
      case 2
      then show thesis by (intro cancelled) (simp add: jbuf_discard_progressive_def Let_def cur_def burst_def)
    qed
  qed
qed

lemma jb_inv_framelist:
  assumes "jb_inv jb" "fl_inv fl" "max_count fl = jb_max_count jb" "frame_size fl = jb_frame_size jb" "seqs_ok (window fl)"
    "jb_discard_algo jb = PJMEDIA_JB_DISCARD_PROGRESSIVE \<longrightarrow> - (2 ^ 31) \<le> r \<and> drops_upto r (window fl)"
  shows "jb_inv (jb\<lparr>framelist := fl, jb_discard_ref := r\<rparr>)"
  using assms by (simp add: jb_inv_def jb_base_def)

lemma jb_inv_counters [simp]:
  "jb_inv (jb\<lparr>jb_discard_dist := d\<rparr>) = jb_inv jb" "jb_inv (jb\<lparr>jb_level := l\<rparr>) = jb_inv jb"
  "jb_inv (jb\<lparr>jb_discard := c\<rparr>) = jb_inv jb" "jb_inv (jb\<lparr>jb_lost := c\<rparr>) = jb_inv jb" "jb_inv (jb\<lparr>jb_empty := c\<rparr>) = jb_inv jb"
  "jb_inv (jb\<lparr>jb_prefetching := p\<rparr>) = jb_inv jb" "jb_inv (jb\<lparr>jb_delay := e\<rparr>) = jb_inv jb"
  by (simp_all add: jb_inv_def jb_base_def)

lemma progressive_inv:
  assumes jb: "jb_inv jb" "jb_discard_algo jb = PJMEDIA_JB_DISCARD_PROGRESSIVE"
  shows "jb_inv (jbuf_discard_progressive jb)"
proof -
  have i: "fl_inv (framelist jb)" "max_count (framelist jb) = jb_max_count jb" "frame_size (framelist jb) = jb_frame_size jb"
    "seqs_ok (window (framelist jb))" "drops_upto (jb_discard_ref jb) (window (framelist jb))"
    using jb by (auto simp: jb_inv_def jb_base_def)
  have "last_seq_of jb = fst (window (framelist jb)) + int (length (snd (window (framelist jb)))) - 1"
    using i(1) by (simp add: last_seq_of_def) (simp add: window_def)
  then have nr: "drops_upto (new_ref jb) (window (framelist jb))"
    using i(5) drops_upto_last [of "window (framelist jb)" "last_seq_of jb"] by (simp add: new_ref_def)
  from jb show ?thesis
  proof (cases rule: progressive_cases)
    case idle
    then show ?thesis using jb(1) by simp
  next
    case cancelled
    then show ?thesis using jb(1) by simp
  next
    case (scheduled dist)
    then show ?thesis using jb_inv_framelist [OF jb(1) i(1-4), of "new_ref jb"] nr jb(2) by simp
  next
    case (discarded dist q)
    obtain fl' st where dis: "jb_framelist_discard q (framelist jb) = (fl', st)" by fastforce
    from discard_inv [OF i(1) i(4) nr discarded(2) dis] have "jb_inv (jb\<lparr>framelist := fl', jb_discard_ref := q\<rparr>)"
      using i discarded(1,2) by (intro jb_inv_framelist [OF jb(1)]) auto
    then show ?thesis unfolding discarded(3) dis by (simp add: jb_inv_def jb_base_def)
  qed
qed

lemma static_inv:
  assumes jb: "jb_inv jb" "jb_discard_algo jb = PJMEDIA_JB_DISCARD_STATIC"
  shows "jb_inv (jbuf_discard_static jb)"
proof -
  have i: "fl_inv (framelist jb)" "max_count (framelist jb) = jb_max_count jb" "frame_size (framelist jb) = jb_frame_size jb"
    "seqs_ok (window (framelist jb))" using jb by (auto simp: jb_inv_def jb_base_def)
  obtain fl k where r: "jb_framelist_remove_head 1 (framelist jb) = (fl, k)" by fastforce
  note 1 = frames.remove_law [OF i(1) r]
  have "seqs_ok (window fl)" using seqs_ok_remove [OF i(4), of 1] 1 by simp
  then have "jb_inv (jb\<lparr>framelist := fl, jb_discard_ref := x\<rparr>)" for x using 1 i jb by (intro jb_inv_framelist) auto
  moreover have "jb_inv (jb\<lparr>jb_discard_ref := x\<rparr>)" for x using jb_inv_framelist [OF jb(1) i(1-4), of x] jb(2) by simp
  ultimately show ?thesis using jb(1) r by (simp add: jbuf_discard_static_def Let_def jb_inv_def jb_base_def)
qed

lemma switch_inv: "jb_inv jb \<Longrightarrow> jb_inv (fst (jbuf_switch oper jb))"
proof -
  assume jb: "jb_inv jb"
  have "0 \<le> jb_prefetch (fst (jbuf_switch oper jb)) \<and> jb_prefetch (fst (jbuf_switch oper jb)) \<le> jb_max_prefetch jb"
    using jb by (auto simp: jbuf_switch_def Let_def jb_inv_def intro!: calculate_jitter_prefetch
        calculate_jitter_prefetch(2) [THEN order_trans])
  then show ?thesis using jb by (simp add: jb_inv_def jb_base_def)
qed

lemma update_inv: "jb_inv jb \<Longrightarrow> jb_inv (jbuf_update oper jb)"
proof -
  have "jb_inv (run_discard_algo jb)" if "jb_inv jb" for jb
    using that progressive_inv static_inv by (cases "jb_discard_algo jb") (simp_all add: run_discard_algo_def)
  then show "jb_inv jb \<Longrightarrow> jb_inv (jbuf_update oper jb)" by (simp add: update_switched Let_def switch_inv)
qed

section \<open>Removing frames\<close>

lemma live_dropped: "live w + length (filter (\<lambda>c. c = Dropped) w) = length w"
  using sum_length_filter_compl [of "\<lambda>c. c = Dropped" w] by simp

lemma remove_more_counts:
  assumes "fl_inv fl" "W = V @ snd (window fl)" "count = live V + (ld - discarded_num fl)" "discarded_num fl \<le> ld"
    "count = n \<or> snd (window fl) = []" "length W < 2 ^ 32" "count \<le> length V" "count \<le> n"
  shows "\<exists>fl' V' c. remove_more fl count ld = Some (fl', c) \<and> fl_inv fl' \<and> max_count fl' = max_count fl
    \<and> frame_size fl' = frame_size fl \<and> W = V' @ snd (window fl') \<and> c = live V' \<and> c \<le> n \<and> (c = n \<or> snd (window fl') = [])
    \<and> (\<exists>k. window fl' = fst (win_remove k (window fl)))"
  using assms
proof (induction ld arbitrary: fl V count rule: less_induct)
  case (less ld)
  note i = less.prems(1)
  show ?case
  proof (cases "discarded_num fl < ld")
    case False
    have "window fl = fst (win_remove 0 (window fl))" by (cases "window fl") (simp add: win_remove_def)
    then have "\<exists>k. window fl = fst (win_remove k (window fl))" ..
    moreover have "remove_more fl count ld = Some (fl, count)" using False by (subst remove_more.simps) simp
    moreover have "count = live V" using False less.prems(3,4) by simp
    ultimately show ?thesis using less.prems(1,2,5,8) by blast
  next
    case True
    define fc where "fc = ld - discarded_num fl"
    obtain fl1 k where r: "jb_framelist_remove_head fc fl = (fl1, k)" by fastforce
    obtain a w where win: "window fl = (a, w)" by fastforce
    have 1: "fl_inv fl1" "window fl1 = (a + int (min fc (length w)), drop fc w)" "k = min fc (length w)"
      "max_count fl1 = max_count fl" "frame_size fl1 = frame_size fl"
      using frames.remove_law [OF i r] win by (auto simp: win_remove_def)
    define V1 where "V1 = V @ take fc w"
    have W: "W = V1 @ snd (window fl1)" using less.prems(2) win 1(2) by (simp add: V1_def)
    have d: "discarded_num fl = length (filter (\<lambda>c. c = Dropped) (take fc w)) + discarded_num fl1"
    proof -
      have "filter (\<lambda>c. c = Dropped) w = filter (\<lambda>c. c = Dropped) (take fc w) @ filter (\<lambda>c. c = Dropped) (drop fc w)"
        by (metis append_take_drop_id filter_append)
      then show ?thesis using dropped_window [OF i] dropped_window [OF 1(1)] win 1(2) by simp
    qed
    have c: "count = live V + fc" using less.prems(3) by (simp add: fc_def)
    have k: "live (take fc w) + length (filter (\<lambda>c. c = Dropped) (take fc w)) = k" using live_dropped [of "take fc w"] 1(3) by simp
    have "count + k < 2 ^ 32" using less.prems(2,6,7) 1(3) win by simp
    then have c1: "as_u32 (int count - int fc + int k) = live V + k" using c by (simp add: as_u32_small nat_add_distrib)
    have e: "remove_more fl count ld = remove_more fl1 (live V + k) (discarded_num fl)"
      by (subst remove_more.simps) (use True r c1 in \<open>simp add: fc_def\<close>)
    have "live V + k = live V1 + (discarded_num fl - discarded_num fl1)" using k d by (simp add: V1_def)
    moreover have "live V + k = n \<or> snd (window fl1) = []" using less.prems(5) c 1(2,3) win by auto
    moreover have "live V + k \<le> n" using less.prems(8) c 1(3) by simp
    moreover have "live V + k \<le> length V1" using 1(3) length_filter_le [of "\<lambda>c. c \<noteq> Dropped" V] by (simp add: V1_def min.commute)
    ultimately obtain fl' V' c' where 2: "remove_more fl1 (live V + k) (discarded_num fl) = Some (fl', c')" "fl_inv fl'"
        "max_count fl' = max_count fl1" "frame_size fl' = frame_size fl1" "W = V' @ snd (window fl')" "c' = live V'" "c' \<le> n"
        "c' = n \<or> snd (window fl') = []" "\<exists>k. window fl' = fst (win_remove k (window fl1))"
      using less.IH [OF True 1(1) W] d less.prems(6) by auto
    have "\<exists>k. window fl' = fst (win_remove k (window fl))"
    proof -
      from 2(9) obtain m where "window fl' = fst (win_remove m (window fl1))" ..
      then have "window fl' = fst (win_remove (fc + m) (window fl))"
        using win 1(2) by (auto simp: win_remove_def min_def add.commute)
      then show ?thesis ..
    qed
    then show ?thesis using e 1(4,5) 2 by auto
  qed
qed

lemma remove_frame_counts:
  assumes jb: "jb_base jb" and win: "window (framelist jb) = (a, w)"
  shows "\<exists>jb' V u. pjmedia_jbuf_remove_frame n jb = Some (jb', min n (live w)) \<and> w = V @ u \<and> live V = min n (live w)
    \<and> window (framelist jb') = (a + int (length V), u) \<and> fl_inv (framelist jb') \<and> jb' = jb\<lparr>framelist := framelist jb'\<rparr>
    \<and> max_count (framelist jb') = jb_max_count jb \<and> frame_size (framelist jb') = jb_frame_size jb"
proof -
  have i: "fl_inv (framelist jb)" "max_count (framelist jb) = jb_max_count jb" "frame_size (framelist jb) = jb_frame_size jb"
    using jb by (simp_all add: jb_base_def)
  obtain fl1 k where r: "jb_framelist_remove_head n (framelist jb) = (fl1, k)" by fastforce
  have 1: "fl_inv fl1" "window fl1 = (a + int (min n (length w)), drop n w)" "k = min n (length w)"
    "max_count fl1 = jb_max_count jb" "frame_size fl1 = jb_frame_size jb"
    using frames.remove_law [OF i(1) r] win i by (auto simp: win_remove_def)
  have l: "length w \<le> 2 ^ 29" using window_length [OF i(1)] win fl_invD(2,5) [OF i(1)] by simp
  have d: "discarded_num (framelist jb) = length (filter (\<lambda>c. c = Dropped) (take n w)) + discarded_num fl1"
  proof -
    have "filter (\<lambda>c. c = Dropped) w = filter (\<lambda>c. c = Dropped) (take n w) @ filter (\<lambda>c. c = Dropped) (drop n w)"
      by (metis append_take_drop_id filter_append)
    then show ?thesis using dropped_window [OF i(1)] dropped_window [OF 1(1)] win 1(2) by simp
  qed
  have k: "k = live (take n w) + (discarded_num (framelist jb) - discarded_num fl1)"
    using d live_dropped [of "take n w"] 1(3) by simp
  have W: "w = take n w @ snd (window fl1)" using 1(2) by simp
  have "discarded_num fl1 \<le> discarded_num (framelist jb)" "k = n \<or> snd (window fl1) = []" "length w < 2 ^ 32" "k \<le> length (take n w)" "k \<le> n"
    using d l 1(2,3) by auto
  from remove_more_counts [OF 1(1) W k this] obtain fl' V c m where
    2: "remove_more fl1 k (discarded_num (framelist jb)) = Some (fl', c)" "fl_inv fl'"
      "max_count fl' = max_count fl1" "frame_size fl' = frame_size fl1" "w = V @ snd (window fl')" "c = live V" "c \<le> n"
      "c = n \<or> snd (window fl') = []" "window fl' = fst (win_remove m (window fl1))" by blast
  obtain o' u where win': "window fl' = (o', u)" by fastforce
  have w: "w = V @ u" using 2(5) win' by simp
  then have c: "c = min n (live w)" using 2(6,7,8) win' by auto
  have "o' + int (length u) = a + int (length w)"
    using 2(9) unfolding win' 1(2) by (auto simp: win_remove_def min_def)
  then have o': "window fl' = (a + int (length V), u)" using w win' by simp
  have "pjmedia_jbuf_remove_frame n jb = Some (jb\<lparr>framelist := fl'\<rparr>, min n (live w))"
    using r 2(1) c by (simp add: pjmedia_jbuf_remove_frame_def)
  then show ?thesis using 1(4,5) 2(2,3,4,6) c w o' by (intro exI [of _ "jb\<lparr>framelist := fl'\<rparr>"] exI [of _ V] exI [of _ u]) simp
qed

lemma jb_invD:
  assumes "jb_inv jb"
  shows "jb_base jb" "fl_inv (framelist jb)" "max_count (framelist jb) = jb_max_count jb"
    "frame_size (framelist jb) = jb_frame_size jb" "seqs_ok (window (framelist jb))"
  using assms by (simp_all add: jb_inv_def jb_base_def)

lemma jb_inv_new_list:
  assumes "jb_inv jb" "fl_inv fl" "max_count fl = jb_max_count jb" "frame_size fl = jb_frame_size jb" "seqs_ok (window fl)"
    "\<And>r. drops_upto r (window (framelist jb)) \<Longrightarrow> drops_upto r (window fl)"
  shows "jb_inv (jb\<lparr>framelist := fl\<rparr>)"
  using jb_inv_framelist [OF assms(1-5), of "jb_discard_ref jb"] assms(1,6) by (simp add: jb_inv_def)

lemma put_frame3_inv:
  assumes jb: "jb_inv jb" and q: "seq_ok q"
  shows "\<exists>jb' d. pjmedia_jbuf_put_frame3 f b q t jb = Some (jb', d) \<and> jb_inv jb'"
proof -
  note i = jb_invD [OF jb]
  define g where "g = take (min (length f) (jb_frame_size jb)) f"
  have g: "length g \<le> jb_frame_size jb" by (simp add: g_def)
  obtain fl1 st1 where p: "jb_framelist_put_at q g b t PJMEDIA_JB_NORMAL_FRAME (framelist jb) = (fl1, st1)" by fastforce
  obtain fl' st k where r: "put_retry q g b t (jb\<lparr>framelist := fl1\<rparr>) st1 =
       Some (jb\<lparr>framelist := fl', jb_discard := jb_discard jb + of_nat k\<rparr>, st)"
    and fl': "fl_inv fl'" "max_count fl' = jb_max_count jb" "frame_size fl' = jb_frame_size jb"
    and w: "win_store (jb_max_count jb) q (Held g b t) (window (framelist jb)) = (window fl', st, k)"
    using put_retry_store [OF i(1) q g p] by blast
  have l: "length (snd (window (framelist jb))) \<le> jb_max_count jb" "jb_max_count jb \<le> 2 ^ 30"
    using i(2,3) fl_invD(2,5) [OF i(2)] by simp_all
  have "jb_inv (jb\<lparr>framelist := fl'\<rparr>)"
    using store_keeps [OF w q l] i(5) by (intro jb_inv_new_list [OF jb fl']) simp_all
  then have "jb_inv (jb\<lparr>framelist := fl', jb_discard := jb_discard jb + of_nat k\<rparr>)"
    using jb_inv_counters(3) [where jb = "jb\<lparr>framelist := fl'\<rparr>"] by simp
  then have "jb_inv (fst (put_account cs st (jb\<lparr>framelist := fl', jb_discard := jb_discard jb + of_nat k\<rparr>)))" for cs
    by (simp add: put_account_def Let_def update_inv del: fun_upd_apply)
  then show ?thesis using p r by (simp add: pjmedia_jbuf_put_frame3_def Let_def flip: g_def) (metis prod.collapse)
qed

lemma get_frame3_inv:
  assumes jb: "jb_inv jb" and b: "\<And>n. bufsize = Some n \<Longrightarrow> jb_frame_size jb \<le> n"
  shows "\<exists>jb' ty fr. pjmedia_jbuf_get_frame3 bufsize jb = Some (jb', ty, fr) \<and> jb_inv jb'"
proof (cases "jb_prefetching jb")
  case True
  then show ?thesis using jb by (simp add: pjmedia_jbuf_get_frame3_def Let_def update_inv)
next
  case False
  note i = jb_invD [OF jb]
  obtain fl' r where g: "jb_framelist_get bufsize (framelist jb) = Some (fl', r)" "fl_inv fl'" "max_count fl' = max_count (framelist jb)"
      "frame_size fl' = frame_size (framelist jb)" "win_get (window (framelist jb)) = (window fl', map_option played r)"
    using framelist_get_refines [OF i(2), of bufsize] b i(4) by auto
  have "jb_inv (jb\<lparr>framelist := fl'\<rparr>)"
    using g i drops_upto_get [of _ "window (framelist jb)"] seqs_ok_get [OF i(5)] by (intro jb_inv_new_list [OF jb]) auto
  then show ?thesis using False g(1)
    by (cases r) (auto simp: pjmedia_jbuf_get_frame3_def Let_def intro!: update_inv)
qed

lemma remove_frame_inv:
  assumes jb: "jb_inv jb"
  shows "\<exists>jb' c. pjmedia_jbuf_remove_frame n jb = Some (jb', c) \<and> jb_inv jb'"
proof -
  note i = jb_invD [OF jb]
  obtain a w where win: "window (framelist jb) = (a, w)" by fastforce
  obtain jb' V u where r: "pjmedia_jbuf_remove_frame n jb = Some (jb', min n (live w))" "w = V @ u"
    "window (framelist jb') = (a + int (length V), u)" "fl_inv (framelist jb')" "jb' = jb\<lparr>framelist := framelist jb'\<rparr>"
    "max_count (framelist jb') = jb_max_count jb" "frame_size (framelist jb') = jb_frame_size jb"
    using remove_frame_counts [OF i(1) win, of n] by blast
  have e: "window (framelist jb') = fst (win_remove (length V) (window (framelist jb)))"
    using r(2,3) win by (simp add: win_remove_def)
  have "jb_inv (jb\<lparr>framelist := framelist jb'\<rparr>)"
    using r(4,6,7) i e seqs_ok_remove [OF i(5)] drops_upto_remove by (intro jb_inv_new_list [OF jb]) auto
  then show ?thesis using r(1,5) by auto
qed

lemma reset_inv: "jb_inv jb \<Longrightarrow> jb_inv (pjmedia_jbuf_reset jb)"
  using fl_inv_reset [of "framelist jb"]
  by (simp add: jb_inv_def jb_base_def pjmedia_jbuf_reset_def seqs_ok_def drops_upto_def INVALID_OFFSET_def)

lemma jbuf_create_inv:
  assumes "0 < ptime" "ptime \<le> 200" "0 < mc" "mc \<le> 2 ^ 29" "length mem = mc" "\<forall>s \<in> set mem. length (content s) = fs"
  shows "\<exists>jb. pjmedia_jbuf_create mem fs ptime mc = Some jb \<and> jb_inv jb"
proof -
  define fl where "fl = jb_framelist_init mem fs mc"
  have fl: "fl_inv fl" "window fl = (INVALID_OFFSET, [])" "max_count fl = mc" "frame_size fl = fs"
    using assms by (auto simp: fl_def jb_framelist_init_def jb_framelist_reset_def fl_inv_def ring_def slot_ok_def window_def
        filter_map o_def)
  have m: "as_u32 (int mc * 4) = mc * 4" using assms(4) by (simp add: as_u32_def)
  have g: "1 \<le> 200 div ptime" "200 div ptime \<le> 200" using assms by (simp_all add: Suc_le_eq div_greater_zero_iff)
  show ?thesis using assms(1) fl m g fl_inv_reset [OF fl(1)]
    by (simp add: pjmedia_jbuf_create_def pjmedia_jbuf_set_discard_def jb_inv_def jb_base_def pjmedia_jbuf_reset_def
        seqs_ok_def drops_upto_def PJMEDIA_JBUF_DISC_MIN_GAP_def INVALID_OFFSET_def flip: fl_def)
qed

lemma reachable_inv: "jbuf_reachable jb \<Longrightarrow> jb_inv jb"
proof (induction rule: jbuf_reachable.induct)
  case (created mem fs ptime mc jb)
  then have "0 < ptime" by (auto simp: pjmedia_jbuf_create_def split: if_splits)
  with created show ?case using jbuf_create_inv [of ptime mc mem fs] by auto
next
  case (put jb q f b t jb' d)
  then show ?case using put_frame3_inv [OF put.IH put.hyps(2), of f b t] by auto
next
  case (get jb bufsize jb' r)
  then show ?case using get_frame3_inv [OF get.IH, of bufsize] by (cases bufsize) auto
next
  case (remove jb n jb' c)
  then show ?case using remove_frame_inv [OF remove.IH, of n] by auto
next
  case (reset jb)
  then show ?case by (simp add: reset_inv)
next
  case (ptime jb ptime jb')
  then have "0 < ptime" by (auto simp: pjmedia_jbuf_set_ptime_def split: if_splits)
  moreover have "1 \<le> 200 div ptime" "200 div ptime \<le> 200" using calculation ptime.hyps(2) by (simp_all add: Suc_le_eq div_greater_zero_iff)
  ultimately show ?case using ptime
    by (auto simp: pjmedia_jbuf_set_ptime_def jb_inv_def jb_base_def PJMEDIA_JBUF_DISC_MIN_GAP_def)
next
  case (fixed jb n jb' st)
  then show ?case by (auto simp: pjmedia_jbuf_set_fixed_def pjmedia_jbuf_set_discard_def jb_inv_def jb_base_def split: if_splits)
next
  case (adaptive jb n l h jb' st)
  then show ?case by (auto simp: pjmedia_jbuf_set_adaptive_def jb_inv_def jb_base_def split: if_splits)
next
  case (algo jb algo jb' st)
  then show ?case by (auto simp: pjmedia_jbuf_set_discard_def jb_inv_def jb_base_def)
qed

section \<open>Peeking\<close>

lemma peek_pos_finds:
  assumes i: "fl_inv fl" and win: "window fl = (a, w)" and k: "k \<le> length w" and l: "idx < live (drop k w)"
  shows "\<exists>j. k \<le> j \<and> j < length w \<and> peek_pos fl ((head fl + k) mod max_count fl) idx = Some ((head fl + j) mod max_count fl)
    \<and> w ! j \<noteq> Dropped \<and> live (drop k w) = idx + live (drop j w)"
  using k l
proof (induction "length w - k" arbitrary: k idx)
  case 0
  then show ?case by simp
next
  case (Suc n)
  note i' = fl_invD [OF i]
  have k: "k < length w" using Suc.hyps(2) by linarith
  have sz: "length w = fl_size fl" using window_length [OF i] win by simp
  then have km: "k < max_count fl" using k i'(5) by simp
  have "w ! k = cell (ring fl ! k)" using win k sz i'(3,5) by (auto simp: window_def)
  then have c: "frame_type (slots fl ! ((head fl + k) mod max_count fl)) = PJMEDIA_JB_DISCARDED_FRAME \<longleftrightarrow> w ! k = Dropped"
    using cell_dropped [OF ring_ok [OF i km]] ring_nth [of k fl] km i'(3) by simp
  have n: "n = length w - Suc k" "Suc k \<le> length w" using Suc.hyps(2) by linarith+
  have d: "drop k w = w ! k # drop (Suc k) w" using k by (simp add: Cons_nth_drop_Suc)
  have s: "((head fl + k) mod max_count fl + 1) mod max_count fl = (head fl + Suc k) mod max_count fl"
    by (simp add: mod_Suc_eq)
  consider (dropped) "w ! k = Dropped" | (here) "w ! k \<noteq> Dropped" "idx = 0" | (later) "w ! k \<noteq> Dropped" "0 < idx" by blast
  then show ?case
  proof cases
    case dropped
    then have "peek_pos fl ((head fl + k) mod max_count fl) idx = peek_pos fl ((head fl + Suc k) mod max_count fl) idx"
      using c s by (subst peek_pos.simps) simp
    moreover have "idx < live (drop (Suc k) w)" "live (drop k w) = live (drop (Suc k) w)" using Suc.prems(2) d dropped by simp_all
    moreover obtain j where "Suc k \<le> j" "j < length w" "w ! j \<noteq> Dropped" "live (drop (Suc k) w) = idx + live (drop j w)"
        "peek_pos fl ((head fl + Suc k) mod max_count fl) idx = Some ((head fl + j) mod max_count fl)"
      using Suc.hyps(1) [OF n calculation(2)] by auto
    ultimately show ?thesis by (intro exI [of _ j]) simp
  next
    case here
    then have "peek_pos fl ((head fl + k) mod max_count fl) idx = Some ((head fl + k) mod max_count fl)"
      using c by (subst peek_pos.simps) simp
    then show ?thesis using here k by auto
  next
    case later
    then have "peek_pos fl ((head fl + k) mod max_count fl) idx = peek_pos fl ((head fl + Suc k) mod max_count fl) (idx - 1)"
      using c s by (subst peek_pos.simps) simp
    moreover have "idx - 1 < live (drop (Suc k) w)" "live (drop k w) = Suc (live (drop (Suc k) w))" using Suc.prems(2) d later by simp_all
    moreover obtain j where "Suc k \<le> j" "j < length w" "w ! j \<noteq> Dropped" "live (drop (Suc k) w) = idx - 1 + live (drop j w)"
        "peek_pos fl ((head fl + Suc k) mod max_count fl) (idx - 1) = Some ((head fl + j) mod max_count fl)"
      using Suc.hyps(1) [OF n calculation(2)] by auto
    ultimately show ?thesis using later by (intro exI [of _ j]) simp
  qed
qed

text \<open>
  Peeking at an offset returns the frame that many undiscarded frames after the head, with its
  data, and always ends. The sequence number it reports is the one of the head plus the offset, which
  is the number of the returned frame exactly when no discarded frame lies before it.
\<close>

theorem jbuf_peek_sequence_number:
  assumes "jb_inv jb" "window (framelist jb) = (a, w)" "offset < live w"
  shows "\<exists>j fr. pjmedia_jbuf_peek_frame offset jb = Some (fst (heard (a + int j) (w ! j)), Some fr)
    \<and> j < length w \<and> w ! j \<noteq> Dropped \<and> live (take j w) = offset
    \<and> (\<forall>f b t. w ! j = Held f b t \<longrightarrow> got_data fr = f \<and> got_bits fr = b \<and> got_ts fr = t)
    \<and> got_seq fr = a + int offset \<and> (got_seq fr = a + int j \<longleftrightarrow> Dropped \<notin> set (take j w))"
proof -
  note i = jb_invD [OF assms(1)]
  note win = assms(2)
  have sz: "length w = fl_size (framelist jb)" using window_length [OF i(2)] win by simp
  obtain j where j: "j < length w" "w ! j \<noteq> Dropped" "live w = offset + live (drop j w)"
      "peek_pos (framelist jb) (head (framelist jb)) offset = Some ((head (framelist jb) + j) mod max_count (framelist jb))"
    using peek_pos_finds [OF i(2) win, of 0 offset] assms(3) fl_invD(4) [OF i(2)] by auto
  have "live w = live (take j w) + live (drop j w)" by (metis append_take_drop_id filter_append length_append)
  then have t: "live (take j w) = offset" using j(3) by simp
  have n: "offset + length (filter (\<lambda>c. c = Dropped) (take j w)) = j" using live_dropped [of "take j w"] t j(1) by simp
  define s where "s = ring (framelist jb) ! j"
  have jm: "j < max_count (framelist jb)" using j(1) sz fl_invD(5) [OF i(2)] by simp
  have s: "slots (framelist jb) ! ((head (framelist jb) + j) mod max_count (framelist jb)) = s" "cell s = w ! j" "slot_ok (jb_frame_size jb) s"
    using ring_nth [of j "framelist jb"] jm fl_invD(3,5) [OF i(2)] win j(1) sz ring_ok [OF i(2) jm] i(4) by (auto simp: s_def window_def)
  define fr where "fr = \<lparr>got_type = frame_type s, got_data = take (content_len s) (content s), got_bits = bit_info s, got_ts = slot_ts s,
      got_seq = a + int offset\<rparr>"
  have "as_s32 (a + int offset) = a + int offset"
    using i(5) win n j(1) by (intro as_s32_small) (auto simp: seqs_ok_def)
  then have "jb_framelist_peek offset (framelist jb) = Some (Some fr)"
    using eff_size_eq(3) [OF i(2)] win assms(3) j(4) s(1) by (simp add: jb_framelist_peek_def fr_def Let_def) (simp add: window_def)
  then have "pjmedia_jbuf_peek_frame offset jb = Some (fst (heard (a + int j) (w ! j)), Some fr)"
    using s(3) j(2) unfolding s(2) [symmetric] by (auto simp: pjmedia_jbuf_peek_frame_def fr_def heard_def cell_def slot_ok_def)
  moreover have "got_data fr = f \<and> got_bits fr = b \<and> got_ts fr = t" if "w ! j = Held f b t" for f b t
    using that s(3) unfolding s(2) [symmetric] by (auto simp: fr_def cell_def slot_ok_def)
  moreover have "a + int offset = a + int j \<longleftrightarrow> Dropped \<notin> set (take j w)"
  proof -
    have "Dropped \<notin> set (take j w) \<longleftrightarrow> filter (\<lambda>c. c = Dropped) (take j w) = []" by (auto simp: filter_empty_conv)
    moreover have "offset = j \<longleftrightarrow> length (filter (\<lambda>c. c = Dropped) (take j w)) = 0" using n by linarith
    ultimately show ?thesis by simp
  qed
  ultimately show ?thesis using j t by (intro exI [of _ j] exI [of _ fr]) (simp add: fr_def)
qed


lemma demo_reachable: "jbuf_reachable demo_jb"
proof -
  obtain jb where c: "pjmedia_jbuf_create demo_mem 2 20 4 = Some jb"
    using jbuf_create_inv [of 20 4 demo_mem 2] by (auto simp: demo_mem_def)
  have "jbuf_reachable jb" by (rule jbuf_reachable.created [OF c]) (simp_all add: demo_mem_def)
  then show ?thesis unfolding demo_jb_def c by (metis jbuf_reachable.fixed option.sel prod.collapse)
qed

lemma demo_facts:
  "jb_discard_algo demo_jb = PJMEDIA_JB_DISCARD_NONE" "window (framelist demo_jb) = (INVALID_OFFSET, [])"
  "jb_max_count demo_jb = 4" "jb_frame_size demo_jb = 2" "jb_prefetch demo_jb = 2"
  by (simp_all add: demo_jb_def pjmedia_jbuf_create_def pjmedia_jbuf_set_fixed_def pjmedia_jbuf_set_discard_def pjmedia_jbuf_reset_def
      jb_framelist_init_def Let_def)



lemma demo_fl_slots:
  "slots demo_fl = [\<lparr>frame_type = PJMEDIA_JB_DISCARDED_FRAME, content = [1, 0], content_len = 1, bit_info = 0, slot_ts = 50\<rparr>,
     \<lparr>frame_type = PJMEDIA_JB_NORMAL_FRAME, content = [3, 0], content_len = 1, bit_info = 0, slot_ts = 60\<rparr>,
     \<lparr>frame_type = PJMEDIA_JB_MISSING_FRAME, content = [0, 0], content_len = 0, bit_info = 7, slot_ts = 9\<rparr>,
     \<lparr>frame_type = PJMEDIA_JB_MISSING_FRAME, content = [0, 0], content_len = 0, bit_info = 7, slot_ts = 9\<rparr>]"
  "head demo_fl = 0" "max_count demo_fl = 4" "frame_size demo_fl = 2" "fl_size demo_fl = 2" "discarded_num demo_fl = 1" "origin demo_fl = 5"
  by code_simp+

lemma demo_fl_ok: "fl_inv demo_fl" "window demo_fl = (5, [Dropped, Held [3] 0 60])"
  by (auto simp: fl_inv_def window_def ring_def demo_fl_slots slot_ok_def is_discarded_def cell_def)

lemma demo_drop_inv: "jb_inv (demo_jb\<lparr>framelist := demo_fl\<rparr>)"
proof -
  have i: "jb_inv demo_jb" by (rule reachable_inv [OF demo_reachable])
  show ?thesis using jb_inv_framelist [OF i demo_fl_ok(1), of "jb_discard_ref demo_jb"] demo_facts
    by (simp add: demo_fl_slots demo_fl_ok(2) seqs_ok_def)
qed

theorem jbuf_peek_sequence_number_witness:
  "\<exists>fr. pjmedia_jbuf_peek_frame 0 (demo_jb\<lparr>framelist := demo_fl\<rparr>) = Some (PJMEDIA_JB_NORMAL_FRAME, Some fr) \<and> got_data fr = [3] \<and> got_seq fr = 5"
proof -
  define w where "w = [Dropped, Held [3] 0 60]"
  have "window (framelist (demo_jb\<lparr>framelist := demo_fl\<rparr>)) = (5, w)" "0 < live w" by (simp_all add: demo_fl_ok(2) w_def)
  from jbuf_peek_sequence_number [OF demo_drop_inv this] obtain j fr where
    p: "pjmedia_jbuf_peek_frame 0 (demo_jb\<lparr>framelist := demo_fl\<rparr>) = Some (fst (heard (5 + int j) (w ! j)), Some fr)"
      "j < length w" "w ! j \<noteq> Dropped" "got_seq fr = 5 + int 0" "\<forall>f b t. w ! j = Held f b t \<longrightarrow> got_data fr = f \<and> got_bits fr = b \<and> got_ts fr = t"
    by blast
  have "j = 1" using p(2,3) by (cases j) (auto simp: w_def)
  then have "w ! j = Held [3] 0 60" by (simp add: w_def)
  then show ?thesis using p(1,4,5) by (simp add: heard_def)
qed



end
