(* ===== verification/Pj_String.thy ===== *)
theory Pj_String
  imports Hash_Table
begin

text \<open>
  The string functions of \<^verbatim>\<open>pjlib/src/pj/string.c\<close> and \<^verbatim>\<open>pj/string_i.h\<close> that print and read numbers
  and split strings into tokens. A \<^verbatim>\<open>pj_str_t\<close> is its list of octets.
\<close>

section \<open>Definitions\<close>

definition cstr :: "string \<Rightarrow> bytes" where
  "cstr s = map of_char s"

definition pj_isdigit :: "u8 \<Rightarrow> bool" where
  "pj_isdigit c \<longleftrightarrow> 48 \<le> c \<and> c \<le> 57"

definition pj_isspace :: "u8 \<Rightarrow> bool" where
  "pj_isspace c \<longleftrightarrow> 9 \<le> c \<and> c \<le> 13 \<or> c = 32"

text \<open>
  \<^verbatim>\<open>*str->ptr\<close>, the first octet; the strings of a description are followed by another octet, and
  for the empty string that octet is taken to be the terminating NUL.
\<close>

definition first_octet :: "bytes \<Rightarrow> u8" where
  "first_octet s = (case s of [] \<Rightarrow> 0 | c # _ \<Rightarrow> c)"

definition pj_stricmp_eq :: "bytes \<Rightarrow> bytes \<Rightarrow> bool" where
  "pj_stricmp_eq str1 str2 \<longleftrightarrow> length str1 = length str2 \<and> strnicmp_eq str1 str2"

text \<open>The numbers are \<^verbatim>\<open>unsigned long\<close>, of 64 bits, and wrap around.\<close>

fun strtoul_loop :: "bytes \<Rightarrow> u64 \<Rightarrow> u64" where
  "strtoul_loop [] value = value"
| "strtoul_loop (c # str) value =
     (if \<not> pj_isdigit c then value else strtoul_loop str (value * 10 + (ucast c - 48)))"

definition pj_strtoul :: "bytes \<Rightarrow> u64" where
  "pj_strtoul str = strtoul_loop str 0"

text \<open>
  \<^verbatim>\<open>pj_strtoul2\<close> with a base of at most ten: the value and the rest of the string. The digit is an
  \<^verbatim>\<open>unsigned\<close> made from a signed \<^verbatim>\<open>char\<close>.
\<close>

fun strtoul2_loop :: "u32 \<Rightarrow> bytes \<Rightarrow> u64 \<Rightarrow> u64 \<times> bytes" where
  "strtoul2_loop base [] value = (value, [])"
| "strtoul2_loop base (ch # str) value =
     (let c = scast ch - 48
      in if c \<ge> base then (value, ch # str)
         else strtoul2_loop base str (value * ucast base + ucast c))"

definition pj_strtoul2 :: "bytes \<Rightarrow> u32 \<Rightarrow> u64 \<times> bytes" where
  "pj_strtoul2 str base = strtoul2_loop base str 0"

definition pj_strltrim :: "bytes \<Rightarrow> bytes" where
  "pj_strltrim str = dropWhile pj_isspace str"

text \<open>\<^verbatim>\<open>pj_strtoul3\<close> with a base of at most ten checks for overflow.\<close>

definition PJ_MAXULONG :: u64 where
  "PJ_MAXULONG = 0xFFFFFFFFFFFFFFFF"

fun strtoul3_loop :: "u32 \<Rightarrow> bytes \<Rightarrow> u64 \<Rightarrow> pj_status \<times> u64" where
  "strtoul3_loop base [] value = (PJ_SUCCESS, value)"
| "strtoul3_loop base (ch # str) value =
     (let c = scast ch - 48 :: u32
      in if sint ch < 48 \<or> scast ch > 47 + base then (PJ_SUCCESS, value)
         else if value > PJ_MAXULONG div ucast base then (PJ_ETOOBIG, PJ_MAXULONG)
         else if PJ_MAXULONG - value * ucast base < ucast c then (PJ_ETOOBIG, PJ_MAXULONG)
         else strtoul3_loop base str (value * ucast base + ucast c))"

definition pj_strtoul3 :: "bytes \<Rightarrow> u32 \<Rightarrow> pj_status \<times> u64" where
  "pj_strtoul3 str base =
     (let s = pj_strltrim str
      in if s = [] \<or> sint (first_octet s) < 48 \<or> scast (first_octet s) > 47 + base
         then (PJ_EINVAL, 0)
         else strtoul3_loop base s 0)"

definition pj_strtol :: "bytes \<Rightarrow> int" where
  "pj_strtol str =
     (if str \<noteq> [] \<and> (hd str = 43 \<or> hd str = 45)
      then sint (if hd str = 45 then - pj_strtoul (tl str) else pj_strtoul (tl str))
      else sint (pj_strtoul str))"

text \<open>\<^verbatim>\<open>pj_strspn2\<close> counts, \<^verbatim>\<open>pj_strcspn2\<close> stops at the first octet of the set.\<close>

fun strspn_loop :: "bytes \<Rightarrow> nat \<Rightarrow> nat \<Rightarrow> bytes \<Rightarrow> nat" where
  "strspn_loop set_char i count [] = count"
| "strspn_loop set_char i count (c # str) =
     (if count \<noteq> i then count
      else strspn_loop set_char (i + 1) (count + length (filter (\<lambda>d. c = d) set_char)) str)"

definition pj_strspn2 :: "bytes \<Rightarrow> bytes \<Rightarrow> nat" where
  "pj_strspn2 str set_char = strspn_loop set_char 0 0 str"

definition pj_strcspn2 :: "bytes \<Rightarrow> bytes \<Rightarrow> nat" where
  "pj_strcspn2 str set_char = length (takeWhile (\<lambda>c. c \<notin> set set_char) str)"

definition pj_strtok2 :: "bytes \<Rightarrow> bytes \<Rightarrow> nat \<Rightarrow> nat \<times> bytes" where
  "pj_strtok2 str delim start_idx =
     (if length str = 0 \<or> length str < start_idx then (length str, [])
      else
        let tok = drop start_idx str;
            str_idx = pj_strspn2 tok delim
        in if start_idx + str_idx = length str then (length str, tok)
           else
             let tok' = drop str_idx tok
             in (start_idx + str_idx, take (pj_strcspn2 tok' delim) tok'))"

text \<open>\<^verbatim>\<open>pj_utoa\<close>: the digits are produced from the last one on and then reversed.\<close>

function utoa_digits :: "nat \<Rightarrow> bytes" where
  "utoa_digits val =
     (let digval = val mod 10; val' = val div 10
      in of_nat (digval + 48) # (if val' > 0 then utoa_digits val' else []))"
  by pat_completeness auto
termination
  by (relation "measure id") auto

declare utoa_digits.simps [simp del]

definition pj_utoa :: "nat \<Rightarrow> bytes" where
  "pj_utoa val = rev (utoa_digits val)"

section \<open>Printed numbers\<close>

lemma length_utoa_digits: "0 < k \<Longrightarrow> n < 10 ^ k \<Longrightarrow> length (utoa_digits n) \<le> k"
proof (induction k arbitrary: n)
  case (Suc k)
  show ?case
  proof (cases "n div 10 > 0")
    case True
    then have "0 < k" using Suc.prems by (cases k) auto
    moreover have "n div 10 < 10 ^ k" using Suc.prems by (simp add: less_mult_imp_div_less mult.commute)
    ultimately have "length (utoa_digits (n div 10)) \<le> k" by (rule Suc.IH)
    then show ?thesis by (subst utoa_digits.simps) (simp add: Let_def)
  qed (subst utoa_digits.simps, simp add: Let_def)
qed simp

lemma length_pj_utoa: "0 < k \<Longrightarrow> n < 10 ^ k \<Longrightarrow> length (pj_utoa n) \<le> k"
  by (simp add: pj_utoa_def length_utoa_digits)

text \<open>Printed digits, and reading them back.\<close>

lemma of_nat_digit:
  assumes "d < 10"
  shows "pj_isdigit (of_nat (d + 48))" "(ucast (of_nat (d + 48) :: u8) :: u64) - 48 = of_nat d"
proof -
  have u: "unat (of_nat (d + 48) :: u8) = d + 48"
    using assms by (simp only: unat_of_nat) simp
  then show "pj_isdigit (of_nat (d + 48))"
    using assms by (simp add: pj_isdigit_def word_le_nat_alt)
  have "(ucast (of_nat (d + 48) :: u8) :: u64) = of_nat (unat (of_nat (d + 48) :: u8))"
    by (simp only: of_nat_unat)
  then show "(ucast (of_nat (d + 48) :: u8) :: u64) - 48 = of_nat d"
    by (simp only: u) simp
qed

lemma pj_utoa_digits: "c \<in> set (pj_utoa n) \<Longrightarrow> pj_isdigit c"
proof -
  have "\<forall>c \<in> set (utoa_digits n). pj_isdigit c"
  proof (induction n rule: utoa_digits.induct)
    case (1 n)
    then show ?case
      using of_nat_digit(1) [of "n mod 10"] by (subst utoa_digits.simps) (auto simp: Let_def)
  qed
  then show "c \<in> set (pj_utoa n) \<Longrightarrow> pj_isdigit c" by (simp add: pj_utoa_def)
qed

lemma pj_utoa_not_Nil [simp]: "pj_utoa n \<noteq> []"
  by (subst pj_utoa_def, subst utoa_digits.simps) (simp add: Let_def)

lemma strtoul_loop_utoa:
  "strtoul_loop (rev (utoa_digits n) @ str) 0 = strtoul_loop str (of_nat n)"
proof (induction n arbitrary: str rule: utoa_digits.induct)
  case (1 n)
  define c :: u8 where "c = of_nat (n mod 10 + 48)"
  have c: "pj_isdigit c" "(ucast c :: u64) - 48 = of_nat (n mod 10)"
    using of_nat_digit [of "n mod 10"] by (auto simp: c_def)
  show ?case
  proof (cases "n div 10 > 0")
    case True
    then have u: "utoa_digits n = c # utoa_digits (n div 10)"
      by (subst utoa_digits.simps) (simp add: Let_def c_def)
    have "strtoul_loop (rev (utoa_digits n) @ str) 0 = strtoul_loop (c # str) (of_nat (n div 10))"
      using "1.IH" [OF refl refl True, of "c # str"] by (simp add: u)
    also have "\<dots> = strtoul_loop str (of_nat (n div 10) * 10 + of_nat (n mod 10))"
      using c by simp
    also have "of_nat (n div 10) * 10 + of_nat (n mod 10) = (of_nat n :: u64)"
      by (metis div_mult_mod_eq of_nat_add of_nat_mult of_nat_numeral)
    finally show ?thesis .
  next
    case False
    then have "utoa_digits n = [c]" "n mod 10 = n"
      by (subst utoa_digits.simps, simp_all add: Let_def c_def)
    with c show ?thesis by simp
  qed
qed

lemma pj_strtoul_utoa [simp]: "pj_strtoul (pj_utoa n) = of_nat n"
  using strtoul_loop_utoa [of n "[]"] by (simp add: pj_strtoul_def pj_utoa_def)

end
