(* ===== verification/Sip_Msg.thy ===== *)
theory Sip_Msg
  imports Pj_Prelude
begin

text \<open>
  The parts of \<^verbatim>\<open>pjsip/src/pjsip/sip_msg.c\<close> and \<^verbatim>\<open>pjsip/include/pjsip/sip_msg.h\<close> that the transaction
  layer reads: methods, status codes with their default phrases, and the fields of incoming and
  outgoing messages. Strings that become part of a transaction key are octets, phrases are text.
\<close>

section \<open>Methods\<close>

datatype pjsip_method_e =
    PJSIP_INVITE_METHOD | PJSIP_CANCEL_METHOD | PJSIP_ACK_METHOD | PJSIP_BYE_METHOD
  | PJSIP_REGISTER_METHOD | PJSIP_OPTIONS_METHOD | PJSIP_OTHER_METHOD

record pjsip_method =
  method_id :: pjsip_method_e
  method_name :: bytes

text \<open>\<^verbatim>\<open>pjsip_method_cmp\<close> is used for equality only.\<close>

definition pjsip_method_eq :: "pjsip_method \<Rightarrow> pjsip_method \<Rightarrow> bool" where
  "pjsip_method_eq m1 m2 \<longleftrightarrow>
     method_id m1 = method_id m2 \<and> (method_id m1 \<noteq> PJSIP_OTHER_METHOD \<or> method_name m1 = method_name m2)"

section \<open>Status codes\<close>

definition PJSIP_SC_TSX_TIMEOUT :: int where "PJSIP_SC_TSX_TIMEOUT = 408"
definition PJSIP_SC_BAD_GATEWAY :: int where "PJSIP_SC_BAD_GATEWAY = 502"
definition PJSIP_SC_SERVICE_UNAVAILABLE :: int where "PJSIP_SC_SERVICE_UNAVAILABLE = 503"
definition PJSIP_SC_TSX_TRANSPORT_ERROR :: int where "PJSIP_SC_TSX_TRANSPORT_ERROR = 503"

definition PJSIP_IS_STATUS_IN_CLASS :: "int \<Rightarrow> int \<Rightarrow> bool" where
  "PJSIP_IS_STATUS_IN_CLASS status_code code_class \<longleftrightarrow> status_code sdiv 100 = code_class sdiv 100"

definition status_phrase :: "(int \<times> string) list" where
  "status_phrase =
    [(100, ''Trying''),
     (180, ''Ringing''),
     (181, ''Call Is Being Forwarded''),
     (182, ''Queued''),
     (183, ''Session Progress''),
     (200, ''OK''),
     (202, ''Accepted''),
     (300, ''Multiple Choices''),
     (301, ''Moved Permanently''),
     (302, ''Moved Temporarily''),
     (305, ''Use Proxy''),
     (380, ''Alternative Service''),
     (400, ''Bad Request''),
     (401, ''Unauthorized''),
     (402, ''Payment Required''),
     (403, ''Forbidden''),
     (404, ''Not Found''),
     (405, ''Method Not Allowed''),
     (406, ''Not Acceptable''),
     (407, ''Proxy Authentication Required''),
     (408, ''Request Timeout''),
     (410, ''Gone''),
     (413, ''Request Entity Too Large''),
     (414, ''Request URI Too Long''),
     (415, ''Unsupported Media Type''),
     (416, ''Unsupported URI Scheme''),
     (420, ''Bad Extension''),
     (421, ''Extension Required''),
     (422, ''Session Timer Too Small''),
     (423, ''Interval Too Brief''),
     (480, ''Temporarily Unavailable''),
     (481, ''Call/Transaction Does Not Exist''),
     (482, ''Loop Detected''),
     (483, ''Too Many Hops''),
     (484, ''Address Incomplete''),
     (485, ''Ambiguous''),
     (486, ''Busy Here''),
     (487, ''Request Terminated''),
     (488, ''Not Acceptable Here''),
     (489, ''Bad Event''),
     (490, ''Request Updated''),
     (491, ''Request Pending''),
     (493, ''Undecipherable''),
     (500, ''Internal Server Error''),
     (501, ''Not Implemented''),
     (502, ''Bad Gateway''),
     (503, ''Service Unavailable''),
     (504, ''Server Timeout''),
     (505, ''Version Not Supported''),
     (513, ''Message Too Large''),
     (580, ''Precondition Failure''),
     (600, ''Busy Everywhere''),
     (603, ''Decline''),
     (604, ''Does Not Exist Anywhere''),
     (606, ''Not Acceptable''),
     (701, ''No response from destination server''),
     (702, ''Unable to resolve destination server''),
     (703, ''Error sending message to destination server'')]"

definition pjsip_get_status_text :: "int \<Rightarrow> string" where
  "pjsip_get_status_text code =
     (if code \<ge> 100 \<and> code < 710
      then (case map_of status_phrase code of Some phrase \<Rightarrow> phrase | None \<Rightarrow> ''Default status message'')
      else ''Default status message'')"

section \<open>Messages\<close>

text \<open>
  An outgoing message: its identity (the address of the \<^verbatim>\<open>pjsip_tx_data\<close>), whether it is a request,
  the status line of a response, the method in its CSeq header, and whether a transport is still
  sending it.
\<close>

record tx_data =
  td_addr :: nat
  td_is_request :: bool
  td_code :: int
  td_reason :: string
  td_cseq_method :: pjsip_method_e
  td_is_pending :: bool

text \<open>
  An incoming message: the start line, which of the mandatory headers the parser found, and the
  header fields from which keys are made.
\<close>

record rx_data =
  rx_is_request :: bool
  has_via :: bool
  has_cseq :: bool
  has_from :: bool
  rx_method :: pjsip_method
  rx_code :: int
  rx_reason :: string
  via_branch :: bytes
  via_host :: bytes
  via_port :: int
  cseq_num :: int
  cseq_method :: pjsip_method
  from_tag :: bytes
  call_id :: bytes

section \<open>Facts\<close>

lemma sdiv_100_pos:
  fixes c k :: int
  assumes "0 < k"
  shows "c sdiv 100 = k \<longleftrightarrow> 100 * k \<le> c \<and> c < 100 * k + 100"
proof (cases "0 \<le> c")
  case True
  then have "c sdiv 100 = c div 100" by (simp add: sdivmod_pos_int)
  then show ?thesis by auto
next
  case False
  then have "c sdiv 100 \<le> 0" by (simp add: signed_divide_int_def sgn_if pos_imp_zdiv_nonneg_iff)
  then show ?thesis using assms False by auto
qed

lemma status_class_simps [simp]:
  "PJSIP_IS_STATUS_IN_CLASS c 100 \<longleftrightarrow> 100 \<le> c \<and> c < 200"
  "PJSIP_IS_STATUS_IN_CLASS c 200 \<longleftrightarrow> 200 \<le> c \<and> c < 300"
proof -
  have "(100 :: int) sdiv 100 = 1" "(200 :: int) sdiv 100 = 2" by code_simp+
  then show "PJSIP_IS_STATUS_IN_CLASS c 100 \<longleftrightarrow> 100 \<le> c \<and> c < 200"
    "PJSIP_IS_STATUS_IN_CLASS c 200 \<longleftrightarrow> 200 \<le> c \<and> c < 300"
    by (simp_all add: PJSIP_IS_STATUS_IN_CLASS_def sdiv_100_pos)
qed

end
