(* ===== verification/Tsx_Key.thy ===== *)
theory Tsx_Key
  imports Pj_String Sip_Msg
begin

text \<open>
  The keys under which \<^verbatim>\<open>pjsip/src/pjsip/sip_transaction.c\<close> stores transactions: a readable string
  made from the role, the method (left out for INVITE and ACK, so that an ACK finds the INVITE
  transaction), and either the branch parameter of RFC 3261 or the header fields that RFC 2543
  compares.
\<close>

datatype pjsip_role_e = PJSIP_ROLE_UAC | PJSIP_ROLE_UAS

text \<open>A negative \<^verbatim>\<open>int\<close> that is passed as \<^verbatim>\<open>unsigned long\<close>.\<close>

definition ulong_of_int :: "int \<Rightarrow> nat" where
  "ulong_of_int i = nat (i mod 2 ^ 64)"

definition role_char :: "pjsip_role_e \<Rightarrow> u8" where
  "role_char role = (if role = PJSIP_ROLE_UAC then 99 else 115)"

definition SEPARATOR :: u8 where
  "SEPARATOR = 36"

definition key_method :: "pjsip_method \<Rightarrow> bytes" where
  "key_method m =
     (if method_id m \<noteq> PJSIP_INVITE_METHOD \<and> method_id m \<noteq> PJSIP_ACK_METHOD
      then method_name m @ [SEPARATOR] else [])"

text \<open>
  \<^verbatim>\<open>create_tsx_key_2543\<close>. The terminating zero octet counts as part of the key.
\<close>

definition create_tsx_key_2543 :: "pjsip_role_e \<Rightarrow> pjsip_method \<Rightarrow> rx_data \<Rightarrow> pj_status + bytes" where
  "create_tsx_key_2543 role m rdata =
     (if \<not> has_via rdata then Inl PJSIP_EMISSINGHDR
      else if \<not> has_cseq rdata then Inl PJSIP_EMISSINGHDR
      else if \<not> has_from rdata then Inl PJSIP_EMISSINGHDR
      else Inr ([role_char role, SEPARATOR] @ key_method m
             @ pj_utoa (ulong_of_int (cseq_num rdata)) @ [SEPARATOR]
             @ from_tag rdata @ [SEPARATOR]
             @ call_id rdata @ [SEPARATOR]
             @ via_host rdata @ [58]
             @ pj_utoa (ulong_of_int (via_port rdata)) @ [SEPARATOR] @ [0]))"

text \<open>The number of octets \<^verbatim>\<open>create_tsx_key_2543\<close> allocates for the key.\<close>

definition key_2543_len_required :: "pjsip_method \<Rightarrow> rx_data \<Rightarrow> nat" where
  "key_2543_len_required m rdata =
     length (method_name m) + 11 + length (from_tag rdata) + length (call_id rdata)
     + length (via_host rdata) + 11 + 16"

definition create_tsx_key_3261 :: "pjsip_role_e \<Rightarrow> pjsip_method \<Rightarrow> bytes \<Rightarrow> bytes" where
  "create_tsx_key_3261 role m branch = [role_char role, SEPARATOR] @ key_method m @ branch"

definition key_3261_len_required :: "pjsip_method \<Rightarrow> bytes \<Rightarrow> nat" where
  "key_3261_len_required m branch = length branch + length (method_name m) + 4"

text \<open>\<^verbatim>\<open>PJSIP_RFC3261_BRANCH_ID\<close>, \<^verbatim>\<open>z9hG4bK\<close>.\<close>

definition PJSIP_RFC3261_BRANCH_ID :: bytes where
  "PJSIP_RFC3261_BRANCH_ID = [122, 57, 104, 71, 52, 98, 75]"

definition PJSIP_RFC3261_BRANCH_LEN :: nat where
  "PJSIP_RFC3261_BRANCH_LEN = 7"

definition pj_strnicmp_eq :: "bytes \<Rightarrow> bytes \<Rightarrow> nat \<Rightarrow> bool" where
  "pj_strnicmp_eq s1 s2 len \<longleftrightarrow> map pj_tolower (take len s1) = map pj_tolower (take len s2)"

definition pjsip_tsx_create_key :: "pjsip_role_e \<Rightarrow> pjsip_method \<Rightarrow> rx_data \<Rightarrow> pj_status + bytes" where
  "pjsip_tsx_create_key role m rdata =
     (if pj_strnicmp_eq (via_branch rdata) PJSIP_RFC3261_BRANCH_ID PJSIP_RFC3261_BRANCH_LEN
      then Inr (create_tsx_key_3261 role m (via_branch rdata))
      else create_tsx_key_2543 role m rdata)"

section \<open>Facts on keys\<close>

lemma ulong_bound: "ulong_of_int i < 10 ^ 20"
proof -
  have "i mod 2 ^ 64 < 2 ^ 64" by simp
  then show ?thesis by (simp add: ulong_of_int_def nat_less_iff)
qed

lemma pj_tolower_separator [simp]: "pj_tolower x = SEPARATOR \<longleftrightarrow> x = SEPARATOR"
proof (cases "65 \<le> x \<and> x \<le> 90")
  case True
  then have "unat x \<ge> 65" "unat x \<le> 90" by (simp_all add: word_le_nat_alt)
  then have "unat (x + 32) = unat x + 32" by (simp add: unat_word_ariths)
  then show ?thesis using True \<open>unat x \<ge> 65\<close> by (auto simp: pj_tolower_def SEPARATOR_def)
qed (auto simp: pj_tolower_def)

lemma pj_tolower_role [simp]: "pj_tolower (role_char r) = role_char r"
  by (simp add: pj_tolower_def role_char_def)

lemma split_at_separator:
  "x \<notin> set as \<Longrightarrow> x \<notin> set as' \<Longrightarrow> as @ x # bs = as' @ x # bs' \<longleftrightarrow> as = as' \<and> bs = bs'"
proof (induction as arbitrary: as')
  case Nil
  then show ?case by (cases as') auto
next
  case (Cons a as)
  then show ?case by (cases as') auto
qed

section \<open>Properties\<close>

definition keyless_method :: "pjsip_method \<Rightarrow> bool" where
  "keyless_method m \<longleftrightarrow> method_id m = PJSIP_INVITE_METHOD \<or> method_id m = PJSIP_ACK_METHOD"

text \<open>
  C8: keys tell transactions apart. When neither branches nor method names contain the separator,
  two RFC 3261 keys are equal up to case exactly when the roles are equal, the branches are equal
  up to case, and the methods are both INVITE or ACK or have names equal up to case: an ACK
  belongs to the INVITE's transaction, a CANCEL with the same branch does not.
\<close>

theorem tsx_key_separation:
  assumes "SEPARATOR \<notin> set b" "SEPARATOR \<notin> set b'"
    and "SEPARATOR \<notin> set (method_name m)" "SEPARATOR \<notin> set (method_name m')"
  shows "map pj_tolower (create_tsx_key_3261 r m b) = map pj_tolower (create_tsx_key_3261 r' m' b')
    \<longleftrightarrow> r = r' \<and> map pj_tolower b = map pj_tolower b'
      \<and> (if keyless_method m then keyless_method m'
         else \<not> keyless_method m' \<and> map pj_tolower (method_name m) = map pj_tolower (method_name m'))"
proof -
  have role: "role_char r = role_char r' \<longleftrightarrow> r = r'"
    by (cases r; cases r') (auto simp: role_char_def)
  have sep: "pj_tolower SEPARATOR = SEPARATOR" by simp
  have low: "SEPARATOR \<notin> set (map pj_tolower xs)" if "SEPARATOR \<notin> set xs" for xs
    using that by (metis (no_types, lifting) imageE list.set_map pj_tolower_separator)
  have both: "map pj_tolower n @ SEPARATOR # map pj_tolower c = map pj_tolower n' @ SEPARATOR # map pj_tolower c'
      \<longleftrightarrow> map pj_tolower n = map pj_tolower n' \<and> map pj_tolower c = map pj_tolower c'"
    if "SEPARATOR \<notin> set n" "SEPARATOR \<notin> set n'" for n n' c c'
    by (rule split_at_separator [OF low [OF that(1)] low [OF that(2)]])
  have one: "map pj_tolower c \<noteq> map pj_tolower n @ SEPARATOR # d"
    if "SEPARATOR \<notin> set c" for c n d
    using low [OF that] by (metis in_set_conv_decomp)
  show ?thesis
    using assms both [OF assms(3,4), of b b'] one [OF assms(1)] one [OF assms(2)] not_sym [OF one [OF assms(2)]]
    by (auto simp: create_tsx_key_3261_def key_method_def keyless_method_def role sep)
qed

theorem tsx_key_separation_witness:
  "map pj_tolower (create_tsx_key_3261 PJSIP_ROLE_UAS \<lparr>method_id = PJSIP_ACK_METHOD, method_name = [65, 67, 75]\<rparr> [122, 49])
   = map pj_tolower (create_tsx_key_3261 PJSIP_ROLE_UAS \<lparr>method_id = PJSIP_INVITE_METHOD, method_name = [73]\<rparr> [90, 49])"
  using tsx_key_separation [of "[122, 49]" "[90, 49]" "\<lparr>method_id = PJSIP_ACK_METHOD, method_name = [65, 67, 75]\<rparr>"
      "\<lparr>method_id = PJSIP_INVITE_METHOD, method_name = [73]\<rparr>" PJSIP_ROLE_UAS PJSIP_ROLE_UAS]
  by (simp add: SEPARATOR_def keyless_method_def pj_tolower_def)

text \<open>
  A key never exceeds the buffer allocated for it, also when the CSeq number is taken as a
  64-bit value of twenty digits, as long as the port of the top Via is a port number.
\<close>

theorem tsx_key_fits:
  assumes "0 \<le> via_port rdata" "via_port rdata < 2 ^ 16"
  shows "length (create_tsx_key_3261 role m branch) \<le> key_3261_len_required m branch
    \<and> (\<forall>key. create_tsx_key_2543 role m rdata = Inr key \<longrightarrow> length key \<le> key_2543_len_required m rdata)"
proof -
  have "length (pj_utoa (ulong_of_int (cseq_num rdata))) \<le> 20"
    by (rule length_pj_utoa) (use ulong_bound in simp_all)
  moreover have "ulong_of_int (via_port rdata) < 10 ^ 5" using assms by (simp add: ulong_of_int_def)
  then have "length (pj_utoa (ulong_of_int (via_port rdata))) \<le> 5" by (intro length_pj_utoa) simp_all
  moreover have "length (key_method m) \<le> length (method_name m) + 1" by (simp add: key_method_def)
  ultimately show ?thesis
    by (auto simp: create_tsx_key_3261_def key_3261_len_required_def create_tsx_key_2543_def
        key_2543_len_required_def split: if_splits)
qed

definition demo_rdata :: rx_data where
  "demo_rdata = \<lparr>rx_is_request = True, has_via = True, has_cseq = True, has_from = True,
     rx_method = \<lparr>method_id = PJSIP_INVITE_METHOD, method_name = [73]\<rparr>, rx_code = 0, rx_reason = [],
     via_branch = [122, 57, 104, 71, 52, 98, 75, 49], via_host = [97], via_port = 5060, cseq_num = 1,
     cseq_method = \<lparr>method_id = PJSIP_INVITE_METHOD, method_name = [73]\<rparr>, from_tag = [102], call_id = [99]\<rparr>"

theorem tsx_key_fits_witness:
  "length (create_tsx_key_3261 PJSIP_ROLE_UAC (rx_method demo_rdata) (via_branch demo_rdata))
     \<le> key_3261_len_required (rx_method demo_rdata) (via_branch demo_rdata)"
  using tsx_key_fits [of demo_rdata] by (simp add: demo_rdata_def)

end
