(* ===== verification/Timer_Heap.thy ===== *)
theory Timer_Heap
  imports Pj_Prelude
begin

text \<open>
  Model of \<^verbatim>\<open>pjlib/src/pj/timer.c\<close> in its default configuration (\<^verbatim>\<open>PJ_TIMER_USE_COPY\<close> set, no
  linked list): a binary heap of scheduled timers, an array that leads from a timer id to its
  heap slot, and the stack of free ids threaded through that array as negative numbers.

  A pointer into the array \<^verbatim>\<open>timer_dups\<close> is an index; ids start at 1, so index 0 stands for the
  null pointers of a fresh heap array. Timer entries belong to the callers: they live in a store
  from addresses to entries, next to the reference counters of the group locks. The tick count is
  an argument. The lock of the heap is not modelled: each operation below is one critical section.
\<close>

section \<open>Data\<close>

record timer_entry =
  user_data :: nat
  entry_id :: int
  entry_cb :: nat
  timer_id :: int

record timer_dup =
  dup :: timer_entry
  dup_entry :: nat
  timer_value :: pj_time_val
  dup_grp_lock :: nat

record timer_heap =
  max_size :: nat
  cur_size :: nat
  max_entries_per_poll :: nat
  heap :: "nat list"
  timer_ids :: "int list"
  timer_dups :: "timer_dup list"
  timer_ids_freelist :: int

record timer_world =
  timers :: timer_heap
  entries :: "nat \<Rightarrow> timer_entry"
  grp_refs :: "nat \<Rightarrow> int"

text \<open>Which of the three pool allocations of a growing heap fails, if any.\<close>

datatype grow_memory = Mem_Ok | No_Heap | No_Dups | No_Ids

definition DEFAULT_MAX_TIMED_OUT_PER_POLL :: nat where
  "DEFAULT_MAX_TIMED_OUT_PER_POLL = 64"

definition HEAP_PARENT :: "nat \<Rightarrow> nat" where
  "HEAP_PARENT X = (if X = 0 then 0 else (X - 1) div 2)"

definition HEAP_LEFT :: "nat \<Rightarrow> nat" where
  "HEAP_LEFT X = (X + X) + 1"

abbreviation node_value :: "timer_heap \<Rightarrow> nat \<Rightarrow> pj_time_val" where
  "node_value ht k \<equiv> timer_value (timer_dups ht ! k)"

section \<open>Heap and free list\<close>

definition copy_node :: "timer_heap \<Rightarrow> nat \<Rightarrow> nat \<Rightarrow> timer_heap" where
  "copy_node ht slot moved_node =
     ht\<lparr>heap := (heap ht)[slot := moved_node],
        timer_ids := (timer_ids ht)[nat (timer_id (dup (timer_dups ht ! moved_node))) := int slot]\<rparr>"

definition pop_freelist :: "timer_heap \<Rightarrow> timer_heap \<times> int" where
  "pop_freelist ht =
     (let new_id = timer_ids_freelist ht
      in (ht\<lparr>timer_ids_freelist := - (timer_ids ht ! nat (timer_ids_freelist ht))\<rparr>, new_id))"

definition push_freelist :: "timer_heap \<Rightarrow> int \<Rightarrow> timer_heap" where
  "push_freelist ht old_id =
     ht\<lparr>timer_ids := (timer_ids ht)[nat old_id := - timer_ids_freelist ht], timer_ids_freelist := old_id\<rparr>"

text \<open>The smaller of the two children.\<close>

definition min_child :: "timer_heap \<Rightarrow> nat \<Rightarrow> nat" where
  "min_child ht child =
     (if child + 1 < cur_size ht \<and>
         PJ_TIME_VAL_LT (node_value ht (heap ht ! (child + 1))) (node_value ht (heap ht ! child))
      then child + 1 else child)"

function reheap_down :: "timer_heap \<Rightarrow> nat \<Rightarrow> nat \<Rightarrow> nat \<Rightarrow> timer_heap" where
  "reheap_down ht moved_node slot child =
     (if child < cur_size ht then
        let child = min_child ht child
        in if PJ_TIME_VAL_LT (node_value ht (heap ht ! child)) (node_value ht moved_node)
           then reheap_down (copy_node ht slot (heap ht ! child)) moved_node child (HEAP_LEFT child)
           else copy_node ht slot moved_node
      else copy_node ht slot moved_node)"
  by pat_completeness auto
termination
  by (relation "measure (\<lambda>(ht, moved_node, slot, child). cur_size ht - child)")
     (auto simp: copy_node_def HEAP_LEFT_def min_child_def)

text \<open>
  The callers pass \<^verbatim>\<open>HEAP_PARENT(slot)\<close> as the parent, and the loop keeps it so.
\<close>

function reheap_up :: "timer_heap \<Rightarrow> nat \<Rightarrow> nat \<Rightarrow> timer_heap" where
  "reheap_up ht moved_node slot =
     (if slot > 0 then
        let parent = HEAP_PARENT slot
        in if PJ_TIME_VAL_LT (node_value ht moved_node) (node_value ht (heap ht ! parent))
           then reheap_up (copy_node ht slot (heap ht ! parent)) moved_node parent
           else copy_node ht slot moved_node
      else copy_node ht slot moved_node)"
  by pat_completeness auto
termination
  by (relation "measure (\<lambda>(ht, moved_node, slot). slot)") (auto simp: HEAP_PARENT_def)

declare reheap_down.simps [simp del] reheap_up.simps [simp del]

text \<open>
  \<^verbatim>\<open>remove_node\<close> also resets the timer id in the caller's entry and in the copy. It returns
  the removed node.
\<close>

definition remove_node :: "timer_world \<Rightarrow> nat \<Rightarrow> timer_world \<times> nat" where
  "remove_node w slot =
     (let ht = timers w;
          removed_node = heap ht ! slot;
          ht = push_freelist ht (timer_id (dup (timer_dups ht ! removed_node)));
          ht = ht\<lparr>cur_size := cur_size ht - 1\<rparr>;
          d = timer_dups ht ! removed_node;
          entry = dup_entry d;
          w = w\<lparr>entries := (entries w)(entry := (entries w entry)\<lparr>timer_id := - 1\<rparr>)\<rparr>;
          ht = ht\<lparr>timer_dups := (timer_dups ht)[removed_node := d\<lparr>dup := (dup d)\<lparr>timer_id := - 1\<rparr>\<rparr>]\<rparr>;
          ht = (if slot < cur_size ht then
                  let moved_node = heap ht ! cur_size ht;
                      ht = copy_node ht slot moved_node;
                      parent = HEAP_PARENT slot
                  in if PJ_TIME_VAL_GTE (node_value ht moved_node) (node_value ht (heap ht ! parent))
                     then reheap_down ht moved_node slot (HEAP_LEFT slot)
                     else reheap_up ht moved_node slot
                else ht)
      in (w\<lparr>timers := ht\<rparr>, removed_node))"

text \<open>
  \<^verbatim>\<open>grow_heap\<close>. The new storage of \<^verbatim>\<open>timer_dups\<close> is not initialised by the code; the argument
  \<open>junk\<close> is what it contains. A failed allocation of the id array comes after the other two
  arrays were replaced.
\<close>

definition grow_heap :: "timer_dup \<Rightarrow> grow_memory \<Rightarrow> timer_heap \<Rightarrow> timer_heap \<times> pj_status" where
  "grow_heap junk mem ht =
     (let new_size = max_size ht * 2
      in if mem = No_Heap \<or> mem = No_Dups then (ht, PJ_ENOMEM)
         else
           let new_heap = take (cur_size ht) (heap ht) @ replicate (new_size - cur_size ht) 0;
               ht = ht\<lparr>timer_dups := take (max_size ht) (timer_dups ht) @ replicate (new_size - max_size ht) junk,
                       heap := new_heap\<rparr>
           in if mem = No_Ids then (ht, PJ_ENOMEM)
              else (ht\<lparr>timer_ids := take (max_size ht) (timer_ids ht)
                          @ map (\<lambda>i. - (int i + 1)) [max_size ht..<new_size],
                       max_size := new_size\<rparr>, PJ_SUCCESS))"

definition insert_node ::
  "timer_dup \<Rightarrow> grow_memory \<Rightarrow> timer_world \<Rightarrow> nat \<Rightarrow> pj_time_val \<Rightarrow> timer_world \<times> pj_status" where
  "insert_node junk mem w new_node future_time =
     (let (ht, status) = (if cur_size (timers w) + 2 \<ge> max_size (timers w)
                          then grow_heap junk mem (timers w) else (timers w, PJ_SUCCESS))
      in if status \<noteq> PJ_SUCCESS then (w\<lparr>timers := ht\<rparr>, status)
         else
           let timer_copy = nat (timer_id (entries w new_node));
               ht = ht\<lparr>timer_dups := (timer_dups ht)[timer_copy :=
                      \<lparr>dup = entries w new_node, dup_entry = new_node, timer_value = future_time,
                       dup_grp_lock = 0\<rparr>]\<rparr>;
               ht = reheap_up ht timer_copy (cur_size ht);
               ht = ht\<lparr>cur_size := cur_size ht + 1\<rparr>
           in (w\<lparr>timers := ht\<rparr>, PJ_SUCCESS))"

definition schedule_entry ::
  "timer_dup \<Rightarrow> grow_memory \<Rightarrow> timer_world \<Rightarrow> nat \<Rightarrow> pj_time_val \<Rightarrow> timer_world \<times> pj_status" where
  "schedule_entry junk mem w entry future_time =
     (if cur_size (timers w) < max_size (timers w) then
        let (ht, new_id) = pop_freelist (timers w);
            w = w\<lparr>timers := ht, entries := (entries w)(entry := (entries w entry)\<lparr>timer_id := new_id\<rparr>)\<rparr>
        in insert_node junk mem w entry future_time
      else (w, PJ_ERROR_MINUS_ONE))"

text \<open>
  \<^verbatim>\<open>cancel\<close> is only called with \<^verbatim>\<open>F_DONT_CALL\<close> set, so the close hook is never run. Its range check
  lets the id \<^verbatim>\<open>max_size\<close> pass; \<open>beyond\<close> is the word read behind the array then.
\<close>

definition timer_ids_at :: "timer_heap \<Rightarrow> int \<Rightarrow> int \<Rightarrow> int" where
  "timer_ids_at ht beyond i = (if nat i < length (timer_ids ht) then timer_ids ht ! nat i else beyond)"

definition cancel :: "int \<Rightarrow> timer_world \<Rightarrow> nat \<Rightarrow> timer_world \<times> int" where
  "cancel beyond w entry =
     (let ht = timers w; id = timer_id (entries w entry);
          reset = w\<lparr>entries := (entries w)(entry := (entries w entry)\<lparr>timer_id := - 1\<rparr>)\<rparr>
      in if id < 0 \<or> nat id > max_size ht then (reset, 0)
         else
           let timer_node_slot = timer_ids_at ht beyond id
           in if timer_node_slot < 0 then (reset, 0)
              else if entry \<noteq> dup_entry (timer_dups ht ! (heap ht ! nat timer_node_slot)) then (reset, 0)
              else (fst (remove_node w (nat timer_node_slot)), 1))"

section \<open>Interface of the timer heap\<close>

definition pj_timer_heap_create :: "timer_dup \<Rightarrow> nat \<Rightarrow> timer_heap" where
  "pj_timer_heap_create junk count =
     (let sz = count + 2
      in \<lparr>max_size = sz, cur_size = 0, max_entries_per_poll = DEFAULT_MAX_TIMED_OUT_PER_POLL,
          heap = replicate sz 0, timer_ids = map (\<lambda>i. - (int i + 1)) [0..<sz],
          timer_dups = replicate sz junk, timer_ids_freelist = 1\<rparr>)"

definition pj_timer_heap_set_max_timed_out_per_poll :: "timer_heap \<Rightarrow> nat \<Rightarrow> timer_heap \<times> nat" where
  "pj_timer_heap_set_max_timed_out_per_poll ht count =
     (ht\<lparr>max_entries_per_poll := count\<rparr>, max_entries_per_poll ht)"

definition pj_timer_entry_init :: "timer_entry \<Rightarrow> int \<Rightarrow> nat \<Rightarrow> nat \<Rightarrow> timer_entry" where
  "pj_timer_entry_init entry id_val ud cb =
     entry\<lparr>timer_id := - 1, entry_id := id_val, user_data := ud, entry_cb := cb\<rparr>"

definition pj_timer_entry_running :: "timer_entry \<Rightarrow> bool" where
  "pj_timer_entry_running entry \<longleftrightarrow> timer_id entry \<ge> 1"

definition schedule_w_grp_lock ::
  "timer_dup \<Rightarrow> grow_memory \<Rightarrow> pj_time_val \<Rightarrow> timer_world \<Rightarrow> nat \<Rightarrow> pj_time_val \<Rightarrow> int option \<Rightarrow> nat
   \<Rightarrow> timer_world \<times> pj_status" where
  "schedule_w_grp_lock junk mem now w entry delay set_id grp_lock =
     (if entry_cb (entries w entry) = 0 then (w, PJ_EINVAL)
      else
        let expires = PJ_TIME_VAL_ADD now delay
        in if pj_timer_entry_running (entries w entry) then (w, PJ_EINVALIDOP)
           else
             let (w, status) = schedule_entry junk mem w entry expires
             in if status = PJ_SUCCESS then
                  let ht = timers w;
                      timer_copy = nat (timer_id (entries w entry));
                      d = timer_dups ht ! timer_copy;
                      (d, es) = (case set_id of
                          None \<Rightarrow> (d, entries w)
                        | Some id_val \<Rightarrow> (d\<lparr>dup := (dup d)\<lparr>entry_id := id_val\<rparr>\<rparr>,
                                         (entries w)(entry := (entries w entry)\<lparr>entry_id := id_val\<rparr>)));
                      d = d\<lparr>dup_grp_lock := grp_lock\<rparr>;
                      refs = (if grp_lock \<noteq> 0 then (grp_refs w)(grp_lock := grp_refs w grp_lock + 1)
                              else grp_refs w)
                  in (w\<lparr>timers := ht\<lparr>timer_dups := (timer_dups ht)[timer_copy := d]\<rparr>,
                        entries := es, grp_refs := refs\<rparr>, status)
                else (w, status))"

definition pj_timer_heap_schedule ::
  "timer_dup \<Rightarrow> grow_memory \<Rightarrow> pj_time_val \<Rightarrow> timer_world \<Rightarrow> nat \<Rightarrow> pj_time_val \<Rightarrow> timer_world \<times> pj_status" where
  "pj_timer_heap_schedule junk mem now w entry delay =
     schedule_w_grp_lock junk mem now w entry delay None 0"

definition pj_timer_heap_schedule_w_grp_lock ::
  "timer_dup \<Rightarrow> grow_memory \<Rightarrow> pj_time_val \<Rightarrow> timer_world \<Rightarrow> nat \<Rightarrow> pj_time_val \<Rightarrow> int \<Rightarrow> nat
   \<Rightarrow> timer_world \<times> pj_status" where
  "pj_timer_heap_schedule_w_grp_lock junk mem now w entry delay id_val grp_lock =
     schedule_w_grp_lock junk mem now w entry delay (Some id_val) grp_lock"

text \<open>
  \<^verbatim>\<open>cancel_timer\<close> fetches the group lock through the entry's id before the id is validated; for an
  idle entry that is a read at index -1, whose outcome is the argument \<open>stray\<close>.
\<close>

definition cancel_timer :: "nat \<Rightarrow> int \<Rightarrow> timer_world \<Rightarrow> nat \<Rightarrow> int option \<Rightarrow> timer_world \<times> int" where
  "cancel_timer stray beyond w entry set_id =
     (let id = timer_id (entries w entry);
          grp_lock = (if 0 \<le> id \<and> nat id < length (timer_dups (timers w))
                      then dup_grp_lock (timer_dups (timers w) ! nat id) else stray);
          (w, count) = cancel beyond w entry
      in if count > 0 then
           let w = (case set_id of None \<Rightarrow> w
                    | Some id_val \<Rightarrow> w\<lparr>entries := (entries w)(entry := (entries w entry)\<lparr>entry_id := id_val\<rparr>)\<rparr>);
               w = (if grp_lock \<noteq> 0 then w\<lparr>grp_refs := (grp_refs w)(grp_lock := grp_refs w grp_lock - 1)\<rparr> else w)
           in (w, count)
         else (w, count))"

definition pj_timer_heap_cancel :: "nat \<Rightarrow> int \<Rightarrow> timer_world \<Rightarrow> nat \<Rightarrow> timer_world \<times> int" where
  "pj_timer_heap_cancel stray beyond w entry = cancel_timer stray beyond w entry None"

definition pj_timer_heap_cancel_if_active :: "nat \<Rightarrow> int \<Rightarrow> timer_world \<Rightarrow> nat \<Rightarrow> int \<Rightarrow> timer_world \<times> int" where
  "pj_timer_heap_cancel_if_active stray beyond w entry id_val = cancel_timer stray beyond w entry (Some id_val)"

text \<open>
  One turn of the loop of \<^verbatim>\<open>pj_timer_heap_poll\<close>. The parameter \<open>callback\<close> runs the code an entry's
  \<^verbatim>\<open>cb\<close> points to; it may schedule and cancel timers. The turn reports the entry removed and its
  expiry time, which the code does not return.
\<close>

definition poll_turn ::
  "(nat \<Rightarrow> nat \<Rightarrow> timer_world \<Rightarrow> timer_world) \<Rightarrow> timer_world \<Rightarrow> timer_world \<times> nat \<times> pj_time_val" where
  "poll_turn callback w =
     (let expiry = node_value (timers w) (heap (timers w) ! 0);
          (w, node) = remove_node w 0;
          d = timer_dups (timers w) ! node;
          entry = dup_entry d;
          grp_lock = dup_grp_lock d;
          w = w\<lparr>timers := (timers w)\<lparr>timer_dups := (timer_dups (timers w))[node := d\<lparr>dup_grp_lock := 0\<rparr>]\<rparr>\<rparr>;
          valid = (entry_cb (dup d) = entry_cb (entries w entry)
                   \<and> user_data (dup d) = user_data (entries w entry));
          w = (if valid \<and> entry_cb (entries w entry) \<noteq> 0 then callback (entry_cb (entries w entry)) entry w else w);
          w = (if valid \<and> grp_lock \<noteq> 0 then w\<lparr>grp_refs := (grp_refs w)(grp_lock := grp_refs w grp_lock - 1)\<rparr> else w)
      in (w, entry, expiry))"

text \<open>
  The callbacks may schedule due timers again and raise the limit, so the loop need not end.
\<close>

partial_function (option) poll_loop ::
  "(nat \<Rightarrow> nat \<Rightarrow> timer_world \<Rightarrow> timer_world) \<Rightarrow> pj_time_val \<Rightarrow> timer_world \<Rightarrow> (nat \<times> pj_time_val) list
   \<Rightarrow> (timer_world \<times> (nat \<times> pj_time_val) list) option" where
  "poll_loop callback now w fired =
     (if cur_size (timers w) \<noteq> 0
         \<and> PJ_TIME_VAL_LTE (node_value (timers w) (heap (timers w) ! 0)) now
         \<and> length fired < max_entries_per_poll (timers w)
      then (case poll_turn callback w of
              (w, fire) \<Rightarrow> poll_loop callback now w (fired @ [fire]))
      else Some (w, fired))"

definition PJ_MAXINT32 :: int where
  "PJ_MAXINT32 = 0x7FFFFFFF"

definition poll_next_delay :: "timer_heap \<Rightarrow> pj_time_val \<Rightarrow> pj_time_val" where
  "poll_next_delay ht now =
     (if cur_size ht \<noteq> 0 then
        let next_delay = PJ_TIME_VAL_SUB (node_value ht (heap ht ! 0)) now
        in if tv_sec next_delay < 0 \<or> tv_msec next_delay < 0 then Time_Val 0 0 else next_delay
      else Time_Val PJ_MAXINT32 PJ_MAXINT32)"

definition pj_timer_heap_poll ::
  "(nat \<Rightarrow> nat \<Rightarrow> timer_world \<Rightarrow> timer_world) \<Rightarrow> pj_time_val \<Rightarrow> timer_world
   \<Rightarrow> (timer_world \<times> (nat \<times> pj_time_val) list \<times> pj_time_val) option" where
  "pj_timer_heap_poll callback now w =
     (if cur_size (timers w) = 0 then Some (w, [], Time_Val PJ_MAXINT32 PJ_MAXINT32)
      else (case poll_loop callback now w [] of
              None \<Rightarrow> None
            | Some (w, fired) \<Rightarrow> Some (w, fired, poll_next_delay (timers w) now)))"

definition pj_timer_heap_count :: "timer_heap \<Rightarrow> nat" where
  "pj_timer_heap_count ht = cur_size ht"

definition pj_timer_heap_earliest_time :: "timer_heap \<Rightarrow> pj_status + pj_time_val" where
  "pj_timer_heap_earliest_time ht =
     (if cur_size ht = 0 then Inl PJ_ENOTFOUND else Inr (node_value ht (heap ht ! 0)))"

section \<open>Invariants and abstraction\<close>

text \<open>The three arrays have the same size, and two slots are always spare.\<close>

definition lengths_ok :: "timer_heap \<Rightarrow> bool" where
  "lengths_ok ht \<longleftrightarrow> length (heap ht) = max_size ht \<and> length (timer_ids ht) = max_size ht
     \<and> length (timer_dups ht) = max_size ht \<and> cur_size ht + 2 \<le> max_size ht"

text \<open>
  Slots below \<open>n\<close>, with one left out, lead to nodes whose id leads back to the slot; ids start at 1.
\<close>

definition slots_ok :: "timer_heap \<Rightarrow> nat \<Rightarrow> nat \<Rightarrow> bool" where
  "slots_ok ht n hole \<longleftrightarrow> n \<le> length (heap ht) \<and>
     (\<forall>i<n. i \<noteq> hole \<longrightarrow>
        1 \<le> heap ht ! i \<and> heap ht ! i < length (timer_ids ht)
        \<and> timer_ids ht ! (heap ht ! i) = int i
        \<and> timer_id (dup (timer_dups ht ! (heap ht ! i))) = int (heap ht ! i))"

definition ordered_but :: "timer_heap \<Rightarrow> nat \<Rightarrow> nat \<Rightarrow> bool" where
  "ordered_but ht n hole \<longleftrightarrow> (\<forall>i<n. 0 < i \<longrightarrow>
     (i \<noteq> hole \<longrightarrow> HEAP_PARENT i \<noteq> hole \<longrightarrow> node_value ht (heap ht ! HEAP_PARENT i) \<le> node_value ht (heap ht ! i))
     \<and> (HEAP_PARENT i = hole \<longrightarrow> 0 < hole
          \<longrightarrow> node_value ht (heap ht ! HEAP_PARENT hole) \<le> node_value ht (heap ht ! i)))"

text \<open>What a sift with the node \<open>m\<close> in hand keeps and what it reaches.\<close>

definition in_hand :: "timer_heap \<Rightarrow> nat \<Rightarrow> nat \<Rightarrow> nat \<Rightarrow> bool" where
  "in_hand ht n m hole \<longleftrightarrow> hole < n \<and> slots_ok ht n hole \<and> 1 \<le> m \<and> m < length (timer_ids ht)
     \<and> timer_id (dup (timer_dups ht ! m)) = int m
     \<and> (\<forall>i<n. i \<noteq> hole \<longrightarrow> heap ht ! i \<noteq> m)"

definition nodes_with :: "timer_heap \<Rightarrow> nat \<Rightarrow> nat \<Rightarrow> nat \<Rightarrow> nat set" where
  "nodes_with ht n m hole = insert m {heap ht ! i | i. i < n \<and> i \<noteq> hole}"

definition sifted :: "timer_heap \<Rightarrow> timer_heap \<Rightarrow> nat \<Rightarrow> nat set \<Rightarrow> bool" where
  "sifted ht ht' n nodes \<longleftrightarrow>
     max_size ht' = max_size ht \<and> cur_size ht' = cur_size ht
     \<and> max_entries_per_poll ht' = max_entries_per_poll ht \<and> timer_dups ht' = timer_dups ht
     \<and> timer_ids_freelist ht' = timer_ids_freelist ht
     \<and> length (heap ht') = length (heap ht) \<and> length (timer_ids ht') = length (timer_ids ht)
     \<and> slots_ok ht' n n \<and> {heap ht' ! i | i. i < n} = nodes
     \<and> (\<forall>k. k \<notin> nodes \<longrightarrow> timer_ids ht' ! k = timer_ids ht ! k)"

definition heap_ordered :: "timer_heap \<Rightarrow> nat \<Rightarrow> bool" where
  "heap_ordered ht n \<longleftrightarrow>
     (\<forall>i<n. 0 < i \<longrightarrow> node_value ht (heap ht ! HEAP_PARENT i) \<le> node_value ht (heap ht ! i))"

fun free_chain :: "int list \<Rightarrow> int \<Rightarrow> nat list \<Rightarrow> nat \<Rightarrow> bool" where
  "free_chain ids f [] m \<longleftrightarrow> f = int m"
| "free_chain ids f (x # xs) m \<longleftrightarrow> f = int x \<and> 1 \<le> x \<and> x < m \<and> free_chain ids (- (ids ! x)) xs m"

definition nodes :: "timer_heap \<Rightarrow> nat set" where
  "nodes ht = {heap ht ! i | i. i < cur_size ht}"

definition free_ok :: "timer_heap \<Rightarrow> bool" where
  "free_ok ht \<longleftrightarrow> (\<exists>fs. free_chain (timer_ids ht) (timer_ids_freelist ht) fs (max_size ht)
     \<and> distinct fs \<and> set fs = {1..<max_size ht} - nodes ht)"

definition heap_inv :: "timer_heap \<Rightarrow> bool" where
  "heap_inv ht \<longleftrightarrow> lengths_ok ht \<and> slots_ok ht (cur_size ht) (cur_size ht)
     \<and> heap_ordered ht (cur_size ht) \<and> free_ok ht"

text \<open>The heap inside \<^verbatim>\<open>remove_node\<close>.\<close>

definition remove_heap :: "timer_heap \<Rightarrow> nat \<Rightarrow> timer_heap" where
  "remove_heap ht slot = timers (fst (remove_node \<lparr>timers = ht, entries = (\<lambda>_. undefined), grp_refs = (\<lambda>_. 0)\<rparr> slot))"

definition detach :: "timer_heap \<Rightarrow> nat \<Rightarrow> timer_heap" where
  "detach ht k = ht\<lparr>timer_ids := (timer_ids ht)[k := - timer_ids_freelist ht], timer_ids_freelist := int k,
     cur_size := cur_size ht - 1,
     timer_dups := (timer_dups ht)[k := (timer_dups ht ! k)\<lparr>dup := (dup (timer_dups ht ! k))\<lparr>timer_id := - 1\<rparr>\<rparr>]\<rparr>"

definition popped :: "timer_heap \<Rightarrow> nat \<Rightarrow> bool" where
  "popped ht x \<longleftrightarrow> lengths_ok ht \<and> slots_ok ht (cur_size ht) (cur_size ht)
     \<and> heap_ordered ht (cur_size ht) \<and> 1 \<le> x \<and> x < max_size ht \<and> x \<notin> nodes ht
     \<and> (\<exists>fs. free_chain (timer_ids ht) (timer_ids_freelist ht) fs (max_size ht)
           \<and> distinct fs \<and> set fs = {1..<max_size ht} - insert x (nodes ht))"

definition place :: "timer_heap \<Rightarrow> nat \<Rightarrow> timer_dup \<Rightarrow> timer_heap" where
  "place ht x d =
     (let ht = reheap_up (ht\<lparr>timer_dups := (timer_dups ht)[x := d]\<rparr>) x (cur_size ht)
      in ht\<lparr>cur_size := cur_size ht + 1\<rparr>)"

definition world_inv :: "timer_world \<Rightarrow> bool" where
  "world_inv w \<longleftrightarrow> heap_inv (timers w)
     \<and> (\<forall>k\<in>nodes (timers w). timer_id (entries w (dup_entry (timer_dups (timers w) ! k))) = int k)
     \<and> (\<forall>a. timer_id (entries w a) \<noteq> - 1 \<longrightarrow> (\<exists>k\<in>nodes (timers w). dup_entry (timer_dups (timers w) ! k) = a))"

definition pending :: "timer_world \<Rightarrow> nat \<Rightarrow> pj_time_val option" where
  "pending w a = (if timer_id (entries w a) < 1 then None
                  else Some (node_value (timers w) (nat (timer_id (entries w a)))))"

text \<open>Callbacks that keep the timer heap usable, and callbacks that leave timers alone.\<close>

definition callback_ok :: "(nat \<Rightarrow> nat \<Rightarrow> timer_world \<Rightarrow> timer_world) \<Rightarrow> bool" where
  "callback_ok callback \<longleftrightarrow> (\<forall>c a w. world_inv w \<longrightarrow> world_inv (callback c a w)
     \<and> max_entries_per_poll (timers (callback c a w)) = max_entries_per_poll (timers w))"

definition callback_quiet :: "(nat \<Rightarrow> nat \<Rightarrow> timer_world \<Rightarrow> timer_world) \<Rightarrow> bool" where
  "callback_quiet callback \<longleftrightarrow> (\<forall>c a w. timers (callback c a w) = timers w
     \<and> (\<forall>b. timer_id (entries (callback c a w) b) = timer_id (entries w b)))"

definition fresh_world :: "timer_dup \<Rightarrow> nat \<Rightarrow> timer_entry \<Rightarrow> timer_world" where
  "fresh_world junk count e = \<lparr>timers = pj_timer_heap_create junk count,
     entries = (\<lambda>_. pj_timer_entry_init e (entry_id e) (user_data e) (entry_cb e)), grp_refs = (\<lambda>_. 0)\<rparr>"

text \<open>Example states.\<close>

definition demo_entry :: timer_entry where
  "demo_entry = \<lparr>user_data = 7, entry_id = 0, entry_cb = 1, timer_id = - 1\<rparr>"

definition demo_junk :: timer_dup where
  "demo_junk = \<lparr>dup = demo_entry, dup_entry = 0, timer_value = Time_Val 0 0, dup_grp_lock = 0\<rparr>"

definition demo_world :: timer_world where
  "demo_world = fresh_world demo_junk 1 demo_entry"

section \<open>Sifting, growing and removing\<close>

lemma HEAP_PARENT_less: "0 < i \<Longrightarrow> HEAP_PARENT i < i"
  by (auto simp: HEAP_PARENT_def)

lemma HEAP_LEFT_parent: "HEAP_PARENT i = s \<Longrightarrow> 0 < i \<Longrightarrow> i = HEAP_LEFT s \<or> i = HEAP_LEFT s + 1"
  unfolding HEAP_PARENT_def HEAP_LEFT_def by (simp split: if_splits) presburger

lemma HEAP_PARENT_left [simp]: "HEAP_PARENT (HEAP_LEFT s) = s" "HEAP_PARENT (Suc (HEAP_LEFT s)) = s"
  by (auto simp: HEAP_PARENT_def HEAP_LEFT_def)

lemma HEAP_LEFT_pos: "0 < HEAP_LEFT s"
  by (simp add: HEAP_LEFT_def)

lemma copy_node_simps [simp]:
  "max_size (copy_node ht s k) = max_size ht" "cur_size (copy_node ht s k) = cur_size ht"
  "max_entries_per_poll (copy_node ht s k) = max_entries_per_poll ht"
  "timer_dups (copy_node ht s k) = timer_dups ht"
  "timer_ids_freelist (copy_node ht s k) = timer_ids_freelist ht"
  "heap (copy_node ht s k) = (heap ht)[s := k]"
  "length (timer_ids (copy_node ht s k)) = length (timer_ids ht)"
  by (simp_all add: copy_node_def)

lemma copy_node_ids:
  "timer_id (dup (timer_dups ht ! k)) = int k \<Longrightarrow> timer_ids (copy_node ht s k) = (timer_ids ht)[k := int s]"
  by (simp add: copy_node_def)

lemma sift_end:
  assumes "in_hand ht n m hole"
  shows "sifted ht (copy_node ht hole m) n (nodes_with ht n m hole)"
proof -
  have ids: "timer_ids (copy_node ht hole m) = (timer_ids ht)[m := int hole]"
    using assms by (simp add: in_hand_def copy_node_ids)
  have "slots_ok (copy_node ht hole m) n n"
    using assms by (auto simp: in_hand_def slots_ok_def ids nth_list_update)
  moreover have "{heap (copy_node ht hole m) ! i | i. i < n} = nodes_with ht n m hole"
    using assms by (auto simp: in_hand_def nodes_with_def slots_ok_def nth_list_update) 
  moreover have "\<forall>k. k \<notin> nodes_with ht n m hole \<longrightarrow> timer_ids (copy_node ht hole m) ! k = timer_ids ht ! k"
    by (auto simp: ids nodes_with_def)
  ultimately show ?thesis by (simp add: sifted_def)
qed

text \<open>One move of a node into the hole.\<close>

lemma sift_move:
  assumes "in_hand ht n m hole" and "j < n" and "j \<noteq> hole"
  shows "in_hand (copy_node ht hole (heap ht ! j)) n m j"
    and "nodes_with (copy_node ht hole (heap ht ! j)) n m j = nodes_with ht n m hole"
    and "timer_ids (copy_node ht hole (heap ht ! j)) = (timer_ids ht)[heap ht ! j := int hole]"
proof -
  let ?k = "heap ht ! j" let ?ht = "copy_node ht hole ?k"
  have k: "?k < length (timer_ids ht)" "timer_id (dup (timer_dups ht ! ?k)) = int ?k" "timer_ids ht ! ?k = int j"
    using assms by (auto simp: in_hand_def slots_ok_def)
  show ids: "timer_ids ?ht = (timer_ids ht)[?k := int hole]" by (simp add: copy_node_ids k)
  have inj: "i = j" if "i < n" "i \<noteq> hole" "heap ht ! i = ?k" for i
    using assms that k(3) by (metis in_hand_def slots_ok_def of_nat_eq_iff)
  have len: "hole < length (heap ht)" "n \<le> length (heap ht)"
    using assms by (auto simp: in_hand_def slots_ok_def)
  have "slots_ok ?ht n j"
    using assms k inj len unfolding in_hand_def slots_ok_def 
    by (auto simp: ids nth_list_update dest: inj inj [OF _ _ sym])
  moreover have "\<forall>i<n. i \<noteq> j \<longrightarrow> heap ?ht ! i \<noteq> m"
    using assms len by (auto simp: in_hand_def nth_list_update)
  ultimately show "in_hand ?ht n m j"
    using assms by (auto simp: in_hand_def ids)
  show "nodes_with ?ht n m j = nodes_with ht n m hole"
    using assms len by (auto simp: nodes_with_def nth_list_update in_hand_def) metis+
qed

lemma sifted_move:
  assumes "in_hand ht n m hole" and "j < n" and "j \<noteq> hole"
    and "sifted (copy_node ht hole (heap ht ! j)) ht' n (nodes_with (copy_node ht hole (heap ht ! j)) n m j)"
  shows "sifted ht ht' n (nodes_with ht n m hole)"
proof -
  have "heap ht ! j \<in> nodes_with ht n m hole"
    using assms by (auto simp: nodes_with_def)
  then have "\<forall>k. k \<notin> nodes_with ht n m hole \<longrightarrow> (timer_ids ht)[heap ht ! j := int hole] ! k = timer_ids ht ! k"
    by (metis nth_list_update_neq)
  then show ?thesis
    using assms(4) sift_move [OF assms(1-3)] by (simp add: sifted_def)
qed

lemma reheap_up_sifted:
  "in_hand ht n m slot \<Longrightarrow> sifted ht (reheap_up ht m slot) n (nodes_with ht n m slot)"
proof (induction ht m slot rule: reheap_up.induct)
  case (1 ht m slot)
  have step: "sifted ht (reheap_up (copy_node ht slot (heap ht ! HEAP_PARENT slot)) m (HEAP_PARENT slot)) n (nodes_with ht n m slot)"
    if "0 < slot" "node_value ht m < node_value ht (heap ht ! HEAP_PARENT slot)"
    using that 1 HEAP_PARENT_less [of slot]
    by (intro sifted_move [OF 1(2), of "HEAP_PARENT slot"] 1(1) sift_move(1) 1(2)) (auto simp: in_hand_def)
  show ?case
    by (subst reheap_up.simps) (use step sift_end [OF 1(2)] in \<open>auto simp: Let_def\<close>)
qed

lemma min_child_cases: "min_child ht c = c \<or> (min_child ht c = c + 1 \<and> c + 1 < cur_size ht)"
  by (auto simp: min_child_def)

lemma reheap_down_sifted:
  "in_hand ht n m slot \<Longrightarrow> cur_size ht = n \<Longrightarrow> slot < child
   \<Longrightarrow> sifted ht (reheap_down ht m slot child) n (nodes_with ht n m slot)"
proof (induction ht m slot child rule: reheap_down.induct)
  case (1 ht m slot child)
  let ?c = "min_child ht child"
  have step: "sifted ht (reheap_down (copy_node ht slot (heap ht ! ?c)) m ?c (HEAP_LEFT ?c)) n (nodes_with ht n m slot)"
    if "child < cur_size ht" "node_value ht (heap ht ! ?c) < node_value ht m"
  proof -
    have c: "?c < n" "?c \<noteq> slot" using min_child_cases [of ht child] that 1(3,4) by auto
    show ?thesis
      by (rule sifted_move [OF 1(2) c], rule 1(1))
         (use that c sift_move(1) [OF 1(2) c] 1(3) in \<open>auto simp: HEAP_LEFT_def\<close>)
  qed
  show ?case
    by (subst reheap_down.simps) (auto simp: Let_def intro: step sift_end [OF 1(2)])
qed

lemma ordered_end:
  assumes "n \<le> length (heap ht)" "hole < n" "ordered_but ht n hole"
    and "0 < hole \<Longrightarrow> node_value ht (heap ht ! HEAP_PARENT hole) \<le> node_value ht m"
    and "\<And>i. i < n \<Longrightarrow> 0 < i \<Longrightarrow> HEAP_PARENT i = hole \<Longrightarrow> node_value ht m \<le> node_value ht (heap ht ! i)"
  shows "heap_ordered (copy_node ht hole m) n"
  unfolding heap_ordered_def
proof (intro allI impI)
  fix i assume i: "i < n" "0 < i"
  have "HEAP_PARENT i < n" using HEAP_PARENT_less [of i] i by simp
  then show "node_value (copy_node ht hole m) (heap (copy_node ht hole m) ! HEAP_PARENT i)
      \<le> node_value (copy_node ht hole m) (heap (copy_node ht hole m) ! i)"
    using assms i HEAP_PARENT_less [of i]
    by (cases "i = hole"; cases "HEAP_PARENT i = hole") (auto simp: ordered_but_def)
qed

lemma ordered_move_up:
  assumes "n \<le> length (heap ht)" "hole < n" "0 < hole" "ordered_but ht n hole"
  shows "ordered_but (copy_node ht hole (heap ht ! HEAP_PARENT hole)) n (HEAP_PARENT hole)"
  unfolding ordered_but_def
proof (intro allI impI conjI)
  fix i
  assume i: "i < n" "0 < i"
  let ?p = "HEAP_PARENT hole" let ?ht = "copy_node ht hole (heap ht ! ?p)"
  have p: "?p < hole" using assms(3) by (rule HEAP_PARENT_less)
  have o: "i \<noteq> hole \<Longrightarrow> HEAP_PARENT i \<noteq> hole \<Longrightarrow> node_value ht (heap ht ! HEAP_PARENT i) \<le> node_value ht (heap ht ! i)"
    "HEAP_PARENT i = hole \<Longrightarrow> node_value ht (heap ht ! ?p) \<le> node_value ht (heap ht ! i)"
    using assms(3,4) i by (auto simp: ordered_but_def)
  show "node_value ?ht (heap ?ht ! HEAP_PARENT i) \<le> node_value ?ht (heap ?ht ! i)"
    if "i \<noteq> ?p" "HEAP_PARENT i \<noteq> ?p"
    using that o i assms(1,2) HEAP_PARENT_less [of i]
    by (cases "i = hole"; cases "HEAP_PARENT i = hole") auto
  have up: "0 < ?p \<Longrightarrow> node_value ht (heap ht ! HEAP_PARENT ?p) \<le> node_value ht (heap ht ! ?p)"
    using assms(2,4) p HEAP_PARENT_less [of ?p] by (auto simp: ordered_but_def)
  show "node_value ?ht (heap ?ht ! HEAP_PARENT ?p) \<le> node_value ?ht (heap ?ht ! i)"
    if "HEAP_PARENT i = ?p" "0 < ?p"
    using that o up i assms(1,2) p HEAP_PARENT_less [of ?p]
    by (cases "i = hole") (auto intro: order_trans)
qed

lemma reheap_up_ordered:
  "in_hand ht n m slot \<Longrightarrow> ordered_but ht n slot
   \<Longrightarrow> (\<And>i. i < n \<Longrightarrow> 0 < i \<Longrightarrow> HEAP_PARENT i = slot \<Longrightarrow> node_value ht m \<le> node_value ht (heap ht ! i))
   \<Longrightarrow> heap_ordered (reheap_up ht m slot) n"
proof (induction ht m slot rule: reheap_up.induct)
  case (1 ht m slot)
  let ?p = "HEAP_PARENT slot" let ?ht = "copy_node ht slot (heap ht ! ?p)"
  have len: "n \<le> length (heap ht)" "slot < n" using 1(2) by (auto simp: in_hand_def slots_ok_def)
  show ?case
  proof (cases "0 < slot \<and> node_value ht m < node_value ht (heap ht ! ?p)")
    case True
    then have p: "?p < slot" using HEAP_PARENT_less by simp
    have "node_value ht m \<le> node_value ht (heap ?ht ! i)" if "i < n" "0 < i" "HEAP_PARENT i = ?p" for i
    proof (cases "i = slot")
      case False
      then have "node_value ht (heap ht ! ?p) \<le> node_value ht (heap ht ! i)"
        using 1(3) that p by (auto simp: ordered_but_def)
      then show ?thesis using True False by auto
    qed (use True len in auto)
    then have "heap_ordered (reheap_up ?ht m ?p) n"
      using True p len 1(3) by (intro 1(1) sift_move(1) [OF 1(2)] ordered_move_up) auto
    then show ?thesis using True by (subst reheap_up.simps) (simp add: Let_def)
  next
    case False
    then have "reheap_up ht m slot = copy_node ht slot m"
      by (subst reheap_up.simps) (auto simp: Let_def)
    then show ?thesis using ordered_end [OF len 1(3)] False 1(4) by auto
  qed
qed

lemma ordered_move_down:
  assumes "n \<le> length (heap ht)" "hole < n" "ordered_but ht n hole"
    and "c < n" "0 < c" "HEAP_PARENT c = hole"
    and "\<And>i. i < n \<Longrightarrow> 0 < i \<Longrightarrow> HEAP_PARENT i = hole \<Longrightarrow> node_value ht (heap ht ! c) \<le> node_value ht (heap ht ! i)"
  shows "ordered_but (copy_node ht hole (heap ht ! c)) n c"
  unfolding ordered_but_def
proof (intro allI impI conjI)
  fix i
  assume i: "i < n" "0 < i"
  let ?ht = "copy_node ht hole (heap ht ! c)"
  have c: "hole < c" using HEAP_PARENT_less [of c] assms by simp
  have o: "i \<noteq> hole \<Longrightarrow> HEAP_PARENT i \<noteq> hole \<Longrightarrow> node_value ht (heap ht ! HEAP_PARENT i) \<le> node_value ht (heap ht ! i)"
    "0 < hole \<Longrightarrow> node_value ht (heap ht ! HEAP_PARENT hole) \<le> node_value ht (heap ht ! c)"
    using assms(3-6) i by (auto simp: ordered_but_def)
  show "node_value ?ht (heap ?ht ! HEAP_PARENT i) \<le> node_value ?ht (heap ?ht ! i)"
    if "i \<noteq> c" "HEAP_PARENT i \<noteq> c"
    using that o i assms(1,2,7) HEAP_PARENT_less [of i]
    by (cases "i = hole"; cases "HEAP_PARENT i = hole") auto
  show "node_value ?ht (heap ?ht ! HEAP_PARENT c) \<le> node_value ?ht (heap ?ht ! i)"
    if "HEAP_PARENT i = c" "0 < c"
    using that o i assms(1,2,6) c HEAP_PARENT_less [of i] by auto
qed

lemma min_child_least:
  assumes "HEAP_LEFT s < cur_size ht"
  shows "min_child ht (HEAP_LEFT s) < cur_size ht" "HEAP_PARENT (min_child ht (HEAP_LEFT s)) = s"
    "0 < min_child ht (HEAP_LEFT s)"
    "i < cur_size ht \<Longrightarrow> 0 < i \<Longrightarrow> HEAP_PARENT i = s
      \<Longrightarrow> node_value ht (heap ht ! min_child ht (HEAP_LEFT s)) \<le> node_value ht (heap ht ! i)"
  using assms HEAP_LEFT_parent [of i s] HEAP_LEFT_pos [of s] by (auto simp: min_child_def)

lemma reheap_down_ordered:
  "in_hand ht n m slot \<Longrightarrow> ordered_but ht n slot \<Longrightarrow> cur_size ht = n \<Longrightarrow> child = HEAP_LEFT slot
   \<Longrightarrow> (0 < slot \<Longrightarrow> node_value ht (heap ht ! HEAP_PARENT slot) \<le> node_value ht m)
   \<Longrightarrow> heap_ordered (reheap_down ht m slot child) n"
proof (induction ht m slot child rule: reheap_down.induct)
  case (1 ht m slot child)
  let ?c = "min_child ht child" let ?ht = "copy_node ht slot (heap ht ! ?c)"
  have len: "n \<le> length (heap ht)" "slot < n" using 1(2) by (auto simp: in_hand_def slots_ok_def)
  show ?case
  proof (cases "child < n")
    case True
    note c = min_child_least [of slot ht, folded 1(5), unfolded 1(4), OF True]
    show ?thesis
    proof (cases "node_value ht (heap ht ! ?c) < node_value ht m")
      case lt: True
      have ne: "?c \<noteq> slot" using HEAP_PARENT_less [OF c(3)] c(2) by simp
      have "heap_ordered (reheap_down ?ht m ?c (HEAP_LEFT ?c)) n"
        using lt c len 1(4) True ne sift_move(1) [OF 1(2) c(1) ne]
        by (intro 1(1) ordered_move_down [OF len 1(3)]) (auto intro: less_imp_le)
      then show ?thesis using lt True 1(4) by (subst reheap_down.simps) (simp add: Let_def)
    next
      case ge: False
      then have "reheap_down ht m slot child = copy_node ht slot m"
        by (subst reheap_down.simps) (auto simp: Let_def)
      then show ?thesis using ordered_end [OF len 1(3) 1(6)] ge c(4) by (auto simp: not_less intro: order_trans)
    qed
  next
    case False
    then have "reheap_down ht m slot child = copy_node ht slot m"
      using 1(4) by (subst reheap_down.simps) (auto simp: Let_def)
    moreover have "\<not> (i < n \<and> 0 < i \<and> HEAP_PARENT i = slot)" for i
      using HEAP_LEFT_parent [of i slot] False 1(5) by auto
    ultimately show ?thesis using ordered_end [OF len 1(3) 1(6)] by auto
  qed
qed

lemma free_chain_cong:
  "(\<And>k. k \<in> set fs \<Longrightarrow> ids ! k = ids' ! k) \<Longrightarrow> free_chain ids f fs m = free_chain ids' f fs m"
  by (induction fs arbitrary: f) auto

lemma free_chain_keep:
  "free_chain ids f fs m \<Longrightarrow> (\<And>k. k \<in> set fs \<Longrightarrow> ids' ! k = ids ! k) \<Longrightarrow> free_chain ids' f fs m"
  using free_chain_cong by metis

lemma free_chain_negative:
  "free_chain ids f fs m \<Longrightarrow> 1 \<le> m \<Longrightarrow> k \<in> set fs \<Longrightarrow> ids ! k < 0"
proof (induction fs arbitrary: f)
  case (Cons x xs)
  have "0 < - (ids ! x)" using Cons.prems by (cases xs) auto
  then show ?case using Cons by auto
qed simp

lemma free_chain_bound: "free_chain ids f fs m \<Longrightarrow> k \<in> set fs \<Longrightarrow> 1 \<le> k \<and> k < m"
  by (induction fs arbitrary: f) auto

lemma free_chain_append:
  assumes "free_chain ids f fs m" and "m \<le> m'" and "1 \<le> m" and "\<And>i. m \<le> i \<Longrightarrow> i < m' \<Longrightarrow> ids ! i = - (int i + 1)"
  shows "free_chain ids f (fs @ [m..<m']) m'"
  using assms
proof (induction fs arbitrary: f)
  case Nil
  have "free_chain ids (int k) [k..<m'] m'" if "m \<le> k" "k \<le> m'" for k
    using that
  proof (induction "m' - k" arbitrary: k)
    case (Suc d)
    then have "k < m'" by simp
    moreover have "free_chain ids (int (Suc k)) [Suc k..<m'] m'" using Suc.prems \<open>k < m'\<close> Suc.hyps(2)
      by (intro Suc.hyps(1)) auto
    ultimately show ?case using Nil.prems Suc.prems by (simp add: upt_conv_Cons add.commute)
  qed (use Nil.prems in simp)
  then show ?case using Nil by simp
qed auto

lemma slot_inj:
  "slots_ok ht n hole \<Longrightarrow> i < n \<Longrightarrow> j < n \<Longrightarrow> i \<noteq> hole \<Longrightarrow> j \<noteq> hole \<Longrightarrow> heap ht ! i = heap ht ! j \<Longrightarrow> i = j"
  by (metis slots_ok_def of_nat_eq_iff)

lemma nodes_card:
  assumes "slots_ok ht (cur_size ht) (cur_size ht)"
  shows "card (nodes ht) = cur_size ht" "finite (nodes ht)"
proof -
  have e: "nodes ht = (\<lambda>i. heap ht ! i) ` {..<cur_size ht}" by (auto simp: nodes_def)
  have "inj_on (\<lambda>i. heap ht ! i) {..<cur_size ht}"
    using slot_inj [OF assms] by (auto intro!: inj_onI)
  then show "card (nodes ht) = cur_size ht" "finite (nodes ht)"
    by (simp_all add: e card_image)
qed

lemma nodes_range:
  "heap_inv ht \<Longrightarrow> k \<in> nodes ht \<Longrightarrow> 1 \<le> k \<and> k < max_size ht"
  by (auto simp: heap_inv_def nodes_def slots_ok_def lengths_ok_def)

lemma create_inv: "heap_inv (pj_timer_heap_create junk count)"
proof -
  let ?ht = "pj_timer_heap_create junk count"
  have "free_chain (timer_ids ?ht) 1 ([1..<1] @ [1..<count + 2]) (count + 2)"
    by (rule free_chain_append [where m = 1]) (auto simp: pj_timer_heap_create_def Let_def simp del: upt_Suc upt.simps)
  then have "free_ok ?ht"
    unfolding free_ok_def by (intro exI [of _ "[1..<count + 2]"]) (auto simp: pj_timer_heap_create_def nodes_def Let_def)
  then show ?thesis
    by (auto simp: heap_inv_def lengths_ok_def slots_ok_def heap_ordered_def pj_timer_heap_create_def Let_def)
qed

lemma pop_inv:
  assumes "heap_inv ht"
  obtains x fs where "timer_ids_freelist ht = int x" "1 \<le> x" "x < max_size ht" "x \<notin> nodes ht"
    "free_chain (timer_ids ht) (- (timer_ids ht ! x)) fs (max_size ht)" "distinct fs"
    "set fs = {1..<max_size ht} - insert x (nodes ht)"
proof -
  obtain fs where fs: "free_chain (timer_ids ht) (timer_ids_freelist ht) fs (max_size ht)" "distinct fs"
    "set fs = {1..<max_size ht} - nodes ht"
    using assms by (auto simp: heap_inv_def free_ok_def)
  have "card (nodes ht) = cur_size ht" "finite (nodes ht)" "cur_size ht + 2 \<le> max_size ht"
    using assms nodes_card by (auto simp: heap_inv_def lengths_ok_def)
  then have "fs \<noteq> []"
    using card_mono [of "nodes ht" "{1..<max_size ht}"] fs(3) by auto
  then obtain x xs where "fs = x # xs" by (cases fs) auto
  then show ?thesis using fs by (intro that [of x xs]) auto
qed

lemma remove_node_eq:
  "remove_node w slot =
     (let k = heap (timers w) ! slot; a = dup_entry (timer_dups (timers w) ! k)
      in (w\<lparr>timers := remove_heap (timers w) slot, entries := (entries w)(a := (entries w a)\<lparr>timer_id := - 1\<rparr>)\<rparr>, k))"
  by (simp add: remove_node_def remove_heap_def Let_def push_freelist_def)

lemma remove_heap_eq:
  assumes "timer_id (dup (timer_dups ht ! (heap ht ! slot))) = int (heap ht ! slot)"
  shows "remove_heap ht slot =
     (let ht1 = detach ht (heap ht ! slot); m = heap ht ! (cur_size ht - 1); ht2 = copy_node ht1 slot m
      in if slot < cur_size ht - 1
         then if node_value ht1 (heap ht2 ! HEAP_PARENT slot) \<le> node_value ht1 m
              then reheap_down ht2 m slot (HEAP_LEFT slot) else reheap_up ht2 m slot
         else ht1)"
  using assms by (simp add: remove_heap_def remove_node_def push_freelist_def detach_def Let_def)

lemma detach_value [simp]: "k < length (timer_dups ht) \<Longrightarrow> node_value (detach ht k) j = node_value ht j"
  by (cases "j = k") (auto simp: detach_def)

lemma detach_simps [simp]:
  "heap (detach ht k) = heap ht" "cur_size (detach ht k) = cur_size ht - 1"
  "max_size (detach ht k) = max_size ht" "max_entries_per_poll (detach ht k) = max_entries_per_poll ht"
  "length (timer_ids (detach ht k)) = length (timer_ids ht)" "length (timer_dups (detach ht k)) = length (timer_dups ht)"
  "j \<noteq> k \<Longrightarrow> timer_dups (detach ht k) ! j = timer_dups ht ! j"
  "j \<noteq> k \<Longrightarrow> timer_ids (detach ht k) ! j = timer_ids ht ! j"
  "timer_ids_freelist (detach ht k) = int k"
  by (simp_all add: detach_def)

lemma detach_lengths: "lengths_ok ht \<Longrightarrow> lengths_ok (detach ht k)"
  unfolding lengths_ok_def detach_simps by linarith

lemma detach_free:
  assumes "heap_inv ht" "k \<in> nodes ht"
  obtains fs where "free_chain (timer_ids (detach ht k)) (int k) fs (max_size ht)" "distinct fs"
    "set fs = {1..<max_size ht} - (nodes ht - {k})"
proof -
  obtain fs where fs: "free_chain (timer_ids ht) (timer_ids_freelist ht) fs (max_size ht)" "distinct fs"
    "set fs = {1..<max_size ht} - nodes ht"
    using assms by (auto simp: heap_inv_def free_ok_def)
  have k: "1 \<le> k" "k < max_size ht" "k \<notin> set fs" "length (timer_ids ht) = max_size ht"
    using nodes_range [OF assms] fs(3) assms by (auto simp: heap_inv_def lengths_ok_def)
  have "free_chain (timer_ids (detach ht k)) (timer_ids_freelist ht) fs (max_size ht)"
    using fs(1)
  proof (rule free_chain_keep)
    fix j assume "j \<in> set fs"
    then show "timer_ids (detach ht k) ! j = timer_ids ht ! j" using k(3) by (cases "j = k") auto
  qed
  moreover have "timer_ids (detach ht k) ! k = - timer_ids_freelist ht"
    using k by (simp add: detach_def)
  ultimately have "free_chain (timer_ids (detach ht k)) (int k) (k # fs) (max_size ht)"
    using k by simp
  moreover have "set (k # fs) = {1..<max_size ht} - (nodes ht - {k})"
    using fs(3) k(1,2) by auto
  ultimately show ?thesis using that [of "k # fs"] fs(2) k(3) by simp
qed

lemma free_ok_after:
  assumes "free_chain ids f fs (max_size ht')" "distinct fs" "set fs = {1..<max_size ht'} - nodes ht'"
    and "timer_ids_freelist ht' = f" "\<And>k. k \<in> set fs \<Longrightarrow> timer_ids ht' ! k = ids ! k"
  shows "free_ok ht'"
  unfolding free_ok_def using assms free_chain_cong [of fs "timer_ids ht'" ids f "max_size ht'"] by auto

text \<open>What is known of the heap once a node is detached and the last one is in hand.\<close>

lemma detach_in_hand:
  assumes inv: "heap_inv ht" and slot: "slot < cur_size ht - 1"
  defines "k \<equiv> heap ht ! slot" and "n \<equiv> cur_size ht - 1"
  defines "m \<equiv> heap ht ! n"
  shows "in_hand (copy_node (detach ht k) slot m) n m slot"
    "nodes_with (copy_node (detach ht k) slot m) n m slot = nodes ht - {k}"
    "ordered_but (copy_node (detach ht k) slot m) n slot"
    "0 < slot \<Longrightarrow> i < n \<Longrightarrow> 0 < i \<Longrightarrow> HEAP_PARENT i = slot
       \<Longrightarrow> node_value ht (heap ht ! HEAP_PARENT slot) \<le> node_value ht (heap ht ! i)"
    "k \<noteq> m" "timer_id (dup (timer_dups (detach ht k) ! m)) = int m" "m \<in> nodes ht - {k}"
proof -
  have so: "slots_ok ht (Suc n) (Suc n)" and len: "k < length (timer_dups ht)" "n < length (heap ht)"
    and n: "Suc n = cur_size ht" "slot < n"
    using assms by (auto simp: heap_inv_def lengths_ok_def slots_ok_def)
  note inj = slot_inj [OF so]
  show km: "k \<noteq> m" using inj [of slot n] n by (auto simp: k_def m_def)
  have ne: "heap ht ! i \<noteq> k" "heap ht ! i \<noteq> m" if "i < n" "i \<noteq> slot" for i
    using inj [of i slot] inj [of i n] that n by (auto simp: k_def m_def)
  show tm: "timer_id (dup (timer_dups (detach ht k) ! m)) = int m"
    using so km by (auto simp: slots_ok_def m_def)
  have m: "1 \<le> m" "m < length (timer_ids ht)" using so by (auto simp: slots_ok_def m_def)
  show "m \<in> nodes ht - {k}" using km n by (auto simp: nodes_def m_def)
  let ?ht = "copy_node (detach ht k) slot m"
  have ids: "timer_ids ?ht = (timer_ids (detach ht k))[m := int slot]" by (simp add: copy_node_ids tm)
  have "slots_ok ?ht n slot"
    using so ne not_sym [OF ne(2)] len unfolding slots_ok_def by (auto simp: ids)
  then show "in_hand ?ht n m slot"
    using n ne m tm by (auto simp: in_hand_def ids)
  have "nodes ht = insert k (insert m {heap ht ! i | i. i < n \<and> i \<noteq> slot})"
    using n(2) unfolding nodes_def n(1) [symmetric] k_def m_def by (auto simp: less_Suc_eq)
  then show "nodes_with ?ht n m slot = nodes ht - {k}"
    using km ne not_sym [OF ne(1)] n(2) len(2) unfolding nodes_with_def
    by (auto simp: nth_list_update) metis
  have o: "\<And>i. i \<le> n \<Longrightarrow> 0 < i \<Longrightarrow> node_value ht (heap ht ! HEAP_PARENT i) \<le> node_value ht (heap ht ! i)"
    using inv n by (auto simp: heap_inv_def heap_ordered_def)
  show two: "node_value ht (heap ht ! HEAP_PARENT slot) \<le> node_value ht (heap ht ! i)"
    if "0 < slot" "i < n" "0 < i" "HEAP_PARENT i = slot" for i
    using o [of i] o [of slot] that n by (auto intro: order_trans)
  have "node_value ht (heap ht ! HEAP_PARENT slot) \<le> node_value ht ((heap ht)[slot := m] ! i)"
    if "0 < slot" "i < n" "0 < i" "HEAP_PARENT i = slot" for i
    using two [OF that] that HEAP_PARENT_less [of i] by simp
  then show "ordered_but ?ht n slot"
    using o len unfolding ordered_but_def by (auto simp: HEAP_PARENT_less nat_neq_iff dest: HEAP_PARENT_less)
qed

lemma sifted_inv:
  assumes "sifted ht ht' (cur_size ht) N" "lengths_ok ht" "heap_ordered ht' (cur_size ht)"
    and "free_chain (timer_ids ht) (timer_ids_freelist ht) fs (max_size ht)" "distinct fs"
    "set fs = {1..<max_size ht} - N"
  shows "heap_inv ht'" "nodes ht' = N"
proof -
  show N: "nodes ht' = N" using assms(1) by (auto simp: sifted_def nodes_def)
  have "free_ok ht'"
    using assms N
    by (intro free_ok_after [of "timer_ids ht" "timer_ids_freelist ht" fs]) (auto simp: sifted_def)
  then show "heap_inv ht'"
    using assms by (auto simp: heap_inv_def sifted_def lengths_ok_def)
qed

lemma remove_heap_inv:
  assumes inv: "heap_inv ht" and slot: "slot < cur_size ht"
  defines "k \<equiv> heap ht ! slot"
  shows "heap_inv (remove_heap ht slot)" "nodes (remove_heap ht slot) = nodes ht - {k}"
    "timer_dups (remove_heap ht slot) = timer_dups (detach ht k)"
    "cur_size (remove_heap ht slot) = cur_size ht - 1"
    "max_size (remove_heap ht slot) = max_size ht"
    "max_entries_per_poll (remove_heap ht slot) = max_entries_per_poll ht"
proof -
  let ?ht' = "remove_heap ht slot" let ?n = "cur_size ht - 1" let ?m = "heap ht ! ?n"
  have so: "slots_ok ht (cur_size ht) (cur_size ht)" and L: "lengths_ok ht"
    using inv by (auto simp: heap_inv_def)
  have kn: "k \<in> nodes ht" using slot by (auto simp: nodes_def k_def)
  have kd: "k < length (timer_dups ht)" using nodes_range [OF inv kn] L by (auto simp: lengths_ok_def)
  obtain fs where fs: "free_chain (timer_ids (detach ht k)) (int k) fs (max_size ht)" "distinct fs"
    "set fs = {1..<max_size ht} - (nodes ht - {k})"
    using detach_free [OF inv kn] .
  have eq: "?ht' = (let ht1 = detach ht k; ht2 = copy_node ht1 slot ?m
      in if slot < ?n
         then if node_value ht1 (heap ht2 ! HEAP_PARENT slot) \<le> node_value ht1 ?m
              then reheap_down ht2 ?m slot (HEAP_LEFT slot) else reheap_up ht2 ?m slot
         else ht1)"
    unfolding k_def using so slot by (subst remove_heap_eq) (auto simp: slots_ok_def Let_def)
  have "heap_inv ?ht' \<and> nodes ?ht' = nodes ht - {k} \<and> timer_dups ?ht' = timer_dups (detach ht k)
    \<and> cur_size ?ht' = ?n \<and> max_size ?ht' = max_size ht \<and> max_entries_per_poll ?ht' = max_entries_per_poll ht"
  proof (cases "slot < ?n")
    case True
    let ?ht2 = "copy_node (detach ht k) slot ?m"
    note h = detach_in_hand [OF inv True, folded k_def]
    have s: "sifted ?ht2 ?ht' (cur_size ?ht2) (nodes ht - {k})"
      using eq True reheap_down_sifted [OF h(1), of "HEAP_LEFT slot"] reheap_up_sifted [OF h(1)] h(2)
      by (auto simp: Let_def HEAP_LEFT_def)
    have ord: "heap_ordered ?ht' (cur_size ?ht2)"
    proof (cases "node_value ht (heap ?ht2 ! HEAP_PARENT slot) \<le> node_value ht ?m")
      case down: True
      then show ?thesis
        using eq True kd reheap_down_ordered [OF h(1) h(3)] by (simp add: Let_def)
    next
      case up: False
      have len: "slot < length (heap ht)" using slot so by (simp add: slots_ok_def)
      have s0: "0 < slot" using up len by (cases slot) (auto simp: HEAP_PARENT_def)
      have "node_value ht ?m < node_value ht (heap ht ! HEAP_PARENT slot)"
        using up HEAP_PARENT_less [OF s0] by simp
      then have "node_value ht ?m \<le> node_value ht (heap ?ht2 ! i)"
        if "i < ?n" "0 < i" "HEAP_PARENT i = slot" for i
        using h(4) [OF s0 that] HEAP_PARENT_less [OF that(2)] that by (auto intro: order_trans less_imp_le)
      then show ?thesis
        using eq True up kd reheap_up_ordered [OF h(1) h(3)] by (simp add: Let_def)
    qed
    have chain: "free_chain (timer_ids ?ht2) (int k) fs (max_size ht)"
      using fs(1)
    proof (rule free_chain_keep)
      fix j assume "j \<in> set fs"
      then have "j \<noteq> ?m" using fs(3) h(7) by auto
      then show "timer_ids ?ht2 ! j = timer_ids (detach ht k) ! j"
        by (subst copy_node_ids [OF h(6)]) simp
    qed
    have "lengths_ok ?ht2" using detach_lengths [OF L, of k] by (simp add: lengths_ok_def)
    from sifted_inv [OF s this ord, of fs] chain fs(2,3)
    have "heap_inv ?ht'" "nodes ?ht' = nodes ht - {k}" by simp_all
    then show ?thesis using s by (simp add: sifted_def)
  next
    case False
    then have sn: "slot = ?n" "Suc ?n = cur_size ht" using slot by auto
    have e: "?ht' = detach ht k" using eq False by (simp add: Let_def)
    have ne: "heap ht ! i \<noteq> k" if "i < ?n" for i
    proof
      assume "heap ht ! i = k"
      then have "i = slot" using slot_inj [OF so, of i slot] that slot by (simp add: k_def)
      then show False using that sn by simp
    qed
    have "slots_ok (detach ht k) ?n ?n" using so ne unfolding slots_ok_def by auto
    moreover have N: "nodes (detach ht k) = nodes ht - {k}"
    proof -
      have "nodes ht = insert k (nodes (detach ht k))"
      proof -
        have "i < cur_size ht \<longleftrightarrow> i = slot \<or> i < ?n" for i using sn by auto
        then show ?thesis by (auto simp: nodes_def k_def)
      qed
      moreover have "k \<notin> nodes (detach ht k)" using ne by (auto simp: nodes_def)
      ultimately show ?thesis by blast
    qed
    moreover have "free_ok (detach ht k)"
      by (rule free_ok_after [of "timer_ids (detach ht k)" "int k" fs]) (use fs N in simp_all)
    moreover have "heap_ordered (detach ht k) ?n"
      using inv kd by (auto simp: heap_inv_def heap_ordered_def)
    ultimately show ?thesis
      using detach_lengths [OF L, of k] unfolding heap_inv_def e by simp
  qed
  then show "heap_inv ?ht'" "nodes ?ht' = nodes ht - {k}" "timer_dups ?ht' = timer_dups (detach ht k)"
    "cur_size ?ht' = ?n" "max_size ?ht' = max_size ht" "max_entries_per_poll ?ht' = max_entries_per_poll ht"
    by auto
qed

lemma pop_popped:
  assumes "heap_inv ht"
  obtains x where "pop_freelist ht = (ht\<lparr>timer_ids_freelist := - (timer_ids ht ! x)\<rparr>, int x)"
    "popped (ht\<lparr>timer_ids_freelist := - (timer_ids ht ! x)\<rparr>) x"
proof -
  obtain x fs where x: "timer_ids_freelist ht = int x" "1 \<le> x" "x < max_size ht" "x \<notin> nodes ht"
    "free_chain (timer_ids ht) (- (timer_ids ht ! x)) fs (max_size ht)" "distinct fs"
    "set fs = {1..<max_size ht} - insert x (nodes ht)"
    using pop_inv [OF assms] .
  let ?ht = "ht\<lparr>timer_ids_freelist := - (timer_ids ht ! x)\<rparr>"
  have "nodes ?ht = nodes ht" by (simp add: nodes_def)
  then have "popped ?ht x"
    using x assms unfolding popped_def heap_inv_def
    by (auto simp: lengths_ok_def slots_ok_def heap_ordered_def)
  then show ?thesis using x(1) by (intro that) (auto simp: pop_freelist_def Let_def)
qed

lemma grow_popped:
  assumes "popped ht x"
  obtains ht' where "grow_heap junk Mem_Ok ht = (ht', PJ_SUCCESS)" "popped ht' x" "nodes ht' = nodes ht"
    "cur_size ht' = cur_size ht" "cur_size ht' + 3 \<le> max_size ht'"
    "max_entries_per_poll ht' = max_entries_per_poll ht"
    "\<And>k. k < max_size ht \<Longrightarrow> timer_dups ht' ! k = timer_dups ht ! k" "max_size ht \<le> max_size ht'"
proof -
  let ?m = "max_size ht" let ?n = "cur_size ht"
  obtain fs where fs: "free_chain (timer_ids ht) (timer_ids_freelist ht) fs ?m" "distinct fs"
    "set fs = {1..<?m} - insert x (nodes ht)" using assms by (auto simp: popped_def)
  have L: "length (heap ht) = ?m" "length (timer_ids ht) = ?m" "length (timer_dups ht) = ?m" "?n + 2 \<le> ?m"
    and x: "1 \<le> x" "x < ?m" "x \<notin> nodes ht" and so: "slots_ok ht ?n ?n" and ho: "heap_ordered ht ?n"
    using assms by (auto simp: popped_def lengths_ok_def)
  define ht' where "ht' = fst (grow_heap junk Mem_Ok ht)"
  have ht': "heap ht' = take ?n (heap ht) @ replicate (?m * 2 - ?n) 0"
    "timer_dups ht' = timer_dups ht @ replicate ?m junk"
    "timer_ids ht' = timer_ids ht @ map (\<lambda>i. - (int i + 1)) [?m..<?m * 2]"
    "max_size ht' = ?m * 2" "cur_size ht' = ?n" "timer_ids_freelist ht' = timer_ids_freelist ht"
    "max_entries_per_poll ht' = max_entries_per_poll ht"
    using L by (simp_all add: ht'_def grow_heap_def Let_def)
  have hp: "heap ht' ! i = heap ht ! i" if "i < ?n" for i
    using that L by (simp add: ht' nth_append)
  have nodes: "nodes ht' = nodes ht" using hp unfolding nodes_def ht'(5) by (auto simp: hp) (metis hp)
  have dup: "timer_dups ht' ! k = timer_dups ht ! k" if "k < ?m" for k
    using that L by (simp add: ht' nth_append)
  have rng: "heap ht ! i < ?m" if "i < ?n" for i using so that L by (auto simp: slots_ok_def)
  have "slots_ok ht' ?n ?n"
    using so L hp rng unfolding slots_ok_def by (auto simp: dup ht'(1,3) nth_append trans_less_add1)
  moreover have "heap_ordered ht' ?n"
    using ho hp rng unfolding heap_ordered_def by (auto simp: dup dest: HEAP_PARENT_less)
  moreover have "free_chain (timer_ids ht') (timer_ids_freelist ht) (fs @ [?m..<?m * 2]) (?m * 2)"
  proof (rule free_chain_append)
    show "free_chain (timer_ids ht') (timer_ids_freelist ht) fs ?m"
      using fs(1)
    proof (rule free_chain_keep)
      fix k assume "k \<in> set fs"
      then show "timer_ids ht' ! k = timer_ids ht ! k"
        using free_chain_bound [OF fs(1)] L by (simp add: ht' nth_append)
    qed
  qed (use L in \<open>auto simp: ht' nth_append\<close>)
  moreover have "set (fs @ [?m..<?m * 2]) = {1..<?m * 2} - insert x (nodes ht)"
  proof -
    have kb: "k < ?m" if "k \<in> nodes ht" for k using that rng by (auto simp: nodes_def)
    have "\<not> (?m \<le> k \<and> k \<in> nodes ht)" for k using kb [of k] by auto
    then show ?thesis using fs(3) x L(4) by auto
  qed
  moreover have "distinct (fs @ [?m..<?m * 2])"
  proof -
    have "k \<notin> set [?m..<?m * 2]" if "k \<in> set fs" for k
      using free_chain_bound [OF fs(1) that] by simp
    then have "set fs \<inter> set [?m..<?m * 2] = {}" by blast
    then show ?thesis using fs(2) by (simp only: distinct_append distinct_upt)
  qed
  ultimately have "popped ht' x"
    unfolding popped_def using L x nodes
    by (auto simp: lengths_ok_def ht' simp del: set_append distinct_append)
  moreover have "grow_heap junk Mem_Ok ht = (ht', PJ_SUCCESS)"
    by (simp add: ht'_def grow_heap_def Let_def)
  ultimately show ?thesis using nodes dup L by (intro that [of ht']) (auto simp: ht')
qed

lemma place_inv:
  assumes "popped ht x" "cur_size ht + 3 \<le> max_size ht" "timer_id (dup d) = int x"
  shows "heap_inv (place ht x d)" "nodes (place ht x d) = insert x (nodes ht)"
    "timer_dups (place ht x d) = (timer_dups ht)[x := d]" "cur_size (place ht x d) = cur_size ht + 1"
    "max_size (place ht x d) = max_size ht" "max_entries_per_poll (place ht x d) = max_entries_per_poll ht"
proof -
  let ?n = "cur_size ht" let ?h1 = "ht\<lparr>timer_dups := (timer_dups ht)[x := d]\<rparr>" let ?h2 = "reheap_up ?h1 x ?n"
  have L: "length (heap ht) = max_size ht" "length (timer_ids ht) = max_size ht" "length (timer_dups ht) = max_size ht"
    and x: "1 \<le> x" "x < max_size ht" "x \<notin> nodes ht" and so: "slots_ok ht ?n ?n" and ho: "heap_ordered ht ?n"
    using assms(1) by (auto simp: popped_def lengths_ok_def)
  have ne: "heap ht ! i \<noteq> x" if "i < ?n" for i using that x(3) by (auto simp: nodes_def)
  have hand: "in_hand ?h1 (Suc ?n) x ?n"
    using so L x ne not_sym [OF ne] assms(2,3) unfolding in_hand_def slots_ok_def by (auto simp: less_Suc_eq)
  have nw: "nodes_with ?h1 (Suc ?n) x ?n = insert x (nodes ht)"
    by (auto simp: nodes_with_def nodes_def less_Suc_eq)
  have val: "node_value ?h1 (heap ht ! i) = node_value ht (heap ht ! i)" if "i < ?n" for i
    using ne [OF that] by simp
  have "ordered_but ?h1 (Suc ?n) ?n"
    using ho val unfolding ordered_but_def heap_ordered_def by (auto simp: less_Suc_eq dest: HEAP_PARENT_less)
  then have ord: "heap_ordered ?h2 (Suc ?n)"
    using hand by (intro reheap_up_ordered) (auto simp: less_Suc_eq dest: HEAP_PARENT_less)
  have s: "sifted ?h1 ?h2 (Suc ?n) (insert x (nodes ht))"
    using reheap_up_sifted [OF hand] nw by simp
  obtain fs where fs: "free_chain (timer_ids ht) (timer_ids_freelist ht) fs (max_size ht)" "distinct fs"
    "set fs = {1..<max_size ht} - insert x (nodes ht)" using assms(1) by (auto simp: popped_def)
  let ?h3 = "place ht x d"
  have p: "?h3 = ?h2\<lparr>cur_size := Suc ?n\<rparr>" using s by (simp add: place_def sifted_def)
  show N: "nodes ?h3 = insert x (nodes ht)" using s by (simp add: p nodes_def sifted_def)
  have "free_ok ?h3"
  proof (rule free_ok_after)
    show "free_chain (timer_ids ht) (timer_ids_freelist ht) fs (max_size ?h3)" "distinct fs"
      using fs s by (simp_all add: p sifted_def)
    show "set fs = {1..<max_size ?h3} - nodes ?h3" unfolding N using fs(3) s by (simp add: p sifted_def)
    show "timer_ids_freelist ?h3 = timer_ids_freelist ht" using s by (simp add: p sifted_def)
    show "timer_ids ?h3 ! k = timer_ids ht ! k" if "k \<in> set fs" for k
      using s that fs(3) by (simp add: p sifted_def)
  qed
  moreover have "heap_ordered ?h3 (Suc ?n)" "slots_ok ?h3 (Suc ?n) (Suc ?n)" "lengths_ok ?h3"
    using ord s L assms(2) by (auto simp: p heap_ordered_def slots_ok_def lengths_ok_def sifted_def)
  ultimately show "heap_inv ?h3" by (simp add: heap_inv_def p)
  show "timer_dups ?h3 = (timer_dups ht)[x := d]" "cur_size ?h3 = cur_size ht + 1"
    "max_size ?h3 = max_size ht" "max_entries_per_poll ?h3 = max_entries_per_poll ht"
    using s by (simp_all add: p sifted_def)
qed

lemma entry_cases:
  assumes "world_inv w"
  obtains (idle) "timer_id (entries w a) = - 1" "pending w a = None"
  | (active) k where "k \<in> nodes (timers w)" "timer_id (entries w a) = int k" "1 \<le> k"
      "dup_entry (timer_dups (timers w) ! k) = a" "pending w a = Some (node_value (timers w) k)"
proof (cases "timer_id (entries w a) = - 1")
  case False
  then obtain k where k: "k \<in> nodes (timers w)" "dup_entry (timer_dups (timers w) ! k) = a"
    using assms unfolding world_inv_def by blast
  then have "timer_id (entries w a) = int k" "1 \<le> k"
    using assms nodes_range unfolding world_inv_def by blast+
  then show ?thesis using k active by (simp add: pending_def)
qed (use idle in \<open>simp add: pending_def\<close>)

lemma pending_node:
  assumes "world_inv w" "k \<in> nodes (timers w)"
  shows "pending w (dup_entry (timer_dups (timers w) ! k)) = Some (node_value (timers w) k)"
  using assms nodes_range [of "timers w" k] unfolding world_inv_def pending_def by auto

lemma pending_iff: "world_inv w \<Longrightarrow> pending w a = None \<longleftrightarrow> timer_id (entries w a) = - 1"
  by (cases rule: entry_cases [of w a]) auto

lemma running_iff: "world_inv w \<Longrightarrow> pj_timer_entry_running (entries w a) \<longleftrightarrow> pending w a \<noteq> None"
  by (cases rule: entry_cases [of w a]) (auto simp: pj_timer_entry_running_def)

lemma remove_node_inv:
  assumes inv: "world_inv w" and slot: "slot < cur_size (timers w)"
  defines "k \<equiv> heap (timers w) ! slot"
  defines "a \<equiv> dup_entry (timer_dups (timers w) ! k)"
  defines "w' \<equiv> fst (remove_node w slot)"
  shows "world_inv w'" "pending w' = (pending w)(a := None)" "snd (remove_node w slot) = k"
    "entries w' = (entries w)(a := (entries w a)\<lparr>timer_id := - 1\<rparr>)" "grp_refs w' = grp_refs w"
    "cur_size (timers w') = cur_size (timers w) - 1"
    "max_size (timers w') = max_size (timers w)"
    "max_entries_per_poll (timers w') = max_entries_per_poll (timers w)"
    "timer_dups (timers w') = timer_dups (detach (timers w) k)"
proof -
  have H: "heap_inv (timers w)" using inv by (simp add: world_inv_def)
  note r = remove_heap_inv [OF H slot, folded k_def]
  have kn: "k \<in> nodes (timers w)" using slot by (auto simp: nodes_def k_def)
  have kd: "k < length (timer_dups (timers w))"
    using nodes_range [OF H kn] H by (simp add: heap_inv_def lengths_ok_def)
  have w': "timers w' = remove_heap (timers w) slot" "entries w' = (entries w)(a := (entries w a)\<lparr>timer_id := - 1\<rparr>)"
    "grp_refs w' = grp_refs w"
    by (simp_all add: w'_def remove_node_eq Let_def a_def k_def)
  then show "entries w' = (entries w)(a := (entries w a)\<lparr>timer_id := - 1\<rparr>)" "grp_refs w' = grp_refs w" by simp_all
  show "cur_size (timers w') = cur_size (timers w) - 1" "max_size (timers w') = max_size (timers w)"
    "max_entries_per_poll (timers w') = max_entries_per_poll (timers w)"
    "timer_dups (timers w') = timer_dups (detach (timers w) k)"
    using r by (simp_all add: w')
  show "snd (remove_node w slot) = k" by (simp add: remove_node_eq Let_def k_def)
  have ids: "timer_id (entries w (dup_entry (timer_dups (timers w) ! j))) = int j" if "j \<in> nodes (timers w)" for j
    using inv that by (simp add: world_inv_def)
  have ne: "dup_entry (timer_dups (timers w) ! j) \<noteq> a" if "j \<in> nodes (timers w)" "j \<noteq> k" for j
    using ids [OF that(1)] ids [OF kn] that(2) by (auto simp: a_def)
  show "world_inv w'"
    unfolding world_inv_def
  proof (intro conjI ballI allI impI)
    show "heap_inv (timers w')" using r by (simp add: w')
    fix j assume "j \<in> nodes (timers w')"
    then have j: "j \<in> nodes (timers w)" "j \<noteq> k" using r(2) by (auto simp: w')
    then show "timer_id (entries w' (dup_entry (timer_dups (timers w') ! j))) = int j"
      using ne ids r(3) by (simp add: w')
  next
    fix b assume b: "timer_id (entries w' b) \<noteq> - 1"
    then have "b \<noteq> a" "timer_id (entries w b) \<noteq> - 1" by (auto simp: w' split: if_splits)
    then obtain j where j: "j \<in> nodes (timers w)" "dup_entry (timer_dups (timers w) ! j) = b"
      using inv unfolding world_inv_def by blast
    then have "j \<noteq> k" using \<open>b \<noteq> a\<close> by (auto simp: a_def)
    then show "\<exists>j\<in>nodes (timers w'). dup_entry (timer_dups (timers w') ! j) = b"
      using j r(2,3) by (intro bexI [of _ j]) (auto simp: w')
  qed
  show "pending w' = (pending w)(a := None)"
  proof
    fix b
    show "pending w' b = ((pending w)(a := None)) b"
      using r(3) detach_value [OF kd] by (auto simp: pending_def w')
  qed
qed

lemma heap_root_min:
  assumes "heap_inv ht" "i < cur_size ht"
  shows "node_value ht (heap ht ! 0) \<le> node_value ht (heap ht ! i)"
  using assms(2)
proof (induction i rule: less_induct)
  case (less i)
  show ?case
  proof (cases "i = 0")
    case False
    then have "HEAP_PARENT i < i" by (simp add: HEAP_PARENT_less)
    moreover have "node_value ht (heap ht ! HEAP_PARENT i) \<le> node_value ht (heap ht ! i)"
      using assms(1) less.prems False by (simp add: heap_inv_def heap_ordered_def)
    ultimately show ?thesis using less by (meson less_trans order_trans)
  qed simp
qed

lemma pending_min:
  assumes "world_inv w" "pending w a = Some t"
  shows "cur_size (timers w) \<noteq> 0" "node_value (timers w) (heap (timers w) ! 0) \<le> t"
proof -
  obtain k where "k \<in> nodes (timers w)" "t = node_value (timers w) k"
    using assms(2) by (cases rule: entry_cases [OF assms(1), of a]) auto
  then obtain i where "i < cur_size (timers w)" "t = node_value (timers w) (heap (timers w) ! i)"
    by (auto simp: nodes_def)
  then show "cur_size (timers w) \<noteq> 0" "node_value (timers w) (heap (timers w) ! 0) \<le> t"
    using heap_root_min assms(1) by (auto simp: world_inv_def)
qed

lemma pending_root:
  assumes "world_inv w" "cur_size (timers w) \<noteq> 0"
  shows "pending w (dup_entry (timer_dups (timers w) ! (heap (timers w) ! 0)))
    = Some (node_value (timers w) (heap (timers w) ! 0))"
  using assms by (intro pending_node) (auto simp: nodes_def)

lemma pending_card:
  assumes "world_inv w"
  shows "card (dom (pending w)) = cur_size (timers w)" "finite (dom (pending w))"
proof -
  let ?f = "\<lambda>k. dup_entry (timer_dups (timers w) ! k)"
  have H: "slots_ok (timers w) (cur_size (timers w)) (cur_size (timers w))"
    using assms by (simp add: world_inv_def heap_inv_def)
  have "inj_on ?f (nodes (timers w))"
  proof (rule inj_onI)
    fix j k assume "j \<in> nodes (timers w)" "k \<in> nodes (timers w)" "?f j = ?f k"
    then show "j = k" using assms unfolding world_inv_def by (metis of_nat_eq_iff)
  qed
  moreover have "dom (pending w) = ?f ` nodes (timers w)"
  proof (intro set_eqI iffI)
    fix a assume "a \<in> dom (pending w)"
    then show "a \<in> ?f ` nodes (timers w)" by (cases rule: entry_cases [OF assms, of a]) auto
  next
    fix a assume "a \<in> ?f ` nodes (timers w)"
    then show "a \<in> dom (pending w)" using pending_node [OF assms] by auto
  qed
  ultimately show "card (dom (pending w)) = cur_size (timers w)" "finite (dom (pending w))"
    using nodes_card [OF H] by (simp_all add: card_image)
qed

lemma cancel_spec:
  assumes inv: "world_inv w"
  shows "pending w a = None \<Longrightarrow> cancel beyond w a = (w, 0)"
    and "pending w a \<noteq> None \<Longrightarrow> \<exists>slot<cur_size (timers w). heap (timers w) ! slot = nat (timer_id (entries w a))
           \<and> dup_entry (timer_dups (timers w) ! (heap (timers w) ! slot)) = a
           \<and> cancel beyond w a = (fst (remove_node w slot), 1)"
proof -
  assume "pending w a = None"
  then have "timer_id (entries w a) = - 1" using pending_iff [OF inv] by simp
  then have "entries w = (entries w)(a := (entries w a)\<lparr>timer_id := - 1\<rparr>)" by auto
  then have "w = w\<lparr>entries := (entries w)(a := (entries w a)\<lparr>timer_id := - 1\<rparr>)\<rparr>" by simp
  then show "cancel beyond w a = (w, 0)"
    using \<open>timer_id (entries w a) = - 1\<close> by (simp add: cancel_def Let_def)
next
  assume "pending w a \<noteq> None"
  then obtain k where k: "k \<in> nodes (timers w)" "timer_id (entries w a) = int k" "1 \<le> k"
      "dup_entry (timer_dups (timers w) ! k) = a"
    by (cases rule: entry_cases [OF inv, of a]) auto
  then obtain slot where s: "slot < cur_size (timers w)" "k = heap (timers w) ! slot" by (auto simp: nodes_def)
  have H: "slots_ok (timers w) (cur_size (timers w)) (cur_size (timers w))" "lengths_ok (timers w)"
    using inv by (simp_all add: world_inv_def heap_inv_def)
  then have "k < length (timer_ids (timers w))" "timer_ids (timers w) ! k = int slot" "k \<le> max_size (timers w)"
    using s by (auto simp: slots_ok_def lengths_ok_def)
  then have "cancel beyond w a = (fst (remove_node w slot), 1)"
    using k s(2) by (simp add: cancel_def Let_def timer_ids_at_def)
  then show "\<exists>slot<cur_size (timers w). heap (timers w) ! slot = nat (timer_id (entries w a))
           \<and> dup_entry (timer_dups (timers w) ! (heap (timers w) ! slot)) = a
           \<and> cancel beyond w a = (fst (remove_node w slot), 1)"
    using k s by auto
qed

lemma world_inv_frame:
  assumes "world_inv w" "timers w' = timers w" "\<And>a. timer_id (entries w' a) = timer_id (entries w a)"
  shows "world_inv w'" "pending w' = pending w"
  using assms by (auto simp: world_inv_def pending_def)

lemma dup_update_inv:
  assumes "heap_inv ht" "timer_id (dup d) = timer_id (dup (timer_dups ht ! x))" "timer_value d = node_value ht x"
  shows "heap_inv (ht\<lparr>timer_dups := (timer_dups ht)[x := d]\<rparr>)"
    "nodes (ht\<lparr>timer_dups := (timer_dups ht)[x := d]\<rparr>) = nodes ht"
    "node_value (ht\<lparr>timer_dups := (timer_dups ht)[x := d]\<rparr>) k = node_value ht k"
proof -
  let ?ht = "ht\<lparr>timer_dups := (timer_dups ht)[x := d]\<rparr>"
  have v: "node_value ?ht k = node_value ht k" "timer_id (dup (timer_dups ?ht ! k)) = timer_id (dup (timer_dups ht ! k))" for k
    using assms(2,3)
    by (cases "x < length (timer_dups ht)"; cases "k = x"; simp add: list_update_beyond)+
  then show "node_value ?ht k = node_value ht k" by simp
  show n: "nodes ?ht = nodes ht" by (simp add: nodes_def)
  have "slots_ok ?ht (cur_size ?ht) (cur_size ?ht)" "heap_ordered ?ht (cur_size ?ht)" "lengths_ok ?ht"
    using assms(1) unfolding heap_inv_def slots_ok_def heap_ordered_def v by (auto simp: lengths_ok_def)
  moreover have "free_ok ?ht" using assms(1) n by (simp add: heap_inv_def free_ok_def)
  ultimately show "heap_inv ?ht" by (simp add: heap_inv_def)
qed

lemma cancel_timer_spec:
  assumes inv: "world_inv w"
  obtains w' where "cancel_timer stray beyond w a set_id = (w', if pending w a = None then 0 else 1)"
    "world_inv w'" "pending w' = (pending w)(a := None)"
    "max_entries_per_poll (timers w') = max_entries_per_poll (timers w)"
    "\<And>b. b \<noteq> a \<Longrightarrow> entries w' b = entries w b" "\<And>b. entry_cb (entries w' b) = entry_cb (entries w b)"
    "\<And>s b. cancel_timer s b w a set_id = cancel_timer stray beyond w a set_id"
proof (cases "pending w a = None")
  case True
  then have c: "cancel_timer s b w a set_id = (w, 0)" for s b
    using cancel_spec(1) [OF inv True] by (simp add: cancel_timer_def Let_def)
  show ?thesis by (rule that [of w]) (use True inv c in auto)
next
  case False
  then obtain slot where s: "slot < cur_size (timers w)" "heap (timers w) ! slot = nat (timer_id (entries w a))"
    "dup_entry (timer_dups (timers w) ! (heap (timers w) ! slot)) = a"
    using cancel_spec(2) [OF inv False] by blast
  have c1: "cancel b w a = (fst (remove_node w slot), 1)" for b
  proof -
    obtain slot' where s': "slot' < cur_size (timers w)" "heap (timers w) ! slot' = nat (timer_id (entries w a))"
      "cancel b w a = (fst (remove_node w slot'), 1)"
      using cancel_spec(2) [OF inv False] by blast
    have "slot' = slot"
      using slot_inj [of "timers w" "cur_size (timers w)" "cur_size (timers w)" slot' slot] s s' inv
      by (simp add: world_inv_def heap_inv_def)
    then show ?thesis using s' by simp
  qed
  note r = remove_node_inv [OF inv s(1), unfolded s(3)]
  let ?w = "fst (remove_node w slot)"
  obtain k where k: "k \<in> nodes (timers w)" "timer_id (entries w a) = int k"
    using False by (cases rule: entry_cases [OF inv, of a]) auto
  have len: "k < length (timer_dups (timers w))"
    using nodes_range [OF _ k(1)] inv by (simp add: world_inv_def heap_inv_def lengths_ok_def)
  define w' where "w' = fst (cancel_timer stray beyond w a set_id)"
  have c: "cancel_timer s b w a set_id = (w', 1)" for s b
    using len k by (simp add: w'_def cancel_timer_def c1 Let_def)
  have w': "timers w' = timers ?w" "timer_id (entries w' b) = timer_id (entries ?w b)"
    "entry_cb (entries w' b) = entry_cb (entries ?w b)" "b \<noteq> a \<Longrightarrow> entries w' b = entries ?w b" for b
    by (simp_all add: w'_def cancel_timer_def c1 Let_def split: option.split)
  have "world_inv w'" "pending w' = (pending w)(a := None)"
    using world_inv_frame [OF r(1), of w'] w' r(2) by simp_all
  then show ?thesis
    using r(4,8) w' False c by (intro that [of w']) auto
qed

lemma schedule_spec:
  assumes inv: "world_inv w" and cb: "entry_cb (entries w a) \<noteq> 0" and idle: "pending w a = None"
    and mem: "mem = Mem_Ok \<or> cur_size (timers w) + 2 < max_size (timers w)"
  obtains w' where "schedule_w_grp_lock junk mem now w a delay set_id g = (w', PJ_SUCCESS)"
    "world_inv w'" "pending w' = (pending w)(a \<mapsto> PJ_TIME_VAL_ADD now delay)"
    "max_entries_per_poll (timers w') = max_entries_per_poll (timers w)"
    "\<And>b. b \<noteq> a \<Longrightarrow> entries w' b = entries w b" "\<And>b. entry_cb (entries w' b) = entry_cb (entries w b)"
    "grp_refs w' = (if g = 0 then grp_refs w else (grp_refs w)(g := grp_refs w g + 1))"
proof -
  let ?t = "PJ_TIME_VAL_ADD now delay"
  have H: "heap_inv (timers w)" using inv by (simp add: world_inv_def)
  have L: "length (timer_dups (timers w)) = max_size (timers w)" using H by (simp add: heap_inv_def lengths_ok_def)
  obtain x where x: "pop_freelist (timers w) = ((timers w)\<lparr>timer_ids_freelist := - (timer_ids (timers w) ! x)\<rparr>, int x)"
    "popped ((timers w)\<lparr>timer_ids_freelist := - (timer_ids (timers w) ! x)\<rparr>) x"
    using pop_popped [OF H] .
  let ?h1 = "(timers w)\<lparr>timer_ids_freelist := - (timer_ids (timers w) ! x)\<rparr>"
  have n1: "nodes ?h1 = nodes (timers w)" by (simp add: nodes_def)
  have "\<exists>h2. (if cur_size ?h1 + 2 \<ge> max_size ?h1 then grow_heap junk mem ?h1 else (?h1, PJ_SUCCESS)) = (h2, PJ_SUCCESS)
      \<and> popped h2 x \<and> nodes h2 = nodes (timers w) \<and> cur_size h2 = cur_size (timers w) \<and> cur_size h2 + 3 \<le> max_size h2
      \<and> max_entries_per_poll h2 = max_entries_per_poll (timers w)
      \<and> (\<forall>k<max_size (timers w). timer_dups h2 ! k = timer_dups (timers w) ! k)"
  proof (cases "cur_size ?h1 + 2 \<ge> max_size ?h1")
    case True
    then have "mem = Mem_Ok" using mem by auto
    then show ?thesis using True n1 by (auto intro: grow_popped [OF x(2), of junk])
  next
    case False
    then show ?thesis using x(2) n1 by auto
  qed
  then obtain h2 where h2: "(if cur_size ?h1 + 2 \<ge> max_size ?h1 then grow_heap junk mem ?h1 else (?h1, PJ_SUCCESS)) = (h2, PJ_SUCCESS)"
      "popped h2 x" "nodes h2 = nodes (timers w)" "cur_size h2 = cur_size (timers w)" "cur_size h2 + 3 \<le> max_size h2"
      "max_entries_per_poll h2 = max_entries_per_poll (timers w)"
      "\<And>k. k < max_size (timers w) \<Longrightarrow> timer_dups h2 ! k = timer_dups (timers w) ! k"
    by blast
  let ?e = "(entries w a)\<lparr>timer_id := int x\<rparr>"
  let ?d = "\<lparr>dup = ?e, dup_entry = a, timer_value = ?t, dup_grp_lock = 0\<rparr>"
  let ?h3 = "place h2 x ?d"
  note p = place_inv [OF h2(2,5), of ?d, simplified]
  have cur: "cur_size (timers w) < max_size (timers w)" using H by (simp add: heap_inv_def lengths_ok_def)
  have se: "schedule_entry junk mem w a ?t = (w\<lparr>timers := ?h3, entries := (entries w)(a := ?e)\<rparr>, PJ_SUCCESS)"
    using cur h2(1)
    by (cases "cur_size ?h1 + 2 \<ge> max_size ?h1") (auto simp: schedule_entry_def x(1) insert_node_def place_def Let_def)
  have xl: "x < length (timer_dups h2)" "x \<notin> nodes (timers w)"
    using h2(2,3) by (simp_all add: popped_def lengths_ok_def)
  define w' where "w' = fst (schedule_w_grp_lock junk mem now w a delay set_id g)"
  define e' where "e' = (case set_id of None \<Rightarrow> ?e | Some v \<Rightarrow> ?e\<lparr>entry_id := v\<rparr>)"
  define d' where "d' = ?d\<lparr>dup := e', dup_grp_lock := g\<rparr>"
  have nr: "\<not> pj_timer_entry_running (entries w a)" using running_iff [OF inv] idle by simp
  have w': "timers w' = ?h3\<lparr>timer_dups := (timer_dups ?h3)[x := d']\<rparr>" "entries w' = (entries w)(a := e')"
    "grp_refs w' = (if g = 0 then grp_refs w else (grp_refs w)(g := grp_refs w g + 1))"
    and res: "schedule_w_grp_lock junk mem now w a delay set_id g = (w', PJ_SUCCESS)"
    using cb nr xl(1)
    by (auto simp: w'_def schedule_w_grp_lock_def se Let_def p(3) d'_def e'_def split: option.split)
  have e': "timer_id e' = int x" "entry_cb e' = entry_cb (entries w a)" by (auto simp: e'_def split: option.split)
  note u = dup_update_inv [OF p(1), of d' x]
  have d3: "timer_dups ?h3 ! x = ?d" using p(3) xl by simp
  then have N: "heap_inv (timers w')" "nodes (timers w') = insert x (nodes (timers w))"
    using u p(2) h2(3) by (simp_all add: w' d'_def e')
  have dj: "timer_dups (timers w') ! j = timer_dups (timers w) ! j" if "j \<in> nodes (timers w)" for j
  proof -
    have "j \<noteq> x" "j < max_size (timers w)" using that xl nodes_range [OF H] by auto
    then show ?thesis using h2(7) by (simp add: w' p(3))
  qed
  have dx: "timer_dups (timers w') ! x = d'" using xl p(3) by (simp add: w')
  have na: "dup_entry (timer_dups (timers w) ! j) \<noteq> a" if "j \<in> nodes (timers w)" for j
    using pending_node [OF inv that] idle by auto
  have "world_inv w'"
    unfolding world_inv_def
  proof (intro conjI ballI allI impI)
    fix j assume "j \<in> nodes (timers w')"
    then consider "j = x" | "j \<in> nodes (timers w)" using N by auto
    then show "timer_id (entries w' (dup_entry (timer_dups (timers w') ! j))) = int j"
    proof cases
      case 2
      then show ?thesis using na [OF 2] inv by (simp add: dj w'(2) world_inv_def)
    qed (simp add: dx d'_def w'(2) e')
  next
    fix b assume "timer_id (entries w' b) \<noteq> - 1"
    then consider "b = a" | "b \<noteq> a" "timer_id (entries w b) \<noteq> - 1" by (auto simp: w'(2) split: if_splits)
    then show "\<exists>k\<in>nodes (timers w'). dup_entry (timer_dups (timers w') ! k) = b"
    proof cases
      case 1
      then show ?thesis using N dx by (intro bexI [of _ x]) (auto simp: d'_def)
    next
      case 2
      then obtain k where "k \<in> nodes (timers w)" "dup_entry (timer_dups (timers w) ! k) = b"
        using inv unfolding world_inv_def by blast
      then show ?thesis using N dj by (intro bexI [of _ k]) auto
    qed
  qed (use N in simp)
  moreover have "pending w' = (pending w)(a \<mapsto> ?t)"
  proof
    fix b
    show "pending w' b = ((pending w)(a \<mapsto> ?t)) b"
    proof (cases "b = a")
      case True
      have "1 \<le> x" using h2(2) by (simp add: popped_def)
      then show ?thesis using True by (simp add: pending_def w'(2) e' dx d'_def)
    next
      case False
      then show ?thesis
        by (cases rule: entry_cases [OF inv, of b]) (auto simp: pending_def w'(2) dj)
    qed
  qed
  ultimately show ?thesis
    using res w'(3) p(6) h2(6) by (intro that [of w']) (auto simp: w' e')
qed

lemma fresh_world_inv: "world_inv (fresh_world junk count e)" "pending (fresh_world junk count e) = (\<lambda>_. None)"
proof -
  have "nodes (pj_timer_heap_create junk count) = {}"
    by (simp add: nodes_def pj_timer_heap_create_def Let_def)
  then show "world_inv (fresh_world junk count e)"
    by (simp add: world_inv_def fresh_world_def create_inv pj_timer_entry_init_def)
  show "pending (fresh_world junk count e) = (\<lambda>_. None)"
    by (rule ext) (simp add: pending_def fresh_world_def pj_timer_entry_init_def)
qed

lemma callback_quiet_frame:
  assumes "callback_quiet callback" "world_inv w"
  shows "world_inv (callback c a w)" "pending (callback c a w) = pending w" "timers (callback c a w) = timers w"
  using world_inv_frame [OF assms(2), of "callback c a w"] assms(1) by (auto simp: callback_quiet_def)

lemma callback_quiet_ok: "callback_quiet callback \<Longrightarrow> callback_ok callback"
  using callback_quiet_frame by (auto simp: callback_ok_def)

lemma poll_turn_spec:
  assumes inv: "world_inv w" and n: "cur_size (timers w) \<noteq> 0"
  defines "a \<equiv> dup_entry (timer_dups (timers w) ! (heap (timers w) ! 0))"
  obtains w1 w' refs where "world_inv w1" "pending w1 = (pending w)(a := None)"
    "max_entries_per_poll (timers w1) = max_entries_per_poll (timers w)"
    "w' = w1 \<or> w' = callback (entry_cb (entries w1 a)) a w1"
    "poll_turn callback w = (w'\<lparr>grp_refs := refs\<rparr>, a, node_value (timers w) (heap (timers w) ! 0))"
proof -
  define w0 where "w0 = fst (remove_node w 0)"
  note r = remove_node_inv [OF inv, of 0, folded w0_def]
  have n0: "0 < cur_size (timers w)" using n by simp
  note r = remove_node_inv [OF inv n0, folded a_def w0_def]
  let ?k = "heap (timers w) ! 0"
  let ?d = "timer_dups (timers w0) ! ?k"
  let ?w1 = "w0\<lparr>timers := (timers w0)\<lparr>timer_dups := (timer_dups (timers w0))[?k := ?d\<lparr>dup_grp_lock := 0\<rparr>]\<rparr>\<rparr>"
  have H: "heap_inv (timers w0)" using r(1) by (simp add: world_inv_def)
  note u = dup_update_inv [OF H, of "?d\<lparr>dup_grp_lock := 0\<rparr>" ?k, simplified]
  have de: "dup_entry ((timer_dups (timers w0))[?k := ?d\<lparr>dup_grp_lock := 0\<rparr>] ! j) = dup_entry (timer_dups (timers w0) ! j)" for j
    by (cases "?k < length (timer_dups (timers w0))"; cases "j = ?k") (simp_all add: list_update_beyond)
  have w1: "world_inv ?w1" "pending ?w1 = pending w0"
    using r(1) u de by (auto simp: world_inv_def pending_def)
  have k: "?k < length (timer_dups (timers w))"
    using inv n0 nodes_range [of "timers w" ?k] by (auto simp: world_inv_def heap_inv_def nodes_def lengths_ok_def)
  have a: "dup_entry ?d = a" using k by (simp add: r(9) a_def detach_def)
  have rn: "remove_node w 0 = (w0, ?k)" using r(3) by (simp add: w0_def prod_eq_iff)
  define valid where "valid = (entry_cb (dup ?d) = entry_cb (entries ?w1 a) \<and> user_data (dup ?d) = user_data (entries ?w1 a))"
  define w' where "w' = (if valid \<and> entry_cb (entries ?w1 a) \<noteq> 0 then callback (entry_cb (entries ?w1 a)) a ?w1 else ?w1)"
  define refs where "refs = (if valid \<and> dup_grp_lock ?d \<noteq> 0 then (grp_refs w')(dup_grp_lock ?d := grp_refs w' (dup_grp_lock ?d) - 1) else grp_refs w')"
  have "poll_turn callback w = (w'\<lparr>grp_refs := refs\<rparr>, a, node_value (timers w) ?k)"
    by (simp add: poll_turn_def rn Let_def a w'_def refs_def valid_def)
  then show ?thesis
    using w1 r(2,8) by (intro that [of ?w1 w' refs]) (auto simp: w'_def)
qed

lemma poll_turn_ok:
  assumes inv: "world_inv w" and n: "cur_size (timers w) \<noteq> 0" and cb: "callback_ok callback"
  obtains w' a where "poll_turn callback w = (w', a, node_value (timers w) (heap (timers w) ! 0))"
    "world_inv w'" "max_entries_per_poll (timers w') = max_entries_per_poll (timers w)"
    "pending w a = Some (node_value (timers w) (heap (timers w) ! 0))"
    "callback_quiet callback \<Longrightarrow> pending w' = (pending w)(a := None)"
proof -
  let ?a = "dup_entry (timer_dups (timers w) ! (heap (timers w) ! 0))"
  obtain w1 w2 refs where p: "world_inv w1" "pending w1 = (pending w)(?a := None)"
    "max_entries_per_poll (timers w1) = max_entries_per_poll (timers w)"
    "w2 = w1 \<or> w2 = callback (entry_cb (entries w1 ?a)) ?a w1"
    "poll_turn callback w = (w2\<lparr>grp_refs := refs\<rparr>, ?a, node_value (timers w) (heap (timers w) ! 0))"
    using poll_turn_spec [OF inv n] .
  have w2: "world_inv w2" "max_entries_per_poll (timers w2) = max_entries_per_poll (timers w)"
    using p(1,3,4) cb by (auto simp: callback_ok_def)
  have "world_inv (w2\<lparr>grp_refs := refs\<rparr>)" "pending (w2\<lparr>grp_refs := refs\<rparr>) = pending w2"
    using world_inv_frame [OF w2(1), of "w2\<lparr>grp_refs := refs\<rparr>"] by simp_all
  moreover have "pending w2 = (pending w)(?a := None)" if "callback_quiet callback"
    using p(2,4) callback_quiet_frame [OF that p(1)] by auto
  ultimately show ?thesis
    using p(5) w2 pending_root [OF inv n] by (intro that) auto
qed

lemma poll_loop_spec:
  assumes "world_inv w" "callback_ok callback" "length fired \<le> max_entries_per_poll (timers w)"
  shows "\<exists>w' new. poll_loop callback now w fired = Some (w', fired @ new) \<and> world_inv w'
    \<and> max_entries_per_poll (timers w') = max_entries_per_poll (timers w)
    \<and> length (fired @ new) \<le> max_entries_per_poll (timers w)
    \<and> (\<forall>(a, t)\<in>set new. t \<le> now)
    \<and> (length (fired @ new) < max_entries_per_poll (timers w) \<longrightarrow> (\<forall>a t. pending w' a = Some t \<longrightarrow> now < t))
    \<and> (callback_quiet callback \<longrightarrow> sorted (map snd new) \<and> distinct (map fst new)
         \<and> (\<forall>(a, t)\<in>set new. pending w a = Some t) \<and> pending w' = pending w |` (- fst ` set new))"
  using assms
proof (induction "max_entries_per_poll (timers w) - length fired" arbitrary: w fired rule: less_induct)
  case less
  let ?root = "node_value (timers w) (heap (timers w) ! 0)"
  show ?case
  proof (cases "cur_size (timers w) \<noteq> 0 \<and> ?root \<le> now \<and> length fired < max_entries_per_poll (timers w)")
    case False
    then have "poll_loop callback now w fired = Some (w, fired)"
      by (subst poll_loop.simps) auto
    moreover have "now < t" if "pending w a = Some t" "length fired < max_entries_per_poll (timers w)" for a t
      using pending_min [OF less.prems(1) that(1)] that(2) False by auto
    ultimately show ?thesis using less.prems by (intro exI [of _ w] exI [of _ "[]"]) auto
  next
    case True
    then obtain w1 a where t: "poll_turn callback w = (w1, a, ?root)" "world_inv w1"
      "max_entries_per_poll (timers w1) = max_entries_per_poll (timers w)" "pending w a = Some ?root"
      "callback_quiet callback \<Longrightarrow> pending w1 = (pending w)(a := None)"
      using poll_turn_ok [OF less.prems(1) _ less.prems(2)] by blast
    have "\<exists>w' new. poll_loop callback now w1 (fired @ [(a, ?root)]) = Some (w', (fired @ [(a, ?root)]) @ new) \<and> world_inv w'
      \<and> max_entries_per_poll (timers w') = max_entries_per_poll (timers w1)
      \<and> length ((fired @ [(a, ?root)]) @ new) \<le> max_entries_per_poll (timers w1)
      \<and> (\<forall>(a, t)\<in>set new. t \<le> now)
      \<and> (length ((fired @ [(a, ?root)]) @ new) < max_entries_per_poll (timers w1) \<longrightarrow> (\<forall>a t. pending w' a = Some t \<longrightarrow> now < t))
      \<and> (callback_quiet callback \<longrightarrow> sorted (map snd new) \<and> distinct (map fst new)
           \<and> (\<forall>(a, t)\<in>set new. pending w1 a = Some t) \<and> pending w' = pending w1 |` (- fst ` set new))"
      by (rule less.hyps) (use True t less.prems in auto)
    then obtain w' new where n: "poll_loop callback now w1 (fired @ [(a, ?root)]) = Some (w', (fired @ [(a, ?root)]) @ new)"
      "world_inv w'" "max_entries_per_poll (timers w') = max_entries_per_poll (timers w1)"
      "length ((fired @ [(a, ?root)]) @ new) \<le> max_entries_per_poll (timers w1)"
      "\<forall>(a, t)\<in>set new. t \<le> now"
      "length ((fired @ [(a, ?root)]) @ new) < max_entries_per_poll (timers w1) \<longrightarrow> (\<forall>a t. pending w' a = Some t \<longrightarrow> now < t)"
      "callback_quiet callback \<longrightarrow> sorted (map snd new) \<and> distinct (map fst new)
           \<and> (\<forall>(a, t)\<in>set new. pending w1 a = Some t) \<and> pending w' = pending w1 |` (- fst ` set new)"
      by blast
    have loop: "poll_loop callback now w fired = Some (w', fired @ (a, ?root) # new)"
      using True t(1) n(1) by (subst poll_loop.simps) auto
    have quiet: "sorted (map snd ((a, ?root) # new)) \<and> distinct (map fst ((a, ?root) # new))
        \<and> (\<forall>(b, t)\<in>set ((a, ?root) # new). pending w b = Some t) \<and> pending w' = pending w |` (- fst ` set ((a, ?root) # new))"
      if q: "callback_quiet callback"
    proof -
      have in_w: "b \<noteq> a \<and> pending w b = Some t \<and> ?root \<le> t" if "(b, t) \<in> set new" for b t
        using n(7) q t(5) [OF q] that pending_min(2) [OF less.prems(1), of b t] by (auto split: if_splits)
      then show ?thesis
        using n(7) q t(4,5) by (fastforce simp: restrict_map_def)
    qed
    have due: "\<forall>(b, t)\<in>set ((a, ?root) # new). t \<le> now" using n(5) True by auto
    show ?thesis
    proof (intro exI conjI)
      show "poll_loop callback now w fired = Some (w', fired @ (a, ?root) # new)" by (rule loop)
      show "world_inv w'" by (rule n)
      show "max_entries_per_poll (timers w') = max_entries_per_poll (timers w)" using n(3) t(3) by simp
      show "length (fired @ (a, ?root) # new) \<le> max_entries_per_poll (timers w)" using n(4) t(3) by simp
      show "\<forall>(b, t)\<in>set ((a, ?root) # new). t \<le> now" by (rule due)
      show "length (fired @ (a, ?root) # new) < max_entries_per_poll (timers w)
        \<longrightarrow> (\<forall>b t. pending w' b = Some t \<longrightarrow> now < t)" using n(6) t(3) by simp
      show "callback_quiet callback \<longrightarrow> sorted (map snd ((a, ?root) # new)) \<and> distinct (map fst ((a, ?root) # new))
        \<and> (\<forall>(b, t)\<in>set ((a, ?root) # new). pending w b = Some t) \<and> pending w' = pending w |` (- fst ` set ((a, ?root) # new))"
        by (rule impI) (rule quiet)
    qed
  qed
qed

section \<open>The contract of a timer service\<close>

text \<open>
  What the users of the timer heap (transactions, sessions, keep-alives) rely on: an idle timer
  can be started, a running one is refused, and stopping always leaves the timer idle.
\<close>

locale timer_service =
  fixes start :: "'s \<Rightarrow> 'n \<Rightarrow> pj_time_val \<Rightarrow> 's \<times> pj_status"
    and stop :: "'s \<Rightarrow> 'n \<Rightarrow> 's \<times> int"
    and due :: "'s \<Rightarrow> 'n \<Rightarrow> pj_time_val option"
    and expiry :: "pj_time_val \<Rightarrow> pj_time_val"
    and invar :: "'s \<Rightarrow> bool"
    and usable :: "'s \<Rightarrow> 'n \<Rightarrow> bool"
  assumes start_idle: "invar s \<Longrightarrow> usable s a \<Longrightarrow> due s a = None \<Longrightarrow>
      \<exists>s'. start s a d = (s', PJ_SUCCESS) \<and> invar s' \<and> due s' = (due s)(a \<mapsto> expiry d) \<and> usable s' = usable s"
    and start_running: "invar s \<Longrightarrow> usable s a \<Longrightarrow> due s a \<noteq> None \<Longrightarrow> start s a d = (s, PJ_EINVALIDOP)"
    and stop_timer: "invar s \<Longrightarrow> \<exists>s'. stop s a = (s', if due s a = None then 0 else 1) \<and> invar s'
      \<and> due s' = (due s)(a := None) \<and> usable s' = usable s"
begin

lemma restart:
  assumes "invar s" "usable s a"
  shows "\<exists>s'. start (fst (stop s a)) a d = (s', PJ_SUCCESS) \<and> invar s' \<and> due s' = (due s)(a \<mapsto> expiry d)"
proof -
  obtain s1 where s1: "stop s a = (s1, if due s a = None then 0 else 1)" "invar s1"
    "due s1 = (due s)(a := None)" "usable s1 = usable s"
    using stop_timer [OF assms(1)] by blast
  then show ?thesis using start_idle [of s1 a d] assms(2) by auto
qed

lemma stop_once:
  assumes "invar s"
  shows "snd (stop (fst (stop s a)) a) = 0"
proof -
  obtain s1 where s1: "stop s a = (s1, if due s a = None then 0 else 1)" "invar s1" "due s1 = (due s)(a := None)"
    using stop_timer [OF assms] by blast
  then show ?thesis using stop_timer [OF s1(2), of a] by auto
qed

end

interpretation heap_timers: timer_service
  "\<lambda>w a d. pj_timer_heap_schedule_w_grp_lock junk Mem_Ok now w a d id_val g"
  "\<lambda>w a. pj_timer_heap_cancel_if_active stray beyond w a id_off"
  pending "PJ_TIME_VAL_ADD now" world_inv "\<lambda>w a. entry_cb (entries w a) \<noteq> 0"
  for junk now id_val g stray beyond id_off
proof
  fix w a d
  assume w: "world_inv w" "entry_cb (entries w a) \<noteq> 0"
  show "\<exists>s'. pj_timer_heap_schedule_w_grp_lock junk Mem_Ok now w a d id_val g = (s', PJ_SUCCESS) \<and> world_inv s'
      \<and> pending s' = (pending w)(a \<mapsto> PJ_TIME_VAL_ADD now d)
      \<and> (\<lambda>a. entry_cb (entries s' a) \<noteq> 0) = (\<lambda>a. entry_cb (entries w a) \<noteq> 0)" if i: "pending w a = None"
    unfolding pj_timer_heap_schedule_w_grp_lock_def
    by (rule schedule_spec [OF w i, of Mem_Ok junk now d "Some id_val" g]) auto
  show "pj_timer_heap_schedule_w_grp_lock junk Mem_Ok now w a d id_val g = (w, PJ_EINVALIDOP)" if "pending w a \<noteq> None"
    using running_iff [OF w(1)] w(2) that by (simp add: pj_timer_heap_schedule_w_grp_lock_def schedule_w_grp_lock_def Let_def)
next
  fix w a
  assume "world_inv w"
  then show "\<exists>s'. pj_timer_heap_cancel_if_active stray beyond w a id_off = (s', if pending w a = None then 0 else 1)
    \<and> world_inv s' \<and> pending s' = (pending w)(a := None)
    \<and> (\<lambda>a. entry_cb (entries s' a) \<noteq> 0) = (\<lambda>a. entry_cb (entries w a) \<noteq> 0)"
    unfolding pj_timer_heap_cancel_if_active_def
    by (rule cancel_timer_spec [of w stray beyond a "Some id_off"]) auto
qed

section \<open>Properties\<close>

lemma demo_world_facts: "world_inv demo_world" "pending demo_world = (\<lambda>_. None)" "entry_cb (entries demo_world a) = 1"
  by (simp_all add: demo_world_def fresh_world_inv) (simp add: fresh_world_def pj_timer_entry_init_def demo_entry_def)

text \<open>
  C29: scheduling an idle entry succeeds whenever the heap has room or can grow: the entry, and no
  other, becomes pending at the current time plus the delay, the heap keeps its order, its index
  and its free list, and the group lock gains one reference.
\<close>

theorem timer_schedule_adds:
  assumes "world_inv w" "entry_cb (entries w a) \<noteq> 0" "pending w a = None"
    and "mem = Mem_Ok \<or> cur_size (timers w) + 2 < max_size (timers w)"
  shows "\<exists>w'. pj_timer_heap_schedule_w_grp_lock junk mem now w a delay id_val g = (w', PJ_SUCCESS) \<and> world_inv w'
    \<and> pending w' = (pending w)(a \<mapsto> PJ_TIME_VAL_ADD now delay) \<and> pj_timer_entry_running (entries w' a)
    \<and> pj_timer_heap_count (timers w') = pj_timer_heap_count (timers w) + 1
    \<and> grp_refs w' = (if g = 0 then grp_refs w else (grp_refs w)(g := grp_refs w g + 1))"
proof -
  obtain w' where w': "schedule_w_grp_lock junk mem now w a delay (Some id_val) g = (w', PJ_SUCCESS)" "world_inv w'"
    "pending w' = (pending w)(a \<mapsto> PJ_TIME_VAL_ADD now delay)"
    "grp_refs w' = (if g = 0 then grp_refs w else (grp_refs w)(g := grp_refs w g + 1))"
    using schedule_spec [OF assms] by metis
  have "pj_timer_entry_running (entries w' a)" using running_iff [OF w'(2)] w'(3) by simp
  moreover have "cur_size (timers w') = cur_size (timers w) + 1"
    using pending_card [OF w'(2)] pending_card [OF assms(1)] w'(3) assms(3) by (simp add: domIff)
  ultimately show ?thesis
    using w' by (simp add: pj_timer_heap_schedule_w_grp_lock_def pj_timer_heap_count_def)
qed

theorem timer_schedule_adds_witness:
  "\<exists>w'. pj_timer_heap_schedule_w_grp_lock demo_junk Mem_Ok (Time_Val 5 900) demo_world 3 (Time_Val 0 500) 1 0 = (w', PJ_SUCCESS)
    \<and> pending w' 3 = Some (Time_Val 6 400)"
proof -
  have "PJ_TIME_VAL_ADD (Time_Val 5 900) (Time_Val 0 500) = Time_Val 6 400" by code_simp
  then show ?thesis
    using timer_schedule_adds [of demo_world 3 Mem_Ok demo_junk "Time_Val 5 900" "Time_Val 0 500" 1 0] demo_world_facts
    by auto
qed

text \<open>
  C30: cancelling removes exactly the given entry from the pending timers and reports 1, or
  reports 0 and changes nothing when the entry is idle. The outcome does not depend on the words
  that the code may fetch outside its arrays before the id is validated.
\<close>

theorem timer_cancel_removes:
  assumes "world_inv w"
  shows "\<exists>w'. (\<forall>stray beyond. pj_timer_heap_cancel stray beyond w a = (w', if pending w a = None then 0 else 1))
    \<and> world_inv w' \<and> pending w' = (pending w)(a := None) \<and> \<not> pj_timer_entry_running (entries w' a)
    \<and> (pending w a = None \<longrightarrow> w' = w)"
proof -
  obtain w' where w': "cancel_timer 0 0 w a None = (w', if pending w a = None then 0 else 1)" "world_inv w'"
    "pending w' = (pending w)(a := None)" "\<And>s b. cancel_timer s b w a None = cancel_timer 0 0 w a None"
    using cancel_timer_spec [OF assms, of 0 0 a None] by metis
  have "\<not> pj_timer_entry_running (entries w' a)" using running_iff [OF w'(2)] w'(3) by simp
  moreover have "w' = w" if "pending w a = None"
    using cancel_spec(1) [OF assms that] w'(1) that by (simp add: cancel_timer_def Let_def)
  ultimately show ?thesis
    using w' by (intro exI [of _ w']) (simp add: pj_timer_heap_cancel_def)
qed

theorem timer_cancel_removes_witness:
  "\<exists>w'. (\<forall>stray beyond. pj_timer_heap_cancel stray beyond demo_world 4 = (w', 0)) \<and> w' = demo_world"
  using timer_cancel_removes [OF demo_world_facts(1), of 4] demo_world_facts(2) by auto

text \<open>
  C31: a poll always returns when its callbacks keep the heap consistent and do not change the
  limit per poll. It runs at most that many timers, none before its time, and if it stops short
  of the limit no timer that is still pending is due.
\<close>

theorem timer_poll_returns:
  assumes "world_inv w" and "callback_ok callback"
  shows "\<exists>w' fired next_delay. pj_timer_heap_poll callback now w = Some (w', fired, next_delay) \<and> world_inv w'
    \<and> length fired \<le> max_entries_per_poll (timers w) \<and> (\<forall>(a, t)\<in>set fired. t \<le> now)
    \<and> (length fired < max_entries_per_poll (timers w) \<longrightarrow> (\<forall>a t. pending w' a = Some t \<longrightarrow> now < t))"
proof (cases "cur_size (timers w) = 0")
  case True
  then have "pending w a = None" for a
    using pending_min(1) [OF assms(1), of a] by (cases "pending w a") auto
  then show ?thesis using True assms(1) by (simp add: pj_timer_heap_poll_def)
next
  case False
  then show ?thesis
    using poll_loop_spec [OF assms, of "[]" now] by (auto simp: pj_timer_heap_poll_def)
qed

theorem timer_poll_returns_witness:
  "\<exists>w' fired next_delay. pj_timer_heap_poll (\<lambda>c a w. w) (Time_Val 9 0) demo_world = Some (w', fired, next_delay)
    \<and> world_inv w'"
proof -
  have "callback_ok (\<lambda>c a w. w)" by (simp add: callback_ok_def)
  then show ?thesis using timer_poll_returns [OF demo_world_facts(1), of "\<lambda>c a w. w" "Time_Val 9 0"] by blast
qed



text \<open>
  Stopping a timer and starting it again succeeds in every state and leaves it pending at
  the new time only.
\<close>

theorem timer_restart:
  assumes "world_inv w" "entry_cb (entries w a) \<noteq> 0"
  shows "\<exists>w'. pj_timer_heap_schedule_w_grp_lock junk Mem_Ok now
        (fst (pj_timer_heap_cancel_if_active stray beyond w a id_off)) a delay id_val g = (w', PJ_SUCCESS)
    \<and> world_inv w' \<and> pending w' = (pending w)(a \<mapsto> PJ_TIME_VAL_ADD now delay)"
  by (rule heap_timers.restart [OF assms])

theorem timer_restart_witness:
  "\<exists>w'. pj_timer_heap_schedule_w_grp_lock demo_junk Mem_Ok (Time_Val 1 0)
        (fst (pj_timer_heap_cancel_if_active 0 0 demo_world 3 0)) 3 (Time_Val 2 0) 1 0 = (w', PJ_SUCCESS)"
  using timer_restart [OF demo_world_facts(1), of 3 demo_junk "Time_Val 1 0" 0 0 0 "Time_Val 2 0" 1 0]
    demo_world_facts(3) by auto

text \<open>
  When the heap is full and cannot grow, scheduling fails with \<^verbatim>\<open>PJ_ENOMEM\<close> but the entry keeps
  the id that was taken from the free list: it counts as running although it is not in the heap,
  and every later attempt to schedule it is refused.
\<close>

theorem timer_enomem_entry_running:
  assumes "world_inv w" "entry_cb (entries w a) \<noteq> 0" "pending w a = None"
    and "mem \<noteq> Mem_Ok" "max_size (timers w) \<le> cur_size (timers w) + 2"
  shows "\<exists>w'. pj_timer_heap_schedule junk mem now w a delay = (w', PJ_ENOMEM)
    \<and> pj_timer_entry_running (entries w' a) \<and> pj_timer_heap_count (timers w') = pj_timer_heap_count (timers w)
    \<and> pj_timer_heap_schedule junk Mem_Ok now w' a delay = (w', PJ_EINVALIDOP)"
proof -
  have H: "heap_inv (timers w)" using assms(1) by (simp add: world_inv_def)
  obtain x where x: "pop_freelist (timers w) = ((timers w)\<lparr>timer_ids_freelist := - (timer_ids (timers w) ! x)\<rparr>, int x)"
    "popped ((timers w)\<lparr>timer_ids_freelist := - (timer_ids (timers w) ! x)\<rparr>) x"
    using pop_popped [OF H] .
  let ?h1 = "(timers w)\<lparr>timer_ids_freelist := - (timer_ids (timers w) ! x)\<rparr>"
  obtain h2 where g: "grow_heap junk mem ?h1 = (h2, PJ_ENOMEM)" "cur_size h2 = cur_size (timers w)"
    using assms(4) by (cases mem) (auto simp: grow_heap_def Let_def)
  have cur: "cur_size (timers w) < max_size (timers w)" using H by (simp add: heap_inv_def lengths_ok_def)
  let ?w = "w\<lparr>timers := h2, entries := (entries w)(a := (entries w a)\<lparr>timer_id := int x\<rparr>)\<rparr>"
  have "schedule_entry junk mem w a t = (?w, PJ_ENOMEM)" for t
    using cur assms(5) g by (simp add: schedule_entry_def x(1) insert_node_def Let_def)
  moreover have "\<not> pj_timer_entry_running (entries w a)" using running_iff [OF assms(1)] assms(3) by simp
  moreover have "1 \<le> x" using x(2) by (simp add: popped_def)
  ultimately show ?thesis
    using assms(2) g(2)
    by (simp add: pj_timer_heap_schedule_def schedule_w_grp_lock_def Let_def pj_timer_entry_running_def pj_timer_heap_count_def)
qed

theorem timer_enomem_entry_running_witness:
  "\<exists>w'. pj_timer_heap_schedule demo_junk No_Heap (Time_Val 0 0) (fresh_world demo_junk 0 demo_entry) 3 (Time_Val 1 0) = (w', PJ_ENOMEM)
    \<and> pj_timer_entry_running (entries w' 3)"
proof -
  have "entry_cb (entries (fresh_world demo_junk 0 demo_entry) 3) \<noteq> 0"
    "max_size (timers (fresh_world demo_junk 0 demo_entry)) \<le> cur_size (timers (fresh_world demo_junk 0 demo_entry)) + 2"
    by (simp_all add: fresh_world_def pj_timer_entry_init_def demo_entry_def pj_timer_heap_create_def Let_def)
  then show ?thesis
    using timer_enomem_entry_running [OF fresh_world_inv(1) [of demo_junk 0 demo_entry], of 3 No_Heap demo_junk "Time_Val 0 0" "Time_Val 1 0"]
      fresh_world_inv(2) by auto
qed

end
