(* ===== verification/Tsx.thy ===== *)
theory Tsx
  imports Tsx_Key Timer_Heap
begin

text \<open>
  Model of a SIP transaction of \<^verbatim>\<open>pjsip/src/pjsip/sip_transaction.c\<close>: its two timers, its transport,
  the state changes with the notification of the transaction user, the sending of messages with
  the callbacks of the transport layer, and one handler per state.

  A transaction is a record; next to the fields of \<^verbatim>\<open>pjsip_transaction\<close> it carries the layer's table
  and module id, which a transaction changes when it unregisters, and the reference counts it
  holds on its group lock, on messages and on transports. The flags of
  \<^verbatim>\<open>transport_flag\<close> are separate fields. Code outside this file is an argument, the environment:
  what the transports and the transaction user do when they are called, possibly calling back
  into the transaction, is an arbitrary change of the record. Debug assertions (\<^verbatim>\<open>pj_assert\<close>) are
  compiled out, as in a release build; \<^verbatim>\<open>PJ_ASSERT_RETURN\<close> returns. Locks are not modelled: each
  operation is one critical section. Destination addresses and the
  transport selectors of messages are not modelled.
\<close>

section \<open>Data\<close>

datatype pjsip_tsx_state_e =
    PJSIP_TSX_STATE_NULL | PJSIP_TSX_STATE_CALLING | PJSIP_TSX_STATE_TRYING
  | PJSIP_TSX_STATE_PROCEEDING | PJSIP_TSX_STATE_COMPLETED | PJSIP_TSX_STATE_CONFIRMED
  | PJSIP_TSX_STATE_TERMINATED | PJSIP_TSX_STATE_DESTROYED

primrec state_num :: "pjsip_tsx_state_e \<Rightarrow> nat" where
  "state_num PJSIP_TSX_STATE_NULL = 0"
| "state_num PJSIP_TSX_STATE_CALLING = 1"
| "state_num PJSIP_TSX_STATE_TRYING = 2"
| "state_num PJSIP_TSX_STATE_PROCEEDING = 3"
| "state_num PJSIP_TSX_STATE_COMPLETED = 4"
| "state_num PJSIP_TSX_STATE_CONFIRMED = 5"
| "state_num PJSIP_TSX_STATE_TERMINATED = 6"
| "state_num PJSIP_TSX_STATE_DESTROYED = 7"

instantiation pjsip_tsx_state_e :: linorder
begin

definition less_eq_pjsip_tsx_state_e :: "pjsip_tsx_state_e \<Rightarrow> pjsip_tsx_state_e \<Rightarrow> bool" where
  "less_eq_pjsip_tsx_state_e a b \<longleftrightarrow> state_num a \<le> state_num b"

definition less_pjsip_tsx_state_e :: "pjsip_tsx_state_e \<Rightarrow> pjsip_tsx_state_e \<Rightarrow> bool" where
  "less_pjsip_tsx_state_e a b \<longleftrightarrow> state_num a < state_num b"

instance
proof
  fix a b c :: pjsip_tsx_state_e
  show "a \<le> b \<Longrightarrow> b \<le> a \<Longrightarrow> a = b"
    by (cases a; cases b) (simp_all add: less_eq_pjsip_tsx_state_e_def)
qed (auto simp: less_eq_pjsip_tsx_state_e_def less_pjsip_tsx_state_e_def)

end

text \<open>The handlers that \<^verbatim>\<open>state_handler\<close> can point to.\<close>

datatype tsx_handler =
    On_Null | On_Calling | On_Trying | On_Proceeding_Uas | On_Proceeding_Uac
  | On_Completed_Uas | On_Completed_Uac | On_Confirmed | On_Terminated | On_Destroyed

datatype tsx_timer_e = Retransmit_Timer | Timeout_Timer

record tsx_timer =
  tm_id :: int
  tm_running :: bool
  tm_delay :: pj_time_val

definition TIMER_INACTIVE :: int where "TIMER_INACTIVE = 0"
definition RETRANSMIT_TIMER :: int where "RETRANSMIT_TIMER = 1"
definition TIMEOUT_TIMER :: int where "TIMEOUT_TIMER = 2"
definition TRANSPORT_ERR_TIMER :: int where "TRANSPORT_ERR_TIMER = 3"

definition PJSIP_TSX_1XX_RETRANS_DELAY :: nat where "PJSIP_TSX_1XX_RETRANS_DELAY = 60"

text \<open>Events: what a handler receives, and what a state change reports as its source.\<close>

datatype tsx_event =
    Ev_Timer tsx_timer_e
  | Ev_Tx_Msg tx_data
  | Ev_Rx_Msg rx_data
  | Ev_Transport_Error
  | Ev_User
  | Ev_Unknown

text \<open>The transport selector: none, a transport or a listener (each possibly null), or an address family.\<close>

datatype pjsip_tpselector =
    PJSIP_TPSELECTOR_NONE
  | PJSIP_TPSELECTOR_TRANSPORT "nat option"
  | PJSIP_TPSELECTOR_LISTENER "nat option"
  | PJSIP_TPSELECTOR_IP_VER int

record tsx =
  self :: nat
  tsx_user :: bool
  user_on_tsx_state :: bool
  user_on_rx_response :: bool
  terminating :: bool
  lock_refs :: int
  role :: pjsip_role_e
  tsx_method :: pjsip_method
  tsx_cseq :: int
  transaction_key :: bytes
  hashed_key :: u32
  tsx_branch :: bytes
  status_code :: int
  status_text :: string
  state :: pjsip_tsx_state_e
  handle_200resp :: int
  state_handler :: "tsx_handler option"
  transport :: "nat option"
  is_reliable :: bool
  res_transport :: "nat option"
  has_pending_transport :: bool
  has_pending_resched :: bool
  has_pending_send :: bool
  has_pending_destroy :: bool
  has_resolved_server :: bool
  transport_err :: pj_status
  pending_tx :: "tx_data option"
  last_tx :: "tx_data option"
  retransmit_count :: nat
  retransmit_timer :: tsx_timer
  timeout_timer :: tsx_timer
  tx_refs :: "nat \<Rightarrow> int"
  attached :: "nat list"
  tp_refs :: "nat \<Rightarrow> int"
  tp_sel :: pjsip_tpselector
  tu_log :: "(pjsip_tsx_state_e \<times> tsx_event) list"
  htable :: "nat hash_table"
  mod_id :: int

text \<open>
  The environment: the timer values of the configuration in milliseconds, the transport layer,
  the callbacks of the transaction user, the creation of an ACK, the properties of transports and
  the texts of error codes. \<^verbatim>\<open>tu_log\<close> records every call of \<^verbatim>\<open>on_tsx_state\<close>.
\<close>

record tsx_env =
  cfg_t1 :: u32
  cfg_t2 :: u32
  cfg_t4 :: u32
  cfg_td :: u32
  transport_send :: "nat \<Rightarrow> tx_data \<Rightarrow> tsx \<Rightarrow> tsx \<times> pj_status"
  send_request_stateless :: "tx_data \<Rightarrow> tsx \<Rightarrow> tsx \<times> pj_status"
  send_response :: "tx_data \<Rightarrow> tsx \<Rightarrow> tsx \<times> pj_status"
  on_tsx_state :: "pjsip_tsx_state_e \<Rightarrow> tsx_event \<Rightarrow> tsx \<Rightarrow> tsx"
  on_rx_response :: "rx_data \<Rightarrow> tsx \<Rightarrow> tsx"
  endpt_create_ack :: "tx_data option \<Rightarrow> rx_data \<Rightarrow> pj_status + tx_data"
  tp_is_reliable :: "nat \<Rightarrow> bool"
  tp_is_shutdown :: "nat \<Rightarrow> bool"
  strerror :: "pj_status \<Rightarrow> string"

text \<open>The timer values, as \<^verbatim>\<open>pjsip_tsx_layer_init_module\<close> computes them from the configuration.\<close>

definition timer_val :: "u32 \<Rightarrow> pj_time_val" where
  "timer_val ms = Time_Val (uint (ms div 1000)) (uint (ms mod 1000))"

definition t1_timer_val :: "tsx_env \<Rightarrow> pj_time_val" where "t1_timer_val env = timer_val (cfg_t1 env)"
definition t2_timer_val :: "tsx_env \<Rightarrow> pj_time_val" where "t2_timer_val env = timer_val (cfg_t2 env)"
definition t4_timer_val :: "tsx_env \<Rightarrow> pj_time_val" where "t4_timer_val env = timer_val (cfg_t4 env)"
definition td_timer_val :: "tsx_env \<Rightarrow> pj_time_val" where "td_timer_val env = timer_val (cfg_td env)"
definition timeout_timer_val :: "tsx_env \<Rightarrow> pj_time_val" where "timeout_timer_val env = td_timer_val env"

definition tsx_state_handler_uac :: "pjsip_tsx_state_e \<Rightarrow> tsx_handler option" where
  "tsx_state_handler_uac st = (case st of
     PJSIP_TSX_STATE_NULL \<Rightarrow> Some On_Null
   | PJSIP_TSX_STATE_CALLING \<Rightarrow> Some On_Calling
   | PJSIP_TSX_STATE_TRYING \<Rightarrow> None
   | PJSIP_TSX_STATE_PROCEEDING \<Rightarrow> Some On_Proceeding_Uac
   | PJSIP_TSX_STATE_COMPLETED \<Rightarrow> Some On_Completed_Uac
   | PJSIP_TSX_STATE_CONFIRMED \<Rightarrow> Some On_Confirmed
   | PJSIP_TSX_STATE_TERMINATED \<Rightarrow> Some On_Terminated
   | PJSIP_TSX_STATE_DESTROYED \<Rightarrow> Some On_Destroyed)"

definition tsx_state_handler_uas :: "pjsip_tsx_state_e \<Rightarrow> tsx_handler option" where
  "tsx_state_handler_uas st = (case st of
     PJSIP_TSX_STATE_NULL \<Rightarrow> Some On_Null
   | PJSIP_TSX_STATE_CALLING \<Rightarrow> None
   | PJSIP_TSX_STATE_TRYING \<Rightarrow> Some On_Trying
   | PJSIP_TSX_STATE_PROCEEDING \<Rightarrow> Some On_Proceeding_Uas
   | PJSIP_TSX_STATE_COMPLETED \<Rightarrow> Some On_Completed_Uas
   | PJSIP_TSX_STATE_CONFIRMED \<Rightarrow> Some On_Confirmed
   | PJSIP_TSX_STATE_TERMINATED \<Rightarrow> Some On_Terminated
   | PJSIP_TSX_STATE_DESTROYED \<Rightarrow> Some On_Destroyed)"

abbreviation is_invite :: "tsx \<Rightarrow> bool" where
  "is_invite t \<equiv> method_id (tsx_method t) = PJSIP_INVITE_METHOD"

section \<open>Reference counts\<close>

definition grp_lock_add_ref :: "tsx \<Rightarrow> tsx" where
  "grp_lock_add_ref t = t\<lparr>lock_refs := lock_refs t + 1\<rparr>"

definition grp_lock_dec_ref :: "tsx \<Rightarrow> tsx" where
  "grp_lock_dec_ref t = t\<lparr>lock_refs := lock_refs t - 1\<rparr>"

definition tx_data_add_ref :: "tx_data \<Rightarrow> tsx \<Rightarrow> tsx" where
  "tx_data_add_ref d t = t\<lparr>tx_refs := (tx_refs t)(td_addr d := tx_refs t (td_addr d) + 1)\<rparr>"

definition tx_data_dec_ref :: "tx_data \<Rightarrow> tsx \<Rightarrow> tsx" where
  "tx_data_dec_ref d t = t\<lparr>tx_refs := (tx_refs t)(td_addr d := tx_refs t (td_addr d) - 1)\<rparr>"

text \<open>The entry of the transaction layer in \<^verbatim>\<open>tdata->mod_data\<close>.\<close>

definition attach_tx :: "tx_data \<Rightarrow> tsx \<Rightarrow> tsx" where
  "attach_tx d t = t\<lparr>attached := td_addr d # removeAll (td_addr d) (attached t)\<rparr>"

definition detach_tx :: "tx_data \<Rightarrow> tsx \<Rightarrow> tsx" where
  "detach_tx d t = t\<lparr>attached := removeAll (td_addr d) (attached t)\<rparr>"

text \<open>The reference that the selector of the transaction holds on its transport.\<close>

definition pjsip_tpselector_add_ref :: "tsx \<Rightarrow> tsx" where
  "pjsip_tpselector_add_ref t =
     (case tp_sel t of
        PJSIP_TPSELECTOR_TRANSPORT (Some tp) \<Rightarrow> t\<lparr>tp_refs := (tp_refs t)(tp := tp_refs t tp + 1)\<rparr>
      | _ \<Rightarrow> t)"

definition pjsip_tpselector_dec_ref :: "tsx \<Rightarrow> tsx" where
  "pjsip_tpselector_dec_ref t =
     (case tp_sel t of
        PJSIP_TPSELECTOR_TRANSPORT (Some tp) \<Rightarrow> t\<lparr>tp_refs := (tp_refs t)(tp := tp_refs t tp - 1)\<rparr>
      | _ \<Rightarrow> t)"

section \<open>Timers\<close>

definition get_timer :: "tsx_timer_e \<Rightarrow> tsx \<Rightarrow> tsx_timer" where
  "get_timer e t = (case e of Retransmit_Timer \<Rightarrow> retransmit_timer t | Timeout_Timer \<Rightarrow> timeout_timer t)"

definition set_timer :: "tsx_timer_e \<Rightarrow> tsx_timer \<Rightarrow> tsx \<Rightarrow> tsx" where
  "set_timer e tm t = (case e of
     Retransmit_Timer \<Rightarrow> t\<lparr>retransmit_timer := tm\<rparr> | Timeout_Timer \<Rightarrow> t\<lparr>timeout_timer := tm\<rparr>)"

text \<open>
  The two operations rest on the contract of the timer heap: starting a running timer is refused,
  starting an idle one sets its id and takes a reference on the group lock, cancelling a running
  one gives the reference back.
\<close>

definition tsx_schedule_timer :: "tsx_timer_e \<Rightarrow> pj_time_val \<Rightarrow> int \<Rightarrow> tsx \<Rightarrow> tsx \<times> pj_status" where
  "tsx_schedule_timer e delay active_id t =
     (if tm_running (get_timer e t) then (t, PJ_EINVALIDOP)
      else (grp_lock_add_ref (set_timer e \<lparr>tm_id = active_id, tm_running = True, tm_delay = delay\<rparr> t), PJ_SUCCESS))"

definition tsx_cancel_timer :: "tsx_timer_e \<Rightarrow> tsx \<Rightarrow> tsx \<times> int" where
  "tsx_cancel_timer e t =
     (if tm_running (get_timer e t)
      then (grp_lock_dec_ref (set_timer e ((get_timer e t)\<lparr>tm_id := TIMER_INACTIVE, tm_running := False\<rparr>) t), 1)
      else (t, 0))"

abbreviation schedule :: "tsx_timer_e \<Rightarrow> pj_time_val \<Rightarrow> int \<Rightarrow> tsx \<Rightarrow> tsx" where
  "schedule e delay active_id t \<equiv> fst (tsx_schedule_timer e delay active_id t)"

abbreviation unschedule :: "tsx_timer_e \<Rightarrow> tsx \<Rightarrow> tsx" where
  "unschedule e t \<equiv> fst (tsx_cancel_timer e t)"

section \<open>Transport\<close>

text \<open>\<^verbatim>\<open>tsx_tp_state_callback\<close> for a transport that was disconnected with the given status.\<close>

definition tsx_tp_state_callback :: "pj_status \<Rightarrow> tsx \<Rightarrow> tsx" where
  "tsx_tp_state_callback status t =
     (let t = t\<lparr>transport_err := status\<rparr>
      in if state t < PJSIP_TSX_STATE_COMPLETED
         then schedule Timeout_Timer (Time_Val 0 0) TRANSPORT_ERR_TIMER (unschedule Timeout_Timer t)
         else t)"

definition tsx_update_transport :: "tsx_env \<Rightarrow> nat option \<Rightarrow> tsx \<Rightarrow> tsx" where
  "tsx_update_transport env tp t =
     (let t = (case transport t of
                 Some old \<Rightarrow> t\<lparr>tp_refs := (tp_refs t)(old := tp_refs t old - 1), transport := None\<rparr>
               | None \<Rightarrow> t)
      in case tp of
           None \<Rightarrow> t
         | Some new \<Rightarrow>
             let t = t\<lparr>transport := Some new, tp_refs := (tp_refs t)(new := tp_refs t new + 1)\<rparr>
             in if tp_is_shutdown env new
                then tsx_tp_state_callback (PJ_STATUS PJSIP_SC_TSX_TRANSPORT_ERROR) t else t)"

section \<open>State changes\<close>

definition tsx_shutdown :: "tsx_env \<Rightarrow> tsx \<Rightarrow> tsx" where
  "tsx_shutdown env t =
     (let t = tsx_update_transport env None t;
          t = (if \<not> terminating t then pjsip_tpselector_dec_ref t else t);
          t = (case last_tx t of Some d \<Rightarrow> (tx_data_dec_ref d t)\<lparr>last_tx := None\<rparr> | None \<Rightarrow> t);
          t = unschedule Timeout_Timer t;
          t = unschedule Retransmit_Timer t;
          t = t\<lparr>has_pending_resched := False, has_pending_send := False\<rparr>;
          t = (if has_pending_transport t then t\<lparr>has_pending_destroy := True, tsx_user := False\<rparr> else t)
      in if \<not> terminating t then grp_lock_dec_ref (t\<lparr>terminating := True\<rparr>) else t)"

definition tsx_set_status_code :: "int \<Rightarrow> string option \<Rightarrow> tsx \<Rightarrow> tsx" where
  "tsx_set_status_code code reason t =
     t\<lparr>status_code := code,
       status_text := (case reason of Some r \<Rightarrow> r | None \<Rightarrow> pjsip_get_status_text code)\<rparr>"

definition mod_tsx_layer_unregister_tsx :: "tsx \<Rightarrow> tsx" where
  "mod_tsx_layer_unregister_tsx t =
     (if mod_id t = - 1 then t
      else case pj_hash_set_lower False (htable t) (transaction_key t) (of_nat (length (transaction_key t)))
                  (hashed_key t) None of
             Some ht \<Rightarrow> t\<lparr>htable := ht\<rparr>
           | None \<Rightarrow> t)"

text \<open>Calling \<^verbatim>\<open>on_tsx_state\<close> of the transaction user.\<close>

definition notify_tu :: "tsx_env \<Rightarrow> pjsip_tsx_state_e \<Rightarrow> tsx_event \<Rightarrow> tsx \<Rightarrow> tsx" where
  "notify_tu env prev_state src t =
     (if tsx_user t \<and> user_on_tsx_state t
      then on_tsx_state env prev_state src (t\<lparr>tu_log := tu_log t @ [(state t, src)]\<rparr>) else t)"

text \<open>\<^verbatim>\<open>tsx_set_state\<close> with the flags \<^verbatim>\<open>NO_NOTIFY\<close> and \<^verbatim>\<open>NO_SCHEDULE_HANDLER\<close>.\<close>

definition set_state_notify :: "tsx_env \<Rightarrow> pjsip_tsx_state_e \<Rightarrow> tsx_event \<Rightarrow> bool \<Rightarrow> tsx \<Rightarrow> tsx" where
  "set_state_notify env prev_state src no_notify t =
     (if no_notify then t
      else
        let t = (case src of
                   Ev_Rx_Msg rdata \<Rightarrow>
                     if tsx_user t \<and> \<not> rx_is_request rdata \<and> user_on_rx_response t
                     then on_rx_response env rdata t else t
                 | _ \<Rightarrow> t)
        in notify_tu env prev_state src t)"

definition set_state_terminated :: "bool \<Rightarrow> tsx \<Rightarrow> tsx" where
  "set_state_terminated no_schedule t =
     (let t = (if has_pending_transport t then
                 let t = (case pending_tx t of
                            Some d \<Rightarrow> (detach_tx d t)\<lparr>pending_tx := None\<rparr> | None \<Rightarrow> t)
                 in t\<lparr>has_pending_transport := False\<rparr>
               else t);
          t = unschedule Timeout_Timer t
      in if no_schedule then t else schedule Timeout_Timer (Time_Val 0 0) TIMEOUT_TIMER t)"

definition tsx_set_state :: "tsx_env \<Rightarrow> pjsip_tsx_state_e \<Rightarrow> tsx_event \<Rightarrow> bool \<Rightarrow> bool \<Rightarrow> tsx \<Rightarrow> tsx" where
  "tsx_set_state env st src no_notify no_schedule t =
     (let prev_state = state t;
          t = t\<lparr>state := st,
                state_handler := (if role t = PJSIP_ROLE_UAC then tsx_state_handler_uac st
                                  else tsx_state_handler_uas st)\<rparr>;
          t = set_state_notify env prev_state src no_notify t
      in if st = PJSIP_TSX_STATE_TERMINATED then set_state_terminated no_schedule t
         else if st = PJSIP_TSX_STATE_DESTROYED then tsx_shutdown env (mod_tsx_layer_unregister_tsx t)
         else t)"

abbreviation set_state :: "tsx_env \<Rightarrow> pjsip_tsx_state_e \<Rightarrow> tsx_event \<Rightarrow> tsx \<Rightarrow> tsx" where
  "set_state env st src t \<equiv> tsx_set_state env st src False False t"

section \<open>Sending\<close>

text \<open>
  The last part of \<^verbatim>\<open>tsx_send_msg\<close>: there is no transport, or it failed with the given status.
\<close>

definition send_resolve :: "tsx_env \<Rightarrow> tx_data \<Rightarrow> pj_status \<Rightarrow> tsx \<Rightarrow> tsx \<times> pj_status" where
  "send_resolve env tdata status t =
     (if has_resolved_server t then
        let status = (if status = PJ_SUCCESS then PJ_EUNKNOWN else status);
            t = tsx_set_status_code PJSIP_SC_TSX_TRANSPORT_ERROR (Some (strerror env status)) t
        in (set_state env PJSIP_TSX_STATE_TERMINATED Ev_Transport_Error t, status)
      else
        let t = tx_data_add_ref tdata t;
            t = (attach_tx tdata t)\<lparr>pending_tx := Some tdata\<rparr>;
            t = grp_lock_add_ref t;
            t = t\<lparr>has_pending_transport := True\<rparr>;
            (t, status) = (if td_is_request tdata then send_request_stateless env tdata t
                           else send_response env tdata t);
            status = (if status = PJ_EPENDING then PJ_SUCCESS else status);
            t = (if status \<noteq> PJ_SUCCESS then
                   let t = (if td_is_request tdata then grp_lock_dec_ref t else t);
                       t = tx_data_dec_ref tdata t
                   in (detach_tx tdata t)\<lparr>pending_tx := None\<rparr>
                 else t)
        in (t, if status = PJ_SUCCESS \<and> state t = PJSIP_TSX_STATE_TERMINATED then transport_err t else status))"

definition tsx_send_msg :: "tsx_env \<Rightarrow> tx_data option \<Rightarrow> tsx \<Rightarrow> tsx \<times> pj_status" where
  "tsx_send_msg env tdata_opt t =
     (case tdata_opt of
        None \<Rightarrow> (t, PJ_EINVAL)
      | Some tdata \<Rightarrow>
          if has_pending_transport t then (t\<lparr>has_pending_send := True\<rparr>, PJ_SUCCESS)
          else if td_is_pending tdata then (t, PJ_SUCCESS)
          else
            (case transport t of
               Some tp \<Rightarrow>
                 let t = (grp_lock_add_ref t)\<lparr>has_pending_transport := True\<rparr>;
                     (t, status) = transport_send env tp tdata t;
                     (t, status) = (if status = PJ_EPENDING then (t, PJ_SUCCESS)
                                    else (grp_lock_dec_ref (t\<lparr>has_pending_transport := False\<rparr>), status))
                 in if status \<noteq> PJ_SUCCESS
                    then send_resolve env tdata status ((tsx_update_transport env None t)\<lparr>res_transport := None\<rparr>)
                    else (t, PJ_SUCCESS)
             | None \<Rightarrow> send_resolve env tdata PJ_SUCCESS t))"

section \<open>Retransmission\<close>

text \<open>
  The interval is computed in 32 bits; the shift \<^verbatim>\<open>1 << retransmit_count\<close> is an \<^verbatim>\<open>int\<close> in the code and
  undefined from 31 on.
\<close>

definition retransmit_msec :: "tsx_env \<Rightarrow> tsx \<Rightarrow> u32" where
  "retransmit_msec env t =
     (let msec_time = (if role t = PJSIP_ROLE_UAC \<and> status_code t \<ge> 100 then cfg_t2 env
                       else push_bit (retransmit_count t) 1 * cfg_t1 env)
      in if role t = PJSIP_ROLE_UAC then
           (if msec_time > cfg_t2 env \<and> \<not> is_invite t then cfg_t2 env else msec_time)
         else if status_code t < 200 then of_nat (PJSIP_TSX_1XX_RETRANS_DELAY * 1000)
         else if msec_time > cfg_t2 env then cfg_t2 env else msec_time)"

definition tsx_resched_retransmission :: "tsx_env \<Rightarrow> tsx \<Rightarrow> tsx" where
  "tsx_resched_retransmission env t =
     (let msec_time = retransmit_msec env t
      in if msec_time \<noteq> 0 then schedule Retransmit_Timer (timer_val msec_time) RETRANSMIT_TIMER t else t)"

definition tsx_retransmit :: "tsx_env \<Rightarrow> bool \<Rightarrow> tsx \<Rightarrow> tsx \<times> pj_status" where
  "tsx_retransmit env resched t =
     (if resched \<and> tm_running (retransmit_timer t) then (t, PJ_SUCCESS)
      else if last_tx t = None then (t, PJ_EBUG)
      else
        let t = t\<lparr>retransmit_count := retransmit_count t + 1\<rparr>;
            t = (if resched then
                   (if has_pending_transport t then t\<lparr>has_pending_resched := True\<rparr>
                    else tsx_resched_retransmission env t)
                 else t)
        in tsx_send_msg env (last_tx t) t)"

text \<open>Starting the retransmission timer, or leaving it to the pending transport.\<close>

definition start_retransmission :: "pj_time_val \<Rightarrow> tsx \<Rightarrow> tsx" where
  "start_retransmission delay t =
     (let t = t\<lparr>retransmit_count := 0\<rparr>
      in if has_pending_transport t then t\<lparr>has_pending_resched := True\<rparr>
         else schedule Retransmit_Timer delay RETRANSMIT_TIMER t)"

section \<open>Callbacks of the transport layer\<close>

text \<open>The outcome of a transmission: octets sent, or the negated status.\<close>

datatype send_result = Sent | Send_Failed pj_status

definition send_msg_success :: "tsx_env \<Rightarrow> nat option \<Rightarrow> tsx \<Rightarrow> tsx" where
  "send_msg_success env cur_transport t =
     (let t = (if transport t \<noteq> cur_transport then
                 let t = tsx_update_transport env cur_transport t
                 in t\<lparr>is_reliable := (case transport t of Some tp \<Rightarrow> tp_is_reliable env tp | None \<Rightarrow> False)\<rparr>
               else t);
          t = t\<lparr>has_pending_transport := False, has_resolved_server := True\<rparr>
      in if has_pending_destroy t then set_state env PJSIP_TSX_STATE_DESTROYED Ev_Unknown t
         else
           let t = (if has_pending_send t
                    then fst (tsx_send_msg env (last_tx t) (t\<lparr>has_pending_send := False\<rparr>)) else t)
           in if has_pending_resched t \<and> \<not> has_pending_transport t then
                let t = t\<lparr>has_pending_resched := False\<rparr>
                in if \<not> is_reliable t then tsx_resched_retransmission env t else t
              else t)"

definition send_msg_failed :: "tsx_env \<Rightarrow> tx_data \<Rightarrow> pj_status \<Rightarrow> tsx \<Rightarrow> tsx" where
  "send_msg_failed env tdata err t =
     (let t = t\<lparr>transport_err := err, has_pending_transport := False, has_resolved_server := True\<rparr>;
          sc = (if err = PJ_ERESOLVE \<or> err = PJLIB_UTIL_EDNS_NXDOMAIN then PJSIP_SC_BAD_GATEWAY
                else PJSIP_SC_TSX_TRANSPORT_ERROR);
          t = tsx_set_status_code sc (Some (strerror env err)) t
      in if state t \<noteq> PJSIP_TSX_STATE_TERMINATED \<and> state t \<noteq> PJSIP_TSX_STATE_DESTROYED
         then set_state env PJSIP_TSX_STATE_TERMINATED Ev_Transport_Error t
         else if has_pending_destroy t then set_state env PJSIP_TSX_STATE_DESTROYED Ev_Transport_Error t
         else t)"

definition send_msg_next_server :: "tsx_env \<Rightarrow> tx_data \<Rightarrow> tsx \<Rightarrow> tsx" where
  "send_msg_next_server env tdata t =
     (let t = t\<lparr>retransmit_count := 0\<rparr>;
          t = (if tm_id (timeout_timer t) \<noteq> 0
               then schedule Timeout_Timer (timeout_timer_val env) TIMEOUT_TIMER (unschedule Timeout_Timer t)
               else t);
          t = (attach_tx tdata t)\<lparr>pending_tx := Some tdata\<rparr>
      in grp_lock_add_ref t)"

text \<open>\<^verbatim>\<open>send_msg_callback\<close>; the second result is the final value of \<^verbatim>\<open>*cont\<close>.\<close>

definition send_msg_callback ::
  "tsx_env \<Rightarrow> tx_data \<Rightarrow> nat option \<Rightarrow> send_result \<Rightarrow> bool \<Rightarrow> tsx \<Rightarrow> tsx \<times> bool" where
  "send_msg_callback env tdata cur_transport sent cont t =
     (if mod_id t < 0 \<or> td_addr tdata \<notin> set (attached t)
      then (if mod_id t \<ge> 0 then grp_lock_dec_ref t else t, False)
      else
        let t = grp_lock_dec_ref t;
            t = (detach_tx tdata t)\<lparr>pending_tx := None\<rparr>
        in case sent of
             Sent \<Rightarrow> (send_msg_success env cur_transport t, cont)
           | Send_Failed err \<Rightarrow>
               let t = (if cur_transport = transport t then tsx_update_transport env None t else t)
               in if \<not> cont \<or> has_pending_destroy t then (send_msg_failed env tdata err t, cont)
                  else (send_msg_next_server env tdata t, cont))"

definition transport_callback :: "send_result \<Rightarrow> tsx \<Rightarrow> tsx" where
  "transport_callback sent t =
     (let t = t\<lparr>has_pending_transport := False\<rparr>;
          t = (case sent of
                 Sent \<Rightarrow> t
               | Send_Failed err \<Rightarrow>
                   let t = t\<lparr>transport_err := err\<rparr>
                   in if state t < PJSIP_TSX_STATE_COMPLETED
                      then schedule Timeout_Timer (Time_Val 0 0) TRANSPORT_ERR_TIMER (unschedule Timeout_Timer t)
                      else t)
      in grp_lock_dec_ref t)"

section \<open>State handlers\<close>

text \<open>Keeping a message for retransmission: \<^verbatim>\<open>last_tx\<close> holds a reference.\<close>

definition save_last_tx :: "tx_data \<Rightarrow> tsx \<Rightarrow> tsx" where
  "save_last_tx tdata t =
     (if map_option td_addr (last_tx t) \<noteq> Some (td_addr tdata)
      then tx_data_add_ref tdata (t\<lparr>last_tx := Some tdata\<rparr>) else t)"

definition drop_other_last_tx :: "tx_data \<Rightarrow> tsx \<Rightarrow> tsx" where
  "drop_other_last_tx tdata t =
     (case last_tx t of
        Some d \<Rightarrow> if td_addr d \<noteq> td_addr tdata then (tx_data_dec_ref d t)\<lparr>last_tx := None\<rparr> else t
      | None \<Rightarrow> t)"

text \<open>
  In state Null. The handler of a server transaction does not look at the event (a debug
  assertion says it is an incoming request).
\<close>

definition tsx_on_state_null :: "tsx_env \<Rightarrow> tsx_event \<Rightarrow> tsx \<Rightarrow> tsx \<times> pj_status" where
  "tsx_on_state_null env event t =
     (if role t = PJSIP_ROLE_UAS then (set_state env PJSIP_TSX_STATE_TRYING event t, PJ_SUCCESS)
      else
        (case event of
           Ev_Tx_Msg tdata \<Rightarrow>
             let t = save_last_tx tdata (drop_other_last_tx tdata t);
                 (t, status) = tsx_send_msg env (Some tdata) t
             in if status \<noteq> PJ_SUCCESS then (t, status)
                else
                  let t = unschedule Timeout_Timer t;
                      t = schedule Timeout_Timer (timeout_timer_val env) TIMEOUT_TIMER t;
                      t = (if \<not> is_reliable t then start_retransmission (t1_timer_val env) t else t)
                  in (set_state env PJSIP_TSX_STATE_CALLING event t, PJ_SUCCESS)
         | _ \<Rightarrow> (t, PJ_EBUG)))"

text \<open>
  A final response to a client transaction, once its status code is stored. The handler of state
  Calling goes on with the one of state Proceeding.
\<close>

definition uac_2xx :: "tsx_env \<Rightarrow> tsx_event \<Rightarrow> tsx \<Rightarrow> tsx" where
  "uac_2xx env event t =
     (let t = unschedule Timeout_Timer t
      in if is_invite t then set_state env PJSIP_TSX_STATE_TERMINATED event t
         else
           let timeout = (if \<not> is_reliable t then t4_timer_val env else Time_Val 0 0);
               t = schedule Timeout_Timer timeout TIMEOUT_TIMER t;
               t = unschedule Retransmit_Timer t
           in set_state env PJSIP_TSX_STATE_COMPLETED event t)"

definition uac_final_timer :: "tsx_env \<Rightarrow> tsx \<Rightarrow> tsx" where
  "uac_final_timer env t =
     (let timeout = (if \<not> is_reliable t then (if is_invite t then td_timer_val env else t4_timer_val env)
                     else Time_Val 0 0)
      in schedule Timeout_Timer timeout TIMEOUT_TIMER (unschedule Timeout_Timer t))"

definition uac_3xx_6xx :: "tsx_env \<Rightarrow> rx_data \<Rightarrow> tsx \<Rightarrow> tsx \<times> pj_status" where
  "uac_3xx_6xx env rdata t =
     (let t = unschedule Retransmit_Timer t;
          t = unschedule Timeout_Timer t
      in if is_invite t then
           (case endpt_create_ack env (last_tx t) rdata of
              Inl status \<Rightarrow> (t, status)
            | Inr ack_tdata \<Rightarrow>
                let (t, status) = tsx_send_msg env (Some ack_tdata) t
                in if status \<noteq> PJ_SUCCESS then (t, status)
                   else
                     let t = set_state env PJSIP_TSX_STATE_COMPLETED (Ev_Rx_Msg rdata) t;
                         t = (if map_option td_addr (last_tx t) \<noteq> Some (td_addr ack_tdata) then
                                (case last_tx t of Some d \<Rightarrow> tx_data_dec_ref d t | None \<Rightarrow> t)
                                  \<lparr>last_tx := Some ack_tdata\<rparr>
                              else t)
                     in (uac_final_timer env t, PJ_SUCCESS))
         else (uac_final_timer env (set_state env PJSIP_TSX_STATE_COMPLETED (Ev_Rx_Msg rdata) t), PJ_SUCCESS))"

definition tsx_on_state_proceeding_uac :: "tsx_env \<Rightarrow> tsx_event \<Rightarrow> tsx \<Rightarrow> tsx \<times> pj_status" where
  "tsx_on_state_proceeding_uac env event t =
     (case event of
        Ev_Rx_Msg rdata \<Rightarrow>
          if rx_is_request rdata then (t, PJSIP_ENOTRESPONSEMSG)
          else
            let t = tsx_set_status_code (rx_code rdata) (Some (rx_reason rdata)) t
            in if PJSIP_IS_STATUS_IN_CLASS (status_code t) 100
               then (set_state env PJSIP_TSX_STATE_PROCEEDING event t, PJ_SUCCESS)
               else if PJSIP_IS_STATUS_IN_CLASS (status_code t) 200 then (uac_2xx env event t, PJ_SUCCESS)
               else if status_code t \<ge> 300 \<and> status_code t \<le> 699 then uac_3xx_6xx env rdata t
               else (t, PJ_EBUG)
      | Ev_Timer Retransmit_Timer \<Rightarrow> tsx_retransmit env True t
      | Ev_Timer Timeout_Timer \<Rightarrow>
          (set_state env PJSIP_TSX_STATE_TERMINATED event (tsx_set_status_code PJSIP_SC_TSX_TIMEOUT None t), PJ_SUCCESS)
      | _ \<Rightarrow> (t, PJ_EINVALIDOP))"

definition tsx_on_state_calling :: "tsx_env \<Rightarrow> tsx_event \<Rightarrow> tsx \<Rightarrow> tsx \<times> pj_status" where
  "tsx_on_state_calling env event t =
     (case event of
        Ev_Timer Retransmit_Timer \<Rightarrow> tsx_retransmit env True t
      | Ev_Timer Timeout_Timer \<Rightarrow>
          let t = (unschedule Retransmit_Timer t)\<lparr>has_pending_resched := False\<rparr>;
              t = tsx_set_status_code PJSIP_SC_TSX_TIMEOUT None t
          in (set_state env PJSIP_TSX_STATE_TERMINATED event t, PJ_SUCCESS)
      | Ev_Rx_Msg rdata \<Rightarrow>
          if rx_is_request rdata then (t, PJSIP_ENOTRESPONSEMSG)
          else
            let t = unschedule Retransmit_Timer t;
                t = (if rx_code rdata \<ge> 200
                     then (if tm_id (timeout_timer t) \<noteq> 0 then unschedule Timeout_Timer t else t)
                     else if is_invite t then unschedule Timeout_Timer t
                     else if \<not> is_reliable t then schedule Retransmit_Timer (t2_timer_val env) RETRANSMIT_TIMER t
                     else t);
                t = t\<lparr>has_pending_resched := False\<rparr>
            in (fst (tsx_on_state_proceeding_uac env event t), PJ_SUCCESS)
      | _ \<Rightarrow> (t, PJ_EBUG))"

text \<open>A response sent by the user of a server transaction, by class of its status code.\<close>

definition uas_1xx :: "tsx_env \<Rightarrow> tx_data \<Rightarrow> tsx \<Rightarrow> tsx" where
  "uas_1xx env tdata t =
     (let t = save_last_tx tdata t;
          t = set_state env PJSIP_TSX_STATE_PROCEEDING (Ev_Tx_Msg tdata) t
      in if PJSIP_TSX_1XX_RETRANS_DELAY > 0 \<and> is_invite t \<and> status_code t > 100
         then start_retransmission (Time_Val (int PJSIP_TSX_1XX_RETRANS_DELAY) 0) (unschedule Retransmit_Timer t)
         else t)"

definition uas_2xx :: "tsx_env \<Rightarrow> tx_data \<Rightarrow> tsx \<Rightarrow> tsx" where
  "uas_2xx env tdata t =
     (let t = unschedule Retransmit_Timer t
      in if is_invite t \<and> handle_200resp t = 0
         then set_state env PJSIP_TSX_STATE_TERMINATED (Ev_Tx_Msg tdata) t
         else
           let t = (if is_invite t then start_retransmission (t1_timer_val env) t else t);
               t = save_last_tx tdata t;
               timeout = (if is_invite t then timeout_timer_val env
                          else if \<not> is_reliable t then timeout_timer_val env else Time_Val 0 0);
               t = schedule Timeout_Timer timeout TIMEOUT_TIMER (unschedule Timeout_Timer t)
           in set_state env PJSIP_TSX_STATE_COMPLETED (Ev_Tx_Msg tdata) t)"

definition uas_3xx_6xx :: "tsx_env \<Rightarrow> tx_data \<Rightarrow> tsx \<Rightarrow> tsx" where
  "uas_3xx_6xx env tdata t =
     (let t = unschedule Retransmit_Timer t;
          t = save_last_tx tdata t;
          t = unschedule Timeout_Timer t;
          t = (if is_invite t then schedule Timeout_Timer (timeout_timer_val env) TIMEOUT_TIMER t
               else if \<not> is_reliable t then schedule Timeout_Timer (timeout_timer_val env) TIMEOUT_TIMER t
               else schedule Timeout_Timer (Time_Val 0 0) TIMEOUT_TIMER t);
          t = (if \<not> is_reliable t \<and> td_cseq_method tdata = PJSIP_INVITE_METHOD
               then start_retransmission (t1_timer_val env) t else t)
      in set_state env PJSIP_TSX_STATE_COMPLETED (Ev_Tx_Msg tdata) t)"

definition uas_send_response :: "tsx_env \<Rightarrow> tx_data \<Rightarrow> tsx \<Rightarrow> tsx \<times> pj_status" where
  "uas_send_response env tdata t =
     (if td_is_request tdata then (t, PJSIP_ENOTRESPONSEMSG)
      else
        let t = tsx_set_status_code (td_code tdata) (Some (td_reason tdata)) t;
            t = drop_other_last_tx tdata t;
            (t, status) = tsx_send_msg env (Some tdata) t
        in if status \<noteq> PJ_SUCCESS then (t, status)
           else if PJSIP_IS_STATUS_IN_CLASS (status_code t) 100 then (uas_1xx env tdata t, PJ_SUCCESS)
           else if PJSIP_IS_STATUS_IN_CLASS (status_code t) 200 then (uas_2xx env tdata t, PJ_SUCCESS)
           else if status_code t \<ge> 300 then (uas_3xx_6xx env tdata t, PJ_SUCCESS)
           else (t, PJ_SUCCESS))"

definition tsx_on_state_proceeding_uas :: "tsx_env \<Rightarrow> tsx_event \<Rightarrow> tsx \<Rightarrow> tsx \<times> pj_status" where
  "tsx_on_state_proceeding_uas env event t =
     (case event of
        Ev_Rx_Msg rdata \<Rightarrow>
          if last_tx t = None then (t, PJ_EBUG)
          else if has_pending_transport t then (t\<lparr>has_pending_send := True\<rparr>, PJ_SUCCESS)
          else tsx_send_msg env (last_tx t) t
      | Ev_Tx_Msg tdata \<Rightarrow> uas_send_response env tdata t
      | Ev_Timer Retransmit_Timer \<Rightarrow> tsx_retransmit env True t
      | Ev_Timer Timeout_Timer \<Rightarrow>
          (set_state env PJSIP_TSX_STATE_TERMINATED event (tsx_set_status_code PJSIP_SC_TSX_TIMEOUT None t), PJ_EBUG)
      | _ \<Rightarrow> (t, PJ_EBUG))"

definition tsx_on_state_trying :: "tsx_env \<Rightarrow> tsx_event \<Rightarrow> tsx \<Rightarrow> tsx \<times> pj_status" where
  "tsx_on_state_trying env event t =
     (case event of
        Ev_Tx_Msg tdata \<Rightarrow>
          let (t, status) = tsx_on_state_proceeding_uas env event t
          in if status = PJ_SUCCESS \<and> state t = PJSIP_TSX_STATE_TRYING
             then (set_state env PJSIP_TSX_STATE_PROCEEDING event t, status) else (t, status)
      | _ \<Rightarrow> (t, PJ_SUCCESS))"

definition tsx_on_state_completed_uas :: "tsx_env \<Rightarrow> tsx_event \<Rightarrow> tsx \<Rightarrow> tsx \<times> pj_status" where
  "tsx_on_state_completed_uas env event t =
     (case event of
        Ev_Rx_Msg rdata \<Rightarrow>
          if \<not> rx_is_request rdata then (t, PJSIP_ENOTREQUESTMSG)
          else if method_id (rx_method rdata) \<noteq> PJSIP_ACK_METHOD then tsx_retransmit env False t
          else if \<not> is_invite t then (t, PJSIP_EINVALIDMETHOD)
          else
            let t = (unschedule Retransmit_Timer t)\<lparr>has_pending_resched := False\<rparr>;
                t = unschedule Timeout_Timer t;
                timeout = (if is_reliable t then Time_Val 0 0 else t4_timer_val env);
                t = schedule Timeout_Timer timeout TIMEOUT_TIMER t
            in (set_state env PJSIP_TSX_STATE_CONFIRMED event t, PJ_SUCCESS)
      | Ev_Timer Retransmit_Timer \<Rightarrow> tsx_retransmit env True t
      | Ev_Timer Timeout_Timer \<Rightarrow>
          let t = (if is_invite t then tsx_set_status_code PJSIP_SC_TSX_TIMEOUT None t else t)
          in (set_state env PJSIP_TSX_STATE_TERMINATED event t, PJ_SUCCESS)
      | Ev_Tx_Msg tdata \<Rightarrow>
          if Some (td_addr tdata) = map_option td_addr (last_tx t) then (t, PJ_SUCCESS) else (t, PJ_EINVALIDOP)
      | _ \<Rightarrow> (t, PJ_EINVALIDOP))"

definition tsx_on_state_completed_uac :: "tsx_env \<Rightarrow> tsx_event \<Rightarrow> tsx \<Rightarrow> tsx \<times> pj_status" where
  "tsx_on_state_completed_uac env event t =
     (case event of
        Ev_Timer Retransmit_Timer \<Rightarrow> (t, PJ_SUCCESS)
      | Ev_Timer Timeout_Timer \<Rightarrow> (set_state env PJSIP_TSX_STATE_TERMINATED event t, PJ_SUCCESS)
      | Ev_Rx_Msg rdata \<Rightarrow>
          if is_invite t \<and> \<not> rx_is_request rdata \<and> rx_code rdata \<ge> 200
          then tsx_retransmit env False t else (t, PJ_SUCCESS)
      | _ \<Rightarrow> (t, PJ_EINVALIDOP))"

definition tsx_on_state_confirmed :: "tsx_env \<Rightarrow> tsx_event \<Rightarrow> tsx \<Rightarrow> tsx \<times> pj_status" where
  "tsx_on_state_confirmed env event t =
     (case event of
        Ev_Rx_Msg rdata \<Rightarrow> if \<not> rx_is_request rdata then (t, PJSIP_ENOTREQUESTMSG) else (t, PJ_SUCCESS)
      | Ev_Timer Retransmit_Timer \<Rightarrow> (t, PJ_SUCCESS)
      | Ev_Timer Timeout_Timer \<Rightarrow> (set_state env PJSIP_TSX_STATE_TERMINATED event t, PJ_SUCCESS)
      | _ \<Rightarrow> (t, PJ_EBUG))"

definition tsx_on_state_terminated :: "tsx_env \<Rightarrow> tsx_event \<Rightarrow> tsx \<Rightarrow> tsx \<times> pj_status" where
  "tsx_on_state_terminated env event t =
     (case event of
        Ev_Timer e \<Rightarrow> (set_state env PJSIP_TSX_STATE_DESTROYED event t, PJ_SUCCESS)
      | _ \<Rightarrow> (t, PJ_EIGNORED))"

definition tsx_on_state_destroyed :: "tsx_env \<Rightarrow> tsx_event \<Rightarrow> tsx \<Rightarrow> tsx \<times> pj_status" where
  "tsx_on_state_destroyed env event t = (t, PJ_EIGNORED)"

text \<open>The call through \<^verbatim>\<open>tsx->state_handler\<close>; calling the null pointer has no result.\<close>

definition call_state_handler :: "tsx_env \<Rightarrow> tsx_event \<Rightarrow> tsx \<Rightarrow> (tsx \<times> pj_status) option" where
  "call_state_handler env event t =
     map_option (\<lambda>h. (case h of
         On_Null \<Rightarrow> tsx_on_state_null
       | On_Calling \<Rightarrow> tsx_on_state_calling
       | On_Trying \<Rightarrow> tsx_on_state_trying
       | On_Proceeding_Uas \<Rightarrow> tsx_on_state_proceeding_uas
       | On_Proceeding_Uac \<Rightarrow> tsx_on_state_proceeding_uac
       | On_Completed_Uas \<Rightarrow> tsx_on_state_completed_uas
       | On_Completed_Uac \<Rightarrow> tsx_on_state_completed_uac
       | On_Confirmed \<Rightarrow> tsx_on_state_confirmed
       | On_Terminated \<Rightarrow> tsx_on_state_terminated
       | On_Destroyed \<Rightarrow> tsx_on_state_destroyed) env event t) (state_handler t)"

section \<open>Interface of a transaction\<close>

text \<open>
  \<^verbatim>\<open>tsx_timer_callback\<close> for one of the two timers; transport errors are posted through the timeout
  timer.
\<close>

definition transport_err_timer :: "tsx_env \<Rightarrow> tsx \<Rightarrow> tsx" where
  "transport_err_timer env t =
     (if state t < PJSIP_TSX_STATE_TERMINATED then
        let prev_state = state t;
            t = tsx_update_transport env None t;
            t = (if status_code t < 200
                 then tsx_set_status_code PJSIP_SC_TSX_TRANSPORT_ERROR (Some (strerror env (transport_err t))) t
                 else t);
            t = tsx_set_state env PJSIP_TSX_STATE_TERMINATED Ev_Transport_Error True True t;
            t = notify_tu env prev_state Ev_Transport_Error t
        in schedule Timeout_Timer (Time_Val 0 0) TIMEOUT_TIMER t
      else t)"

definition tsx_timer_callback :: "tsx_env \<Rightarrow> tsx_timer_e \<Rightarrow> tsx \<Rightarrow> tsx option" where
  "tsx_timer_callback env e t =
     (if state t \<ge> PJSIP_TSX_STATE_DESTROYED then Some t
      else
        let entry_id = tm_id (get_timer e t);
            t = set_timer e ((get_timer e t)\<lparr>tm_id := 0\<rparr>) t
        in if entry_id = TRANSPORT_ERR_TIMER then Some (transport_err_timer env t)
           else map_option fst (call_state_handler env (Ev_Timer e) t))"

text \<open>
  A timer that fires, as the timer heap does it: the entry leaves the heap, the callback runs,
  and the reference on the group lock is given back.
\<close>

definition tsx_timer_fires :: "tsx_env \<Rightarrow> tsx_timer_e \<Rightarrow> tsx \<Rightarrow> tsx option" where
  "tsx_timer_fires env e t =
     map_option grp_lock_dec_ref
       (tsx_timer_callback env e (set_timer e ((get_timer e t)\<lparr>tm_running := False\<rparr>) t))"

definition pjsip_tsx_set_transport :: "pjsip_tpselector \<Rightarrow> tsx \<Rightarrow> tsx \<times> pj_status" where
  "pjsip_tsx_set_transport sel t =
     (pjsip_tpselector_add_ref ((pjsip_tpselector_dec_ref t)\<lparr>tp_sel := sel\<rparr>), PJ_SUCCESS)"

definition pjsip_tsx_terminate :: "tsx_env \<Rightarrow> int \<Rightarrow> tsx \<Rightarrow> tsx \<times> pj_status" where
  "pjsip_tsx_terminate env code t =
     (if code < 200 then (t, PJ_EINVAL)
      else if state t < PJSIP_TSX_STATE_TERMINATED
      then (set_state env PJSIP_TSX_STATE_TERMINATED Ev_User (tsx_set_status_code code None t), PJ_SUCCESS)
      else (t, PJ_SUCCESS))"

definition pjsip_tsx_stop_retransmit :: "tsx \<Rightarrow> tsx \<times> pj_status" where
  "pjsip_tsx_stop_retransmit t =
     (if role t = PJSIP_ROLE_UAC \<and> is_invite t then (unschedule Retransmit_Timer t, PJ_SUCCESS)
      else (t, PJ_EINVALIDOP))"

definition pjsip_tsx_set_timeout :: "u32 \<Rightarrow> tsx \<Rightarrow> tsx \<times> pj_status" where
  "pjsip_tsx_set_timeout millisec t =
     (if \<not> (role t = PJSIP_ROLE_UAC \<and> is_invite t) then (t, PJ_EINVALIDOP)
      else if status_code t \<ge> 200 \<and> tm_id (timeout_timer t) \<noteq> 0 then (t, PJ_EEXISTS)
      else (schedule Timeout_Timer (pj_time_val_normalize (Time_Val 0 (uint millisec))) TIMEOUT_TIMER
              (unschedule Timeout_Timer t), PJ_SUCCESS))"

definition pjsip_tsx_send_msg :: "tsx_env \<Rightarrow> tx_data option \<Rightarrow> tsx \<Rightarrow> (tsx \<times> pj_status) option" where
  "pjsip_tsx_send_msg env tdata t =
     (case (if tdata = None then last_tx t else tdata) of
        None \<Rightarrow> Some (t, PJ_EINVALIDOP)
      | Some d \<Rightarrow>
          (case call_state_handler env (Ev_Tx_Msg d) t of
             None \<Rightarrow> None
           | Some (t, status) \<Rightarrow> Some (if status = PJ_SUCCESS then tx_data_dec_ref d t else t, status)))"

definition pjsip_tsx_recv_msg :: "tsx_env \<Rightarrow> rx_data \<Rightarrow> tsx \<Rightarrow> tsx option" where
  "pjsip_tsx_recv_msg env rdata t = map_option fst (call_state_handler env (Ev_Rx_Msg rdata) t)"

definition pjsip_tsx_retransmit_no_state :: "tsx_env \<Rightarrow> tx_data option \<Rightarrow> tsx \<Rightarrow> (tsx \<times> pj_status) option" where
  "pjsip_tsx_retransmit_no_state env tdata t =
     (case tdata of
        None \<Rightarrow>
          (case last_tx t of
             None \<Rightarrow> None
           | Some d \<Rightarrow>
               let (t, status) = tsx_send_msg env (Some d) (tx_data_add_ref d t)
               in Some (if status = PJ_SUCCESS then tx_data_dec_ref d t else t, status))
      | Some d \<Rightarrow>
          let (t, status) = tsx_send_msg env (Some d) t
          in Some (if status = PJ_SUCCESS then tx_data_dec_ref d t else t, status))"

section \<open>The timers of a transaction as a timer service\<close>

text \<open>
  The two timers of a transaction, with the operations of the transaction layer on them, keep the
  contract of the timer heap.
\<close>

definition tsx_due :: "tsx \<Rightarrow> tsx_timer_e \<Rightarrow> pj_time_val option" where
  "tsx_due t e = (if tm_running (get_timer e t) then Some (tm_delay (get_timer e t)) else None)"

lemma get_set_timer [simp]:
  "get_timer e (set_timer e' tm t) = (if e = e' then tm else get_timer e t)"
  "get_timer e (grp_lock_add_ref t) = get_timer e t" "get_timer e (grp_lock_dec_ref t) = get_timer e t"
  by (simp_all add: get_timer_def set_timer_def grp_lock_add_ref_def grp_lock_dec_ref_def split: tsx_timer_e.split)

interpretation tsx_timers: timer_service
  "\<lambda>t e delay. tsx_schedule_timer e delay active_id t" "\<lambda>t e. tsx_cancel_timer e t"
  tsx_due "\<lambda>delay. delay" "\<lambda>t. True" "\<lambda>t e. True"
  for active_id
  by unfold_locales (auto simp: tsx_due_def tsx_schedule_timer_def tsx_cancel_timer_def fun_eq_iff split: if_splits)

end
