(* ===== verification/Tsx_Progress.thy ===== *)
theory Tsx_Progress
  imports Tsx
begin

text \<open>
  Progress of a transaction: whatever events, timers, callbacks and user calls arrive, in any
  order, the state of a transaction only moves forward, its role and method never change, and the
  pointer \<^verbatim>\<open>state_handler\<close> is the one its role and state ask for, so it is never null when it is called.
  The transaction user and the transports may change the transaction in their callbacks, as long
  as they keep these same promises.
\<close>

section \<open>Definitions\<close>

text \<open>The fields that matter here.\<close>

definition core :: "tsx \<Rightarrow> pjsip_tsx_state_e \<times> pjsip_role_e \<times> pjsip_method \<times> tsx_handler option" where
  "core t = (state t, role t, tsx_method t, state_handler t)"

text \<open>The handler belongs to the state, and the state to the role.\<close>

definition tsx_ok :: "tsx \<Rightarrow> bool" where
  "tsx_ok t \<longleftrightarrow>
     state_handler t = (if role t = PJSIP_ROLE_UAC then tsx_state_handler_uac (state t) else tsx_state_handler_uas (state t))
     \<and> (if role t = PJSIP_ROLE_UAC then state t \<noteq> PJSIP_TSX_STATE_TRYING else state t \<noteq> PJSIP_TSX_STATE_CALLING)"

text \<open>One transaction is a later point of the life of the other.\<close>

definition tsx_adv :: "tsx \<Rightarrow> tsx \<Rightarrow> bool" where
  "tsx_adv t t' \<longleftrightarrow> tsx_ok t' \<and> state t \<le> state t' \<and> role t' = role t \<and> tsx_method t' = tsx_method t"

text \<open>Sending without a transport may end the transaction from within, with an error to report.\<close>

definition send_adv :: "tsx \<Rightarrow> tsx \<Rightarrow> bool" where
  "send_adv t t' \<longleftrightarrow> core t' = core t
     \<or> (tsx_adv t t' \<and> state t' = PJSIP_TSX_STATE_TERMINATED \<and> transport_err t' \<noteq> PJ_SUCCESS)"

text \<open>What the user and the transports promise of their calls back into the transaction.\<close>

definition env_ok :: "tsx_env \<Rightarrow> bool" where
  "env_ok env \<longleftrightarrow>
     (\<forall>prev src t. tsx_ok t \<longrightarrow> tsx_adv t (on_tsx_state env prev src t))
     \<and> (\<forall>rdata t. tsx_ok t \<longrightarrow> tsx_adv t (on_rx_response env rdata t))
     \<and> (\<forall>tp d t. tsx_ok t \<longrightarrow> core (fst (transport_send env tp d t)) = core t)
     \<and> (\<forall>d t. tsx_ok t \<longrightarrow> send_adv t (fst (send_request_stateless env d t)))
     \<and> (\<forall>d t. tsx_ok t \<longrightarrow> send_adv t (fst (send_response env d t)))"

text \<open>The states a transaction may go to.\<close>

definition may_enter :: "tsx \<Rightarrow> pjsip_tsx_state_e \<Rightarrow> bool" where
  "may_enter t st \<longleftrightarrow> state t \<le> st
     \<and> (if role t = PJSIP_ROLE_UAC then st \<noteq> PJSIP_TSX_STATE_TRYING else st \<noteq> PJSIP_TSX_STATE_CALLING)"

text \<open>Everything that can happen to a transaction that is not destroyed.\<close>

inductive tsx_step :: "tsx_env \<Rightarrow> tsx \<Rightarrow> tsx \<Rightarrow> bool" for env where
  step_event: "call_state_handler env ev t = Some (t', status) \<Longrightarrow> tsx_step env t t'"
| step_timer: "tm_running (get_timer e t) \<Longrightarrow> tsx_timer_fires env e t = Some t' \<Longrightarrow> tsx_step env t t'"
| step_terminate: "tsx_step env t (fst (pjsip_tsx_terminate env code t))"
| step_stop_retransmit: "tsx_step env t (fst (pjsip_tsx_stop_retransmit t))"
| step_set_timeout: "tsx_step env t (fst (pjsip_tsx_set_timeout ms t))"
| step_set_transport: "tsx_step env t (fst (pjsip_tsx_set_transport sel t))"
| step_sent: "state t \<noteq> PJSIP_TSX_STATE_DESTROYED \<Longrightarrow> tsx_step env t (fst (send_msg_callback env d tp sent cont t))"
| step_transport: "tsx_step env t (transport_callback sent t)"
| step_disconnected: "tsx_step env t (tsx_tp_state_callback status t)"

section \<open>Frame lemmas\<close>

lemma core_simps [simp]:
  "core (t\<lparr>lock_refs := a\<rparr>) = core t" "core (t\<lparr>tx_refs := b\<rparr>) = core t" "core (t\<lparr>attached := c\<rparr>) = core t"
  "core (t\<lparr>retransmit_timer := d\<rparr>) = core t" "core (t\<lparr>timeout_timer := d\<rparr>) = core t"
  "core (t\<lparr>transport_err := e\<rparr>) = core t" "core (t\<lparr>tp_refs := f\<rparr>) = core t" "core (t\<lparr>transport := g\<rparr>) = core t"
  "core (t\<lparr>tp_sel := h\<rparr>) = core t" "core (t\<lparr>last_tx := i\<rparr>) = core t" "core (t\<lparr>pending_tx := i\<rparr>) = core t"
  "core (t\<lparr>has_pending_transport := j\<rparr>) = core t" "core (t\<lparr>has_pending_resched := j\<rparr>) = core t"
  "core (t\<lparr>has_pending_send := j\<rparr>) = core t" "core (t\<lparr>has_pending_destroy := j\<rparr>) = core t"
  "core (t\<lparr>has_resolved_server := j\<rparr>) = core t" "core (t\<lparr>tsx_user := j\<rparr>) = core t" "core (t\<lparr>terminating := j\<rparr>) = core t"
  "core (t\<lparr>status_code := k\<rparr>) = core t" "core (t\<lparr>status_text := l\<rparr>) = core t" "core (t\<lparr>htable := m\<rparr>) = core t"
  "core (t\<lparr>tu_log := n\<rparr>) = core t" "core (t\<lparr>res_transport := g\<rparr>) = core t" "core (t\<lparr>is_reliable := j\<rparr>) = core t"
  "core (t\<lparr>retransmit_count := q\<rparr>) = core t"
  by (simp_all add: core_def)

lemma core_refs [simp]:
  "core (grp_lock_add_ref t) = core t" "core (grp_lock_dec_ref t) = core t"
  "core (tx_data_add_ref d t) = core t" "core (tx_data_dec_ref d t) = core t"
  "core (attach_tx d t) = core t" "core (detach_tx d t) = core t"
  "core (set_timer e tm t) = core t"
  by (simp_all add: grp_lock_add_ref_def grp_lock_dec_ref_def tx_data_add_ref_def tx_data_dec_ref_def
      attach_tx_def detach_tx_def set_timer_def split: tsx_timer_e.split)

lemma core_selector [simp]:
  "core (pjsip_tpselector_add_ref t) = core t" "core (pjsip_tpselector_dec_ref t) = core t"
  "core (fst (pjsip_tsx_set_transport sel t)) = core t"
  by (simp_all add: pjsip_tpselector_add_ref_def pjsip_tpselector_dec_ref_def pjsip_tsx_set_transport_def
      split: pjsip_tpselector.split option.split)

lemma core_timers [simp]: "core (schedule e d i t) = core t" "core (unschedule e t) = core t"
  by (simp_all add: tsx_schedule_timer_def tsx_cancel_timer_def)

lemma core_transport [simp]: "core (tsx_tp_state_callback s t) = core t" "core (tsx_update_transport env tp t) = core t"
  by (simp_all add: tsx_tp_state_callback_def tsx_update_transport_def Let_def split: option.split)

lemma core_misc [simp]:
  "core (tsx_set_status_code c r t) = core t" "core (mod_tsx_layer_unregister_tsx t) = core t"
  "core (save_last_tx d t) = core t" "core (drop_other_last_tx d t) = core t"
  "core (tsx_resched_retransmission env t) = core t" "core (start_retransmission dl t) = core t"
  "core (set_state_terminated ns t) = core t" "core (tsx_shutdown env t) = core t"
  by (simp_all add: tsx_set_status_code_def mod_tsx_layer_unregister_tsx_def save_last_tx_def drop_other_last_tx_def
      tsx_resched_retransmission_def start_retransmission_def set_state_terminated_def tsx_shutdown_def Let_def split: option.split)

lemma core_eq_simps:
  assumes "core t' = core t"
  shows "state t' = state t" "role t' = role t" "tsx_method t' = tsx_method t" "state_handler t' = state_handler t"
  using assms by (simp_all add: core_def)

lemma tsx_ok_core: "core t' = core t \<Longrightarrow> tsx_ok t' = tsx_ok t"
  by (simp add: core_def tsx_ok_def)

lemma tsx_adv_core: "core t' = core t \<Longrightarrow> tsx_ok t \<Longrightarrow> tsx_adv t t'"
  by (simp add: core_def tsx_adv_def tsx_ok_def)

lemma tsx_adv_trans: "tsx_adv t t' \<Longrightarrow> tsx_adv t' t'' \<Longrightarrow> tsx_adv t t''"
  by (auto simp: tsx_adv_def)

lemma tsx_adv_core_left: "core t' = core t \<Longrightarrow> tsx_adv t' t'' \<Longrightarrow> tsx_adv t t''"
  by (simp add: core_def tsx_adv_def)

lemma tsx_adv_core_right: "tsx_adv t t' \<Longrightarrow> core t'' = core t' \<Longrightarrow> tsx_adv t t''"
  by (auto simp: core_def tsx_adv_def tsx_ok_def)

lemma tsx_adv_ok: "tsx_adv t t' \<Longrightarrow> tsx_ok t'"
  by (simp add: tsx_adv_def)

lemma notify_adv:
  assumes "env_ok env" "tsx_ok t"
  shows "tsx_adv t (notify_tu env prev src t)"
proof -
  have "tsx_ok (t\<lparr>tu_log := l\<rparr>)" for l using assms(2) tsx_ok_core [of "t\<lparr>tu_log := l\<rparr>" t] by simp
  then show ?thesis
    using assms tsx_adv_core_left [of "t\<lparr>tu_log := tu_log t @ [(state t, src)]\<rparr>" t] tsx_adv_core [of t t]
    by (auto simp: notify_tu_def env_ok_def)
qed

lemma set_state_notify_adv:
  assumes "env_ok env" "tsx_ok t"
  shows "tsx_adv t (set_state_notify env prev src nn t)"
proof -
  have r: "tsx_adv t t" using assms(2) by (simp add: tsx_adv_core)
  have rx: "tsx_adv t (on_rx_response env rd t)" for rd using assms by (simp add: env_ok_def)
  have "tsx_adv t (notify_tu env prev src t1)" if "tsx_adv t t1" for t1
    using tsx_adv_trans [OF that notify_adv [OF assms(1) tsx_adv_ok [OF that]]] .
  then show ?thesis
    using r rx by (cases src) (simp_all add: set_state_notify_def Let_def)
qed

lemma set_state_adv:
  assumes "env_ok env" "tsx_ok t" "state t \<le> st"
    and "if role t = PJSIP_ROLE_UAC then st \<noteq> PJSIP_TSX_STATE_TRYING else st \<noteq> PJSIP_TSX_STATE_CALLING"
  shows "tsx_adv t (tsx_set_state env st src nn ns t)" "st \<le> state (tsx_set_state env st src nn ns t)"
proof -
  let ?t1 = "t\<lparr>state := st, state_handler := (if role t = PJSIP_ROLE_UAC then tsx_state_handler_uac st
     else tsx_state_handler_uas st)\<rparr>"
  let ?t2 = "set_state_notify env (state t) src nn ?t1"
  have ok: "tsx_ok ?t1" using assms(4) by (simp add: tsx_ok_def)
  have a: "tsx_adv ?t1 ?t2" by (rule set_state_notify_adv [OF assms(1) ok])
  have c: "core (tsx_set_state env st src nn ns t) = core ?t2"
    by (simp add: tsx_set_state_def Let_def)
  have "tsx_adv ?t1 (tsx_set_state env st src nn ns t)"
    using tsx_adv_core_right [OF a c] .
  then show "tsx_adv t (tsx_set_state env st src nn ns t)" "st \<le> state (tsx_set_state env st src nn ns t)"
    using assms(3) by (auto simp: tsx_adv_def)
qed

lemma not_destroyed_iff: "st \<le> PJSIP_TSX_STATE_TERMINATED \<longleftrightarrow> st \<noteq> PJSIP_TSX_STATE_DESTROYED"
  by (cases st) (auto simp: less_eq_pjsip_tsx_state_e_def)

lemma send_resolve_adv:
  assumes "env_ok env" "tsx_ok t" "state t \<noteq> PJSIP_TSX_STATE_DESTROYED"
  shows "tsx_adv t (fst (send_resolve env d s t))"
    "snd (send_resolve env d s t) = PJ_SUCCESS \<Longrightarrow> core (fst (send_resolve env d s t)) = core t"
proof -
  have le: "state t \<le> PJSIP_TSX_STATE_TERMINATED" using assms(3) by (simp add: not_destroyed_iff)
  have "tsx_adv t (fst (send_resolve env d s t))
    \<and> (snd (send_resolve env d s t) = PJ_SUCCESS \<longrightarrow> core (fst (send_resolve env d s t)) = core t)"
  proof (cases "has_resolved_server t")
    case True
    let ?t1 = "\<lambda>r. tsx_set_status_code PJSIP_SC_TSX_TRANSPORT_ERROR (Some r) t"
    have "tsx_adv t (set_state env PJSIP_TSX_STATE_TERMINATED Ev_Transport_Error (?t1 r))" for r
      using le by (intro tsx_adv_core_left [of "?t1 r" t] set_state_adv(1) assms(1))
        (auto simp: tsx_ok_core [of "?t1 r" t] assms(2) core_eq_simps [of "?t1 r" t])
    then show ?thesis using True by (auto simp: send_resolve_def Let_def)
  next
    case False
    define t1 where "t1 = (grp_lock_add_ref ((attach_tx d (tx_data_add_ref d t))\<lparr>pending_tx := Some d\<rparr>))\<lparr>has_pending_transport := True\<rparr>"
    define r where "r = (if td_is_request d then send_request_stateless env d t1 else send_response env d t1)"
    have c1: "core t1 = core t" by (simp add: t1_def)
    have "send_adv t1 (fst r)" using assms(1) tsx_ok_core [OF c1] assms(2) by (simp add: r_def env_ok_def)
    then have sa: "core (fst r) = core t \<or> (tsx_adv t (fst r) \<and> state (fst r) = PJSIP_TSX_STATE_TERMINATED \<and> transport_err (fst r) \<noteq> PJ_SUCCESS)"
      using c1 tsx_adv_core_left [OF c1] by (auto simp: send_adv_def)
    then have adv: "tsx_adv t (fst r)" using assms(2) tsx_adv_core by blast
    obtain t2 st2 where r2: "r = (t2, st2)" by (cases r)
    define st3 where "st3 = (if st2 = PJ_EPENDING then PJ_SUCCESS else st2)"
    define t3 where "t3 = (if st3 \<noteq> PJ_SUCCESS then
        (detach_tx d (tx_data_dec_ref d (if td_is_request d then grp_lock_dec_ref t2 else t2)))\<lparr>pending_tx := None\<rparr> else t2)"
    have e: "send_resolve env d s t = (t3, if st3 = PJ_SUCCESS \<and> state t3 = PJSIP_TSX_STATE_TERMINATED then transport_err t3 else st3)"
      unfolding send_resolve_def Let_def
      by (fold t1_def, fold r_def) (simp add: False r2 st3_def [symmetric] t3_def)
    have c3: "core t3 = core t2" by (simp add: t3_def)
    have "tsx_adv t t3" using tsx_adv_core_right [OF adv [unfolded r2, simplified] c3] .
    moreover have "core t3 = core t" if "snd (send_resolve env d s t) = PJ_SUCCESS"
      using that sa c3 by (auto simp: e r2 t3_def split: if_splits)
    ultimately show ?thesis by (simp add: e)
  qed
  then show "tsx_adv t (fst (send_resolve env d s t))"
    "snd (send_resolve env d s t) = PJ_SUCCESS \<Longrightarrow> core (fst (send_resolve env d s t)) = core t" by auto
qed

lemma send_msg_adv:
  assumes "env_ok env" "tsx_ok t" "state t \<noteq> PJSIP_TSX_STATE_DESTROYED"
  shows "tsx_adv t (fst (tsx_send_msg env d t))"
    "snd (tsx_send_msg env d t) = PJ_SUCCESS \<Longrightarrow> core (fst (tsx_send_msg env d t)) = core t"
proof -
  have r: "tsx_adv t t'" if "core t' = core t" for t' using assms(2) that by (simp add: tsx_adv_core)
  have res: "tsx_adv t (fst (send_resolve env x s t')) \<and> (snd (send_resolve env x s t') = PJ_SUCCESS \<longrightarrow> core (fst (send_resolve env x s t')) = core t)"
    if c: "core t' = core t" for x s t'
    using send_resolve_adv [OF assms(1), of t' x s] tsx_ok_core [OF c] core_eq_simps [OF c] assms(2,3) c tsx_adv_core_left [OF c]
    by simp
  have "tsx_adv t (fst (tsx_send_msg env d t)) \<and> (snd (tsx_send_msg env d t) = PJ_SUCCESS \<longrightarrow> core (fst (tsx_send_msg env d t)) = core t)"
  proof (cases d)
    case (Some x)
    show ?thesis
    proof (cases "has_pending_transport t \<or> td_is_pending x")
      case True
      then show ?thesis using r Some by (auto simp: tsx_send_msg_def)
    next
      case False
      show ?thesis
      proof (cases "transport t")
        case None
        then show ?thesis using False res [of t x PJ_SUCCESS] Some by (simp add: tsx_send_msg_def)
      next
        case tp: (Some tp)
        define t1 where "t1 = (grp_lock_add_ref t)\<lparr>has_pending_transport := True\<rparr>"
        obtain t2 s2 where t2: "transport_send env tp x t1 = (t2, s2)" by (cases "transport_send env tp x t1")
        have c1: "core t1 = core t" by (simp add: t1_def)
        then have c2: "core t2 = core t"
          using assms(1,2) tsx_ok_core [OF c1] t2 by (metis env_ok_def fst_conv)
        show ?thesis
          using False Some tp r [OF c2] r c2 res
          by (simp add: tsx_send_msg_def Let_def t1_def [symmetric] t2)
      qed
    qed
  qed (use r in \<open>simp add: tsx_send_msg_def\<close>)
  then show "tsx_adv t (fst (tsx_send_msg env d t))"
    "snd (tsx_send_msg env d t) = PJ_SUCCESS \<Longrightarrow> core (fst (tsx_send_msg env d t)) = core t" by auto
qed

section \<open>The handlers\<close>

lemma adv_set_state:
  assumes "env_ok env" "tsx_ok t" "core t' = core t" "may_enter t st"
  shows "tsx_adv t (tsx_set_state env st src nn ns t')"
  using set_state_adv(1) [OF assms(1), of t' st src nn ns] tsx_ok_core [OF assms(3)] core_eq_simps [OF assms(3)]
    tsx_adv_core_left [OF assms(3)] assms(2,4) by (simp add: may_enter_def)

lemma adv_after: "tsx_adv t t' \<Longrightarrow> core t'' = core t' \<Longrightarrow> tsx_adv t t''"
  by (rule tsx_adv_core_right)

lemma adv_send:
  assumes "env_ok env" "tsx_ok t" "core t' = core t" "state t \<noteq> PJSIP_TSX_STATE_DESTROYED"
  shows "tsx_adv t (fst (tsx_send_msg env d t'))"
    "snd (tsx_send_msg env d t') = PJ_SUCCESS \<Longrightarrow> core (fst (tsx_send_msg env d t')) = core t"
  using send_msg_adv [OF assms(1), of t' d] tsx_ok_core [OF assms(3)] core_eq_simps [OF assms(3)]
    tsx_adv_core_left [OF assms(3)] assms(2-4) by simp_all

lemma adv_retransmit:
  assumes "env_ok env" "tsx_ok t" "state t \<noteq> PJSIP_TSX_STATE_DESTROYED"
  shows "tsx_adv t (fst (tsx_retransmit env r t))"
proof -
  let ?t1 = "t\<lparr>retransmit_count := retransmit_count t + 1\<rparr>"
  define t2 where "t2 = (if r then (if has_pending_transport ?t1 then ?t1\<lparr>has_pending_resched := True\<rparr>
    else tsx_resched_retransmission env ?t1) else ?t1)"
  have c: "core t2 = core t" by (simp add: t2_def)
  have "tsx_retransmit env r t = (if r \<and> tm_running (retransmit_timer t) then (t, PJ_SUCCESS)
    else if last_tx t = None then (t, PJ_EBUG) else tsx_send_msg env (last_tx t2) t2)"
    unfolding tsx_retransmit_def Let_def t2_def by (rule refl)
  then show ?thesis
    using adv_send(1) [OF assms(1,2) c assms(3), of "last_tx t2"] tsx_adv_core [of t t] assms(2) by auto
qed

lemma may_enter_terminated: "state t \<noteq> PJSIP_TSX_STATE_DESTROYED \<Longrightarrow> may_enter t PJSIP_TSX_STATE_TERMINATED"
  by (simp add: may_enter_def not_destroyed_iff)

lemma state_le_cases:
  "PJSIP_TSX_STATE_NULL \<le> st" "PJSIP_TSX_STATE_CALLING \<le> PJSIP_TSX_STATE_PROCEEDING"
  "PJSIP_TSX_STATE_CALLING \<le> PJSIP_TSX_STATE_COMPLETED" "PJSIP_TSX_STATE_TRYING \<le> PJSIP_TSX_STATE_PROCEEDING"
  "PJSIP_TSX_STATE_TRYING \<le> PJSIP_TSX_STATE_COMPLETED" "PJSIP_TSX_STATE_PROCEEDING \<le> PJSIP_TSX_STATE_COMPLETED"
  "PJSIP_TSX_STATE_COMPLETED \<le> PJSIP_TSX_STATE_CONFIRMED" "st \<le> PJSIP_TSX_STATE_DESTROYED"
  by (cases st; simp add: less_eq_pjsip_tsx_state_e_def)+

lemma null_adv:
  assumes "env_ok env" "tsx_ok t" "state t = PJSIP_TSX_STATE_NULL"
  shows "tsx_adv t (fst (tsx_on_state_null env ev t))"
proof (cases "role t = PJSIP_ROLE_UAS")
  case True
  then show ?thesis
    using adv_set_state [OF assms(1,2), of t PJSIP_TSX_STATE_TRYING ev False False] assms(3)
    by (simp add: tsx_on_state_null_def may_enter_def state_le_cases)
next
  case False
  then have uac: "role t = PJSIP_ROLE_UAC" using pjsip_role_e.exhaust by blast
  show ?thesis
  proof (cases ev)
    case (Ev_Tx_Msg d)
    let ?t1 = "save_last_tx d (drop_other_last_tx d t)"
    obtain t2 s2 where s2: "tsx_send_msg env (Some d) ?t1 = (t2, s2)" by (cases "tsx_send_msg env (Some d) ?t1")
    note send = adv_send [OF assms(1,2), of ?t1 "Some d", unfolded s2, simplified, simplified assms(3), simplified]
    show ?thesis
    proof (cases "s2 = PJ_SUCCESS")
      case True
      then have c2: "core t2 = core t" using send(2) by simp
      let ?t3 = "schedule Timeout_Timer (timeout_timer_val env) TIMEOUT_TIMER (unschedule Timeout_Timer t2)"
      let ?t4 = "if \<not> is_reliable ?t3 then start_retransmission (t1_timer_val env) ?t3 else ?t3"
      have "core ?t4 = core t" using c2 by simp
      then have "tsx_adv t (set_state env PJSIP_TSX_STATE_CALLING ev ?t4)"
        using assms uac by (intro adv_set_state) (auto simp: may_enter_def state_le_cases)
      then show ?thesis using True uac Ev_Tx_Msg by (simp add: tsx_on_state_null_def s2 Let_def)
    qed (use send(1) uac Ev_Tx_Msg in \<open>simp add: tsx_on_state_null_def s2 Let_def\<close>)
  qed (use uac assms(2) in \<open>simp_all add: tsx_on_state_null_def tsx_adv_core\<close>)
qed

lemma uac_2xx_adv:
  assumes "env_ok env" "tsx_ok t" "core t' = core t" "role t = PJSIP_ROLE_UAC" "state t \<le> PJSIP_TSX_STATE_COMPLETED"
  shows "tsx_adv t (uac_2xx env ev t')"
proof -
  have "may_enter t PJSIP_TSX_STATE_TERMINATED" "may_enter t PJSIP_TSX_STATE_COMPLETED"
    using assms(4,5) by (auto simp: may_enter_def less_eq_pjsip_tsx_state_e_def)
  then show ?thesis
    using assms(1-3) by (auto simp: uac_2xx_def Let_def intro!: adv_set_state)
qed

lemma uac_3xx_6xx_adv:
  assumes "env_ok env" "tsx_ok t" "core t' = core t" "role t = PJSIP_ROLE_UAC" "state t \<le> PJSIP_TSX_STATE_COMPLETED"
  shows "tsx_adv t (fst (uac_3xx_6xx env rd t'))"
proof -
  let ?t1 = "unschedule Timeout_Timer (unschedule Retransmit_Timer t')"
  have m: "may_enter t PJSIP_TSX_STATE_COMPLETED" using assms(4,5) by (simp add: may_enter_def)
  have nd: "state t \<noteq> PJSIP_TSX_STATE_DESTROYED" using assms(5) by (auto simp: less_eq_pjsip_tsx_state_e_def)
  have c1: "core ?t1 = core t" using assms(3) by simp
  have fin: "core (uac_final_timer env x) = core x" for x by (simp add: uac_final_timer_def Let_def)
  show ?thesis
  proof (cases "is_invite ?t1")
    case False
    have "tsx_adv t (set_state env PJSIP_TSX_STATE_COMPLETED (Ev_Rx_Msg rd) ?t1)"
      by (rule adv_set_state [OF assms(1,2) c1 m])
    then show ?thesis using False fin by (simp add: uac_3xx_6xx_def Let_def adv_after)
  next
    case True
    show ?thesis
    proof (cases "endpt_create_ack env (last_tx ?t1) rd")
      case (Inl e)
      then show ?thesis using True c1 assms(2) by (simp add: uac_3xx_6xx_def Let_def tsx_adv_core)
    next
      case (Inr ack)
      obtain t2 s2 where s2: "tsx_send_msg env (Some ack) ?t1 = (t2, s2)" by (cases "tsx_send_msg env (Some ack) ?t1")
      note send = adv_send [OF assms(1,2) c1 nd, of "Some ack", unfolded s2, simplified]
      show ?thesis
      proof (cases "s2 = PJ_SUCCESS")
        case False
        then show ?thesis using True Inr s2 send(1) by (simp add: uac_3xx_6xx_def Let_def)
      next
        case ok: True
        let ?t3 = "set_state env PJSIP_TSX_STATE_COMPLETED (Ev_Rx_Msg rd) t2"
        have a: "tsx_adv t ?t3" using ok send(2) by (intro adv_set_state [OF assms(1,2) _ m]) simp
        let ?t4 = "if map_option td_addr (last_tx ?t3) \<noteq> Some (td_addr ack) then
           (case last_tx ?t3 of Some d \<Rightarrow> tx_data_dec_ref d ?t3 | None \<Rightarrow> ?t3)\<lparr>last_tx := Some ack\<rparr> else ?t3"
        have "core ?t4 = core ?t3" by (simp split: option.split)
        then have "tsx_adv t (uac_final_timer env ?t4)" using a fin by (simp add: adv_after)
        then show ?thesis using True Inr s2 ok by (simp add: uac_3xx_6xx_def Let_def)
      qed
    qed
  qed
qed

lemma proceeding_uac_adv:
  assumes "env_ok env" "tsx_ok t" "core t' = core t" "role t = PJSIP_ROLE_UAC"
    and "state t = PJSIP_TSX_STATE_PROCEEDING \<or> state t = PJSIP_TSX_STATE_CALLING"
  shows "tsx_adv t (fst (tsx_on_state_proceeding_uac env ev t'))"
proof -
  have nd: "state t \<noteq> PJSIP_TSX_STATE_DESTROYED" and le: "state t \<le> PJSIP_TSX_STATE_COMPLETED"
    and p: "may_enter t PJSIP_TSX_STATE_PROCEEDING"
    using assms(4,5) by (auto simp: may_enter_def less_eq_pjsip_tsx_state_e_def)
  have r: "tsx_adv t t'" using assms(2,3) by (simp add: tsx_adv_core)
  have ok': "tsx_ok t'" "state t' \<noteq> PJSIP_TSX_STATE_DESTROYED"
    using tsx_ok_core [OF assms(3)] core_eq_simps [OF assms(3)] assms(2) nd by simp_all
  show ?thesis
  proof (cases ev)
    case (Ev_Rx_Msg rd)
    let ?t1 = "tsx_set_status_code (rx_code rd) (Some (rx_reason rd)) t'"
    have c1: "core ?t1 = core t" using assms(3) by simp
    show ?thesis
      using adv_set_state [OF assms(1,2) c1 p, of ev False False] uac_2xx_adv [OF assms(1,2) c1 assms(4) le, of ev]
        uac_3xx_6xx_adv [OF assms(1,2) c1 assms(4) le, of rd] tsx_adv_core [OF c1 assms(2)] r Ev_Rx_Msg
      by (simp add: tsx_on_state_proceeding_uac_def Let_def)
  next
    case (Ev_Timer e)
    show ?thesis
    proof (cases e)
      case Retransmit_Timer
      then show ?thesis using Ev_Timer adv_retransmit [OF assms(1) ok'] tsx_adv_core_left [OF assms(3)]
        by (simp add: tsx_on_state_proceeding_uac_def)
    next
      case Timeout_Timer
      then show ?thesis
        using Ev_Timer assms(3) adv_set_state [OF assms(1,2) _ may_enter_terminated [OF nd]]
        by (simp add: tsx_on_state_proceeding_uac_def)
    qed
  qed (use r in \<open>simp_all add: tsx_on_state_proceeding_uac_def\<close>)
qed

lemma calling_adv:
  assumes "env_ok env" "tsx_ok t" "role t = PJSIP_ROLE_UAC" "state t = PJSIP_TSX_STATE_CALLING"
  shows "tsx_adv t (fst (tsx_on_state_calling env ev t))"
proof -
  have nd: "state t \<noteq> PJSIP_TSX_STATE_DESTROYED" using assms(4) by simp
  have r: "tsx_adv t t" using assms(2) by (simp add: tsx_adv_core)
  show ?thesis
  proof (cases ev)
    case (Ev_Timer e)
    then show ?thesis
      using adv_retransmit [OF assms(1,2) nd] adv_set_state [OF assms(1,2) _ may_enter_terminated [OF nd]]
      by (cases e) (simp_all add: tsx_on_state_calling_def Let_def)
  next
    case (Ev_Rx_Msg rd)
    let ?t1 = "unschedule Retransmit_Timer t"
    let ?t2 = "(if rx_code rd \<ge> 200 then (if tm_id (timeout_timer ?t1) \<noteq> 0 then unschedule Timeout_Timer ?t1 else ?t1)
       else if is_invite ?t1 then unschedule Timeout_Timer ?t1
       else if \<not> is_reliable ?t1 then schedule Retransmit_Timer (t2_timer_val env) RETRANSMIT_TIMER ?t1 else ?t1)
         \<lparr>has_pending_resched := False\<rparr>"
    have "core ?t2 = core t" by simp
    then have "tsx_adv t (fst (tsx_on_state_proceeding_uac env ev ?t2))"
      using assms by (intro proceeding_uac_adv) auto
    then show ?thesis using Ev_Rx_Msg r by (simp add: tsx_on_state_calling_def Let_def)
  qed (use r in \<open>simp_all add: tsx_on_state_calling_def\<close>)
qed

lemma uas_final_adv:
  assumes "env_ok env" "tsx_ok t" "core t' = core t" "role t = PJSIP_ROLE_UAS"
    and "state t = PJSIP_TSX_STATE_PROCEEDING \<or> state t = PJSIP_TSX_STATE_TRYING"
  shows "tsx_adv t (uas_1xx env d t')" "tsx_adv t (uas_2xx env d t')" "tsx_adv t (uas_3xx_6xx env d t')"
proof -
  have m: "may_enter t PJSIP_TSX_STATE_PROCEEDING" "may_enter t PJSIP_TSX_STATE_COMPLETED" "may_enter t PJSIP_TSX_STATE_TERMINATED"
    using assms(4,5) by (auto simp: may_enter_def less_eq_pjsip_tsx_state_e_def)
  note set = adv_set_state [OF assms(1,2)]
  have "tsx_adv t (set_state env PJSIP_TSX_STATE_PROCEEDING (Ev_Tx_Msg d) (save_last_tx d t'))"
    using assms(3) by (intro set m) simp
  then show "tsx_adv t (uas_1xx env d t')"
    by (simp add: uas_1xx_def Let_def adv_after)
  show "tsx_adv t (uas_2xx env d t')" "tsx_adv t (uas_3xx_6xx env d t')"
    unfolding uas_2xx_def uas_3xx_6xx_def Let_def using assms(3) m by (auto intro!: set)
qed

lemma uas_send_adv:
  assumes "env_ok env" "tsx_ok t" "role t = PJSIP_ROLE_UAS"
    and "state t = PJSIP_TSX_STATE_PROCEEDING \<or> state t = PJSIP_TSX_STATE_TRYING"
  shows "tsx_adv t (fst (uas_send_response env d t))"
proof -
  let ?t1 = "drop_other_last_tx d (tsx_set_status_code (td_code d) (Some (td_reason d)) t)"
  have c1: "core ?t1 = core t" and nd: "state t \<noteq> PJSIP_TSX_STATE_DESTROYED" using assms(4) by auto
  obtain t2 s2 where s2: "tsx_send_msg env (Some d) ?t1 = (t2, s2)" by (cases "tsx_send_msg env (Some d) ?t1")
  note send = adv_send [OF assms(1,2) c1 nd, of "Some d", unfolded s2, simplified]
  have r: "tsx_adv t t" using assms(2) by (simp add: tsx_adv_core)
  show ?thesis
  proof (cases "td_is_request d \<or> s2 \<noteq> PJ_SUCCESS")
    case True
    then show ?thesis using r send(1) by (auto simp: uas_send_response_def Let_def s2)
  next
    case False
    then have c2: "core t2 = core t" using send(2) by simp
    show ?thesis
      using False uas_final_adv [OF assms(1,2) c2 assms(3,4)] tsx_adv_core [OF c2 assms(2)]
      by (simp add: uas_send_response_def Let_def s2)
  qed
qed

lemma proceeding_uas_adv:
  assumes "env_ok env" "tsx_ok t" "role t = PJSIP_ROLE_UAS"
    and "state t = PJSIP_TSX_STATE_PROCEEDING \<or> state t = PJSIP_TSX_STATE_TRYING"
  shows "tsx_adv t (fst (tsx_on_state_proceeding_uas env ev t))"
proof -
  have nd: "state t \<noteq> PJSIP_TSX_STATE_DESTROYED" using assms(4) by auto
  have r: "tsx_adv t t'" if "core t' = core t" for t' using assms(2) that by (simp add: tsx_adv_core)
  show ?thesis
  proof (cases ev)
    case (Ev_Timer e)
    then show ?thesis
      using adv_retransmit [OF assms(1,2) nd] adv_set_state [OF assms(1,2) _ may_enter_terminated [OF nd]]
      by (cases e) (simp_all add: tsx_on_state_proceeding_uas_def)
  next
    case (Ev_Rx_Msg rd)
    then show ?thesis using r adv_send(1) [OF assms(1,2) refl nd]
      by (simp add: tsx_on_state_proceeding_uas_def)
  next
    case (Ev_Tx_Msg d)
    then show ?thesis using uas_send_adv [OF assms] by (simp add: tsx_on_state_proceeding_uas_def)
  qed (use r in \<open>simp_all add: tsx_on_state_proceeding_uas_def\<close>)
qed

lemma trying_adv:
  assumes "env_ok env" "tsx_ok t" "role t = PJSIP_ROLE_UAS" "state t = PJSIP_TSX_STATE_TRYING"
  shows "tsx_adv t (fst (tsx_on_state_trying env ev t))"
proof (cases ev)
  case (Ev_Tx_Msg d)
  obtain t2 s2 where s2: "tsx_on_state_proceeding_uas env ev t = (t2, s2)" by (cases "tsx_on_state_proceeding_uas env ev t")
  have a: "tsx_adv t t2" using proceeding_uas_adv [OF assms(1-3), of ev] assms(4) s2 by simp
  have "tsx_adv t2 (set_state env PJSIP_TSX_STATE_PROCEEDING ev t2)" if "state t2 = PJSIP_TSX_STATE_TRYING"
    using that assms(3) a
    by (intro adv_set_state assms(1)) (auto simp: tsx_adv_def may_enter_def less_eq_pjsip_tsx_state_e_def)
  then show ?thesis
    using a Ev_Tx_Msg s2 by (auto simp: tsx_on_state_trying_def Let_def intro: tsx_adv_trans)
qed (use assms(2) in \<open>simp_all add: tsx_on_state_trying_def tsx_adv_core\<close>)

lemma completed_uas_adv:
  assumes "env_ok env" "tsx_ok t" "role t = PJSIP_ROLE_UAS" "state t = PJSIP_TSX_STATE_COMPLETED"
  shows "tsx_adv t (fst (tsx_on_state_completed_uas env ev t))"
proof -
  have nd: "state t \<noteq> PJSIP_TSX_STATE_DESTROYED" using assms(4) by auto
  have r: "tsx_adv t t" using assms(2) by (simp add: tsx_adv_core)
  have m: "may_enter t PJSIP_TSX_STATE_CONFIRMED" using assms(3,4) by (simp add: may_enter_def state_le_cases)
  note rt = adv_retransmit [OF assms(1,2) nd] and tmd = adv_set_state [OF assms(1,2) _ may_enter_terminated [OF nd]]
  show ?thesis
  proof (cases ev)
    case (Ev_Timer e)
    then show ?thesis using rt tmd by (cases e) (simp_all add: tsx_on_state_completed_uas_def Let_def)
  next
    case (Ev_Rx_Msg rd)
    then show ?thesis using r rt adv_set_state [OF assms(1,2) _ m]
      by (simp add: tsx_on_state_completed_uas_def Let_def)
  qed (use r in \<open>simp_all add: tsx_on_state_completed_uas_def\<close>)
qed

lemma completed_uac_adv:
  assumes "env_ok env" "tsx_ok t" "state t = PJSIP_TSX_STATE_COMPLETED"
  shows "tsx_adv t (fst (tsx_on_state_completed_uac env ev t))"
proof -
  have nd: "state t \<noteq> PJSIP_TSX_STATE_DESTROYED" using assms(3) by auto
  have r: "tsx_adv t t" using assms(2) by (simp add: tsx_adv_core)
  note rt = adv_retransmit [OF assms(1,2) nd] and tmd = adv_set_state [OF assms(1,2) refl may_enter_terminated [OF nd]]
  show ?thesis
  proof (cases ev)
    case (Ev_Timer e)
    then show ?thesis using r tmd by (cases e) (simp_all add: tsx_on_state_completed_uac_def)
  qed (use r rt in \<open>simp_all add: tsx_on_state_completed_uac_def\<close>)
qed

lemma confirmed_adv:
  assumes "env_ok env" "tsx_ok t" "state t = PJSIP_TSX_STATE_CONFIRMED"
  shows "tsx_adv t (fst (tsx_on_state_confirmed env ev t))"
proof -
  have nd: "state t \<noteq> PJSIP_TSX_STATE_DESTROYED" using assms(3) by auto
  have r: "tsx_adv t t" using assms(2) by (simp add: tsx_adv_core)
  note tmd = adv_set_state [OF assms(1,2) refl may_enter_terminated [OF nd]]
  show ?thesis
  proof (cases ev)
    case (Ev_Timer e)
    then show ?thesis using r tmd by (cases e) (simp_all add: tsx_on_state_confirmed_def)
  qed (use r in \<open>simp_all add: tsx_on_state_confirmed_def\<close>)
qed

lemma terminated_adv:
  assumes "env_ok env" "tsx_ok t"
  shows "tsx_adv t (fst (tsx_on_state_terminated env ev t))"
  using adv_set_state [OF assms refl, of PJSIP_TSX_STATE_DESTROYED ev False False] assms(2)
  by (cases ev) (simp_all add: tsx_on_state_terminated_def tsx_adv_core may_enter_def state_le_cases)

lemma handler_adv:
  assumes "env_ok env" "tsx_ok t"
  shows "\<exists>t' status. call_state_handler env ev t = Some (t', status) \<and> tsx_adv t t'"
proof -
  note all = null_adv [OF assms, of ev] calling_adv [OF assms, of ev] trying_adv [OF assms, of ev]
    proceeding_uas_adv [OF assms, of ev] proceeding_uac_adv [OF assms refl, of ev] completed_uas_adv [OF assms, of ev]
    completed_uac_adv [OF assms, of ev] confirmed_adv [OF assms, of ev] terminated_adv [OF assms, of ev]
    tsx_adv_core [OF refl assms(2)]
  show ?thesis
  proof (cases "role t")
    case PJSIP_ROLE_UAC
    then have h: "state_handler t = tsx_state_handler_uac (state t)" "state t \<noteq> PJSIP_TSX_STATE_TRYING"
      using assms(2) by (simp_all add: tsx_ok_def)
    show ?thesis
      using all h PJSIP_ROLE_UAC
      by (cases "state t") (simp_all add: call_state_handler_def tsx_state_handler_uac_def tsx_on_state_destroyed_def prod_eq_iff)
  next
    case PJSIP_ROLE_UAS
    then have h: "state_handler t = tsx_state_handler_uas (state t)" "state t \<noteq> PJSIP_TSX_STATE_CALLING"
      using assms(2) by (simp_all add: tsx_ok_def)
    show ?thesis
      using all h PJSIP_ROLE_UAS
      by (cases "state t") (simp_all add: call_state_handler_def tsx_state_handler_uas_def tsx_on_state_destroyed_def prod_eq_iff)
  qed
qed

section \<open>Timers, user calls and callbacks\<close>

lemma transport_err_adv:
  assumes "env_ok env" "tsx_ok t"
  shows "tsx_adv t (transport_err_timer env t)"
proof (cases "state t < PJSIP_TSX_STATE_TERMINATED")
  case True
  let ?t1 = "tsx_update_transport env None t"
  define t2 where "t2 = (if status_code ?t1 < 200
    then tsx_set_status_code PJSIP_SC_TSX_TRANSPORT_ERROR (Some (strerror env (transport_err ?t1))) ?t1 else ?t1)"
  let ?t3 = "tsx_set_state env PJSIP_TSX_STATE_TERMINATED Ev_Transport_Error True True t2"
  have "state t \<noteq> PJSIP_TSX_STATE_DESTROYED" using True by (auto simp: less_pjsip_tsx_state_e_def)
  then have a: "tsx_adv t ?t3"
    by (intro adv_set_state [OF assms] may_enter_terminated) (simp_all add: t2_def)
  have "tsx_adv t (notify_tu env (state t) Ev_Transport_Error ?t3)"
    using tsx_adv_trans [OF a notify_adv [OF assms(1) tsx_adv_ok [OF a]]] .
  then have "tsx_adv t (schedule Timeout_Timer (Time_Val 0 0) TIMEOUT_TIMER (notify_tu env (state t) Ev_Transport_Error ?t3))"
    by (rule adv_after) simp
  then show ?thesis using True by (simp add: transport_err_timer_def Let_def t2_def)
qed (use assms(2) in \<open>simp add: transport_err_timer_def tsx_adv_core\<close>)

lemma timer_fires_adv:
  assumes "env_ok env" "tsx_ok t"
  shows "\<exists>t'. tsx_timer_fires env e t = Some t' \<and> tsx_adv t t'"
proof -
  define t1 where "t1 = set_timer e ((get_timer e t)\<lparr>tm_running := False\<rparr>) t"
  define t2 where "t2 = set_timer e ((get_timer e t1)\<lparr>tm_id := 0\<rparr>) t1"
  have c: "core t1 = core t" "core t2 = core t" by (simp_all add: t1_def t2_def)
  have ok2: "tsx_ok t2" using assms(2) tsx_ok_core [OF c(2)] by simp
  obtain t3 s3 where h: "call_state_handler env (Ev_Timer e) t2 = Some (t3, s3)" "tsx_adv t2 t3"
    using handler_adv [OF assms(1) ok2] by blast
  have "\<exists>t4. tsx_timer_callback env e t1 = Some t4 \<and> tsx_adv t t4"
    using h(1) tsx_adv_core_left [OF c(2) h(2)] tsx_adv_core_left [OF c(2) transport_err_adv [OF assms(1) ok2]]
      tsx_adv_core [OF c(1) assms(2)]
    by (simp add: tsx_timer_callback_def Let_def t2_def [symmetric])
  then show ?thesis
    by (auto simp: tsx_timer_fires_def t1_def intro: adv_after [OF _ core_refs(2)])
qed

lemma terminate_adv:
  assumes "env_ok env" "tsx_ok t"
  shows "tsx_adv t (fst (pjsip_tsx_terminate env code t))"
proof -
  have "state t < PJSIP_TSX_STATE_TERMINATED \<Longrightarrow> may_enter t PJSIP_TSX_STATE_TERMINATED"
    by (auto simp: may_enter_def less_pjsip_tsx_state_e_def less_eq_pjsip_tsx_state_e_def)
  then show ?thesis
    using adv_set_state [OF assms] tsx_adv_core [OF refl assms(2)] by (simp add: pjsip_tsx_terminate_def)
qed

lemma send_msg_callback_adv:
  assumes "env_ok env" "tsx_ok t" "state t \<noteq> PJSIP_TSX_STATE_DESTROYED"
  shows "tsx_adv t (fst (send_msg_callback env d tp sent cont t))"
proof -
  have r: "tsx_adv t t'" if "core t' = core t" for t' using that assms(2) by (simp add: tsx_adv_core)
  have dest: "may_enter t PJSIP_TSX_STATE_DESTROYED" by (simp add: may_enter_def state_le_cases)
  note set = adv_set_state [OF assms(1,2)]
  have succ: "tsx_adv t (send_msg_success env tp t')" if c: "core t' = core t" for t'
  proof -
    define t1 where "t1 = (if transport t' \<noteq> tp then
        (tsx_update_transport env tp t')\<lparr>is_reliable := (case transport (tsx_update_transport env tp t') of Some p \<Rightarrow> tp_is_reliable env p | None \<Rightarrow> False)\<rparr>
        else t')\<lparr>has_pending_transport := False, has_resolved_server := True\<rparr>"
    have c1: "core t1 = core t" using c by (simp add: t1_def)
    define t2 where "t2 = (if has_pending_send t1 then fst (tsx_send_msg env (last_tx t1) (t1\<lparr>has_pending_send := False\<rparr>)) else t1)"
    have a2: "tsx_adv t t2" using adv_send(1) [OF assms(1,2) _ assms(3)] r c1 by (simp add: t2_def)
    have "send_msg_success env tp t' = (if has_pending_destroy t1 then set_state env PJSIP_TSX_STATE_DESTROYED Ev_Unknown t1
       else if has_pending_resched t2 \<and> \<not> has_pending_transport t2
            then (if \<not> is_reliable (t2\<lparr>has_pending_resched := False\<rparr>) then tsx_resched_retransmission env (t2\<lparr>has_pending_resched := False\<rparr>)
                  else t2\<lparr>has_pending_resched := False\<rparr>) else t2)"
      unfolding send_msg_success_def Let_def t2_def t1_def by simp
    then show ?thesis using set [OF c1 dest] a2 adv_after [OF a2] by simp
  qed
  have fail: "tsx_adv t (send_msg_failed env d err t')" if c: "core t' = core t" for t' err
    using set [OF _ may_enter_terminated [OF assms(3)]] set [OF _ dest] r c
    by (simp add: send_msg_failed_def Let_def)
  have nxt: "tsx_adv t (send_msg_next_server env d t')" if c: "core t' = core t" for t'
    using r c by (simp add: send_msg_next_server_def Let_def)
  show ?thesis
    using r succ fail nxt by (cases sent) (simp_all add: send_msg_callback_def Let_def)
qed

lemma core_callbacks [simp]:
  "core (transport_callback sent t) = core t" "core (fst (pjsip_tsx_stop_retransmit t)) = core t"
  "core (fst (pjsip_tsx_set_timeout ms t)) = core t"
  by (simp_all add: transport_callback_def pjsip_tsx_stop_retransmit_def pjsip_tsx_set_timeout_def Let_def
      split: send_result.split)

lemma step_adv: "tsx_step env t t' \<Longrightarrow> env_ok env \<Longrightarrow> tsx_ok t \<Longrightarrow> tsx_adv t t'"
proof (induction rule: tsx_step.induct)
  case (step_event ev t t' status)
  then show ?case using handler_adv [of env t ev] by auto
next
  case (step_timer e t t')
  then show ?case using timer_fires_adv [of env t e] by auto
qed (simp_all add: terminate_adv send_msg_callback_adv tsx_adv_core)

lemma steps_adv: "(tsx_step env)\<^sup>*\<^sup>* t t' \<Longrightarrow> env_ok env \<Longrightarrow> tsx_ok t \<Longrightarrow> tsx_adv t t'"
proof (induction rule: rtranclp_induct)
  case (step y z)
  then show ?case using step_adv [of env y z] tsx_adv_trans tsx_adv_ok by blast
qed (simp add: tsx_adv_core)

end
