(* ===== verification/Tsx_Timed.thy ===== *)
theory Tsx_Timed
  imports Tsx_Progress
begin

text \<open>
  No leaked transactions: in every state from Completed to Terminated the timeout timer of a
  transaction is running, so that it will go on to the next state and finally be destroyed.
\<close>

section \<open>Definitions\<close>

text \<open>State and timeout timer, which the following invariant looks at.\<close>

definition watch :: "tsx \<Rightarrow> pjsip_tsx_state_e \<times> pjsip_role_e \<times> pjsip_method \<times> tsx_handler option \<times> tsx_timer" where
  "watch t = (state t, role t, tsx_method t, state_handler t, timeout_timer t)"

text \<open>A user and transports that leave these alone when they are called.\<close>

definition env_calm :: "tsx_env \<Rightarrow> bool" where
  "env_calm env \<longleftrightarrow>
     (\<forall>prev src t. watch (on_tsx_state env prev src t) = watch t)
     \<and> (\<forall>rdata t. watch (on_rx_response env rdata t) = watch t)
     \<and> (\<forall>tp d t. watch (fst (transport_send env tp d t)) = watch t)
     \<and> (\<forall>d t. watch (fst (send_request_stateless env d t)) = watch t)
     \<and> (\<forall>d t. watch (fst (send_response env d t)) = watch t)"

text \<open>The timeout timer is running to end the transaction.\<close>

definition armed :: "tsx_timer \<Rightarrow> bool" where
  "armed tm \<longleftrightarrow> tm_running tm \<and> tm_id tm = TIMEOUT_TIMER"

text \<open>From Completed on, until it is destroyed, a transaction has its end scheduled.\<close>

definition timed :: "tsx \<Rightarrow> bool" where
  "timed t \<longleftrightarrow> (PJSIP_TSX_STATE_COMPLETED \<le> state t \<and> state t \<le> PJSIP_TSX_STATE_TERMINATED \<longrightarrow> armed (timeout_timer t))"

text \<open>Unchanged, or terminated with the timeout timer running.\<close>

definition kept :: "tsx \<Rightarrow> tsx \<Rightarrow> bool" where
  "kept t t' \<longleftrightarrow> watch t' = watch t \<or> (state t' = PJSIP_TSX_STATE_TERMINATED \<and> armed (timeout_timer t'))"

section \<open>State changes and sending\<close>

lemma watch_core: "watch t' = watch t \<longleftrightarrow> core t' = core t \<and> timeout_timer t' = timeout_timer t"
  by (auto simp: watch_def core_def)

lemma env_calm_ok: "env_calm env \<Longrightarrow> env_ok env"
  by (auto simp: env_calm_def env_ok_def watch_core send_adv_def tsx_adv_core)

lemma timeout_simps [simp]:
  "timeout_timer (grp_lock_add_ref t) = timeout_timer t" "timeout_timer (grp_lock_dec_ref t) = timeout_timer t"
  "timeout_timer (tx_data_add_ref d t) = timeout_timer t" "timeout_timer (tx_data_dec_ref d t) = timeout_timer t"
  "timeout_timer (attach_tx d t) = timeout_timer t" "timeout_timer (detach_tx d t) = timeout_timer t"
  "timeout_timer (set_timer Retransmit_Timer tm t) = timeout_timer t" "timeout_timer (set_timer Timeout_Timer tm t) = tm"
  "get_timer Timeout_Timer t = timeout_timer t" "get_timer Retransmit_Timer t = retransmit_timer t"
  "timeout_timer (unschedule Retransmit_Timer t) = timeout_timer t"
  "timeout_timer (schedule Retransmit_Timer dl i t) = timeout_timer t"
  by (simp_all add: grp_lock_add_ref_def grp_lock_dec_ref_def tx_data_add_ref_def tx_data_dec_ref_def
      attach_tx_def detach_tx_def set_timer_def get_timer_def tsx_cancel_timer_def tsx_schedule_timer_def)

lemma timeout_scheduled [simp]:
  "\<not> tm_running (timeout_timer t) \<Longrightarrow> armed (timeout_timer (schedule Timeout_Timer dl TIMEOUT_TIMER t))"
  "\<not> tm_running (timeout_timer (unschedule Timeout_Timer t))"
  by (simp_all add: tsx_schedule_timer_def tsx_cancel_timer_def armed_def)

lemma timeout_misc [simp]:
  "timeout_timer (tsx_update_transport env None t) = timeout_timer t"
  "timeout_timer (tsx_set_status_code c r t) = timeout_timer t"
  "timeout_timer (save_last_tx d t) = timeout_timer t" "timeout_timer (drop_other_last_tx d t) = timeout_timer t"
  "timeout_timer (tsx_resched_retransmission env t) = timeout_timer t"
  "timeout_timer (start_retransmission dl t) = timeout_timer t"
  by (simp_all add: tsx_update_transport_def tsx_set_status_code_def save_last_tx_def drop_other_last_tx_def
      tsx_resched_retransmission_def start_retransmission_def Let_def split: option.split)

lemma state_simps [simp]:
  "state (grp_lock_add_ref t) = state t" "state (grp_lock_dec_ref t) = state t"
  "state (tx_data_add_ref d t) = state t" "state (tx_data_dec_ref d t) = state t"
  "state (attach_tx d t) = state t" "state (detach_tx d t) = state t" "state (set_timer e tm t) = state t"
  "state (schedule e dl i t) = state t" "state (unschedule e t) = state t"
  "state (tsx_tp_state_callback s t) = state t" "state (tsx_update_transport env tp t) = state t"
  "state (tsx_set_status_code c r t) = state t" "state (mod_tsx_layer_unregister_tsx t) = state t"
  "state (save_last_tx d t) = state t" "state (drop_other_last_tx d t) = state t"
  "state (tsx_resched_retransmission env t) = state t" "state (start_retransmission dl t) = state t"
  "state (set_state_terminated ns t) = state t" "state (tsx_shutdown env t) = state t"
  by (rule core_eq_simps(1); simp)+

lemma kept_timed: "kept t t' \<Longrightarrow> timed t \<Longrightarrow> timed t'"
  by (auto simp: kept_def timed_def watch_core core_def)

lemma kept_refl [simp]: "kept t t"
  by (simp add: kept_def)

lemma kept_watch_left: "watch t' = watch t \<Longrightarrow> kept t' t'' \<Longrightarrow> kept t t''"
  by (auto simp: kept_def)

lemma calm_notify:
  assumes "env_calm env"
  shows "watch (set_state_notify env prev src nn t) = watch t" "watch (notify_tu env prev src t) = watch t"
proof -
  show n: "watch (notify_tu env prev src t) = watch t" for t
    using assms by (simp add: notify_tu_def env_calm_def) (simp add: watch_def)
  show "watch (set_state_notify env prev src nn t) = watch t"
    using assms n by (simp add: set_state_notify_def Let_def env_calm_def split: tsx_event.split)
qed

lemma watch_simps: "watch t' = watch t \<Longrightarrow> state t' = state t" "watch t' = watch t \<Longrightarrow> timeout_timer t' = timeout_timer t"
  by (simp_all add: watch_def)

lemma calm_set_state:
  assumes "env_calm env"
  shows "state (tsx_set_state env st src nn ns t) = st"
    "st \<noteq> PJSIP_TSX_STATE_TERMINATED \<Longrightarrow> st \<noteq> PJSIP_TSX_STATE_DESTROYED
      \<Longrightarrow> timeout_timer (tsx_set_state env st src nn ns t) = timeout_timer t"
    "st = PJSIP_TSX_STATE_TERMINATED \<Longrightarrow> \<not> ns \<Longrightarrow> armed (timeout_timer (tsx_set_state env st src nn ns t))"
    "st = PJSIP_TSX_STATE_TERMINATED \<Longrightarrow> ns \<Longrightarrow> \<not> tm_running (timeout_timer (tsx_set_state env st src nn ns t))"
proof -
  define t1 where "t1 = t\<lparr>state := st, state_handler := (if role t = PJSIP_ROLE_UAC then tsx_state_handler_uac st
     else tsx_state_handler_uas st)\<rparr>"
  define t2 where "t2 = set_state_notify env (state t) src nn t1"
  have w: "state t2 = st" "timeout_timer t2 = timeout_timer t"
    using calm_notify(1) [OF assms, of "state t" src nn t1] by (simp_all add: t2_def watch_def t1_def)
  have e: "tsx_set_state env st src nn ns t = (if st = PJSIP_TSX_STATE_TERMINATED then set_state_terminated ns t2
     else if st = PJSIP_TSX_STATE_DESTROYED then tsx_shutdown env (mod_tsx_layer_unregister_tsx t2) else t2)"
    by (simp add: tsx_set_state_def Let_def t1_def t2_def)
  show "state (tsx_set_state env st src nn ns t) = st" using w by (simp add: e)
  show "st \<noteq> PJSIP_TSX_STATE_TERMINATED \<Longrightarrow> st \<noteq> PJSIP_TSX_STATE_DESTROYED
      \<Longrightarrow> timeout_timer (tsx_set_state env st src nn ns t) = timeout_timer t" using w by (simp add: e)
  show "st = PJSIP_TSX_STATE_TERMINATED \<Longrightarrow> \<not> ns \<Longrightarrow> armed (timeout_timer (tsx_set_state env st src nn ns t))"
    unfolding e by (simp add: set_state_terminated_def Let_def)
  show "st = PJSIP_TSX_STATE_TERMINATED \<Longrightarrow> ns \<Longrightarrow> \<not> tm_running (timeout_timer (tsx_set_state env st src nn ns t))"
    unfolding e by (simp add: set_state_terminated_def Let_def)
qed

lemma timed_terminated: "env_calm env \<Longrightarrow> timed (set_state env PJSIP_TSX_STATE_TERMINATED src t)"
  by (simp add: timed_def calm_set_state)

lemma timed_destroyed: "env_calm env \<Longrightarrow> timed (set_state env PJSIP_TSX_STATE_DESTROYED src t)"
  by (simp add: timed_def calm_set_state less_eq_pjsip_tsx_state_e_def)

lemma timed_early: "state t < PJSIP_TSX_STATE_COMPLETED \<Longrightarrow> timed t"
  by (simp add: timed_def not_le [symmetric])

lemma timed_running: "armed (timeout_timer t) \<Longrightarrow> timed t"
  by (simp add: timed_def)

lemma calm_send_resolve:
  assumes "env_calm env"
  shows "kept t (fst (send_resolve env d s t))"
proof (cases "has_resolved_server t")
  case True
  then show ?thesis using assms by (simp add: send_resolve_def Let_def kept_def calm_set_state)
next
  case False
  define t1 where "t1 = (grp_lock_add_ref ((attach_tx d (tx_data_add_ref d t))\<lparr>pending_tx := Some d\<rparr>))\<lparr>has_pending_transport := True\<rparr>"
  define r where "r = (if td_is_request d then send_request_stateless env d t1 else send_response env d t1)"
  obtain t2 st2 where r2: "r = (t2, st2)" by (cases r)
  define st3 where "st3 = (if st2 = PJ_EPENDING then PJ_SUCCESS else st2)"
  have w2: "watch t2 = watch t"
  proof -
    have "watch (fst r) = watch t1" using assms by (simp add: r_def env_calm_def)
    then show ?thesis by (simp add: r2) (simp add: t1_def watch_core)
  qed
  have "fst (send_resolve env d s t) = (if st3 \<noteq> PJ_SUCCESS then
      (detach_tx d (tx_data_dec_ref d (if td_is_request d then grp_lock_dec_ref t2 else t2)))\<lparr>pending_tx := None\<rparr> else t2)"
    unfolding send_resolve_def Let_def by (fold t1_def, fold r_def) (simp add: False r2 st3_def)
  then have "watch (fst (send_resolve env d s t)) = watch t" using w2 by (simp add: watch_core)
  then show ?thesis by (simp add: kept_def)
qed

lemma calm_send:
  assumes "env_calm env"
  shows "kept t (fst (tsx_send_msg env d t))"
proof (cases d)
  case (Some x)
  have res: "kept t (fst (send_resolve env x s t'))" if "watch t' = watch t" for t' s
    using calm_send_resolve [OF assms, of t' x s] kept_watch_left [OF that] by simp
  have r: "kept t t'" if "watch t' = watch t" for t' using that by (simp add: kept_def)
  show ?thesis
  proof (cases "has_pending_transport t \<or> td_is_pending x \<or> transport t = None")
    case True
    then show ?thesis using Some res [of t] r by (auto simp: tsx_send_msg_def watch_core)
  next
    case False
    then obtain tp where tp: "transport t = Some tp" by auto
    define t1 where "t1 = (grp_lock_add_ref t)\<lparr>has_pending_transport := True\<rparr>"
    obtain t2 s2 where t2: "transport_send env tp x t1 = (t2, s2)" by (cases "transport_send env tp x t1")
    have "watch t2 = watch t1" using assms t2 by (metis env_calm_def fst_conv)
    then have w2: "core t2 = core t" "timeout_timer t2 = timeout_timer t" by (simp_all add: watch_core t1_def)
    then show ?thesis
      using False Some tp r res
      by (simp add: tsx_send_msg_def Let_def t1_def [symmetric] t2 watch_core)
  qed
qed (simp add: tsx_send_msg_def)

lemma calm_retransmit:
  assumes "env_calm env"
  shows "kept t (fst (tsx_retransmit env r t))"
proof -
  let ?t1 = "t\<lparr>retransmit_count := retransmit_count t + 1\<rparr>"
  define t2 where "t2 = (if r then (if has_pending_transport ?t1 then ?t1\<lparr>has_pending_resched := True\<rparr>
    else tsx_resched_retransmission env ?t1) else ?t1)"
  have w: "watch t2 = watch t" by (simp add: t2_def watch_core)
  have "tsx_retransmit env r t = (if r \<and> tm_running (retransmit_timer t) then (t, PJ_SUCCESS)
    else if last_tx t = None then (t, PJ_EBUG) else tsx_send_msg env (last_tx t2) t2)"
    unfolding tsx_retransmit_def Let_def t2_def by (rule refl)
  then show ?thesis using kept_watch_left [OF w calm_send [OF assms, of t2 "last_tx t2"]] by simp
qed

text \<open>A state change whose target needs no timer, or has it running.\<close>

lemma timed_set:
  assumes "env_calm env" "st \<le> PJSIP_TSX_STATE_CONFIRMED"
    and "PJSIP_TSX_STATE_COMPLETED \<le> st \<Longrightarrow> armed (timeout_timer t)"
  shows "timed (set_state env st src t)"
  using assms by (cases st) (auto simp: timed_def calm_set_state less_eq_pjsip_tsx_state_e_def)

lemma timed_handlers_uac:
  assumes "env_calm env"
  shows "timed (uac_2xx env ev t)" "state t < PJSIP_TSX_STATE_COMPLETED \<Longrightarrow> timed (fst (uac_3xx_6xx env rd t))"
proof -
  show "timed (uac_2xx env ev t)"
    using assms by (auto simp: uac_2xx_def Let_def less_eq_pjsip_tsx_state_e_def intro!: timed_set timed_terminated)
  have fin: "timed (uac_final_timer env x)" for x by (simp add: uac_final_timer_def Let_def timed_running)
  show "timed (fst (uac_3xx_6xx env rd t))" if s: "state t < PJSIP_TSX_STATE_COMPLETED"
  proof -
    let ?t1 = "unschedule Timeout_Timer (unschedule Retransmit_Timer t)"
    have early: "timed ?t1" using s by (intro timed_early) simp
    have send: "timed (fst (tsx_send_msg env (Some ack) ?t1))" for ack
      using kept_timed [OF calm_send [OF assms] early] .
    show ?thesis
      using fin early send by (auto simp: uac_3xx_6xx_def Let_def split: sum.splits prod.splits) (metis fst_conv)
  qed
qed

section \<open>The handlers\<close>

lemma state_lt [simp]:
  "PJSIP_TSX_STATE_NULL < PJSIP_TSX_STATE_COMPLETED" "PJSIP_TSX_STATE_CALLING < PJSIP_TSX_STATE_COMPLETED"
  "PJSIP_TSX_STATE_TRYING < PJSIP_TSX_STATE_COMPLETED" "PJSIP_TSX_STATE_PROCEEDING < PJSIP_TSX_STATE_COMPLETED"
  by (simp_all add: less_pjsip_tsx_state_e_def)

lemma timed_set_early:
  "env_calm env \<Longrightarrow> st < PJSIP_TSX_STATE_COMPLETED \<Longrightarrow> timed (tsx_set_state env st src nn ns t)"
  by (simp add: timed_early calm_set_state)

lemma timed_retransmit: "env_calm env \<Longrightarrow> timed t \<Longrightarrow> timed (fst (tsx_retransmit env r t))"
  using kept_timed calm_retransmit by blast

lemma timed_send: "env_calm env \<Longrightarrow> timed t \<Longrightarrow> timed (fst (tsx_send_msg env d t))"
  using kept_timed calm_send by blast

lemmas timed_intros = timed_set_early timed_terminated timed_destroyed timed_retransmit timed_send

lemma null_timed:
  assumes "env_calm env" "state t = PJSIP_TSX_STATE_NULL"
  shows "timed (fst (tsx_on_state_null env ev t))"
proof (cases "role t = PJSIP_ROLE_UAS")
  case True
  then show ?thesis using assms by (simp add: tsx_on_state_null_def timed_set_early)
next
  case False
  show ?thesis
  proof (cases ev)
    case (Ev_Tx_Msg d)
    let ?t1 = "save_last_tx d (drop_other_last_tx d t)"
    have "timed (fst (tsx_send_msg env (Some d) ?t1))"
      using assms by (intro timed_send timed_early) simp_all
    then show ?thesis
      using False Ev_Tx_Msg assms(1)
      by (auto simp: tsx_on_state_null_def Let_def timed_set_early split: prod.splits)
  qed (use False assms in \<open>simp_all add: tsx_on_state_null_def timed_early\<close>)
qed

lemma proceeding_uac_timed:
  assumes "env_calm env" "state t < PJSIP_TSX_STATE_COMPLETED"
  shows "timed (fst (tsx_on_state_proceeding_uac env ev t))"
proof (cases ev)
  case (Ev_Timer e)
  then show ?thesis using assms
    by (cases e) (simp_all add: tsx_on_state_proceeding_uac_def timed_intros timed_early)
next
  case (Ev_Rx_Msg rd)
  then show ?thesis using assms
    by (simp add: tsx_on_state_proceeding_uac_def Let_def timed_intros timed_early timed_handlers_uac)
qed (use assms in \<open>simp_all add: tsx_on_state_proceeding_uac_def timed_early\<close>)

lemma calling_timed:
  assumes "env_calm env" "state t = PJSIP_TSX_STATE_CALLING"
  shows "timed (fst (tsx_on_state_calling env ev t))"
proof (cases ev)
  case (Ev_Timer e)
  then show ?thesis using assms
    by (cases e) (simp_all add: tsx_on_state_calling_def Let_def timed_intros timed_early)
next
  case (Ev_Rx_Msg rd)
  then show ?thesis using assms
    by (auto simp: tsx_on_state_calling_def Let_def timed_early intro!: proceeding_uac_timed)
qed (use assms in \<open>simp_all add: tsx_on_state_calling_def timed_early\<close>)

lemma uas_response_timed:
  assumes "env_calm env" "state t < PJSIP_TSX_STATE_COMPLETED"
  shows "timed (fst (uas_send_response env d t))"
proof -
  have f1: "timed (uas_1xx env d t')" for t'
    using calm_set_state(1) [OF assms(1)] by (intro timed_early) (simp add: uas_1xx_def Let_def)
  have f2: "timed (uas_2xx env d t')" "timed (uas_3xx_6xx env d t')" for t'
    using assms(1) by (auto simp: uas_2xx_def uas_3xx_6xx_def Let_def less_eq_pjsip_tsx_state_e_def
        intro!: timed_set timed_terminated)
  have "timed (fst (tsx_send_msg env (Some d) (drop_other_last_tx d (tsx_set_status_code (td_code d) (Some (td_reason d)) t))))"
    using assms by (intro timed_send timed_early) simp_all
  then show ?thesis using f1 f2 timed_early [OF assms(2)]
    by (auto simp: uas_send_response_def Let_def split: prod.splits)
qed

lemma proceeding_uas_timed:
  assumes "env_calm env" "state t < PJSIP_TSX_STATE_COMPLETED"
  shows "timed (fst (tsx_on_state_proceeding_uas env ev t))"
proof (cases ev)
  case (Ev_Timer e)
  then show ?thesis using assms
    by (cases e) (simp_all add: tsx_on_state_proceeding_uas_def timed_intros timed_early)
next
  case (Ev_Tx_Msg d)
  then show ?thesis using assms uas_response_timed by (simp add: tsx_on_state_proceeding_uas_def)
qed (use assms in \<open>simp_all add: tsx_on_state_proceeding_uas_def timed_intros timed_early\<close>)

lemma trying_timed:
  assumes "env_calm env" "state t = PJSIP_TSX_STATE_TRYING"
  shows "timed (fst (tsx_on_state_trying env ev t))"
  using assms proceeding_uas_timed [OF assms(1), of t ev] timed_early [of t]
  by (cases ev) (auto simp: tsx_on_state_trying_def Let_def timed_set_early split: prod.splits)

lemma completed_timed:
  assumes "env_calm env" "timed t \<or> ev = Ev_Timer Timeout_Timer"
  shows "timed (fst (tsx_on_state_completed_uas env ev t))" "timed (fst (tsx_on_state_completed_uac env ev t))"
    "timed (fst (tsx_on_state_confirmed env ev t))"
proof -
  show "timed (fst (tsx_on_state_completed_uas env ev t))"
  proof (cases ev)
    case (Ev_Timer e)
    then show ?thesis using assms
      by (cases e) (auto simp: tsx_on_state_completed_uas_def Let_def timed_intros)
  next
    case (Ev_Rx_Msg rd)
    then show ?thesis using assms
      by (auto simp: tsx_on_state_completed_uas_def Let_def timed_intros less_eq_pjsip_tsx_state_e_def intro!: timed_set)
  qed (use assms in \<open>auto simp: tsx_on_state_completed_uas_def\<close>)
  show "timed (fst (tsx_on_state_completed_uac env ev t))"
    using assms by (cases ev) (auto simp: tsx_on_state_completed_uac_def timed_intros split: tsx_timer_e.split)
  show "timed (fst (tsx_on_state_confirmed env ev t))"
    using assms by (cases ev) (auto simp: tsx_on_state_confirmed_def timed_intros split: tsx_timer_e.split)
qed

lemma handler_timed:
  assumes "env_calm env" "tsx_ok t" "timed t \<or> ev = Ev_Timer Timeout_Timer"
    and "call_state_handler env ev t = Some (t', status)"
  shows "timed t'"
proof -
  have dest: "state t = PJSIP_TSX_STATE_DESTROYED \<Longrightarrow> timed t" by (simp add: timed_def less_eq_pjsip_tsx_state_e_def)
  have tm: "timed (fst (tsx_on_state_terminated env ev t))"
    using assms(1,3) by (cases ev) (auto simp: tsx_on_state_terminated_def timed_intros)
  note all = null_timed [OF assms(1), of t ev] calling_timed [OF assms(1), of t ev] trying_timed [OF assms(1), of t ev]
    proceeding_uas_timed [OF assms(1), of t ev] proceeding_uac_timed [OF assms(1), of t ev]
    completed_timed [OF assms(1,3)] tm dest
  show ?thesis
    using assms(2,4) all
    by (cases "role t"; cases "state t")
       (auto simp: tsx_ok_def call_state_handler_def tsx_state_handler_uac_def tsx_state_handler_uas_def tsx_on_state_destroyed_def)
qed

lemma transport_err_timed:
  assumes "env_calm env" "state t < PJSIP_TSX_STATE_TERMINATED"
  shows "timed (transport_err_timer env t)"
proof -
  have "\<not> tm_running (timeout_timer (notify_tu env p Ev_Transport_Error
      (tsx_set_state env PJSIP_TSX_STATE_TERMINATED Ev_Transport_Error True True x)))" for p x
    using watch_simps(2) [OF calm_notify(2) [OF assms(1)]] calm_set_state(4) [OF assms(1)] by simp
  then show ?thesis using assms(2) by (simp add: transport_err_timer_def Let_def timed_running)
qed

lemma timer_fires_timed:
  assumes "env_calm env" "tsx_ok t" "timed t" "tm_running (get_timer e t)" "tsx_timer_fires env e t = Some t'"
  shows "timed t'"
proof -
  define t1 where "t1 = set_timer e ((get_timer e t)\<lparr>tm_running := False\<rparr>) t"
  define t2 where "t2 = set_timer e ((get_timer e t1)\<lparr>tm_id := 0\<rparr>) t1"
  have c: "core t1 = core t" "core t2 = core t" by (simp_all add: t1_def t2_def)
  have ok2: "tsx_ok t2" using assms(2) tsx_ok_core [OF c(2)] by simp
  have early: "timed t2 \<or> Ev_Timer e = Ev_Timer Timeout_Timer"
    using assms(3) core_eq_simps(1) [OF c(2)] by (cases e) (simp_all add: timed_def t2_def t1_def)
  have err: "timed (transport_err_timer env t2)" if "tm_id (get_timer e t1) = TRANSPORT_ERR_TIMER"
  proof (cases "state t < PJSIP_TSX_STATE_TERMINATED")
    case True
    then show ?thesis using transport_err_timed [OF assms(1)] core_eq_simps(1) [OF c(2)] by simp
  next
    case False
    have e: "e = Retransmit_Timer \<or> state t = PJSIP_TSX_STATE_DESTROYED"
      using assms(3) that False
      by (cases e; cases "state t") (auto simp: timed_def armed_def t1_def less_pjsip_tsx_state_e_def
          less_eq_pjsip_tsx_state_e_def TIMEOUT_TIMER_def TRANSPORT_ERR_TIMER_def)
    have "timed t2"
      using e assms(3) core_eq_simps(1) [OF c(2)]
      by (auto simp: timed_def t2_def t1_def less_eq_pjsip_tsx_state_e_def)
    then show ?thesis using False core_eq_simps(1) [OF c(2)] by (simp add: transport_err_timer_def)
  qed
  have dest: "timed (grp_lock_dec_ref t1)" if "state t \<ge> PJSIP_TSX_STATE_DESTROYED"
    using that core_eq_simps(1) [OF c(1)] by (cases "state t") (auto simp: timed_def less_eq_pjsip_tsx_state_e_def)
  have lift: "timed (grp_lock_dec_ref x)" if "timed x" for x using that by (simp add: timed_def)
  show ?thesis
  proof (cases "state t \<ge> PJSIP_TSX_STATE_DESTROYED")
    case True
    then show ?thesis using assms(5) dest core_eq_simps(1) [OF c(1)]
      by (simp add: tsx_timer_fires_def tsx_timer_callback_def t1_def [symmetric])
  next
    case False
    then have "(if tm_id (get_timer e t1) = TRANSPORT_ERR_TIMER then Some (transport_err_timer env t2)
        else map_option fst (call_state_handler env (Ev_Timer e) t2)) = Some x \<Longrightarrow> t' = grp_lock_dec_ref x \<Longrightarrow> timed t'" for x
      using err handler_timed [OF assms(1) ok2 early] lift by (auto split: if_splits)
    then show ?thesis using assms(5) False core_eq_simps(1) [OF c(1)]
      by (auto simp: tsx_timer_fires_def tsx_timer_callback_def Let_def t1_def [symmetric] t2_def [symmetric])
  qed
qed

section \<open>Callbacks and user calls\<close>

lemma timed_frame:
  assumes "timed t" "state t' = state t" "state t < PJSIP_TSX_STATE_COMPLETED \<or> timeout_timer t' = timeout_timer t"
  shows "timed t'"
  using assms by (auto simp: timed_def)

lemma tp_state_timed: "timed t \<Longrightarrow> timed (tsx_tp_state_callback s t)"
  by (rule timed_frame [of t]) (auto simp: tsx_tp_state_callback_def Let_def)

lemma transport_callback_timed: "timed t \<Longrightarrow> timed (transport_callback sent t)"
  by (rule timed_frame [of t]) (auto simp: transport_callback_def Let_def split: send_result.split)

lemma update_transport_timed: "timed t \<Longrightarrow> timed (tsx_update_transport env tp t)"
proof -
  assume t: "timed t"
  have "timed (t\<lparr>transport := a, tp_refs := b\<rparr>)" for a b
    by (rule timed_frame [OF t]) simp_all
  moreover have "timed (t\<lparr>tp_refs := b, transport := a\<rparr>)" for a b
    by (rule timed_frame [OF t]) simp_all
  ultimately show ?thesis
    using t tp_state_timed by (auto simp: tsx_update_transport_def Let_def split: option.split)
qed

lemma send_msg_callback_timed:
  assumes "env_calm env" "timed t"
  shows "timed (fst (send_msg_callback env d tp sent cont t))"
proof -
  have fr: "timed t' \<Longrightarrow> state t'' = state t' \<Longrightarrow> timeout_timer t'' = timeout_timer t' \<Longrightarrow> timed t''" for t' t''
    using timed_frame by blast
  have succ: "timed (send_msg_success env tp t')" if t': "timed t'" for t'
  proof -
    define t0 where "t0 = (if transport t' \<noteq> tp then
        (tsx_update_transport env tp t')\<lparr>is_reliable := (case transport (tsx_update_transport env tp t') of Some p \<Rightarrow> tp_is_reliable env p | None \<Rightarrow> False)\<rparr>
        else t')"
    have "timed t0"
    proof (cases "transport t' = tp")
      case False
      show ?thesis by (rule fr [OF update_transport_timed [OF t', of env tp]]) (simp_all add: t0_def False)
    qed (simp add: t0_def t')
    define t1 where "t1 = t0\<lparr>has_pending_transport := False, has_resolved_server := True\<rparr>"
    have t1: "timed t1" by (rule fr [OF \<open>timed t0\<close>]) (simp_all add: t1_def)
    define t2 where "t2 = (if has_pending_send t1 then fst (tsx_send_msg env (last_tx t1) (t1\<lparr>has_pending_send := False\<rparr>)) else t1)"
    have "timed (t1\<lparr>has_pending_send := False\<rparr>)" by (rule fr [OF t1]) simp_all
    then have t2: "timed t2" using t1 timed_send [OF assms(1)] by (simp add: t2_def)
    have e: "send_msg_success env tp t' = (if has_pending_destroy t1 then set_state env PJSIP_TSX_STATE_DESTROYED Ev_Unknown t1
       else if has_pending_resched t2 \<and> \<not> has_pending_transport t2
            then (if \<not> is_reliable (t2\<lparr>has_pending_resched := False\<rparr>) then tsx_resched_retransmission env (t2\<lparr>has_pending_resched := False\<rparr>)
                  else t2\<lparr>has_pending_resched := False\<rparr>) else t2)"
      unfolding send_msg_success_def Let_def t2_def t1_def t0_def by simp
    have "timed (t2\<lparr>has_pending_resched := False\<rparr>)" "timed (tsx_resched_retransmission env (t2\<lparr>has_pending_resched := False\<rparr>))"
      by (rule fr [OF t2]; simp)+
    then show ?thesis unfolding e using timed_destroyed [OF assms(1)] t2 by simp
  qed
  have fail: "timed (send_msg_failed env d err t')" if t': "timed t'" for t' err
  proof -
    define t1 where "t1 = tsx_set_status_code (if err = PJ_ERESOLVE \<or> err = PJLIB_UTIL_EDNS_NXDOMAIN then PJSIP_SC_BAD_GATEWAY
        else PJSIP_SC_TSX_TRANSPORT_ERROR) (Some (strerror env err))
        (t'\<lparr>transport_err := err, has_pending_transport := False, has_resolved_server := True\<rparr>)"
    have "timed t1" by (rule fr [OF t']) (simp_all add: t1_def)
    then show ?thesis unfolding send_msg_failed_def Let_def
      by (fold t1_def) (simp add: timed_terminated timed_destroyed assms(1))
  qed
  have nxt: "timed (send_msg_next_server env d t')" if t': "timed t'" for t'
  proof (cases "tm_id (timeout_timer t') \<noteq> 0")
    case True
    then show ?thesis by (intro timed_running) (simp add: send_msg_next_server_def Let_def)
  next
    case False
    show ?thesis by (rule fr [OF t']) (simp_all add: send_msg_next_server_def Let_def False)
  qed
  have t1: "timed (t\<lparr>pending_tx := p, attached := a, lock_refs := l\<rparr>)" for p a l by (rule fr [OF assms(2)]) simp_all
  let ?t1 = "(detach_tx d (grp_lock_dec_ref t))\<lparr>pending_tx := None\<rparr>"
  have "timed ?t1" "timed (grp_lock_dec_ref t)" by (rule fr [OF assms(2)]; simp)+
  moreover have "timed (tsx_update_transport env None ?t1)" using update_transport_timed \<open>timed ?t1\<close> by blast
  ultimately show ?thesis
    using succ fail nxt assms(2) by (cases sent) (simp_all add: send_msg_callback_def Let_def)
qed

lemma api_timed:
  assumes "timed t"
  shows "timed (fst (pjsip_tsx_stop_retransmit t))" "timed (fst (pjsip_tsx_set_timeout ms t))"
    "env_calm env \<Longrightarrow> timed (fst (pjsip_tsx_terminate env code t))"
proof -
  show "timed (fst (pjsip_tsx_stop_retransmit t))"
    by (rule timed_frame [OF assms]) (simp_all add: pjsip_tsx_stop_retransmit_def)
  show "timed (fst (pjsip_tsx_set_timeout ms t))"
    using assms by (simp add: pjsip_tsx_set_timeout_def timed_running)
  show "env_calm env \<Longrightarrow> timed (fst (pjsip_tsx_terminate env code t))"
    using assms by (simp add: pjsip_tsx_terminate_def timed_terminated)
qed

lemma set_transport_timed: "timed t \<Longrightarrow> timed (fst (pjsip_tsx_set_transport sel t))"
  by (rule timed_frame [of t])
    (simp_all add: pjsip_tsx_set_transport_def pjsip_tpselector_add_ref_def pjsip_tpselector_dec_ref_def
      split: pjsip_tpselector.split option.split)

lemma step_timed: "tsx_step env t t' \<Longrightarrow> env_calm env \<Longrightarrow> tsx_ok t \<Longrightarrow> timed t \<Longrightarrow> timed t'"
proof (induction rule: tsx_step.induct)
  case (step_event ev t t' status)
  then show ?case using handler_timed by blast
next
  case (step_timer e t t')
  then show ?case using timer_fires_timed by blast
qed (simp_all add: api_timed set_transport_timed send_msg_callback_timed transport_callback_timed tp_state_timed)

lemma steps_timed: "(tsx_step env)\<^sup>*\<^sup>* t t' \<Longrightarrow> env_calm env \<Longrightarrow> tsx_ok t \<Longrightarrow> timed t \<Longrightarrow> timed t'"
proof (induction rule: rtranclp_induct)
  case (step y z)
  then show ?case
    using step_timed steps_adv [OF step.hyps(1) env_calm_ok] tsx_adv_ok by blast
qed simp

end
