(* ===== verification/Tsx_Rfc.thy ===== *)
theory Tsx_Rfc
  imports Tsx_Timed
begin

text \<open>
  The transaction state machines of RFC 3261 as an abstract specification, and the proof that the
  handlers of \<^verbatim>\<open>sip_transaction.c\<close> implement it; then the properties of a single transaction.
\<close>

section \<open>Specification\<close>

text \<open>Abstract events: what the diagrams of RFC 3261 write on their arrows.\<close>

datatype rfc_event =
    Rfc_Request | Rfc_Provisional | Rfc_Success | Rfc_Failure | Rfc_Ack | Rfc_Resend | Rfc_Timeout | Rfc_Other

definition rfc_response_class :: "int \<Rightarrow> rfc_event" where
  "rfc_response_class code =
     (if code < 200 then Rfc_Provisional else if code < 300 then Rfc_Success else Rfc_Failure)"

definition rfc_event_of :: "pjsip_role_e \<Rightarrow> tsx_event \<Rightarrow> rfc_event" where
  "rfc_event_of r ev = (case ev of
     Ev_Timer Retransmit_Timer \<Rightarrow> Rfc_Resend
   | Ev_Timer Timeout_Timer \<Rightarrow> Rfc_Timeout
   | Ev_Tx_Msg d \<Rightarrow>
       if r = PJSIP_ROLE_UAC then Rfc_Request
       else if td_is_request d then Rfc_Other else rfc_response_class (td_code d)
   | Ev_Rx_Msg rd \<Rightarrow>
       if r = PJSIP_ROLE_UAC
       then (if rx_is_request rd \<or> rx_code rd < 100 \<or> rx_code rd > 699 then Rfc_Other
             else rfc_response_class (rx_code rd))
       else if \<not> rx_is_request rd then Rfc_Other
       else if method_id (rx_method rd) = PJSIP_ACK_METHOD then Rfc_Ack else Rfc_Request
   | _ \<Rightarrow> Rfc_Other)"

text \<open>The common end of the diagrams. Destroyed is not a state of the RFC: it is where a transaction leaves the table.\<close>

fun rfc_end :: "pjsip_tsx_state_e \<Rightarrow> rfc_event \<Rightarrow> pjsip_tsx_state_e" where
  "rfc_end PJSIP_TSX_STATE_COMPLETED Rfc_Timeout = PJSIP_TSX_STATE_TERMINATED"
| "rfc_end PJSIP_TSX_STATE_CONFIRMED Rfc_Timeout = PJSIP_TSX_STATE_TERMINATED"
| "rfc_end PJSIP_TSX_STATE_TERMINATED Rfc_Timeout = PJSIP_TSX_STATE_DESTROYED"
| "rfc_end PJSIP_TSX_STATE_TERMINATED Rfc_Resend = PJSIP_TSX_STATE_DESTROYED"
| "rfc_end st _ = st"

text \<open>Figures 5 and 6; state Trying of figure 6 is called Calling in the code.\<close>

definition rfc_client :: "bool \<Rightarrow> pjsip_tsx_state_e \<Rightarrow> rfc_event \<Rightarrow> pjsip_tsx_state_e" where
  "rfc_client invite st ev =
     (if st = PJSIP_TSX_STATE_NULL then (if ev = Rfc_Request then PJSIP_TSX_STATE_CALLING else st)
      else if st = PJSIP_TSX_STATE_CALLING \<or> st = PJSIP_TSX_STATE_PROCEEDING then
        (case ev of
           Rfc_Provisional \<Rightarrow> PJSIP_TSX_STATE_PROCEEDING
         | Rfc_Success \<Rightarrow> if invite then PJSIP_TSX_STATE_TERMINATED else PJSIP_TSX_STATE_COMPLETED
         | Rfc_Failure \<Rightarrow> PJSIP_TSX_STATE_COMPLETED
         | Rfc_Timeout \<Rightarrow> PJSIP_TSX_STATE_TERMINATED
         | _ \<Rightarrow> st)
      else rfc_end st ev)"

text \<open>Figures 7 and 8, with a state Trying also for INVITE. \<^verbatim>\<open>keep_2xx\<close> is the option to retransmit 2xx responses in the transaction.\<close>

definition rfc_server :: "bool \<Rightarrow> bool \<Rightarrow> pjsip_tsx_state_e \<Rightarrow> rfc_event \<Rightarrow> pjsip_tsx_state_e" where
  "rfc_server invite keep_2xx st ev =
     (if st = PJSIP_TSX_STATE_NULL then PJSIP_TSX_STATE_TRYING
      else if st = PJSIP_TSX_STATE_TRYING \<or> st = PJSIP_TSX_STATE_PROCEEDING then
        (case ev of
           Rfc_Provisional \<Rightarrow> PJSIP_TSX_STATE_PROCEEDING
         | Rfc_Success \<Rightarrow> if invite \<and> \<not> keep_2xx then PJSIP_TSX_STATE_TERMINATED else PJSIP_TSX_STATE_COMPLETED
         | Rfc_Failure \<Rightarrow> PJSIP_TSX_STATE_COMPLETED
         | Rfc_Timeout \<Rightarrow> if st = PJSIP_TSX_STATE_PROCEEDING then PJSIP_TSX_STATE_TERMINATED else st
         | _ \<Rightarrow> st)
      else if st = PJSIP_TSX_STATE_COMPLETED \<and> ev = Rfc_Ack then (if invite then PJSIP_TSX_STATE_CONFIRMED else st)
      else rfc_end st ev)"

definition rfc_next :: "tsx \<Rightarrow> tsx_event \<Rightarrow> pjsip_tsx_state_e" where
  "rfc_next t ev =
     (if role t = PJSIP_ROLE_UAC then rfc_client (is_invite t) (state t) (rfc_event_of (role t) ev)
      else rfc_server (is_invite t) (handle_200resp t \<noteq> 0) (state t) (rfc_event_of (role t) ev))"

text \<open>Timers D, H, I, J and K of RFC 3261: how long a transaction stays in a state that only absorbs retransmissions.\<close>

definition rfc_end_delay :: "tsx_env \<Rightarrow> tsx \<Rightarrow> pjsip_tsx_state_e \<Rightarrow> pj_time_val" where
  "rfc_end_delay env t st =
     (if st = PJSIP_TSX_STATE_TERMINATED then Time_Val 0 0
      else if st = PJSIP_TSX_STATE_CONFIRMED then (if is_reliable t then Time_Val 0 0 else t4_timer_val env)
      else if role t = PJSIP_ROLE_UAC then
        (if is_reliable t then Time_Val 0 0 else if is_invite t then td_timer_val env else t4_timer_val env)
      else if is_invite t \<or> \<not> is_reliable t then timeout_timer_val env else Time_Val 0 0)"

text \<open>The fields beside the state on which the handlers decide.\<close>

definition traits :: "tsx \<Rightarrow> bool \<times> int \<times> int" where
  "traits t = (is_reliable t, status_code t, handle_200resp t)"

text \<open>Every message is sent, at once or later, and the callbacks leave the transaction alone.\<close>

definition env_delivers :: "tsx_env \<Rightarrow> bool" where
  "env_delivers env \<longleftrightarrow> env_calm env
     \<and> (\<forall>prev src t. traits (on_tsx_state env prev src t) = traits t)
     \<and> (\<forall>rdata t. traits (on_rx_response env rdata t) = traits t)
     \<and> (\<forall>tp d t. traits (fst (transport_send env tp d t)) = traits t
          \<and> snd (transport_send env tp d t) \<in> {PJ_SUCCESS, PJ_EPENDING})
     \<and> (\<forall>d t. traits (fst (send_request_stateless env d t)) = traits t
          \<and> snd (send_request_stateless env d t) \<in> {PJ_SUCCESS, PJ_EPENDING})
     \<and> (\<forall>d t. traits (fst (send_response env d t)) = traits t
          \<and> snd (send_response env d t) \<in> {PJ_SUCCESS, PJ_EPENDING})
     \<and> (\<forall>last rdata. \<exists>ack. endpt_create_ack env last rdata = Inr ack)"

text \<open>There is a transport, or the destination has not been resolved yet.\<close>

definition can_send :: "tsx \<Rightarrow> bool" where
  "can_send t \<longleftrightarrow> transport t \<noteq> None \<or> \<not> has_resolved_server t"

text \<open>What decides how a message leaves, and the traits that setting a status code keeps.\<close>

definition gear :: "tsx \<Rightarrow> nat option \<times> bool \<times> bool \<times> int" where
  "gear t = (transport t, has_resolved_server t, is_reliable t, handle_200resp t)"

text \<open>What a delivering environment leaves of a transaction that it is given to send.\<close>

definition carried :: "tsx \<Rightarrow> tsx \<Rightarrow> bool" where
  "carried t t' \<longleftrightarrow> watch t' = watch t \<and> traits t' = traits t"

text \<open>The timeout timer as the handlers start it.\<close>

abbreviation ending :: "pj_time_val \<Rightarrow> tsx_timer" where
  "ending delay \<equiv> \<lparr>tm_id = TIMEOUT_TIMER, tm_running = True, tm_delay = delay\<rparr>"

text \<open>What a handler must do: reach the state of the specification, and arm the timer of a new ending state.\<close>

definition follows :: "tsx_env \<Rightarrow> tsx_event \<Rightarrow> tsx \<Rightarrow> tsx \<Rightarrow> bool" where
  "follows env ev t t' \<longleftrightarrow> state t' = rfc_next t ev
     \<and> (state t' \<noteq> state t \<and> PJSIP_TSX_STATE_COMPLETED \<le> state t' \<and> state t' \<le> PJSIP_TSX_STATE_TERMINATED
        \<longrightarrow> timeout_timer t' = ending (rfc_end_delay env t (state t')))"

section \<open>Frame\<close>

lemma gear_updates [simp]:
  "gear (t\<lparr>lock_refs := a\<rparr>) = gear t" "gear (t\<lparr>tx_refs := b\<rparr>) = gear t" "gear (t\<lparr>attached := c\<rparr>) = gear t"
  "gear (t\<lparr>retransmit_timer := d\<rparr>) = gear t" "gear (t\<lparr>timeout_timer := d\<rparr>) = gear t"
  "gear (t\<lparr>last_tx := i\<rparr>) = gear t" "gear (t\<lparr>pending_tx := i\<rparr>) = gear t"
  "gear (t\<lparr>has_pending_transport := j\<rparr>) = gear t" "gear (t\<lparr>has_pending_resched := j\<rparr>) = gear t"
  "gear (t\<lparr>has_pending_send := j\<rparr>) = gear t" "gear (t\<lparr>status_code := k\<rparr>) = gear t"
  "gear (t\<lparr>status_text := l\<rparr>) = gear t" "gear (t\<lparr>tu_log := n\<rparr>) = gear t" "gear (t\<lparr>retransmit_count := q\<rparr>) = gear t"
  by (simp_all add: gear_def)

lemma gear_refs [simp]:
  "gear (grp_lock_add_ref t) = gear t" "gear (grp_lock_dec_ref t) = gear t"
  "gear (tx_data_add_ref d t) = gear t" "gear (tx_data_dec_ref d t) = gear t"
  "gear (attach_tx d t) = gear t" "gear (detach_tx d t) = gear t" "gear (set_timer e tm t) = gear t"
  by (simp_all add: grp_lock_add_ref_def grp_lock_dec_ref_def tx_data_add_ref_def tx_data_dec_ref_def
      attach_tx_def detach_tx_def set_timer_def split: tsx_timer_e.split)

lemma gear_ops [simp]:
  "gear (schedule e dl i t) = gear t" "gear (unschedule e t) = gear t"
  "gear (tsx_set_status_code c r t) = gear t" "gear (save_last_tx d t) = gear t"
  "gear (drop_other_last_tx d t) = gear t" "gear (tsx_resched_retransmission env t) = gear t"
  "gear (start_retransmission dl t) = gear t" 
  by (simp_all add: tsx_schedule_timer_def tsx_cancel_timer_def tsx_set_status_code_def save_last_tx_def
      drop_other_last_tx_def tsx_resched_retransmission_def start_retransmission_def Let_def split: option.split)

lemma gear_simps: "gear t' = gear t \<Longrightarrow> is_reliable t' = is_reliable t" "gear t' = gear t \<Longrightarrow> can_send t' = can_send t"
  "gear t' = gear t \<Longrightarrow> handle_200resp t' = handle_200resp t"
  by (simp_all add: gear_def can_send_def)

lemma gear_reliable [simp]:
  "is_reliable (schedule e dl i t) = is_reliable t" "is_reliable (unschedule e t) = is_reliable t"
  "is_reliable (tsx_set_status_code c r t) = is_reliable t" "is_reliable (save_last_tx d t) = is_reliable t"
  "is_reliable (drop_other_last_tx d t) = is_reliable t" "is_reliable (start_retransmission dl t) = is_reliable t"
  "is_reliable (tsx_resched_retransmission env t) = is_reliable t"
  by (rule gear_simps(1); simp)+

lemma gear_can_send [simp]:
  "can_send (schedule e dl i t) = can_send t" "can_send (unschedule e t) = can_send t"
  "can_send (tsx_set_status_code c r t) = can_send t" "can_send (save_last_tx d t) = can_send t"
  "can_send (drop_other_last_tx d t) = can_send t" "can_send (start_retransmission dl t) = can_send t"
  "can_send (tsx_resched_retransmission env t) = can_send t" "can_send (t\<lparr>has_pending_resched := j\<rparr>) = can_send t"
  by (rule gear_simps(2); simp)+

lemma method_role_ops [simp]:
  "tsx_method (schedule e dl i t) = tsx_method t" "tsx_method (unschedule e t) = tsx_method t"
  "tsx_method (tsx_set_status_code c r t) = tsx_method t" "tsx_method (save_last_tx d t) = tsx_method t"
  "tsx_method (drop_other_last_tx d t) = tsx_method t" "tsx_method (start_retransmission dl t) = tsx_method t"
  "role (schedule e dl i t) = role t" "role (unschedule e t) = role t"
  "role (tsx_set_status_code c r t) = role t" "role (save_last_tx d t) = role t"
  "role (drop_other_last_tx d t) = role t" "role (start_retransmission dl t) = role t"
  by (rule core_eq_simps(3) core_eq_simps(2); simp)+

lemma traits_refs [simp]:
  "traits (grp_lock_add_ref t) = traits t" "traits (grp_lock_dec_ref t) = traits t"
  "traits (tx_data_add_ref d t) = traits t" "traits (tx_data_dec_ref d t) = traits t"
  "traits (attach_tx d t) = traits t" "traits (detach_tx d t) = traits t" "traits (set_timer e tm t) = traits t"
  "traits (t\<lparr>pending_tx := i\<rparr>) = traits t" "traits (t\<lparr>has_pending_transport := j\<rparr>) = traits t"
  "traits (t\<lparr>has_pending_send := j\<rparr>) = traits t" "traits (t\<lparr>has_pending_resched := j\<rparr>) = traits t"
  "traits (t\<lparr>retransmit_count := n\<rparr>) = traits t" "traits (schedule e dl k t) = traits t" "traits (unschedule e t) = traits t"
  "traits (tsx_resched_retransmission env t) = traits t"
  by (simp_all add: traits_def grp_lock_add_ref_def grp_lock_dec_ref_def tx_data_add_ref_def tx_data_dec_ref_def
      attach_tx_def detach_tx_def set_timer_def tsx_schedule_timer_def tsx_cancel_timer_def
      tsx_resched_retransmission_def Let_def split: tsx_timer_e.split)

lemma traits_simps: "traits t' = traits t \<Longrightarrow> is_reliable t' = is_reliable t"
  "traits t' = traits t \<Longrightarrow> status_code t' = status_code t" "traits t' = traits t \<Longrightarrow> handle_200resp t' = handle_200resp t"
  by (simp_all add: traits_def)

lemma delivers_calm: "env_delivers env \<Longrightarrow> env_calm env"
  by (simp add: env_delivers_def)

lemma delivers_resolve:
  assumes "env_delivers env" "\<not> has_resolved_server t" "state t \<noteq> PJSIP_TSX_STATE_TERMINATED"
  shows "\<exists>t'. send_resolve env d s t = (t', PJ_SUCCESS) \<and> carried t t'"
proof -
  define t1 where "t1 = (grp_lock_add_ref ((attach_tx d (tx_data_add_ref d t))\<lparr>pending_tx := Some d\<rparr>))\<lparr>has_pending_transport := True\<rparr>"
  define r where "r = (if td_is_request d then send_request_stateless env d t1 else send_response env d t1)"
  obtain t2 st2 where r2: "r = (t2, st2)" by (cases r)
  have "watch (fst r) = watch t1" "traits (fst r) = traits t1" "snd r \<in> {PJ_SUCCESS, PJ_EPENDING}"
    using assms(1) by (simp_all add: r_def env_delivers_def env_calm_def)
  then have w: "watch t2 = watch t1" "traits t2 = traits t1" "st2 = PJ_SUCCESS \<or> st2 = PJ_EPENDING"
    by (simp_all add: r2)
  have 1: "watch t1 = watch t" "traits t1 = traits t" by (simp_all add: t1_def watch_core)
  have c: "carried t t2" using w 1(1) 1(2) by (simp add: carried_def)
  have st: "state t2 \<noteq> PJSIP_TSX_STATE_TERMINATED" using assms(3) c watch_simps(1) by (metis carried_def)
  have "send_resolve env d s t = (t2, PJ_SUCCESS)"
    unfolding send_resolve_def Let_def
    by (fold t1_def, fold r_def) (rule disjE [OF w(3)]; simp add: assms(2) r2 st)
  then show ?thesis using c by simp
qed

lemma delivers_send:
  assumes "env_delivers env" "can_send t" "state t \<noteq> PJSIP_TSX_STATE_TERMINATED"
  shows "\<exists>t'. tsx_send_msg env (Some d) t = (t', PJ_SUCCESS) \<and> carried t t'"
proof (cases "has_pending_transport t \<or> td_is_pending d")
  case True
  then show ?thesis by (auto simp: tsx_send_msg_def carried_def watch_core)
next
  case False
  show ?thesis
  proof (cases "transport t")
    case None
    then show ?thesis
      using delivers_resolve [OF assms(1) _ assms(3), of d PJ_SUCCESS] assms(2) False
      by (simp add: tsx_send_msg_def can_send_def)
  next
    case (Some tp)
    define t1 where "t1 = (grp_lock_add_ref t)\<lparr>has_pending_transport := True\<rparr>"
    obtain t2 s2 where t2: "transport_send env tp d t1 = (t2, s2)" by (cases "transport_send env tp d t1")
    have "watch (fst (transport_send env tp d t1)) = watch t1 \<and> traits (fst (transport_send env tp d t1)) = traits t1
      \<and> snd (transport_send env tp d t1) \<in> {PJ_SUCCESS, PJ_EPENDING}"
      using assms(1) by (simp add: env_delivers_def env_calm_def)
    then have w: "watch t2 = watch t1" "traits t2 = traits t1" "s2 = PJ_SUCCESS \<or> s2 = PJ_EPENDING"
      by (simp_all add: t2)
    have 1: "watch t1 = watch t" "traits t1 = traits t" by (simp_all add: t1_def watch_core)
    have c: "carried t t2" using w 1(1) 1(2) by (simp add: carried_def)
    then have "carried t (grp_lock_dec_ref (t2\<lparr>has_pending_transport := False\<rparr>))"
      by (simp add: carried_def watch_core)
    then show ?thesis using w(3) c False
      by (elim disjE) (simp_all add: tsx_send_msg_def Let_def t1_def [symmetric] t2 Some)
  qed
qed

lemma delivers_retransmit:
  assumes "env_delivers env" "can_send t" "state t \<noteq> PJSIP_TSX_STATE_TERMINATED"
  shows "carried t (fst (tsx_retransmit env r t))"
proof -
  let ?t1 = "t\<lparr>retransmit_count := retransmit_count t + 1\<rparr>"
  define t2 where "t2 = (if r then (if has_pending_transport ?t1 then ?t1\<lparr>has_pending_resched := True\<rparr>
    else tsx_resched_retransmission env ?t1) else ?t1)"
  have w: "watch t2 = watch t" "gear t2 = gear t" "traits t2 = traits t" by (simp_all add: t2_def watch_core)
  have "tsx_retransmit env r t = (if r \<and> tm_running (retransmit_timer t) then (t, PJ_SUCCESS)
    else if last_tx t = None then (t, PJ_EBUG) else tsx_send_msg env (last_tx t2) t2)"
    unfolding tsx_retransmit_def Let_def t2_def by (rule refl)
  moreover have "last_tx t2 = last_tx t"
    by (simp add: t2_def tsx_resched_retransmission_def tsx_schedule_timer_def grp_lock_add_ref_def set_timer_def Let_def)
  moreover have "carried t (fst (tsx_send_msg env (Some d) t2))" for d
    using delivers_send [OF assms(1), of t2 d] assms(2,3) gear_simps(2) [OF w(2)] w(1,3) watch_simps(1) [OF w(1)]
    by (auto simp: carried_def)
  ultimately show ?thesis by (auto simp: carried_def)
qed

lemma carried_simps: "carried t t' \<Longrightarrow> state t' = state t" "carried t t' \<Longrightarrow> tsx_method t' = tsx_method t"
  "carried t t' \<Longrightarrow> role t' = role t" "carried t t' \<Longrightarrow> timeout_timer t' = timeout_timer t"
  "carried t t' \<Longrightarrow> is_reliable t' = is_reliable t" "carried t t' \<Longrightarrow> status_code t' = status_code t"
  "carried t t' \<Longrightarrow> handle_200resp t' = handle_200resp t"
  by (simp_all add: carried_def watch_def traits_def)

text \<open>A state change and what it leaves.\<close>

lemma delivers_set_state:
  assumes "env_delivers env"
  shows "state (tsx_set_state env st src nn ns t) = st"
    "role (tsx_set_state env st src nn ns t) = role t"
    "tsx_method (tsx_set_state env st src nn ns t) = tsx_method t"
    "st \<noteq> PJSIP_TSX_STATE_DESTROYED \<Longrightarrow> is_reliable (tsx_set_state env st src nn ns t) = is_reliable t"
    "st \<noteq> PJSIP_TSX_STATE_DESTROYED \<Longrightarrow> st \<noteq> PJSIP_TSX_STATE_TERMINATED \<Longrightarrow>
       timeout_timer (tsx_set_state env st src nn ns t) = timeout_timer t"
proof -
  note calm = delivers_calm [OF assms]
  define t1 where "t1 = t\<lparr>state := st, state_handler := (if role t = PJSIP_ROLE_UAC then tsx_state_handler_uac st
     else tsx_state_handler_uas st)\<rparr>"
  define t2 where "t2 = set_state_notify env (state t) src nn t1"
  have w: "watch t2 = watch t1" using calm_notify(1) [OF calm] by (simp add: t2_def)
  have n: "traits (notify_tu env p s x) = traits x" for p s x
    using assms by (simp add: notify_tu_def env_delivers_def) (simp add: traits_def)
  have "traits t2 = traits t1"
    using assms n by (simp add: t2_def set_state_notify_def Let_def env_delivers_def split: tsx_event.split)
  then have r: "is_reliable t2 = is_reliable t" by (simp add: traits_def t1_def)
  have e: "tsx_set_state env st src nn ns t = (if st = PJSIP_TSX_STATE_TERMINATED then set_state_terminated ns t2
     else if st = PJSIP_TSX_STATE_DESTROYED then tsx_shutdown env (mod_tsx_layer_unregister_tsx t2) else t2)"
    by (simp add: tsx_set_state_def Let_def t1_def t2_def)
  have c: "core (tsx_set_state env st src nn ns t) = core t1"
    using w by (simp add: e watch_core)
  have g: "gear (set_state_terminated ns t2) = gear t2"
    by (simp add: set_state_terminated_def Let_def split: option.split)
  show "state (tsx_set_state env st src nn ns t) = st" "role (tsx_set_state env st src nn ns t) = role t"
    "tsx_method (tsx_set_state env st src nn ns t) = tsx_method t"
    using core_eq_simps [OF c] by (simp_all add: t1_def)
  show "st \<noteq> PJSIP_TSX_STATE_DESTROYED \<Longrightarrow> is_reliable (tsx_set_state env st src nn ns t) = is_reliable t"
    using r gear_simps(1) [OF g] by (simp add: e)
  show "st \<noteq> PJSIP_TSX_STATE_DESTROYED \<Longrightarrow> st \<noteq> PJSIP_TSX_STATE_TERMINATED \<Longrightarrow>
       timeout_timer (tsx_set_state env st src nn ns t) = timeout_timer t"
    by (rule calm_set_state(2) [OF calm])
qed

section \<open>The client side\<close>

lemma rfc_null:
  assumes "env_delivers env" "can_send t" "state t = PJSIP_TSX_STATE_NULL"
  shows "state (fst (tsx_on_state_null env ev t)) = rfc_next t ev"
proof (cases "role t = PJSIP_ROLE_UAS")
  case True
  then show ?thesis using delivers_set_state(1) [OF assms(1)] assms(3)
    by (simp add: tsx_on_state_null_def rfc_next_def rfc_server_def)
next
  case False
  then have uac: "role t = PJSIP_ROLE_UAC" by (cases "role t") auto
  show ?thesis
  proof (cases ev)
    case (Ev_Tx_Msg d)
    let ?t1 = "save_last_tx d (drop_other_last_tx d t)"
    obtain t2 where "tsx_send_msg env (Some d) ?t1 = (t2, PJ_SUCCESS)"
      using delivers_send [OF assms(1), of ?t1 d] assms(2,3) by auto
    then show ?thesis using uac Ev_Tx_Msg assms(3) delivers_set_state(1) [OF assms(1)]
      by (simp add: tsx_on_state_null_def Let_def rfc_next_def rfc_client_def rfc_event_of_def)
  qed (use uac assms(3) in \<open>simp_all add: tsx_on_state_null_def rfc_next_def rfc_client_def rfc_event_of_def split: tsx_timer_e.split\<close>,
      simp add: rfc_response_class_def)
qed

lemma timeout_started [simp]:
  "\<not> tm_running (timeout_timer t) \<Longrightarrow>
     timeout_timer (schedule Timeout_Timer dl i t) = \<lparr>tm_id = i, tm_running = True, tm_delay = dl\<rparr>"
  by (simp add: tsx_schedule_timer_def)

lemma delivers_terminated:
  "env_delivers env \<Longrightarrow> timeout_timer (set_state env PJSIP_TSX_STATE_TERMINATED src t) = ending (Time_Val 0 0)"
  by (simp add: tsx_set_state_def Let_def set_state_terminated_def)

lemma uac_final_timer_delay:
  "role t = PJSIP_ROLE_UAC \<Longrightarrow>
   timeout_timer (uac_final_timer env t) = ending (rfc_end_delay env t PJSIP_TSX_STATE_COMPLETED)"
  by (simp add: uac_final_timer_def rfc_end_delay_def Let_def)

lemma rfc_end_delay_cong:
  "role t' = role t \<Longrightarrow> tsx_method t' = tsx_method t \<Longrightarrow> is_reliable t' = is_reliable t \<Longrightarrow>
   rfc_end_delay env t' st = rfc_end_delay env t st"
  by (simp add: rfc_end_delay_def)

lemma rfc_uac_failure:
  assumes "env_delivers env" "can_send t" "state t < PJSIP_TSX_STATE_COMPLETED" "role t = PJSIP_ROLE_UAC"
  shows "\<exists>t'. uac_3xx_6xx env rd t = (t', PJ_SUCCESS) \<and> state t' = PJSIP_TSX_STATE_COMPLETED
    \<and> timeout_timer t' = ending (rfc_end_delay env t PJSIP_TSX_STATE_COMPLETED)"
proof -
  let ?t1 = "unschedule Timeout_Timer (unschedule Retransmit_Timer t)"
  note set = delivers_set_state [OF assms(1)]
  have fin: "state (uac_final_timer env x) = PJSIP_TSX_STATE_COMPLETED
      \<and> timeout_timer (uac_final_timer env x) = ending (rfc_end_delay env t PJSIP_TSX_STATE_COMPLETED)"
    if "state x = PJSIP_TSX_STATE_COMPLETED" "role x = role t" "tsx_method x = tsx_method t" "is_reliable x = is_reliable t" for x
    using uac_final_timer_delay [of x env] rfc_end_delay_cong [OF that(2-4)] that assms(4)
    by (simp add: uac_final_timer_def Let_def)
  show ?thesis
  proof (cases "is_invite t")
    case False
    then show ?thesis using fin [of "set_state env PJSIP_TSX_STATE_COMPLETED (Ev_Rx_Msg rd) ?t1"] set
      by (simp add: uac_3xx_6xx_def Let_def)
  next
    case True
    obtain ack where ack: "endpt_create_ack env (last_tx ?t1) rd = Inr ack" using assms(1) unfolding env_delivers_def by blast
    have "state ?t1 \<noteq> PJSIP_TSX_STATE_TERMINATED" using assms(3) by (auto simp: less_pjsip_tsx_state_e_def)
    then obtain t2 where t2: "tsx_send_msg env (Some ack) ?t1 = (t2, PJ_SUCCESS)" "carried ?t1 t2"
      using delivers_send [OF assms(1), of ?t1 ack] assms(2) by auto
    define t3 where "t3 = set_state env PJSIP_TSX_STATE_COMPLETED (Ev_Rx_Msg rd) t2"
    define t4 where "t4 = (if map_option td_addr (last_tx t3) \<noteq> Some (td_addr ack)
       then (case last_tx t3 of Some d \<Rightarrow> tx_data_dec_ref d t3 | None \<Rightarrow> t3)\<lparr>last_tx := Some ack\<rparr> else t3)"
    have c4: "core t4 = core t3" "gear t4 = gear t3" by (simp_all add: t4_def split: option.split)
    have "state t4 = PJSIP_TSX_STATE_COMPLETED" "role t4 = role t" "tsx_method t4 = tsx_method t" "is_reliable t4 = is_reliable t"
      using core_eq_simps [OF c4(1)] gear_simps(1) [OF c4(2)] set carried_simps [OF t2(2)] by (simp_all add: t3_def)
    note f = fin [OF this]
    have "uac_3xx_6xx env rd t = (uac_final_timer env t4, PJ_SUCCESS)"
      unfolding uac_3xx_6xx_def Let_def using True ack t2(1)
      by (simp add: t4_def t3_def split: option.split)
    then show ?thesis using f by simp
  qed
qed

lemma rfc_uac_success:
  assumes "env_delivers env" "role t = PJSIP_ROLE_UAC"
  shows "state (uac_2xx env ev t) = (if is_invite t then PJSIP_TSX_STATE_TERMINATED else PJSIP_TSX_STATE_COMPLETED)"
    "timeout_timer (uac_2xx env ev t) = ending (rfc_end_delay env t (state (uac_2xx env ev t)))"
proof -
  note set = delivers_set_state [OF assms(1)] delivers_terminated [OF assms(1)]
  show st: "state (uac_2xx env ev t) = (if is_invite t then PJSIP_TSX_STATE_TERMINATED else PJSIP_TSX_STATE_COMPLETED)"
    using set by (simp add: uac_2xx_def Let_def)
  show "timeout_timer (uac_2xx env ev t) = ending (rfc_end_delay env t (state (uac_2xx env ev t)))"
    unfolding st using set assms(2) by (simp add: uac_2xx_def Let_def rfc_end_delay_def)
qed

lemma follows_early: "state t' = rfc_next t ev \<Longrightarrow> state t' < PJSIP_TSX_STATE_COMPLETED \<Longrightarrow> follows env ev t t'"
  by (auto simp: follows_def not_le [symmetric])

lemma follows_same: "state t' = state t \<Longrightarrow> rfc_next t ev = state t \<Longrightarrow> follows env ev t t'"
  by (simp add: follows_def)

lemma follows_terminated:
  "env_delivers env \<Longrightarrow> rfc_next t ev = PJSIP_TSX_STATE_TERMINATED \<Longrightarrow>
   follows env ev t (set_state env PJSIP_TSX_STATE_TERMINATED src t')"
  by (simp add: follows_def delivers_set_state delivers_terminated rfc_end_delay_def)

lemma proceeding_uac_follows:
  assumes "env_delivers env" "can_send t'" "state t' = state t" "role t' = role t" "tsx_method t' = tsx_method t"
    "is_reliable t' = is_reliable t" "role t = PJSIP_ROLE_UAC"
    and st: "state t = PJSIP_TSX_STATE_CALLING \<or> state t = PJSIP_TSX_STATE_PROCEEDING"
  shows "follows env ev t (fst (tsx_on_state_proceeding_uac env ev t'))"
proof (cases ev)
  case (Ev_Timer e)
  have nt: "state t' \<noteq> PJSIP_TSX_STATE_TERMINATED" using st assms(3) by auto
  show ?thesis
  proof (cases e)
    case Retransmit_Timer
    then show ?thesis
      using Ev_Timer st assms(7) carried_simps(1) [OF delivers_retransmit [OF assms(1,2) nt]] assms(3)
      by (intro follows_same) (auto simp: tsx_on_state_proceeding_uac_def rfc_next_def rfc_client_def rfc_event_of_def)
  next
    case Timeout_Timer
    then show ?thesis using Ev_Timer st assms(1,7)
      by (auto simp: tsx_on_state_proceeding_uac_def rfc_next_def rfc_client_def rfc_event_of_def intro!: follows_terminated)
  qed
next
  case (Ev_Rx_Msg rd)
  show ?thesis
  proof (cases "rx_is_request rd \<or> rx_code rd < 100 \<or> rx_code rd > 699")
    case True
    then show ?thesis using Ev_Rx_Msg st assms(3,7)
      by (intro follows_same) (auto simp: tsx_on_state_proceeding_uac_def rfc_next_def rfc_client_def rfc_event_of_def Let_def
        tsx_set_status_code_def)
  next
    case False
    let ?t1 = "tsx_set_status_code (rx_code rd) (Some (rx_reason rd)) t'"
    have code: "status_code ?t1 = rx_code rd" by (simp add: tsx_set_status_code_def)
    have nxt: "rfc_next t ev = (if rx_code rd < 200 then PJSIP_TSX_STATE_PROCEEDING
      else if rx_code rd < 300 \<and> is_invite t then PJSIP_TSX_STATE_TERMINATED else PJSIP_TSX_STATE_COMPLETED)"
      using False Ev_Rx_Msg st assms(7)
      by (auto simp: rfc_next_def rfc_client_def rfc_event_of_def rfc_response_class_def)
    have delay: "rfc_end_delay env ?t1 s = rfc_end_delay env t s" for s
      by (rule rfc_end_delay_cong) (simp_all add: assms)
    have "state ?t1 < PJSIP_TSX_STATE_COMPLETED" using st assms(3) by auto
    then obtain t3 where fail: "uac_3xx_6xx env rd ?t1 = (t3, PJ_SUCCESS)" "state t3 = PJSIP_TSX_STATE_COMPLETED"
      "timeout_timer t3 = ending (rfc_end_delay env ?t1 PJSIP_TSX_STATE_COMPLETED)"
      using rfc_uac_failure [OF assms(1), of ?t1 rd] assms by auto
    note succ = rfc_uac_success [OF assms(1), of ?t1 ev]
    show ?thesis
      using False Ev_Rx_Msg code fail succ nxt delay delivers_set_state [OF assms(1)] assms(4,5,7)
      by (auto simp: follows_def tsx_on_state_proceeding_uac_def Let_def less_eq_pjsip_tsx_state_e_def)
  qed
qed (use st assms(3,7) in \<open>auto simp: tsx_on_state_proceeding_uac_def rfc_next_def rfc_client_def rfc_event_of_def intro!: follows_same\<close>)

lemma calling_follows:
  assumes "env_delivers env" "can_send t" "role t = PJSIP_ROLE_UAC" "state t = PJSIP_TSX_STATE_CALLING"
  shows "follows env ev t (fst (tsx_on_state_calling env ev t))"
proof (cases ev)
  case (Ev_Timer e)
  have nt: "state t \<noteq> PJSIP_TSX_STATE_TERMINATED" using assms(4) by simp
  show ?thesis
  proof (cases e)
    case Retransmit_Timer
    then show ?thesis
      using Ev_Timer assms(3,4) carried_simps(1) [OF delivers_retransmit [OF assms(1,2) nt]]
      by (intro follows_same) (auto simp: tsx_on_state_calling_def rfc_next_def rfc_client_def rfc_event_of_def)
  next
    case Timeout_Timer
    then show ?thesis using Ev_Timer assms(1,3,4)
      by (auto simp: tsx_on_state_calling_def rfc_next_def rfc_client_def rfc_event_of_def Let_def intro!: follows_terminated)
  qed
next
  case (Ev_Rx_Msg rd)
  let ?t1 = "unschedule Retransmit_Timer t"
  define t2 where "t2 = (if rx_code rd \<ge> 200
                     then (if tm_id (timeout_timer ?t1) \<noteq> 0 then unschedule Timeout_Timer ?t1 else ?t1)
                     else if is_invite ?t1 then unschedule Timeout_Timer ?t1
                     else if \<not> is_reliable ?t1 then schedule Retransmit_Timer (t2_timer_val env) RETRANSMIT_TIMER ?t1
                     else ?t1)\<lparr>has_pending_resched := False\<rparr>"
  have c: "core t2 = core t" "gear t2 = gear t" by (simp_all add: t2_def)
  have "fst (tsx_on_state_calling env ev t) = (if rx_is_request rd then t else fst (tsx_on_state_proceeding_uac env ev t2))"
    unfolding tsx_on_state_calling_def Let_def by (simp add: Ev_Rx_Msg t2_def)
  moreover have "follows env ev t (fst (tsx_on_state_proceeding_uac env ev t2))"
    using core_eq_simps [OF c(1)] gear_simps [OF c(2)] assms by (intro proceeding_uac_follows) simp_all
  moreover have "rx_is_request rd \<Longrightarrow> follows env ev t t"
    using Ev_Rx_Msg assms(3,4) by (intro follows_same) (simp_all add: rfc_next_def rfc_client_def rfc_event_of_def)
  ultimately show ?thesis by simp
qed (use assms(3,4) in \<open>auto simp: tsx_on_state_calling_def rfc_next_def rfc_client_def rfc_event_of_def intro!: follows_same\<close>)

section \<open>The server side\<close>

lemma uas_1xx_state: "env_delivers env \<Longrightarrow> state (uas_1xx env d t) = PJSIP_TSX_STATE_PROCEEDING"
  using delivers_set_state(1) [of env] by (simp add: uas_1xx_def Let_def)

lemma uas_2xx_ends:
  assumes "env_delivers env" "role t = PJSIP_ROLE_UAS"
  shows "state (uas_2xx env d t) =
      (if is_invite t \<and> handle_200resp t = 0 then PJSIP_TSX_STATE_TERMINATED else PJSIP_TSX_STATE_COMPLETED)"
    "timeout_timer (uas_2xx env d t) = ending (rfc_end_delay env t (state (uas_2xx env d t)))"
proof -
  note set = delivers_set_state [OF assms(1)] delivers_terminated [OF assms(1)]
  have h: "handle_200resp (unschedule e t) = handle_200resp t" for e by (rule gear_simps(3)) simp
  show st: "state (uas_2xx env d t) =
      (if is_invite t \<and> handle_200resp t = 0 then PJSIP_TSX_STATE_TERMINATED else PJSIP_TSX_STATE_COMPLETED)"
    using set h by (simp add: uas_2xx_def Let_def)
  show "timeout_timer (uas_2xx env d t) = ending (rfc_end_delay env t (state (uas_2xx env d t)))"
    unfolding st using set h assms(2) by (simp add: uas_2xx_def Let_def rfc_end_delay_def)
qed

lemma uas_3xx_6xx_ends:
  assumes "env_delivers env" "role t = PJSIP_ROLE_UAS"
  shows "state (uas_3xx_6xx env d t) = PJSIP_TSX_STATE_COMPLETED"
    "timeout_timer (uas_3xx_6xx env d t) = ending (rfc_end_delay env t PJSIP_TSX_STATE_COMPLETED)"
  using delivers_set_state [OF assms(1)] assms(2)
  by (simp_all add: uas_3xx_6xx_def Let_def rfc_end_delay_def)

lemma uas_response_follows:
  assumes "env_delivers env" "can_send t" "role t = PJSIP_ROLE_UAS"
    and st: "state t = PJSIP_TSX_STATE_TRYING \<or> state t = PJSIP_TSX_STATE_PROCEEDING"
    and "\<not> td_is_request d" 
  shows "\<exists>t'. uas_send_response env d t = (t', PJ_SUCCESS) \<and>
    (100 \<le> td_code d \<longrightarrow> follows env (Ev_Tx_Msg d) t t') \<and> (td_code d < 100 \<longrightarrow> state t' = state t)"
proof -
  let ?t1 = "drop_other_last_tx d (tsx_set_status_code (td_code d) (Some (td_reason d)) t)"
  have nt: "state ?t1 \<noteq> PJSIP_TSX_STATE_TERMINATED" using st by auto
  obtain t2 where t2: "tsx_send_msg env (Some d) ?t1 = (t2, PJ_SUCCESS)" "carried ?t1 t2"
    using delivers_send [OF assms(1) _ nt] assms(2) by auto
  have code: "status_code ?t1 = td_code d" "gear ?t1 = gear t"
    by (simp_all add: drop_other_last_tx_def tsx_set_status_code_def tx_data_dec_ref_def split: option.split)
  have c: "state t2 = state t" "role t2 = PJSIP_ROLE_UAS" "tsx_method t2 = tsx_method t" "is_reliable t2 = is_reliable t"
    "status_code t2 = td_code d" "handle_200resp t2 = handle_200resp t"
    using carried_simps [OF t2(2)] code(1) gear_simps(3) [OF code(2)] assms(3) by simp_all
  have delay: "rfc_end_delay env t2 s = rfc_end_delay env t s" for s
    using c assms(3) by (intro rfc_end_delay_cong) simp_all
  have spec: "rfc_next t (Ev_Tx_Msg d) = (if td_code d < 200 then PJSIP_TSX_STATE_PROCEEDING
      else if td_code d < 300 \<and> is_invite t \<and> handle_200resp t = 0 then PJSIP_TSX_STATE_TERMINATED else PJSIP_TSX_STATE_COMPLETED)"
    using st assms(3,5) by (auto simp: rfc_next_def rfc_server_def rfc_event_of_def rfc_response_class_def)
  have e: "uas_send_response env d t =
      (if td_code d < 100 then t2 else if td_code d < 200 then uas_1xx env d t2
       else if td_code d < 300 then uas_2xx env d t2 else uas_3xx_6xx env d t2, PJ_SUCCESS)"
    using assms(5) t2(1) c(5) by (simp add: uas_send_response_def Let_def)
  show ?thesis
    using uas_1xx_state [OF assms(1), of d t2] uas_2xx_ends [OF assms(1) c(2), of d] uas_3xx_6xx_ends [OF assms(1) c(2), of d]
      spec c delay by (auto simp: e follows_def less_eq_pjsip_tsx_state_e_def)
qed

lemmas rfc_server_simps = rfc_next_def rfc_server_def rfc_event_of_def

lemma follows_resent:
  assumes "carried t t'" "rfc_next t ev = state t"
  shows "follows env ev t t'"
  using carried_simps(1) [OF assms(1)] assms(2) by (rule follows_same)

lemma proceeding_uas_follows:
  assumes "env_delivers env" "can_send t" "role t = PJSIP_ROLE_UAS" "state t = PJSIP_TSX_STATE_PROCEEDING"
  shows "follows env ev t (fst (tsx_on_state_proceeding_uas env ev t))"
proof (cases ev)
  case (Ev_Timer e)
  have "carried t (fst (tsx_retransmit env True t))" using delivers_retransmit [OF assms(1,2)] assms(4) by simp
  then show ?thesis using Ev_Timer assms(1,3,4)
    by (cases e) (auto simp: tsx_on_state_proceeding_uas_def rfc_server_simps intro!: follows_resent follows_terminated)
next
  case (Ev_Tx_Msg d)
  show ?thesis
  proof (cases "td_is_request d")
    case True
    then show ?thesis using Ev_Tx_Msg assms(3,4)
      by (intro follows_same) (simp_all add: tsx_on_state_proceeding_uas_def uas_send_response_def rfc_server_simps)
  next
    case False
    obtain t' where t': "uas_send_response env d t = (t', PJ_SUCCESS)"
      "100 \<le> td_code d \<longrightarrow> follows env (Ev_Tx_Msg d) t t'" "td_code d < 100 \<longrightarrow> state t' = state t"
      using uas_response_follows [OF assms(1-3) _ False] assms(4) by blast
    have "td_code d < 100 \<Longrightarrow> follows env (Ev_Tx_Msg d) t t'"
      using t'(3) False assms(3,4) by (intro follows_same) (simp_all add: rfc_server_simps rfc_response_class_def)
    then show ?thesis using t' Ev_Tx_Msg by (cases "td_code d < 100") (simp_all add: tsx_on_state_proceeding_uas_def)
  qed
next
  case (Ev_Rx_Msg rd)
  have "state (fst (tsx_send_msg env (Some d) t)) = PJSIP_TSX_STATE_PROCEEDING" for d
    using delivers_send [OF assms(1,2), of d] assms(4) carried_simps(1) [of t] by auto
  then show ?thesis using Ev_Rx_Msg assms(3,4)
    by (auto simp: tsx_on_state_proceeding_uas_def rfc_server_simps intro!: follows_same)
qed (use assms(3,4) in \<open>auto simp: tsx_on_state_proceeding_uas_def rfc_server_simps intro!: follows_same\<close>)

lemma trying_follows:
  assumes "env_delivers env" "can_send t" "role t = PJSIP_ROLE_UAS" "state t = PJSIP_TSX_STATE_TRYING"
  shows "follows env ev t (fst (tsx_on_state_trying env ev t))"
proof (cases ev)
  case (Ev_Tx_Msg d)
  show ?thesis
  proof (cases "td_is_request d")
    case True
    then show ?thesis using Ev_Tx_Msg assms(3,4)
      by (intro follows_same)
        (simp_all add: tsx_on_state_trying_def tsx_on_state_proceeding_uas_def uas_send_response_def rfc_server_simps)
  next
    case False
    obtain t' where t': "uas_send_response env d t = (t', PJ_SUCCESS)"
      "100 \<le> td_code d \<longrightarrow> follows env (Ev_Tx_Msg d) t t'" "td_code d < 100 \<longrightarrow> state t' = state t"
      using uas_response_follows [OF assms(1-3) _ False] assms(4) by blast
    have nxt: "rfc_next t ev = rfc_server (is_invite t) (handle_200resp t \<noteq> 0) PJSIP_TSX_STATE_TRYING (rfc_response_class (td_code d))"
      using Ev_Tx_Msg False assms(3,4) by (simp add: rfc_next_def rfc_event_of_def)
    show ?thesis
    proof (cases "td_code d < 100")
      case True
      then have "rfc_next t ev = PJSIP_TSX_STATE_PROCEEDING"
        by (simp add: nxt rfc_server_def rfc_response_class_def)
      then show ?thesis using True t'(1,3) Ev_Tx_Msg assms(4) delivers_set_state(1) [OF assms(1)]
        by (intro follows_early) (simp_all add: tsx_on_state_trying_def tsx_on_state_proceeding_uas_def)
    next
      case False
      then have "state t' \<noteq> PJSIP_TSX_STATE_TRYING" using t'(2) nxt Ev_Tx_Msg
        by (auto simp: follows_def rfc_server_def rfc_response_class_def split: if_splits)
      then show ?thesis using False t'(1,2) Ev_Tx_Msg
        by (simp add: tsx_on_state_trying_def tsx_on_state_proceeding_uas_def)
    qed
  qed
qed (use assms(3,4) in \<open>auto simp: tsx_on_state_trying_def rfc_server_simps intro!: follows_same split: tsx_timer_e.split\<close>)

lemma completed_uas_follows:
  assumes "env_delivers env" "can_send t" "role t = PJSIP_ROLE_UAS" "state t = PJSIP_TSX_STATE_COMPLETED"
  shows "follows env ev t (fst (tsx_on_state_completed_uas env ev t))"
proof (cases ev)
  case (Ev_Timer e)
  have "carried t (fst (tsx_retransmit env True t))" using delivers_retransmit [OF assms(1,2)] assms(4) by simp
  then show ?thesis using Ev_Timer assms(1,3,4)
    by (cases e) (auto simp: tsx_on_state_completed_uas_def Let_def rfc_server_simps intro!: follows_resent follows_terminated)
next
  case (Ev_Rx_Msg rd)
  have r: "state (fst (tsx_retransmit env False t)) = PJSIP_TSX_STATE_COMPLETED"
    using carried_simps(1) [OF delivers_retransmit [OF assms(1,2), of False]] assms(4) by simp
  show ?thesis
  proof (cases "rx_is_request rd \<and> method_id (rx_method rd) = PJSIP_ACK_METHOD \<and> is_invite t")
    case True
    then have "rfc_next t ev = PJSIP_TSX_STATE_CONFIRMED" using Ev_Rx_Msg assms(3,4) by (simp add: rfc_server_simps)
    then show ?thesis using True Ev_Rx_Msg delivers_set_state [OF assms(1)]
      by (simp add: follows_def tsx_on_state_completed_uas_def Let_def rfc_end_delay_def)
  next
    case False
    then show ?thesis using r Ev_Rx_Msg assms(3,4)
      by (auto simp: tsx_on_state_completed_uas_def rfc_server_simps intro!: follows_same)
  qed
qed (use assms(3,4) in \<open>auto simp: tsx_on_state_completed_uas_def rfc_server_simps rfc_response_class_def intro!: follows_same\<close>)

lemma completed_uac_follows:
  assumes "env_delivers env" "can_send t" "role t = PJSIP_ROLE_UAC" "state t = PJSIP_TSX_STATE_COMPLETED"
  shows "follows env ev t (fst (tsx_on_state_completed_uac env ev t))"
proof -
  have "state (fst (tsx_retransmit env r t)) = PJSIP_TSX_STATE_COMPLETED" for r
    using carried_simps(1) [OF delivers_retransmit [OF assms(1,2), of r]] assms(4) by simp
  then show ?thesis using assms(1,3,4)
    by (cases ev) (auto simp: tsx_on_state_completed_uac_def rfc_next_def rfc_client_def rfc_event_of_def rfc_response_class_def
        intro!: follows_same follows_terminated split: tsx_timer_e.split)
qed

lemma confirmed_follows:
  assumes "env_delivers env" "state t = PJSIP_TSX_STATE_CONFIRMED"
  shows "follows env ev t (fst (tsx_on_state_confirmed env ev t))"
  using assms by (cases ev) (auto simp: tsx_on_state_confirmed_def rfc_next_def rfc_client_def rfc_server_def rfc_event_of_def
        rfc_response_class_def intro!: follows_same follows_terminated split: tsx_timer_e.split)

lemma terminated_follows:
  assumes "env_delivers env" "state t = PJSIP_TSX_STATE_TERMINATED"
  shows "follows env ev t (fst (tsx_on_state_terminated env ev t))"
proof (cases ev)
  case (Ev_Timer e)
  then have "rfc_next t ev = PJSIP_TSX_STATE_DESTROYED" using assms(2)
    by (cases e) (simp_all add: rfc_next_def rfc_client_def rfc_server_def rfc_event_of_def)
  then show ?thesis using Ev_Timer delivers_set_state(1) [OF assms(1)]
    by (simp add: follows_def tsx_on_state_terminated_def less_eq_pjsip_tsx_state_e_def)
qed (use assms(2) in \<open>auto simp: tsx_on_state_terminated_def rfc_next_def rfc_client_def rfc_server_def rfc_event_of_def
        rfc_response_class_def intro!: follows_same\<close>)

lemma handler_follows:
  assumes "env_delivers env" "can_send t" "tsx_ok t" "call_state_handler env ev t = Some (t', status)"
  shows "follows env ev t t'"
proof -
  have d: "state t = PJSIP_TSX_STATE_DESTROYED \<Longrightarrow> follows env ev t t"
    by (rule follows_same) (simp_all add: rfc_next_def rfc_client_def rfc_server_def)
  have n: "state t = PJSIP_TSX_STATE_NULL \<Longrightarrow> follows env ev t (fst (tsx_on_state_null env ev t))"
    using rfc_null [OF assms(1,2), of ev]
    by (intro follows_early) (simp_all add: rfc_next_def rfc_client_def rfc_server_def)
  have u: "role t = PJSIP_ROLE_UAC \<Longrightarrow> state t = PJSIP_TSX_STATE_PROCEEDING \<Longrightarrow>
      follows env ev t (fst (tsx_on_state_proceeding_uac env ev t))"
    using proceeding_uac_follows [OF assms(1,2)] by simp
  note all = n u d calling_follows [OF assms(1,2), of ev] trying_follows [OF assms(1,2), of ev]
    proceeding_uas_follows [OF assms(1,2), of ev] completed_uas_follows [OF assms(1,2), of ev]
    completed_uac_follows [OF assms(1,2), of ev] confirmed_follows [OF assms(1), of t ev]
    terminated_follows [OF assms(1), of t ev]
  show ?thesis
    using assms(3,4) all
    by (cases "role t"; cases "state t")
       (auto simp: tsx_ok_def call_state_handler_def tsx_state_handler_uac_def tsx_state_handler_uas_def tsx_on_state_destroyed_def)
qed

section \<open>A concrete transaction\<close>

definition demo_request :: tx_data where
  "demo_request = \<lparr>td_addr = 1, td_is_request = True, td_code = 0, td_reason = [],
     td_cseq_method = PJSIP_INVITE_METHOD, td_is_pending = False\<rparr>"

definition demo_ack :: tx_data where
  "demo_ack = \<lparr>td_addr = 2, td_is_request = True, td_code = 0, td_reason = [],
     td_cseq_method = PJSIP_ACK_METHOD, td_is_pending = False\<rparr>"

definition demo_response :: "int \<Rightarrow> rx_data" where
  "demo_response code = demo_rdata\<lparr>rx_is_request := False, rx_code := code\<rparr>"

definition idle_timer :: tsx_timer where
  "idle_timer = \<lparr>tm_id = 0, tm_running = False, tm_delay = Time_Val 0 0\<rparr>"

definition demo_tsx :: "pjsip_role_e \<Rightarrow> pjsip_tsx_state_e \<Rightarrow> tsx" where
  "demo_tsx r st = \<lparr>self = 7, tsx_user = True, user_on_tsx_state = True, user_on_rx_response = False,
     terminating = False, lock_refs = 1, role = r,
     tsx_method = \<lparr>method_id = PJSIP_INVITE_METHOD, method_name = [73]\<rparr>, tsx_cseq = 1, transaction_key = [99],
     hashed_key = 0, tsx_branch = [98], status_code = 0, status_text = [], state = st, handle_200resp = 0,
     state_handler = (if r = PJSIP_ROLE_UAC then tsx_state_handler_uac st else tsx_state_handler_uas st),
     transport = Some 3, is_reliable = False, res_transport = None, has_pending_transport = False,
     has_pending_resched = False, has_pending_send = False, has_pending_destroy = False,
     has_resolved_server = False, transport_err = PJ_SUCCESS, pending_tx = None, last_tx = Some demo_request,
     retransmit_count = 0, retransmit_timer = idle_timer, timeout_timer = idle_timer, tx_refs = (\<lambda>_. 1),
     attached = [], tp_refs = (\<lambda>_. 1), tp_sel = PJSIP_TPSELECTOR_NONE, tu_log = [], htable = empty16, mod_id = 0\<rparr>"

text \<open>The default timer values, a user that only listens, and a transport that sends everything.\<close>

definition demo_env :: tsx_env where
  "demo_env = \<lparr>cfg_t1 = 500, cfg_t2 = 4000, cfg_t4 = 5000, cfg_td = 32000,
     transport_send = (\<lambda>tp d t. (t, PJ_SUCCESS)), send_request_stateless = (\<lambda>d t. (t, PJ_EPENDING)),
     send_response = (\<lambda>d t. (t, PJ_EPENDING)), on_tsx_state = (\<lambda>prev src t. t), on_rx_response = (\<lambda>rdata t. t),
     endpt_create_ack = (\<lambda>last rdata. Inr demo_ack), tp_is_reliable = (\<lambda>tp. False), tp_is_shutdown = (\<lambda>tp. False),
     strerror = (\<lambda>err. [])\<rparr>"

lemma demo_env_delivers: "env_delivers demo_env"
  by (simp add: env_delivers_def env_calm_def demo_env_def)

lemma demo_env_calm: "env_calm demo_env"
  by (rule delivers_calm [OF demo_env_delivers])

lemma demo_tsx_simps [simp]:
  "state (demo_tsx r st) = st" "role (demo_tsx r st) = r" "timeout_timer (demo_tsx r st) = idle_timer" "can_send (demo_tsx r st)"
  by (simp_all add: demo_tsx_def can_send_def)

lemma demo_uac_ok: "st \<noteq> PJSIP_TSX_STATE_TRYING \<Longrightarrow> tsx_ok (demo_tsx PJSIP_ROLE_UAC st)"
  by (simp add: tsx_ok_def) (simp add: demo_tsx_def)

section \<open>Properties\<close>







lemma unat_doubled:
  assumes "unat (x :: u32) * 2 ^ n < 2 ^ 32"
  shows "unat (push_bit n 1 * x) = unat x * 2 ^ n"
proof -
  have "push_bit n 1 * x = of_nat (unat x * 2 ^ n)"
    by (simp add: push_bit_eq_mult mult.commute)
  moreover have "unat (of_nat (unat x * 2 ^ n) :: u32) = unat x * 2 ^ n"
    unfolding unat_of_nat using assms by (intro mod_less) simp
  ultimately show ?thesis by metis
qed



text \<open>
  The retransmission timer of a client transaction that waits for its first response sends the
  last message again, counts it and starts the timer anew with the next interval.
\<close>

theorem tsx_retransmission:
  assumes "state_handler t = Some On_Calling" "\<not> tm_running (retransmit_timer t)" "last_tx t = Some d"
    and "\<not> has_pending_transport t" "unat (cfg_t1 env) * 2 ^ (retransmit_count t + 1) < 2 ^ 32"
    and "role t = PJSIP_ROLE_UAC" "is_invite t" "status_code t < 100" "cfg_t1 env \<noteq> 0"
  shows "call_state_handler env (Ev_Timer Retransmit_Timer) t =
     Some (tsx_send_msg env (Some d) (t\<lparr>retransmit_count := retransmit_count t + 1, lock_refs := lock_refs t + 1,
       retransmit_timer := \<lparr>tm_id = RETRANSMIT_TIMER, tm_running = True,
         tm_delay = timer_val (of_nat (unat (cfg_t1 env) * 2 ^ (retransmit_count t + 1)))\<rparr>\<rparr>))"
proof -
  define t1 where "t1 = t\<lparr>retransmit_count := retransmit_count t + 1\<rparr>"
  have n: "unat (retransmit_msec env t1) = unat (cfg_t1 env) * 2 ^ (retransmit_count t + 1)"
  proof -
    have "unat (push_bit (retransmit_count t + 1) 1 * cfg_t1 env) = unat (cfg_t1 env) * 2 ^ (retransmit_count t + 1)"
      by (rule unat_doubled [OF assms(5)])
    then show ?thesis using assms(6-8) by (simp add: retransmit_msec_def t1_def Let_def del: power_Suc)
  qed
  have m: "retransmit_msec env t1 = of_nat (unat (cfg_t1 env) * 2 ^ (retransmit_count t + 1))"
    unfolding n [symmetric] by simp
  have "unat (cfg_t1 env) \<noteq> 0" using assms(9) by (simp add: unat_eq_0)
  then have nz: "retransmit_msec env t1 \<noteq> 0" using n by (metis mult_is_0 power_not_zero unat_0 zero_neq_numeral)
  have "tsx_resched_retransmission env t1 = t\<lparr>retransmit_count := retransmit_count t + 1, lock_refs := lock_refs t + 1,
       retransmit_timer := \<lparr>tm_id = RETRANSMIT_TIMER, tm_running = True, tm_delay = timer_val (retransmit_msec env t1)\<rparr>\<rparr>"
    using nz assms(2) by (simp add: tsx_resched_retransmission_def Let_def tsx_schedule_timer_def set_timer_def
        grp_lock_add_ref_def) (simp add: t1_def)
  then show ?thesis
    using assms(1-4) m by (simp add: call_state_handler_def tsx_on_state_calling_def tsx_retransmit_def Let_def t1_def)
qed

theorem tsx_retransmission_witness:
  "\<exists>t'. call_state_handler demo_env (Ev_Timer Retransmit_Timer) (demo_tsx PJSIP_ROLE_UAC PJSIP_TSX_STATE_CALLING) = Some (t', PJ_SUCCESS)
     \<and> tm_delay (retransmit_timer t') = Time_Val 1 0"
proof -
  let ?t = "demo_tsx PJSIP_ROLE_UAC PJSIP_TSX_STATE_CALLING"
  have "call_state_handler demo_env (Ev_Timer Retransmit_Timer) ?t =
     Some (tsx_send_msg demo_env (Some demo_request) (?t\<lparr>retransmit_count := retransmit_count ?t + 1, lock_refs := lock_refs ?t + 1,
       retransmit_timer := \<lparr>tm_id = RETRANSMIT_TIMER, tm_running = True,
         tm_delay = timer_val (of_nat (unat (cfg_t1 demo_env) * 2 ^ (retransmit_count ?t + 1)))\<rparr>\<rparr>))"
    by (rule tsx_retransmission) (simp_all add: demo_tsx_def demo_env_def idle_timer_def tsx_state_handler_uac_def)
  then show ?thesis
    by (simp add: tsx_send_msg_def demo_request_def) (simp add: demo_tsx_def demo_env_def grp_lock_add_ref_def grp_lock_dec_ref_def timer_val_def)
qed

text \<open>
  An INVITE refused with a final response for which no ACK can be made stays in its state with
  both timers off: nothing will end it.
\<close>

theorem tsx_ack_failure_untimed:
  assumes "state_handler t = Some On_Proceeding_Uac" "is_invite t"
    and "\<not> rx_is_request rdata" "300 \<le> rx_code rdata" "rx_code rdata \<le> 699"
    and "\<And>last. endpt_create_ack env last rdata = Inl err"
  shows "\<exists>t'. call_state_handler env (Ev_Rx_Msg rdata) t = Some (t', err) \<and> state t' = state t
     \<and> \<not> tm_running (timeout_timer t') \<and> \<not> tm_running (retransmit_timer t')"
proof -
  let ?t1 = "tsx_set_status_code (rx_code rdata) (Some (rx_reason rdata)) t"
  let ?t2 = "unschedule Timeout_Timer (unschedule Retransmit_Timer ?t1)"
  have c: "status_code ?t1 = rx_code rdata" by (simp add: tsx_set_status_code_def)
  have r: "\<not> tm_running (retransmit_timer ?t2)"
    using tsx_timers.stop_timer [where s = ?t1 and a = Retransmit_Timer] tsx_timers.stop_timer [where s = "unschedule Retransmit_Timer ?t1" and a = Timeout_Timer]
    by (auto simp: tsx_due_def fun_eq_iff split: if_splits dest!: spec [of _ Retransmit_Timer])
  show ?thesis
    using assms c r by (simp add: call_state_handler_def tsx_on_state_proceeding_uac_def uac_3xx_6xx_def Let_def)
qed

theorem tsx_ack_failure_untimed_witness:
  "\<exists>t'. call_state_handler (demo_env\<lparr>endpt_create_ack := \<lambda>last rdata. Inl PJ_ENOMEM\<rparr>) (Ev_Rx_Msg (demo_response 486))
       (demo_tsx PJSIP_ROLE_UAC PJSIP_TSX_STATE_PROCEEDING) = Some (t', PJ_ENOMEM)
     \<and> state t' = PJSIP_TSX_STATE_PROCEEDING \<and> \<not> tm_running (timeout_timer t')"
  using tsx_ack_failure_untimed [of "demo_tsx PJSIP_ROLE_UAC PJSIP_TSX_STATE_PROCEEDING" "demo_response 486"
      "demo_env\<lparr>endpt_create_ack := \<lambda>last rdata. Inl PJ_ENOMEM\<rparr>" PJ_ENOMEM]
  by (auto simp: demo_tsx_def demo_response_def demo_rdata_def tsx_state_handler_uac_def)

text \<open>
  When the resolution of the destination fails at once, the flag of a pending transport stays
  set although nothing is pending: the error is returned, but every later message is queued for a
  callback that will never come and reported as sent. For a response the reference taken on the
  group lock is not given back.
\<close>

theorem tsx_resolve_failure_blocks:
  assumes "transport t = None" "\<not> has_pending_transport t" "\<not> has_resolved_server t" "\<not> td_is_pending d"
    and "\<And>t. (if td_is_request d then send_request_stateless env d t else send_response env d t) = (t, err)"
    and "err \<noteq> PJ_SUCCESS" "err \<noteq> PJ_EPENDING"
  shows "\<exists>t'. tsx_send_msg env (Some d) t = (t', err) \<and> pending_tx t' = None
     \<and> lock_refs t' = lock_refs t + (if td_is_request d then 0 else 1)
     \<and> (\<forall>d'. tsx_send_msg env (Some d') t' = (t'\<lparr>has_pending_send := True\<rparr>, PJ_SUCCESS))"
  using assms by (cases "td_is_request d")
    (simp_all add: tsx_send_msg_def send_resolve_def Let_def attach_tx_def detach_tx_def tx_data_add_ref_def
      tx_data_dec_ref_def grp_lock_add_ref_def grp_lock_dec_ref_def)

theorem tsx_resolve_failure_blocks_witness:
  "\<exists>t'. tsx_send_msg (demo_env\<lparr>send_request_stateless := \<lambda>d t. (t, PJ_ENOMEM)\<rparr>) (Some demo_request)
       ((demo_tsx PJSIP_ROLE_UAC PJSIP_TSX_STATE_NULL)\<lparr>transport := None\<rparr>) = (t', PJ_ENOMEM)
     \<and> (\<forall>d'. tsx_send_msg (demo_env\<lparr>send_request_stateless := \<lambda>d t. (t, PJ_ENOMEM)\<rparr>) (Some d') t'
              = (t'\<lparr>has_pending_send := True\<rparr>, PJ_SUCCESS))"
  using tsx_resolve_failure_blocks [of "(demo_tsx PJSIP_ROLE_UAC PJSIP_TSX_STATE_NULL)\<lparr>transport := None\<rparr>" demo_request
      "demo_env\<lparr>send_request_stateless := \<lambda>d t. (t, PJ_ENOMEM)\<rparr>" PJ_ENOMEM]
  by (auto simp: demo_tsx_def demo_request_def)

text \<open>
  A final response to an INVITE that an unreliable transport sends asynchronously is never
  retransmitted: the timer is left to the completion of the send, and the completion callback of
  the transport does not start it.
\<close>

theorem tsx_pending_response_not_retransmitted:
  assumes "\<And>prev src t. on_tsx_state env prev src t = t" "has_pending_transport t" "td_cseq_method d = PJSIP_INVITE_METHOD"
    and "\<not> is_reliable t"
  shows "let t' = transport_callback Sent (uas_3xx_6xx env d t)
     in state t' = PJSIP_TSX_STATE_COMPLETED \<and> has_pending_resched t' \<and> \<not> has_pending_transport t'
        \<and> \<not> tm_running (retransmit_timer t')"
proof -
  define t1 where "t1 = (let t = unschedule Retransmit_Timer t;
          t = save_last_tx d t;
          t = unschedule Timeout_Timer t
     in (if is_invite t then schedule Timeout_Timer (timeout_timer_val env) TIMEOUT_TIMER t
               else if \<not> is_reliable t then schedule Timeout_Timer (timeout_timer_val env) TIMEOUT_TIMER t
               else schedule Timeout_Timer (Time_Val 0 0) TIMEOUT_TIMER t))"
  have t1: "has_pending_transport t1" "\<not> is_reliable t1" "\<not> tm_running (retransmit_timer t1)"
    using assms(2,4) by (simp_all add: t1_def Let_def) 
      (simp_all add: tsx_schedule_timer_def tsx_cancel_timer_def save_last_tx_def set_timer_def get_timer_def
        grp_lock_add_ref_def grp_lock_dec_ref_def tx_data_add_ref_def)
  have e: "uas_3xx_6xx env d t = set_state env PJSIP_TSX_STATE_COMPLETED (Ev_Tx_Msg d) (start_retransmission (t1_timer_val env) t1)"
    using t1(2) assms(3) unfolding uas_3xx_6xx_def Let_def t1_def by simp
  show ?thesis
    unfolding e using t1 assms(1)
    by (simp add: start_retransmission_def tsx_set_state_def set_state_notify_def notify_tu_def transport_callback_def
        grp_lock_dec_ref_def Let_def)
qed

theorem tsx_pending_response_not_retransmitted_witness:
  "let t' = transport_callback Sent (uas_3xx_6xx demo_env (demo_request\<lparr>td_is_request := False, td_code := 486\<rparr>)
       ((demo_tsx PJSIP_ROLE_UAS PJSIP_TSX_STATE_PROCEEDING)\<lparr>has_pending_transport := True\<rparr>))
   in state t' = PJSIP_TSX_STATE_COMPLETED \<and> \<not> tm_running (retransmit_timer t')"
  using tsx_pending_response_not_retransmitted [of demo_env
      "(demo_tsx PJSIP_ROLE_UAS PJSIP_TSX_STATE_PROCEEDING)\<lparr>has_pending_transport := True\<rparr>"
      "demo_request\<lparr>td_is_request := False, td_code := 486\<rparr>"]
  by (simp add: demo_env_def demo_request_def Let_def) (simp add: demo_tsx_def)

end
