(* ===== verification/Tsx_Layer.thy ===== *)
theory Tsx_Layer
  imports Tsx_Rfc
begin

text \<open>
  Model of the transaction layer of \<^verbatim>\<open>pjsip/src/pjsip/sip_transaction.c\<close>: the table of transactions by
  key, the creation and registration of client and server transactions, the dispatch of incoming
  messages and the shutdown of the layer. A transaction is found through its address; its record
  carries the table while one of its operations runs. What the code takes from outside is an
  argument: whether memory and locks could be had, the unique string of a branch, the address to
  send to, and, where a key is used although its creation failed, the octets that happen to be in
  the uninitialised variable.
\<close>

section \<open>Data\<close>

record tsx_layer =
  l_htable :: "nat hash_table"
  l_mod_id :: int
  l_txs :: "nat \<Rightarrow> tsx option"

text \<open>A transaction with the state of the layer in it, and back.\<close>

definition tsx_load :: "tsx_layer \<Rightarrow> nat \<Rightarrow> tsx option" where
  "tsx_load l a = map_option (\<lambda>t. t\<lparr>htable := l_htable l, mod_id := l_mod_id l\<rparr>) (l_txs l a)"

definition tsx_store :: "nat \<Rightarrow> tsx \<Rightarrow> tsx_layer \<Rightarrow> tsx_layer" where
  "tsx_store a t l = l\<lparr>l_htable := htable t, l_txs := (l_txs l)(a \<mapsto> t)\<rparr>"

definition with_tsx :: "nat \<Rightarrow> (tsx \<Rightarrow> tsx) \<Rightarrow> tsx_layer \<Rightarrow> tsx_layer" where
  "with_tsx a f l = (case tsx_load l a of Some t \<Rightarrow> tsx_store a (f t) l | None \<Rightarrow> l)"

text \<open>A user of transactions: the callbacks it has.\<close>

record tsx_user_mod =
  has_on_tsx_state :: bool
  has_on_rx_response :: bool

text \<open>An outgoing request: the message, its method, its CSeq number and the branch of its top Via (empty if it has none).\<close>

record out_request =
  rq_tdata :: tx_data
  rq_method :: pjsip_method
  rq_has_cseq :: bool
  rq_cseq :: int
  rq_branch :: bytes

text \<open>The address for responses: a transport to keep, or whether the destination is reliable.\<close>

record response_addr =
  ra_transport :: "nat option"
  ra_reliable :: bool

section \<open>The table\<close>

definition mod_tsx_layer_register_tsx :: "tsx \<Rightarrow> tsx \<times> pj_status" where
  "mod_tsx_layer_register_tsx t =
     (if pj_hash_get_lower (htable t) (transaction_key t) (of_nat (length (transaction_key t))) 0 \<noteq> None
      then (t, PJ_EEXISTS)
      else (case pj_hash_set_lower True (htable t) (transaction_key t) (of_nat (length (transaction_key t)))
                   (hashed_key t) (Some (self t)) of
              Some ht \<Rightarrow> t\<lparr>htable := ht\<rparr>
            | None \<Rightarrow> t, PJ_SUCCESS))"

definition pjsip_tsx_layer_get_tsx_count :: "tsx_layer \<Rightarrow> u32" where
  "pjsip_tsx_layer_get_tsx_count l = pj_hash_count (l_htable l)"

definition find_tsx :: "bytes \<Rightarrow> bool \<Rightarrow> tsx_layer \<Rightarrow> tsx_layer \<times> nat option" where
  "find_tsx key add_ref l =
     (case pj_hash_get_lower (l_htable l) key (of_nat (length key)) 0 of
        None \<Rightarrow> (l, None)
      | Some a \<Rightarrow>
          let l = with_tsx a grp_lock_add_ref l;
              l = (if \<not> add_ref then with_tsx a grp_lock_dec_ref l else l)
          in (l, Some a))"

definition pjsip_tsx_layer_find_tsx :: "bytes \<Rightarrow> tsx_layer \<Rightarrow> tsx_layer \<times> nat option" where
  "pjsip_tsx_layer_find_tsx key l = find_tsx key False l"

definition pjsip_tsx_layer_find_tsx2 :: "bytes \<Rightarrow> bool \<Rightarrow> tsx_layer \<Rightarrow> tsx_layer \<times> nat option" where
  "pjsip_tsx_layer_find_tsx2 key add_ref l = find_tsx key add_ref l"

section \<open>Creating transactions\<close>

text \<open>A transaction as \<^verbatim>\<open>PJ_POOL_ZALLOC_T\<close> leaves it.\<close>

definition tsx_zero :: "nat \<Rightarrow> tsx" where
  "tsx_zero a = \<lparr>self = a, tsx_user = False, user_on_tsx_state = False, user_on_rx_response = False,
     terminating = False, lock_refs = 0, role = PJSIP_ROLE_UAC,
     tsx_method = \<lparr>method_id = PJSIP_INVITE_METHOD, method_name = []\<rparr>, tsx_cseq = 0, transaction_key = [],
     hashed_key = 0, tsx_branch = [], status_code = 0, status_text = [], state = PJSIP_TSX_STATE_NULL,
     handle_200resp = 0, state_handler = None, transport = None, is_reliable = False, res_transport = None,
     has_pending_transport = False, has_pending_resched = False, has_pending_send = False,
     has_pending_destroy = False, has_resolved_server = False, transport_err = PJ_SUCCESS, pending_tx = None,
     last_tx = None, retransmit_count = 0,
     retransmit_timer = \<lparr>tm_id = TIMER_INACTIVE, tm_running = False, tm_delay = Time_Val 0 0\<rparr>,
     timeout_timer = \<lparr>tm_id = TIMER_INACTIVE, tm_running = False, tm_delay = Time_Val 0 0\<rparr>,
     tx_refs = (\<lambda>_. 0), attached = [], tp_refs = (\<lambda>_. 0), tp_sel = PJSIP_TPSELECTOR_NONE, tu_log = [],
     htable = \<lparr>ht_table = [], ht_count = 0, ht_rows = 0\<rparr>, mod_id = 0\<rparr>"

text \<open>
  \<^verbatim>\<open>tsx_create\<close>; \<^verbatim>\<open>mem\<close> is the outcome of allocating the pool and the group lock, \<^verbatim>\<open>mutex\<close> that of the
  second mutex, after which a failed transaction is shut down.
\<close>

definition tsx_create ::
  "tsx_env \<Rightarrow> tsx_user_mod option \<Rightarrow> pj_status \<Rightarrow> pj_status \<Rightarrow> nat \<Rightarrow> tsx_layer \<Rightarrow> tsx_layer \<times> (pj_status + tsx)" where
  "tsx_create env user mem mutex a l =
     (if mem \<noteq> PJ_SUCCESS then (l, Inl mem)
      else
        let t = (tsx_zero a)\<lparr>tsx_user := user \<noteq> None,
                   user_on_tsx_state := (case user of Some u \<Rightarrow> has_on_tsx_state u | None \<Rightarrow> False),
                   user_on_rx_response := (case user of Some u \<Rightarrow> has_on_rx_response u | None \<Rightarrow> False),
                   handle_200resp := 1, htable := l_htable l, mod_id := l_mod_id l\<rparr>;
            t = grp_lock_add_ref t
        in if mutex \<noteq> PJ_SUCCESS then (tsx_store a (tsx_shutdown env t) l, Inl mutex) else (l, Inr t))"

text \<open>A transaction that could not be registered is shut down.\<close>

definition register_or_shutdown :: "tsx_env \<Rightarrow> nat \<Rightarrow> tsx \<Rightarrow> tsx_layer \<Rightarrow> tsx_layer \<times> pj_status" where
  "register_or_shutdown env a t l =
     (let (t, status) = mod_tsx_layer_register_tsx t
      in if status \<noteq> PJ_SUCCESS then (tsx_store a (tsx_shutdown env t) l, status) else (tsx_store a t l, PJ_SUCCESS))"

text \<open>The branch of a request that has none: the magic cookie, the two octets \<^verbatim>\<open>Pj\<close> and a unique string.\<close>

definition request_branch :: "bytes \<Rightarrow> bytes \<Rightarrow> bytes" where
  "request_branch unique branch = (if length branch = 0 then PJSIP_RFC3261_BRANCH_ID @ [80, 106] @ unique else branch)"

definition pjsip_tsx_create_uac2 ::
  "tsx_env \<Rightarrow> tsx_user_mod option \<Rightarrow> pj_status \<Rightarrow> pj_status \<Rightarrow> bytes \<Rightarrow> pj_status + bool \<Rightarrow> out_request \<Rightarrow> nat
     \<Rightarrow> tsx_layer \<Rightarrow> tsx_layer \<times> pj_status" where
  "pjsip_tsx_create_uac2 env user mem mutex unique dest rq a l =
     (if \<not> td_is_request (rq_tdata rq) then (l, PJSIP_ENOTREQUESTMSG)
      else if method_id (rq_method rq) = PJSIP_ACK_METHOD then (l, PJ_EINVALIDOP)
      else if \<not> rq_has_cseq rq then (l, PJSIP_EMISSINGHDR)
      else
        (case tsx_create env user mem mutex a l of
           (l, Inl status) \<Rightarrow> (l, status)
         | (l, Inr t) \<Rightarrow>
             let branch = request_branch unique (rq_branch rq);
                 key = create_tsx_key_3261 PJSIP_ROLE_UAC (rq_method rq) branch;
                 t = t\<lparr>role := PJSIP_ROLE_UAC, tsx_method := rq_method rq, tsx_cseq := rq_cseq rq, tsx_branch := branch,
                       transaction_key := key, hashed_key := fst (pj_hash_calc_tolower 0 key),
                       state := PJSIP_TSX_STATE_NULL, state_handler := Some On_Null\<rparr>;
                 t = tx_data_add_ref (rq_tdata rq) (t\<lparr>last_tx := Some (rq_tdata rq)\<rparr>)
             in case dest of
                  Inl status \<Rightarrow> (tsx_store a (tsx_shutdown env t) l, status)
                | Inr reliable \<Rightarrow> register_or_shutdown env a (t\<lparr>is_reliable := reliable\<rparr>) l))"

definition pjsip_tsx_create_uas2 ::
  "tsx_env \<Rightarrow> tsx_user_mod option \<Rightarrow> pj_status \<Rightarrow> pj_status \<Rightarrow> pj_status + response_addr \<Rightarrow> rx_data \<Rightarrow> nat
     \<Rightarrow> tsx_layer \<Rightarrow> tsx_layer \<times> pj_status" where
  "pjsip_tsx_create_uas2 env user mem mutex resp_addr rdata a l =
     (if \<not> rx_is_request rdata then (l, PJSIP_ENOTREQUESTMSG)
      else if method_id (rx_method rdata) = PJSIP_ACK_METHOD then (l, PJ_EINVALIDOP)
      else if \<not> has_cseq rdata then (l, PJSIP_EMISSINGHDR)
      else if \<not> has_via rdata then (l, PJSIP_EMISSINGHDR)
      else if \<not> pjsip_method_eq (rx_method rdata) (cseq_method rdata) then (l, PJSIP_EINVALIDHDR)
      else
        (case tsx_create env user mem mutex a l of
           (l, Inl status) \<Rightarrow> (l, status)
         | (l, Inr t) \<Rightarrow>
             let t = t\<lparr>role := PJSIP_ROLE_UAS, tsx_method := rx_method rdata, tsx_cseq := cseq_num rdata\<rparr>
             in case pjsip_tsx_create_key PJSIP_ROLE_UAS (tsx_method t) rdata of
                  Inl status \<Rightarrow> (tsx_store a (tsx_shutdown env t) l, status)
                | Inr key \<Rightarrow>
                    let t = t\<lparr>transaction_key := key, hashed_key := fst (pj_hash_calc_tolower 0 key),
                              tsx_branch := via_branch rdata, state := PJSIP_TSX_STATE_NULL,
                              state_handler := Some On_Null\<rparr>
                    in case resp_addr of
                         Inl status \<Rightarrow> (tsx_store a (tsx_shutdown env t) l, status)
                       | Inr res_addr \<Rightarrow>
                           let t = t\<lparr>res_transport := ra_transport res_addr\<rparr>;
                               t = (case ra_transport res_addr of
                                      Some tp \<Rightarrow>
                                        let t = tsx_update_transport env (Some tp) t
                                        in t\<lparr>is_reliable := tp_is_reliable env tp\<rparr>
                                    | None \<Rightarrow> t\<lparr>is_reliable := ra_reliable res_addr\<rparr>)
                           in register_or_shutdown env a t l))"

section \<open>Incoming messages\<close>

text \<open>
  The common body of \<^verbatim>\<open>mod_tsx_layer_on_rx_request\<close> and \<^verbatim>\<open>mod_tsx_layer_on_rx_response\<close>. The result is
  \<open>None\<close> where the program dereferences a pointer to a transaction that is gone, or a null handler.
\<close>

definition rx_dispatch :: "tsx_env \<Rightarrow> pjsip_role_e \<Rightarrow> bytes \<Rightarrow> rx_data \<Rightarrow> tsx_layer \<Rightarrow> (tsx_layer \<times> bool) option" where
  "rx_dispatch env r stale rdata l =
     (let key = (case pjsip_tsx_create_key r (cseq_method rdata) rdata of Inr k \<Rightarrow> k | Inl _ \<Rightarrow> stale)
      in case pj_hash_get_lower (l_htable l) key (of_nat (length key)) 0 of
           None \<Rightarrow> Some (l, False)
         | Some a \<Rightarrow>
             (case tsx_load l a of
                None \<Rightarrow> None
              | Some t \<Rightarrow>
                  if state t = PJSIP_TSX_STATE_TERMINATED then Some (l, False)
                  else map_option (\<lambda>t. (tsx_store a (grp_lock_dec_ref t) l, True))
                         (pjsip_tsx_recv_msg env rdata (grp_lock_add_ref t))))"

definition mod_tsx_layer_on_rx_request :: "tsx_env \<Rightarrow> bytes \<Rightarrow> rx_data \<Rightarrow> tsx_layer \<Rightarrow> (tsx_layer \<times> bool) option" where
  "mod_tsx_layer_on_rx_request env stale rdata l = rx_dispatch env PJSIP_ROLE_UAS stale rdata l"

definition mod_tsx_layer_on_rx_response :: "tsx_env \<Rightarrow> bytes \<Rightarrow> rx_data \<Rightarrow> tsx_layer \<Rightarrow> (tsx_layer \<times> bool) option" where
  "mod_tsx_layer_on_rx_response env stale rdata l = rx_dispatch env PJSIP_ROLE_UAC stale rdata l"

section \<open>Shutting down the layer\<close>

definition stop_tsx :: "tsx_env \<Rightarrow> tsx \<Rightarrow> tsx" where
  "stop_tsx env t =
     tsx_shutdown env (mod_tsx_layer_unregister_tsx (fst (pjsip_tsx_terminate env PJSIP_SC_SERVICE_UNAVAILABLE t)))"

text \<open>
  The loop of \<^verbatim>\<open>mod_tsx_layer_stop\<close>: the iterator moves on before the current transaction leaves the
  table.
\<close>

partial_function (option) stop_loop :: "tsx_env \<Rightarrow> nat hash_iterator option \<Rightarrow> tsx_layer \<Rightarrow> tsx_layer option" where
  "stop_loop env it_opt l =
     (case it_opt of
        None \<Rightarrow> Some l
      | Some it \<Rightarrow> stop_loop env (pj_hash_next (l_htable l) it) (with_tsx (pj_hash_this it) (stop_tsx env) l))"

definition mod_tsx_layer_stop :: "tsx_env \<Rightarrow> tsx_layer \<Rightarrow> tsx_layer option" where
  "mod_tsx_layer_stop env l = stop_loop env (pj_hash_first (l_htable l)) l"

end
