(* ===== verification/Tsx_Layer_Props.thy ===== *)
theory Tsx_Layer_Props
  imports Tsx_Layer
begin

text \<open>
  The transaction layer is correct: its table is a map from keys to live transactions, creation
  registers exactly one of them, messages reach the transaction they belong to, and a destroyed
  transaction, or all of them when the layer stops, leaves the table. The lemmas on the table come
  from the interpretation of the keyed store on the hash table.
\<close>

section \<open>Definitions\<close>

abbreviation lookup_tsx :: "tsx_layer \<Rightarrow> bytes \<Rightarrow> nat option" where
  "lookup_tsx l key \<equiv> pj_hash_get_lower (l_htable l) key (of_nat (length key)) 0"

text \<open>The key, the precomputed hash and the address of a transaction belong together.\<close>

definition keyed :: "tsx \<Rightarrow> bytes \<Rightarrow> nat \<Rightarrow> bool" where
  "keyed t ck a \<longleftrightarrow> self t = a \<and> key_ok True (transaction_key t) \<and> canon True (transaction_key t) = ck
     \<and> hashed_key t = fst (pj_hash_calc_tolower 0 (transaction_key t))"

text \<open>The table is well formed, and every entry points to a transaction with its key.\<close>

definition layer_inv :: "tsx_layer \<Rightarrow> bool" where
  "layer_inv l \<longleftrightarrow> hash_inv True (l_htable l)
     \<and> (\<forall>ck a. hash_abs True (l_htable l) ck = Some a \<longrightarrow> (\<exists>t. l_txs l a = Some t \<and> keyed t ck a))"

definition stopped :: "tsx \<Rightarrow> bool" where
  "stopped t \<longleftrightarrow> PJSIP_TSX_STATE_TERMINATED \<le> state t \<and> terminating t
     \<and> \<not> tm_running (timeout_timer t) \<and> \<not> tm_running (retransmit_timer t)"

text \<open>An iterator in the middle of the loop: everything before it has been removed.\<close>

definition stopping :: "nat hash_table \<Rightarrow> nat hash_iterator option \<Rightarrow> bool" where
  "stopping ht it_opt \<longleftrightarrow> (case it_opt of
     None \<Rightarrow> concat (ht_table ht) = []
   | Some it \<Rightarrow> it_index it < length (ht_table ht) \<and> it_entry it \<noteq> [] \<and> ht_table ht ! it_index it = it_entry it
       \<and> (\<forall>r < it_index it. ht_table ht ! r = []))"

section \<open>Registration and lookup\<close>

lemma find_tsx_lookup: "snd (find_tsx key r l) = lookup_tsx l key"
  by (simp add: find_tsx_def Let_def split: option.split)

lemma layer_lookup: "layer_inv l \<Longrightarrow> key_ok True k \<Longrightarrow> lookup_tsx l k = hash_abs True (l_htable l) (canon True k)"
  by (simp add: hash_lower.lookup_absmap layer_inv_def)

text \<open>Registering a transaction whose key, hash and address belong together.\<close>

lemma register_spec:
  assumes "layer_inv l" "htable t = l_htable l" "keyed t ck a" "l_txs l a = None"
  shows "if lookup_tsx l (transaction_key t) = None
     then \<exists>ht. mod_tsx_layer_register_tsx t = (t\<lparr>htable := ht\<rparr>, PJ_SUCCESS)
          \<and> hash_inv True ht \<and> hash_abs True ht = (hash_abs True (l_htable l))(ck \<mapsto> a)
     else mod_tsx_layer_register_tsx t = (t, PJ_EEXISTS)"
proof (cases "lookup_tsx l (transaction_key t) = None")
  case True
  have k: "key_ok True (transaction_key t)" "canon True (transaction_key t) = ck" "self t = a"
    "hashed_key t = fst (pj_hash_calc_tolower 0 (transaction_key t))"
    using assms(3) by (simp_all add: keyed_def)
  have inv: "hash_inv True (l_htable l)" using assms(1) by (simp add: layer_inv_def)
  obtain ht where ht: "pj_hash_set_lower True (l_htable l) (transaction_key t) (of_nat (length (transaction_key t)))
      (hashed_key t) (Some a) = Some ht" "hash_inv True ht" "hash_abs True ht = (hash_abs True (l_htable l))(ck \<mapsto> a)"
    using hash_lower.assign_absmap [OF inv k(1), of "Some a"] k by auto
  then have "mod_tsx_layer_register_tsx t = (t\<lparr>htable := ht\<rparr>, PJ_SUCCESS)"
    using True k(3) assms(2) by (simp add: mod_tsx_layer_register_tsx_def)
  then show ?thesis using True ht(2,3) by auto
next
  case False
  then show ?thesis using assms(2) by (auto simp: mod_tsx_layer_register_tsx_def)
qed

lemma shutdown_htable [simp]:
  "htable (tsx_shutdown env t) = htable t"
  by (simp add: tsx_shutdown_def Let_def tsx_update_transport_def tsx_cancel_timer_def grp_lock_dec_ref_def set_timer_def
      pjsip_tpselector_dec_ref_def tx_data_dec_ref_def split: option.split pjsip_tpselector.split)

lemma layer_fresh: "layer_inv l \<Longrightarrow> l_txs l a = None \<Longrightarrow> hash_abs True (l_htable l) ck \<noteq> Some a"
  unfolding layer_inv_def by (metis option.distinct(1))

lemma layer_inv_fresh:
  assumes "layer_inv l" "l_txs l a = None" "htable t = l_htable l"
  shows "layer_inv (tsx_store a t l)"
  using assms layer_fresh [OF assms(1,2)] by (auto simp: layer_inv_def tsx_store_def)

lemma layer_inv_registered:
  assumes "layer_inv l" "l_txs l a = None" "hash_inv True ht" "hash_abs True ht = (hash_abs True (l_htable l))(ck \<mapsto> a)"
    "keyed t ck a"
  shows "layer_inv (tsx_store a (t\<lparr>htable := ht\<rparr>) l)"
  using assms layer_fresh [OF assms(1,2)] by (auto simp: layer_inv_def tsx_store_def keyed_def split: if_splits)

text \<open>Both ways of creating a transaction end with this.\<close>

lemma register_or_shutdown_spec:
  assumes "layer_inv l" "htable t = l_htable l" "keyed t ck a" "l_txs l a = None"
    and l': "register_or_shutdown env a t l = (l', status)"
  shows "layer_inv l'" "\<And>b. b \<noteq> a \<Longrightarrow> l_txs l' b = l_txs l b"
    and "if lookup_tsx l (transaction_key t) = None
     then status = PJ_SUCCESS \<and> hash_abs True (l_htable l') = (hash_abs True (l_htable l))(ck \<mapsto> a)
       \<and> (\<exists>ht. l_txs l' a = Some (t\<lparr>htable := ht\<rparr>))
     else status = PJ_EEXISTS \<and> l_htable l' = l_htable l \<and> l_txs l' a = Some (tsx_shutdown env t)"
proof -
  note spec = register_spec [OF assms(1-4)]
  show "layer_inv l'"
    using spec l' layer_inv_fresh [OF assms(1,4), of "tsx_shutdown env t"] layer_inv_registered [OF assms(1,4) _ _ assms(3)] assms(2)
    by (auto simp: register_or_shutdown_def split: if_splits)
  show "\<And>b. b \<noteq> a \<Longrightarrow> l_txs l' b = l_txs l b"
    using spec l' by (auto simp: register_or_shutdown_def tsx_store_def split: if_splits)
  show "if lookup_tsx l (transaction_key t) = None
     then status = PJ_SUCCESS \<and> hash_abs True (l_htable l') = (hash_abs True (l_htable l))(ck \<mapsto> a)
       \<and> (\<exists>ht. l_txs l' a = Some (t\<lparr>htable := ht\<rparr>))
     else status = PJ_EEXISTS \<and> l_htable l' = l_htable l \<and> l_txs l' a = Some (tsx_shutdown env t)"
    using spec l' assms(2) by (auto simp: register_or_shutdown_def tsx_store_def split: if_splits) blast+
qed

lemma canon_tolower: "canon True k = map pj_tolower k"
  by (simp add: canon_def)

lemma lookup_canon: "layer_inv l \<Longrightarrow> key_ok True k \<Longrightarrow> key_ok True k' \<Longrightarrow> canon True k = canon True k' \<Longrightarrow>
   lookup_tsx l k = lookup_tsx l k'"
  by (simp add: layer_lookup)

lemma layer_count: "layer_inv l \<Longrightarrow> pjsip_tsx_layer_get_tsx_count l = of_nat (card (dom (hash_abs True (l_htable l))))"
  by (simp add: pjsip_tsx_layer_get_tsx_count_def hash_lower.total_absmap layer_inv_def)

text \<open>The effect of a new binding on lookups and on the count.\<close>

lemma lookup_after_register:
  assumes "layer_inv l" "layer_inv l'" "key_ok True key" "lookup_tsx l key = None"
    and "hash_abs True (l_htable l') = (hash_abs True (l_htable l))(canon True key \<mapsto> a)"
  shows "key_ok True k \<Longrightarrow> lookup_tsx l' k = (if map pj_tolower k = map pj_tolower key then Some a else lookup_tsx l k)"
    "pjsip_tsx_layer_get_tsx_count l' = pjsip_tsx_layer_get_tsx_count l + 1"
proof -
  show "key_ok True k \<Longrightarrow> lookup_tsx l' k = (if map pj_tolower k = map pj_tolower key then Some a else lookup_tsx l k)"
    using assms by (simp add: layer_lookup canon_tolower)
  have "finite (dom (hash_abs True (l_htable l)))"
    using assms(1) by (simp add: hash_lower.finite_absmap layer_inv_def)
  moreover have "canon True key \<notin> dom (hash_abs True (l_htable l))"
    using assms(1,3,4) by (simp add: layer_lookup domIff)
  ultimately show "pjsip_tsx_layer_get_tsx_count l' = pjsip_tsx_layer_get_tsx_count l + 1"
    using assms(1,2,5) by (simp add: layer_count)
qed

lemma create_uas_registers:
  assumes "rx_is_request rdata" "method_id (rx_method rdata) \<noteq> PJSIP_ACK_METHOD" "has_cseq rdata" "has_via rdata"
    "pjsip_method_eq (rx_method rdata) (cseq_method rdata)"
    "pjsip_tsx_create_key PJSIP_ROLE_UAS (rx_method rdata) rdata = Inr key" "key_ok True key"
  shows "\<exists>t. pjsip_tsx_create_uas2 env user PJ_SUCCESS PJ_SUCCESS (Inr ra) rdata a l = register_or_shutdown env a t l
     \<and> keyed t (canon True key) a \<and> transaction_key t = key \<and> htable t = l_htable l
     \<and> role t = PJSIP_ROLE_UAS \<and> state t = PJSIP_TSX_STATE_NULL \<and> state_handler t = Some On_Null
     \<and> lock_refs (tsx_shutdown env t) = 0 \<and> tp_refs (tsx_shutdown env t) = (\<lambda>_. 0)"
proof -
  define t0 where "t0 = (grp_lock_add_ref ((tsx_zero a)\<lparr>tsx_user := user \<noteq> None,
                   user_on_tsx_state := (case user of Some u \<Rightarrow> has_on_tsx_state u | None \<Rightarrow> False),
                   user_on_rx_response := (case user of Some u \<Rightarrow> has_on_rx_response u | None \<Rightarrow> False),
                   handle_200resp := 1, htable := l_htable l, mod_id := l_mod_id l\<rparr>))
     \<lparr>role := PJSIP_ROLE_UAS, tsx_method := rx_method rdata, tsx_cseq := cseq_num rdata,
       transaction_key := key, hashed_key := fst (pj_hash_calc_tolower 0 key), tsx_branch := via_branch rdata,
       state := PJSIP_TSX_STATE_NULL, state_handler := Some On_Null, res_transport := ra_transport ra\<rparr>"
  define t where "t = (case ra_transport ra of
                          Some tp \<Rightarrow> (tsx_update_transport env (Some tp) t0)\<lparr>is_reliable := tp_is_reliable env tp\<rparr>
                        | None \<Rightarrow> t0\<lparr>is_reliable := ra_reliable ra\<rparr>)"
  have e: "pjsip_tsx_create_uas2 env user PJ_SUCCESS PJ_SUCCESS (Inr ra) rdata a l = register_or_shutdown env a t l"
    using assms by (simp add: pjsip_tsx_create_uas2_def tsx_create_def Let_def t_def t0_def cong: option.case_cong)
  have c: "core t = core t0" by (simp add: t_def split: option.split)
  have k: "self t = a" "transaction_key t = key" "hashed_key t = fst (pj_hash_calc_tolower 0 key)" "htable t = l_htable l"
    by (simp_all add: t_def t0_def tsx_zero_def grp_lock_add_ref_def tsx_update_transport_def tsx_tp_state_callback_def
        tsx_schedule_timer_def tsx_cancel_timer_def set_timer_def Let_def split: option.split)
  have r: "lock_refs (tsx_shutdown env t) = 0 \<and> tp_refs (tsx_shutdown env t) = (\<lambda>_. 0)"
    by (simp add: t_def t0_def tsx_zero_def grp_lock_add_ref_def grp_lock_dec_ref_def tsx_update_transport_def tsx_tp_state_callback_def
        tsx_schedule_timer_def tsx_cancel_timer_def set_timer_def get_timer_def tsx_shutdown_def pjsip_tpselector_dec_ref_def
        less_pjsip_tsx_state_e_def Let_def fun_eq_iff split: option.split)
  show ?thesis
    using e k r core_eq_simps [OF c] assms(7)
    by (intro exI [of _ t]) (simp add: keyed_def t0_def)
qed

lemma create_uac_registers:
  assumes "td_is_request (rq_tdata rq)" "method_id (rq_method rq) \<noteq> PJSIP_ACK_METHOD" "rq_has_cseq rq"
    and key: "key = create_tsx_key_3261 PJSIP_ROLE_UAC (rq_method rq) (request_branch unique (rq_branch rq))" "key_ok True key"
  shows "\<exists>t. pjsip_tsx_create_uac2 env user PJ_SUCCESS PJ_SUCCESS unique (Inr reliable) rq a l = register_or_shutdown env a t l
     \<and> keyed t (canon True key) a \<and> transaction_key t = key \<and> htable t = l_htable l
     \<and> role t = PJSIP_ROLE_UAC \<and> state t = PJSIP_TSX_STATE_NULL \<and> state_handler t = Some On_Null"
  using assms
  by (auto simp: pjsip_tsx_create_uac2_def tsx_create_def Let_def keyed_def grp_lock_add_ref_def tx_data_add_ref_def tsx_zero_def)

lemma null_tsx_ok: "state t = PJSIP_TSX_STATE_NULL \<Longrightarrow> state_handler t = Some On_Null \<Longrightarrow> tsx_ok t"
  by (simp add: tsx_ok_def tsx_state_handler_uac_def tsx_state_handler_uas_def)

text \<open>A message whose key is found and whose transaction is alive reaches that transaction only.\<close>

lemma dispatch_found:
  assumes "pjsip_tsx_create_key r (cseq_method rdata) rdata = Inr key" "lookup_tsx l key = Some a"
    and "tsx_load l a = Some t" "state t \<noteq> PJSIP_TSX_STATE_TERMINATED"
    and "call_state_handler env (Ev_Rx_Msg rdata) (grp_lock_add_ref t) = Some (t', status)"
  shows "rx_dispatch env r stale rdata l = Some (tsx_store a (grp_lock_dec_ref t') l, True)"
  using assms by (simp add: rx_dispatch_def pjsip_tsx_recv_msg_def)

section \<open>Shutdown and removal\<close>

lemma shutdown_effects:
  "\<not> tm_running (timeout_timer (tsx_shutdown env t))" "\<not> tm_running (retransmit_timer (tsx_shutdown env t))"
  "last_tx (tsx_shutdown env t) = None" "transport (tsx_shutdown env t) = None" "terminating (tsx_shutdown env t)"
  "lock_refs (tsx_shutdown env t) = lock_refs t - (if tm_running (timeout_timer t) then 1 else 0)
     - (if tm_running (retransmit_timer t) then 1 else 0) - (if terminating t then 0 else 1)"
  by (simp_all add: tsx_shutdown_def Let_def tsx_update_transport_def tsx_cancel_timer_def grp_lock_dec_ref_def set_timer_def
      get_timer_def pjsip_tpselector_dec_ref_def tx_data_dec_ref_def split: option.split pjsip_tpselector.split)

lemma shutdown_key [simp]:
  "self (tsx_shutdown env t) = self t" "transaction_key (tsx_shutdown env t) = transaction_key t"
  "hashed_key (tsx_shutdown env t) = hashed_key t" "mod_id (tsx_shutdown env t) = mod_id t"
  by (simp_all add: tsx_shutdown_def Let_def tsx_update_transport_def tsx_cancel_timer_def grp_lock_dec_ref_def set_timer_def
      pjsip_tpselector_dec_ref_def tx_data_dec_ref_def split: option.split pjsip_tpselector.split)

lemma unregister_spec:
  assumes "hash_inv True (htable t)" "keyed t ck a" "mod_id t \<noteq> - 1"
  shows "\<exists>ht. mod_tsx_layer_unregister_tsx t = t\<lparr>htable := ht\<rparr> \<and> hash_inv True ht \<and> hash_abs True ht = (hash_abs True (htable t))(ck := None)"
proof -
  have k: "key_ok True (transaction_key t)" "canon True (transaction_key t) = ck"
    "hashed_key t = fst (pj_hash_calc_tolower 0 (transaction_key t))"
    using assms(2) by (simp_all add: keyed_def)
  show ?thesis using hash_lower.assign_absmap [OF assms(1) k(1), of None] k(2,3) assms(3)
    by (auto simp: mod_tsx_layer_unregister_tsx_def)
qed

text \<open>A member of the table has the key and the address under which it is found.\<close>

lemma layer_member:
  assumes "layer_inv l" "tsx_load l a = Some t" "lookup_tsx l (transaction_key t) = Some a" "key_ok True (transaction_key t)"
  shows "keyed t (canon True (transaction_key t)) a" "htable t = l_htable l" "mod_id t = l_mod_id l"
proof -
  obtain t0 where t0: "l_txs l a = Some t0" "t = t0\<lparr>htable := l_htable l, mod_id := l_mod_id l\<rparr>"
    using assms(2) by (auto simp: tsx_load_def)
  have "hash_abs True (l_htable l) (canon True (transaction_key t)) = Some a"
    using layer_lookup [OF assms(1,4)] assms(3) by simp
  then have "keyed t0 (canon True (transaction_key t)) a"
    using assms(1) t0(1) unfolding layer_inv_def by (metis option.inject)
  then show "keyed t (canon True (transaction_key t)) a" "htable t = l_htable l" "mod_id t = l_mod_id l"
    using t0(2) by (simp_all add: keyed_def)
qed

lemma keyed_inj: "keyed t ck a \<Longrightarrow> keyed t ck' a' \<Longrightarrow> ck' = ck \<and> a' = a"
  by (simp add: keyed_def)

text \<open>Removing a member and keeping its record.\<close>

lemma layer_inv_removed:
  assumes "layer_inv l" "l_txs l a = Some t0" "hash_abs True (l_htable l) ck = Some a"
    and "hash_inv True (htable t)" "hash_abs True (htable t) = (hash_abs True (l_htable l))(ck := None)"
  shows "layer_inv (tsx_store a t l)"
proof -
  have "ck' = ck" if "hash_abs True (l_htable l) ck' = Some a" for ck'
    using assms(1-3) that keyed_inj unfolding layer_inv_def by (metis option.inject)
  then show ?thesis using assms(1,4,5) by (auto simp: layer_inv_def tsx_store_def split: if_splits)
qed

section \<open>Stopping the layer\<close>

lemma iter_rows_spec:
  assumes "length (ht_table ht) = Suc (unat (ht_rows ht))"
  shows "if it_entry (iter_rows ht i) = [] then \<forall>r. i \<le> r \<and> r < length (ht_table ht) \<longrightarrow> ht_table ht ! r = []
    else i \<le> it_index (iter_rows ht i) \<and> it_index (iter_rows ht i) < length (ht_table ht)
      \<and> it_entry (iter_rows ht i) = ht_table ht ! it_index (iter_rows ht i)
      \<and> (\<forall>r. i \<le> r \<and> r < it_index (iter_rows ht i) \<longrightarrow> ht_table ht ! r = [])"
  using assms
proof (induction ht i rule: iter_rows.induct)
  case (1 ht i)
  show ?case
  proof (cases "i \<le> unat (ht_rows ht) \<and> ht_table ht ! i = []")
    case True
    then have e: "iter_rows ht i = iter_rows ht (Suc i)" by (simp add: iter_rows.simps [of ht i])
    have "i \<le> r \<longleftrightarrow> r = i \<or> Suc i \<le> r" for r by auto
    then show ?thesis using 1 True unfolding e by (auto split: if_splits)
  next
    case False
    then show ?thesis using 1(2) by (auto simp: iter_rows.simps [of ht i])
  qed
qed

lemma stopping_rows:
  assumes "length (ht_table ht) = Suc (unat (ht_rows ht))" "\<forall>r < i. ht_table ht ! r = []"
  shows "stopping ht (let it = iter_rows ht i in if it_entry it \<noteq> [] then Some it else None)"
proof -
  have "concat (ht_table ht) = [] \<longleftrightarrow> (\<forall>r < length (ht_table ht). ht_table ht ! r = [])"
    by (simp add: all_set_conv_all_nth)
  moreover have "r < i \<or> i \<le> r" for r :: nat by auto
  ultimately show ?thesis using iter_rows_spec [OF assms(1), of i] assms(2)
    by (auto simp: stopping_def Let_def split: if_splits)
qed

lemma remove_head:
  assumes inv: "hash_inv True ht" and row: "row < length (ht_table ht)" "ht_table ht ! row = e # es"
    and k: "key_ok True k" "canon True k = canon True (he_key e)"
  shows "pj_hash_set_lower False ht k (of_nat (length k)) (fst (pj_hash_calc_tolower 0 k)) None
    = Some (ht\<lparr>ht_table := (ht_table ht)[row := es], ht_count := ht_count ht - 1\<rparr>)"
proof -
  have kr: "key_row ht (canon True k) = row"
    by (rule chain_ok_key_row [OF inv row(1)]) (simp add: row(2) k(2))
  have ok: "chain_ok True (ht_rows ht) row (e # es)" using inv row by (auto simp: hash_inv_def)
  define pos where "pos = scan_chain (entry_matches True (key_hash True k) k) (e # es)"
  have pos: "pos = 0"
  proof (cases rule: chain_scan_cases [OF ok k(1) pos_def])
    case (1 as e' bs)
    then show ?thesis by (cases as) (auto simp: k(2))
  next
    case 2
    then show ?thesis using k(2) by simp
  qed
  have ko: "key_octets k (of_nat (length k)) = k" using key_octets_exact [OF k(1)] .
  have fe: "find_entry False ht k (of_nat (length k)) None (fst (pj_hash_calc_tolower 0 k)) False True
      = (ht, Some (row, 0), key_hash True k)"
    using pos row kr ko
    by (subst find_entry_eq) (simp_all add: Let_def pos_def)
  show ?thesis by (simp add: pj_hash_set_lower_def hash_set_def fe row)
qed

lemma terminate_quiet:
  assumes "\<And>prev src t. on_tsx_state env prev src t = t"
  shows "self (fst (pjsip_tsx_terminate env c t)) = self t"
    "transaction_key (fst (pjsip_tsx_terminate env c t)) = transaction_key t"
    "hashed_key (fst (pjsip_tsx_terminate env c t)) = hashed_key t"
    "htable (fst (pjsip_tsx_terminate env c t)) = htable t" "mod_id (fst (pjsip_tsx_terminate env c t)) = mod_id t"
    "c \<ge> 200 \<Longrightarrow> PJSIP_TSX_STATE_TERMINATED \<le> state (fst (pjsip_tsx_terminate env c t))"
  using assms by (auto simp: pjsip_tsx_terminate_def tsx_set_state_def set_state_notify_def notify_tu_def set_state_terminated_def
      tsx_schedule_timer_def tsx_cancel_timer_def set_timer_def grp_lock_add_ref_def grp_lock_dec_ref_def detach_tx_def
      tsx_set_status_code_def Let_def split: option.split)

text \<open>Stopping the transaction at the head of its row.\<close>

lemma stop_tsx_spec:
  assumes q: "\<And>prev src t. on_tsx_state env prev src t = t" and inv: "hash_inv True (htable t)" and "mod_id t \<noteq> - 1"
    and row: "row < length (ht_table (htable t))" "ht_table (htable t) ! row = e # es"
    and k: "keyed t (canon True (he_key e)) a"
  shows "stopped (stop_tsx env t)" "htable (stop_tsx env t) = (htable t)\<lparr>ht_table := (ht_table (htable t))[row := es], ht_count := ht_count (htable t) - 1\<rparr>"
proof -
  let ?t1 = "fst (pjsip_tsx_terminate env PJSIP_SC_SERVICE_UNAVAILABLE t)"
  note same = terminate_quiet [OF q, where c = PJSIP_SC_SERVICE_UNAVAILABLE and t = t]
  have kk: "key_ok True (transaction_key t)" "canon True (transaction_key t) = canon True (he_key e)"
    "hashed_key t = fst (pj_hash_calc_tolower 0 (transaction_key t))"
    using k by (simp_all add: keyed_def)
  have u: "mod_tsx_layer_unregister_tsx ?t1 = ?t1\<lparr>htable := (htable t)\<lparr>ht_table := (ht_table (htable t))[row := es], ht_count := ht_count (htable t) - 1\<rparr>\<rparr>"
    using remove_head [OF inv row kk(1,2)] kk(3) same assms(3) by (simp add: mod_tsx_layer_unregister_tsx_def)
  show "htable (stop_tsx env t) = (htable t)\<lparr>ht_table := (ht_table (htable t))[row := es], ht_count := ht_count (htable t) - 1\<rparr>"
    by (simp add: stop_tsx_def u)
  show "stopped (stop_tsx env t)"
    using shutdown_effects [of env "mod_tsx_layer_unregister_tsx ?t1"] same(6)
    by (simp add: stopped_def stop_tsx_def PJSIP_SC_SERVICE_UNAVAILABLE_def)
qed

lemma layer_at:
  assumes "layer_inv l" "row < length (ht_table (l_htable l))" "ht_table (l_htable l) ! row = e # es"
  shows "hash_abs True (l_htable l) (canon True (he_key e)) = Some (he_value e)"
proof -
  have inv: "hash_inv True (l_htable l)" using assms(1) by (simp add: layer_inv_def)
  have "key_row (l_htable l) (canon True (he_key e)) = row"
    by (rule chain_ok_key_row [OF inv assms(2)]) (simp add: assms(3))
  then show ?thesis by (simp add: hash_abs_def assms(3))
qed

lemma iter_rows_update:
  "row < i \<Longrightarrow> iter_rows (ht\<lparr>ht_table := (ht_table ht)[row := es], ht_count := c\<rparr>) i = iter_rows ht i"
proof (induction ht i rule: iter_rows.induct)
  case (1 ht i)
  then show ?case by (subst (1 2) iter_rows.simps) simp
qed

text \<open>Taking the current entry out of its row and moving on.\<close>

lemma stopping_next:
  assumes len: "length (ht_table ht) = Suc (unat (ht_rows ht))" and stp: "stopping ht (Some it)" and es: "it_entry it = e # es"
  shows "stopping (ht\<lparr>ht_table := (ht_table ht)[it_index it := es], ht_count := c\<rparr>) (pj_hash_next ht it)"
proof -
  let ?row = "it_index it"
  define ht' where "ht' = ht\<lparr>ht_table := (ht_table ht)[?row := es], ht_count := c\<rparr>"
  have it: "?row < length (ht_table ht)" "\<forall>r < ?row. ht_table ht ! r = []"
    using stp by (simp_all add: stopping_def)
  have rows: "iter_rows ht' i = iter_rows ht i" if "?row < i" for i
    unfolding ht'_def by (rule iter_rows_update [OF that])
  have "stopping ht' (pj_hash_next ht it)"
  proof (cases "es = []")
    case False
    then show ?thesis using it es by (simp add: pj_hash_next_def stopping_def ht'_def nth_list_update)
  next
    case True
    have "\<forall>r < Suc ?row. ht_table ht' ! r = []" using True it by (simp add: ht'_def nth_list_update less_Suc_eq)
    moreover have "length (ht_table ht') = Suc (unat (ht_rows ht'))" using len by (simp add: ht'_def)
    moreover have "pj_hash_next ht it = (let it = iter_rows ht' (Suc ?row) in if it_entry it \<noteq> [] then Some it else None)"
      using True es rows [of "Suc ?row"] by (simp add: pj_hash_next_def)
    ultimately show ?thesis using stopping_rows by simp
  qed
  then show ?thesis by (simp add: ht'_def)
qed

text \<open>One turn of the loop.\<close>

lemma stop_step:
  assumes q: "\<And>prev src t. on_tsx_state env prev src t = t" and l: "layer_inv l" "l_mod_id l \<noteq> - 1"
    and stp: "stopping (l_htable l) (Some it)" and l1: "l1 = with_tsx (pj_hash_this it) (stop_tsx env) l"
  obtains a ck t where "hash_abs True (l_htable l) ck = Some a" "hash_abs True (l_htable l1) = (hash_abs True (l_htable l))(ck := None)"
    "\<And>ck'. hash_abs True (l_htable l) ck' = Some a \<Longrightarrow> ck' = ck" "layer_inv l1" "l_mod_id l1 \<noteq> - 1"
    "l_txs l1 = (l_txs l)(a \<mapsto> t)" "stopped t" "stopping (l_htable l1) (pj_hash_next (l_htable l) it)"
    "length (concat (ht_table (l_htable l1))) < length (concat (ht_table (l_htable l)))"
proof -
  let ?ht = "l_htable l" and ?row = "it_index it"
  have inv: "hash_inv True ?ht" using l(1) by (simp add: layer_inv_def)
  obtain e es where es: "it_entry it = e # es" using stp by (cases "it_entry it") (auto simp: stopping_def)
  have it: "?row < length (ht_table ?ht)" "ht_table ?ht ! ?row = e # es" using stp es by (auto simp: stopping_def)
  let ?a = "he_value e" and ?ck = "canon True (he_key e)"
  have old: "hash_abs True ?ht ?ck = Some ?a" by (rule layer_at [OF l(1) it])
  obtain t0 where t0: "l_txs l ?a = Some t0" "keyed t0 ?ck ?a" using l(1) old unfolding layer_inv_def by blast
  define t where "t = t0\<lparr>htable := ?ht, mod_id := l_mod_id l\<rparr>"
  have t: "tsx_load l ?a = Some t" "keyed t ?ck ?a" "htable t = ?ht" "mod_id t \<noteq> - 1"
    using t0 l(2) by (simp_all add: tsx_load_def t_def keyed_def)
  define ht' where "ht' = ?ht\<lparr>ht_table := (ht_table ?ht)[?row := es], ht_count := ht_count ?ht - 1\<rparr>"
  have st: "stopped (stop_tsx env t)" "htable (stop_tsx env t) = ht'"
    using stop_tsx_spec [OF q, of t ?row e es ?a] inv t it by (simp_all add: ht'_def)
  have e: "l1 = tsx_store ?a (stop_tsx env t) l" using t(1) es by (simp add: l1 with_tsx_def pj_hash_this_def)
  have kk: "key_ok True (transaction_key t)" "canon True (transaction_key t) = ?ck" using t(2) by (simp_all add: keyed_def)
  have abs': "hash_inv True ht'" "hash_abs True ht' = (hash_abs True ?ht)(?ck := None)"
    using hash_lower.assign_absmap [OF inv kk(1), of None] remove_head [OF inv it kk] kk(2) by (auto simp: ht'_def)
  have uniq: "ck' = ?ck" if "hash_abs True ?ht ck' = Some ?a" for ck'
    using l(1) that t0 keyed_inj unfolding layer_inv_def by (metis option.inject)
  have inv1: "layer_inv l1"
    unfolding e using layer_inv_removed [OF l(1) t0(1) old, of "stop_tsx env t"] st(2) abs' by simp
  have ht1: "l_htable l1 = ht'" "l_mod_id l1 \<noteq> - 1" "l_txs l1 = (l_txs l)(?a \<mapsto> stop_tsx env t)"
    using st(2) l(2) by (simp_all add: e tsx_store_def)
  have nxt: "stopping (l_htable l1) (pj_hash_next ?ht it)"
    unfolding ht1 ht'_def using stopping_next [OF _ stp es] inv by (simp add: hash_inv_def)
  have "length (concat (ht_table (l_htable l1))) < length (concat (ht_table ?ht))"
    using length_concat_update [OF it(1), of es] it(2) by (simp add: ht1 ht'_def)
  from that [OF old _ uniq inv1 ht1(2,3) st(1) nxt this] show ?thesis using abs'(2) by (simp add: ht1)
qed

lemma layer_empty:
  assumes "layer_inv l" "concat (ht_table (l_htable l)) = []"
  shows "hash_abs True (l_htable l) ck = None"
proof -
  have inv: "hash_inv True (l_htable l)" using assms(1) by (simp add: layer_inv_def)
  have "card (dom (hash_abs True (l_htable l))) = 0" unfolding hash_abs_card [OF inv] assms(2) by simp
  then have "dom (hash_abs True (l_htable l)) = {}" using hash_finite [OF inv] by (metis card_0_eq)
  then show ?thesis by auto
qed

lemma stop_loop_spec:
  assumes q: "\<And>prev src t. on_tsx_state env prev src t = t"
  shows "layer_inv l \<Longrightarrow> l_mod_id l \<noteq> - 1 \<Longrightarrow> stopping (l_htable l) it_opt \<Longrightarrow>
    \<exists>l'. stop_loop env it_opt l = Some l' \<and> layer_inv l' \<and> concat (ht_table (l_htable l')) = []
      \<and> (\<forall>a. (\<exists>ck. hash_abs True (l_htable l) ck = Some a) \<longrightarrow> (\<exists>t. l_txs l' a = Some t \<and> stopped t))
      \<and> (\<forall>a. (\<forall>ck. hash_abs True (l_htable l) ck \<noteq> Some a) \<longrightarrow> l_txs l' a = l_txs l a)"
proof (induction "length (concat (ht_table (l_htable l)))" arbitrary: l it_opt rule: less_induct)
  case less
  show ?case
  proof (cases it_opt)
    case None
    then have "concat (ht_table (l_htable l)) = []" using less.prems(3) by (simp add: stopping_def)
    then show ?thesis using None less.prems(1) layer_empty [OF less.prems(1)] by (simp add: stop_loop.simps)
  next
    case (Some it)
    define l1 where "l1 = with_tsx (pj_hash_this it) (stop_tsx env) l"
    obtain a ck t where s: "hash_abs True (l_htable l) ck = Some a"
      "hash_abs True (l_htable l1) = (hash_abs True (l_htable l))(ck := None)"
      "\<And>ck'. hash_abs True (l_htable l) ck' = Some a \<Longrightarrow> ck' = ck" "layer_inv l1" "l_mod_id l1 \<noteq> - 1"
      "l_txs l1 = (l_txs l)(a \<mapsto> t)" "stopped t" "stopping (l_htable l1) (pj_hash_next (l_htable l) it)"
      "length (concat (ht_table (l_htable l1))) < length (concat (ht_table (l_htable l)))"
      using stop_step [OF q less.prems(1,2) less.prems(3) [unfolded Some] l1_def] by metis
    obtain l' where l': "stop_loop env (pj_hash_next (l_htable l) it) l1 = Some l'" "layer_inv l'" "concat (ht_table (l_htable l')) = []"
      "\<forall>a. (\<exists>ck. hash_abs True (l_htable l1) ck = Some a) \<longrightarrow> (\<exists>t. l_txs l' a = Some t \<and> stopped t)"
      "\<forall>a. (\<forall>ck. hash_abs True (l_htable l1) ck \<noteq> Some a) \<longrightarrow> l_txs l' a = l_txs l1 a"
      using less.hyps [OF s(9,4,5,8)] by auto
    have "\<forall>ck'. hash_abs True (l_htable l1) ck' \<noteq> Some a" using s(2,3) by auto
    then have a: "l_txs l' a = Some t" using l'(5) s(6) by simp
    have "stop_loop env it_opt l = Some l'" using l'(1) Some by (simp add: stop_loop.simps [of env "Some it"] l1_def)
    moreover have "\<exists>t. l_txs l' b = Some t \<and> stopped t" if b: "hash_abs True (l_htable l) ck' = Some b" for b ck'
    proof (cases "ck' = ck")
      case True
      then show ?thesis using a s(1,7) b by simp
    next
      case False
      then show ?thesis using l'(4) s(2) b by (metis fun_upd_other)
    qed
    moreover have "l_txs l' b = l_txs l b" if b: "\<forall>ck. hash_abs True (l_htable l) ck \<noteq> Some b" for b
      using b l'(5) s(1,2,6) by (metis fun_upd_other fun_upd_same option.distinct(1))
    ultimately show ?thesis using l'(2,3) by blast
  qed
qed

section \<open>A concrete layer\<close>

definition demo_layer :: tsx_layer where
  "demo_layer = \<lparr>l_htable = empty16, l_mod_id = 0, l_txs = (\<lambda>_. None)\<rparr>"

lemma demo_layer_inv: "layer_inv demo_layer"
  using hash_inv_create [OF empty16_create] by (simp add: layer_inv_def demo_layer_def)

definition demo_key :: bytes where
  "demo_key = create_tsx_key_3261 PJSIP_ROLE_UAS (rx_method demo_rdata) (via_branch demo_rdata)"

lemma demo_key_facts:
  "pjsip_tsx_create_key PJSIP_ROLE_UAS (rx_method demo_rdata) demo_rdata = Inr demo_key" "key_ok True demo_key"
  by (simp_all add: pjsip_tsx_create_key_def demo_key_def demo_rdata_def pj_strnicmp_eq_def PJSIP_RFC3261_BRANCH_ID_def
      PJSIP_RFC3261_BRANCH_LEN_def key_ok_def create_tsx_key_3261_def role_char_def SEPARATOR_def key_method_def)

definition demo_out :: out_request where
  "demo_out = \<lparr>rq_tdata = demo_request, rq_method = rx_method demo_rdata, rq_has_cseq = True, rq_cseq = 1, rq_branch = []\<rparr>"

definition demo_table :: "nat hash_table" where
  "demo_table = the (pj_hash_set_lower True empty16 demo_key (of_nat (length demo_key))
     (fst (pj_hash_calc_tolower 0 demo_key)) (Some 7))"

definition demo_member :: "pjsip_tsx_state_e \<Rightarrow> tsx" where
  "demo_member st = (demo_tsx PJSIP_ROLE_UAS st)\<lparr>transaction_key := demo_key,
     hashed_key := fst (pj_hash_calc_tolower 0 demo_key), htable := demo_table,
     timeout_timer := \<lparr>tm_id = TIMEOUT_TIMER, tm_running = True, tm_delay = Time_Val 0 0\<rparr>\<rparr>"

definition demo_layer1 :: "pjsip_tsx_state_e \<Rightarrow> tsx_layer" where
  "demo_layer1 st = \<lparr>l_htable = demo_table, l_mod_id = 0, l_txs = (\<lambda>_. None)(7 \<mapsto> demo_member st)\<rparr>"

lemma demo_table_facts: "hash_inv True demo_table" "hash_abs True demo_table = [canon True demo_key \<mapsto> 7]"
proof -
  have "hash_inv True empty16" "hash_abs True empty16 = Map.empty"
    using hash_inv_create [OF empty16_create, of True] by simp_all
  moreover from this obtain ht where "pj_hash_set_lower True empty16 demo_key (of_nat (length demo_key))
     (fst (pj_hash_calc_tolower 0 demo_key)) (Some 7) = Some ht" "hash_inv True ht"
     "hash_abs True ht = (hash_abs True empty16)(canon True demo_key \<mapsto> 7)"
    using hash_lower.assign_absmap [OF _ demo_key_facts(2), of empty16 "Some 7"] by auto
  ultimately show "hash_inv True demo_table" "hash_abs True demo_table = [canon True demo_key \<mapsto> 7]"
    by (simp_all add: demo_table_def)
qed

lemma demo_layer1_facts:
  "layer_inv (demo_layer1 st)" "tsx_load (demo_layer1 st) 7 = Some (demo_member st)" "lookup_tsx (demo_layer1 st) demo_key = Some 7"
proof -
  show i: "layer_inv (demo_layer1 st)"
    using demo_table_facts demo_key_facts(2)
    by (auto simp: layer_inv_def demo_layer1_def keyed_def demo_member_def demo_tsx_def split: if_splits)
  show "tsx_load (demo_layer1 st) 7 = Some (demo_member st)"
    by (simp add: tsx_load_def demo_layer1_def demo_member_def demo_tsx_def)
  show "lookup_tsx (demo_layer1 st) demo_key = Some 7"
    using layer_lookup [OF i demo_key_facts(2)] demo_table_facts(2) by (simp add: demo_layer1_def)
qed

section \<open>Properties\<close>

text \<open>
  C4: creating a server transaction. If no transaction has the key of the request, the new one is
  registered in state Null: it is found under its key up to case, every other key still finds what
  it found before, and the count grows by one. If there is one already, creation fails with
  \<^verbatim>\<open>PJ_EEXISTS\<close>, the table is unchanged and the failed transaction holds no reference.
\<close>

theorem tsx_create_uas_registers:
  assumes "layer_inv l" "l_txs l a = None"
    and "rx_is_request rdata" "method_id (rx_method rdata) \<noteq> PJSIP_ACK_METHOD" "has_cseq rdata" "has_via rdata"
    and "pjsip_method_eq (rx_method rdata) (cseq_method rdata)"
    and "pjsip_tsx_create_key PJSIP_ROLE_UAS (rx_method rdata) rdata = Inr key" "key_ok True key"
    and "pjsip_tsx_create_uas2 env user PJ_SUCCESS PJ_SUCCESS (Inr ra) rdata a l = (l', status)"
  shows "layer_inv l' \<and>
    (if snd (pjsip_tsx_layer_find_tsx key l) = None
     then status = PJ_SUCCESS
       \<and> (\<forall>k. key_ok True k \<longrightarrow> snd (pjsip_tsx_layer_find_tsx k l')
             = (if map pj_tolower k = map pj_tolower key then Some a else snd (pjsip_tsx_layer_find_tsx k l)))
       \<and> pjsip_tsx_layer_get_tsx_count l' = pjsip_tsx_layer_get_tsx_count l + 1
       \<and> (\<exists>t. l_txs l' a = Some t \<and> role t = PJSIP_ROLE_UAS \<and> state t = PJSIP_TSX_STATE_NULL \<and> tsx_ok t)
     else status = PJ_EEXISTS \<and> l_htable l' = l_htable l
       \<and> (\<exists>t. l_txs l' a = Some t \<and> lock_refs t = 0 \<and> tp_refs t = (\<lambda>_. 0)))"
proof -
  obtain t where t: "pjsip_tsx_create_uas2 env user PJ_SUCCESS PJ_SUCCESS (Inr ra) rdata a l = register_or_shutdown env a t l"
    "keyed t (canon True key) a" "transaction_key t = key" "htable t = l_htable l"
    "role t = PJSIP_ROLE_UAS" "state t = PJSIP_TSX_STATE_NULL" "state_handler t = Some On_Null"
    "lock_refs (tsx_shutdown env t) = 0" "tp_refs (tsx_shutdown env t) = (\<lambda>_. 0)"
    using create_uas_registers [OF assms(3-9)] by metis
  note reg = register_or_shutdown_spec [OF assms(1) t(4,2) assms(2) assms(10) [unfolded t(1)], unfolded t(3)]
  show ?thesis
  proof (cases "lookup_tsx l key = None")
    case True
    then have s: "status = PJ_SUCCESS" "hash_abs True (l_htable l') = (hash_abs True (l_htable l))(canon True key \<mapsto> a)"
      "\<exists>ht. l_txs l' a = Some (t\<lparr>htable := ht\<rparr>)" using reg(3) by auto
    obtain ht where "l_txs l' a = Some (t\<lparr>htable := ht\<rparr>)" using s(3) by blast
    moreover have "tsx_ok (t\<lparr>htable := ht\<rparr>)" using null_tsx_ok t(6,7) by simp
    ultimately show ?thesis
      using True reg(1) s(1) lookup_after_register [OF assms(1) reg(1) assms(9) True s(2)] t(5,6)
      by (simp add: pjsip_tsx_layer_find_tsx_def find_tsx_lookup)
  next
    case False
    then show ?thesis using reg(1,3) t(8,9) by (auto simp: pjsip_tsx_layer_find_tsx_def find_tsx_lookup)
  qed
qed

theorem tsx_create_uas_registers_witness:
  "case pjsip_tsx_create_uas2 demo_env None PJ_SUCCESS PJ_SUCCESS (Inr \<lparr>ra_transport = Some 3, ra_reliable = False\<rparr>) demo_rdata 7 demo_layer of
     (l', status) \<Rightarrow> status = PJ_SUCCESS \<and> snd (pjsip_tsx_layer_find_tsx demo_key l') = Some 7"
proof -
  obtain l' status where e: "pjsip_tsx_create_uas2 demo_env None PJ_SUCCESS PJ_SUCCESS
      (Inr \<lparr>ra_transport = Some 3, ra_reliable = False\<rparr>) demo_rdata 7 demo_layer = (l', status)" by fastforce
  have "snd (pjsip_tsx_layer_find_tsx demo_key demo_layer) = None"
    using layer_lookup [OF demo_layer_inv demo_key_facts(2)] hash_inv_create [OF empty16_create]
    by (simp add: pjsip_tsx_layer_find_tsx_def find_tsx_lookup) (simp add: demo_layer_def)
  then show ?thesis
    using tsx_create_uas_registers [OF demo_layer_inv _ _ _ _ _ _ demo_key_facts e] e demo_key_facts(2)
    by (simp add: demo_layer_def demo_rdata_def pjsip_method_eq_def)
qed

text \<open>
  Responses find their request. After a client transaction was created, every response that
  carries the branch and the method of the request is given to it.
\<close>

theorem tsx_uac_gets_response:
  assumes "layer_inv l" "l_txs l a = None"
    and "td_is_request (rq_tdata rq)" "method_id (rq_method rq) \<noteq> PJSIP_ACK_METHOD" "rq_has_cseq rq"
    and "key_ok True (create_tsx_key_3261 PJSIP_ROLE_UAC (rq_method rq) (request_branch unique (rq_branch rq)))"
    and "pjsip_tsx_create_uac2 env user PJ_SUCCESS PJ_SUCCESS unique (Inr reliable) rq a l = (l', PJ_SUCCESS)"
    and "pj_strnicmp_eq (via_branch rdata) PJSIP_RFC3261_BRANCH_ID PJSIP_RFC3261_BRANCH_LEN"
    and "via_branch rdata = request_branch unique (rq_branch rq)" "cseq_method rdata = rq_method rq"
  shows "\<exists>l'' t. mod_tsx_layer_on_rx_response env stale rdata l' = Some (l'', True)
     \<and> (\<forall>b. b \<noteq> a \<longrightarrow> l_txs l'' b = l_txs l b) \<and> l_txs l'' a = Some t \<and> role t = PJSIP_ROLE_UAC"
proof -
  let ?key = "create_tsx_key_3261 PJSIP_ROLE_UAC (rq_method rq) (request_branch unique (rq_branch rq))"
  obtain t where t: "pjsip_tsx_create_uac2 env user PJ_SUCCESS PJ_SUCCESS unique (Inr reliable) rq a l = register_or_shutdown env a t l"
    "keyed t (canon True ?key) a" "transaction_key t = ?key" "htable t = l_htable l"
    "role t = PJSIP_ROLE_UAC" "state t = PJSIP_TSX_STATE_NULL" "state_handler t = Some On_Null"
    using create_uac_registers [OF assms(3-5) refl assms(6)] by metis
  note reg = register_or_shutdown_spec [OF assms(1) t(4,2) assms(2) assms(7) [unfolded t(1)], unfolded t(3)]
  then have s: "hash_abs True (l_htable l') = (hash_abs True (l_htable l))(canon True ?key \<mapsto> a)"
    "\<exists>ht. l_txs l' a = Some (t\<lparr>htable := ht\<rparr>)" by (auto split: if_splits)
  obtain ht where ht: "l_txs l' a = Some (t\<lparr>htable := ht\<rparr>)" using s(2) by blast
  define t1 where "t1 = t\<lparr>htable := l_htable l', mod_id := l_mod_id l'\<rparr>"
  have ld: "tsx_load l' a = Some t1" using ht by (simp add: tsx_load_def t1_def)
  have lk: "lookup_tsx l' ?key = Some a" using layer_lookup [OF reg(1) assms(6)] s(1) by simp
  have ck: "pjsip_tsx_create_key PJSIP_ROLE_UAC (cseq_method rdata) rdata = Inr ?key"
    using assms(8-10) by (simp add: pjsip_tsx_create_key_def)
  have "call_state_handler env (Ev_Rx_Msg rdata) (grp_lock_add_ref t1) = Some (grp_lock_add_ref t1, PJ_EBUG)"
    using t(5,7) by (simp add: call_state_handler_def tsx_on_state_null_def grp_lock_add_ref_def t1_def)
  from dispatch_found [OF ck lk ld _ this] have
    "mod_tsx_layer_on_rx_response env stale rdata l' = Some (tsx_store a (grp_lock_dec_ref (grp_lock_add_ref t1)) l', True)"
    using t(6) by (simp add: mod_tsx_layer_on_rx_response_def t1_def)
  then show ?thesis using reg(2) t(5)
    by (simp add: tsx_store_def grp_lock_add_ref_def grp_lock_dec_ref_def t1_def)
qed

theorem tsx_uac_gets_response_witness:
  "\<exists>l' l''. pjsip_tsx_create_uac2 demo_env None PJ_SUCCESS PJ_SUCCESS [49] (Inr False) demo_out 7 demo_layer = (l', PJ_SUCCESS)
     \<and> mod_tsx_layer_on_rx_response demo_env [] ((demo_response 180)\<lparr>via_branch := request_branch [49] []\<rparr>) l' = Some (l'', True)"
proof -
  let ?key = "create_tsx_key_3261 PJSIP_ROLE_UAC (rq_method demo_out) (request_branch [49] (rq_branch demo_out))"
  have key: "key_ok True ?key"
    by (simp add: key_ok_def create_tsx_key_3261_def role_char_def SEPARATOR_def key_method_def demo_out_def demo_rdata_def
        request_branch_def PJSIP_RFC3261_BRANCH_ID_def)
  have ok: "td_is_request (rq_tdata demo_out)" "method_id (rq_method demo_out) \<noteq> PJSIP_ACK_METHOD" "rq_has_cseq demo_out"
    by (simp_all add: demo_out_def demo_request_def demo_rdata_def)
  have fresh: "l_txs demo_layer 7 = None" by (simp add: demo_layer_def)
  obtain l' status where e: "pjsip_tsx_create_uac2 demo_env None PJ_SUCCESS PJ_SUCCESS [49] (Inr False) demo_out 7 demo_layer = (l', status)"
    by fastforce
  have none: "lookup_tsx demo_layer ?key = None"
    using layer_lookup [OF demo_layer_inv key] hash_inv_create [OF empty16_create] by (simp add: demo_layer_def)
  obtain t where t: "pjsip_tsx_create_uac2 demo_env None PJ_SUCCESS PJ_SUCCESS [49] (Inr False) demo_out 7 demo_layer
      = register_or_shutdown demo_env 7 t demo_layer" "keyed t (canon True ?key) 7" "transaction_key t = ?key" "htable t = l_htable demo_layer"
    using create_uac_registers [OF ok refl key] by metis
  have s: "status = PJ_SUCCESS"
    using register_or_shutdown_spec(3) [OF demo_layer_inv t(4,2) fresh e [unfolded t(1)]] none t(3) by simp
  have br: "pj_strnicmp_eq (request_branch [49] []) PJSIP_RFC3261_BRANCH_ID PJSIP_RFC3261_BRANCH_LEN"
    by (simp add: pj_strnicmp_eq_def request_branch_def PJSIP_RFC3261_BRANCH_ID_def PJSIP_RFC3261_BRANCH_LEN_def)
  from tsx_uac_gets_response [OF demo_layer_inv fresh ok key e [unfolded s],
      of "(demo_response 180)\<lparr>via_branch := request_branch [49] []\<rparr>" "[]"]
  show ?thesis using e s br by (auto simp: demo_response_def demo_rdata_def demo_out_def)
qed

text \<open>
  C5: an ACK completes its INVITE. The ACK for a failure response carries the branch of the INVITE,
  in any case of letters, and finds the server transaction of the INVITE although its method
  differs; the transaction goes to Confirmed with timer I running, and no other is touched.
\<close>

theorem tsx_ack_confirms_invite:
  assumes "layer_inv l" "tsx_load l a = Some t" "lookup_tsx l (create_tsx_key_3261 PJSIP_ROLE_UAS m branch) = Some a"
    and "method_id m = PJSIP_INVITE_METHOD" "key_ok True (create_tsx_key_3261 PJSIP_ROLE_UAS m branch)"
    and "tsx_ok t" "role t = PJSIP_ROLE_UAS" "state t = PJSIP_TSX_STATE_COMPLETED" "is_invite t" "can_send t" "env_delivers env"
    and "rx_is_request rdata" "method_id (rx_method rdata) = PJSIP_ACK_METHOD" "method_id (cseq_method rdata) = PJSIP_ACK_METHOD"
    and "pj_strnicmp_eq (via_branch rdata) PJSIP_RFC3261_BRANCH_ID PJSIP_RFC3261_BRANCH_LEN"
    and "map pj_tolower (via_branch rdata) = map pj_tolower branch"
    and "key_ok True (create_tsx_key_3261 PJSIP_ROLE_UAS (cseq_method rdata) (via_branch rdata))"
  shows "\<exists>l' t'. mod_tsx_layer_on_rx_request env stale rdata l = Some (l', True) \<and> l_txs l' a = Some t'
     \<and> state t' = PJSIP_TSX_STATE_CONFIRMED
     \<and> timeout_timer t' = ending (if is_reliable t then Time_Val 0 0 else t4_timer_val env)
     \<and> (\<forall>b. b \<noteq> a \<longrightarrow> l_txs l' b = l_txs l b)"
proof -
  let ?key = "create_tsx_key_3261 PJSIP_ROLE_UAS (cseq_method rdata) (via_branch rdata)"
  let ?t = "grp_lock_add_ref t"
  have ck: "pjsip_tsx_create_key PJSIP_ROLE_UAS (cseq_method rdata) rdata = Inr ?key"
    using assms(15) by (simp add: pjsip_tsx_create_key_def)
  have "canon True ?key = canon True (create_tsx_key_3261 PJSIP_ROLE_UAS m branch)"
    using assms(4,14,16) by (simp add: canon_tolower create_tsx_key_3261_def key_method_def)
  then have lk: "lookup_tsx l ?key = Some a" using lookup_canon [OF assms(1,17,5)] assms(3) by simp
  have c: "core ?t = core t" "gear ?t = gear t" by simp_all
  have ok: "tsx_ok ?t" "can_send ?t" using assms(6,10) tsx_ok_core [OF c(1)] gear_simps(2) [OF c(2)] by simp_all
  obtain t2 status where h: "call_state_handler env (Ev_Rx_Msg rdata) ?t = Some (t2, status)"
    using handler_adv [OF env_calm_ok [OF delivers_calm [OF assms(11)]] ok(1)] by blast
  have f: "follows env (Ev_Rx_Msg rdata) ?t t2" by (rule handler_follows [OF assms(11) ok(2,1) h])
  have nxt: "rfc_next ?t (Ev_Rx_Msg rdata) = PJSIP_TSX_STATE_CONFIRMED"
    using core_eq_simps [OF c(1)] assms(7-9,12,13) by (simp add: rfc_server_simps)
  have dl: "rfc_end_delay env ?t PJSIP_TSX_STATE_CONFIRMED = (if is_reliable t then Time_Val 0 0 else t4_timer_val env)"
    using gear_simps(1) [OF c(2)] by (simp add: rfc_end_delay_def)
  have s: "state t2 = PJSIP_TSX_STATE_CONFIRMED"
    "timeout_timer t2 = ending (if is_reliable t then Time_Val 0 0 else t4_timer_val env)"
    using f nxt dl core_eq_simps(1) [OF c(1)] assms(8) by (simp_all add: follows_def less_eq_pjsip_tsx_state_e_def)
  have "mod_tsx_layer_on_rx_request env stale rdata l = Some (tsx_store a (grp_lock_dec_ref t2) l, True)"
    using dispatch_found [OF ck lk assms(2) _ h] assms(8) by (simp add: mod_tsx_layer_on_rx_request_def)
  then show ?thesis using s by (simp add: tsx_store_def)
qed

theorem tsx_ack_confirms_invite_witness:
  "\<exists>l' t'. mod_tsx_layer_on_rx_request demo_env []
       (demo_rdata\<lparr>rx_method := \<lparr>method_id = PJSIP_ACK_METHOD, method_name = [65]\<rparr>,
                   cseq_method := \<lparr>method_id = PJSIP_ACK_METHOD, method_name = [65]\<rparr>\<rparr>)
       (demo_layer1 PJSIP_TSX_STATE_COMPLETED) = Some (l', True)
     \<and> l_txs l' 7 = Some t' \<and> state t' = PJSIP_TSX_STATE_CONFIRMED"
proof -
  let ?ack = "\<lparr>method_id = PJSIP_ACK_METHOD, method_name = [65]\<rparr>"
  let ?rdata = "demo_rdata\<lparr>rx_method := ?ack, cseq_method := ?ack\<rparr>"
  let ?t = "demo_member PJSIP_TSX_STATE_COMPLETED"
  have key: "create_tsx_key_3261 PJSIP_ROLE_UAS (rx_method demo_rdata) (via_branch demo_rdata) = demo_key"
    by (simp add: demo_key_def)
  have ok: "tsx_ok ?t" "role ?t = PJSIP_ROLE_UAS" "state ?t = PJSIP_TSX_STATE_COMPLETED" "is_invite ?t" "can_send ?t"
    by (simp_all add: demo_member_def tsx_ok_def can_send_def demo_tsx_def)
  have msg: "method_id (rx_method demo_rdata) = PJSIP_INVITE_METHOD" "rx_is_request ?rdata" "method_id (rx_method ?rdata) = PJSIP_ACK_METHOD"
    "method_id (cseq_method ?rdata) = PJSIP_ACK_METHOD"
    "pj_strnicmp_eq (via_branch ?rdata) PJSIP_RFC3261_BRANCH_ID PJSIP_RFC3261_BRANCH_LEN"
    "map pj_tolower (via_branch ?rdata) = map pj_tolower (via_branch demo_rdata)"
    "create_tsx_key_3261 PJSIP_ROLE_UAS (cseq_method ?rdata) (via_branch ?rdata) = demo_key"
    by (simp_all add: demo_rdata_def pj_strnicmp_eq_def PJSIP_RFC3261_BRANCH_ID_def PJSIP_RFC3261_BRANCH_LEN_def
        demo_key_def create_tsx_key_3261_def key_method_def)
  show ?thesis
    using tsx_ack_confirms_invite [of "demo_layer1 PJSIP_TSX_STATE_COMPLETED" 7 ?t "rx_method demo_rdata" "via_branch demo_rdata" demo_env ?rdata "[]"]
      demo_layer1_facts demo_key_facts(2) key ok msg demo_env_delivers by auto
qed



text \<open>
  C7: stopping the layer ends, and afterwards the table is empty, no key finds a transaction, and
  every transaction that was in it is terminated, with both timers off and its own reference on
  its group lock given back.
\<close>

theorem tsx_layer_stop_empties:
  assumes "layer_inv l" "l_mod_id l \<noteq> - 1" "\<And>prev src t. on_tsx_state env prev src t = t"
  shows "\<exists>l'. mod_tsx_layer_stop env l = Some l' \<and> layer_inv l' \<and> pjsip_tsx_layer_get_tsx_count l' = 0
     \<and> (\<forall>k. key_ok True k \<longrightarrow> snd (pjsip_tsx_layer_find_tsx k l') = None)
     \<and> (\<forall>k a. key_ok True k \<and> snd (pjsip_tsx_layer_find_tsx k l) = Some a \<longrightarrow>
          (\<exists>t. l_txs l' a = Some t \<and> PJSIP_TSX_STATE_TERMINATED \<le> state t \<and> terminating t
             \<and> \<not> tm_running (timeout_timer t) \<and> \<not> tm_running (retransmit_timer t)))"
proof -
  have "length (ht_table (l_htable l)) = Suc (unat (ht_rows (l_htable l)))"
    using assms(1) by (simp add: layer_inv_def hash_inv_def)
  then have "stopping (l_htable l) (pj_hash_first (l_htable l))"
    unfolding pj_hash_first_def by (rule stopping_rows) simp
  from stop_loop_spec [OF assms(3,1,2) this] obtain l' where l': "mod_tsx_layer_stop env l = Some l'" "layer_inv l'"
    "concat (ht_table (l_htable l')) = []"
    "\<forall>a. (\<exists>ck. hash_abs True (l_htable l) ck = Some a) \<longrightarrow> (\<exists>t. l_txs l' a = Some t \<and> stopped t)"
    by (auto simp: mod_tsx_layer_stop_def)
  have "pjsip_tsx_layer_get_tsx_count l' = 0"
    using layer_count [OF l'(2)] layer_empty [OF l'(2,3)] by (simp add: dom_def)
  moreover have "\<forall>k. key_ok True k \<longrightarrow> snd (pjsip_tsx_layer_find_tsx k l') = None"
    using layer_lookup [OF l'(2)] layer_empty [OF l'(2,3)] by (simp add: pjsip_tsx_layer_find_tsx_def find_tsx_lookup)
  ultimately show ?thesis
    using l'(1,2,4) layer_lookup [OF assms(1)]
    by (fastforce simp: pjsip_tsx_layer_find_tsx_def find_tsx_lookup stopped_def)
qed

theorem tsx_layer_stop_empties_witness:
  "\<exists>l' t. mod_tsx_layer_stop demo_env (demo_layer1 PJSIP_TSX_STATE_PROCEEDING) = Some l'
     \<and> snd (pjsip_tsx_layer_find_tsx demo_key l') = None \<and> l_txs l' 7 = Some t \<and> terminating t"
proof -
  have "l_mod_id (demo_layer1 PJSIP_TSX_STATE_PROCEEDING) \<noteq> - 1" by (simp add: demo_layer1_def)
  moreover have "snd (pjsip_tsx_layer_find_tsx demo_key (demo_layer1 PJSIP_TSX_STATE_PROCEEDING)) = Some 7"
    using demo_layer1_facts(3) by (simp add: pjsip_tsx_layer_find_tsx_def find_tsx_lookup)
  moreover have "on_tsx_state demo_env prev src t = t" for prev src t by (simp add: demo_env_def)
  ultimately show ?thesis
    using tsx_layer_stop_empties [OF demo_layer1_facts(1), of PJSIP_TSX_STATE_PROCEEDING demo_env] demo_key_facts(2) by blast
qed

end
