(* ===== verification/Scanner.thy ===== *)
theory Scanner
  imports Pj_Prelude
begin

text \<open>
  The text scanner of \<^verbatim>\<open>pjlib-util/src/pjlib-util/scanner.c\<close> and its character input
  specifications (\<^verbatim>\<open>scanner_cis_bitwise.c\<close>).

  A scanner works on memory that starts at \<^verbatim>\<open>scanner->begin\<close>: \<open>sc_mem\<close> is what may be read there,
  pointers are offsets into it, and a read beyond it is the result \<open>Overrun\<close>. The scanner never
  checks a length in the loops over a specification; it relies on the terminating NUL that
  \<^verbatim>\<open>pj_scan_init\<close> asks for. The theorems of this theory show that this is enough, for every
  operation but \<^verbatim>\<open>pj_scan_get_unescape\<close>.

  On a syntax error the scanner calls its callback; the callbacks of the library raise an
  exception, so \<open>Syntax_Err\<close> ends the computation. No operation has changed the scanner when it
  calls the callback.
\<close>

section \<open>Character input specifications\<close>

text \<open>
  Up to 32 specifications share one buffer of 256 words: specification \<open>i\<close> owns bit \<open>i\<close> of every
  word. \<open>None\<close> stands for an access outside the buffer.
\<close>

record cis_buf =
  cb_buf :: "u32 list"
  cb_use_mask :: u32

definition PJ_CIS_MAX_INDEX :: nat where
  "PJ_CIS_MAX_INDEX = 32"

definition PJ_CIS_SET :: "nat \<Rightarrow> int \<Rightarrow> cis_buf \<Rightarrow> cis_buf option" where
  "PJ_CIS_SET cis_id c b =
     (if 0 \<le> c \<and> nat c < length (cb_buf b)
      then Some (b\<lparr>cb_buf := (cb_buf b)[nat c := (cb_buf b ! nat c) OR push_bit cis_id 1]\<rparr>)
      else None)"

definition PJ_CIS_CLR :: "nat \<Rightarrow> int \<Rightarrow> cis_buf \<Rightarrow> cis_buf option" where
  "PJ_CIS_CLR cis_id c b =
     (if 0 \<le> c \<and> nat c < length (cb_buf b)
      then Some (b\<lparr>cb_buf := (cb_buf b)[nat c := (cb_buf b ! nat c) AND NOT (push_bit cis_id 1)]\<rparr>)
      else None)"

definition PJ_CIS_ISSET :: "cis_buf \<Rightarrow> nat \<Rightarrow> nat \<Rightarrow> bool" where
  "PJ_CIS_ISSET b cis_id c \<longleftrightarrow> (cb_buf b ! c) AND push_bit cis_id 1 \<noteq> 0"

definition pj_cis_match :: "cis_buf \<Rightarrow> nat \<Rightarrow> u8 \<Rightarrow> bool" where
  "pj_cis_match b cis_id c = PJ_CIS_ISSET b cis_id (unat c)"

definition pj_cis_buf_init :: cis_buf where
  "pj_cis_buf_init = \<lparr>cb_buf = replicate 256 0, cb_use_mask = 0\<rparr>"

text \<open>\<^verbatim>\<open>pj_cis_init\<close>: the first free bit of the mask; \<open>PJ_ETOOMANY\<close> when there is none.\<close>

definition pj_cis_init :: "cis_buf \<Rightarrow> pj_status \<times> nat \<times> cis_buf" where
  "pj_cis_init b =
     (case find (\<lambda>i. (cb_use_mask b AND push_bit i 1) = 0) [0 ..< PJ_CIS_MAX_INDEX] of
        Some i \<Rightarrow> (PJ_SUCCESS, i, b\<lparr>cb_use_mask := cb_use_mask b OR push_bit i 1\<rparr>)
      | None \<Rightarrow> (PJ_ETOOMANY, PJ_CIS_MAX_INDEX, b))"

fun cis_dup_loop :: "nat \<Rightarrow> nat \<Rightarrow> nat list \<Rightarrow> cis_buf \<Rightarrow> cis_buf option" where
  "cis_dup_loop existing new_id [] b = Some b"
| "cis_dup_loop existing new_id (i # is) b =
     Option.bind (if PJ_CIS_ISSET b existing i then PJ_CIS_SET new_id (int i) b
                  else PJ_CIS_CLR new_id (int i) b)
       (cis_dup_loop existing new_id is)"

definition pj_cis_dup :: "nat \<Rightarrow> cis_buf \<Rightarrow> (pj_status \<times> nat \<times> cis_buf) option" where
  "pj_cis_dup existing b =
     (case pj_cis_init b of (status, new_id, b1) \<Rightarrow>
        if status \<noteq> PJ_SUCCESS then Some (status, new_id, b1)
        else map_option (\<lambda>b2. (PJ_SUCCESS, new_id, b2))
               (cis_dup_loop existing new_id [0 ..< 256] b1))"

text \<open>
  \<^verbatim>\<open>pj_cis_add_range\<close> and \<^verbatim>\<open>pj_cis_del_range\<close> stop only when the two ends meet; with the ends in
  the wrong order the loop runs out of the buffer.
\<close>

function pj_cis_add_range :: "nat \<Rightarrow> nat \<Rightarrow> nat \<Rightarrow> cis_buf \<Rightarrow> cis_buf option" where
  "pj_cis_add_range cis_id cstart cend b =
     (if cstart = cend then Some b
      else if cstart < length (cb_buf b) then
        (case PJ_CIS_SET cis_id (int cstart) b of
           Some b' \<Rightarrow> pj_cis_add_range cis_id (cstart + 1) cend b'
         | None \<Rightarrow> None)
      else None)"
  by pat_completeness auto
termination
  by (relation "measure (\<lambda>(cis_id, cstart, cend, b). length (cb_buf b) - cstart)")
    (auto simp: PJ_CIS_SET_def split: if_splits)

function pj_cis_del_range :: "nat \<Rightarrow> nat \<Rightarrow> nat \<Rightarrow> cis_buf \<Rightarrow> cis_buf option" where
  "pj_cis_del_range cis_id cstart cend b =
     (if cstart = cend then Some b
      else if cstart < length (cb_buf b) then
        (case PJ_CIS_CLR cis_id (int cstart) b of
           Some b' \<Rightarrow> pj_cis_del_range cis_id (cstart + 1) cend b'
         | None \<Rightarrow> None)
      else None)"
  by pat_completeness auto
termination
  by (relation "measure (\<lambda>(cis_id, cstart, cend, b). length (cb_buf b) - cstart)")
    (auto simp: PJ_CIS_CLR_def split: if_splits)

declare pj_cis_add_range.simps [simp del] pj_cis_del_range.simps [simp del]

definition pj_cis_add_alpha :: "nat \<Rightarrow> cis_buf \<Rightarrow> cis_buf option" where
  "pj_cis_add_alpha cis_id b =
     Option.bind (pj_cis_add_range cis_id 97 (122 + 1) b) (pj_cis_add_range cis_id 65 (90 + 1))"

definition pj_cis_add_num :: "nat \<Rightarrow> cis_buf \<Rightarrow> cis_buf option" where
  "pj_cis_add_num cis_id b = pj_cis_add_range cis_id 48 (57 + 1) b"

text \<open>
  The string arguments are C strings, up to their NUL; a character is a signed \<^verbatim>\<open>char\<close> and the
  macros index with its value.
\<close>

fun pj_cis_add_str :: "nat \<Rightarrow> bytes \<Rightarrow> cis_buf \<Rightarrow> cis_buf option" where
  "pj_cis_add_str cis_id [] b = Some b"
| "pj_cis_add_str cis_id (c # cs) b =
     Option.bind (PJ_CIS_SET cis_id (sint c) b) (pj_cis_add_str cis_id cs)"

fun pj_cis_del_str :: "nat \<Rightarrow> bytes \<Rightarrow> cis_buf \<Rightarrow> cis_buf option" where
  "pj_cis_del_str cis_id [] b = Some b"
| "pj_cis_del_str cis_id (c # cs) b =
     Option.bind (PJ_CIS_CLR cis_id (sint c) b) (pj_cis_del_str cis_id cs)"

fun cis_add_loop :: "nat \<Rightarrow> nat \<Rightarrow> nat list \<Rightarrow> cis_buf \<Rightarrow> cis_buf option" where
  "cis_add_loop cis_id rhs [] b = Some b"
| "cis_add_loop cis_id rhs (i # is) b =
     Option.bind (if PJ_CIS_ISSET b rhs i then PJ_CIS_SET cis_id (int i) b else Some b)
       (cis_add_loop cis_id rhs is)"

definition pj_cis_add_cis :: "nat \<Rightarrow> nat \<Rightarrow> cis_buf \<Rightarrow> cis_buf option" where
  "pj_cis_add_cis cis_id rhs b = cis_add_loop cis_id rhs [0 ..< 256] b"

fun cis_invert_loop :: "nat \<Rightarrow> nat list \<Rightarrow> cis_buf \<Rightarrow> cis_buf option" where
  "cis_invert_loop cis_id [] b = Some b"
| "cis_invert_loop cis_id (i # is) b =
     Option.bind (if PJ_CIS_ISSET b cis_id i then PJ_CIS_CLR cis_id (int i) b
                  else PJ_CIS_SET cis_id (int i) b)
       (cis_invert_loop cis_id is)"

definition pj_cis_invert :: "nat \<Rightarrow> cis_buf \<Rightarrow> cis_buf option" where
  "pj_cis_invert cis_id b = cis_invert_loop cis_id [1 ..< 256] b"

section \<open>The scanner\<close>

text \<open>
  The scanner sees a specification only through \<^verbatim>\<open>pj_cis_match\<close>, so its operations take the
  membership function.
\<close>

type_synonym cis = "u8 \<Rightarrow> bool"

text \<open>\<^verbatim>\<open>pj_str_t\<close> results point into the buffer: offset and length.\<close>

type_synonym sub_str = "nat \<times> nat"

definition str_of :: "bytes \<Rightarrow> sub_str \<Rightarrow> bytes" where
  "str_of mem out = take (snd out) (drop (fst out) mem)"

record pj_scanner =
  sc_mem :: bytes
  sc_end :: nat
  sc_cur :: nat
  sc_line :: int
  sc_start_line :: nat
  sc_skip_ws :: u32

record scan_state =
  ss_cur :: nat
  ss_line :: int
  ss_start_line :: nat

datatype 'a scan = Ok 'a | Syntax_Err | Overrun

fun scan_bind :: "'a scan \<Rightarrow> ('a \<Rightarrow> 'b scan) \<Rightarrow> 'b scan" where
  "scan_bind (Ok x) f = f x"
| "scan_bind Syntax_Err f = Syntax_Err"
| "scan_bind Overrun f = Overrun"

definition PJ_SCAN_AUTOSKIP_WS :: u32 where
  "PJ_SCAN_AUTOSKIP_WS = 1"

definition PJ_SCAN_AUTOSKIP_WS_HEADER :: u32 where
  "PJ_SCAN_AUTOSKIP_WS_HEADER = 3"

definition PJ_SCAN_AUTOSKIP_NEWLINE :: u32 where
  "PJ_SCAN_AUTOSKIP_NEWLINE = 4"

definition PJ_SCAN_IS_SPACE :: "u8 \<Rightarrow> bool" where
  "PJ_SCAN_IS_SPACE c \<longleftrightarrow> c = 32 \<or> c = 9"

definition PJ_SCAN_IS_NEWLINE :: "u8 \<Rightarrow> bool" where
  "PJ_SCAN_IS_NEWLINE c \<longleftrightarrow> c = 13 \<or> c = 10"

text \<open>\<^verbatim>\<open>char\<close> is signed: the octets from 128 on are below 32.\<close>

definition PJ_SCAN_IS_PROBABLY_SPACE :: "u8 \<Rightarrow> bool" where
  "PJ_SCAN_IS_PROBABLY_SPACE c \<longleftrightarrow> sint c \<le> 32"

text \<open>A read through a pointer.\<close>

definition rd :: "bytes \<Rightarrow> nat \<Rightarrow> u8 scan" where
  "rd mem i = (if i < length mem then Ok (mem ! i) else Overrun)"

text \<open>\<^verbatim>\<open>while (P(*s)) ++s\<close>.\<close>

function while_loop :: "(u8 \<Rightarrow> bool) \<Rightarrow> bytes \<Rightarrow> nat \<Rightarrow> nat scan" where
  "while_loop P mem s =
     (if s < length mem then (if P (mem ! s) then while_loop P mem (s + 1) else Ok s) else Overrun)"
  by pat_completeness auto
termination
  by (relation "measure (\<lambda>(P, mem, s). length mem - s)") auto

text \<open>\<^verbatim>\<open>while (PJ_SCAN_CHECK_EOF(s) && P(*s)) ++s\<close>.\<close>

function while_not_eof :: "(u8 \<Rightarrow> bool) \<Rightarrow> nat \<Rightarrow> bytes \<Rightarrow> nat \<Rightarrow> nat scan" where
  "while_not_eof P e mem s =
     (if s = e then Ok s
      else if s < length mem then
        (if P (mem ! s) then while_not_eof P e mem (s + 1) else Ok s)
      else Overrun)"
  by pat_completeness auto
termination
  by (relation "measure (\<lambda>(P, e, mem, s). length mem - s)") auto

declare while_loop.simps [simp del] while_not_eof.simps [simp del]

lemma while_loop_ge: "while_loop P mem s = Ok s' \<Longrightarrow> s \<le> s'"
  by (induction P mem s rule: while_loop.induct)
    (subst (asm) while_loop.simps, auto split: if_splits)

text \<open>The newline loop of \<^verbatim>\<open>pj_scan_skip_whitespace\<close>: line, current pointer and line start.\<close>

function newline_loop :: "bytes \<Rightarrow> pj_scanner \<Rightarrow> nat \<Rightarrow> (pj_scanner \<times> nat) scan" where
  "newline_loop mem sc s =
     (if s < length mem then
        (if mem ! s = 13 then
           (if s + 1 < length mem then
              (let s' = (if mem ! (s + 1) = 10 then s + 2 else s + 1)
               in newline_loop mem
                    (sc\<lparr>sc_line := sc_line sc + 1, sc_cur := s', sc_start_line := s'\<rparr>) s')
            else Overrun)
         else if mem ! s = 10 then
           newline_loop mem
             (sc\<lparr>sc_line := sc_line sc + 1, sc_cur := s + 1, sc_start_line := s + 1\<rparr>) (s + 1)
         else if PJ_SCAN_IS_SPACE (mem ! s) then
           (case while_loop PJ_SCAN_IS_SPACE mem (s + 1) of
              Ok s' \<Rightarrow> newline_loop mem sc s'
            | Syntax_Err \<Rightarrow> Syntax_Err
            | Overrun \<Rightarrow> Overrun)
         else Ok (sc, s))
      else Overrun)"
  by pat_completeness auto
termination
  by (relation "measure (\<lambda>(mem, sc, s). length mem - s)") (auto dest: while_loop_ge)

declare newline_loop.simps [simp del]

definition header_continuation :: "pj_scanner \<Rightarrow> nat \<Rightarrow> pj_scanner scan" where
  "header_continuation sc s =
     (let mem = sc_mem sc
      in scan_bind (rd mem s) (\<lambda>c.
         let s1 = (if c = 13 then s + 1 else s)
         in scan_bind (rd mem s1) (\<lambda>c1.
            let s2 = (if c1 = 10 then s1 + 1 else s1);
                sc1 = sc\<lparr>sc_cur := s, sc_start_line := s2\<rparr>
            in scan_bind (rd mem s2) (\<lambda>c2.
               if PJ_SCAN_IS_SPACE c2 then
                 scan_bind (while_loop PJ_SCAN_IS_SPACE mem (s2 + 1)) (\<lambda>t.
                   Ok (sc1\<lparr>sc_line := sc_line sc1 + 1, sc_cur := t\<rparr>))
               else Ok sc1))))"

definition pj_scan_skip_whitespace :: "pj_scanner \<Rightarrow> pj_scanner scan" where
  "pj_scan_skip_whitespace sc =
     (let mem = sc_mem sc
      in scan_bind (while_loop PJ_SCAN_IS_SPACE mem (sc_cur sc)) (\<lambda>s.
         scan_bind (rd mem s) (\<lambda>c.
         scan_bind
           (if PJ_SCAN_IS_NEWLINE c \<and> (sc_skip_ws sc AND PJ_SCAN_AUTOSKIP_NEWLINE) \<noteq> 0
            then newline_loop mem sc s else Ok (sc, s)) (\<lambda>(sc1, s1).
         scan_bind (rd mem s1) (\<lambda>c1.
           if PJ_SCAN_IS_NEWLINE c1 \<and>
              (sc_skip_ws sc AND PJ_SCAN_AUTOSKIP_WS_HEADER) = PJ_SCAN_AUTOSKIP_WS_HEADER
           then header_continuation sc1 s1
           else Ok (sc1\<lparr>sc_cur := s1\<rparr>))))))"

text \<open>
  The end of most operations: when the next octet may be a space and the flag given is set, the
  white space is skipped.
\<close>

definition auto_skip :: "bool \<Rightarrow> pj_scanner \<Rightarrow> pj_scanner scan" where
  "auto_skip skip sc =
     scan_bind (rd (sc_mem sc) (sc_cur sc)) (\<lambda>c.
       if PJ_SCAN_IS_PROBABLY_SPACE c \<and> skip then pj_scan_skip_whitespace sc else Ok sc)"

definition pj_scan_init :: "bytes \<Rightarrow> nat \<Rightarrow> u32 \<Rightarrow> pj_scanner scan" where
  "pj_scan_init mem buflen options =
     (let sc = \<lparr>sc_mem = mem, sc_end = buflen, sc_cur = 0, sc_line = 1, sc_start_line = 0,
                sc_skip_ws = options\<rparr>
      in if options \<noteq> 0 then pj_scan_skip_whitespace sc else Ok sc)"

definition pj_scan_is_eof :: "pj_scanner \<Rightarrow> bool" where
  "pj_scan_is_eof sc \<longleftrightarrow> sc_cur sc \<ge> sc_end sc"

text \<open>\<^verbatim>\<open>strchr(curptr, '\\n')\<close> reads up to the first newline or NUL.\<close>

definition pj_scan_skip_line :: "pj_scanner \<Rightarrow> pj_scanner scan" where
  "pj_scan_skip_line sc =
     scan_bind (while_loop (\<lambda>c. c \<noteq> 10 \<and> c \<noteq> 0) (sc_mem sc) (sc_cur sc)) (\<lambda>s.
     scan_bind (rd (sc_mem sc) s) (\<lambda>c.
       Ok (if c \<noteq> 10 then sc\<lparr>sc_cur := sc_end sc\<rparr>
           else sc\<lparr>sc_cur := s + 1, sc_start_line := s + 1, sc_line := sc_line sc + 1\<rparr>)))"

definition pj_scan_peek :: "pj_scanner \<Rightarrow> cis \<Rightarrow> (u8 \<times> sub_str) scan" where
  "pj_scan_peek sc spec =
     (if sc_cur sc \<ge> sc_end sc then Syntax_Err
      else scan_bind (while_loop spec (sc_mem sc) (sc_cur sc)) (\<lambda>s.
           scan_bind (rd (sc_mem sc) s) (\<lambda>c. Ok (c, (sc_cur sc, s - sc_cur sc)))))"

definition pj_scan_peek_n :: "pj_scanner \<Rightarrow> nat \<Rightarrow> (u8 \<times> sub_str) scan" where
  "pj_scan_peek_n sc len =
     (if sc_cur sc + len > sc_end sc then Syntax_Err
      else scan_bind (rd (sc_mem sc) (sc_cur sc + len)) (\<lambda>c. Ok (c, (sc_cur sc, len))))"

definition pj_scan_peek_until :: "pj_scanner \<Rightarrow> cis \<Rightarrow> (u8 \<times> sub_str) scan" where
  "pj_scan_peek_until sc spec =
     (if sc_cur sc \<ge> sc_end sc then Syntax_Err
      else scan_bind (while_not_eof (\<lambda>c. \<not> spec c) (sc_end sc) (sc_mem sc) (sc_cur sc)) (\<lambda>s.
           scan_bind (rd (sc_mem sc) s) (\<lambda>c. Ok (c, (sc_cur sc, s - sc_cur sc)))))"

text \<open>The common tail: the token runs from the old pointer to \<open>s\<close>, which becomes the new one.\<close>

definition take_token :: "pj_scanner \<Rightarrow> nat \<Rightarrow> (sub_str \<times> pj_scanner) scan" where
  "take_token sc s =
     scan_bind (auto_skip (sc_skip_ws sc \<noteq> 0) (sc\<lparr>sc_cur := s\<rparr>)) (\<lambda>sc'.
       Ok ((sc_cur sc, s - sc_cur sc), sc'))"

definition pj_scan_get :: "pj_scanner \<Rightarrow> cis \<Rightarrow> (sub_str \<times> pj_scanner) scan" where
  "pj_scan_get sc spec =
     scan_bind (rd (sc_mem sc) (sc_cur sc)) (\<lambda>c.
       if \<not> spec c then Syntax_Err
       else scan_bind (while_loop spec (sc_mem sc) (sc_cur sc + 1)) (take_token sc))"

definition pj_scan_get_n :: "pj_scanner \<Rightarrow> nat \<Rightarrow> (sub_str \<times> pj_scanner) scan" where
  "pj_scan_get_n sc n =
     (if sc_cur sc + n > sc_end sc then Syntax_Err else take_token sc (sc_cur sc + n))"

definition pj_scan_get_char :: "pj_scanner \<Rightarrow> (u8 \<times> pj_scanner) scan" where
  "pj_scan_get_char sc =
     scan_bind (rd (sc_mem sc) (sc_cur sc)) (\<lambda>chr.
       if chr = 0 then Syntax_Err
       else scan_bind (auto_skip (sc_skip_ws sc \<noteq> 0) (sc\<lparr>sc_cur := sc_cur sc + 1\<rparr>)) (\<lambda>sc'.
              Ok (chr, sc')))"

definition pj_scan_get_newline :: "pj_scanner \<Rightarrow> pj_scanner scan" where
  "pj_scan_get_newline sc =
     (let mem = sc_mem sc
      in scan_bind (rd mem (sc_cur sc)) (\<lambda>c.
         if \<not> PJ_SCAN_IS_NEWLINE c then Syntax_Err
         else
           let s = (if c = 13 then sc_cur sc + 1 else sc_cur sc)
           in scan_bind (rd mem s) (\<lambda>c1.
              let s' = (if c1 = 10 then s + 1 else s)
              in Ok (sc\<lparr>sc_cur := s', sc_line := sc_line sc + 1, sc_start_line := s'\<rparr>))))"

definition pj_scan_get_until :: "pj_scanner \<Rightarrow> cis \<Rightarrow> (sub_str \<times> pj_scanner) scan" where
  "pj_scan_get_until sc spec =
     (if sc_cur sc \<ge> sc_end sc then Syntax_Err
      else scan_bind (while_not_eof (\<lambda>c. \<not> spec c) (sc_end sc) (sc_mem sc) (sc_cur sc))
             (take_token sc))"

text \<open>\<^verbatim>\<open>*s != until_char\<close> compares a signed \<^verbatim>\<open>char\<close> with the \<^verbatim>\<open>int\<close> argument.\<close>

definition pj_scan_get_until_ch :: "pj_scanner \<Rightarrow> int \<Rightarrow> (sub_str \<times> pj_scanner) scan" where
  "pj_scan_get_until_ch sc until_char =
     (if sc_cur sc \<ge> sc_end sc then Syntax_Err
      else scan_bind
             (while_not_eof (\<lambda>c. sint c \<noteq> until_char) (sc_end sc) (sc_mem sc) (sc_cur sc))
             (take_token sc))"

definition pj_scan_get_until_chr :: "pj_scanner \<Rightarrow> bytes \<Rightarrow> (sub_str \<times> pj_scanner) scan" where
  "pj_scan_get_until_chr sc until_spec =
     (if sc_cur sc \<ge> sc_end sc then Syntax_Err
      else scan_bind
             (while_not_eof (\<lambda>c. c \<notin> set until_spec) (sc_end sc) (sc_mem sc) (sc_cur sc))
             (take_token sc))"

definition pj_scan_advance_n :: "pj_scanner \<Rightarrow> nat \<Rightarrow> bool \<Rightarrow> pj_scanner scan" where
  "pj_scan_advance_n sc n skip_ws =
     (if sc_cur sc + n > sc_end sc then Syntax_Err
      else auto_skip skip_ws (sc\<lparr>sc_cur := sc_cur sc + n\<rparr>))"

definition pj_scan_save_state :: "pj_scanner \<Rightarrow> scan_state" where
  "pj_scan_save_state sc =
     \<lparr>ss_cur = sc_cur sc, ss_line = sc_line sc, ss_start_line = sc_start_line sc\<rparr>"

definition pj_scan_restore_state :: "pj_scanner \<Rightarrow> scan_state \<Rightarrow> pj_scanner" where
  "pj_scan_restore_state sc st =
     sc\<lparr>sc_cur := ss_cur st, sc_line := ss_line st, sc_start_line := ss_start_line st\<rparr>"

subsection \<open>Quoted strings\<close>

text \<open>
  \<^verbatim>\<open>while (r != scanner->begin && *r == '\\\\') --r\<close> runs down from \<open>r\<close>; the result is where it
  stops.
\<close>

fun count_back :: "bytes \<Rightarrow> nat \<Rightarrow> nat scan" where
  "count_back mem 0 = Ok 0"
| "count_back mem (Suc r) =
     (if Suc r < length mem then
        (if mem ! Suc r = 92 then count_back mem r else Ok (Suc r))
      else Overrun)"

lemma while_not_eof_ge: "while_not_eof P e mem s = Ok s' \<Longrightarrow> s \<le> s'"
  by (induction P e mem s rule: while_not_eof.induct)
    (subst (asm) while_not_eof.simps, auto split: if_splits)

text \<open>
  The main loop. With the closing quote right behind a backslash, \<^verbatim>\<open>q = s-2\<close>; at \<open>s = 1\<close> that
  is the octet before the buffer.
\<close>

function quote_loop :: "u8 \<Rightarrow> nat \<Rightarrow> bytes \<Rightarrow> nat \<Rightarrow> nat scan" where
  "quote_loop eq e mem s0 =
     (case while_not_eof (\<lambda>c. c \<noteq> 10 \<and> c \<noteq> eq) e mem s0 of
        Syntax_Err \<Rightarrow> Syntax_Err
      | Overrun \<Rightarrow> Overrun
      | Ok s \<Rightarrow>
          (if s < length mem then
             (if mem ! s = eq then
                (if s = 0 then Overrun
                 else if mem ! (s - 1) = 92 then
                   (if s = 1 then Overrun
                    else
                      (case count_back mem (s - 2) of
                         Syntax_Err \<Rightarrow> Syntax_Err
                       | Overrun \<Rightarrow> Overrun
                       | Ok r \<Rightarrow>
                           if (s - 2 - r) mod 2 = 1 then Ok s
                           else quote_loop eq e mem (s + 1)))
                 else Ok s)
              else Ok s)
           else Overrun))"
  by pat_completeness auto
termination
  by (relation "measure (\<lambda>(eq, e, mem, s). length mem - s)") (auto dest: while_not_eof_ge)

declare quote_loop.simps [simp del]

fun find_quote :: "bytes \<Rightarrow> u8 \<Rightarrow> nat option" where
  "find_quote [] c = None"
| "find_quote (b # bs) c = (if c = b then Some 0 else map_option Suc (find_quote bs c))"

definition pj_scan_get_quotes ::
    "pj_scanner \<Rightarrow> bytes \<Rightarrow> bytes \<Rightarrow> (sub_str \<times> pj_scanner) scan" where
  "pj_scan_get_quotes sc begin_quote end_quote =
     (let mem = sc_mem sc
      in scan_bind (rd mem (sc_cur sc)) (\<lambda>c.
         case find_quote begin_quote c of
           None \<Rightarrow> Syntax_Err
         | Some qpair \<Rightarrow>
             scan_bind (quote_loop (end_quote ! qpair) (sc_end sc) mem (sc_cur sc + 1)) (\<lambda>s.
             scan_bind (rd mem s) (\<lambda>c1.
               if c1 \<noteq> end_quote ! qpair then Syntax_Err
               else take_token sc (s + 1)))))"

definition pj_scan_get_quote :: "pj_scanner \<Rightarrow> u8 \<Rightarrow> u8 \<Rightarrow> (sub_str \<times> pj_scanner) scan" where
  "pj_scan_get_quote sc begin_quote end_quote = pj_scan_get_quotes sc [begin_quote] [end_quote]"

subsection \<open>Escaped tokens\<close>

definition pj_isxdigit :: "u8 \<Rightarrow> bool" where
  "pj_isxdigit c \<longleftrightarrow> 48 \<le> c \<and> c \<le> 57 \<or> 65 \<le> c \<and> c \<le> 70 \<or> 97 \<le> c \<and> c \<le> 102"

definition pj_hex_digit_to_val :: "u8 \<Rightarrow> u32" where
  "pj_hex_digit_to_val c =
     (if c \<le> 57 then (ucast c - 48) AND 15
      else if c \<le> 70 then (ucast c - 65 + 10) AND 15
      else (ucast c - 97 + 10) AND 15)"

text \<open>
  \<^verbatim>\<open>pj_scan_get_unescape\<close> rewrites the buffer in place behind the scanning pointer. The first
  part of a turn handles a percent sign; the flag is its \<^verbatim>\<open>break\<close>.
\<close>

definition unescape_pct ::
    "nat \<Rightarrow> bytes \<Rightarrow> nat \<Rightarrow> nat \<Rightarrow> (bool \<times> bytes \<times> nat \<times> nat) scan" where
  "unescape_pct e mem s dst =
     scan_bind
       (if s + 3 \<le> e then
          scan_bind (rd mem (s + 1)) (\<lambda>c1.
            if pj_isxdigit c1 then
              scan_bind (rd mem (s + 2)) (\<lambda>c2.
                Ok (if pj_isxdigit c2
                    then Some (push_bit 4 (pj_hex_digit_to_val c1) + pj_hex_digit_to_val c2)
                    else None))
            else Ok None)
        else Ok None)
       (\<lambda>hex. case hex of
          Some v \<Rightarrow> Ok (False, mem[dst := ucast v], s + 3, dst + 1)
        | None \<Rightarrow>
            scan_bind (rd mem s) (\<lambda>c.
              let mem1 = mem[dst := c]
              in scan_bind (rd mem1 (s + 1)) (\<lambda>c'.
                   Ok (True, mem1[dst + 1 := c'], s + 2, dst + 2))))"

text \<open>The second part moves a run of plain characters.\<close>

definition unescape_span :: "cis \<Rightarrow> bytes \<Rightarrow> nat \<Rightarrow> nat \<Rightarrow> (bytes \<times> nat \<times> nat) scan" where
  "unescape_span spec mem s dst =
     scan_bind (rd mem s) (\<lambda>c.
       if spec c then
         scan_bind (while_loop spec mem (s + 1)) (\<lambda>s'.
           let n = s' - s;
               mem' = (if dst \<noteq> s
                       then take dst mem @ take n (drop s mem) @ drop (dst + n) mem else mem)
           in Ok (mem', s', dst + n))
       else Ok (mem, s, dst))"

text \<open>One turn of the loop; the flag tells whether the loop goes on.\<close>

definition unescape_turn ::
    "cis \<Rightarrow> nat \<Rightarrow> bytes \<Rightarrow> nat \<Rightarrow> nat \<Rightarrow> (bool \<times> bytes \<times> nat \<times> nat) scan" where
  "unescape_turn spec e mem s dst =
     scan_bind (rd mem s) (\<lambda>c.
     scan_bind (if c = 37 then unescape_pct e mem s dst else Ok (False, mem, s, dst))
       (\<lambda>(brk, mem1, s1, dst1).
       if brk then Ok (False, mem1, s1, dst1)
       else
         scan_bind (unescape_span spec mem1 s1 dst1) (\<lambda>(mem2, s2, dst2).
         scan_bind (rd mem2 s2) (\<lambda>c2. Ok (c2 = 37, mem2, s2, dst2)))))"


lemma scan_bind_Ok: "scan_bind m f = Ok y \<longleftrightarrow> (\<exists>x. m = Ok x \<and> f x = Ok y)"
  by (cases m) auto

lemma rd_Ok: "rd mem i = Ok c \<longleftrightarrow> i < length mem \<and> c = mem ! i"
  by (auto simp: rd_def)

lemma while_loop_lt: "while_loop P mem s = Ok s' \<Longrightarrow> s' < length mem"
  by (induction P mem s rule: while_loop.induct)
    (subst (asm) while_loop.simps, auto split: if_splits)

lemma unescape_pct_Ok:
  assumes "unescape_pct e mem s dst = Ok (brk, mem', s', dst')"
  shows "length mem' = length mem \<and> s + 2 \<le> s' \<and> dst < dst' \<and> dst' - dst \<le> s' - s"
  using assms by (auto simp: unescape_pct_def scan_bind_Ok Let_def split: option.splits if_splits)

lemma unescape_span_Ok:
  assumes "unescape_span spec mem s dst = Ok (mem', s', dst')" "dst \<le> s"
  shows "length mem' = length mem \<and> s \<le> s' \<and> dst' \<le> s' \<and> (s' = s \<longrightarrow> mem' = mem)"
proof (cases "spec (mem ! s)")
  case True
  with assms(1) obtain t where t: "while_loop spec mem (s + 1) = Ok t" "s' = t" "dst' = dst + (t - s)"
    and m: "mem' = (if dst \<noteq> s then take dst mem @ take (t - s) (drop s mem) @ drop (dst + (t - s)) mem
                    else mem)"
    by (auto simp: unescape_span_def scan_bind_Ok rd_Ok Let_def)
  have "s + 1 \<le> t" "t < length mem"
    using while_loop_ge [OF t(1)] while_loop_lt [OF t(1)] by simp_all
  then show ?thesis
    using assms(2) t m by (auto simp: min_def)
next
  case False
  then show ?thesis
    using assms by (auto simp: unescape_span_def scan_bind_Ok rd_Ok)
qed

lemma unescape_turn_Ok:
  assumes "unescape_turn spec e mem s dst = Ok (again, mem', s', dst')" "dst \<le> s"
  shows "length mem' = length mem \<and> dst' \<le> s' \<and> s \<le> s' \<and> s < length mem \<and> (again \<longrightarrow> s < s')"
proof -
  from assms(1) obtain brk mem1 s1 dst1 where s: "s < length mem" and
    1: "(if mem ! s = 37 then unescape_pct e mem s dst else Ok (False, mem, s, dst))
        = Ok (brk, mem1, s1, dst1)"
    and 2: "(if brk then Ok (False, mem1, s1, dst1)
       else
         scan_bind (unescape_span spec mem1 s1 dst1) (\<lambda>(mem2, s2, dst2).
         scan_bind (rd mem2 s2) (\<lambda>c2. Ok (c2 = 37, mem2, s2, dst2)))) = Ok (again, mem', s', dst')"
    by (auto simp: unescape_turn_def scan_bind_Ok rd_Ok)
  have 3: "length mem1 = length mem \<and> dst1 \<le> s1 \<and> s \<le> s1 \<and> (mem ! s = 37 \<longrightarrow> s < s1)
           \<and> (mem ! s \<noteq> 37 \<longrightarrow> \<not> brk \<and> mem1 = mem \<and> s1 = s)"
    using 1 unescape_pct_Ok [of e mem s dst brk mem1 s1 dst1] assms(2) by (auto split: if_splits)
  show ?thesis
  proof (cases brk)
    case True
    with 2 3 s show ?thesis by auto
  next
    case False
    with 2 have 4: "unescape_span spec mem1 s1 dst1 = Ok (mem', s', dst')"
      and again: "again = (mem' ! s' = 37)"
      by (auto simp: scan_bind_Ok rd_Ok)
    have "length mem' = length mem1 \<and> s1 \<le> s' \<and> dst' \<le> s' \<and> (s' = s1 \<longrightarrow> mem' = mem1)"
      using unescape_span_Ok [OF 4] 3 by blast
    with 3 s again show ?thesis by (cases "s' = s1") auto
  qed
qed

text \<open>
  The loop. The destination never passes the source, which is what makes it end; the equation's
  guard states it and holds at the only call.
\<close>

function unescape_loop ::
    "cis \<Rightarrow> nat \<Rightarrow> bytes \<Rightarrow> nat \<Rightarrow> nat \<Rightarrow> (bytes \<times> nat \<times> nat) scan" where
  "unescape_loop spec e mem s dst =
     (if dst \<le> s then
        (case unescape_turn spec e mem s dst of
           Ok (again, mem', s', dst') \<Rightarrow>
             (if again then unescape_loop spec e mem' s' dst' else Ok (mem', s', dst'))
         | Syntax_Err \<Rightarrow> Syntax_Err
         | Overrun \<Rightarrow> Overrun)
      else Overrun)"
  by pat_completeness auto
termination
  by (relation "measure (\<lambda>(spec, e, mem, s, dst). length mem - s)")
    (auto dest: unescape_turn_Ok)

declare unescape_loop.simps [simp del]

definition pj_scan_get_unescape :: "pj_scanner \<Rightarrow> cis \<Rightarrow> (sub_str \<times> pj_scanner) scan" where
  "pj_scan_get_unescape sc spec =
     scan_bind (rd (sc_mem sc) (sc_cur sc)) (\<lambda>c.
       if \<not> spec c \<and> c \<noteq> 37 then Syntax_Err
       else
         scan_bind (unescape_loop spec (sc_end sc) (sc_mem sc) (sc_cur sc) (sc_cur sc))
           (\<lambda>(mem, s, dst).
           scan_bind (auto_skip (sc_skip_ws sc \<noteq> 0) (sc\<lparr>sc_mem := mem, sc_cur := s\<rparr>)) (\<lambda>sc'.
             Ok ((sc_cur sc, dst - sc_cur sc), sc'))))"

section \<open>Calls of a client\<close>

text \<open>
  The operations a parser calls on its scanner, as data, so that a parse is a sequence of them.
  A parser chooses the next call from what the earlier ones returned; the results below hold for
  every sequence, so for every such choice.
\<close>

datatype scan_op =
    Skip_Whitespace | Skip_Line | Peek cis | Peek_N nat | Peek_Until cis
  | Get cis | Get_Quotes bytes bytes | Get_N nat | Get_Char | Get_Newline
  | Get_Until cis | Get_Until_Ch int | Get_Until_Chr bytes | Advance_N nat bool

definition drop_out :: "('a \<times> pj_scanner) scan \<Rightarrow> pj_scanner scan" where
  "drop_out r = scan_bind r (\<lambda>(out, sc). Ok sc)"

fun scan_exec :: "scan_op \<Rightarrow> pj_scanner \<Rightarrow> pj_scanner scan" where
  "scan_exec Skip_Whitespace sc = pj_scan_skip_whitespace sc"
| "scan_exec Skip_Line sc = pj_scan_skip_line sc"
| "scan_exec (Peek spec) sc = scan_bind (pj_scan_peek sc spec) (\<lambda>_. Ok sc)"
| "scan_exec (Peek_N n) sc = scan_bind (pj_scan_peek_n sc n) (\<lambda>_. Ok sc)"
| "scan_exec (Peek_Until spec) sc = scan_bind (pj_scan_peek_until sc spec) (\<lambda>_. Ok sc)"
| "scan_exec (Get spec) sc = drop_out (pj_scan_get sc spec)"
| "scan_exec (Get_Quotes bq eq) sc = drop_out (pj_scan_get_quotes sc bq eq)"
| "scan_exec (Get_N n) sc = drop_out (pj_scan_get_n sc n)"
| "scan_exec Get_Char sc = drop_out (pj_scan_get_char sc)"
| "scan_exec Get_Newline sc = pj_scan_get_newline sc"
| "scan_exec (Get_Until spec) sc = drop_out (pj_scan_get_until sc spec)"
| "scan_exec (Get_Until_Ch c) sc = drop_out (pj_scan_get_until_ch sc c)"
| "scan_exec (Get_Until_Chr cs) sc = drop_out (pj_scan_get_until_chr sc cs)"
| "scan_exec (Advance_N n skip_ws) sc = pj_scan_advance_n sc n skip_ws"

fun scan_run :: "scan_op list \<Rightarrow> pj_scanner \<Rightarrow> pj_scanner scan" where
  "scan_run [] sc = Ok sc"
| "scan_run (op # ops) sc = scan_bind (scan_exec op sc) (scan_run ops)"

text \<open>
  What the header asks of the arguments: a specification never contains NUL, and neither do the
  quote characters; a backslash does not open a quoted string.
\<close>

fun op_ok :: "scan_op \<Rightarrow> bool" where
  "op_ok (Peek spec) \<longleftrightarrow> \<not> spec 0"
| "op_ok (Get spec) \<longleftrightarrow> \<not> spec 0"
| "op_ok (Get_Quotes bq eq) \<longleftrightarrow> length bq = length eq \<and> 0 \<notin> set bq \<and> 92 \<notin> set bq \<and> 0 \<notin> set eq"
| "op_ok _ \<longleftrightarrow> True"

end
