(* ===== verification/Scanner_Props.thy ===== *)
theory Scanner_Props
  imports Scanner
begin

text \<open>
  Results on the scanner: character specifications never contain NUL, the scanner's operations
  stay inside a NUL-terminated buffer in any order of calls, \<^verbatim>\<open>pj_scan_get\<close> returns the longest
  token, and \<^verbatim>\<open>pj_scan_get_unescape\<close> can leave the buffer.
\<close>

section \<open>Invariants and the safety of a result\<close>

definition scanner_ok :: "pj_scanner \<Rightarrow> bool" where
  "scanner_ok sc \<longleftrightarrow>
     sc_end sc < length (sc_mem sc) \<and> sc_mem sc ! sc_end sc = 0 \<and>
     sc_cur sc \<le> sc_end sc \<and> sc_start_line sc \<le> sc_end sc"

text \<open>What no operation changes, and that the pointer only moves forward.\<close>

definition advanced :: "pj_scanner \<Rightarrow> pj_scanner \<Rightarrow> bool" where
  "advanced sc sc' \<longleftrightarrow>
     sc_mem sc' = sc_mem sc \<and> sc_end sc' = sc_end sc \<and> sc_skip_ws sc' = sc_skip_ws sc \<and>
     sc_cur sc \<le> sc_cur sc' \<and> sc_line sc \<le> sc_line sc'"

definition scan_safe :: "('a \<Rightarrow> bool) \<Rightarrow> 'a scan \<Rightarrow> bool" where
  "scan_safe Q r = (case r of Ok x \<Rightarrow> Q x | Syntax_Err \<Rightarrow> True | Overrun \<Rightarrow> False)"

definition nul_at :: "nat \<Rightarrow> bytes \<Rightarrow> bool" where
  "nul_at e mem \<longleftrightarrow> e < length mem \<and> mem ! e = 0"

text \<open>
  The header's requirement on specifications is what the building operations guarantee: the
  buffers that can be built from an initialised one.
\<close>

inductive cis_reachable :: "cis_buf \<Rightarrow> bool" where
  buf_init: "cis_reachable pj_cis_buf_init"
| cis_init: "cis_reachable b \<Longrightarrow> pj_cis_init b = (status, cis_id, b') \<Longrightarrow> cis_reachable b'"
| dup: "cis_reachable b \<Longrightarrow> pj_cis_dup existing b = Some (status, cis_id, b') \<Longrightarrow> cis_reachable b'"
| add_range: "cis_reachable b \<Longrightarrow> 0 < cstart \<Longrightarrow> pj_cis_add_range cis_id cstart cend b = Some b' \<Longrightarrow>
    cis_reachable b'"
| add_alpha: "cis_reachable b \<Longrightarrow> pj_cis_add_alpha cis_id b = Some b' \<Longrightarrow> cis_reachable b'"
| add_num: "cis_reachable b \<Longrightarrow> pj_cis_add_num cis_id b = Some b' \<Longrightarrow> cis_reachable b'"
| add_str: "cis_reachable b \<Longrightarrow> 0 \<notin> set str \<Longrightarrow> pj_cis_add_str cis_id str b = Some b' \<Longrightarrow>
    cis_reachable b'"
| add_cis: "cis_reachable b \<Longrightarrow> pj_cis_add_cis cis_id rhs b = Some b' \<Longrightarrow> cis_reachable b'"
| del_range: "cis_reachable b \<Longrightarrow> pj_cis_del_range cis_id cstart cend b = Some b' \<Longrightarrow> cis_reachable b'"
| del_str: "cis_reachable b \<Longrightarrow> pj_cis_del_str cis_id str b = Some b' \<Longrightarrow> cis_reachable b'"
| invert: "cis_reachable b \<Longrightarrow> pj_cis_invert cis_id b = Some b' \<Longrightarrow> cis_reachable b'"

definition cis_buf_ok :: "cis_buf \<Rightarrow> bool" where
  "cis_buf_ok b \<longleftrightarrow> length (cb_buf b) = 256 \<and> cb_buf b ! 0 = 0"

section \<open>Specifications never match NUL\<close>

lemma cis_set_ok: "cis_buf_ok b \<Longrightarrow> PJ_CIS_SET cis_id c b = Some b' \<Longrightarrow> c \<noteq> 0 \<Longrightarrow> cis_buf_ok b'"
  by (auto simp: PJ_CIS_SET_def cis_buf_ok_def nth_list_update split: if_splits)

lemma cis_set_ok_nat:
  "cis_buf_ok b \<Longrightarrow> PJ_CIS_SET cis_id (int c) b = Some b' \<Longrightarrow> 0 < c \<Longrightarrow> cis_buf_ok b'"
  by (rule cis_set_ok) auto

lemma cis_set_ok_char:
  "cis_buf_ok b \<Longrightarrow> PJ_CIS_SET cis_id (sint c) b = Some b' \<Longrightarrow> c \<noteq> (0 :: u8) \<Longrightarrow> cis_buf_ok b'"
  by (rule cis_set_ok) (auto dest: arg_cong [where f = "of_int :: int \<Rightarrow> u8"])

lemma cis_clr_ok: "cis_buf_ok b \<Longrightarrow> PJ_CIS_CLR cis_id c b = Some b' \<Longrightarrow> cis_buf_ok b'"
  by (auto simp: PJ_CIS_CLR_def cis_buf_ok_def nth_list_update split: if_splits)

lemma cis_isset_0: "cis_buf_ok b \<Longrightarrow> \<not> PJ_CIS_ISSET b cis_id 0"
  by (simp add: cis_buf_ok_def PJ_CIS_ISSET_def)

lemma cis_add_range_ok:
  "cis_buf_ok b \<Longrightarrow> pj_cis_add_range cis_id cstart cend b = Some b' \<Longrightarrow> 0 < cstart \<Longrightarrow> cis_buf_ok b'"
proof (induction cis_id cstart cend b arbitrary: b' rule: pj_cis_add_range.induct)
  case (1 cis_id cstart cend b)
  from "1.prems" show ?case
    by (subst (asm) pj_cis_add_range.simps)
      (auto split: if_splits option.splits intro: "1.IH" dest: cis_set_ok_nat)
qed

lemma cis_del_range_ok:
  "cis_buf_ok b \<Longrightarrow> pj_cis_del_range cis_id cstart cend b = Some b' \<Longrightarrow> cis_buf_ok b'"
proof (induction cis_id cstart cend b arbitrary: b' rule: pj_cis_del_range.induct)
  case (1 cis_id cstart cend b)
  from "1.prems" show ?case
    by (subst (asm) pj_cis_del_range.simps)
      (auto split: if_splits option.splits intro: "1.IH" cis_clr_ok)
qed

lemma cis_add_str_ok:
  "cis_buf_ok b \<Longrightarrow> pj_cis_add_str cis_id str b = Some b' \<Longrightarrow> 0 \<notin> set str \<Longrightarrow> cis_buf_ok b'"
  by (induction cis_id str b arbitrary: b' rule: pj_cis_add_str.induct)
    (auto simp: bind_eq_Some_conv dest: cis_set_ok_char)

lemma cis_del_str_ok:
  "cis_buf_ok b \<Longrightarrow> pj_cis_del_str cis_id str b = Some b' \<Longrightarrow> cis_buf_ok b'"
  by (induction cis_id str b arbitrary: b' rule: pj_cis_del_str.induct)
    (auto simp: bind_eq_Some_conv dest: cis_clr_ok)

lemma cis_loops_ok:
  "cis_buf_ok b \<Longrightarrow> cis_add_loop cis_id rhs is b = Some b' \<Longrightarrow> cis_buf_ok b'"
  "cis_buf_ok b \<Longrightarrow> cis_dup_loop existing new_id is b = Some b' \<Longrightarrow> cis_buf_ok b'"
  "cis_buf_ok b \<Longrightarrow> 0 \<notin> set is \<Longrightarrow> cis_invert_loop cis_id is b = Some b' \<Longrightarrow> cis_buf_ok b'"
proof -
  have set: "cis_buf_ok b'" if "cis_buf_ok b" "PJ_CIS_ISSET b k i" "PJ_CIS_SET cis_id (int i) b = Some b'"
    for b b' k i cis_id
    using that cis_set_ok [of b cis_id "int i" b'] cis_isset_0 [of b k] by (cases "i = 0") auto
  show "cis_buf_ok b \<Longrightarrow> cis_add_loop cis_id rhs is b = Some b' \<Longrightarrow> cis_buf_ok b'"
    by (induction "is" arbitrary: b) (auto simp: bind_eq_Some_conv split: if_splits dest: set)
  show "cis_buf_ok b \<Longrightarrow> cis_dup_loop existing new_id is b = Some b' \<Longrightarrow> cis_buf_ok b'"
    by (induction "is" arbitrary: b) (auto simp: bind_eq_Some_conv split: if_splits dest: set cis_clr_ok)
  show "cis_buf_ok b \<Longrightarrow> 0 \<notin> set is \<Longrightarrow> cis_invert_loop cis_id is b = Some b' \<Longrightarrow> cis_buf_ok b'"
    by (induction "is" arbitrary: b) (auto simp: bind_eq_Some_conv split: if_splits dest: cis_set_ok cis_clr_ok)
qed

lemma cis_init_ok: "cis_buf_ok b \<Longrightarrow> pj_cis_init b = (status, cis_id, b') \<Longrightarrow> cis_buf_ok b'"
  by (auto simp: pj_cis_init_def cis_buf_ok_def split: option.splits)

lemma cis_reachable_ok: "cis_reachable b \<Longrightarrow> cis_buf_ok b"
proof (induction rule: cis_reachable.induct)
  case buf_init
  show ?case by (simp add: pj_cis_buf_init_def cis_buf_ok_def)
next
  case (dup b existing status cis_id b')
  then show ?case
    by (auto simp: pj_cis_dup_def split: prod.splits if_splits dest: cis_init_ok intro: cis_loops_ok(2))
next
  case (add_alpha b cis_id b')
  then obtain b1 where "pj_cis_add_range cis_id 97 (122 + 1) b = Some b1"
    and "pj_cis_add_range cis_id 65 (90 + 1) b1 = Some b'"
    by (auto simp: pj_cis_add_alpha_def bind_eq_Some_conv)
  with add_alpha show ?case
    using cis_add_range_ok [of b cis_id 97 "122 + 1" b1] cis_add_range_ok [of b1 cis_id 65 "90 + 1" b']
    by simp
qed (auto simp: pj_cis_add_num_def pj_cis_add_cis_def pj_cis_invert_def
    bind_eq_Some_conv intro: cis_init_ok cis_add_str_ok cis_del_range_ok cis_del_str_ok cis_loops_ok(1)
    elim: cis_loops_ok(3) [rotated 2] cis_add_range_ok [rotated])

text \<open>
  No character specification ever matches NUL: whatever is built from an initialised buffer
  by adding ranges that start above zero, adding and removing C strings, merging, copying and
  inverting specifications. This is the condition under which the scanner's unchecked loops stop.
\<close>

theorem cis_never_matches_nul:
  assumes "cis_reachable b"
  shows "\<not> pj_cis_match b cis_id 0"
  using cis_isset_0 [OF cis_reachable_ok [OF assms]] by (simp add: pj_cis_match_def)

theorem cis_never_matches_nul_witness:
  "\<exists>b. cis_reachable b \<and> pj_cis_match b 0 65 \<and> \<not> pj_cis_match b 0 0"
proof -
  let ?b = "pj_cis_buf_init\<lparr>cb_buf := (replicate 256 0)[65 := 1]\<rparr>"
  have "pj_cis_add_str 0 [65] pj_cis_buf_init = Some ?b"
    by (simp add: PJ_CIS_SET_def pj_cis_buf_init_def)
  then have r: "cis_reachable ?b"
    using cis_reachable.add_str [OF cis_reachable.buf_init, of "[65]" 0] by simp
  have "pj_cis_match ?b 0 65"
    by (simp add: pj_cis_match_def PJ_CIS_ISSET_def)
  with r cis_never_matches_nul [OF r, of 0] show ?thesis by blast
qed

subsection \<open>What the building operations do\<close>

text \<open>Membership after the operations the parsers use, for every specification of the buffer.\<close>

lemma isset_bit: "PJ_CIS_ISSET b k c \<longleftrightarrow> bit (cb_buf b ! c) k"
proof -
  have "(w AND push_bit k 1) \<noteq> 0 \<longleftrightarrow> bit w k" for w :: u32
  proof
    assume "(w AND push_bit k 1) \<noteq> 0"
    then obtain n where "bit (w AND push_bit k 1) n"
      by (metis bit_eq_iff bit_0_eq bot_apply bot_bool_def)
    then show "bit w k"
      by (auto simp: bit_and_iff bit_exp_iff)
  next
    assume w: "bit w k"
    then have "k < 32"
      using bit_imp_le_length [of w k] by simp
    with w have "bit (w AND push_bit k 1) k"
      by (simp add: bit_and_iff bit_exp_iff)
    then show "(w AND push_bit k 1) \<noteq> 0" by auto
  qed
  then show ?thesis by (simp add: PJ_CIS_ISSET_def)
qed

lemma cis_set_match:
  assumes "length (cb_buf b) = 256" "0 \<le> c" "c < 256" "cis_id < 32"
  obtains b' where "PJ_CIS_SET cis_id c b = Some b'" "length (cb_buf b') = 256"
    "cb_use_mask b' = cb_use_mask b"
    "\<And>k d. pj_cis_match b' k d \<longleftrightarrow> pj_cis_match b k d \<or> (k = cis_id \<and> unat d = nat c)"
proof
  let ?b = "b\<lparr>cb_buf := (cb_buf b)[nat c := (cb_buf b ! nat c) OR push_bit cis_id 1]\<rparr>"
  show "PJ_CIS_SET cis_id c b = Some ?b"
    using assms by (simp add: PJ_CIS_SET_def nat_less_iff)
  show "pj_cis_match ?b k d \<longleftrightarrow> pj_cis_match b k d \<or> (k = cis_id \<and> unat d = nat c)" for k d
    using assms
    by (auto simp: pj_cis_match_def isset_bit nth_list_update bit_or_iff bit_exp_iff)
qed (use assms in auto)

lemma cis_add_range_match:
  assumes "length (cb_buf b) = 256" "cstart \<le> cend" "cend \<le> 256" "cis_id < 32"
  shows "\<exists>b'. pj_cis_add_range cis_id cstart cend b = Some b' \<and> length (cb_buf b') = 256 \<and>
           cb_use_mask b' = cb_use_mask b \<and>
           (\<forall>k d. pj_cis_match b' k d \<longleftrightarrow>
              pj_cis_match b k d \<or> (k = cis_id \<and> cstart \<le> unat d \<and> unat d < cend))"
  using assms
proof (induction cis_id cstart cend b rule: pj_cis_add_range.induct)
  case (1 cis_id cstart cend b)
  show ?case
  proof (cases "cstart = cend")
    case True
    then show ?thesis using 1 by (subst pj_cis_add_range.simps) auto
  next
    case False
    obtain b1 where b1: "PJ_CIS_SET cis_id (int cstart) b = Some b1" "length (cb_buf b1) = 256"
      "cb_use_mask b1 = cb_use_mask b"
      and m1: "\<And>k d. pj_cis_match b1 k d \<longleftrightarrow> pj_cis_match b k d \<or> (k = cis_id \<and> unat d = cstart)"
      using cis_set_match [of b "int cstart" cis_id] 1 False by auto
    have "cstart < length (cb_buf b)"
      using 1 False by simp
    then have eq: "pj_cis_add_range cis_id cstart cend b = pj_cis_add_range cis_id (cstart + 1) cend b1"
      using False b1 by (subst pj_cis_add_range.simps) simp
    obtain b2 where b2: "pj_cis_add_range cis_id (cstart + 1) cend b1 = Some b2"
      "length (cb_buf b2) = 256" "cb_use_mask b2 = cb_use_mask b1"
      and m2: "\<And>k d. pj_cis_match b2 k d \<longleftrightarrow>
        pj_cis_match b1 k d \<or> (k = cis_id \<and> cstart + 1 \<le> unat d \<and> unat d < cend)"
      using 1(1) [OF False \<open>cstart < length (cb_buf b)\<close> b1(1) b1(2)] 1 False by auto
    have "pj_cis_match b2 k d \<longleftrightarrow>
        pj_cis_match b k d \<or> (k = cis_id \<and> cstart \<le> unat d \<and> unat d < cend)" for k d
      using False 1(3) unfolding m2 m1 by (cases "unat d = cstart") auto
    then show ?thesis
      using eq b1 b2 by auto
  qed
qed

lemma cis_add_str_match:
  assumes "length (cb_buf b) = 256" "cis_id < 32" "list_all (\<lambda>c. c < 128) str"
  shows "\<exists>b'. pj_cis_add_str cis_id str b = Some b' \<and> length (cb_buf b') = 256 \<and>
           cb_use_mask b' = cb_use_mask b \<and>
           (\<forall>k d. pj_cis_match b' k d \<longleftrightarrow> pj_cis_match b k d \<or> (k = cis_id \<and> d \<in> set str))"
  using assms
proof (induction str arbitrary: b)
  case (Cons c str)
  have u: "unat c < 128"
    using Cons.prems by (simp add: word_less_nat_alt)
  then have u': "uint c < 128"
    unfolding uint_nat by linarith
  have "- 128 \<le> uint c"
    using uint_ge_0 [of c] by linarith
  with u' have "signed_take_bit 7 (uint c) = uint c"
    by (intro signed_take_bit_int_eq_self) simp_all
  then have c: "sint c = int (unat c)"
    by (simp add: sint_uint)
  obtain b1 where b1: "PJ_CIS_SET cis_id (sint c) b = Some b1" "length (cb_buf b1) = 256"
    "cb_use_mask b1 = cb_use_mask b"
    and m1: "\<And>k d. pj_cis_match b1 k d \<longleftrightarrow> pj_cis_match b k d \<or> (k = cis_id \<and> unat d = unat c)"
    using cis_set_match [of b "sint c" cis_id] Cons.prems c u' by auto
  from Cons.IH [OF b1(2)] Cons.prems obtain b2 where "pj_cis_add_str cis_id str b1 = Some b2"
    "length (cb_buf b2) = 256" "cb_use_mask b2 = cb_use_mask b1"
    "\<And>k d. pj_cis_match b2 k d \<longleftrightarrow> pj_cis_match b1 k d \<or> (k = cis_id \<and> d \<in> set str)"
    by auto
  with b1 m1 show ?case by (auto simp: word_unat_eq_iff)
qed simp

section \<open>The scanner stays in its buffer\<close>

lemma scan_safe_simps [simp]:
  "scan_safe Q (Ok x) \<longleftrightarrow> Q x" "scan_safe Q Syntax_Err" "\<not> scan_safe Q Overrun"
  by (simp_all add: scan_safe_def)

lemma scan_safe_bind:
  "scan_safe P m \<Longrightarrow> (\<And>x. m = Ok x \<Longrightarrow> P x \<Longrightarrow> scan_safe Q (f x)) \<Longrightarrow> scan_safe Q (scan_bind m f)"
  by (cases m) auto

lemma scan_safe_mono: "scan_safe P m \<Longrightarrow> (\<And>x. P x \<Longrightarrow> Q x) \<Longrightarrow> scan_safe Q m"
  by (cases m) auto

lemma scan_safe_rd: "i < length mem \<Longrightarrow> scan_safe Q (f (mem ! i)) \<Longrightarrow> scan_safe Q (scan_bind (rd mem i) f)"
  by (simp add: rd_def)

lemma range_step:
  "Q s \<Longrightarrow> \<forall>i. Suc s \<le> i \<and> i < n \<longrightarrow> Q i \<Longrightarrow> s \<le> i \<Longrightarrow> i < n \<Longrightarrow> Q i"
  by (cases "i = s") auto

lemma while_loop_safe:
  assumes "nul_at e mem" "\<not> P 0" "s \<le> e"
  shows "scan_safe (\<lambda>s'. s \<le> s' \<and> s' \<le> e \<and> \<not> P (mem ! s') \<and> (\<forall>i. s \<le> i \<and> i < s' \<longrightarrow> P (mem ! i)))
           (while_loop P mem s)"
  using assms
proof (induction P mem s rule: while_loop.induct)
  case (1 P mem s)
  show ?case
  proof (cases "P (mem ! s)")
    case True
    with 1 have "s < e" by (auto simp: nul_at_def le_less)
    then have "scan_safe (\<lambda>s'. s + 1 \<le> s' \<and> s' \<le> e \<and> \<not> P (mem ! s')
                 \<and> (\<forall>i. s + 1 \<le> i \<and> i < s' \<longrightarrow> P (mem ! i))) (while_loop P mem (s + 1))"
      using 1 True by (auto simp: nul_at_def)
    moreover have "while_loop P mem s = while_loop P mem (s + 1)"
      using 1 True by (subst while_loop.simps) (auto simp: nul_at_def)
    ultimately show ?thesis
      using True by (auto elim!: scan_safe_mono intro: range_step [where Q = "\<lambda>i. P (mem ! i)"])
  next
    case False
    with 1 show ?thesis by (subst while_loop.simps) (auto simp: nul_at_def)
  qed
qed

lemma while_not_eof_safe:
  assumes "nul_at e mem" "s \<le> e"
  shows "scan_safe (\<lambda>s'. s \<le> s' \<and> s' \<le> e \<and> (s' = e \<or> \<not> P (mem ! s')) \<and>
                         (\<forall>i. s \<le> i \<and> i < s' \<longrightarrow> P (mem ! i))) (while_not_eof P e mem s)"
  using assms
proof (induction P e mem s rule: while_not_eof.induct)
  case (1 P e mem s)
  show ?case
  proof (cases "s \<noteq> e \<and> P (mem ! s)")
    case True
    with 1 have "s + 1 \<le> e" by auto
    then have "scan_safe (\<lambda>s'. s + 1 \<le> s' \<and> s' \<le> e \<and> (s' = e \<or> \<not> P (mem ! s')) \<and>
                 (\<forall>i. s + 1 \<le> i \<and> i < s' \<longrightarrow> P (mem ! i))) (while_not_eof P e mem (s + 1))"
      using 1 True by (auto simp: nul_at_def)
    moreover have "while_not_eof P e mem s = while_not_eof P e mem (s + 1)"
      using 1 True by (subst while_not_eof.simps) (auto simp: nul_at_def)
    ultimately show ?thesis
      using True by (auto elim!: scan_safe_mono intro: range_step [where Q = "\<lambda>i. P (mem ! i)"])
  next
    case False
    with 1 show ?thesis by (subst while_not_eof.simps) (auto simp: nul_at_def)
  qed
qed


text \<open>A position the scanner may move to: the state with that pointer is a legal successor.\<close>

lemma scanner_ok_nul: "scanner_ok sc \<Longrightarrow> nul_at (sc_end sc) (sc_mem sc)"
  by (simp add: scanner_ok_def nul_at_def)

lemma nul_at_less: "nul_at e mem \<Longrightarrow> s \<le> e \<Longrightarrow> mem ! s \<noteq> 0 \<Longrightarrow> s < e"
  by (cases "s = e") (auto simp: nul_at_def)

lemma space_not_nul [simp]: "\<not> PJ_SCAN_IS_SPACE 0" "\<not> PJ_SCAN_IS_NEWLINE 0"
  by (simp_all add: PJ_SCAN_IS_SPACE_def PJ_SCAN_IS_NEWLINE_def)

lemma advanced_refl [simp]: "advanced sc sc"
  by (simp add: advanced_def)

lemma advanced_trans: "advanced a b \<Longrightarrow> advanced b c \<Longrightarrow> advanced a c"
  by (simp add: advanced_def)

lemma newline_loop_safe:
  assumes "scanner_ok sc" "mem = sc_mem sc" "sc_cur sc \<le> s" "s \<le> sc_end sc"
  shows "scan_safe (\<lambda>(sc', s'). scanner_ok sc' \<and> advanced sc sc' \<and> sc_cur sc' \<le> s' \<and> s' \<le> sc_end sc)
           (newline_loop mem sc s)"
  using assms
proof (induction mem sc s rule: newline_loop.induct)
  case (1 mem sc s)
  note IH = "1.IH" and prems = "1.prems"
  have nul: "nul_at (sc_end sc) mem"
    using scanner_ok_nul [OF prems(1)] prems(2) by simp
  have s: "s < length mem"
    using prems by (auto simp: scanner_ok_def)
  let ?Q = "\<lambda>sc0 (sc', s'). scanner_ok sc' \<and> advanced sc0 sc' \<and> sc_cur sc' \<le> s' \<and> s' \<le> sc_end sc"
  let ?at = "\<lambda>t. sc\<lparr>sc_line := sc_line sc + 1, sc_cur := t, sc_start_line := t\<rparr>"
  have at: "scanner_ok (?at t)" "advanced sc (?at t)" if "s < t" "t \<le> sc_end sc" for t
    using that prems by (auto simp: scanner_ok_def advanced_def)
  have mono: "scan_safe (?Q sc) r" if "scan_safe (?Q sc0) r" "advanced sc sc0" for r sc0
    using that by (auto elim!: scan_safe_mono intro: advanced_trans)
  have lt: "s < sc_end sc" if "mem ! s \<noteq> 0"
    using nul_at_less [OF nul] that prems by auto
  consider (cr) "mem ! s = 13" | (lf) "mem ! s = 10" | (sp) "PJ_SCAN_IS_SPACE (mem ! s)"
    | (other) "mem ! s \<noteq> 13" "mem ! s \<noteq> 10" "\<not> PJ_SCAN_IS_SPACE (mem ! s)" by blast
  then show ?case
  proof cases
    case cr
    let ?t = "if mem ! (s + 1) = 10 then s + 2 else s + 1"
    have "s < sc_end sc" "s + 1 < length mem"
      using cr lt nul prems by (auto simp: nul_at_def)
    then have t: "s < ?t" "?t \<le> sc_end sc"
      using nul_at_less [OF nul, of "s + 1"] prems by auto
    have "scan_safe (?Q (?at ?t)) (newline_loop mem (?at ?t) ?t)"
      using IH(1) [OF s cr \<open>s + 1 < length mem\<close> refl at(1) [OF t]] t prems(2) by simp
    then show ?thesis
      using mono at(2) [OF t] s cr \<open>s + 1 < length mem\<close> by (subst newline_loop.simps) (simp add: Let_def)
  next
    case lf
    have t: "s < s + 1" "s + 1 \<le> sc_end sc"
      using lf lt by auto
    have "scan_safe (?Q (?at (s + 1))) (newline_loop mem (?at (s + 1)) (s + 1))"
      using IH(2) [OF s _ lf at(1) [OF t]] lf t prems(2) by simp
    then show ?thesis
      using mono at(2) [OF t] s lf by (subst newline_loop.simps) simp
  next
    case sp
    then have nz: "mem ! s \<noteq> 13" "mem ! s \<noteq> 10" "mem ! s \<noteq> 0"
      by (auto simp: PJ_SCAN_IS_SPACE_def)
    have "scan_safe (\<lambda>t. s + 1 \<le> t \<and> t \<le> sc_end sc) (while_loop PJ_SCAN_IS_SPACE mem (s + 1))"
      using lt [OF nz(3)] by (auto intro: scan_safe_mono [OF while_loop_safe [OF nul]])
    then show ?thesis
      using IH(3) [OF s nz(1) nz(2) sp] prems s nz sp
      by (subst newline_loop.simps) (auto split: scan.splits)
  next
    case other
    then show ?thesis
      using s prems by (subst newline_loop.simps) simp
  qed
qed

lemma header_continuation_safe:
  assumes "scanner_ok sc" "sc_cur sc \<le> s" "s \<le> sc_end sc"
  shows "scan_safe (\<lambda>sc'. scanner_ok sc' \<and> advanced sc sc') (header_continuation sc s)"
proof -
  define mem where "mem = sc_mem sc"
  have nul: "nul_at (sc_end sc) mem"
    using scanner_ok_nul [OF assms(1)] by (simp add: mem_def)
  define s1 where "s1 = (if mem ! s = 13 then s + 1 else s)"
  define s2 where "s2 = (if mem ! s1 = 10 then s1 + 1 else s1)"
  have s1: "s \<le> s1" "s1 \<le> sc_end sc"
    using nul_at_less [OF nul, of s] assms by (auto simp: s1_def)
  have s2: "s1 \<le> s2" "s2 \<le> sc_end sc"
    using nul_at_less [OF nul, of s1] s1 by (auto simp: s2_def)
  have in_mem: "t < length mem" if "t \<le> sc_end sc" for t
    using nul that by (auto simp: nul_at_def)
  have sp: "scan_safe (\<lambda>t. s2 + 1 \<le> t \<and> t \<le> sc_end sc) (while_loop PJ_SCAN_IS_SPACE mem (s2 + 1))"
    if "PJ_SCAN_IS_SPACE (mem ! s2)"
    using that nul_at_less [OF nul, of s2] s2
    by (auto intro!: scan_safe_mono [OF while_loop_safe [OF nul]] simp: PJ_SCAN_IS_SPACE_def)
  have rd: "rd mem s = Ok (mem ! s)" "rd mem s1 = Ok (mem ! s1)" "rd mem s2 = Ok (mem ! s2)"
    using in_mem [OF assms(3)] in_mem [OF s1(2)] in_mem [OF s2(2)] by (simp_all add: rd_def)
  have eq: "header_continuation sc s =
      (if PJ_SCAN_IS_SPACE (mem ! s2) then
         scan_bind (while_loop PJ_SCAN_IS_SPACE mem (s2 + 1)) (\<lambda>t.
           Ok (sc\<lparr>sc_start_line := s2, sc_line := sc_line sc + 1, sc_cur := t\<rparr>))
       else Ok (sc\<lparr>sc_cur := s, sc_start_line := s2\<rparr>))"
    by (simp only: header_continuation_def Let_def mem_def [symmetric] rd scan_bind.simps
        s1_def [symmetric] s2_def [symmetric]) simp
  have ok: "scanner_ok (sc\<lparr>sc_start_line := s2, sc_line := l, sc_cur := t\<rparr>) \<and>
            advanced sc (sc\<lparr>sc_start_line := s2, sc_line := l, sc_cur := t\<rparr>)"
    if "s \<le> t" "t \<le> sc_end sc" "sc_line sc \<le> l" for t l
    using assms s2 that by (simp add: scanner_ok_def advanced_def)
  show ?thesis
  proof (cases "PJ_SCAN_IS_SPACE (mem ! s2)")
    case True
    have "s \<le> t" if "s2 + 1 \<le> t" for t
      using that s1 s2 by simp
    then show ?thesis
      unfolding eq if_P [OF True] by (intro scan_safe_bind [OF sp [OF True]]) (simp add: ok)
  next
    case False
    then show ?thesis
      unfolding eq using assms s2 by (simp add: scanner_ok_def advanced_def)
  qed
qed

lemma skip_whitespace_safe:
  assumes "scanner_ok sc"
  shows "scan_safe (\<lambda>sc'. scanner_ok sc' \<and> advanced sc sc') (pj_scan_skip_whitespace sc)"
proof -
  note nul = scanner_ok_nul [OF assms]
  have cur: "sc_cur sc \<le> sc_end sc"
    using assms by (simp add: scanner_ok_def)
  have in_mem: "t < length (sc_mem sc)" if "t \<le> sc_end sc" for t
    using nul that by (auto simp: nul_at_def)
  have step: "scan_safe (\<lambda>(sc', s'). scanner_ok sc' \<and> advanced sc sc' \<and> sc_cur sc' \<le> s' \<and> s' \<le> sc_end sc)
      (if b then newline_loop (sc_mem sc) sc s else Ok (sc, s))"
    if "sc_cur sc \<le> s" "s \<le> sc_end sc" for b s
    using newline_loop_safe [OF assms refl] that assms by auto
  have fin: "scan_safe (\<lambda>sc'. scanner_ok sc' \<and> advanced sc sc')
      (if b then header_continuation sc1 s else Ok (sc1\<lparr>sc_cur := s\<rparr>))"
    if "scanner_ok sc1" "advanced sc sc1" "sc_cur sc1 \<le> s" "s \<le> sc_end sc" for b sc1 s
  proof -
    have "sc_end sc1 = sc_end sc"
      using that by (simp add: advanced_def)
    moreover have "advanced sc1 (sc1\<lparr>sc_cur := s\<rparr>)"
      using that by (simp add: advanced_def)
    ultimately show ?thesis
      using header_continuation_safe [of sc1 s] that
      by (auto elim!: scan_safe_mono intro: advanced_trans simp: scanner_ok_def)
  qed
  have tail: "scan_safe (\<lambda>sc'. scanner_ok sc' \<and> advanced sc sc')
      (scan_bind (if b then newline_loop (sc_mem sc) sc s else Ok (sc, s)) (\<lambda>(sc1, s1).
         scan_bind (rd (sc_mem sc) s1) (\<lambda>c1.
           if PJ_SCAN_IS_NEWLINE c1 \<and> d then header_continuation sc1 s1
           else Ok (sc1\<lparr>sc_cur := s1\<rparr>))))"
    if "sc_cur sc \<le> s" "s \<le> sc_end sc" for b d s
    by (rule scan_safe_bind [OF step [OF that]]) (auto intro!: scan_safe_rd in_mem fin simp del: if_split)
  show ?thesis
    unfolding pj_scan_skip_whitespace_def Let_def
    by (rule scan_safe_bind [OF while_loop_safe [OF nul _ cur]]) (auto intro!: scan_safe_rd in_mem tail)
qed

lemma auto_skip_safe:
  assumes "scanner_ok sc"
  shows "scan_safe (\<lambda>sc'. scanner_ok sc' \<and> advanced sc sc') (auto_skip b sc)"
  using skip_whitespace_safe [OF assms] assms
  by (auto simp: auto_skip_def rd_def scanner_ok_def)


text \<open>The pointer may go to any place between where it is and the end of the buffer.\<close>

lemma move_safe:
  assumes "scanner_ok sc" "sc_cur sc \<le> s" "s \<le> sc_end sc"
  shows "scan_safe (\<lambda>sc'. scanner_ok sc' \<and> advanced sc sc') (auto_skip b (sc\<lparr>sc_cur := s\<rparr>))"
proof -
  have "scanner_ok (sc\<lparr>sc_cur := s\<rparr>)" and "advanced sc (sc\<lparr>sc_cur := s\<rparr>)"
    using assms by (auto simp: scanner_ok_def advanced_def)
  then show ?thesis
    by (intro scan_safe_mono [OF auto_skip_safe]) (auto intro: advanced_trans)
qed

lemma take_token_safe:
  assumes "scanner_ok sc" "sc_cur sc \<le> s" "s \<le> sc_end sc"
  shows "scan_safe (\<lambda>(out, sc'). scanner_ok sc' \<and> advanced sc sc') (take_token sc s)"
  unfolding take_token_def by (rule scan_safe_bind [OF move_safe [OF assms]]) simp

lemma count_back_Ok: "r < length mem \<Longrightarrow> \<exists>r'. count_back mem r = Ok r'"
  by (induction mem r rule: count_back.induct) auto

lemma quote_loop_safe:
  assumes "nul_at e mem" "eq \<noteq> 0" "s \<le> e" "0 < s" "s = 1 \<longrightarrow> mem ! 0 \<noteq> 92"
  shows "scan_safe (\<lambda>s'. s \<le> s' \<and> s' \<le> e) (quote_loop eq e mem s)"
  using assms
proof (induction eq e mem s rule: quote_loop.induct)
  case (1 eq e mem s)
  let ?w = "while_not_eof (\<lambda>c. c \<noteq> 10 \<and> c \<noteq> eq) e mem s"
  have w: "scan_safe (\<lambda>t. s \<le> t \<and> t \<le> e) ?w"
    by (rule scan_safe_mono [OF while_not_eof_safe [OF 1(2) 1(4)]]) blast
  show ?case
  proof (cases ?w)
    case (Ok t)
    with w have t: "s \<le> t" "t \<le> e" "t < length mem" "t \<noteq> 0"
      using 1 by (auto simp: nul_at_def)
    consider (stop) "mem ! t \<noteq> eq \<or> mem ! (t - 1) \<noteq> 92" | (escaped) "mem ! t = eq" "mem ! (t - 1) = 92"
      by blast
    then show ?thesis
    proof cases
      case stop
      with t Ok show ?thesis by (subst quote_loop.simps) auto
    next
      case escaped
      have t1: "t \<noteq> 1" and te: "t < e"
        using t escaped 1 by (auto simp: nul_at_def le_less)
      have "t - 2 < length mem"
        using t by simp
      then obtain r where r: "count_back mem (t - 2) = scan.Ok r"
        using count_back_Ok by blast
      have "scan_safe (\<lambda>s'. t + 1 \<le> s' \<and> s' \<le> e) (quote_loop eq e mem (t + 1))"
        if "(t - 2 - r) mod 2 \<noteq> 1"
        using 1(1) [OF Ok t(3) escaped(1) t(4) escaped(2) t1 r that 1(2,3)] te t(4) by simp
      then have "scan_safe (\<lambda>s'. s \<le> s' \<and> s' \<le> e) (quote_loop eq e mem (t + 1))"
        if "(t - 2 - r) mod 2 \<noteq> 1"
        using scan_safe_mono [where Q = "\<lambda>s'. s \<le> s' \<and> s' \<le> e"] that t(1) by fastforce
      then show ?thesis
        using t t1 escaped r Ok by (subst quote_loop.simps) (simp only: scan.case if_True if_False simp_thms split: if_split, simp)
    qed
  qed (use w in \<open>auto simp: quote_loop.simps\<close>)
qed

lemma find_quote_nth: "find_quote bs c = Some i \<Longrightarrow> i < length bs \<and> bs ! i = c"
  by (induction bs arbitrary: i) (auto split: if_splits)

lemma get_quotes_safe:
  assumes "scanner_ok sc" "length bq = length eq" "0 \<notin> set bq" "92 \<notin> set bq" "0 \<notin> set eq"
  shows "scan_safe (\<lambda>(out, sc'). scanner_ok sc' \<and> advanced sc sc') (pj_scan_get_quotes sc bq eq)"
proof -
  note nul = scanner_ok_nul [OF assms(1)]
  have cur: "sc_cur sc < length (sc_mem sc)"
    using assms(1) by (simp add: scanner_ok_def)
  have in_mem: "t < length (sc_mem sc)" if "t \<le> sc_end sc" for t
    using nul that by (auto simp: nul_at_def)
  show ?thesis
  proof (cases "find_quote bq (sc_mem sc ! sc_cur sc)")
    case None
    with cur show ?thesis by (simp add: pj_scan_get_quotes_def rd_def)
  next
    case (Some q)
    then have q: "q < length bq" "bq ! q = sc_mem sc ! sc_cur sc"
      using find_quote_nth by blast+
    have nz: "sc_mem sc ! sc_cur sc \<noteq> 0" "sc_mem sc ! sc_cur sc \<noteq> 92" "eq ! q \<noteq> 0"
      using q assms nth_mem by (metis, metis, metis)
    have lt: "sc_cur sc < sc_end sc"
      using nul_at_less [OF nul _ nz(1)] assms(1) by (simp add: scanner_ok_def)
    have "scan_safe (\<lambda>(out, sc'). scanner_ok sc' \<and> advanced sc sc')
        (scan_bind (quote_loop (eq ! q) (sc_end sc) (sc_mem sc) (sc_cur sc + 1)) (\<lambda>s.
         scan_bind (rd (sc_mem sc) s) (\<lambda>c1.
           if c1 \<noteq> eq ! q then Syntax_Err else take_token sc (s + 1))))"
    proof (rule scan_safe_bind [OF quote_loop_safe [OF nul nz(3)]])
      fix s assume s: "sc_cur sc + 1 \<le> s \<and> s \<le> sc_end sc"
      have "s < sc_end sc" if "sc_mem sc ! s = eq ! q"
        using nul_at_less [OF nul, of s] s nz(3) that by simp
      then show "scan_safe (\<lambda>(out, sc'). scanner_ok sc' \<and> advanced sc sc')
          (scan_bind (rd (sc_mem sc) s) (\<lambda>c1. if c1 \<noteq> eq ! q then Syntax_Err else take_token sc (s + 1)))"
        using s by (auto intro!: scan_safe_rd in_mem take_token_safe [OF assms(1)])
    qed (use lt nz in auto)
    with Some cur show ?thesis by (simp add: pj_scan_get_quotes_def rd_def Let_def)
  qed
qed

lemma get_safe:
  assumes "scanner_ok sc" "\<not> spec 0"
  shows "scan_safe (\<lambda>(out, sc'). scanner_ok sc' \<and> advanced sc sc') (pj_scan_get sc spec)"
proof -
  note nul = scanner_ok_nul [OF assms(1)]
  have cur: "sc_cur sc \<le> sc_end sc" "sc_cur sc < length (sc_mem sc)"
    using assms(1) by (auto simp: scanner_ok_def)
  show ?thesis
  proof (cases "spec (sc_mem sc ! sc_cur sc)")
    case True
    then have "sc_cur sc + 1 \<le> sc_end sc"
      using nul_at_less [OF nul cur(1)] assms(2) by fastforce
    then have "scan_safe (\<lambda>(out, sc'). scanner_ok sc' \<and> advanced sc sc')
        (scan_bind (while_loop spec (sc_mem sc) (sc_cur sc + 1)) (take_token sc))"
      by (intro scan_safe_bind [OF while_loop_safe [where P = spec, OF nul assms(2)]])
        (auto intro: take_token_safe [OF assms(1)])
    with True cur show ?thesis by (simp add: pj_scan_get_def rd_def)
  qed (use cur in \<open>simp add: pj_scan_get_def rd_def\<close>)
qed

text \<open>The three operations that read up to a delimiter.\<close>

lemma until_safe:
  assumes "scanner_ok sc"
  shows "scan_safe (\<lambda>(out, sc'). scanner_ok sc' \<and> advanced sc sc')
           (scan_bind (while_not_eof P (sc_end sc) (sc_mem sc) (sc_cur sc)) (take_token sc))"
proof (rule scan_safe_bind [OF while_not_eof_safe [OF scanner_ok_nul [OF assms]]])
  show "sc_cur sc \<le> sc_end sc"
    using assms by (simp add: scanner_ok_def)
qed (auto intro: take_token_safe [OF assms])

lemma peek_safe:
  assumes "scanner_ok sc"
  shows "\<not> spec 0 \<Longrightarrow> scan_safe (\<lambda>_. True) (pj_scan_peek sc spec)"
    and "scan_safe (\<lambda>_. True) (pj_scan_peek_n sc n)"
    and "scan_safe (\<lambda>_. True) (pj_scan_peek_until sc spec)"
proof -
  note nul = scanner_ok_nul [OF assms]
  have in_mem: "t < length (sc_mem sc)" if "t \<le> sc_end sc" for t
    using nul that by (auto simp: nul_at_def)
  have cur: "sc_cur sc \<le> sc_end sc"
    using assms by (simp add: scanner_ok_def)
  show "scan_safe (\<lambda>_. True) (pj_scan_peek sc spec)" if "\<not> spec 0"
    using cur that unfolding pj_scan_peek_def
    by (auto intro!: scan_safe_bind [OF while_loop_safe [OF nul]] scan_safe_rd in_mem)
  show "scan_safe (\<lambda>_. True) (pj_scan_peek_n sc n)"
    unfolding pj_scan_peek_n_def by (auto intro!: scan_safe_rd in_mem)
  show "scan_safe (\<lambda>_. True) (pj_scan_peek_until sc spec)"
    using cur unfolding pj_scan_peek_until_def
    by (auto intro!: scan_safe_bind [OF while_not_eof_safe [OF nul]] scan_safe_rd in_mem)
qed


lemma simple_ops_safe:
  assumes "scanner_ok sc"
  shows "scan_safe (\<lambda>sc'. scanner_ok sc' \<and> advanced sc sc') (pj_scan_skip_line sc)"
    and "scan_safe (\<lambda>sc'. scanner_ok sc' \<and> advanced sc sc') (pj_scan_get_newline sc)"
    and "scan_safe (\<lambda>(c, sc'). scanner_ok sc' \<and> advanced sc sc') (pj_scan_get_char sc)"
    and "scan_safe (\<lambda>sc'. scanner_ok sc' \<and> advanced sc sc') (pj_scan_advance_n sc n b)"
    and "scan_safe (\<lambda>(out, sc'). scanner_ok sc' \<and> advanced sc sc') (pj_scan_get_n sc n)"
proof -
  note nul = scanner_ok_nul [OF assms]
  have in_mem: "t < length (sc_mem sc)" if "t \<le> sc_end sc" for t
    using nul that by (auto simp: nul_at_def)
  have cur: "sc_cur sc \<le> sc_end sc"
    using assms by (simp add: scanner_ok_def)
  have lt: "s + 1 \<le> sc_end sc" if "s \<le> sc_end sc" "sc_mem sc ! s \<noteq> 0" for s
    using nul_at_less [OF nul that] by simp
  have at: "scanner_ok (sc\<lparr>sc_cur := s, sc_start_line := s, sc_line := l\<rparr>) \<and>
            advanced sc (sc\<lparr>sc_cur := s, sc_start_line := s, sc_line := l\<rparr>)"
    if "sc_cur sc \<le> s" "s \<le> sc_end sc" "sc_line sc \<le> l" for s l
    using assms that by (simp add: scanner_ok_def advanced_def)
  show "scan_safe (\<lambda>sc'. scanner_ok sc' \<and> advanced sc sc') (pj_scan_skip_line sc)"
    unfolding pj_scan_skip_line_def
  proof (rule scan_safe_bind [OF while_loop_safe [OF nul _ cur]])
    fix s assume "sc_cur sc \<le> s \<and> s \<le> sc_end sc \<and> \<not> (sc_mem sc ! s \<noteq> 10 \<and> sc_mem sc ! s \<noteq> 0)
      \<and> (\<forall>i. sc_cur sc \<le> i \<and> i < s \<longrightarrow> sc_mem sc ! i \<noteq> 10 \<and> sc_mem sc ! i \<noteq> 0)"
    then show "scan_safe (\<lambda>sc'. scanner_ok sc' \<and> advanced sc sc')
        (scan_bind (rd (sc_mem sc) s) (\<lambda>c. Ok (if c \<noteq> 10 then sc\<lparr>sc_cur := sc_end sc\<rparr>
           else sc\<lparr>sc_cur := s + 1, sc_start_line := s + 1, sc_line := sc_line sc + 1\<rparr>)))"
      using lt [of s] in_mem [of s] assms by (auto simp: rd_def scanner_ok_def advanced_def)
  qed simp
  define s1 where "s1 = (if sc_mem sc ! sc_cur sc = 13 then sc_cur sc + 1 else sc_cur sc)"
  define s2 where "s2 = (if sc_mem sc ! s1 = 10 then s1 + 1 else s1)"
  have s1: "sc_cur sc \<le> s1" "s1 \<le> sc_end sc"
    using lt [OF cur] cur by (auto simp: s1_def)
  have s2: "s1 \<le> s2" "s2 \<le> sc_end sc"
    using lt [OF s1(2)] s1(2) by (auto simp: s2_def)
  have "rd (sc_mem sc) (sc_cur sc) = Ok (sc_mem sc ! sc_cur sc)" "rd (sc_mem sc) s1 = Ok (sc_mem sc ! s1)"
    using in_mem [OF cur] in_mem [OF s1(2)] by (simp_all add: rd_def)
  then have eq: "pj_scan_get_newline sc =
      (if \<not> PJ_SCAN_IS_NEWLINE (sc_mem sc ! sc_cur sc) then Syntax_Err
       else Ok (sc\<lparr>sc_cur := s2, sc_line := sc_line sc + 1, sc_start_line := s2\<rparr>))"
    by (simp only: pj_scan_get_newline_def Let_def scan_bind.simps s1_def [symmetric] s2_def [symmetric])
  show "scan_safe (\<lambda>sc'. scanner_ok sc' \<and> advanced sc sc') (pj_scan_get_newline sc)"
    unfolding eq using s1 s2 assms by (simp add: scanner_ok_def advanced_def)
  show "scan_safe (\<lambda>(c, sc'). scanner_ok sc' \<and> advanced sc sc') (pj_scan_get_char sc)"
    unfolding pj_scan_get_char_def using lt [OF cur]
    by (auto intro!: scan_safe_rd in_mem cur scan_safe_bind [OF move_safe [OF assms]])
  show "scan_safe (\<lambda>sc'. scanner_ok sc' \<and> advanced sc sc') (pj_scan_advance_n sc n b)"
    unfolding pj_scan_advance_n_def using move_safe [OF assms] by simp
  show "scan_safe (\<lambda>(out, sc'). scanner_ok sc' \<and> advanced sc sc') (pj_scan_get_n sc n)"
    unfolding pj_scan_get_n_def using take_token_safe [OF assms] by simp
qed

lemma drop_out_safe:
  "scan_safe (\<lambda>(out, sc'). P sc') r \<Longrightarrow> scan_safe P (drop_out r)"
  by (cases r) (auto simp: drop_out_def)

lemma discard_safe: "scan_safe (\<lambda>_. True) r \<Longrightarrow> P sc \<Longrightarrow> scan_safe P (scan_bind r (\<lambda>_. Ok sc))"
  by (cases r) auto

lemma scan_exec_safe:
  assumes "scanner_ok sc" "op_ok op"
  shows "scan_safe (\<lambda>sc'. scanner_ok sc' \<and> advanced sc sc') (scan_exec op sc)"
  using assms
  by (cases op)
    (auto intro!: drop_out_safe discard_safe skip_whitespace_safe simple_ops_safe peek_safe get_safe
      get_quotes_safe until_safe
      simp: pj_scan_get_until_def pj_scan_get_until_ch_def pj_scan_get_until_chr_def)

lemma scan_run_ok:
  assumes "scanner_ok sc" "list_all op_ok ops"
  shows "scan_safe (\<lambda>sc'. scanner_ok sc' \<and> advanced sc sc') (scan_run ops sc)"
  using assms
proof (induction ops arbitrary: sc)
  case (Cons op ops)
  show ?case
    unfolding scan_run.simps
  proof (rule scan_safe_bind [OF scan_exec_safe])
    fix sc1 assume "scanner_ok sc1 \<and> advanced sc sc1"
    with Cons show "scan_safe (\<lambda>sc'. scanner_ok sc' \<and> advanced sc sc') (scan_run ops sc1)"
      by (intro scan_safe_mono [OF Cons.IH]) (auto intro: advanced_trans)
  qed (use Cons.prems in simp_all)
qed simp

lemma init_ok:
  assumes "buflen < length mem" "mem ! buflen = 0"
  shows "scan_safe (\<lambda>sc. scanner_ok sc \<and> sc_mem sc = mem \<and> sc_end sc = buflen) (pj_scan_init mem buflen options)"
proof -
  let ?sc = "\<lparr>sc_mem = mem, sc_end = buflen, sc_cur = 0, sc_line = 1, sc_start_line = 0, sc_skip_ws = options\<rparr>"
  have "scanner_ok ?sc"
    using assms by (simp add: scanner_ok_def)
  then show ?thesis
    using skip_whitespace_safe [of ?sc]
    by (auto simp: pj_scan_init_def Let_def scanner_ok_def advanced_def elim!: scan_safe_mono)
qed



section \<open>Tokens\<close>

text \<open>
  \<^verbatim>\<open>pj_scan_get\<close> returns the longest non-empty prefix of the remaining input whose characters
  the specification matches, and fails exactly when there is none.
\<close>

lemma while_loop_takeWhile:
  assumes "while_loop P mem s = Ok s'"
  shows "take (s' - s) (drop s mem) = takeWhile P (drop s mem)"
  using assms
proof (induction P mem s rule: while_loop.induct)
  case (1 P mem s)
  then have s: "s < length mem"
    by (subst (asm) while_loop.simps) (auto split: if_splits)
  then have d: "drop s mem = mem ! s # drop (Suc s) mem"
    by (simp add: Cons_nth_drop_Suc)
  show ?case
  proof (cases "P (mem ! s)")
    case True
    then have r: "while_loop P mem (s + 1) = Ok s'"
      using "1.prems" s by (subst (asm) while_loop.simps) simp
    have "s' - s = Suc (s' - (s + 1))"
      using while_loop_ge [OF r] by simp
    with 1(1) [OF s True r] True show ?thesis by (simp add: d)
  next
    case False
    then have "s' = s"
      using "1.prems" s by (subst (asm) while_loop.simps) simp
    with False show ?thesis by (simp add: d)
  qed
qed

lemma while_loop_no_err: "while_loop P mem s \<noteq> Syntax_Err"
  by (induction P mem s rule: while_loop.induct) (subst while_loop.simps, auto)

lemma newline_loop_no_err: "newline_loop mem sc s \<noteq> Syntax_Err"
  by (induction mem sc s rule: newline_loop.induct)
    (subst newline_loop.simps, auto simp: Let_def while_loop_no_err split: scan.splits)

lemma scan_bind_err:
  "scan_bind m f = Syntax_Err \<longleftrightarrow> m = Syntax_Err \<or> (\<exists>x. m = Ok x \<and> f x = Syntax_Err)"
  by (cases m) auto

lemma rd_no_err: "rd mem i \<noteq> Syntax_Err"
  by (simp add: rd_def)

lemmas no_err = scan_bind_err rd_no_err while_loop_no_err newline_loop_no_err

lemma header_continuation_no_err: "header_continuation sc s \<noteq> Syntax_Err"
  by (simp add: header_continuation_def Let_def no_err)

lemma auto_skip_no_err: "auto_skip b sc \<noteq> Syntax_Err"
  by (simp add: auto_skip_def pj_scan_skip_whitespace_def Let_def no_err header_continuation_no_err
      split: prod.splits)

lemma scan_get_longest:
  assumes "scanner_ok sc" "\<not> spec 0"
  shows "(pj_scan_get sc spec = Syntax_Err \<longleftrightarrow> \<not> spec (sc_mem sc ! sc_cur sc)) \<and>
         (\<forall>out sc'. pj_scan_get sc spec = Ok (out, sc') \<longrightarrow>
            str_of (sc_mem sc) out = takeWhile spec (drop (sc_cur sc) (sc_mem sc)) \<and>
            sc_cur sc + snd out \<le> sc_cur sc')"
proof -
  note nul = scanner_ok_nul [OF assms(1)]
  have cur: "sc_cur sc \<le> sc_end sc" "sc_cur sc < length (sc_mem sc)"
    using assms(1) by (auto simp: scanner_ok_def)
  show ?thesis
  proof (cases "spec (sc_mem sc ! sc_cur sc)")
    case True
    then have "sc_cur sc + 1 \<le> sc_end sc"
      using nul_at_less [OF nul cur(1)] assms(2) by fastforce
    then have w: "scan_safe (\<lambda>s. sc_cur sc + 1 \<le> s \<and> s \<le> sc_end sc)
        (while_loop spec (sc_mem sc) (sc_cur sc + 1))"
      by (intro scan_safe_mono [OF while_loop_safe [where P = spec, OF nul assms(2)]]) auto
    have e: "while_loop spec (sc_mem sc) (sc_cur sc) = while_loop spec (sc_mem sc) (sc_cur sc + 1)"
      using True cur by (subst while_loop.simps) simp
    have g: "pj_scan_get sc spec = scan_bind (while_loop spec (sc_mem sc) (sc_cur sc)) (take_token sc)"
      using True cur by (simp add: pj_scan_get_def rd_def e)
    obtain s where s: "while_loop spec (sc_mem sc) (sc_cur sc) = Ok s" "sc_cur sc \<le> s" "s \<le> sc_end sc"
      using w while_loop_no_err [of spec "sc_mem sc" "sc_cur sc + 1"] e
      by (cases "while_loop spec (sc_mem sc) (sc_cur sc + 1)") auto
    have m: "scan_safe (\<lambda>sc'. sc_cur (sc\<lparr>sc_cur := s\<rparr>) \<le> sc_cur sc') (auto_skip b (sc\<lparr>sc_cur := s\<rparr>))" for b
      using assms s by (intro scan_safe_mono [OF auto_skip_safe]) (auto simp: advanced_def scanner_ok_def)
    have "pj_scan_get sc spec \<noteq> Syntax_Err"
      using auto_skip_no_err [of "sc_skip_ws sc \<noteq> 0" "sc\<lparr>sc_cur := s\<rparr>"]
      by (cases "auto_skip (sc_skip_ws sc \<noteq> 0) (sc\<lparr>sc_cur := s\<rparr>)") (auto simp: g s take_token_def)
    then show ?thesis
      using True m [of "sc_skip_ws sc \<noteq> 0"] s while_loop_takeWhile [OF s(1)]
      by (auto simp: g take_token_def scan_bind_Ok str_of_def)
  qed (use cur in \<open>simp add: pj_scan_get_def rd_def\<close>)
qed

lemma unescape_loop_pct_at_end:
  assumes "mem ! s = 37" "dst \<le> s" "e = Suc s" "length mem = Suc (Suc s)"
  shows "\<exists>mem' dst'. unescape_loop spec e mem s dst = Ok (mem', s + 2, dst') \<and> length mem' = length mem"
proof -
  have "rd mem s = Ok 37" "rd (mem[dst := 37]) (Suc s) = Ok (mem[dst := 37] ! Suc s)"
    using assms by (simp_all add: rd_def)
  then have "unescape_turn spec e mem s dst
      = Ok (False, mem[dst := 37, dst + 1 := mem[dst := 37] ! Suc s], s + 2, dst + 2)"
    using assms by (simp add: unescape_turn_def unescape_pct_def)
  then show ?thesis
    using assms by (subst unescape_loop.simps) simp
qed

lemma while_loop_exact:
  assumes "\<forall>i. s \<le> i \<and> i < t \<longrightarrow> P (mem ! i)" "\<not> P (mem ! t)" "t < length mem" "s \<le> t"
  shows "while_loop P mem s = Ok t"
  using assms
proof (induction P mem s rule: while_loop.induct)
  case (1 P mem s)
  then show ?case
    by (subst while_loop.simps) (cases "s = t", auto)
qed

text \<open>
  \<^verbatim>\<open>pj_scan_get_unescape\<close> leaves its buffer. When the input ends in a percent sign, behind any
  run of plain characters, the copy of the two characters after \<^verbatim>\<open>%\<close> consumes the terminating NUL,
  and the read of the next character is beyond the memory the caller has to provide.
\<close>

theorem scan_unescape_past_end:
  assumes "sc_mem sc = pre @ body @ [37, 0]" "sc_cur sc = length pre"
    and "sc_end sc = length pre + length body + 1" "list_all spec body" "\<not> spec 37"
  shows "pj_scan_get_unescape sc spec = Overrun"
proof -
  define mem where "mem = sc_mem sc"
  define s where "s = length pre"
  define t where "t = length pre + length body"
  have len: "length mem = Suc (Suc t)" and at: "mem ! t = 37" and st: "s \<le> t"
    using assms by (auto simp: mem_def t_def s_def nth_append)
  have body: "spec (mem ! i)" if "s \<le> i" "i < t" for i
    using assms that by (auto simp: mem_def t_def s_def nth_append list_all_length)
  have loop: "\<exists>mem' dst'. unescape_loop spec (Suc t) mem s s = Ok (mem', t + 2, dst') \<and> length mem' = length mem"
  proof (cases "s = t")
    case True
    then show ?thesis
      using unescape_loop_pct_at_end [of mem t t "Suc t" spec] at len by simp
  next
    case False
    with st have "s < t" by simp
    have w: "while_loop spec mem (s + 1) = Ok t"
      using body at assms(5) len \<open>s < t\<close> by (intro while_loop_exact) auto
    have "mem ! s \<noteq> 37"
      using body [of s] \<open>s < t\<close> assms(5) by auto
    then have "unescape_turn spec (Suc t) mem s s = Ok (True, mem, t, t)"
      using w body [of s] \<open>s < t\<close> len at
      by (simp add: unescape_turn_def unescape_span_def rd_def Let_def)
    then have "unescape_loop spec (Suc t) mem s s = unescape_loop spec (Suc t) mem t t"
      by (subst unescape_loop.simps) simp
    then show ?thesis
      using unescape_loop_pct_at_end [of mem t t "Suc t" spec] at len by simp
  qed
  then obtain mem' dst' where l: "unescape_loop spec (Suc t) mem s s = Ok (mem', t + 2, dst')"
    and len': "length mem' = length mem" by blast
  have c: "spec (mem ! s) \<or> mem ! s = 37"
    using body [of s] at st by (cases "s = t") auto
  have cur: "sc_cur sc = s" "sc_end sc = Suc t"
    using assms by (simp_all add: s_def t_def)
  have "auto_skip b (sc\<lparr>sc_mem := mem', sc_cur := t + 2\<rparr>) = Overrun" for b
    using len len' by (simp add: auto_skip_def rd_def)
  then show ?thesis
    using c l len st cur by (auto simp: pj_scan_get_unescape_def rd_def mem_def [symmetric])
qed


theorem scan_unescape_past_end_witness:
  "pj_scan_get_unescape
     \<lparr>sc_mem = [97, 37, 0], sc_end = 2, sc_cur = 0, sc_line = 1, sc_start_line = 0, sc_skip_ws = 0\<rparr>
     (\<lambda>c. c = 97) = Overrun"
  using scan_unescape_past_end
    [of "\<lparr>sc_mem = [97, 37, 0], sc_end = 2, sc_cur = 0, sc_line = 1, sc_start_line = 0, sc_skip_ws = 0\<rparr>"
      "[]" "[97]" "\<lambda>c. c = 97"]
  by simp

end
