(* ===== verification/Sdp.thy ===== *)
theory Sdp
  imports Pj_String Scanner_Props
begin

text \<open>
  Session descriptions, from \<^verbatim>\<open>pjmedia/src/pjmedia/sdp.c\<close>: the description itself, the operations on its
  attributes, the readers of the typed attributes, validation and transport comparison.

  A \<^verbatim>\<open>pj_str_t\<close> is its list of octets. The descriptions are values: the code clones a description
  before it changes one, and an attribute, which the code names by its pointer, is named by its
  index in its array.
\<close>

section \<open>The description\<close>

definition PJMEDIA_MAX_SDP_FMT :: nat where
  "PJMEDIA_MAX_SDP_FMT = 32"

definition PJMEDIA_MAX_SDP_BANDW :: nat where
  "PJMEDIA_MAX_SDP_BANDW = 4"

definition PJMEDIA_MAX_SDP_ATTR :: nat where
  "PJMEDIA_MAX_SDP_ATTR = PJMEDIA_MAX_SDP_FMT * 2 + 4"

definition PJMEDIA_MAX_SDP_MEDIA :: nat where
  "PJMEDIA_MAX_SDP_MEDIA = 16"

record sdp_attr =
  at_name :: bytes
  at_value :: bytes

record sdp_conn =
  c_net_type :: bytes
  c_addr_type :: bytes
  c_addr :: bytes

record sdp_bandw =
  b_modifier :: bytes
  b_value :: u32

record sdp_media =
  m_media :: bytes
  m_port :: u16
  m_port_count :: u32
  m_transport :: bytes
  m_fmt :: "bytes list"
  m_conn :: "sdp_conn option"
  m_bandw :: "sdp_bandw list"
  m_attr :: "sdp_attr list"

record sdp_origin =
  or_user :: bytes
  or_id :: u32
  or_version :: u32
  or_net_type :: bytes
  or_addr_type :: bytes
  or_addr :: bytes

record sdp_session =
  s_origin :: sdp_origin
  s_name :: bytes
  s_conn :: "sdp_conn option"
  s_bandw :: "sdp_bandw list"
  s_start :: u32
  s_stop :: u32
  s_attr :: "sdp_attr list"
  s_media :: "sdp_media list"

record sdp_rtpmap =
  rm_pt :: bytes
  rm_enc_name :: bytes
  rm_clock_rate :: u32
  rm_param :: bytes

record sdp_fmtp =
  fp_fmt :: bytes
  fp_fmt_param :: bytes

record sdp_rtcp_attr =
  rc_port :: u32
  rc_net_type :: bytes
  rc_addr_type :: bytes
  rc_addr :: bytes

record sdp_ssrc_attr =
  sr_ssrc :: u32
  sr_cname :: bytes

section \<open>Attributes\<close>

definition pjmedia_sdp_attr_create :: "bytes \<Rightarrow> bytes option \<Rightarrow> sdp_attr" where
  "pjmedia_sdp_attr_create name value =
     \<lparr>at_name = name, at_value = (case value of Some v \<Rightarrow> v | None \<Rightarrow> [])\<rparr>"

text \<open>\<^verbatim>\<open>unsigned pt = (unsigned) pj_strtoul...\<close> keeps the low 32 bits.\<close>

definition attr_matches :: "bytes \<Rightarrow> bytes option \<Rightarrow> sdp_attr \<Rightarrow> bool" where
  "attr_matches name c_fmt a \<longleftrightarrow>
     at_name a = name \<and>
     (case c_fmt of
        Some fmt \<Rightarrow> (ucast (fst (pj_strtoul2 (at_value a) 10)) :: u32) = ucast (pj_strtoul fmt)
      | None \<Rightarrow> True)"

fun attr_scan :: "(sdp_attr \<Rightarrow> bool) \<Rightarrow> sdp_attr list \<Rightarrow> nat option" where
  "attr_scan P [] = None"
| "attr_scan P (a # as) = (if P a then Some 0 else map_option Suc (attr_scan P as))"

definition pjmedia_sdp_attr_find :: "sdp_attr list \<Rightarrow> bytes \<Rightarrow> bytes option \<Rightarrow> nat option" where
  "pjmedia_sdp_attr_find attr_array name c_fmt =
     (if length attr_array \<le> PJMEDIA_MAX_SDP_ATTR then attr_scan (attr_matches name c_fmt) attr_array
      else None)"

definition pjmedia_sdp_attr_add :: "sdp_attr list \<Rightarrow> sdp_attr \<Rightarrow> pj_status \<times> sdp_attr list" where
  "pjmedia_sdp_attr_add attr_array attr =
     (if length attr_array < PJMEDIA_MAX_SDP_ATTR then (PJ_SUCCESS, attr_array @ [attr])
      else (PJ_ETOOMANY, attr_array))"

text \<open>\<^verbatim>\<open>pj_array_erase\<close>.\<close>

definition pj_array_erase :: "nat \<Rightarrow> 'a list \<Rightarrow> 'a list" where
  "pj_array_erase pos array = take pos array @ drop (Suc pos) array"

fun remove_named :: "bytes \<Rightarrow> sdp_attr list \<Rightarrow> sdp_attr list" where
  "remove_named name [] = []"
| "remove_named name (a # as) =
     (if at_name a = name then remove_named name as else a # remove_named name as)"

text \<open>The loop of \<^verbatim>\<open>pjmedia_sdp_attr_remove_all\<close> erases in place and does not advance then.\<close>

definition pjmedia_sdp_attr_remove_all :: "sdp_attr list \<Rightarrow> bytes \<Rightarrow> sdp_attr list" where
  "pjmedia_sdp_attr_remove_all attr_array name =
     (if length attr_array \<le> PJMEDIA_MAX_SDP_ATTR then remove_named name attr_array else attr_array)"

definition pjmedia_sdp_attr_remove :: "sdp_attr list \<Rightarrow> nat \<Rightarrow> sdp_attr list" where
  "pjmedia_sdp_attr_remove attr_array i =
     (if length attr_array \<le> PJMEDIA_MAX_SDP_ATTR then pj_array_erase i attr_array else attr_array)"

definition pjmedia_sdp_media_find_attr :: "sdp_media \<Rightarrow> bytes \<Rightarrow> bytes option \<Rightarrow> nat option" where
  "pjmedia_sdp_media_find_attr m name fmt = pjmedia_sdp_attr_find (m_attr m) name fmt"

definition pjmedia_sdp_media_add_attr :: "sdp_media \<Rightarrow> sdp_attr \<Rightarrow> sdp_media" where
  "pjmedia_sdp_media_add_attr m attr = m\<lparr>m_attr := snd (pjmedia_sdp_attr_add (m_attr m) attr)\<rparr>"

definition pjmedia_sdp_session_add_attr :: "sdp_session \<Rightarrow> sdp_attr \<Rightarrow> sdp_session" where
  "pjmedia_sdp_session_add_attr s attr = s\<lparr>s_attr := snd (pjmedia_sdp_attr_add (s_attr s) attr)\<rparr>"

definition pjmedia_sdp_media_remove_all_attr :: "sdp_media \<Rightarrow> bytes \<Rightarrow> sdp_media" where
  "pjmedia_sdp_media_remove_all_attr m name = m\<lparr>m_attr := pjmedia_sdp_attr_remove_all (m_attr m) name\<rparr>"

definition pjmedia_sdp_media_remove_attr :: "sdp_media \<Rightarrow> nat \<Rightarrow> sdp_media" where
  "pjmedia_sdp_media_remove_attr m i = m\<lparr>m_attr := pjmedia_sdp_attr_remove (m_attr m) i\<rparr>"

section \<open>Typed attributes\<close>

text \<open>The specifications \<^verbatim>\<open>init_sdp_parser\<close> builds in its static buffer, at the bits 0 and 1.\<close>

definition TOKEN :: bytes where
  "TOKEN = [33, 35, 36, 37, 38, 39, 42, 43, 45, 46, 94, 95, 96, 123, 124, 125, 126]"

definition init_sdp_parser :: "cis_buf option" where
  "init_sdp_parser =
     (case pj_cis_init pj_cis_buf_init of (_, cs_token, b0) \<Rightarrow>
        Option.bind (pj_cis_add_alpha cs_token b0) (\<lambda>b1.
        Option.bind (pj_cis_add_num cs_token b1) (\<lambda>b2.
        Option.bind (pj_cis_add_str cs_token TOKEN b2) (\<lambda>b3.
        case pj_cis_init b3 of (_, cs_digit, b4) \<Rightarrow> pj_cis_add_num cs_digit b4))))"

text \<open>Their membership functions.\<close>

definition cs_token :: cis where
  "cs_token c \<longleftrightarrow> 97 \<le> c \<and> c \<le> 122 \<or> 65 \<le> c \<and> c \<le> 90 \<or> 48 \<le> c \<and> c \<le> 57 \<or> c \<in> set TOKEN"

definition cs_digit :: cis where
  "cs_digit c \<longleftrightarrow> 48 \<le> c \<and> c \<le> 57"

text \<open>
  \<^verbatim>\<open>PJ_TRY\<close> around a computation: a syntax error gives the value of the handler.
\<close>

fun scan_try :: "'a scan \<Rightarrow> ('a \<Rightarrow> 'b scan) \<Rightarrow> 'b \<Rightarrow> 'b scan" where
  "scan_try (Ok x) f h = f x"
| "scan_try Syntax_Err f h = Ok h"
| "scan_try Overrun f h = Overrun"

text \<open>
  \<^verbatim>\<open>pjmedia_sdp_attr_get_rtpmap\<close> on an attribute whose value is followed by a NUL, as every
  cloned attribute is. The second component is the caller's structure afterwards: \<open>None\<close> when the
  function returns before it has written to it, otherwise with the fields read before the first
  error.
\<close>

definition pjmedia_sdp_attr_get_rtpmap :: "sdp_attr \<Rightarrow> (pj_status \<times> sdp_rtpmap option) scan" where
  "pjmedia_sdp_attr_get_rtpmap attr =
     (let value = at_value attr; mem = value @ [0];
          rm0 = \<lparr>rm_pt = [], rm_enc_name = [], rm_clock_rate = 0, rm_param = []\<rparr>
      in if at_name attr \<noteq> cstr ''rtpmap'' then Ok (PJ_EINVALIDOP, None)
         else if value = [] then Ok (PJMEDIA_SDP_EINATTR, None)
         else
           scan_bind (pj_scan_init mem (length value) PJ_SCAN_AUTOSKIP_WS) (\<lambda>sc0.
           scan_try (pj_scan_get sc0 cs_token) (\<lambda>(pt, sc1).
             let rm1 = rm0\<lparr>rm_pt := str_of mem pt\<rparr>
             in scan_try (pj_scan_get sc1 cs_token) (\<lambda>(enc, sc2).
               let rm2 = rm1\<lparr>rm_enc_name := str_of mem enc\<rparr>
               in scan_try (pj_scan_get_char sc2) (\<lambda>(chr, sc3).
                 if chr \<noteq> 47 then Ok (PJMEDIA_SDP_EINRTPMAP, Some rm2)
                 else
                   scan_try (pj_scan_get sc3 cs_digit) (\<lambda>(token, sc4).
                     let rm3 = rm2\<lparr>rm_clock_rate := ucast (pj_strtoul (str_of mem token))\<rparr>
                     in scan_bind (rd mem (sc_cur sc4)) (\<lambda>c.
                        if c = 47 then
                          scan_try (pj_scan_get_char sc4) (\<lambda>(_, sc5).
                            Ok (PJ_SUCCESS,
                                Some (rm3\<lparr>rm_param :=
                                  str_of mem (sc_cur sc5, sc_end sc5 - sc_cur sc5)\<rparr>)))
                            (PJMEDIA_SDP_EINRTPMAP, Some rm3)
                        else Ok (PJ_SUCCESS, Some rm3)))
                     (PJMEDIA_SDP_EINRTPMAP, Some rm2))
                 (PJMEDIA_SDP_EINRTPMAP, Some rm2))
               (PJMEDIA_SDP_EINRTPMAP, Some rm1))
             (PJMEDIA_SDP_EINRTPMAP, Some rm0)))"

text \<open>
  The negotiator ignores the status. \<open>None\<close>: it goes on with a structure that was never written.
\<close>

definition rtpmap_of :: "sdp_attr \<Rightarrow> sdp_rtpmap option" where
  "rtpmap_of attr =
     (case pjmedia_sdp_attr_get_rtpmap attr of Ok (_, rm) \<Rightarrow> rm | _ \<Rightarrow> None)"

definition pjmedia_sdp_attr_get_fmtp :: "sdp_attr \<Rightarrow> pj_status + sdp_fmtp" where
  "pjmedia_sdp_attr_get_fmtp attr =
     (let value = at_value attr;
          token = takeWhile pj_isdigit value;
          rest = dropWhile pj_isdigit value
      in if at_name attr \<noteq> cstr ''fmtp'' then Inl PJ_EINVALIDOP
         else if value = [] then Inl PJMEDIA_SDP_EINATTR
         else if token = [] then Inl PJMEDIA_SDP_EINFMTP
         else if first_octet rest \<noteq> 32 then Inl PJMEDIA_SDP_EINFMTP
         else Inr \<lparr>fp_fmt = token, fp_fmt_param = tl rest\<rparr>)"

definition pjmedia_sdp_attr_get_rtcp :: "sdp_attr \<Rightarrow> (pj_status + sdp_rtcp_attr) scan" where
  "pjmedia_sdp_attr_get_rtcp attr =
     (let value = at_value attr; mem = value @ [0]; err = Inl PJMEDIA_SDP_EINRTCP
      in if at_name attr \<noteq> cstr ''rtcp'' then Ok (Inl PJ_EINVALIDOP)
         else if value = [] then Ok (Inl PJMEDIA_SDP_EINATTR)
         else
           scan_bind (pj_scan_init mem (length value) PJ_SCAN_AUTOSKIP_WS) (\<lambda>sc0.
           scan_try (pj_scan_get sc0 cs_token) (\<lambda>(token, sc1).
             let rc0 = \<lparr>rc_port = ucast (pj_strtoul (str_of mem token)), rc_net_type = [],
                        rc_addr_type = [], rc_addr = []\<rparr>
             in if pj_scan_is_eof sc1 then Ok (Inr rc0)
                else
                  scan_try (pj_scan_get sc1 cs_token) (\<lambda>(net_type, sc2).
                  scan_try (pj_scan_get sc2 cs_token) (\<lambda>(addr_type, sc3).
                  scan_try (pj_scan_get_until_chr sc3 [47, 32, 9, 13, 10]) (\<lambda>(addr, sc4).
                    Ok (Inr (rc0\<lparr>rc_net_type := str_of mem net_type,
                                 rc_addr_type := str_of mem addr_type,
                                 rc_addr := str_of mem addr\<rparr>)))
                    err) err) err) err))"

text \<open>\<^verbatim>\<open>pjmedia_sdp_attr_get_ssrc\<close>; \<^verbatim>\<open>pj_strcmp2\<close> is non-zero when the strings differ.\<close>

definition pjmedia_sdp_attr_get_ssrc :: "sdp_attr \<Rightarrow> (pj_status + sdp_ssrc_attr) scan" where
  "pjmedia_sdp_attr_get_ssrc attr =
     (let value = at_value attr; mem = value @ [0]; err = Inl PJMEDIA_SDP_EINSSRC
      in if at_name attr \<noteq> cstr ''ssrc'' then Ok (Inl PJ_EINVALIDOP)
         else if value = [] then Ok (Inl PJMEDIA_SDP_EINATTR)
         else
           scan_bind (pj_scan_init mem (length value) PJ_SCAN_AUTOSKIP_WS) (\<lambda>sc0.
           scan_try (pj_scan_get sc0 cs_digit) (\<lambda>(token, sc1).
             let sr0 = \<lparr>sr_ssrc = ucast (pj_strtoul (str_of mem token)), sr_cname = []\<rparr>
             in scan_try (pj_scan_get_char sc1) (\<lambda>(_, sc2).
                scan_try (pj_scan_get sc2 cs_token) (\<lambda>(scan_attr, sc3).
                  if pj_scan_is_eof sc3 then Ok (Inr sr0)
                  else
                    scan_try (pj_scan_get_char sc3) (\<lambda>(chr, sc4).
                      if chr = 58 \<and> str_of mem scan_attr \<noteq> cstr ''cname'' then
                        scan_try (pj_scan_get sc4 cs_token) (\<lambda>(cname, sc5).
                          Ok (Inr (sr0\<lparr>sr_cname := str_of mem cname\<rparr>))) err
                      else Ok (Inr sr0)) err) err) err) err))"

section \<open>Transports\<close>

definition PJMEDIA_TP_PROTO_UNKNOWN :: u32 where "PJMEDIA_TP_PROTO_UNKNOWN = push_bit 0 1"
definition PJMEDIA_TP_PROTO_UDP :: u32 where "PJMEDIA_TP_PROTO_UDP = push_bit 1 1"
definition PJMEDIA_TP_PROTO_RTP :: u32 where "PJMEDIA_TP_PROTO_RTP = push_bit 2 1"
definition PJMEDIA_TP_PROTO_DTLS :: u32 where "PJMEDIA_TP_PROTO_DTLS = push_bit 3 1"
definition PJMEDIA_TP_PROFILE_RTCP_FB :: u32 where "PJMEDIA_TP_PROFILE_RTCP_FB = push_bit 13 1"
definition PJMEDIA_TP_PROFILE_SRTP :: u32 where "PJMEDIA_TP_PROFILE_SRTP = push_bit 14 1"
definition PJMEDIA_TP_PROFILE_AVP :: u32 where "PJMEDIA_TP_PROFILE_AVP = push_bit 15 1"

definition PJMEDIA_TP_PROTO_RTP_AVP :: u32 where
  "PJMEDIA_TP_PROTO_RTP_AVP = PJMEDIA_TP_PROTO_RTP OR PJMEDIA_TP_PROFILE_AVP"

definition PJMEDIA_TP_PROTO_RTP_SAVP :: u32 where
  "PJMEDIA_TP_PROTO_RTP_SAVP = PJMEDIA_TP_PROTO_RTP_AVP OR PJMEDIA_TP_PROFILE_SRTP"

definition PJMEDIA_TP_PROTO_DTLS_SRTP :: u32 where
  "PJMEDIA_TP_PROTO_DTLS_SRTP = PJMEDIA_TP_PROTO_DTLS OR PJMEDIA_TP_PROTO_RTP_SAVP"

definition PJMEDIA_TP_PROTO_RTP_AVPF :: u32 where
  "PJMEDIA_TP_PROTO_RTP_AVPF = PJMEDIA_TP_PROTO_RTP_AVP OR PJMEDIA_TP_PROFILE_RTCP_FB"

definition PJMEDIA_TP_PROTO_RTP_SAVPF :: u32 where
  "PJMEDIA_TP_PROTO_RTP_SAVPF = PJMEDIA_TP_PROTO_RTP_SAVP OR PJMEDIA_TP_PROFILE_RTCP_FB"

definition PJMEDIA_TP_PROTO_DTLS_SRTPF :: u32 where
  "PJMEDIA_TP_PROTO_DTLS_SRTPF = PJMEDIA_TP_PROTO_DTLS_SRTP OR PJMEDIA_TP_PROFILE_RTCP_FB"

definition PJMEDIA_TP_PROTO_HAS_FLAG :: "u32 \<Rightarrow> u32 \<Rightarrow> bool" where
  "PJMEDIA_TP_PROTO_HAS_FLAG tp_proto flags \<longleftrightarrow> (tp_proto AND flags) = flags"

text \<open>
  The rest behind the first token: the code sets it whenever the token does not start at the end
  of the string, with a length of \<^verbatim>\<open>tp->slen - token.slen - 1\<close>. Without a separator that is -1,
  and a string of length -1 is equal to no other (\<^verbatim>\<open>pj_stricmp\<close> finds its length smaller, whatever
  the octets behind it are); \<open>None\<close> stands for it.
\<close>

definition transport_rest :: "bytes \<Rightarrow> bytes option" where
  "transport_rest tp =
     (case pj_strtok2 tp [47] 0 of (idx, token) \<Rightarrow>
        if idx = length tp then Some []
        else if length token = length tp then None
        else Some (drop (length token + 1) tp))"

definition rest_is :: "bytes option \<Rightarrow> bytes \<Rightarrow> bool" where
  "rest_is rest s = (case rest of Some r \<Rightarrow> pj_stricmp_eq r s | None \<Rightarrow> False)"

definition pjmedia_sdp_transport_get_proto :: "bytes \<Rightarrow> u32" where
  "pjmedia_sdp_transport_get_proto tp =
     (let token = snd (pj_strtok2 tp [47] 0); rest = transport_rest tp
      in if pj_stricmp_eq token (cstr ''RTP'') then
           (if rest_is rest (cstr ''AVP'') then PJMEDIA_TP_PROTO_RTP_AVP
            else if rest_is rest (cstr ''SAVP'') then PJMEDIA_TP_PROTO_RTP_SAVP
            else if rest_is rest (cstr ''AVPF'') then PJMEDIA_TP_PROTO_RTP_AVPF
            else if rest_is rest (cstr ''SAVPF'') then PJMEDIA_TP_PROTO_RTP_SAVPF
            else PJMEDIA_TP_PROTO_UNKNOWN)
         else if pj_stricmp_eq token (cstr ''UDP'') then
           (if rest = Some [] then PJMEDIA_TP_PROTO_UDP
            else if rest_is rest (cstr ''TLS/RTP/SAVP'') then PJMEDIA_TP_PROTO_DTLS_SRTP
            else if rest_is rest (cstr ''TLS/RTP/SAVPF'') then PJMEDIA_TP_PROTO_DTLS_SRTPF
            else PJMEDIA_TP_PROTO_UNKNOWN)
         else PJMEDIA_TP_PROTO_UNKNOWN)"

definition pjmedia_sdp_transport_cmp :: "bytes \<Rightarrow> bytes \<Rightarrow> pj_status" where
  "pjmedia_sdp_transport_cmp t1 t2 =
     (if pj_stricmp_eq t1 t2 then PJ_SUCCESS
      else if PJMEDIA_TP_PROTO_HAS_FLAG (pjmedia_sdp_transport_get_proto t1) PJMEDIA_TP_PROTO_RTP_AVP \<and>
              PJMEDIA_TP_PROTO_HAS_FLAG (pjmedia_sdp_transport_get_proto t2) PJMEDIA_TP_PROTO_RTP_AVP
      then PJ_SUCCESS
      else PJMEDIA_SDP_ETPORTNOTEQUAL)"

section \<open>Validation\<close>

definition validate_sdp_conn :: "sdp_conn \<Rightarrow> pj_status" where
  "validate_sdp_conn c =
     (if c_net_type c \<noteq> cstr ''IN'' then PJMEDIA_SDP_EINCONN
      else if c_addr_type c \<noteq> cstr ''IP4'' \<and> c_addr_type c \<noteq> cstr ''IP6'' then PJMEDIA_SDP_EINCONN
      else if c_addr c = [] then PJMEDIA_SDP_EINCONN
      else PJ_SUCCESS)"

fun validate_fmts :: "sdp_media \<Rightarrow> bytes list \<Rightarrow> pj_status" where
  "validate_fmts m [] = PJ_SUCCESS"
| "validate_fmts m (fmt # fmts) =
     (if pj_isdigit (first_octet fmt) then
        (case pj_strtoul3 fmt 10 of (status, pt) \<Rightarrow>
           if \<not> (status = PJ_SUCCESS \<and> pt \<le> 127) then PJMEDIA_SDP_EINPT
           else if m_port m \<noteq> 0 \<and> pt \<ge> 96 \<and>
                   pjmedia_sdp_media_find_attr m (cstr ''rtpmap'') (Some fmt) = None
           then PJMEDIA_SDP_EMISSINGRTPMAP
           else validate_fmts m fmts)
      else validate_fmts m fmts)"

definition validate_media :: "sdp_session \<Rightarrow> bool \<Rightarrow> sdp_media \<Rightarrow> pj_status" where
  "validate_media sdp strict m =
     (let conn_status = (case m_conn m of Some c \<Rightarrow> validate_sdp_conn c | None \<Rightarrow> PJ_SUCCESS)
      in if m_media m = [] then PJMEDIA_SDP_EINMEDIA
         else if m_transport m = [] then PJMEDIA_SDP_EINMEDIA
         else if m_fmt m = [] \<and> m_port m \<noteq> 0 then PJMEDIA_SDP_ENOFMT
         else if conn_status \<noteq> PJ_SUCCESS then conn_status
         else if m_conn m = None \<and> s_conn sdp = None \<and> (strict \<or> m_port m \<noteq> 0)
         then PJMEDIA_SDP_EMISSINGCONN
         else validate_fmts m (m_fmt m))"

fun validate_medias :: "sdp_session \<Rightarrow> bool \<Rightarrow> sdp_media list \<Rightarrow> pj_status" where
  "validate_medias sdp strict [] = PJ_SUCCESS"
| "validate_medias sdp strict (m # ms) =
     (let status = validate_media sdp strict m
      in if status \<noteq> PJ_SUCCESS then status else validate_medias sdp strict ms)"

definition pjmedia_sdp_validate2 :: "sdp_session \<Rightarrow> bool \<Rightarrow> pj_status" where
  "pjmedia_sdp_validate2 sdp strict =
     (let origin = s_origin sdp;
          conn_status = (case s_conn sdp of Some c \<Rightarrow> validate_sdp_conn c | None \<Rightarrow> PJ_SUCCESS)
      in if or_user origin = [] then PJMEDIA_SDP_EINORIGIN
         else if or_net_type origin \<noteq> cstr ''IN'' then PJMEDIA_SDP_EINORIGIN
         else if or_addr_type origin \<noteq> cstr ''IP4'' \<and> or_addr_type origin \<noteq> cstr ''IP6''
         then PJMEDIA_SDP_EINORIGIN
         else if or_addr origin = [] then PJMEDIA_SDP_EINORIGIN
         else if s_name sdp = [] then PJMEDIA_SDP_EINNAME
         else if conn_status \<noteq> PJ_SUCCESS then conn_status
         else validate_medias sdp strict (s_media sdp))"

definition pjmedia_sdp_validate :: "sdp_session \<Rightarrow> pj_status" where
  "pjmedia_sdp_validate sdp = pjmedia_sdp_validate2 sdp True"

section \<open>Copies\<close>

definition pjmedia_sdp_attr_clone :: "sdp_attr \<Rightarrow> sdp_attr" where
  "pjmedia_sdp_attr_clone rhs = \<lparr>at_name = at_name rhs, at_value = at_value rhs\<rparr>"

definition pjmedia_sdp_conn_clone :: "sdp_conn \<Rightarrow> sdp_conn" where
  "pjmedia_sdp_conn_clone rhs =
     \<lparr>c_net_type = c_net_type rhs, c_addr_type = c_addr_type rhs, c_addr = c_addr rhs\<rparr>"

definition pjmedia_sdp_bandw_clone :: "sdp_bandw \<Rightarrow> sdp_bandw" where
  "pjmedia_sdp_bandw_clone rhs = \<lparr>b_modifier = b_modifier rhs, b_value = b_value rhs\<rparr>"

definition pjmedia_sdp_media_clone :: "sdp_media \<Rightarrow> sdp_media" where
  "pjmedia_sdp_media_clone rhs =
     \<lparr>m_media = m_media rhs, m_port = m_port rhs, m_port_count = m_port_count rhs,
      m_transport = m_transport rhs, m_fmt = m_fmt rhs,
      m_conn = map_option pjmedia_sdp_conn_clone (m_conn rhs),
      m_bandw = map pjmedia_sdp_bandw_clone (m_bandw rhs),
      m_attr = map pjmedia_sdp_attr_clone (m_attr rhs)\<rparr>"

definition pjmedia_sdp_session_clone :: "sdp_session \<Rightarrow> sdp_session" where
  "pjmedia_sdp_session_clone rhs =
     \<lparr>s_origin =
        \<lparr>or_user = or_user (s_origin rhs), or_id = or_id (s_origin rhs),
         or_version = or_version (s_origin rhs), or_net_type = or_net_type (s_origin rhs),
         or_addr_type = or_addr_type (s_origin rhs), or_addr = or_addr (s_origin rhs)\<rparr>,
      s_name = s_name rhs,
      s_conn = map_option pjmedia_sdp_conn_clone (s_conn rhs),
      s_bandw = map pjmedia_sdp_bandw_clone (s_bandw rhs),
      s_start = s_start rhs, s_stop = s_stop rhs,
      s_attr = map pjmedia_sdp_attr_clone (s_attr rhs),
      s_media = map pjmedia_sdp_media_clone (s_media rhs)\<rparr>"

section \<open>Deactivation\<close>

definition pjmedia_sdp_media_deactivate :: "sdp_media \<Rightarrow> sdp_media" where
  "pjmedia_sdp_media_deactivate m = m\<lparr>m_port := 0, m_attr := []\<rparr>"

text \<open>\<^verbatim>\<open>pjmedia_sdp_media_clone_deactivate\<close>: a flat copy whose parts are then cloned.\<close>

definition pjmedia_sdp_media_clone_deactivate :: "sdp_media \<Rightarrow> sdp_media" where
  "pjmedia_sdp_media_clone_deactivate rhs =
     pjmedia_sdp_media_deactivate
       (rhs\<lparr>m_conn := map_option pjmedia_sdp_conn_clone (m_conn rhs),
            m_bandw := map pjmedia_sdp_bandw_clone (m_bandw rhs)\<rparr>)"

section \<open>Facts on descriptions\<close>

lemma attr_clone_id [simp]: "pjmedia_sdp_attr_clone = (\<lambda>a. a)"
  by (rule ext) (simp add: pjmedia_sdp_attr_clone_def)

lemma conn_clone_id [simp]: "pjmedia_sdp_conn_clone = (\<lambda>c. c)"
  by (rule ext) (simp add: pjmedia_sdp_conn_clone_def)

lemma bandw_clone_id [simp]: "pjmedia_sdp_bandw_clone = (\<lambda>b. b)"
  by (rule ext) (simp add: pjmedia_sdp_bandw_clone_def)

lemma map_option_same [simp]: "map_option (\<lambda>x. x) v = v"
  by (cases v) simp_all

lemma media_clone_id [simp]: "pjmedia_sdp_media_clone = (\<lambda>m. m)"
  by (rule ext) (simp add: pjmedia_sdp_media_clone_def)

text \<open>A copy of a session has every field of the original.\<close>

lemma session_clone_id [simp]: "pjmedia_sdp_session_clone s = s"
  by (simp add: pjmedia_sdp_session_clone_def)

lemma clone_deactivate_eq: "pjmedia_sdp_media_clone_deactivate m = pjmedia_sdp_media_deactivate m"
  by (simp add: pjmedia_sdp_media_clone_deactivate_def)

text \<open>The two specifications \<^verbatim>\<open>init_sdp_parser\<close> builds are the token and digit characters.\<close>

lemma init_sdp_parser_specs:
  "\<exists>b. init_sdp_parser = Some b \<and> pj_cis_match b 0 = cs_token \<and> pj_cis_match b 1 = cs_digit"
proof -
  have in0: "pj_cis_init pj_cis_buf_init = (PJ_SUCCESS, 0, pj_cis_buf_init\<lparr>cb_use_mask := 1\<rparr>)"
    by (simp add: pj_cis_init_def pj_cis_buf_init_def PJ_CIS_MAX_INDEX_def upt_rec)
  define b0 where "b0 = pj_cis_buf_init\<lparr>cb_use_mask := 1\<rparr>"
  have "unat d < 256" for d :: u8
    using unsigned_less [of d] by simp
  then have b0: "length (cb_buf b0) = 256" "cb_use_mask b0 = 1" "\<And>k d. \<not> pj_cis_match b0 k d"
    by (auto simp: b0_def pj_cis_buf_init_def pj_cis_match_def PJ_CIS_ISSET_def)
  obtain b1 where b1: "pj_cis_add_range 0 97 123 b0 = Some b1" "length (cb_buf b1) = 256"
    "cb_use_mask b1 = 1" and m1: "\<And>k d. pj_cis_match b1 k d \<longleftrightarrow> k = 0 \<and> 97 \<le> unat d \<and> unat d < 123"
    using cis_add_range_match [of b0 97 123 0] b0 by auto
  obtain b2 where b2: "pj_cis_add_range 0 65 91 b1 = Some b2" "length (cb_buf b2) = 256"
    "cb_use_mask b2 = 1" and m2: "\<And>k d. pj_cis_match b2 k d \<longleftrightarrow> pj_cis_match b1 k d \<or>
      (k = 0 \<and> 65 \<le> unat d \<and> unat d < 91)"
    using cis_add_range_match [of b1 65 91 0] b1 by auto
  obtain b3 where b3: "pj_cis_add_range 0 48 58 b2 = Some b3" "length (cb_buf b3) = 256"
    "cb_use_mask b3 = 1" and m3: "\<And>k d. pj_cis_match b3 k d \<longleftrightarrow> pj_cis_match b2 k d \<or>
      (k = 0 \<and> 48 \<le> unat d \<and> unat d < 58)"
    using cis_add_range_match [of b2 48 58 0] b2 by auto
  obtain b4 where b4: "pj_cis_add_str 0 TOKEN b3 = Some b4" "length (cb_buf b4) = 256"
    "cb_use_mask b4 = 1" and m4: "\<And>k d. pj_cis_match b4 k d \<longleftrightarrow> pj_cis_match b3 k d \<or>
      (k = 0 \<and> d \<in> set TOKEN)"
    using cis_add_str_match [of b3 0 TOKEN] b3 by (auto simp: TOKEN_def)
  have in1: "pj_cis_init b4 = (PJ_SUCCESS, 1, b4\<lparr>cb_use_mask := 3\<rparr>)"
    using b4 by (simp add: pj_cis_init_def PJ_CIS_MAX_INDEX_def upt_rec)
  define b5 where "b5 = b4\<lparr>cb_use_mask := 3\<rparr>"
  have b5: "length (cb_buf b5) = 256" "\<And>k d. pj_cis_match b5 k d = pj_cis_match b4 k d"
    using b4 by (auto simp: b5_def pj_cis_match_def PJ_CIS_ISSET_def)
  obtain b6 where b6: "pj_cis_add_range 1 48 58 b5 = Some b6" and
    m6: "\<And>k d. pj_cis_match b6 k d \<longleftrightarrow> pj_cis_match b5 k d \<or> (k = 1 \<and> 48 \<le> unat d \<and> unat d < 58)"
    using cis_add_range_match [of b5 48 58 1] b5 by auto
  have "init_sdp_parser = Some b6"
    unfolding init_sdp_parser_def in0
    using b1 b2 b3 b4 b6
    by (simp add: pj_cis_add_alpha_def pj_cis_add_num_def b0_def [symmetric] in1 b5_def [symmetric])
  moreover have "pj_cis_match b6 0 d = cs_token d" "pj_cis_match b6 1 d = cs_digit d" for d
    unfolding m6 b5 m4 m3 m2 m1 cs_token_def cs_digit_def word_le_nat_alt by auto
  ultimately show ?thesis by (auto simp: fun_eq_iff)
qed

end
