(* ===== verification/Sdp_Neg.thy ===== *)
theory Sdp_Neg
  imports Sdp
begin

text \<open>
  The offer/answer negotiator of \<^verbatim>\<open>pjmedia/src/pjmedia/sdp_neg.c\<close>, in the configuration of
  \<^verbatim>\<open>pjmedia/include/pjmedia/config.h\<close>: the version of the origin line is always incremented
  (\<^verbatim>\<open>PJMEDIA_SDP_NEG_COMPARE_BEFORE_INC_VERSION\<close> is 0) and an answer takes over the payload types
  of the offer (\<^verbatim>\<open>PJMEDIA_SDP_NEG_ANSWER_SYMMETRIC_PT\<close> is 1).

  \<open>None\<close> as the result of an operation stands for undefined behaviour of the C code: a null pointer
  dereferenced, a structure read that was never written, or an access outside an array.
\<close>

section \<open>State\<close>

datatype sdp_neg_state =
    PJMEDIA_SDP_NEG_STATE_NULL
  | PJMEDIA_SDP_NEG_STATE_LOCAL_OFFER
  | PJMEDIA_SDP_NEG_STATE_REMOTE_OFFER
  | PJMEDIA_SDP_NEG_STATE_WAIT_NEGO
  | PJMEDIA_SDP_NEG_STATE_DONE

record sdp_neg =
  ng_state :: sdp_neg_state
  ng_prefer_remote_codec_order :: bool
  ng_answer_with_multiple_codecs :: bool
  ng_has_remote_answer :: bool
  ng_answer_was_remote :: bool
  ng_initial_sdp :: "sdp_session option"
  ng_initial_sdp_tmp :: "sdp_session option"
  ng_active_local_sdp :: "sdp_session option"
  ng_active_remote_sdp :: "sdp_session option"
  ng_neg_local_sdp :: "sdp_session option"
  ng_neg_remote_sdp :: "sdp_session option"

definition PJMEDIA_SDP_NEG_PREFER_REMOTE_CODEC_ORDER :: bool where
  "PJMEDIA_SDP_NEG_PREFER_REMOTE_CODEC_ORDER = True"

definition PJMEDIA_SDP_NEG_ANSWER_MULTIPLE_CODECS :: bool where
  "PJMEDIA_SDP_NEG_ANSWER_MULTIPLE_CODECS = False"

definition PJMEDIA_SDP_NEG_MAX_CUSTOM_FMT_NEG_CB :: nat where
  "PJMEDIA_SDP_NEG_MAX_CUSTOM_FMT_NEG_CB = 8"

text \<open>\<^verbatim>\<open>PJ_POOL_ZALLOC_T\<close>: everything zero.\<close>

definition neg_zero :: sdp_neg where
  "neg_zero =
     \<lparr>ng_state = PJMEDIA_SDP_NEG_STATE_NULL, ng_prefer_remote_codec_order = False,
      ng_answer_with_multiple_codecs = False, ng_has_remote_answer = False,
      ng_answer_was_remote = False, ng_initial_sdp = None, ng_initial_sdp_tmp = None,
      ng_active_local_sdp = None, ng_active_remote_sdp = None, ng_neg_local_sdp = None,
      ng_neg_remote_sdp = None\<rparr>"

definition pjmedia_sdp_neg_create_w_local_offer :: "sdp_session \<Rightarrow> pj_status + sdp_neg" where
  "pjmedia_sdp_neg_create_w_local_offer local =
     (let status = pjmedia_sdp_validate local
      in if status \<noteq> PJ_SUCCESS then Inl status
         else Inr (neg_zero\<lparr>
           ng_state := PJMEDIA_SDP_NEG_STATE_LOCAL_OFFER,
           ng_prefer_remote_codec_order := PJMEDIA_SDP_NEG_PREFER_REMOTE_CODEC_ORDER,
           ng_answer_with_multiple_codecs := PJMEDIA_SDP_NEG_ANSWER_MULTIPLE_CODECS,
           ng_initial_sdp := Some (pjmedia_sdp_session_clone local),
           ng_neg_local_sdp := Some (pjmedia_sdp_session_clone local)\<rparr>))"

definition pjmedia_sdp_neg_create_w_remote_offer ::
    "sdp_session option \<Rightarrow> sdp_session \<Rightarrow> pj_status + sdp_neg" where
  "pjmedia_sdp_neg_create_w_remote_offer initial remote =
     (let status = pjmedia_sdp_validate2 remote False;
          neg = neg_zero\<lparr>
            ng_prefer_remote_codec_order := PJMEDIA_SDP_NEG_PREFER_REMOTE_CODEC_ORDER,
            ng_answer_with_multiple_codecs := PJMEDIA_SDP_NEG_ANSWER_MULTIPLE_CODECS,
            ng_neg_remote_sdp := Some (pjmedia_sdp_session_clone remote)\<rparr>
      in if status \<noteq> PJ_SUCCESS then Inl status
         else
           (case initial of
              Some i \<Rightarrow>
                (let status2 = pjmedia_sdp_validate i
                 in if status2 \<noteq> PJ_SUCCESS then Inl status2
                    else Inr (neg\<lparr>
                      ng_initial_sdp := Some (pjmedia_sdp_session_clone i),
                      ng_neg_local_sdp := Some (pjmedia_sdp_session_clone i),
                      ng_state := PJMEDIA_SDP_NEG_STATE_WAIT_NEGO\<rparr>))
            | None \<Rightarrow> Inr (neg\<lparr>ng_state := PJMEDIA_SDP_NEG_STATE_REMOTE_OFFER\<rparr>)))"

definition pjmedia_sdp_neg_set_prefer_remote_codec_order :: "bool \<Rightarrow> sdp_neg \<Rightarrow> sdp_neg" where
  "pjmedia_sdp_neg_set_prefer_remote_codec_order prefer_remote neg =
     neg\<lparr>ng_prefer_remote_codec_order := prefer_remote\<rparr>"

definition pjmedia_sdp_neg_set_answer_multiple_codecs :: "bool \<Rightarrow> sdp_neg \<Rightarrow> sdp_neg" where
  "pjmedia_sdp_neg_set_answer_multiple_codecs answer_multiple neg =
     neg\<lparr>ng_answer_with_multiple_codecs := answer_multiple\<rparr>"

definition pjmedia_sdp_neg_get_state :: "sdp_neg \<Rightarrow> sdp_neg_state" where
  "pjmedia_sdp_neg_get_state neg = ng_state neg"

definition opt_or :: "pj_status \<Rightarrow> 'a option \<Rightarrow> pj_status + 'a" where
  "opt_or status v = (case v of Some x \<Rightarrow> Inr x | None \<Rightarrow> Inl status)"

definition pjmedia_sdp_neg_get_active_local :: "sdp_neg \<Rightarrow> pj_status + sdp_session" where
  "pjmedia_sdp_neg_get_active_local neg = opt_or PJMEDIA_SDPNEG_ENOACTIVE (ng_active_local_sdp neg)"

definition pjmedia_sdp_neg_get_active_remote :: "sdp_neg \<Rightarrow> pj_status + sdp_session" where
  "pjmedia_sdp_neg_get_active_remote neg = opt_or PJMEDIA_SDPNEG_ENOACTIVE (ng_active_remote_sdp neg)"

definition pjmedia_sdp_neg_was_answer_remote :: "sdp_neg \<Rightarrow> bool" where
  "pjmedia_sdp_neg_was_answer_remote neg = ng_answer_was_remote neg"

definition pjmedia_sdp_neg_get_neg_remote :: "sdp_neg \<Rightarrow> pj_status + sdp_session" where
  "pjmedia_sdp_neg_get_neg_remote neg = opt_or PJMEDIA_SDPNEG_ENONEG (ng_neg_remote_sdp neg)"

definition pjmedia_sdp_neg_get_neg_local :: "sdp_neg \<Rightarrow> pj_status + sdp_session" where
  "pjmedia_sdp_neg_get_neg_local neg = opt_or PJMEDIA_SDPNEG_ENONEG (ng_neg_local_sdp neg)"

definition pjmedia_sdp_neg_has_local_answer :: "sdp_neg \<Rightarrow> bool" where
  "pjmedia_sdp_neg_has_local_answer neg = (\<not> ng_has_remote_answer neg)"

section \<open>Offers\<close>

definition sdp_media_clone_deactivate ::
    "sdp_media \<Rightarrow> sdp_media option \<Rightarrow> sdp_session option \<Rightarrow> sdp_media" where
  "sdp_media_clone_deactivate rem_med local_med local_sess =
     (let res = pjmedia_sdp_media_clone_deactivate rem_med
      in if m_conn res = None \<and>
            (case local_sess of None \<Rightarrow> True | Some s \<Rightarrow> s_conn s = None)
         then
           (case Option.bind local_med m_conn of
              Some c \<Rightarrow> res\<lparr>m_conn := Some (pjmedia_sdp_conn_clone c)\<rparr>
            | None \<Rightarrow>
                res\<lparr>m_conn := Some \<lparr>c_net_type = cstr ''IN'', c_addr_type = cstr ''IP4'',
                                     c_addr = cstr ''127.0.0.1''\<rparr>\<rparr>)
         else res)"

text \<open>
  \<^verbatim>\<open>pj_array_insert\<close>: the elements from \<^verbatim>\<open>pos\<close> up to \<^verbatim>\<open>count\<close> move up by one, over the slot at
  \<^verbatim>\<open>count\<close>.
\<close>

definition pj_array_insert :: "nat \<Rightarrow> nat \<Rightarrow> 'a \<Rightarrow> 'a list \<Rightarrow> 'a list" where
  "pj_array_insert count pos v array =
     take pos array @ [v] @ drop pos (take count array) @ drop (Suc count) array"

fun find_media :: "bytes \<Rightarrow> nat \<Rightarrow> sdp_media list \<Rightarrow> nat option" where
  "find_media media ni [] = None"
| "find_media media ni (nm # nms) =
     (if m_media nm = media then Some ni else find_media media (Suc ni) nms)"

text \<open>
  The loop over the old offer's media lines: the line of the same type is moved to the old
  position, or a deactivated copy is inserted there.
\<close>

fun align_media ::
    "sdp_session \<Rightarrow> nat \<Rightarrow> sdp_media list \<Rightarrow> sdp_media list \<Rightarrow> sdp_media list option" where
  "align_media local oi [] media = Some media"
| "align_media local oi (om # oms) media =
     (case find_media (m_media om) oi (drop oi media) of
        Some ni \<Rightarrow>
          align_media local (Suc oi) oms
            (if ni \<noteq> oi then pj_array_insert ni oi (media ! ni) media else media)
      | None \<Rightarrow>
          (if length media < PJMEDIA_MAX_SDP_MEDIA then
             align_media local (Suc oi) oms
               (pj_array_insert (length media) oi
                  (sdp_media_clone_deactivate om (Some om) (Some local)) media)
           else None))"

text \<open>With \<^verbatim>\<open>PJMEDIA_SDP_NEG_ALLOW_MEDIA_CHANGE\<close> only the missing lines are added.\<close>

fun append_media ::
    "sdp_session \<Rightarrow> sdp_media list \<Rightarrow> sdp_media list \<Rightarrow> sdp_media list option" where
  "append_media local [] media = Some media"
| "append_media local (om # oms) media =
     (if length media < PJMEDIA_MAX_SDP_MEDIA then
        append_media local oms
          (pj_array_insert (length media) (length media)
             (sdp_media_clone_deactivate om (Some om) (Some local)) media)
      else None)"

definition pjmedia_sdp_neg_modify_local_offer2 ::
    "sdp_neg \<Rightarrow> bool \<Rightarrow> sdp_session \<Rightarrow> (pj_status \<times> sdp_neg) option" where
  "pjmedia_sdp_neg_modify_local_offer2 neg allow_media_change local =
     (let status = pjmedia_sdp_validate local
      in if ng_state neg \<noteq> PJMEDIA_SDP_NEG_STATE_DONE then Some (PJMEDIA_SDPNEG_EINSTATE, neg)
         else if status \<noteq> PJ_SUCCESS then Some (status, neg)
         else
           Option.bind (ng_active_local_sdp neg) (\<lambda>old_offer.
             let new_offer = pjmedia_sdp_session_clone local;
                 origin = (s_origin new_offer)\<lparr>
                   or_user := or_user (s_origin old_offer), or_id := or_id (s_origin old_offer),
                   or_net_type := or_net_type (s_origin old_offer),
                   or_addr_type := or_addr_type (s_origin old_offer),
                   or_addr := or_addr (s_origin old_offer),
                   or_version := or_version (s_origin old_offer) + 1\<rparr>
             in Option.bind
                  (if \<not> allow_media_change
                   then align_media local 0 (s_media old_offer) (s_media new_offer)
                   else append_media local (drop (length (s_media new_offer)) (s_media old_offer))
                          (s_media new_offer)) (\<lambda>media.
                  let new_offer' = new_offer\<lparr>s_origin := origin, s_media := media\<rparr>
                  in Some (PJ_SUCCESS,
                       neg\<lparr>ng_state := PJMEDIA_SDP_NEG_STATE_LOCAL_OFFER,
                           ng_initial_sdp_tmp := ng_initial_sdp neg,
                           ng_initial_sdp := Some new_offer',
                           ng_neg_local_sdp := Some (pjmedia_sdp_session_clone new_offer')\<rparr>))))"

definition pjmedia_sdp_neg_modify_local_offer ::
    "sdp_neg \<Rightarrow> sdp_session \<Rightarrow> (pj_status \<times> sdp_neg) option" where
  "pjmedia_sdp_neg_modify_local_offer neg local = pjmedia_sdp_neg_modify_local_offer2 neg False local"

text \<open>The third component is the offer to send.\<close>

definition pjmedia_sdp_neg_send_local_offer ::
    "sdp_neg \<Rightarrow> pj_status \<times> sdp_neg \<times> sdp_session option" where
  "pjmedia_sdp_neg_send_local_offer neg =
     (if ng_state neg = PJMEDIA_SDP_NEG_STATE_DONE then
        (case ng_active_local_sdp neg of
           None \<Rightarrow> (PJMEDIA_SDPNEG_ENOACTIVE, neg, None)
         | Some active \<Rightarrow>
             (let neg1 = (case ng_initial_sdp neg of
                            Some i \<Rightarrow> neg\<lparr>ng_initial_sdp_tmp := Some i,
                                           ng_initial_sdp := Some (pjmedia_sdp_session_clone i)\<rparr>
                          | None \<Rightarrow> neg)
              in (PJ_SUCCESS,
                  neg1\<lparr>ng_state := PJMEDIA_SDP_NEG_STATE_LOCAL_OFFER,
                       ng_neg_local_sdp := Some (pjmedia_sdp_session_clone active)\<rparr>,
                  Some active)))
      else if ng_state neg = PJMEDIA_SDP_NEG_STATE_LOCAL_OFFER then
        (PJ_SUCCESS, neg, ng_neg_local_sdp neg)
      else (PJMEDIA_SDPNEG_EINSTATE, neg, None))"

definition pjmedia_sdp_neg_set_remote_answer :: "sdp_neg \<Rightarrow> sdp_session \<Rightarrow> pj_status \<times> sdp_neg" where
  "pjmedia_sdp_neg_set_remote_answer neg remote =
     (if ng_state neg \<noteq> PJMEDIA_SDP_NEG_STATE_LOCAL_OFFER then (PJMEDIA_SDPNEG_EINSTATE, neg)
      else (PJ_SUCCESS,
            neg\<lparr>ng_state := PJMEDIA_SDP_NEG_STATE_WAIT_NEGO, ng_has_remote_answer := True,
                ng_neg_remote_sdp := Some (pjmedia_sdp_session_clone remote)\<rparr>))"

definition pjmedia_sdp_neg_set_remote_offer :: "sdp_neg \<Rightarrow> sdp_session \<Rightarrow> pj_status \<times> sdp_neg" where
  "pjmedia_sdp_neg_set_remote_offer neg remote =
     (if ng_state neg \<noteq> PJMEDIA_SDP_NEG_STATE_DONE then (PJMEDIA_SDPNEG_EINSTATE, neg)
      else (PJ_SUCCESS,
            neg\<lparr>ng_state := PJMEDIA_SDP_NEG_STATE_REMOTE_OFFER,
                ng_neg_remote_sdp := Some (pjmedia_sdp_session_clone remote)\<rparr>))"

text \<open>The assertion at the top requires \<^verbatim>\<open>local\<close>, so the branch for a null pointer is never taken.\<close>

definition pjmedia_sdp_neg_set_local_answer :: "sdp_neg \<Rightarrow> sdp_session \<Rightarrow> pj_status \<times> sdp_neg" where
  "pjmedia_sdp_neg_set_local_answer neg local =
     (if ng_state neg \<noteq> PJMEDIA_SDP_NEG_STATE_REMOTE_OFFER \<and>
         ng_state neg \<noteq> PJMEDIA_SDP_NEG_STATE_WAIT_NEGO
      then (PJMEDIA_SDPNEG_EINSTATE, neg)
      else
        let neg1 = neg\<lparr>ng_state := PJMEDIA_SDP_NEG_STATE_WAIT_NEGO\<rparr>;
            neg_local = pjmedia_sdp_session_clone local
        in (PJ_SUCCESS,
            (case ng_initial_sdp neg of
               Some i \<Rightarrow>
                 neg1\<lparr>ng_initial_sdp_tmp := Some i,
                      ng_initial_sdp := Some (pjmedia_sdp_session_clone i),
                      ng_neg_local_sdp :=
                        Some (neg_local\<lparr>s_origin := (s_origin neg_local)\<lparr>or_id := or_id (s_origin i)\<rparr>\<rparr>)\<rparr>
             | None \<Rightarrow>
                 neg1\<lparr>ng_neg_local_sdp := Some neg_local,
                      ng_initial_sdp := Some (pjmedia_sdp_session_clone local)\<rparr>)))"

definition pjmedia_sdp_neg_cancel_offer :: "sdp_neg \<Rightarrow> pj_status \<times> sdp_neg" where
  "pjmedia_sdp_neg_cancel_offer neg =
     (if ng_state neg \<noteq> PJMEDIA_SDP_NEG_STATE_LOCAL_OFFER \<and>
         ng_state neg \<noteq> PJMEDIA_SDP_NEG_STATE_REMOTE_OFFER
      then (PJMEDIA_SDPNEG_EINSTATE, neg)
      else
        let neg1 = (if ng_state neg = PJMEDIA_SDP_NEG_STATE_LOCAL_OFFER
                    then neg\<lparr>ng_active_local_sdp :=
                           map_option (\<lambda>s. s\<lparr>s_origin :=
                             (s_origin s)\<lparr>or_version := or_version (s_origin s) + 1\<rparr>\<rparr>)
                             (ng_active_local_sdp neg),
                         ng_initial_sdp := ng_initial_sdp_tmp neg\<rparr>
                    else neg)
        in (PJ_SUCCESS,
            neg1\<lparr>ng_initial_sdp_tmp := None, ng_neg_local_sdp := None, ng_neg_remote_sdp := None,
                 ng_has_remote_answer := False, ng_state := PJMEDIA_SDP_NEG_STATE_DONE\<rparr>))"

section \<open>Custom format matching\<close>

text \<open>
  An application registers a function per encoding name. The functions are not part of the library;
  \<open>E\<close> gives the table with, for every entry, an identification of the function pointer, and the
  functions' behaviour: the status and the attributes of the answer, the only thing they may change,
  and only when \<open>option\<close> allows to modify the answer.
\<close>

type_synonym fmt_match_cb =
  "sdp_media \<Rightarrow> nat \<Rightarrow> sdp_media \<Rightarrow> nat \<Rightarrow> bool \<Rightarrow> pj_status \<times> sdp_attr list"

type_synonym fmt_match_env = "(bytes \<times> nat) list \<times> (nat \<Rightarrow> fmt_match_cb)"

definition custom_fmt_match ::
    "fmt_match_env \<Rightarrow> bytes \<Rightarrow> sdp_media \<Rightarrow> nat \<Rightarrow> sdp_media \<Rightarrow> nat \<Rightarrow> bool \<Rightarrow>
     pj_status \<times> sdp_attr list" where
  "custom_fmt_match E fmt_name offer o_fmt_idx answer a_fmt_idx option =
     (case find (\<lambda>(name, cb). pj_stricmp_eq fmt_name name) (fst E) of
        Some (_, cb) \<Rightarrow> snd E cb offer o_fmt_idx answer a_fmt_idx option
      | None \<Rightarrow> (PJ_SUCCESS, m_attr answer))"

fun cb_index :: "bytes \<Rightarrow> (bytes \<times> nat) list \<Rightarrow> nat" where
  "cb_index fmt_name [] = 0"
| "cb_index fmt_name (f # fs) =
     (if pj_stricmp_eq fmt_name (fst f) then 0 else Suc (cb_index fmt_name fs))"

definition pjmedia_sdp_neg_register_fmt_match_cb ::
    "bytes \<Rightarrow> nat option \<Rightarrow> (bytes \<times> nat) list \<Rightarrow> pj_status \<times> (bytes \<times> nat) list" where
  "pjmedia_sdp_neg_register_fmt_match_cb fmt_name cb table =
     (let i = cb_index fmt_name table
      in case cb of
           None \<Rightarrow>
             (if i = length table then (PJ_ENOTFOUND, table)
              else (PJ_SUCCESS, pj_array_erase i table))
         | Some c \<Rightarrow>
             (if i < length table then
                (if c \<noteq> snd (table ! i) then PJ_EEXISTS else PJ_SUCCESS, table)
              else if length table \<ge> PJMEDIA_SDP_NEG_MAX_CUSTOM_FMT_NEG_CB then (PJ_ETOOMANY, table)
              else (PJ_SUCCESS, table @ [(fmt_name, c)])))"

text \<open>The payload type as the code computes it, an \<^verbatim>\<open>unsigned\<close>.\<close>

definition pt_of :: "bytes \<Rightarrow> u32" where
  "pt_of fmt = ucast (pj_strtoul fmt)"

definition find_rtpmap :: "sdp_media \<Rightarrow> bytes \<Rightarrow> sdp_attr option" where
  "find_rtpmap m fmt =
     map_option (\<lambda>i. m_attr m ! i) (pjmedia_sdp_media_find_attr m (cstr ''rtpmap'') (Some fmt))"

definition rtpmaps_equal :: "sdp_rtpmap \<Rightarrow> sdp_rtpmap \<Rightarrow> bool" where
  "rtpmaps_equal orm lr \<longleftrightarrow>
     pj_stricmp_eq (rm_enc_name orm) (rm_enc_name lr) \<and> rm_clock_rate orm = rm_clock_rate lr \<and>
     (pj_stricmp_eq (rm_param orm) (rm_param lr) \<or>
      (rm_param lr = [] \<and> rm_param orm = [49]) \<or>
      (rm_param orm = [] \<and> rm_param lr = [49]))"

definition pjmedia_sdp_neg_fmt_match ::
    "fmt_match_env \<Rightarrow> sdp_media \<Rightarrow> nat \<Rightarrow> sdp_media \<Rightarrow> nat \<Rightarrow> bool \<Rightarrow>
     (pj_status \<times> sdp_attr list) option" where
  "pjmedia_sdp_neg_fmt_match E offer o_fmt_idx answer a_fmt_idx option =
     (let o_fmt = m_fmt offer ! o_fmt_idx; a_fmt = m_fmt answer ! a_fmt_idx
      in if pt_of o_fmt < 96 \<or> pt_of a_fmt < 96 then
           Some (if pt_of o_fmt = pt_of a_fmt then PJ_SUCCESS else PJMEDIA_SDP_EFORMATNOTEQUAL,
                 m_attr answer)
         else
           (case find_rtpmap offer o_fmt of
              None \<Rightarrow> Some (PJ_EBUG, m_attr answer)
            | Some oattr \<Rightarrow>
                Option.bind (rtpmap_of oattr) (\<lambda>o_rtpmap.
                case find_rtpmap answer a_fmt of
                  None \<Rightarrow> Some (PJ_EBUG, m_attr answer)
                | Some aattr \<Rightarrow>
                    Option.bind (rtpmap_of aattr) (\<lambda>a_rtpmap.
                    if \<not> rtpmaps_equal o_rtpmap a_rtpmap
                    then Some (PJMEDIA_SDP_EFORMATNOTEQUAL, m_attr answer)
                    else Some (custom_fmt_match E (rm_enc_name o_rtpmap)
                                 offer o_fmt_idx answer a_fmt_idx option)))))"

section \<open>Directions\<close>

datatype media_dir = DIR_NONE | DIR_ENCODING | DIR_DECODING | DIR_ENCODING_DECODING

definition has_attr :: "sdp_media \<Rightarrow> string \<Rightarrow> bool" where
  "has_attr m name \<longleftrightarrow> pjmedia_sdp_media_find_attr m (cstr name) None \<noteq> None"

definition remove_all_media_directions :: "sdp_media \<Rightarrow> sdp_media" where
  "remove_all_media_directions m =
     pjmedia_sdp_media_remove_all_attr
       (pjmedia_sdp_media_remove_all_attr
         (pjmedia_sdp_media_remove_all_attr
           (pjmedia_sdp_media_remove_all_attr m (cstr ''inactive''))
           (cstr ''sendrecv''))
         (cstr ''sendonly''))
       (cstr ''recvonly'')"

text \<open>The direction of the local line.\<close>

definition media_direction :: "sdp_media \<Rightarrow> media_dir" where
  "media_direction local =
     (if has_attr local ''sendonly'' then DIR_ENCODING
      else if has_attr local ''recvonly'' then DIR_DECODING
      else if has_attr local ''inactive'' then DIR_NONE
      else DIR_ENCODING_DECODING)"

definition update_media_direction :: "sdp_media \<Rightarrow> sdp_media \<Rightarrow> sdp_media" where
  "update_media_direction remote local =
     (let old_dir = media_direction local;
          new_dir =
            (if has_attr remote ''inactive'' then DIR_NONE
             else if has_attr remote ''sendonly'' then
               (case old_dir of
                  DIR_ENCODING_DECODING \<Rightarrow> DIR_DECODING
                | DIR_DECODING \<Rightarrow> old_dir
                | _ \<Rightarrow> DIR_NONE)
             else if has_attr remote ''recvonly'' then
               (case old_dir of
                  DIR_ENCODING_DECODING \<Rightarrow> DIR_ENCODING
                | DIR_ENCODING \<Rightarrow> old_dir
                | _ \<Rightarrow> DIR_NONE)
             else old_dir)
      in if new_dir \<noteq> old_dir then
           let local1 = remove_all_media_directions local
           in (case new_dir of
                 DIR_NONE \<Rightarrow>
                   pjmedia_sdp_media_add_attr local1 (pjmedia_sdp_attr_create (cstr ''inactive'') None)
               | DIR_ENCODING \<Rightarrow>
                   pjmedia_sdp_media_add_attr local1 (pjmedia_sdp_attr_create (cstr ''sendonly'') None)
               | DIR_DECODING \<Rightarrow>
                   pjmedia_sdp_media_add_attr local1 (pjmedia_sdp_attr_create (cstr ''recvonly'') None)
               | DIR_ENCODING_DECODING \<Rightarrow> local1)
         else local)"

section \<open>Processing an answer\<close>

text \<open>\<^verbatim>\<open>a = find_attr2(...); if (a) remove_attr(m, a)\<close>.\<close>

definition remove_found :: "string \<Rightarrow> bytes \<Rightarrow> sdp_media \<Rightarrow> sdp_media" where
  "remove_found name fmt m =
     (case pjmedia_sdp_media_find_attr m (cstr name) (Some fmt) of
        Some i \<Rightarrow> pjmedia_sdp_media_remove_attr m i
      | None \<Rightarrow> m)"

text \<open>The matching used for an answer: the channel count may be given as 1 in the answer only.\<close>

definition answer_rtpmap_matches :: "sdp_rtpmap \<Rightarrow> sdp_rtpmap \<Rightarrow> bool" where
  "answer_rtpmap_matches orm ar \<longleftrightarrow>
     pj_stricmp_eq (rm_enc_name orm) (rm_enc_name ar) \<and> rm_clock_rate orm = rm_clock_rate ar \<and>
     (pj_stricmp_eq (rm_param orm) (rm_param ar) \<or> rm_param ar = [49])"

text \<open>
  The search for the answer format that matches a dynamic payload type of the offer; the result is
  an index, the number of formats when there is none.
\<close>

fun find_dynamic_answer ::
    "fmt_match_env \<Rightarrow> sdp_rtpmap \<Rightarrow> sdp_media \<Rightarrow> nat \<Rightarrow> sdp_media \<Rightarrow> nat \<Rightarrow> bytes list \<Rightarrow> nat option" where
  "find_dynamic_answer E orm offer i answer j [] = Some j"
| "find_dynamic_answer E orm offer i answer j (afmt # afmts) =
     (case find_rtpmap answer afmt of
        None \<Rightarrow> find_dynamic_answer E orm offer i answer (Suc j) afmts
      | Some a \<Rightarrow>
          Option.bind (rtpmap_of a) (\<lambda>ar.
            if answer_rtpmap_matches orm ar \<and>
               fst (custom_fmt_match E (rm_enc_name orm) offer i answer j False) = PJ_SUCCESS
            then Some j
            else find_dynamic_answer E orm offer i answer (Suc j) afmts))"

definition find_answer_fmt ::
    "fmt_match_env \<Rightarrow> sdp_media \<Rightarrow> nat \<Rightarrow> sdp_media \<Rightarrow> (pj_status + nat) option" where
  "find_answer_fmt E offer i answer =
     (let fmt = m_fmt offer ! i
      in if pt_of fmt < 96 then Some (Inr (length (takeWhile (\<lambda>f. fmt \<noteq> f) (m_fmt answer))))
         else
           (case find_rtpmap offer fmt of
              None \<Rightarrow> Some (Inl PJ_EBUG)
            | Some a \<Rightarrow>
                Option.bind (rtpmap_of a) (\<lambda>orm.
                  map_option Inr (find_dynamic_answer E orm offer i answer 0 (m_fmt answer)))))"

definition remove_fmt :: "nat \<Rightarrow> sdp_media \<Rightarrow> sdp_media" where
  "remove_fmt i m =
     (let fmt = m_fmt m ! i; m' = remove_found ''fmtp'' fmt (remove_found ''rtpmap'' fmt m)
      in m'\<lparr>m_fmt := pj_array_erase i (m_fmt m')\<rparr>)"

lemma remove_found_fmt [simp]: "m_fmt (remove_found name fmt m) = m_fmt m"
  by (simp add: remove_found_def pjmedia_sdp_media_remove_attr_def split: option.split)

lemma remove_fmt_fmts: "m_fmt (remove_fmt i m) = pj_array_erase i (m_fmt m)"
  by (simp add: remove_fmt_def Let_def)

lemma length_erase: "i < length xs \<Longrightarrow> length (pj_array_erase i xs) = length xs - 1"
  by (simp add: pj_array_erase_def)

text \<open>
  \<^verbatim>\<open>Remove all format in the offer that has no matching answer\<close>: the offer, and for each format that
  stays the index of its match in the answer.
\<close>

function prune_offer ::
    "fmt_match_env \<Rightarrow> sdp_media \<Rightarrow> nat \<Rightarrow> nat list \<Rightarrow> sdp_media \<Rightarrow>
     (pj_status \<times> sdp_media + sdp_media \<times> nat list) option" where
  "prune_offer E answer i prior offer =
     (if i < length (m_fmt offer) then
        (case find_answer_fmt E offer i answer of
           None \<Rightarrow> None
         | Some (Inl status) \<Rightarrow> Some (Inl (status, offer))
         | Some (Inr j) \<Rightarrow>
             (if j = length (m_fmt answer)
              then prune_offer E answer i prior (remove_fmt i offer)
              else prune_offer E answer (Suc i) (prior @ [j]) offer))
      else Some (Inr (offer, prior)))"
  by pat_completeness auto
termination
  by (relation "measure (\<lambda>(E, answer, i, prior, offer). length (m_fmt offer) - i)")
    (auto simp: remove_fmt_fmts length_erase)

text \<open>\<^verbatim>\<open>Resort offer formats\<close>: the priorities and the formats are exchanged together.\<close>

definition exchange :: "nat \<Rightarrow> (nat \<times> bytes) list \<Rightarrow> nat \<Rightarrow> (nat \<times> bytes) list" where
  "exchange i ps j =
     (if fst (ps ! i) > fst (ps ! j) then ps[i := ps ! j, j := ps ! i] else ps)"

definition resort_offer :: "(nat \<times> bytes) list \<Rightarrow> (nat \<times> bytes) list" where
  "resort_offer ps =
     foldl (\<lambda>ps i. foldl (exchange i) ps [Suc i ..< length ps]) ps [0 ..< length ps]"

text \<open>\<^verbatim>\<open>Remove unmatched answer formats\<close>.\<close>

function prune_answer :: "nat list \<Rightarrow> nat \<Rightarrow> nat \<Rightarrow> sdp_media \<Rightarrow> sdp_media" where
  "prune_answer prior i del_cnt answer =
     (if i < length (m_fmt answer) then
        (if i \<ge> length prior \<or> (of_nat (prior ! i) - of_nat del_cnt :: u32) \<noteq> of_nat i
         then prune_answer prior i (Suc del_cnt) (remove_fmt i answer)
         else prune_answer prior (Suc i) del_cnt answer)
      else answer)"
  by pat_completeness auto
termination
  by (relation "measure (\<lambda>(prior, i, del_cnt, answer). length (m_fmt answer) - i)")
    (auto simp: remove_fmt_fmts length_erase)

declare prune_offer.simps [simp del] prune_answer.simps [simp del]

text \<open>
  The check for asymmetric codecs. The inner loop runs up to the number of formats of the offer but
  compares with the formats of the answer; behind those, the array is not initialised.
\<close>

fun asym_inner :: "sdp_media \<Rightarrow> bytes \<Rightarrow> nat list \<Rightarrow> bool option" where
  "asym_inner answer rem_fmt [] = Some False"
| "asym_inner answer rem_fmt (j # js) =
     (if j < length (m_fmt answer) then
        (if rem_fmt = m_fmt answer ! j then Some True else asym_inner answer rem_fmt js)
      else None)"

fun asym_has_common :: "sdp_media \<Rightarrow> sdp_media \<Rightarrow> bytes list \<Rightarrow> bool option" where
  "asym_has_common offer answer [] = Some False"
| "asym_has_common offer answer (rem_fmt # fmts) =
     Option.bind (asym_inner answer rem_fmt [0 ..< length (m_fmt offer)]) (\<lambda>found.
       if found then Some True else asym_has_common offer answer fmts)"

text \<open>\<^verbatim>\<open>process_m_answer\<close>: status, offer and answer.\<close>

definition process_m_answer ::
    "fmt_match_env \<Rightarrow> sdp_media \<Rightarrow> sdp_media \<Rightarrow> bool \<Rightarrow>
     (pj_status \<times> sdp_media \<times> sdp_media) option" where
  "process_m_answer E offer answer allow_asym =
     (if m_media answer \<noteq> m_media offer then Some (PJMEDIA_SDPNEG_EINVANSMEDIA, offer, answer)
      else if pjmedia_sdp_transport_cmp (m_transport answer) (m_transport offer) \<noteq> PJ_SUCCESS
      then Some (PJMEDIA_SDPNEG_EINVANSTP, offer, answer)
      else if m_port answer = 0 then Some (PJ_SUCCESS, pjmedia_sdp_media_deactivate offer, answer)
      else if m_port offer = 0 then Some (PJ_SUCCESS, offer, answer)
      else
        let offer1 = update_media_direction answer offer
        in if allow_asym then
             map_option (\<lambda>common.
               (if common then PJ_SUCCESS else PJMEDIA_SDPNEG_EANSNOMEDIA, offer1, answer))
               (asym_has_common offer1 answer (m_fmt answer))
           else
             Option.bind (prune_offer E answer 0 [] offer1) (\<lambda>r.
               case r of
                 Inl (status, offer2) \<Rightarrow> Some (status, offer2, answer)
               | Inr (offer2, prior) \<Rightarrow>
                   if m_fmt offer2 = [] then Some (PJMEDIA_SDPNEG_EANSNOMEDIA, offer2, answer)
                   else
                     let sorted_fmts = resort_offer (zip prior (m_fmt offer2));
                         offer3 = offer2\<lparr>m_fmt := map snd sorted_fmts\<rparr>
                     in Some (PJ_SUCCESS, offer3, prune_answer (map fst sorted_fmts) 0 0 answer)))"

text \<open>
  The loop of \<^verbatim>\<open>process_answer\<close> over the lines of the offer; \<open>done_ans\<close> are the lines of the answer
  before \<^verbatim>\<open>ami\<close>, \<open>ans\<close> those from it on. The status of the first error ends it.
\<close>

fun process_media ::
    "fmt_match_env \<Rightarrow> sdp_session \<Rightarrow> bool \<Rightarrow> sdp_media list \<Rightarrow> sdp_media list \<Rightarrow>
     sdp_media list \<Rightarrow> sdp_media list \<Rightarrow> bool \<Rightarrow>
     (pj_status \<times> sdp_media list \<times> sdp_media list \<times> bool) option" where
  "process_media E offer allow_asym [] ans done_off done_ans has_active =
     Some (PJ_SUCCESS, done_off, done_ans @ ans, has_active)"
| "process_media E offer allow_asym (om # oms) [] done_off done_ans has_active =
     process_media E offer allow_asym oms []
       (done_off @ [pjmedia_sdp_media_deactivate om])
       (done_ans @ [sdp_media_clone_deactivate om (Some om) (Some offer)]) has_active"
| "process_media E offer allow_asym (om # oms) (am # ams) done_off done_ans has_active =
     Option.bind (process_m_answer E om am allow_asym) (\<lambda>(status, om1, am1).
       if status = PJMEDIA_SDPNEG_EINVANSMEDIA then
         process_media E offer allow_asym oms (am1 # ams)
           (done_off @ [pjmedia_sdp_media_deactivate om1]) done_ans has_active
       else if status = PJMEDIA_SDPNEG_EANSNOMEDIA then
         process_media E offer allow_asym oms ams
           (done_off @ [pjmedia_sdp_media_deactivate om1])
           (done_ans @ [pjmedia_sdp_media_deactivate am1]) has_active
       else if status \<noteq> PJ_SUCCESS then
         Some (status, done_off @ om1 # oms, done_ans @ am1 # ams, has_active)
       else
         process_media E offer allow_asym oms ams (done_off @ [om1]) (done_ans @ [am1])
           (has_active \<or> m_port om1 \<noteq> 0))"

text \<open>
  The array of media lines of the answer has room for the lines of the offer, which is no longer.
  The results are the status and the two sessions.
\<close>

definition process_answer ::
    "fmt_match_env \<Rightarrow> sdp_session \<Rightarrow> sdp_session \<Rightarrow> bool \<Rightarrow>
     (pj_status \<times> sdp_session \<times> sdp_session) option" where
  "process_answer E offer answer allow_asym =
     map_option (\<lambda>(status, oms, ams, has_active).
       (if status \<noteq> PJ_SUCCESS then status
        else if has_active then PJ_SUCCESS else PJMEDIA_SDPNEG_ENOMEDIA,
        offer\<lparr>s_media := oms\<rparr>, answer\<lparr>s_media := ams\<rparr>))
       (process_media E offer allow_asym (s_media offer) (s_media answer) [] [] False)"

section \<open>Creating an answer\<close>

text \<open>
  \<^verbatim>\<open>rewrite_pt\<close>: with a longer new payload type the value is copied behind the difference into a
  new block, with a shorter one it is moved down in place; then the new type is written over the
  beginning. A value shorter than the old payload type is overrun.
\<close>

definition rewrite_pt :: "bytes \<Rightarrow> bytes \<Rightarrow> bytes \<Rightarrow> bytes option" where
  "rewrite_pt attr_val old_pt new_pt =
     (let len_diff = int (length new_pt) - int (length old_pt);
          moved = (if len_diff > 0 then replicate (nat len_diff) 0 @ attr_val
                   else if len_diff < 0 then drop (nat (- len_diff)) attr_val
                   else attr_val)
      in if length old_pt \<le> length attr_val then Some (new_pt @ drop (length new_pt) moved)
         else None)"

text \<open>Take one attribute out, with its payload type rewritten.\<close>

definition take_rewritten ::
    "string \<Rightarrow> bytes \<Rightarrow> bytes \<Rightarrow> sdp_media \<Rightarrow> sdp_attr list \<Rightarrow> (sdp_media \<times> sdp_attr list) option" where
  "take_rewritten name old_pt new_pt answer a_tmp =
     (case pjmedia_sdp_media_find_attr answer (cstr name) (Some old_pt) of
        None \<Rightarrow> Some (answer, a_tmp)
      | Some k \<Rightarrow>
          map_option (\<lambda>v. (pjmedia_sdp_media_remove_attr answer k,
                           a_tmp @ [(m_attr answer ! k)\<lparr>at_value := v\<rparr>]))
            (rewrite_pt (at_value (m_attr answer ! k)) old_pt new_pt))"

text \<open>The loop over the pairs of payload types in offer and answer.\<close>

fun symmetric_loop ::
    "nat \<Rightarrow> (bytes \<times> bytes) list \<Rightarrow> sdp_media \<Rightarrow> sdp_attr list \<Rightarrow> (sdp_media \<times> sdp_attr list) option" where
  "symmetric_loop i [] answer a_tmp = Some (answer, a_tmp)"
| "symmetric_loop i ((po, pa) # pts) answer a_tmp =
     (if pa = po then symmetric_loop (Suc i) pts answer a_tmp
      else
        Option.bind (take_rewritten ''rtpmap'' pa po (answer\<lparr>m_fmt := (m_fmt answer)[i := po]\<rparr>) a_tmp)
          (\<lambda>(answer1, a_tmp1).
        Option.bind (take_rewritten ''fmtp'' pa po answer1 a_tmp1) (\<lambda>(answer2, a_tmp2).
          symmetric_loop (Suc i) pts answer2 a_tmp2)))"

definition apply_answer_symmetric_pt ::
    "sdp_media \<Rightarrow> (bytes \<times> bytes) list \<Rightarrow> sdp_media option" where
  "apply_answer_symmetric_pt answer pts =
     map_option (\<lambda>(answer', a_tmp). foldl pjmedia_sdp_media_add_attr answer' a_tmp)
       (symmetric_loop 0 pts answer [])"

text \<open>
  The variables of the main loop of \<^verbatim>\<open>match_offer\<close>: the arrays \<^verbatim>\<open>pt_offer\<close> and \<^verbatim>\<open>pt_answer\<close> are one list
  of pairs. \<open>mo_pre\<close> is the line of the local capabilities, whose attributes a callback may change.
\<close>

record match_state =
  mo_pre :: sdp_media
  mo_master_has_codec :: bool
  mo_master_has_other :: bool
  mo_found_codec :: bool
  mo_found_televent :: bool
  mo_found_other :: bool
  mo_pts :: "(bytes \<times> bytes) list"
  mo_clockrate :: "u32 list"

definition add_clockrate :: "u32 \<Rightarrow> u32 list \<Rightarrow> u32 list" where
  "add_clockrate r rates = (if r \<in> set rates then rates else rates @ [r])"

definition mo_slave :: "bool \<Rightarrow> sdp_media \<Rightarrow> match_state \<Rightarrow> sdp_media" where
  "mo_slave prefer offer st = (if prefer then mo_pre st else offer)"

definition mo_master :: "bool \<Rightarrow> sdp_media \<Rightarrow> match_state \<Rightarrow> sdp_media" where
  "mo_master prefer offer st = (if prefer then offer else mo_pre st)"

text \<open>The pair of payload types noted for a match of master format \<open>i\<close> with slave format \<open>j\<close>.\<close>

definition pt_pair :: "bool \<Rightarrow> sdp_media \<Rightarrow> sdp_media \<Rightarrow> nat \<Rightarrow> nat \<Rightarrow> bytes \<times> bytes" where
  "pt_pair prefer offer preanswer i j =
     (if prefer then (m_fmt offer ! i, m_fmt preanswer ! j)
      else (m_fmt offer ! j, m_fmt preanswer ! i))"

fun match_dynamic ::
    "fmt_match_env \<Rightarrow> bool \<Rightarrow> sdp_media \<Rightarrow> nat \<Rightarrow> sdp_rtpmap \<Rightarrow> bool \<Rightarrow> nat list \<Rightarrow> match_state \<Rightarrow>
     match_state option" where
  "match_dynamic E prefer offer i orm is_codec [] st = Some st"
| "match_dynamic E prefer offer i orm is_codec (j # js) st =
     (let slave = mo_slave prefer offer st; preanswer = mo_pre st
      in case find_rtpmap slave (m_fmt slave ! j) of
           None \<Rightarrow> match_dynamic E prefer offer i orm is_codec js st
         | Some a \<Rightarrow>
             Option.bind (rtpmap_of a) (\<lambda>lr.
               if \<not> rtpmaps_equal orm lr then match_dynamic E prefer offer i orm is_codec js st
               else if is_codec then
                 (case custom_fmt_match E (rm_enc_name orm)
                         offer (if prefer then i else j) preanswer (if prefer then j else i) True of
                    (status, attrs) \<Rightarrow>
                      let st1 = st\<lparr>mo_pre := preanswer\<lparr>m_attr := attrs\<rparr>\<rparr>
                      in if status \<noteq> PJ_SUCCESS then match_dynamic E prefer offer i orm is_codec js st1
                         else Some (st1\<lparr>mo_found_codec := True,
                                        mo_clockrate := add_clockrate (rm_clock_rate orm) (mo_clockrate st1),
                                        mo_pts := mo_pts st1 @ [pt_pair prefer offer preanswer i j]\<rparr>))
               else Some (st\<lparr>mo_found_televent := True,
                             mo_pts := mo_pts st @ [pt_pair prefer offer preanswer i j]\<rparr>)))"

text \<open>A static payload type is compared by number; both arrays get the format of the slave.\<close>

definition match_static :: "sdp_media \<Rightarrow> u32 \<Rightarrow> match_state \<Rightarrow> match_state" where
  "match_static slave pt st =
     (case find (\<lambda>f. pt_of f = pt \<and> pj_isdigit (first_octet f)) (m_fmt slave) of
        Some f \<Rightarrow> st\<lparr>mo_found_codec := True, mo_pts := mo_pts st @ [(f, f)],
                      mo_clockrate := add_clockrate 8000 (mo_clockrate st)\<rparr>
      | None \<Rightarrow> st)"

definition match_other :: "bool \<Rightarrow> sdp_media \<Rightarrow> nat \<Rightarrow> bytes \<Rightarrow> match_state \<Rightarrow> match_state" where
  "match_other prefer offer i fmt st =
     (case find (\<lambda>j. fmt = m_fmt (mo_slave prefer offer st) ! j)
             [0 ..< length (m_fmt (mo_slave prefer offer st))] of
        Some j \<Rightarrow> st\<lparr>mo_found_other := True,
                      mo_pts := mo_pts st @ [pt_pair prefer offer (mo_pre st) i j]\<rparr>
      | None \<Rightarrow> st)"

text \<open>One turn of the main loop; \<open>Inl\<close> is an early return.\<close>

definition match_turn ::
    "fmt_match_env \<Rightarrow> bool \<Rightarrow> bool \<Rightarrow> sdp_media \<Rightarrow> nat \<Rightarrow> match_state \<Rightarrow>
     (pj_status + match_state) option" where
  "match_turn E prefer multiple offer i st =
     (let master = mo_master prefer offer st; slave = mo_slave prefer offer st;
          fmt = m_fmt master ! i
      in if pj_isdigit (first_octet fmt) then
           (if pt_of fmt < 96 then
              (let st1 = st\<lparr>mo_master_has_codec := True\<rparr>
               in if \<not> multiple \<and> mo_found_codec st1 then Some (Inr st1)
                  else Some (Inr (match_static slave (pt_of fmt) st1)))
            else
              (case find_rtpmap master fmt of
                 None \<Rightarrow> Some (Inl PJMEDIA_SDP_EMISSINGRTPMAP)
               | Some a \<Rightarrow>
                   Option.bind (rtpmap_of a) (\<lambda>orm.
                     let is_codec = (\<not> pj_stricmp_eq (rm_enc_name orm) (cstr ''telephone-event''));
                         st1 = (if is_codec then st\<lparr>mo_master_has_codec := True\<rparr> else st)
                     in if is_codec \<and> \<not> multiple \<and> mo_found_codec st1 then Some (Inr st1)
                        else map_option Inr
                               (match_dynamic E prefer offer i orm is_codec
                                  [0 ..< length (m_fmt slave)] st1))))
         else
           (let st1 = st\<lparr>mo_master_has_other := True\<rparr>
            in if mo_found_other st1 then Some (Inr st1)
               else Some (Inr (match_other prefer offer i fmt st1))))"

fun match_loop ::
    "fmt_match_env \<Rightarrow> bool \<Rightarrow> bool \<Rightarrow> sdp_media \<Rightarrow> nat list \<Rightarrow> match_state \<Rightarrow>
     (pj_status \<times> sdp_media + match_state) option" where
  "match_loop E prefer multiple offer [] st = Some (Inr st)"
| "match_loop E prefer multiple offer (i # is) st =
     Option.bind (match_turn E prefer multiple offer i st) (\<lambda>r.
       case r of
         Inl status \<Rightarrow> Some (Inl (status, mo_pre st))
       | Inr st1 \<Rightarrow> match_loop E prefer multiple offer is st1)"

text \<open>
  \<^verbatim>\<open>Remove unwanted telephone-event formats\<close>: the pairs that stay, the first telephone event and the
  number of telephone events with a wanted clock rate.
\<close>

fun televent_loop ::
    "sdp_media \<Rightarrow> u32 list \<Rightarrow> (bytes \<times> bytes) list \<Rightarrow> bytes \<times> bytes \<Rightarrow> nat \<Rightarrow>
     ((bytes \<times> bytes) list \<times> (bytes \<times> bytes) \<times> nat) option" where
  "televent_loop preanswer rates [] first_te matched = Some ([], first_te, matched)"
| "televent_loop preanswer rates ((po, pa) # pts) first_te matched =
     (let keep = (\<lambda>ft m. map_option (\<lambda>(ps, r). ((po, pa) # ps, r))
                           (televent_loop preanswer rates pts ft m))
      in if \<not> pj_isdigit (first_octet pa) \<or> pj_strtol pa < 96 then keep first_te matched
         else
           (case find_rtpmap preanswer pa of
              None \<Rightarrow> None
            | Some a \<Rightarrow>
                Option.bind (rtpmap_of a) (\<lambda>r.
                  if \<not> pj_stricmp_eq (rm_enc_name r) (cstr ''telephone-event'') then keep first_te matched
                  else
                    let ft = (if fst first_te = [] then (po, pa) else first_te)
                    in if rm_clock_rate r \<in> set rates then keep ft (Suc matched)
                       else televent_loop preanswer rates pts ft matched)))"

definition filter_televents ::
    "sdp_media \<Rightarrow> u32 list \<Rightarrow> (bytes \<times> bytes) list \<Rightarrow> (bytes \<times> bytes) list option" where
  "filter_televents preanswer rates pts =
     map_option (\<lambda>(ps, ft, matched). if matched = 0 then ps @ [ft] else ps)
       (televent_loop preanswer rates pts ([], []) 0)"

text \<open>\<^verbatim>\<open>reorder the payload to suit the offer\<close>: a payload type that is not found is read beyond the array.\<close>

fun reorder_fmts :: "nat \<Rightarrow> bytes list \<Rightarrow> bytes list \<Rightarrow> bytes list option" where
  "reorder_fmts i [] fmts = Some fmts"
| "reorder_fmts i (pa # pas) fmts =
     (case find (\<lambda>j. fmts ! j = pa) [i ..< length fmts] of
        Some j \<Rightarrow> reorder_fmts (Suc i) pas (fmts[i := fmts ! j, j := fmts ! i])
      | None \<Rightarrow> None)"

definition build_answer :: "sdp_media \<Rightarrow> (bytes \<times> bytes) list \<Rightarrow> sdp_media option" where
  "build_answer preanswer pts =
     Option.bind (reorder_fmts 0 (map snd pts) (m_fmt preanswer)) (\<lambda>fmts.
       let answer = (pjmedia_sdp_media_clone preanswer)\<lparr>m_fmt := fmts\<rparr>;
           answer1 = foldl (\<lambda>m fmt. remove_found ''fmtp'' fmt (remove_found ''rtpmap'' fmt m))
                       answer (drop (length pts) fmts)
       in apply_answer_symmetric_pt (answer1\<lparr>m_fmt := take (length pts) fmts\<rparr>) pts)"

text \<open>
  \<^verbatim>\<open>match_offer\<close>: the status or the answer, and the line of the local capabilities afterwards.
\<close>

definition match_offer ::
    "fmt_match_env \<Rightarrow> bool \<Rightarrow> bool \<Rightarrow> sdp_media \<Rightarrow> sdp_media \<Rightarrow> sdp_session \<Rightarrow>
     ((pj_status + sdp_media) \<times> sdp_media) option" where
  "match_offer E prefer multiple offer preanswer preanswer_sdp =
     (if m_port offer = 0 then
        Some (Inr (sdp_media_clone_deactivate offer (Some preanswer) (Some preanswer_sdp)), preanswer)
      else if m_port preanswer = 0 then Some (Inr (pjmedia_sdp_media_clone preanswer), preanswer)
      else
        let st0 = \<lparr>mo_pre = preanswer, mo_master_has_codec = False, mo_master_has_other = False,
                   mo_found_codec = False, mo_found_televent = False, mo_found_other = False,
                   mo_pts = [], mo_clockrate = []\<rparr>
        in Option.bind
             (match_loop E prefer multiple offer
                [0 ..< length (m_fmt (mo_master prefer offer st0))] st0) (\<lambda>r.
             case r of
               Inl (status, pre) \<Rightarrow> Some (Inl status, pre)
             | Inr st \<Rightarrow>
                 if mo_master_has_codec st \<and> \<not> mo_found_codec st
                 then Some (Inl PJMEDIA_SDPNEG_NOANSCODEC, mo_pre st)
                 else if mo_master_has_other st \<and> \<not> mo_found_other st
                 then Some (Inl PJMEDIA_SDPNEG_NOANSUNKNOWN, mo_pre st)
                 else
                   Option.bind
                     (if mo_found_televent st
                      then filter_televents (mo_pre st) (mo_clockrate st) (mo_pts st)
                      else Some (mo_pts st)) (\<lambda>pts.
                   map_option (\<lambda>answer. (Inr (update_media_direction offer answer), mo_pre st))
                     (build_answer (mo_pre st) pts))))"

text \<open>
  The search of \<^verbatim>\<open>create_answer\<close> for a local line that answers \<open>om\<close>: the answer, the local lines with
  their use marks, and the status of the last attempt that failed.
\<close>

fun find_answer_media ::
    "fmt_match_env \<Rightarrow> bool \<Rightarrow> bool \<Rightarrow> sdp_session \<Rightarrow> sdp_media \<Rightarrow> (sdp_media \<times> bool) list \<Rightarrow>
     pj_status \<Rightarrow> (sdp_media option \<times> (sdp_media \<times> bool) list \<times> pj_status) option" where
  "find_answer_media E prefer multiple initial om [] status = Some (None, [], status)"
| "find_answer_media E prefer multiple initial om ((im, used) # ims) status =
     (if m_media om = m_media im \<and> m_transport om = m_transport im \<and> \<not> used then
        Option.bind (match_offer E prefer multiple om im initial) (\<lambda>(r, im1).
          case r of
            Inr am \<Rightarrow> Some (Some am, (im1, True) # ims, status)
          | Inl status2 \<Rightarrow>
              map_option (\<lambda>(am, ims', st). (am, (im1, used) # ims', st))
                (find_answer_media E prefer multiple initial om ims status2))
      else
        map_option (\<lambda>(am, ims', st). (am, (im, used) # ims', st))
          (find_answer_media E prefer multiple initial om ims status))"

text \<open>The loop over the lines of the offer.\<close>

fun answer_media ::
    "fmt_match_env \<Rightarrow> bool \<Rightarrow> bool \<Rightarrow> sdp_session \<Rightarrow> sdp_media list \<Rightarrow> (sdp_media \<times> bool) list \<Rightarrow>
     pj_status \<Rightarrow> (sdp_media list \<times> pj_status) option" where
  "answer_media E prefer multiple initial [] ims status = Some ([], status)"
| "answer_media E prefer multiple initial (om # oms) ims status =
     Option.bind (find_answer_media E prefer multiple initial om ims status) (\<lambda>(found, ims1, status1).
       let am = (case found of
                   Some am \<Rightarrow> am
                 | None \<Rightarrow> sdp_media_clone_deactivate om (Some om) (Some (initial\<lparr>s_media := []\<rparr>)))
       in map_option (\<lambda>(ams, st). (am # ams, st))
            (answer_media E prefer multiple initial oms ims1 status1))"

text \<open>
  \<^verbatim>\<open>create_answer\<close>: the status and, unless the offer is invalid, the answer. The variable \<^verbatim>\<open>status\<close> is
  initialised with \<^verbatim>\<open>PJMEDIA_SDPNEG_ENOMEDIA\<close> and then assigned the result of the validation.
\<close>

definition create_answer ::
    "fmt_match_env \<Rightarrow> bool \<Rightarrow> bool \<Rightarrow> sdp_session \<Rightarrow> sdp_session \<Rightarrow>
     (pj_status \<times> sdp_session option) option" where
  "create_answer E prefer multiple initial offer =
     (let status = pjmedia_sdp_validate offer
      in if status \<noteq> PJ_SUCCESS then Some (status, None)
         else
           map_option (\<lambda>(ams, status1).
             (if list_ex (\<lambda>am. m_port am \<noteq> 0) ams then PJ_SUCCESS else status1,
              Some ((pjmedia_sdp_session_clone initial)\<lparr>s_media := ams\<rparr>)))
             (answer_media E prefer multiple initial (s_media offer)
                (map (\<lambda>m. (m, False)) (s_media initial)) status))"

section \<open>Negotiation\<close>

text \<open>
  The two directions, then what happens \<^verbatim>\<open>regardless\<close>. Without a local description
  \<^verbatim>\<open>process_answer\<close> fails its assertion and \<^verbatim>\<open>create_answer\<close> cannot copy it.
\<close>

definition negotiate_remote_answer ::
    "fmt_match_env \<Rightarrow> sdp_neg \<Rightarrow> bool \<Rightarrow> (pj_status \<times> sdp_neg) option" where
  "negotiate_remote_answer E neg allow_asym =
     Option.bind (ng_neg_remote_sdp neg) (\<lambda>remote.
       case ng_neg_local_sdp neg of
         None \<Rightarrow> Some (PJ_EINVAL, neg)
       | Some local \<Rightarrow>
           map_option (\<lambda>(status, active, remote').
             (status,
              if status = PJ_SUCCESS
              then neg\<lparr>ng_active_local_sdp := Some active, ng_active_remote_sdp := Some remote'\<rparr>
              else neg))
             (process_answer E local remote allow_asym))"

definition negotiate_local_answer ::
    "fmt_match_env \<Rightarrow> sdp_neg \<Rightarrow> (pj_status \<times> sdp_neg) option" where
  "negotiate_local_answer E neg =
     Option.bind (ng_neg_remote_sdp neg) (\<lambda>remote.
     Option.bind
       (case ng_neg_local_sdp neg of
          None \<Rightarrow>
            (let status = pjmedia_sdp_validate remote
             in Some (if status \<noteq> PJ_SUCCESS then status else PJ_ENOMEM, None))
        | Some local \<Rightarrow>
            create_answer E (ng_prefer_remote_codec_order neg) (ng_answer_with_multiple_codecs neg)
              local remote) (\<lambda>(status, ans).
       if status \<noteq> PJ_SUCCESS then Some (status, neg)
       else
         Option.bind ans (\<lambda>answer.
         Option.bind (case ng_active_local_sdp neg of Some s \<Rightarrow> Some s | None \<Rightarrow> ng_initial_sdp neg)
           (\<lambda>base.
           let answer' = answer\<lparr>s_origin :=
                 (s_origin answer)\<lparr>or_version := or_version (s_origin base) + 1\<rparr>\<rparr>
           in Some (PJ_SUCCESS,
                neg\<lparr>ng_active_local_sdp := Some answer', ng_active_remote_sdp := Some remote\<rparr>)))))"

definition pjmedia_sdp_neg_negotiate ::
    "fmt_match_env \<Rightarrow> sdp_neg \<Rightarrow> bool \<Rightarrow> (pj_status \<times> sdp_neg) option" where
  "pjmedia_sdp_neg_negotiate E neg allow_asym =
     (if ng_state neg \<noteq> PJMEDIA_SDP_NEG_STATE_WAIT_NEGO then Some (PJMEDIA_SDPNEG_EINSTATE, neg)
      else if ng_neg_remote_sdp neg = None then Some (PJ_EBUG, neg)
      else
        map_option (\<lambda>(status, neg1).
          (status,
           neg1\<lparr>ng_state := PJMEDIA_SDP_NEG_STATE_DONE,
                ng_answer_was_remote := ng_has_remote_answer neg1,
                ng_initial_sdp := (if status \<noteq> PJ_SUCCESS then ng_initial_sdp_tmp neg1
                                   else ng_initial_sdp neg1),
                ng_initial_sdp_tmp := None, ng_neg_local_sdp := None, ng_neg_remote_sdp := None,
                ng_has_remote_answer := False\<rparr>))
          (if ng_has_remote_answer neg then negotiate_remote_answer E neg allow_asym
           else negotiate_local_answer E neg))"

end
