(* ===== verification/Sdp_Neg_Answer.thy ===== *)
theory Sdp_Neg_Answer
  imports Sdp_Neg "HOL-Library.Multiset"
begin

text \<open>
  The outcome of an offer/answer exchange, for one media line and for the session: directions are
  intersected, processing a remote answer leaves offer and answer with matching formats in the same
  order, and a created answer covers the offer.
\<close>

section \<open>Specification vocabulary\<close>

fun sends :: "media_dir \<Rightarrow> bool" where
  "sends DIR_ENCODING = True" | "sends DIR_ENCODING_DECODING = True" | "sends _ = False"

fun receives :: "media_dir \<Rightarrow> bool" where
  "receives DIR_DECODING = True" | "receives DIR_ENCODING_DECODING = True" | "receives _ = False"

text \<open>The direction a remote line asks for; its attributes are looked up in another order.\<close>

definition remote_direction :: "sdp_media \<Rightarrow> media_dir" where
  "remote_direction m =
     (if has_attr m ''inactive'' then DIR_NONE
      else if has_attr m ''sendonly'' then DIR_ENCODING
      else if has_attr m ''recvonly'' then DIR_DECODING
      else DIR_ENCODING_DECODING)"

text \<open>
  When a format of the offer and one of the answer are the same codec: the same static payload type,
  or two dynamic ones whose \<^verbatim>\<open>rtpmap\<close> attributes agree.
\<close>

definition formats_match :: "sdp_media \<Rightarrow> sdp_media \<Rightarrow> bytes \<Rightarrow> bytes \<Rightarrow> bool" where
  "formats_match offer answer fo fa \<longleftrightarrow>
     (pt_of fo < 96 \<and> fa = fo) \<or>
     (\<exists>a\<in>set (m_attr offer). \<exists>b\<in>set (m_attr answer). \<exists>orm ar.
        attr_matches (cstr ''rtpmap'') (Some fo) a \<and> attr_matches (cstr ''rtpmap'') (Some fa) b \<and>
        rtpmap_of a = Some orm \<and> rtpmap_of b = Some ar \<and> answer_rtpmap_matches orm ar)"

text \<open>A format that answers an offer: one of its formats, or the same static payload type.\<close>

definition answers_format :: "sdp_media \<Rightarrow> bytes \<Rightarrow> bool" where
  "answers_format offer f \<longleftrightarrow>
     (\<exists>g \<in> set (m_fmt offer). f = g \<or> (pt_of f = pt_of g \<and> pt_of g < 96))"

definition pre_frame :: "sdp_media \<Rightarrow> sdp_media \<Rightarrow> bool" where
  "pre_frame m m' \<longleftrightarrow> (\<exists>as. m' = m\<lparr>m_attr := as\<rparr>)"

text \<open>
  What the main loop keeps: the local line changes in its attributes only, and every payload type
  noted for the answer is one of the offer's.
\<close>

definition match_ok :: "sdp_media \<Rightarrow> sdp_media \<Rightarrow> match_state \<Rightarrow> bool" where
  "match_ok offer preanswer st \<longleftrightarrow>
     pre_frame preanswer (mo_pre st) \<and> (\<forall>p \<in> set (mo_pts st). answers_format offer (fst p))"

text \<open>What an answer to one media line satisfies.\<close>

definition answers_media :: "sdp_media \<Rightarrow> sdp_media \<Rightarrow> bool" where
  "answers_media om am \<longleftrightarrow>
     m_media am = m_media om \<and>
     (m_port am \<noteq> 0 \<longrightarrow>
        m_port om \<noteq> 0 \<and> m_transport am = m_transport om \<and>
        (\<forall>f \<in> set (m_fmt am). answers_format om f))"

text \<open>Descriptions for the examples: an audio session with the given formats and attributes.\<close>

definition ex_media :: "string list \<Rightarrow> sdp_attr list \<Rightarrow> sdp_media" where
  "ex_media fmts attrs =
     \<lparr>m_media = cstr ''audio'', m_port = 4000, m_port_count = 0, m_transport = cstr ''RTP/AVP'',
      m_fmt = map cstr fmts, m_conn = None, m_bandw = [], m_attr = attrs\<rparr>"

definition ex_session :: "sdp_media list \<Rightarrow> sdp_session" where
  "ex_session ms =
     \<lparr>s_origin = \<lparr>or_user = cstr ''-'', or_id = 1, or_version = 1, or_net_type = cstr ''IN'',
                   or_addr_type = cstr ''IP4'', or_addr = cstr ''10.0.0.1''\<rparr>,
      s_name = cstr ''x'',
      s_conn = Some \<lparr>c_net_type = cstr ''IN'', c_addr_type = cstr ''IP4'', c_addr = cstr ''10.0.0.1''\<rparr>,
      s_bandw = [], s_start = 0, s_stop = 0, s_attr = [], s_media = ms\<rparr>"

definition ex_env :: fmt_match_env where
  "ex_env = ([], \<lambda>_ _ _ answer _ _. (PJ_SUCCESS, m_attr answer))"

section \<open>Directions\<close>

lemma attr_scan_None: "attr_scan P as = None \<longleftrightarrow> (\<forall>a\<in>set as. \<not> P a)"
  by (induction as) auto

lemma attr_scan_Some: "attr_scan P as = Some i \<Longrightarrow> i < length as \<and> P (as ! i)"
  by (induction as arbitrary: i) (auto split: if_splits)

lemma has_attr_iff:
  "length (m_attr m) \<le> PJMEDIA_MAX_SDP_ATTR \<Longrightarrow>
   has_attr m name \<longleftrightarrow> (\<exists>a\<in>set (m_attr m). at_name a = cstr name)"
  by (auto simp: has_attr_def pjmedia_sdp_media_find_attr_def pjmedia_sdp_attr_find_def attr_scan_None
      attr_matches_def)

lemma remove_named_filter: "remove_named name as = filter (\<lambda>a. at_name a \<noteq> name) as"
  by (induction as) auto

lemma remove_all_directions_attr:
  assumes "length (m_attr m) \<le> PJMEDIA_MAX_SDP_ATTR"
  shows "m_attr (remove_all_media_directions m) =
    filter (\<lambda>a. at_name a \<notin> {cstr ''inactive'', cstr ''sendrecv'', cstr ''sendonly'', cstr ''recvonly''})
      (m_attr m)"
proof -
  have *: "m_attr (pjmedia_sdp_media_remove_all_attr m' n) = filter (\<lambda>a. at_name a \<noteq> n) (m_attr m')"
    if "length (m_attr m') \<le> PJMEDIA_MAX_SDP_ATTR" for m' n
    using that by (simp add: pjmedia_sdp_media_remove_all_attr_def pjmedia_sdp_attr_remove_all_def
        remove_named_filter)
  have le: "length (filter P as) \<le> PJMEDIA_MAX_SDP_ATTR" if "length as \<le> PJMEDIA_MAX_SDP_ATTR"
    for P and as :: "sdp_attr list"
    using that length_filter_le [of P as] by linarith
  show ?thesis
    unfolding remove_all_media_directions_def
    by (simp add: * le assms)
qed

lemma dir_names_distinct [simp]:
  "cstr ''sendonly'' \<noteq> cstr ''recvonly''" "cstr ''recvonly'' \<noteq> cstr ''sendonly''"
  "cstr ''inactive'' \<noteq> cstr ''sendonly''" "cstr ''sendonly'' \<noteq> cstr ''inactive''"
  "cstr ''inactive'' \<noteq> cstr ''recvonly''" "cstr ''recvonly'' \<noteq> cstr ''inactive''"
  by (simp_all add: cstr_def of_char_def)

lemma set_direction:
  assumes "length (m_attr m) < PJMEDIA_MAX_SDP_ATTR"
  defines "m' \<equiv> \<lambda>n. pjmedia_sdp_media_add_attr (remove_all_media_directions m) (pjmedia_sdp_attr_create (cstr n) None)"
  shows "media_direction (m' ''inactive'') = DIR_NONE"
    and "media_direction (m' ''sendonly'') = DIR_ENCODING"
    and "media_direction (m' ''recvonly'') = DIR_DECODING"
proof -
  let ?f = "filter (\<lambda>a. at_name a \<notin> {cstr ''inactive'', cstr ''sendrecv'', cstr ''sendonly'', cstr ''recvonly''})
      (m_attr m)"
  have len: "length ?f < PJMEDIA_MAX_SDP_ATTR"
    using assms length_filter_le le_less_trans by blast
  have attr: "m_attr (m' n) = ?f @ [pjmedia_sdp_attr_create (cstr n) None]" for n
    using assms len
    by (simp add: m'_def pjmedia_sdp_media_add_attr_def pjmedia_sdp_attr_add_def remove_all_directions_attr
        pjmedia_sdp_attr_create_def)
  have has: "has_attr (m' n) d \<longleftrightarrow> cstr n = cstr d"
    if "d = ''inactive'' \<or> d = ''sendonly'' \<or> d = ''recvonly''" for n d
    using that len by (subst has_attr_iff) (auto simp: attr pjmedia_sdp_attr_create_def)
  show "media_direction (m' ''inactive'') = DIR_NONE"
    and "media_direction (m' ''sendonly'') = DIR_ENCODING"
    and "media_direction (m' ''recvonly'') = DIR_DECODING"
    by (simp_all add: media_direction_def has)
qed

text \<open>
  C16: the direction of a media line after negotiation is the intersection of the two sides'
  wishes, as RFC 3264 asks: the local side sends exactly when it wanted to send and the remote side
  receives, and receives exactly when it wanted to receive and the remote side sends.
\<close>

theorem sdp_direction_is_intersection:
  assumes "length (m_attr local) < PJMEDIA_MAX_SDP_ATTR"
  shows "sends (media_direction (update_media_direction remote local)) =
           (sends (media_direction local) \<and> receives (remote_direction remote)) \<and>
         receives (media_direction (update_media_direction remote local)) =
           (receives (media_direction local) \<and> sends (remote_direction remote))"
  using set_direction [OF assms]
  by (cases "media_direction local") (simp_all add: update_media_direction_def remote_direction_def Let_def)

theorem sdp_direction_is_intersection_witness:
  "\<exists>remote local. length (m_attr local) < PJMEDIA_MAX_SDP_ATTR \<and>
     remote_direction remote = DIR_ENCODING \<and> media_direction local = DIR_ENCODING_DECODING \<and>
     receives (media_direction (update_media_direction remote local)) \<and>
     \<not> sends (media_direction (update_media_direction remote local))"
proof -
  let ?m = "\<lambda>as. \<lparr>m_media = cstr ''audio'', m_port = 4000, m_port_count = 0,
      m_transport = cstr ''RTP/AVP'', m_fmt = [cstr ''0''], m_conn = None, m_bandw = [], m_attr = as\<rparr>"
  let ?r = "?m [\<lparr>at_name = cstr ''sendonly'', at_value = []\<rparr>]" and ?l = "?m []"
  have *: "length (m_attr ?l) < PJMEDIA_MAX_SDP_ATTR" "remote_direction ?r = DIR_ENCODING"
    "media_direction ?l = DIR_ENCODING_DECODING"
    by code_simp+
  then show ?thesis
    using sdp_direction_is_intersection [OF *(1), of ?r]
    by (intro exI [of _ ?r] exI [of _ ?l]) simp
qed

section \<open>Sorting\<close>

lemma exchange_props:
  assumes "i < length ps" "j < length ps"
  shows "length (exchange i ps j) = length ps" "mset (exchange i ps j) = mset ps"
  using assms by (auto simp: exchange_def mset_swap)

lemma exchange_inner:
  assumes "i < length ps" "Suc i \<le> m" "m \<le> length ps"
  defines "qs \<equiv> foldl (exchange i) ps [Suc i ..< m]"
  shows "length qs = length ps \<and> mset qs = mset ps \<and> (\<forall>k < i. qs ! k = ps ! k) \<and>
         (\<forall>k. i \<le> k \<and> k < m \<longrightarrow> fst (qs ! i) \<le> fst (qs ! k))"
  using assms(2,3) unfolding qs_def
proof (induction m rule: dec_induct)
  case base
  then show ?case by (auto dest: le_less_Suc_eq)
next
  case (step m)
  let ?q = "foldl (exchange i) ps [Suc i ..< m]"
  have IH: "length ?q = length ps" "mset ?q = mset ps" "\<forall>k < i. ?q ! k = ps ! k"
    "\<forall>k. i \<le> k \<and> k < m \<longrightarrow> fst (?q ! i) \<le> fst (?q ! k)"
    using step by auto
  have eq: "foldl (exchange i) ps [Suc i ..< Suc m] = exchange i ?q m"
    using step by simp
  have im: "i < length ?q" "m < length ?q" "i < m"
    using step IH(1) assms(1) by auto
  show ?case
    unfolding eq
  proof (intro conjI)
    show "length (exchange i ?q m) = length ps" "mset (exchange i ?q m) = mset ps"
      using exchange_props [OF im(1,2)] IH by auto
    show "\<forall>k < i. exchange i ?q m ! k = ps ! k"
      using IH im by (auto simp: exchange_def)
    show "\<forall>k. i \<le> k \<and> k < Suc m \<longrightarrow> fst (exchange i ?q m ! i) \<le> fst (exchange i ?q m ! k)"
    proof (intro allI impI)
      fix k assume k: "i \<le> k \<and> k < Suc m"
      have "fst (?q ! i) \<le> fst (?q ! k)" if "k < m"
        using IH(4) k that by blast
      then show "fst (exchange i ?q m ! i) \<le> fst (exchange i ?q m ! k)"
        using k im IH(1) by (cases "k = m"; cases "k = i") (auto simp: exchange_def nth_list_update_if)
    qed
  qed
qed

lemma mset_drop_eq:
  assumes "mset qs = mset ps" "length qs = length ps" "\<forall>k < i. qs ! k = ps ! k" "i \<le> length ps"
  shows "mset (drop i qs) = mset (drop i ps)"
proof -
  have "take i qs = take i ps"
    using assms by (intro nth_equalityI) auto
  then show ?thesis
    using assms(1) by (metis append_take_drop_id mset_append add_left_cancel)
qed

lemma nth_from_drop:
  assumes "set (drop m r) = set (drop m q)" "m \<le> b" "b < length r"
  shows "\<exists>c. m \<le> c \<and> c < length q \<and> r ! b = q ! c"
proof -
  have "drop m r ! (b - m) \<in> set (drop m r)"
    using assms by (intro nth_mem) simp
  then have "r ! b \<in> set (drop m q)"
    using assms by simp
  then obtain d where "d < length (drop m q)" "r ! b = drop m q ! d"
    by (auto simp: in_set_conv_nth)
  then show ?thesis
    by (intro exI [of _ "m + d"]) auto
qed

lemma resort_outer:
  assumes "m \<le> length ps"
  defines "qs \<equiv> foldl (\<lambda>ps i. foldl (exchange i) ps [Suc i ..< length ps]) ps [0 ..< m]"
  shows "length qs = length ps \<and> mset qs = mset ps \<and>
         (\<forall>a b. a < m \<and> a < b \<and> b < length ps \<longrightarrow> fst (qs ! a) \<le> fst (qs ! b))"
  using assms(1) unfolding qs_def
proof (induction m)
  case (Suc m)
  define q where "q = foldl (\<lambda>ps i. foldl (exchange i) ps [Suc i ..< length ps]) ps [0 ..< m]"
  define r where "r = foldl (exchange m) q [Suc m ..< length q]"
  have eq: "foldl (\<lambda>ps i. foldl (exchange i) ps [Suc i ..< length ps]) ps [0 ..< Suc m] = r"
    by (simp add: q_def r_def)
  have q: "length q = length ps" "mset q = mset ps"
    "\<And>a b. a < m \<Longrightarrow> a < b \<Longrightarrow> b < length ps \<Longrightarrow> fst (q ! a) \<le> fst (q ! b)"
    using Suc by (auto simp: q_def)
  have r: "length r = length q" "mset r = mset q" "\<forall>k < m. r ! k = q ! k"
    "\<forall>k. m \<le> k \<and> k < length q \<longrightarrow> fst (r ! m) \<le> fst (r ! k)"
    using exchange_inner [of m q "length q"] Suc.prems q(1) by (auto simp: r_def)
  have "m \<le> length q"
    using Suc.prems q(1) by simp
  note orig = nth_from_drop [OF mset_eq_setD [OF mset_drop_eq [OF r(2,1,3) this]]]
  have "fst (r ! a) \<le> fst (r ! b)" if ab: "a < Suc m" "a < b" "b < length ps" for a b
  proof -
    consider "a = m" | "a < m" "b < m" | "a < m" "m \<le> b"
      using ab by linarith
    then show ?thesis
    proof cases
      case 1
      then show ?thesis using r(4) ab q(1) by auto
    next
      case 2
      then show ?thesis using r(3) q(3) ab by auto
    next
      case 3
      then obtain c where "m \<le> c" "c < length q" "r ! b = q ! c"
        using orig [of b] ab r(1) q(1) by auto
      then show ?thesis using r(3) 3 q(1) q(3) [of a c] by auto
    qed
  qed
  then show ?case
    unfolding eq using r(1,2) q(1,2) by simp
qed simp

lemma resort_offer_props:
  "length (resort_offer ps) = length ps" "mset (resort_offer ps) = mset ps"
  "sorted (map fst (resort_offer ps))"
  using resort_outer [of "length ps" ps] by (auto simp: resort_offer_def sorted_iff_nth_mono_less)

section \<open>Processing an answer\<close>

lemma find_rtpmap_Some:
  assumes "find_rtpmap m fmt = Some a"
  shows "a \<in> set (m_attr m) \<and> attr_matches (cstr ''rtpmap'') (Some fmt) a"
  using assms attr_scan_Some
  by (fastforce simp: find_rtpmap_def pjmedia_sdp_media_find_attr_def pjmedia_sdp_attr_find_def
      split: if_splits)

lemma find_dynamic_answer_Some:
  assumes "find_dynamic_answer E orm offer i answer j afmts = Some k"
  shows "j \<le> k \<and> k \<le> j + length afmts \<and>
         (k < j + length afmts \<longrightarrow> (\<exists>b ar. find_rtpmap answer (afmts ! (k - j)) = Some b \<and>
            rtpmap_of b = Some ar \<and> answer_rtpmap_matches orm ar))"
  using assms
proof (induction afmts arbitrary: j)
  case (Cons afmt afmts)
  show ?case
  proof (cases "find_dynamic_answer E orm offer i answer (Suc j) afmts = Some k")
    case True
    note IH = Cons.IH [OF this]
    then have "(afmt # afmts) ! (k - j) = afmts ! (k - Suc j)"
      by (simp add: nth_Cons')
    with IH show ?thesis by auto
  next
    case False
    with Cons.prems show ?thesis
      by (auto split: option.splits if_splits simp: bind_eq_Some_conv)
  qed
qed simp

lemma find_answer_fmt_match:
  assumes "find_answer_fmt E offer i answer = Some (Inr j)" "j \<noteq> length (m_fmt answer)"
  shows "j < length (m_fmt answer) \<and> formats_match offer answer (m_fmt offer ! i) (m_fmt answer ! j)"
proof (cases "pt_of (m_fmt offer ! i) < 96")
  case True
  let ?P = "\<lambda>f. m_fmt offer ! i \<noteq> f"
  have j: "j = length (takeWhile ?P (m_fmt answer))"
    using assms True by (simp add: find_answer_fmt_def Let_def)
  then have "j < length (m_fmt answer)"
    using assms(2) length_takeWhile_le [of ?P "m_fmt answer"] by simp
  with j have "\<not> ?P (m_fmt answer ! j)"
    using nth_length_takeWhile [of ?P "m_fmt answer"] by simp
  with True \<open>j < length (m_fmt answer)\<close> show ?thesis by (simp add: formats_match_def)
next
  case False
  with assms(1) obtain a orm where a: "find_rtpmap offer (m_fmt offer ! i) = Some a"
    "rtpmap_of a = Some orm" "find_dynamic_answer E orm offer i answer 0 (m_fmt answer) = Some j"
    by (auto simp: find_answer_fmt_def Let_def bind_eq_Some_conv split: option.splits)
  from find_dynamic_answer_Some [OF a(3)] assms(2) obtain b ar where "j < length (m_fmt answer)"
    "find_rtpmap answer (m_fmt answer ! j) = Some b" "rtpmap_of b = Some ar"
    "answer_rtpmap_matches orm ar" by auto
  with a find_rtpmap_Some [OF a(1)] show ?thesis
    by (auto simp: formats_match_def dest!: find_rtpmap_Some)
qed

lemma formats_match_mono:
  "formats_match offer answer fo fa \<Longrightarrow>
   (\<And>a. a \<in> set (m_attr offer) \<Longrightarrow> at_name a = cstr ''rtpmap'' \<Longrightarrow> a \<in> set (m_attr offer')) \<Longrightarrow>
   formats_match offer' answer fo fa"
  unfolding formats_match_def attr_matches_def by blast

lemma set_erase: "set (pj_array_erase i xs) \<subseteq> set xs"
  by (auto simp: pj_array_erase_def dest: in_set_takeD in_set_dropD)

lemma remove_found_attr: "set (m_attr (remove_found name fmt m)) \<subseteq> set (m_attr m)"
  by (auto simp: remove_found_def pjmedia_sdp_media_remove_attr_def
      pjmedia_sdp_attr_remove_def split: option.splits dest: subsetD [OF set_erase])

lemma remove_fmt_attr: "set (m_attr (remove_fmt i m)) \<subseteq> set (m_attr m)"
  by (auto simp: remove_fmt_def Let_def dest!: subsetD [OF remove_found_attr])

lemma distinct_erase: "distinct xs \<Longrightarrow> distinct (pj_array_erase i xs)"
proof -
  assume d: "distinct xs"
  have "set (drop (Suc i) xs) \<subseteq> set (drop i xs)"
    by (rule set_drop_subset_set_drop) simp
  then show ?thesis
    using d set_take_disj_set_drop_if_distinct [OF d, of i i] by (auto simp: pj_array_erase_def)
qed

text \<open>
  What the pruning of the offer leaves: formats of the offer, each with the index of an answer
  format it matches.
\<close>

lemma prune_offer_Some:
  assumes "prune_offer E answer i prior offer = Some (Inr (offer2, prior2))"
    and "length prior = i" "i \<le> length (m_fmt offer)" "distinct (m_fmt offer)"
    and "\<And>k. k < i \<Longrightarrow> prior ! k < length (m_fmt answer) \<and>
           formats_match offer0 answer (m_fmt offer ! k) (m_fmt answer ! (prior ! k))"
    and "\<And>a. a \<in> set (m_attr offer) \<Longrightarrow> at_name a = cstr ''rtpmap'' \<Longrightarrow> a \<in> set (m_attr offer0)"
  shows "length prior2 = length (m_fmt offer2) \<and> set (m_fmt offer2) \<subseteq> set (m_fmt offer) \<and>
         distinct (m_fmt offer2) \<and>
         (\<forall>k < length prior2. prior2 ! k < length (m_fmt answer) \<and>
            formats_match offer0 answer (m_fmt offer2 ! k) (m_fmt answer ! (prior2 ! k)))"
  using assms
proof (induction E answer i prior offer rule: prune_offer.induct)
  case (1 E answer i prior offer)
  show ?case
  proof (cases "i < length (m_fmt offer)")
    case True
    with "1.prems"(1) obtain j where j: "find_answer_fmt E offer i answer = Some (Inr j)"
      by (subst (asm) prune_offer.simps) (auto split: option.splits sum.splits)
    show ?thesis
    proof (cases "j = length (m_fmt answer)")
      case removed: True
      let ?o = "remove_fmt i offer"
      have rec: "prune_offer E answer i prior ?o = Some (Inr (offer2, prior2))"
        using "1.prems"(1) True j removed by (subst (asm) prune_offer.simps) simp
      have fm: "m_fmt ?o = pj_array_erase i (m_fmt offer)"
        by (rule remove_fmt_fmts)
      have "m_fmt ?o ! k = m_fmt offer ! k" if "k < i" for k
        using that True by (simp add: fm pj_array_erase_def nth_append)
      then have "length prior2 = length (m_fmt offer2) \<and> set (m_fmt offer2) \<subseteq> set (m_fmt ?o) \<and>
         distinct (m_fmt offer2) \<and>
         (\<forall>k < length prior2. prior2 ! k < length (m_fmt answer) \<and>
            formats_match offer0 answer (m_fmt offer2 ! k) (m_fmt answer ! (prior2 ! k)))"
        using "1.prems" True remove_fmt_attr [of i offer] distinct_erase [of "m_fmt offer" i]
        by (intro 1(1) [OF True j refl removed rec]) (auto simp: fm length_erase)
      then show ?thesis
        using set_erase [of i "m_fmt offer"] fm by auto
    next
      case kept: False
      have rec: "prune_offer E answer (Suc i) (prior @ [j]) offer = Some (Inr (offer2, prior2))"
        using "1.prems"(1) True j kept by (subst (asm) prune_offer.simps) simp
      have "j < length (m_fmt answer) \<and> formats_match offer0 answer (m_fmt offer ! i) (m_fmt answer ! j)"
        using find_answer_fmt_match [OF j kept] formats_match_mono "1.prems"(6) by blast
      then have ok: "(prior @ [j]) ! k < length (m_fmt answer) \<and>
           formats_match offer0 answer (m_fmt offer ! k) (m_fmt answer ! ((prior @ [j]) ! k))"
        if "k < Suc i" for k
        using that "1.prems"(2,5) by (cases "k = i") (auto simp: nth_append)
      show ?thesis
        by (rule 1(2) [OF True j refl kept rec]) (use "1.prems" True ok in auto)
    qed
  next
    case False
    with 1 show ?thesis by (subst (asm) (2) prune_offer.simps) auto
  qed
qed

lemma find_answer_fmt_Inl: "find_answer_fmt E offer i answer = Some (Inl status) \<Longrightarrow> status = PJ_EBUG"
  by (auto simp: find_answer_fmt_def Let_def bind_eq_Some_conv split: if_splits option.splits)

lemma prune_offer_Inl:
  "prune_offer E answer i prior offer = Some (Inl (status, offer')) \<Longrightarrow> status = PJ_EBUG"
proof (induction E answer i prior offer rule: prune_offer.induct)
  case (1 E answer i prior offer)
  from "1.prems" show ?case
    by (subst (asm) prune_offer.simps)
      (auto split: if_splits option.splits sum.splits dest: find_answer_fmt_Inl "1.IH")
qed

lemma of_nat_sub_eq:
  assumes "i + d \<le> p" "p < 2 ^ 32"
  shows "(of_nat p - of_nat d :: u32) = of_nat i \<longleftrightarrow> p = i + d"
proof -
  have "(of_nat p - of_nat d :: u32) = of_nat (p - d)"
    using assms by simp
  moreover have "(of_nat (p - d) :: u32) = of_nat i \<longleftrightarrow> p - d = i"
    using assms by (metis unat_of_nat_u32 diff_le_self le_add1 le_less_trans le_trans)
  ultimately show ?thesis using assms by auto
qed

text \<open>With increasing indexes the formats of the answer that stay are the ones named, in order.\<close>

lemma prune_answer_fmts:
  assumes "sorted_wrt (<) prior" "\<forall>p \<in> set prior. p < length fs" "length fs < 2 ^ 32"
    and "i \<le> length prior" "\<And>k. i \<le> k \<Longrightarrow> k < length prior \<Longrightarrow> i + del \<le> prior ! k"
    and "m_fmt answer = map ((!) fs) (take i prior) @ drop (i + del) fs"
    and "i + del \<le> length fs"
  shows "m_fmt (prune_answer prior i del answer) = map ((!) fs) prior"
  using assms
proof (induction prior i del answer rule: prune_answer.induct)
  case (1 prior i del answer)
  note prems = "1.prems"
  have len: "length (m_fmt answer) = i + (length fs - (i + del))"
    using prems by simp
  have ge: "i + del \<le> prior ! i" "prior ! i < length fs" if "i < length prior"
    using prems(2,5) that by auto
  show ?case
  proof (cases "i < length (m_fmt answer)")
    case False
    then have "i = length prior"
      using len ge prems(4,7) by (cases "i = length prior") auto
    with False len prems show ?thesis
      by (subst prune_answer.simps) auto
  next
    case True
    then have lt: "i + del < length fs"
      using len by simp
    then have d: "drop (i + del) fs = fs ! (i + del) # drop (Suc (i + del)) fs"
      by (simp add: Cons_nth_drop_Suc)
    have cond: "(of_nat (prior ! i) - of_nat del :: u32) \<noteq> of_nat i \<longleftrightarrow> prior ! i \<noteq> i + del"
      if "i < length prior"
      using of_nat_sub_eq [of i del "prior ! i"] ge [OF that] prems(3) by auto
    show ?thesis
    proof (cases "i \<ge> length prior \<or> prior ! i \<noteq> i + del")
      case removed: True
      then have c: "i \<ge> length prior \<or> (of_nat (prior ! i) - of_nat del :: u32) \<noteq> of_nat i"
        using cond by (meson not_less)
      have "m_fmt (remove_fmt i answer) = map ((!) fs) (take i prior) @ drop (i + Suc del) fs"
        using prems(4,6) by (simp add: remove_fmt_fmts pj_array_erase_def d)
      moreover have "i + Suc del \<le> prior ! k" if "i \<le> k" "k < length prior" for k
      proof -
        have "i < length prior" using that by simp
        then have "i + del < prior ! i"
          using removed ge(1) by auto
        moreover have "prior ! i \<le> prior ! k"
          using prems(1) that by (cases "k = i") (auto simp: sorted_wrt_iff_nth_less less_imp_le)
        ultimately show ?thesis by simp
      qed
      ultimately have "m_fmt (prune_answer prior i (Suc del) (remove_fmt i answer)) = map ((!) fs) prior"
        using 1(1) [OF True c] prems lt by simp
      then show ?thesis
        using True c by (subst prune_answer.simps) simp
    next
      case kept: False
      then have i: "i < length prior" "prior ! i = i + del" by auto
      have c: "\<not> (i \<ge> length prior \<or> (of_nat (prior ! i) - of_nat del :: u32) \<noteq> of_nat i)"
        using cond i by auto
      have "m_fmt answer = map ((!) fs) (take (Suc i) prior) @ drop (Suc i + del) fs"
        using prems(6) i by (simp add: take_Suc_conv_app_nth d)
      moreover have "Suc i + del \<le> prior ! k" if "Suc i \<le> k" "k < length prior" for k
        using sorted_wrt_nth_less [OF prems(1), of i k] that i by simp
      ultimately have "m_fmt (prune_answer prior (Suc i) del answer) = map ((!) fs) prior"
        using 1(2) [OF True c] prems lt i by simp
      then show ?thesis
        using True c by (subst prune_answer.simps) simp
    qed
  qed
qed


text \<open>Changing the direction touches only attributes, and no \<^verbatim>\<open>rtpmap\<close>.\<close>

lemma add_attr_fields [simp]:
  "m_fmt (pjmedia_sdp_media_add_attr m a) = m_fmt m"
  "m_media (pjmedia_sdp_media_add_attr m a) = m_media m"
  "m_port (pjmedia_sdp_media_add_attr m a) = m_port m"
  "m_transport (pjmedia_sdp_media_add_attr m a) = m_transport m"
  by (simp_all add: pjmedia_sdp_media_add_attr_def)

lemma remove_directions_fields [simp]:
  "m_fmt (remove_all_media_directions m) = m_fmt m"
  "m_media (remove_all_media_directions m) = m_media m"
  "m_port (remove_all_media_directions m) = m_port m"
  "m_transport (remove_all_media_directions m) = m_transport m"
  by (simp_all add: remove_all_media_directions_def pjmedia_sdp_media_remove_all_attr_def)

lemma update_direction_fields [simp]:
  "m_fmt (update_media_direction remote local) = m_fmt local"
  "m_media (update_media_direction remote local) = m_media local"
  "m_port (update_media_direction remote local) = m_port local"
  "m_transport (update_media_direction remote local) = m_transport local"
  by (simp_all add: update_media_direction_def Let_def split: media_dir.split)

lemma remove_all_subset: "set (pjmedia_sdp_attr_remove_all as n) \<subseteq> set as"
  by (auto simp: pjmedia_sdp_attr_remove_all_def remove_named_filter)

lemma remove_directions_attr: "set (m_attr (remove_all_media_directions m)) \<subseteq> set (m_attr m)"
  by (auto simp: remove_all_media_directions_def pjmedia_sdp_media_remove_all_attr_def
      dest!: subsetD [OF remove_all_subset])

lemma add_attr_set: "set (m_attr (pjmedia_sdp_media_add_attr m a)) \<subseteq> insert a (set (m_attr m))"
  by (auto simp: pjmedia_sdp_media_add_attr_def pjmedia_sdp_attr_add_def)

lemma rtpmap_not_dir [simp]:
  "cstr ''inactive'' \<noteq> cstr ''rtpmap''" "cstr ''sendonly'' \<noteq> cstr ''rtpmap''"
  "cstr ''recvonly'' \<noteq> cstr ''rtpmap''" "cstr ''fmtp'' \<noteq> cstr ''rtpmap''"
  by (simp_all add: cstr_def of_char_def)

lemma update_direction_rtpmap:
  assumes "a \<in> set (m_attr (update_media_direction remote local))" "at_name a = cstr ''rtpmap''"
  shows "a \<in> set (m_attr local)"
  using assms remove_directions_attr [of local]
  by (auto simp: update_media_direction_def Let_def pjmedia_sdp_attr_create_def
      split: if_splits media_dir.splits dest!: subsetD [OF add_attr_set])

lemma resorted_match:
  assumes "length prior = length fmts" "distinct prior" "\<And>k. k < length prior \<Longrightarrow> P (fmts ! k) (prior ! k)"
  defines "ps \<equiv> resort_offer (zip prior fmts)"
  shows "sorted_wrt (<) (map fst ps)" "set (map fst ps) = set prior" "set (map snd ps) = set fmts"
    "length ps = length prior" "\<And>k. k < length ps \<Longrightarrow> P (snd (ps ! k)) (fst (ps ! k))"
proof -
  have m: "mset ps = mset (zip prior fmts)"
    by (simp add: ps_def resort_offer_props)
  have "mset (map fst ps) = mset prior"
    using m assms(1) by (metis map_fst_zip mset_map)
  then have d: "distinct (map fst ps)" and "set (map fst ps) = set prior"
    using assms(2) mset_eq_imp_distinct_iff mset_eq_setD by blast+
  then show "set (map fst ps) = set prior" by simp
  show "sorted_wrt (<) (map fst ps)"
    using d resort_offer_props(3) by (simp add: ps_def strict_sorted_iff)
  show "set (map snd ps) = set fmts"
    using m assms(1) by (metis map_snd_zip mset_map mset_eq_setD)
  show l: "length ps = length prior"
    using assms(1) by (simp add: ps_def resort_offer_props)
  show "P (snd (ps ! k)) (fst (ps ! k))" if "k < length ps" for k
  proof -
    have "ps ! k \<in> set (zip prior fmts)"
      using m that by (metis mset_eq_setD nth_mem)
    then obtain n where "n < length prior" "ps ! k = (prior ! n, fmts ! n)"
      using assms(1) by (auto simp: in_set_conv_nth)
    then show ?thesis using assms(3) by simp
  qed
qed



section \<open>Creating an answer\<close>

lemma pre_frame_refl [simp]: "pre_frame m m"
  by (auto simp: pre_frame_def intro!: exI [of _ "m_attr m"])

lemma pre_frame_fields:
  "pre_frame m m' \<Longrightarrow> m_fmt m' = m_fmt m \<and> m_media m' = m_media m \<and> m_port m' = m_port m \<and>
     m_transport m' = m_transport m"
  by (auto simp: pre_frame_def)

lemma answers_format_nth: "i < length (m_fmt offer) \<Longrightarrow> answers_format offer (m_fmt offer ! i)"
  by (auto simp: answers_format_def)

lemma pt_pair_ok:
  assumes "if prefer then i < length (m_fmt offer) else j < length (m_fmt offer)"
  shows "answers_format offer (fst (pt_pair prefer offer pre i j))"
  using assms answers_format_nth by (simp add: pt_pair_def)

lemma match_dynamic_ok:
  assumes "match_dynamic E prefer offer i orm is_codec js st = Some st'" "match_ok offer preanswer st"
    and "\<And>j. j \<in> set js \<Longrightarrow> if prefer then i < length (m_fmt offer) else j < length (m_fmt offer)"
  shows "match_ok offer preanswer st'"
  using assms
proof (induction js arbitrary: st)
  case (Cons j js)
  have ok: "answers_format offer (fst (pt_pair prefer offer (mo_pre st) i j))"
    using pt_pair_ok Cons.prems(3) [of j] by auto
  obtain status attrs where c: "custom_fmt_match E (rm_enc_name orm) offer (if prefer then i else j)
      (mo_pre st) (if prefer then j else i) True = (status, attrs)" by fastforce
  have frame: "match_ok offer preanswer (st\<lparr>mo_pre := (mo_pre st)\<lparr>m_attr := attrs\<rparr>\<rparr>)"
    using Cons.prems(2) by (auto simp: match_ok_def pre_frame_def)
  show ?case
  proof (cases "match_dynamic E prefer offer i orm is_codec js st = Some st' \<or>
      match_dynamic E prefer offer i orm is_codec js (st\<lparr>mo_pre := (mo_pre st)\<lparr>m_attr := attrs\<rparr>\<rparr>) = Some st'")
    case True
    then show ?thesis using Cons.IH Cons.prems frame by auto
  next
    case False
    with Cons.prems(1) c ok Cons.prems(2) frame show ?thesis
      by (auto simp: Let_def bind_eq_Some_conv match_ok_def split: option.splits if_splits)
  qed
qed simp

lemma match_static_ok:
  assumes "match_ok offer preanswer st" "g \<in> set (m_fmt (mo_master prefer offer st))"
    and "pt_of g < 96"
  shows "match_ok offer preanswer (match_static (mo_slave prefer offer st) (pt_of g) st)"
proof (cases "find (\<lambda>f. pt_of f = pt_of g \<and> pj_isdigit (first_octet f)) (m_fmt (mo_slave prefer offer st))")
  case None
  with assms show ?thesis by (simp add: match_static_def)
next
  case (Some f)
  then have "f \<in> set (m_fmt (mo_slave prefer offer st))" "pt_of f = pt_of g"
    by (auto simp: find_Some_iff)
  then have "answers_format offer f"
    using assms by (auto simp: answers_format_def mo_slave_def mo_master_def split: if_splits)
  with Some assms(1) show ?thesis by (simp add: match_static_def match_ok_def)
qed

lemma match_other_ok:
  assumes "match_ok offer preanswer st" "i < length (m_fmt (mo_master prefer offer st))"
  shows "match_ok offer preanswer (match_other prefer offer i fmt st)"
proof -
  have "answers_format offer (fst (pt_pair prefer offer (mo_pre st) i j))"
    if "j < length (m_fmt (mo_slave prefer offer st))" for j
    using that assms(2) by (intro pt_pair_ok) (auto simp: mo_slave_def mo_master_def split: if_splits)
  with assms(1) show ?thesis
    by (auto simp: match_other_def match_ok_def find_Some_iff split: option.splits)
qed

lemma match_turn_ok:
  assumes "match_turn E prefer multiple offer i st = Some (Inr st')" "match_ok offer preanswer st"
    and i: "i < length (m_fmt (mo_master prefer offer st))"
  shows "match_ok offer preanswer st'"
proof -
  define fmt where "fmt = m_fmt (mo_master prefer offer st) ! i"
  have flags: "match_ok offer preanswer (st\<lparr>mo_master_has_codec := b\<rparr>)"
    "match_ok offer preanswer (st\<lparr>mo_master_has_other := b\<rparr>)"
    "mo_slave prefer offer (st\<lparr>mo_master_has_codec := b\<rparr>) = mo_slave prefer offer st"
    "mo_master prefer offer (st\<lparr>mo_master_has_codec := b\<rparr>) = mo_master prefer offer st"
    "mo_master prefer offer (st\<lparr>mo_master_has_other := b\<rparr>) = mo_master prefer offer st" for b
    using assms(2) by (auto simp: match_ok_def mo_slave_def mo_master_def)
  have static_ok: "match_ok offer preanswer (match_static (mo_slave prefer offer st) (pt_of fmt)
      (st\<lparr>mo_master_has_codec := True\<rparr>))" if "pt_of fmt < 96"
    using match_static_ok [OF flags(1), of fmt "prefer" True] that i flags(3,4)
    by (simp add: fmt_def)
  have dyn: "if prefer then i < length (m_fmt offer) else j < length (m_fmt offer)"
    if "j \<in> set [0 ..< length (m_fmt (mo_slave prefer offer st))]" for j
    using that i by (auto simp: mo_slave_def mo_master_def)
  have dyn_ok: "match_ok offer preanswer st2"
    if "match_dynamic E prefer offer i orm c [0 ..< length (m_fmt (mo_slave prefer offer st))] st1 = Some st2"
      "st1 = st \<or> st1 = st\<lparr>mo_master_has_codec := True\<rparr>" for orm c st1 st2
    using match_dynamic_ok [OF that(1) _ dyn] that(2) assms(2) flags(1) by blast
  show ?thesis
    using assms(1) unfolding match_turn_def Let_def fmt_def [symmetric]
    by (auto simp: bind_eq_Some_conv flags static_ok dyn_ok match_other_ok i
        split: if_splits option.splits)
qed

lemma match_loop_ok:
  assumes "match_loop E prefer multiple offer is st = Some r" "match_ok offer preanswer st"
    and "\<forall>i \<in> set is. i < length (m_fmt (if prefer then offer else preanswer))"
  shows "case r of Inl (status, pre) \<Rightarrow> pre_frame preanswer pre | Inr st' \<Rightarrow> match_ok offer preanswer st'"
  using assms
proof (induction "is" arbitrary: st)
  case (Cons i "is")
  from Cons.prems(1) obtain t where t: "match_turn E prefer multiple offer i st = Some t"
    "(case t of Inl status \<Rightarrow> Some (Inl (status, mo_pre st))
      | Inr st1 \<Rightarrow> match_loop E prefer multiple offer is st1) = Some r"
    by (auto simp: bind_eq_Some_conv)
  have "m_fmt (mo_pre st) = m_fmt preanswer"
    using Cons.prems(2) pre_frame_fields by (auto simp: match_ok_def)
  then have i: "i < length (m_fmt (mo_master prefer offer st))"
    using Cons.prems(3) by (auto simp: mo_master_def split: if_splits)
  show ?case
  proof (cases t)
    case (Inl status)
    with t(2) Cons.prems(2) show ?thesis by (auto simp: match_ok_def)
  next
    case (Inr st1)
    then have "match_ok offer preanswer st1"
      using match_turn_ok [OF _ Cons.prems(2) i] t(1) by simp
    with Inr t(2) Cons show ?thesis by auto
  qed
qed auto

lemma televent_step:
  "televent_loop pre rates ((po, pa) # pts) ft m = None \<or>
   (\<exists>f m'. (f = ft \<or> f = (po, pa)) \<and>
      (televent_loop pre rates ((po, pa) # pts) ft m =
         map_option (\<lambda>(ps, r). ((po, pa) # ps, r)) (televent_loop pre rates pts f m') \<or>
       televent_loop pre rates ((po, pa) # pts) ft m = televent_loop pre rates pts f m'))"
proof (cases "\<not> pj_isdigit (first_octet pa) \<or> pj_strtol pa < 96")
  case True
  then show ?thesis by (intro disjI2 exI [of _ ft] exI [of _ m]) (simp add: Let_def)
next
  case dynamic: False
  show ?thesis
  proof (cases "Option.bind (find_rtpmap pre pa) rtpmap_of")
    case None
    with dynamic show ?thesis by (auto simp: bind_eq_None_conv Let_def split: option.splits)
  next
    case (Some r)
    then obtain a where a: "find_rtpmap pre pa = Some a" "rtpmap_of a = Some r"
      by (auto simp: bind_eq_Some_conv)
    let ?f = "if fst ft = [] then (po, pa) else ft"
    consider (other) "\<not> pj_stricmp_eq (rm_enc_name r) (cstr ''telephone-event'')"
      | (kept) "pj_stricmp_eq (rm_enc_name r) (cstr ''telephone-event'')" "rm_clock_rate r \<in> set rates"
      | (dropped) "pj_stricmp_eq (rm_enc_name r) (cstr ''telephone-event'')" "rm_clock_rate r \<notin> set rates"
      by blast
    then show ?thesis
    proof cases
      case other
      then show ?thesis
        using dynamic a by (intro disjI2 exI [of _ ft] exI [of _ m]) (simp add: Let_def)
    next
      case kept
      then show ?thesis
        using dynamic a by (intro disjI2 exI [of _ ?f] exI [of _ "Suc m"]) (simp add: Let_def)
    next
      case dropped
      then show ?thesis
        using dynamic a by (intro disjI2 exI [of _ ?f] exI [of _ m]) (simp add: Let_def)
    qed
  qed
qed

lemma televent_loop_ok:
  assumes "televent_loop pre rates pts ft matched = Some (ps, ft', matched')"
  shows "set ps \<subseteq> set pts \<and> (ft' = ft \<or> ft' \<in> set pts)"
  using assms
proof (induction pts arbitrary: ft matched ps)
  case (Cons p pts)
  obtain po pa where p: "p = (po, pa)" by fastforce
  from televent_step [of pre rates po pa pts ft matched] obtain f m where f: "f = ft \<or> f = p"
    and d: "Some (ps, ft', matched') = map_option (\<lambda>(ps, r). (p # ps, r)) (televent_loop pre rates pts f m) \<or>
      Some (ps, ft', matched') = televent_loop pre rates pts f m"
    unfolding p [symmetric] Cons.prems by blast
  from d obtain ps' where "televent_loop pre rates pts f m = Some (ps', ft', matched')"
    and ps: "ps = p # ps' \<or> ps = ps'"
    by (cases "televent_loop pre rates pts f m") auto
  from Cons.IH [OF this(1)] f ps show ?case by auto
qed simp

lemma filter_televents_ok:
  assumes "filter_televents pre rates pts = Some ps"
  shows "set ps \<subseteq> insert ([], []) (set pts)"
  using assms by (auto simp: filter_televents_def dest!: televent_loop_ok split: if_splits)

lemma reorder_fmts_Some:
  assumes "reorder_fmts i pas fmts = Some fmts'"
  shows "length fmts' = length fmts \<and> (\<forall>k < i. fmts' ! k = fmts ! k) \<and>
         (pas \<noteq> [] \<longrightarrow> i + length pas \<le> length fmts) \<and>
         (\<forall>k < length pas. fmts' ! (i + k) = pas ! k) \<and> set pas \<subseteq> set fmts"
  using assms
proof (induction pas arbitrary: i fmts)
  case (Cons pa pas)
  then obtain j where j: "find (\<lambda>j. fmts ! j = pa) [i ..< length fmts] = Some j"
    and r: "reorder_fmts (Suc i) pas (fmts[i := fmts ! j, j := fmts ! i]) = Some fmts'"
    by (auto split: option.splits)
  from j have ij: "i \<le> j" "j < length fmts" "fmts ! j = pa"
    by (auto simp: find_Some_iff)
  let ?f = "fmts[i := fmts ! j, j := fmts ! i]"
  note IH = Cons.IH [OF r]
  have at_i: "?f ! i = pa"
    using ij by (auto simp: nth_list_update_if)
  have before: "?f ! k = fmts ! k" if "k < i" for k
    using that ij by simp
  have "fmts' ! (i + k) = (pa # pas) ! k" if "k < Suc (length pas)" for k
    using IH at_i that by (cases k) auto
  moreover have "set ?f = set fmts"
    using ij by (intro mset_eq_setD mset_swap) auto
  moreover have "Suc i + length pas \<le> length fmts"
    using IH ij by (cases pas) auto
  ultimately show ?case
    using IH before ij by (auto simp: less_Suc_eq)
qed simp

lemma take_rewritten_fmt:
  "take_rewritten name po pn answer tmp = Some (answer', tmp') \<Longrightarrow>
   \<exists>as. answer' = answer\<lparr>m_attr := as\<rparr>"
  by (auto simp: take_rewritten_def pjmedia_sdp_media_remove_attr_def split: option.splits
      intro: exI [of _ "m_attr answer"])

lemma symmetric_loop_fmts:
  assumes "symmetric_loop i pts answer tmp = Some (answer', tmp')"
    and "length (m_fmt answer) = i + length pts"
    and "\<And>k. k < length pts \<Longrightarrow> m_fmt answer ! (i + k) = snd (pts ! k)"
  shows "m_fmt answer' = take i (m_fmt answer) @ map fst pts \<and> m_media answer' = m_media answer \<and>
         m_port answer' = m_port answer \<and> m_transport answer' = m_transport answer"
  using assms
proof (induction pts arbitrary: i answer tmp)
  case Nil
  then show ?case by simp
next
  case (Cons p pts)
  obtain po pa where p: "p = (po, pa)" by fastforce
  have i: "i < length (m_fmt answer)" "m_fmt answer ! i = pa"
    using Cons.prems(2) Cons.prems(3) [of 0] by (auto simp: p)
  have shift: "m_fmt answer ! (Suc i + k) = snd (pts ! k)" if "k < length pts" for k
    using Cons.prems(3) [of "Suc k"] that by simp
  show ?case
  proof (cases "pa = po")
    case True
    then have "symmetric_loop (Suc i) pts answer tmp = Some (answer', tmp')"
      using Cons.prems(1) by (simp add: p)
    from Cons.IH [OF this] Cons.prems(2) shift True i show ?thesis
      by (simp add: p take_Suc_conv_app_nth)
  next
    case False
    define a0 where "a0 = answer\<lparr>m_fmt := (m_fmt answer)[i := po]\<rparr>"
    from Cons.prems(1) False obtain a1 t1 a2 t2 where
      s: "take_rewritten ''rtpmap'' pa po a0 tmp = Some (a1, t1)"
        "take_rewritten ''fmtp'' pa po a1 t1 = Some (a2, t2)"
        "symmetric_loop (Suc i) pts a2 t2 = Some (answer', tmp')"
      by (auto simp: p a0_def bind_eq_Some_conv)
    from take_rewritten_fmt [OF s(1)] take_rewritten_fmt [OF s(2)] obtain as where
      a2: "a2 = a0\<lparr>m_attr := as\<rparr>" by auto
    have "m_fmt answer' = take (Suc i) (m_fmt a2) @ map fst pts" "m_media answer' = m_media a2"
      "m_port answer' = m_port a2" "m_transport answer' = m_transport a2"
      using Cons.IH [OF s(3)] Cons.prems(2) shift by (auto simp: a2 a0_def)
    then show ?thesis
      using i by (auto simp: p a2 a0_def take_Suc_conv_app_nth)
  qed
qed


lemma foldl_frame:
  assumes "\<And>m x. \<phi> (f m x) = \<phi> m"
  shows "\<phi> (foldl f m xs) = \<phi> m"
  using assms by (induction xs arbitrary: m) simp_all

lemma remove_found_fields [simp]:
  "m_media (remove_found name fmt m) = m_media m" "m_port (remove_found name fmt m) = m_port m"
  "m_transport (remove_found name fmt m) = m_transport m"
  by (simp_all add: remove_found_def pjmedia_sdp_media_remove_attr_def split: option.split)

lemma build_answer_fields:
  assumes "build_answer pre pts = Some answer"
  shows "m_fmt answer = map fst pts \<and> m_media answer = m_media pre \<and> m_port answer = m_port pre \<and>
         m_transport answer = m_transport pre \<and> set (map snd pts) \<subseteq> set (m_fmt pre)"
proof -
  from assms obtain fmts where r: "reorder_fmts 0 (map snd pts) (m_fmt pre) = Some fmts"
    and b: "apply_answer_symmetric_pt
      ((foldl (\<lambda>m fmt. remove_found ''fmtp'' fmt (remove_found ''rtpmap'' fmt m))
          (pre\<lparr>m_fmt := fmts\<rparr>) (drop (length pts) fmts))\<lparr>m_fmt := take (length pts) fmts\<rparr>) pts = Some answer"
    by (auto simp: build_answer_def bind_eq_Some_conv Let_def)
  let ?a1 = "(foldl (\<lambda>m fmt. remove_found ''fmtp'' fmt (remove_found ''rtpmap'' fmt m))
          (pre\<lparr>m_fmt := fmts\<rparr>) (drop (length pts) fmts))\<lparr>m_fmt := take (length pts) fmts\<rparr>"
  have f1: "m_media ?a1 = m_media pre" "m_port ?a1 = m_port pre" "m_transport ?a1 = m_transport pre"
    by (simp_all add: foldl_frame [of m_media] foldl_frame [of m_port] foldl_frame [of m_transport])
  note R = reorder_fmts_Some [OF r]
  from b obtain answer1 tmp where s: "symmetric_loop 0 pts ?a1 [] = Some (answer1, tmp)"
    and ans: "answer = foldl pjmedia_sdp_media_add_attr answer1 tmp"
    by (auto simp: apply_answer_symmetric_pt_def)
  have "length (m_fmt ?a1) = 0 + length pts"
    using R by (cases pts) auto
  moreover have "m_fmt ?a1 ! (0 + k) = snd (pts ! k)" if "k < length pts" for k
    using R that by simp
  ultimately have "m_fmt answer1 = map fst pts \<and> m_media answer1 = m_media pre \<and>
      m_port answer1 = m_port pre \<and> m_transport answer1 = m_transport pre"
    using symmetric_loop_fmts [OF s] f1 by simp
  then show ?thesis
    using R by (simp add: ans foldl_frame [of m_media] foldl_frame [of m_port]
        foldl_frame [of m_transport] foldl_frame [of m_fmt])
qed

lemma clone_deactivate_fields [simp]:
  "m_media (sdp_media_clone_deactivate m l s) = m_media m"
  "m_port (sdp_media_clone_deactivate m l s) = 0"
  by (simp_all add: sdp_media_clone_deactivate_def clone_deactivate_eq pjmedia_sdp_media_deactivate_def
      Let_def split: option.split)

lemma match_offer_answers:
  assumes "match_offer E prefer multiple offer preanswer sess = Some (r, pre')"
    and "m_media offer = m_media preanswer" "m_transport offer = m_transport preanswer"
    and "[] \<notin> set (m_fmt preanswer)"
  shows "pre_frame preanswer pre' \<and> (\<forall>am. r = Inr am \<longrightarrow> answers_media offer am)"
proof (cases "m_port offer = 0 \<or> m_port preanswer = 0")
  case True
  with assms show ?thesis
    by (cases "m_port offer = 0") (auto simp: match_offer_def answers_media_def)
next
  case ports: False
  let ?st0 = "\<lparr>mo_pre = preanswer, mo_master_has_codec = False, mo_master_has_other = False,
     mo_found_codec = False, mo_found_televent = False, mo_found_other = False,
     mo_pts = [], mo_clockrate = []\<rparr>"
  have st0: "match_ok offer preanswer ?st0"
    by (simp add: match_ok_def)
  from assms(1) ports obtain l where
    l: "match_loop E prefer multiple offer [0 ..< length (m_fmt (mo_master prefer offer ?st0))] ?st0 = Some l"
    and c: "(case l of
        Inl (status, pre) \<Rightarrow> Some (Inl status, pre)
      | Inr st \<Rightarrow>
          if mo_master_has_codec st \<and> \<not> mo_found_codec st
          then Some (Inl PJMEDIA_SDPNEG_NOANSCODEC, mo_pre st)
          else if mo_master_has_other st \<and> \<not> mo_found_other st
          then Some (Inl PJMEDIA_SDPNEG_NOANSUNKNOWN, mo_pre st)
          else
            Option.bind
              (if mo_found_televent st
               then filter_televents (mo_pre st) (mo_clockrate st) (mo_pts st)
               else Some (mo_pts st)) (\<lambda>pts.
            map_option (\<lambda>answer. (Inr (update_media_direction offer answer), mo_pre st))
              (build_answer (mo_pre st) pts))) = Some (r, pre')"
    by (auto simp: match_offer_def Let_def bind_eq_Some_conv)
  have L: "case l of Inl (status, pre) \<Rightarrow> pre_frame preanswer pre | Inr st' \<Rightarrow> match_ok offer preanswer st'"
    by (rule match_loop_ok [OF l st0]) (simp add: mo_master_def)
  show ?thesis
  proof (cases l)
    case (Inl a)
    with L c show ?thesis by (auto split: prod.splits)
  next
    case (Inr st)
    with L have ok: "match_ok offer preanswer st" by simp
    have fr: "m_fmt (mo_pre st) = m_fmt preanswer" "m_media (mo_pre st) = m_media preanswer"
      "m_port (mo_pre st) = m_port preanswer" "m_transport (mo_pre st) = m_transport preanswer"
      using ok pre_frame_fields by (auto simp: match_ok_def)
    have pf: "pre_frame preanswer pre'"
      using c Inr ok by (auto simp: match_ok_def bind_eq_Some_conv split: if_splits)
    have "answers_media offer am" if r: "r = Inr am" for am
    proof -
      from c Inr r obtain pts answer where
        p: "(if mo_found_televent st then filter_televents (mo_pre st) (mo_clockrate st) (mo_pts st)
             else Some (mo_pts st)) = Some pts"
        and b: "build_answer (mo_pre st) pts = Some answer" and am: "am = update_media_direction offer answer"
        by (auto simp: bind_eq_Some_conv split: if_splits)
      note B = build_answer_fields [OF b]
      have "set pts \<subseteq> insert ([], []) (set (mo_pts st))"
        using p filter_televents_ok by (auto split: if_splits)
      moreover have "([], []) \<notin> set pts"
        using B assms(4) fr(1) by force
      ultimately have "answers_format offer (fst p)" if "p \<in> set pts" for p
        using ok that by (auto simp: match_ok_def)
      then show ?thesis
        using B fr assms(2,3) ports by (auto simp: am answers_media_def)
    qed
    with pf show ?thesis by simp
  qed
qed


lemma find_answer_media_ok:
  assumes "find_answer_media E prefer multiple initial om ims status = Some (found, ims', status')"
    and "\<forall>(im, u) \<in> set ims. [] \<notin> set (m_fmt im)"
  shows "(\<forall>am. found = Some am \<longrightarrow> answers_media om am) \<and> (\<forall>(im, u) \<in> set ims'. [] \<notin> set (m_fmt im))"
  using assms
proof (induction ims arbitrary: status ims')
  case (Cons p ims)
  obtain im used where p: "p = (im, used)" by fastforce
  show ?case
  proof (cases "m_media om = m_media im \<and> m_transport om = m_transport im \<and> \<not> used")
    case True
    with Cons.prems(1) obtain r im1 where m: "match_offer E prefer multiple om im initial = Some (r, im1)"
      and c: "(case r of
            Inr am \<Rightarrow> Some (Some am, (im1, True) # ims, status)
          | Inl status2 \<Rightarrow>
              map_option (\<lambda>(am, ims', st). (am, (im1, False) # ims', st))
                (find_answer_media E prefer multiple initial om ims status2)) = Some (found, ims', status')"
      by (auto simp: p bind_eq_Some_conv)
    have M: "pre_frame im im1" "\<forall>am. r = Inr am \<longrightarrow> answers_media om am"
      using match_offer_answers [OF m] True Cons.prems(2) by (auto simp: p)
    then have "[] \<notin> set (m_fmt im1)"
      using pre_frame_fields [OF M(1)] Cons.prems(2) by (auto simp: p)
    with c M(2) Cons.IH Cons.prems(2) show ?thesis
      by (cases r) (fastforce simp: p)+
  next
    case False
    then obtain ims1 where "find_answer_media E prefer multiple initial om ims status = Some (found, ims1, status')"
      "ims' = p # ims1"
      using Cons.prems(1) by (auto simp: p)
    with Cons.IH [OF this(1)] Cons.prems(2) show ?thesis by auto
  qed
qed simp

lemma answer_media_ok:
  assumes "answer_media E prefer multiple initial oms ims status = Some (ams, status')"
    and "\<forall>(im, u) \<in> set ims. [] \<notin> set (m_fmt im)"
  shows "list_all2 answers_media oms ams"
  using assms
proof (induction oms arbitrary: ims status ams)
  case (Cons om oms)
  from Cons.prems(1) obtain found ims1 st1 ams1 where
    f: "find_answer_media E prefer multiple initial om ims status = Some (found, ims1, st1)"
    and a: "answer_media E prefer multiple initial oms ims1 st1 = Some (ams1, status')"
    and ams: "ams = (case found of Some am \<Rightarrow> am
        | None \<Rightarrow> sdp_media_clone_deactivate om (Some om) (Some (initial\<lparr>s_media := []\<rparr>))) # ams1"
    by (auto simp: bind_eq_Some_conv Let_def)
  from find_answer_media_ok [OF f Cons.prems(2)] Cons.IH [OF a] show ?case
    by (cases found) (auto simp: ams answers_media_def)
qed simp

text \<open>
  C14: the answer to an offer has one media line for every line of the offer, in the same order and of
  the same media type; a line it accepts was active in the offer, has the same transport, and lists
  only formats of the offer (a static payload type may be written differently). The local formats
  must not be empty strings.
\<close>

theorem sdp_answer_covers_offer:
  assumes "create_answer E prefer multiple initial offer = Some (status, Some answer)"
    and "\<forall>m \<in> set (s_media initial). [] \<notin> set (m_fmt m)"
  shows "list_all2 answers_media (s_media offer) (s_media answer)"
proof -
  from assms(1) obtain ams st where
    "answer_media E prefer multiple initial (s_media offer) (map (\<lambda>m. (m, False)) (s_media initial))
       (pjmedia_sdp_validate offer) = Some (ams, st)" "s_media answer = ams"
    by (auto simp: create_answer_def Let_def split: if_splits)
  with answer_media_ok [OF this(1)] assms(2) show ?thesis by auto
qed

theorem sdp_answer_covers_offer_witness:
  "\<exists>answer. create_answer ex_env True False (ex_session [ex_media [''0'', ''8''] []])
      (ex_session [ex_media [''8'', ''0''] []]) = Some (PJ_SUCCESS, Some answer) \<and>
     m_fmt (hd (s_media answer)) = [cstr ''8''] \<and>
     list_all2 answers_media [ex_media [''8'', ''0''] []] (s_media answer)"
proof -
  let ?i = "ex_session [ex_media [''0'', ''8''] []]" and ?o = "ex_session [ex_media [''8'', ''0''] []]"
  let ?a = "ex_session [ex_media [''8''] []]"
  have c: "create_answer ex_env True False ?i ?o = Some (PJ_SUCCESS, Some ?a)"
    by code_simp
  have "\<forall>m \<in> set (s_media ?i). [] \<notin> set (m_fmt m)"
    by (simp add: ex_session_def ex_media_def cstr_def)
  from sdp_answer_covers_offer [OF c this] c show ?thesis
    by (intro exI [of _ ?a]) (simp add: ex_session_def ex_media_def)
qed

end
