(* ===== verification/Sdp_Neg_Props.thy ===== *)
theory Sdp_Neg_Props
  imports Sdp_Neg_Answer
begin

text \<open>
  The negotiator as a state machine: which descriptions it holds in which state, what a failed
  negotiation leaves behind; and behaviours of the code that differ from what it means to do.
\<close>

section \<open>The states of the negotiator\<close>

text \<open>The negotiators that sequences of calls can produce, whatever the descriptions.\<close>

inductive neg_reachable :: "fmt_match_env \<Rightarrow> sdp_neg \<Rightarrow> bool" for E where
  create_local: "pjmedia_sdp_neg_create_w_local_offer local = Inr n \<Longrightarrow> neg_reachable E n"
| create_remote: "pjmedia_sdp_neg_create_w_remote_offer initial remote = Inr n \<Longrightarrow> neg_reachable E n"
| set_order: "neg_reachable E n \<Longrightarrow>
    neg_reachable E (pjmedia_sdp_neg_set_prefer_remote_codec_order b n)"
| set_multiple: "neg_reachable E n \<Longrightarrow>
    neg_reachable E (pjmedia_sdp_neg_set_answer_multiple_codecs b n)"
| modify: "neg_reachable E n \<Longrightarrow>
    pjmedia_sdp_neg_modify_local_offer2 n b local = Some (status, n') \<Longrightarrow> neg_reachable E n'"
| send: "neg_reachable E n \<Longrightarrow>
    pjmedia_sdp_neg_send_local_offer n = (status, n', sent) \<Longrightarrow> neg_reachable E n'"
| remote_answer: "neg_reachable E n \<Longrightarrow>
    pjmedia_sdp_neg_set_remote_answer n remote = (status, n') \<Longrightarrow> neg_reachable E n'"
| remote_offer: "neg_reachable E n \<Longrightarrow>
    pjmedia_sdp_neg_set_remote_offer n remote = (status, n') \<Longrightarrow> neg_reachable E n'"
| local_answer: "neg_reachable E n \<Longrightarrow>
    pjmedia_sdp_neg_set_local_answer n local = (status, n') \<Longrightarrow> neg_reachable E n'"
| cancel: "neg_reachable E n \<Longrightarrow>
    pjmedia_sdp_neg_cancel_offer n = (status, n') \<Longrightarrow> neg_reachable E n'"
| negotiate: "neg_reachable E n \<Longrightarrow>
    pjmedia_sdp_neg_negotiate E n allow_asym = Some (status, n') \<Longrightarrow> neg_reachable E n'"

text \<open>Which descriptions each state has.\<close>

definition neg_wf :: "sdp_neg \<Rightarrow> bool" where
  "neg_wf n \<longleftrightarrow>
     (case ng_state n of
        PJMEDIA_SDP_NEG_STATE_NULL \<Rightarrow> False
      | PJMEDIA_SDP_NEG_STATE_LOCAL_OFFER \<Rightarrow>
          ng_neg_local_sdp n \<noteq> None \<and> ng_neg_remote_sdp n = None \<and> \<not> ng_has_remote_answer n
      | PJMEDIA_SDP_NEG_STATE_REMOTE_OFFER \<Rightarrow>
          ng_neg_local_sdp n = None \<and> ng_neg_remote_sdp n \<noteq> None \<and> \<not> ng_has_remote_answer n
      | PJMEDIA_SDP_NEG_STATE_WAIT_NEGO \<Rightarrow>
          ng_neg_local_sdp n \<noteq> None \<and> ng_neg_remote_sdp n \<noteq> None \<and>
          (ng_has_remote_answer n \<or> ng_initial_sdp n \<noteq> None)
      | PJMEDIA_SDP_NEG_STATE_DONE \<Rightarrow>
          ng_neg_local_sdp n = None \<and> ng_neg_remote_sdp n = None \<and> ng_initial_sdp_tmp n = None \<and>
          \<not> ng_has_remote_answer n) \<and>
     (ng_active_local_sdp n = None \<longleftrightarrow> ng_active_remote_sdp n = None)"

text \<open>A direction either fails and changes nothing, or succeeds and sets both active descriptions.\<close>

definition negotiated :: "sdp_neg \<Rightarrow> pj_status \<Rightarrow> sdp_neg \<Rightarrow> bool" where
  "negotiated n status n1 \<longleftrightarrow>
     (if status = PJ_SUCCESS
      then \<exists>l r. n1 = n\<lparr>ng_active_local_sdp := Some l, ng_active_remote_sdp := Some r\<rparr>
      else n1 = n)"

lemma negotiate_remote_answer_cases:
  assumes "negotiate_remote_answer E n allow_asym = Some (status, n1)"
  shows "negotiated n status n1"
proof -
  from assms obtain remote where r: "ng_neg_remote_sdp n = Some remote"
    by (cases "ng_neg_remote_sdp n") (simp_all add: negotiate_remote_answer_def)
  show ?thesis
  proof (cases "ng_neg_local_sdp n")
    case None
    with assms r show ?thesis by (auto simp: negotiate_remote_answer_def negotiated_def)
  next
    case (Some local)
    with assms r obtain a r' where "n1 = (if status = PJ_SUCCESS
        then n\<lparr>ng_active_local_sdp := Some a, ng_active_remote_sdp := Some r'\<rparr> else n)"
      by (auto simp: negotiate_remote_answer_def)
    then show ?thesis by (auto simp: negotiated_def)
  qed
qed

lemma negotiate_local_answer_cases:
  assumes "negotiate_local_answer E n = Some (status, n1)"
  shows "negotiated n status n1"
proof -
  from assms obtain remote where r: "ng_neg_remote_sdp n = Some remote"
    by (cases "ng_neg_remote_sdp n") (simp_all add: negotiate_local_answer_def)
  define c where "c = (case ng_neg_local_sdp n of
          None \<Rightarrow>
            (let status = pjmedia_sdp_validate remote
             in Some (if status \<noteq> PJ_SUCCESS then status else PJ_ENOMEM, None))
        | Some local \<Rightarrow>
            create_answer E (ng_prefer_remote_codec_order n) (ng_answer_with_multiple_codecs n)
              local remote)"
  from assms obtain st ans where "c = Some (st, ans)"
    by (cases c) (auto simp: negotiate_local_answer_def r c_def [symmetric])
  with assms have e: "(if st \<noteq> PJ_SUCCESS then Some (st, n)
      else
        Option.bind ans (\<lambda>answer.
        Option.bind (case ng_active_local_sdp n of Some s \<Rightarrow> Some s | None \<Rightarrow> ng_initial_sdp n)
          (\<lambda>base.
           let answer' = answer\<lparr>s_origin :=
                 (s_origin answer)\<lparr>or_version := or_version (s_origin base) + 1\<rparr>\<rparr>
           in Some (PJ_SUCCESS,
               n\<lparr>ng_active_local_sdp := Some answer', ng_active_remote_sdp := Some remote\<rparr>)))) = Some (status, n1)"
    by (simp add: negotiate_local_answer_def r c_def [symmetric])
  show ?thesis
  proof (cases "st = PJ_SUCCESS")
    case False
    with e show ?thesis by (simp add: negotiated_def)
  next
    case True
    with e obtain answer where "status = PJ_SUCCESS"
      "n1 = n\<lparr>ng_active_local_sdp := Some answer, ng_active_remote_sdp := Some remote\<rparr>"
      by (auto simp: bind_eq_Some_conv Let_def)
    then show ?thesis by (auto simp: negotiated_def)
  qed
qed

lemma negotiate_cases:
  assumes "pjmedia_sdp_neg_negotiate E n allow_asym = Some (status, n')" "ng_state n = PJMEDIA_SDP_NEG_STATE_WAIT_NEGO"
    and "ng_neg_remote_sdp n \<noteq> None"
  shows "ng_state n' = PJMEDIA_SDP_NEG_STATE_DONE \<and> ng_answer_was_remote n' = ng_has_remote_answer n \<and>
         ng_neg_local_sdp n' = None \<and> ng_neg_remote_sdp n' = None \<and> ng_initial_sdp_tmp n' = None \<and>
         \<not> ng_has_remote_answer n' \<and>
         (if status = PJ_SUCCESS
          then ng_active_local_sdp n' \<noteq> None \<and> ng_active_remote_sdp n' \<noteq> None \<and>
               ng_initial_sdp n' = ng_initial_sdp n
          else ng_active_local_sdp n' = ng_active_local_sdp n \<and>
               ng_active_remote_sdp n' = ng_active_remote_sdp n \<and>
               ng_initial_sdp n' = ng_initial_sdp_tmp n)"
proof -
  from assms obtain n1 where
    n1: "(if ng_has_remote_answer n then negotiate_remote_answer E n allow_asym
          else negotiate_local_answer E n) = Some (status, n1)"
    and n': "n' = n1\<lparr>ng_state := PJMEDIA_SDP_NEG_STATE_DONE,
                ng_answer_was_remote := ng_has_remote_answer n1,
                ng_initial_sdp := (if status \<noteq> PJ_SUCCESS then ng_initial_sdp_tmp n1
                                   else ng_initial_sdp n1),
                ng_initial_sdp_tmp := None, ng_neg_local_sdp := None, ng_neg_remote_sdp := None,
                ng_has_remote_answer := False\<rparr>"
    by (auto simp: pjmedia_sdp_neg_negotiate_def)
  have n: "negotiated n status n1"
    using n1 negotiate_remote_answer_cases negotiate_local_answer_cases by (auto split: if_splits)
  show ?thesis
  proof (cases "status = PJ_SUCCESS")
    case True
    with n obtain l r where "n1 = n\<lparr>ng_active_local_sdp := Some l, ng_active_remote_sdp := Some r\<rparr>"
      by (auto simp: negotiated_def)
    with True show ?thesis by (simp add: n')
  next
    case False
    with n show ?thesis by (simp add: n' negotiated_def)
  qed
qed

lemma neg_wf_negotiate:
  assumes "neg_wf n" "pjmedia_sdp_neg_negotiate E n allow_asym = Some (status, n')"
  shows "neg_wf n'"
proof (cases "ng_state n = PJMEDIA_SDP_NEG_STATE_WAIT_NEGO")
  case True
  with assms(1) have "ng_neg_remote_sdp n \<noteq> None" "ng_active_local_sdp n = None \<longleftrightarrow> ng_active_remote_sdp n = None"
    by (simp_all add: neg_wf_def)
  with negotiate_cases [OF assms(2) True] show ?thesis
    by (cases "status = PJ_SUCCESS") (auto simp: neg_wf_def)
next
  case False
  with assms show ?thesis by (simp add: pjmedia_sdp_neg_negotiate_def)
qed

lemma neg_wf_create:
  "pjmedia_sdp_neg_create_w_local_offer local = Inr n \<Longrightarrow> neg_wf n"
  "pjmedia_sdp_neg_create_w_remote_offer initial remote = Inr n \<Longrightarrow> neg_wf n"
  by (auto simp: pjmedia_sdp_neg_create_w_local_offer_def pjmedia_sdp_neg_create_w_remote_offer_def
      neg_wf_def neg_zero_def Let_def split: if_splits option.splits)

lemma neg_wf_set:
  assumes "neg_wf n"
  shows "neg_wf (pjmedia_sdp_neg_set_prefer_remote_codec_order b n)"
    "neg_wf (pjmedia_sdp_neg_set_answer_multiple_codecs b n)"
    "neg_wf (snd (pjmedia_sdp_neg_set_remote_answer n remote))"
    "neg_wf (snd (pjmedia_sdp_neg_set_remote_offer n remote))"
    "neg_wf (snd (pjmedia_sdp_neg_cancel_offer n))"
    "neg_wf (fst (snd (pjmedia_sdp_neg_send_local_offer n)))"
    "neg_wf (snd (pjmedia_sdp_neg_set_local_answer n local))"
  using assms
  by (cases "ng_state n"; simp add: neg_wf_def pjmedia_sdp_neg_set_prefer_remote_codec_order_def
      pjmedia_sdp_neg_set_answer_multiple_codecs_def pjmedia_sdp_neg_set_remote_answer_def
      pjmedia_sdp_neg_set_remote_offer_def pjmedia_sdp_neg_cancel_offer_def
      pjmedia_sdp_neg_send_local_offer_def pjmedia_sdp_neg_set_local_answer_def Let_def split: option.split)+

lemma neg_wf_modify:
  assumes "neg_wf n" "pjmedia_sdp_neg_modify_local_offer2 n b local = Some (status, n')"
  shows "neg_wf n'"
proof (cases "ng_state n = PJMEDIA_SDP_NEG_STATE_DONE \<and> pjmedia_sdp_validate local = PJ_SUCCESS")
  case True
  with assms(2) obtain s t where "n' = n\<lparr>ng_state := PJMEDIA_SDP_NEG_STATE_LOCAL_OFFER,
      ng_initial_sdp_tmp := ng_initial_sdp n, ng_initial_sdp := Some s, ng_neg_local_sdp := Some t\<rparr>"
    by (auto simp: pjmedia_sdp_neg_modify_local_offer2_def Let_def bind_eq_Some_conv)
  with assms(1) True show ?thesis by (simp add: neg_wf_def)
next
  case False
  with assms show ?thesis
    by (auto simp: pjmedia_sdp_neg_modify_local_offer2_def Let_def split: if_splits)
qed

lemma neg_reachable_wf: "neg_reachable E n \<Longrightarrow> neg_wf n"
proof (induction rule: neg_reachable.induct)
  case (send n status n' sent)
  then show ?case using neg_wf_set(6) [of n] by simp
next
  case (remote_answer n remote status n')
  then show ?case using neg_wf_set(3) [of n remote] by simp
next
  case (remote_offer n remote status n')
  then show ?case using neg_wf_set(4) [of n remote] by simp
next
  case (local_answer n local status n')
  then show ?case using neg_wf_set(7) [of n "local"] by simp
next
  case (cancel n status n')
  then show ?case using neg_wf_set(5) [of n] by simp
qed (auto intro: neg_wf_create neg_wf_set neg_wf_modify neg_wf_negotiate)

text \<open>
  C13: the descriptions a negotiator holds are determined by its state, for every sequence of calls: a
  local offer has the local description and no remote one, a remote offer the other way round, both
  are there when it waits for negotiation (and an initial description to take the version from, when
  the answer is local), none is left when it is done; and the two active descriptions exist only
  together.
\<close>

theorem sdp_neg_well_formed:
  assumes "neg_reachable E n"
  shows "neg_wf n"
  using assms by (rule neg_reachable_wf)

theorem sdp_neg_well_formed_witness:
  "\<exists>n. pjmedia_sdp_neg_create_w_local_offer (ex_session [ex_media [''0''] []]) = Inr n \<and> neg_wf n \<and>
       ng_state n = PJMEDIA_SDP_NEG_STATE_LOCAL_OFFER"
proof -
  have "pjmedia_sdp_validate (ex_session [ex_media [''0''] []]) = PJ_SUCCESS"
    by code_simp
  then obtain n where n: "pjmedia_sdp_neg_create_w_local_offer (ex_session [ex_media [''0''] []]) = Inr n"
    "ng_state n = PJMEDIA_SDP_NEG_STATE_LOCAL_OFFER"
    by (simp add: pjmedia_sdp_neg_create_w_local_offer_def)
  then show ?thesis
    using sdp_neg_well_formed [OF neg_reachable.create_local [of _ n ex_env]] by blast
qed



section \<open>Behaviours worth knowing\<close>

lemma find_answer_media_none:
  assumes "\<forall>(im, u) \<in> set ims. m_media om \<noteq> m_media im \<or> m_transport om \<noteq> m_transport im"
  shows "find_answer_media E prefer multiple initial om ims status = Some (None, ims, status)"
  using assms by (induction ims) auto

lemma answer_media_none:
  assumes "\<forall>om \<in> set oms. \<forall>(im, u) \<in> set ims. m_media om \<noteq> m_media im \<or> m_transport om \<noteq> m_transport im"
  shows "\<exists>ams. answer_media E prefer multiple initial oms ims status = Some (ams, status) \<and>
           length ams = length oms \<and> (\<forall>am \<in> set ams. m_port am = 0)"
  using assms
proof (induction oms)
  case (Cons om oms)
  then obtain ams where "answer_media E prefer multiple initial oms ims status = Some (ams, status)"
    "length ams = length oms" "\<forall>am \<in> set ams. m_port am = 0" by auto
  with find_answer_media_none [of ims om] Cons.prems show ?case by (auto simp: Let_def)
qed simp

text \<open>
  C40: an offer none of whose media lines the local side can answer is reported as success. The
  variable \<^verbatim>\<open>status\<close>, initialised to \<^verbatim>\<open>PJMEDIA_SDPNEG_ENOMEDIA\<close> for this case, has been overwritten by the
  validation of the offer, so \<^verbatim>\<open>create_answer\<close> returns \<^verbatim>\<open>PJ_SUCCESS\<close> with every media line rejected.
\<close>

theorem sdp_answer_rejects_all_succeeds:
  assumes "pjmedia_sdp_validate offer = PJ_SUCCESS"
    and "\<forall>om \<in> set (s_media offer). \<forall>im \<in> set (s_media initial).
           m_media om \<noteq> m_media im \<or> m_transport om \<noteq> m_transport im"
  shows "\<exists>answer. create_answer E prefer multiple initial offer = Some (PJ_SUCCESS, Some answer) \<and>
           length (s_media answer) = length (s_media offer) \<and>
           (\<forall>am \<in> set (s_media answer). m_port am = 0)"
proof -
  obtain ams where "answer_media E prefer multiple initial (s_media offer)
      (map (\<lambda>m. (m, False)) (s_media initial)) PJ_SUCCESS = Some (ams, PJ_SUCCESS)"
    "length ams = length (s_media offer)" "\<forall>am \<in> set ams. m_port am = 0"
    using answer_media_none [of "s_media offer" "map (\<lambda>m. (m, False)) (s_media initial)" E "prefer" multiple initial PJ_SUCCESS]
      assms(2) by auto
  then show ?thesis
    using assms(1) by (auto simp: create_answer_def)
qed

theorem sdp_answer_rejects_all_succeeds_witness:
  "\<exists>answer. create_answer ex_env True False (ex_session [(ex_media [''0''] [])\<lparr>m_media := cstr ''video''\<rparr>])
      (ex_session [ex_media [''0''] []]) = Some (PJ_SUCCESS, Some answer) \<and>
     (\<forall>am \<in> set (s_media answer). m_port am = 0)"
proof -
  let ?i = "ex_session [(ex_media [''0''] [])\<lparr>m_media := cstr ''video''\<rparr>]"
    and ?o = "ex_session [ex_media [''0''] []]"
  have "pjmedia_sdp_validate ?o = PJ_SUCCESS" by code_simp
  moreover have "\<forall>om \<in> set (s_media ?o). \<forall>im \<in> set (s_media ?i).
      m_media om \<noteq> m_media im \<or> m_transport om \<noteq> m_transport im"
    by (simp add: ex_session_def ex_media_def cstr_def of_char_def)
  ultimately show ?thesis
    using sdp_answer_rejects_all_succeeds [of ?o ?i ex_env True False] by blast
qed

text \<open>
  An \<^verbatim>\<open>rtpmap\<close> attribute without a value in the remote answer is undefined behaviour. The attribute
  is taken for payload type 0, reading it fails before the result is initialised, the status is
  ignored, and the uninitialised structure is compared.
\<close>

theorem sdp_empty_rtpmap_undefined:
  assumes "m_media answer = m_media offer"
    and "pjmedia_sdp_transport_cmp (m_transport answer) (m_transport offer) = PJ_SUCCESS"
    and "m_port answer \<noteq> 0" "m_port offer \<noteq> 0" "remote_direction answer = DIR_ENCODING_DECODING"
    and "m_fmt offer = fo # fos" "\<not> pt_of fo < 96" "find_rtpmap offer fo = Some a"
    and "rtpmap_of a = Some orm"
    and "m_fmt answer = fa # fas" "find_rtpmap answer fa = Some b" "at_value b = []"
  shows "process_m_answer E offer answer False = None"
proof -
  have dir: "update_media_direction answer offer = offer"
    using assms(5) by (auto simp: update_media_direction_def remote_direction_def Let_def split: if_splits)
  have "rtpmap_of b = None"
    using find_rtpmap_Some [OF assms(11)] assms(12)
    by (simp add: rtpmap_of_def pjmedia_sdp_attr_get_rtpmap_def attr_matches_def)
  then have "find_answer_fmt E offer 0 answer = None"
    using assms(6-11) by (simp add: find_answer_fmt_def Let_def)
  then have "prune_offer E answer 0 [] offer = None"
    using assms(6) by (subst prune_offer.simps) simp
  then show ?thesis
    using assms(1-4) by (simp add: process_m_answer_def dir)
qed

theorem sdp_empty_rtpmap_undefined_witness:
  "process_m_answer ex_env
     (ex_media [''96''] [\<lparr>at_name = cstr ''rtpmap'', at_value = cstr ''96 L16/8000''\<rparr>])
     (ex_media [''0''] [\<lparr>at_name = cstr ''rtpmap'', at_value = []\<rparr>]) False = None"
proof -
  let ?ra = "\<lparr>at_name = cstr ''rtpmap'', at_value = cstr ''96 L16/8000''\<rparr>"
  let ?rb = "\<lparr>at_name = cstr ''rtpmap'', at_value = []\<rparr>"
  let ?o = "ex_media [''96''] [?ra]" and ?a = "ex_media [''0''] [?rb]"
  have *: "pjmedia_sdp_transport_cmp (m_transport ?a) (m_transport ?o) = PJ_SUCCESS"
    "m_port ?a \<noteq> 0" "m_port ?o \<noteq> 0" "remote_direction ?a = DIR_ENCODING_DECODING"
    "\<not> pt_of (cstr ''96'') < 96" "find_rtpmap ?o (cstr ''96'') = Some ?ra"
    "rtpmap_of ?ra = Some \<lparr>rm_pt = cstr ''96'', rm_enc_name = cstr ''L16'', rm_clock_rate = 8000, rm_param = []\<rparr>"
    "find_rtpmap ?a (cstr ''0'') = Some ?rb"
    by code_simp+
  have "m_media ?a = m_media ?o" "m_fmt ?o = cstr ''96'' # []" "m_fmt ?a = cstr ''0'' # []" "at_value ?rb = []"
    by (simp_all add: ex_media_def)
  from sdp_empty_rtpmap_undefined [OF this(1) *(1-4) this(2) *(5-7) this(3) *(8) this(4)]
  show ?thesis .
qed

text \<open>The check that an asymmetric answer has a common codec compares the answer with itself.\<close>

lemma sdp_asym_check_vacuous:
  assumes "m_media answer = m_media offer"
    and "pjmedia_sdp_transport_cmp (m_transport answer) (m_transport offer) = PJ_SUCCESS"
    and "m_port answer \<noteq> 0" "m_port offer \<noteq> 0" "m_fmt offer \<noteq> []" "m_fmt answer \<noteq> []"
  shows "process_m_answer E offer answer True = Some (PJ_SUCCESS, update_media_direction answer offer, answer)"
proof -
  have u: "[0 ..< length (m_fmt offer)] = 0 # [1 ..< length (m_fmt offer)]"
    using assms(5) by (simp add: upt_conv_Cons)
  then show ?thesis
    using assms by (cases "m_fmt answer") (simp_all add: process_m_answer_def)
qed

text \<open>After a first offer that was cancelled there is no active description to modify.\<close>

lemma sdp_modify_without_active_undefined:
  assumes "pjmedia_sdp_neg_create_w_remote_offer None remote = Inr n" "pjmedia_sdp_validate local = PJ_SUCCESS"
  shows "fst (pjmedia_sdp_neg_cancel_offer n) = PJ_SUCCESS \<and>
         pjmedia_sdp_neg_modify_local_offer (snd (pjmedia_sdp_neg_cancel_offer n)) local = None"
  using assms
  by (auto simp: pjmedia_sdp_neg_create_w_remote_offer_def pjmedia_sdp_neg_cancel_offer_def neg_zero_def
      pjmedia_sdp_neg_modify_local_offer_def pjmedia_sdp_neg_modify_local_offer2_def Let_def split: if_splits)

text \<open>
  An offer with the maximum number of lines that lacks a media type of the session makes the
  negotiator insert a line beyond the end of the array.
\<close>

lemma find_media_None: "\<forall>m \<in> set ms. m_media m \<noteq> t \<Longrightarrow> find_media t i ms = None"
  by (induction ms arbitrary: i) auto

lemma sdp_modify_overflow:
  assumes "ng_state n = PJMEDIA_SDP_NEG_STATE_DONE" "ng_active_local_sdp n = Some active"
    and "pjmedia_sdp_validate local = PJ_SUCCESS" "length (s_media local) = PJMEDIA_MAX_SDP_MEDIA"
    and "s_media active = om # oms" "\<forall>m \<in> set (s_media local). m_media m \<noteq> m_media om"
  shows "pjmedia_sdp_neg_modify_local_offer n local = None"
  using assms find_media_None [OF assms(6)]
  by (simp add: pjmedia_sdp_neg_modify_local_offer_def pjmedia_sdp_neg_modify_local_offer2_def Let_def)

text \<open>
  Plain \<^verbatim>\<open>UDP\<close> is not recognised as a transport, and the value of any attribute of an SSRC is taken for
  its CNAME.
\<close>

lemma sdp_transport_udp_unknown:
  "pjmedia_sdp_transport_get_proto (cstr ''UDP'') = PJMEDIA_TP_PROTO_UNKNOWN"
  by code_simp

lemma sdp_ssrc_any_attribute_is_cname:
  "pjmedia_sdp_attr_get_ssrc \<lparr>at_name = cstr ''ssrc'', at_value = cstr ''7 msid:x''\<rparr>
   = Ok (Inr \<lparr>sr_ssrc = 7, sr_cname = cstr ''x''\<rparr>)"
  by code_simp

text \<open>
  Two telephone events of the offer that match the same local one: the local payload type is noted
  twice, and the second search for it runs to the end of the formats.
\<close>

lemma sdp_two_televents_undefined:
  "create_answer ex_env True False
     (ex_session [ex_media [''0'', ''96''] [\<lparr>at_name = cstr ''rtpmap'', at_value = cstr ''96 telephone-event/8000''\<rparr>]])
     (ex_session [ex_media [''0'', ''96'', ''97'']
        [\<lparr>at_name = cstr ''rtpmap'', at_value = cstr ''96 telephone-event/8000''\<rparr>,
         \<lparr>at_name = cstr ''rtpmap'', at_value = cstr ''97 telephone-event/8000''\<rparr>]]) = None"
  by code_simp

end
