(* ===== verification/Sdp_Parse.thy ===== *)
theory Sdp_Parse
  imports Sdp
begin

text \<open>
  Printing and parsing of session descriptions, \<^verbatim>\<open>pjmedia_sdp_print\<close> and \<^verbatim>\<open>pjmedia_sdp_parse\<close> of
  \<^verbatim>\<open>pjmedia/src/pjmedia/sdp.c\<close>, with the functions for one line each, and the makers of typed
  attributes. The strings of a parsed description point into the buffer; the model has their octets.
\<close>

section \<open>Making typed attributes\<close>

text \<open>
  An argument of the conversion \<^verbatim>\<open>%.*s\<close>: the octets up to the given length or a NUL; \<^verbatim>\<open>%u\<close> and \<^verbatim>\<open>%d\<close>
  of 32-bit values.
\<close>

definition arg_s :: "bytes \<Rightarrow> bytes" where
  "arg_s str = takeWhile (\<lambda>c. c \<noteq> 0) str"

definition arg_u :: "u32 \<Rightarrow> bytes" where
  "arg_u v = pj_utoa (unat v)"

definition arg_d :: "u32 \<Rightarrow> bytes" where
  "arg_d v = (if sint v < 0 then 45 # pj_utoa (nat (- sint v)) else pj_utoa (nat (sint v)))"

definition pjmedia_sdp_rtpmap_to_attr :: "sdp_rtpmap \<Rightarrow> pj_status + sdp_attr" where
  "pjmedia_sdp_rtpmap_to_attr rtpmap =
     (if \<not> (rm_enc_name rtpmap \<noteq> [] \<and> rm_clock_rate rtpmap \<noteq> 0) then Inl PJMEDIA_SDP_EINRTPMAP
      else
        let text = arg_s (rm_pt rtpmap) @ [32] @ arg_s (rm_enc_name rtpmap) @ [47]
                   @ arg_u (rm_clock_rate rtpmap) @ (if rm_param rtpmap \<noteq> [] then [47] else [])
                   @ arg_s (rm_param rtpmap)
        in if length text < 1 \<or> length text \<ge> 128 then Inl PJMEDIA_SDP_ERTPMAPTOOLONG
           else Inr \<lparr>at_name = cstr ''rtpmap'', at_value = text\<rparr>)"

definition pjmedia_sdp_attr_to_rtpmap :: "sdp_attr \<Rightarrow> (pj_status \<times> sdp_rtpmap option) scan" where
  "pjmedia_sdp_attr_to_rtpmap attr = pjmedia_sdp_attr_get_rtpmap attr"

text \<open>
  The length of the value is what \<^verbatim>\<open>snprintf\<close> would have liked to write; when that does not fit, the
  last octet of the value is the terminating NUL.
\<close>

definition pjmedia_sdp_attr_create_ssrc :: "u32 \<Rightarrow> bytes \<Rightarrow> sdp_attr option" where
  "pjmedia_sdp_attr_create_ssrc ssrc cname =
     (if cname = [] then None
      else
        let text = arg_d ssrc @ cstr '' cname:'' @ arg_s cname; room = length cname + 18
        in Some \<lparr>at_name = cstr ''ssrc'',
                  at_value = (if length text < room then text
                              else take (room - 1) text @ replicate (length text + 1 - room) 0)\<rparr>)"

section \<open>Printing\<close>

text \<open>
  A printing function gets the room left in the buffer. It returns the octets it has written, or -1
  for a buffer it finds too small; \<open>Overflow\<close> stands for writing behind the end of the buffer.
\<close>

datatype out = Written bytes | Too_Small | Overflow

definition out_then :: "(nat \<Rightarrow> out) \<Rightarrow> (nat \<Rightarrow> out) \<Rightarrow> nat \<Rightarrow> out" where
  "out_then p q len =
     (case p len of
        Written t \<Rightarrow> (case q (len - length t) of Written u \<Rightarrow> Written (t @ u) | r \<Rightarrow> r)
      | r \<Rightarrow> r)"

fun out_all :: "('a \<Rightarrow> nat \<Rightarrow> out) \<Rightarrow> 'a list \<Rightarrow> nat \<Rightarrow> out" where
  "out_all p [] = (\<lambda>len. Written [])"
| "out_all p (x # xs) = out_then (p x) (out_all p xs)"

text \<open>
  A block of octets written after the check that at least \<open>required\<close> octets are left. Where
  \<^verbatim>\<open>pj_utoa\<close> adds a NUL, the next octet of the block is written over it.
\<close>

definition out_block :: "nat \<Rightarrow> bytes \<Rightarrow> nat \<Rightarrow> out" where
  "out_block required text len =
     (if len < required then Too_Small else if length text \<le> len then Written text else Overflow)"

definition crlf :: bytes where
  "crlf = [13, 10]"

definition print_connection_info :: "sdp_conn \<Rightarrow> nat \<Rightarrow> out" where
  "print_connection_info c len =
     (let text = [99, 61] @ arg_s (c_net_type c) @ [32] @ arg_s (c_addr_type c) @ [32]
                 @ arg_s (c_addr c) @ crlf
      in if length text \<ge> len then Too_Small else Written text)"

definition print_bandw :: "sdp_bandw \<Rightarrow> nat \<Rightarrow> out" where
  "print_bandw bandw =
     out_block (length (b_modifier bandw) + 10 + 5)
       ([98, 61] @ b_modifier bandw @ [58] @ pj_utoa (unat (b_value bandw)) @ crlf)"

definition print_attr :: "sdp_attr \<Rightarrow> nat \<Rightarrow> out" where
  "print_attr attr =
     out_block (length (at_name attr) + length (at_value attr) + 10)
       ([97, 61] @ at_name attr
        @ (if at_value attr \<noteq> [] then 58 # at_value attr else []) @ crlf)"

text \<open>The length required for the line \<^verbatim>\<open>m=\<close> does not count the formats.\<close>

definition media_line :: "sdp_media \<Rightarrow> bytes" where
  "media_line m =
     [109, 61] @ m_media m @ [32] @ pj_utoa (unat (m_port m))
     @ (if m_port_count m > 1 then 47 # pj_utoa (unat (m_port_count m)) else [])
     @ [32] @ m_transport m @ concat (map (\<lambda>fmt. 32 # fmt) (m_fmt m)) @ crlf"

definition print_opt :: "('a \<Rightarrow> nat \<Rightarrow> out) \<Rightarrow> 'a option \<Rightarrow> nat \<Rightarrow> out" where
  "print_opt p x = (case x of Some y \<Rightarrow> p y | None \<Rightarrow> (\<lambda>len. Written []))"

definition print_media_desc :: "sdp_media \<Rightarrow> nat \<Rightarrow> out" where
  "print_media_desc m =
     out_then (out_block (length (m_media m) + length (m_transport m) + 12 + 24) (media_line m))
    (out_then (print_opt print_connection_info (m_conn m))
    (out_then (out_all print_bandw (m_bandw m))
              (out_all print_attr (m_attr m))))"

definition origin_lines :: "sdp_origin \<Rightarrow> bytes" where
  "origin_lines origin =
     [118, 61, 48] @ crlf
     @ [111, 61] @ or_user origin @ [32] @ pj_utoa (unat (or_id origin)) @ [32]
     @ pj_utoa (unat (or_version origin)) @ [32] @ or_net_type origin @ [32]
     @ or_addr_type origin @ [32] @ or_addr origin @ crlf"

definition print_session :: "sdp_session \<Rightarrow> nat \<Rightarrow> out" where
  "print_session ses =
     out_then (out_block (5 + 2 + length (or_user (s_origin ses)) + 18
                          + length (or_net_type (s_origin ses)) + length (or_addr (s_origin ses)) + 2)
                 (origin_lines (s_origin ses)))
    (out_then (out_block (8 + length (s_name ses)) ([115, 61] @ s_name ses @ crlf))
    (out_then (print_opt print_connection_info (s_conn ses))
    (out_then (out_all print_bandw (s_bandw ses))
    (out_then (out_block 24 ([116, 61] @ pj_utoa (unat (s_start ses)) @ [32]
                             @ pj_utoa (unat (s_stop ses)) @ crlf))
    (out_then (out_all print_attr (s_attr ses))
              (out_all print_media_desc (s_media ses)))))))"

definition pjmedia_sdp_print :: "sdp_session \<Rightarrow> nat \<Rightarrow> out" where
  "pjmedia_sdp_print desc buflen = print_session desc buflen"

section \<open>Parsing one line\<close>

text \<open>
  Every function starts at the letter of its line and ends behind the line. A syntax error is an
  exception; the error code a line sets beforehand is noted where the exception is caught.
\<close>

definition check_equal_sign :: "pj_scanner \<Rightarrow> 'a scan \<Rightarrow> 'a scan" where
  "check_equal_sign sc k =
     scan_bind (rd (sc_mem sc) (sc_cur sc + 1)) (\<lambda>c. if c \<noteq> 61 then Syntax_Err else k)"

definition parse_version :: "pj_scanner \<Rightarrow> pj_scanner scan" where
  "parse_version sc =
     check_equal_sign sc
       (scan_bind (rd (sc_mem sc) (sc_cur sc + 2)) (\<lambda>c.
          if c \<noteq> 48 then Syntax_Err else pj_scan_skip_line sc))"

text \<open>A token up to a character, which is then eaten.\<close>

definition until_and_eat :: "int \<Rightarrow> pj_scanner \<Rightarrow> (bytes \<times> pj_scanner) scan" where
  "until_and_eat ch sc =
     scan_bind (pj_scan_get_until_ch sc ch) (\<lambda>(str, sc1).
     scan_bind (pj_scan_get_char sc1) (\<lambda>(_, sc2). Ok (str_of (sc_mem sc) str, sc2)))"

text \<open>A token up to one of some characters, then the rest of the line is skipped.\<close>

definition until_and_skip :: "bytes \<Rightarrow> pj_scanner \<Rightarrow> (bytes \<times> pj_scanner) scan" where
  "until_and_skip chs sc =
     scan_bind (pj_scan_get_until_chr sc chs) (\<lambda>(str, sc1).
     scan_bind (pj_scan_skip_line sc1) (\<lambda>sc2. Ok (str_of (sc_mem sc) str, sc2)))"

definition parse_origin :: "pj_scanner \<Rightarrow> sdp_session \<Rightarrow> (sdp_session \<times> pj_scanner) scan" where
  "parse_origin sc ses =
     check_equal_sign sc
       (scan_bind (pj_scan_advance_n sc 2 False) (\<lambda>sc1.
        scan_bind (until_and_eat 32 sc1) (\<lambda>(user, sc2).
        scan_bind (until_and_eat 32 sc2) (\<lambda>(sid, sc3).
        scan_bind (until_and_eat 32 sc3) (\<lambda>(version, sc4).
        scan_bind (until_and_eat 32 sc4) (\<lambda>(net_type, sc5).
        scan_bind (until_and_eat 32 sc5) (\<lambda>(addr_type, sc6).
        scan_bind (until_and_skip [32, 9, 13, 10] sc6) (\<lambda>(addr, sc7).
          Ok (ses\<lparr>s_origin := \<lparr>or_user = user, or_id = ucast (pj_strtoul sid),
                                or_version = ucast (pj_strtoul version), or_net_type = net_type,
                                or_addr_type = addr_type, or_addr = addr\<rparr>\<rparr>, sc7)))))))))"

definition parse_time :: "pj_scanner \<Rightarrow> sdp_session \<Rightarrow> (sdp_session \<times> pj_scanner) scan" where
  "parse_time sc ses =
     check_equal_sign sc
       (scan_bind (pj_scan_advance_n sc 2 False) (\<lambda>sc1.
        scan_bind (until_and_eat 32 sc1) (\<lambda>(start, sc2).
        scan_bind (until_and_skip [32, 9, 13, 10] sc2) (\<lambda>(stop, sc3).
          Ok (ses\<lparr>s_start := ucast (pj_strtoul start), s_stop := ucast (pj_strtoul stop)\<rparr>, sc3)))))"

definition parse_generic_line :: "pj_scanner \<Rightarrow> (bytes \<times> pj_scanner) scan" where
  "parse_generic_line sc =
     check_equal_sign sc
       (scan_bind (pj_scan_advance_n sc 2 False) (\<lambda>sc1.
        scan_bind (pj_scan_get_until_chr sc1 [13, 10]) (\<lambda>(str, sc2).
        scan_bind (pj_scan_get_newline sc2) (\<lambda>sc3. Ok (str_of (sc_mem sc1) str, sc3)))))"

definition parse_connection_info :: "pj_scanner \<Rightarrow> (sdp_conn \<times> pj_scanner) scan" where
  "parse_connection_info sc =
     scan_bind (pj_scan_advance_n sc 2 False) (\<lambda>sc1.
     scan_bind (until_and_eat 32 sc1) (\<lambda>(net_type, sc2).
     scan_bind (until_and_eat 32 sc2) (\<lambda>(addr_type, sc3).
     scan_bind (until_and_skip [47, 32, 9, 13, 10] sc3) (\<lambda>(addr, sc4).
       Ok (\<lparr>c_net_type = net_type, c_addr_type = addr_type, c_addr = addr\<rparr>, sc4)))))"

definition parse_bandwidth_info :: "pj_scanner \<Rightarrow> (sdp_bandw \<times> pj_scanner) scan" where
  "parse_bandwidth_info sc =
     scan_bind (pj_scan_advance_n sc 2 False) (\<lambda>sc1.
     scan_bind (until_and_eat 58 sc1) (\<lambda>(modifier, sc2).
     scan_bind (until_and_skip [32, 9, 13, 10] sc2) (\<lambda>(v, sc3).
       Ok (\<lparr>b_modifier = modifier, b_value = ucast (pj_strtoul v)\<rparr>, sc3))))"

subsection \<open>Scanner calls move forward\<close>

text \<open>
  The loops of the parser end because every successful call leaves the scanner at or behind the
  place where it was, on the same buffer.
\<close>

definition fwd :: "pj_scanner \<Rightarrow> pj_scanner \<Rightarrow> bool" where
  "fwd sc sc' \<longleftrightarrow> sc_mem sc' = sc_mem sc \<and> sc_end sc' = sc_end sc \<and> sc_skip_ws sc' = sc_skip_ws sc \<and>
     sc_cur sc \<le> sc_cur sc'"

lemma fwd_trans: "fwd a b \<Longrightarrow> fwd b c \<Longrightarrow> fwd a c"
  by (auto simp: fwd_def)

lemma newline_loop_fwd:
  assumes "newline_loop mem sc s = Ok (sc', s')" "sc_cur sc \<le> s"
  shows "sc_mem sc' = sc_mem sc \<and> sc_end sc' = sc_end sc \<and> sc_skip_ws sc' = sc_skip_ws sc \<and>
         sc_cur sc \<le> s'"
  using assms
proof (induction mem sc s arbitrary: sc' s' rule: newline_loop.induct)
  case (1 mem sc s)
  from "1.prems"(1) have s: "s < length mem"
    by (subst (asm) newline_loop.simps) (simp split: if_splits)
  consider (cr) "mem ! s = 13" | (lf) "mem ! s \<noteq> 13" "mem ! s = 10"
    | (space) "mem ! s \<noteq> 13" "mem ! s \<noteq> 10" "PJ_SCAN_IS_SPACE (mem ! s)"
    | (other) "mem ! s \<noteq> 13" "mem ! s \<noteq> 10" "\<not> PJ_SCAN_IS_SPACE (mem ! s)"
    by blast
  then show ?case
  proof cases
    case cr
    with "1.prems" s have l: "s + 1 < length mem"
      by (subst (asm) newline_loop.simps) (simp split: if_splits)
    define t where "t = (if mem ! (s + 1) = 10 then s + 2 else s + 1)"
    have "newline_loop mem (sc\<lparr>sc_line := sc_line sc + 1, sc_cur := t, sc_start_line := t\<rparr>) t = Ok (sc', s')"
      using "1.prems"(1) s cr l by (subst (asm) newline_loop.simps) (simp add: t_def Let_def)
    from "1.IH"(1) [OF s cr l t_def, unfolded t_def [symmetric], OF this] "1.prems"(2)
    show ?thesis by (simp add: t_def split: if_splits)
  next
    case lf
    have "newline_loop mem (sc\<lparr>sc_line := sc_line sc + 1, sc_cur := s + 1, sc_start_line := s + 1\<rparr>) (s + 1)
          = Ok (sc', s')"
      using "1.prems"(1) s lf by (subst (asm) newline_loop.simps) simp
    from "1.IH"(2) [OF s lf this] "1.prems"(2) show ?thesis by simp
  next
    case space
    then obtain t where w: "while_loop PJ_SCAN_IS_SPACE mem (s + 1) = Ok t"
      and n: "newline_loop mem sc t = Ok (sc', s')"
      using "1.prems"(1) s by (subst (asm) newline_loop.simps) (simp split: scan.splits)
    from while_loop_ge [OF w] "1.prems"(2) have "sc_cur sc \<le> t" by simp
    from "1.IH"(3) [OF s space w n this] show ?thesis .
  next
    case other
    then show ?thesis
      using "1.prems" s by (subst (asm) newline_loop.simps) auto
  qed
qed

lemma header_continuation_fwd:
  assumes "header_continuation sc s = Ok sc'" "sc_cur sc \<le> s"
  shows "fwd sc sc'"
  using assms while_loop_ge
  by (fastforce simp: header_continuation_def Let_def scan_bind_Ok rd_Ok fwd_def split: if_splits)

lemma skip_whitespace_fwd: "pj_scan_skip_whitespace sc = Ok sc' \<Longrightarrow> fwd sc sc'"
proof -
  assume "pj_scan_skip_whitespace sc = Ok sc'"
  then obtain s sc1 s1 where w: "while_loop PJ_SCAN_IS_SPACE (sc_mem sc) (sc_cur sc) = Ok s"
    and n: "(if PJ_SCAN_IS_NEWLINE (sc_mem sc ! s) \<and> (sc_skip_ws sc AND PJ_SCAN_AUTOSKIP_NEWLINE) \<noteq> 0
             then newline_loop (sc_mem sc) sc s else Ok (sc, s)) = Ok (sc1, s1)"
    and h: "(if PJ_SCAN_IS_NEWLINE (sc_mem sc ! s1) \<and>
                (sc_skip_ws sc AND PJ_SCAN_AUTOSKIP_WS_HEADER) = PJ_SCAN_AUTOSKIP_WS_HEADER
             then header_continuation sc1 s1 else Ok (sc1\<lparr>sc_cur := s1\<rparr>)) = Ok sc'"
    by (auto simp: pj_scan_skip_whitespace_def Let_def scan_bind_Ok rd_Ok)
  have 1: "sc_mem sc1 = sc_mem sc \<and> sc_end sc1 = sc_end sc \<and> sc_skip_ws sc1 = sc_skip_ws sc \<and> sc_cur sc \<le> s1"
    using n newline_loop_fwd [of "sc_mem sc" sc s sc1 s1] while_loop_ge [OF w] by (auto split: if_splits)
  have "header_continuation sc1 s1 = Ok sc' \<Longrightarrow> sc_mem sc' = sc_mem sc1 \<and> sc_end sc' = sc_end sc1 \<and>
        sc_skip_ws sc' = sc_skip_ws sc1 \<and> s1 \<le> sc_cur sc'"
    using while_loop_ge [of PJ_SCAN_IS_SPACE "sc_mem sc1"]
    by (fastforce simp: header_continuation_def Let_def scan_bind_Ok rd_Ok split: if_splits)
  with 1 h show ?thesis by (auto simp: fwd_def split: if_splits)
qed

lemma auto_skip_fwd: "auto_skip skip sc = Ok sc' \<Longrightarrow> fwd sc sc'"
  by (auto simp: auto_skip_def scan_bind_Ok fwd_def dest!: skip_whitespace_fwd split: if_splits)

lemma take_token_fwd: "take_token sc s = Ok (str, sc') \<Longrightarrow> sc_cur sc \<le> s \<Longrightarrow> fwd sc sc'"
  by (auto simp: take_token_def scan_bind_Ok fwd_def dest!: auto_skip_fwd)

lemma get_char_fwd: "pj_scan_get_char sc = Ok (c, sc') \<Longrightarrow> fwd sc sc' \<and> sc_cur sc < sc_cur sc'"
  by (auto simp: pj_scan_get_char_def scan_bind_Ok fwd_def dest!: auto_skip_fwd split: if_splits)

lemma get_fwd: "pj_scan_get sc spec = Ok (str, sc') \<Longrightarrow> fwd sc sc'"
  by (auto simp: pj_scan_get_def scan_bind_Ok rd_Ok dest!: while_loop_ge split: if_splits
      intro!: take_token_fwd)

lemma until_fwd:
  "pj_scan_get_until_ch sc ch = Ok (str, sc') \<Longrightarrow> fwd sc sc'"
  "pj_scan_get_until_chr sc chs = Ok (str, sc') \<Longrightarrow> fwd sc sc'"
  by (auto simp: pj_scan_get_until_ch_def pj_scan_get_until_chr_def scan_bind_Ok
      dest!: while_not_eof_ge split: if_splits intro!: take_token_fwd)

lemma advance_fwd: "pj_scan_advance_n sc n b = Ok sc' \<Longrightarrow> fwd sc sc' \<and> sc_cur sc + n \<le> sc_cur sc'"
  by (auto simp: pj_scan_advance_n_def fwd_def dest!: auto_skip_fwd split: if_splits)

text \<open>Skipping a line: to the end of the buffer, or forward.\<close>

definition past :: "pj_scanner \<Rightarrow> pj_scanner \<Rightarrow> bool" where
  "past sc sc' \<longleftrightarrow> sc_mem sc' = sc_mem sc \<and> sc_end sc' = sc_end sc \<and> sc_skip_ws sc' = sc_skip_ws sc \<and>
     (sc_cur sc < sc_cur sc' \<or> sc_cur sc' = sc_end sc')"

lemma skip_line_past: "pj_scan_skip_line sc = Ok sc' \<Longrightarrow> past sc sc'"
  by (auto simp: pj_scan_skip_line_def scan_bind_Ok rd_Ok past_def dest!: while_loop_ge split: if_splits)

lemma get_newline_past: "pj_scan_get_newline sc = Ok sc' \<Longrightarrow> past sc sc'"
  by (auto simp: pj_scan_get_newline_def scan_bind_Ok rd_Ok past_def Let_def PJ_SCAN_IS_NEWLINE_def
      split: if_splits)

lemma fwd_past: "fwd a b \<Longrightarrow> past b c \<Longrightarrow> past a c"
  by (auto simp: fwd_def past_def)

lemma until_and_eat_fwd: "until_and_eat ch sc = Ok (str, sc') \<Longrightarrow> fwd sc sc'"
  by (auto simp: until_and_eat_def scan_bind_Ok dest!: until_fwd(1) get_char_fwd intro: fwd_trans)

lemma until_and_skip_past: "until_and_skip chs sc = Ok (str, sc') \<Longrightarrow> past sc sc'"
  by (auto simp: until_and_skip_def scan_bind_Ok dest!: until_fwd(2) skip_line_past intro: fwd_past)

lemma check_equal_sign_Ok: "check_equal_sign sc k = Ok x \<Longrightarrow> k = Ok x"
  by (auto simp: check_equal_sign_def scan_bind_Ok split: if_splits)

subsection \<open>Media and attributes\<close>

text \<open>The loop over the formats of a line \<^verbatim>\<open>m=\<close>; formats beyond the array are ignored.\<close>

function fmt_loop :: "pj_scanner \<Rightarrow> bytes list \<Rightarrow> (bytes list \<times> pj_scanner) scan" where
  "fmt_loop sc fmts =
     (case rd (sc_mem sc) (sc_cur sc) of
        Syntax_Err \<Rightarrow> Syntax_Err
      | Overrun \<Rightarrow> Overrun
      | Ok c \<Rightarrow>
          (if c \<noteq> 32 then Ok (fmts, sc)
           else
             (case pj_scan_get_char sc of
                Syntax_Err \<Rightarrow> Syntax_Err
              | Overrun \<Rightarrow> Overrun
              | Ok (_, sc1) \<Rightarrow>
                  (case rd (sc_mem sc1) (sc_cur sc1) of
                     Syntax_Err \<Rightarrow> Syntax_Err
                   | Overrun \<Rightarrow> Overrun
                   | Ok c1 \<Rightarrow>
                       (if c1 = 13 \<or> c1 = 10 then Ok (fmts, sc1)
                        else
                          (case pj_scan_get sc1 cs_token of
                             Syntax_Err \<Rightarrow> Syntax_Err
                           | Overrun \<Rightarrow> Overrun
                           | Ok (fmt, sc2) \<Rightarrow>
                               fmt_loop sc2
                                 (if length fmts < PJMEDIA_MAX_SDP_FMT
                                  then fmts @ [str_of (sc_mem sc1) fmt] else fmts)))))))"
  by pat_completeness auto
termination
  by (relation "measure (\<lambda>(sc, fmts). length (sc_mem sc) - sc_cur sc)")
    (auto simp: rd_Ok fwd_def dest!: get_char_fwd get_fwd)

declare fmt_loop.simps [simp del]

definition media_zero :: sdp_media where
  "media_zero = \<lparr>m_media = [], m_port = 0, m_port_count = 0, m_transport = [], m_fmt = [], m_conn = None,
                 m_bandw = [], m_attr = []\<rparr>"

text \<open>\<^verbatim>\<open>parse_media\<close> on a media description that is all zero.\<close>

definition parse_media :: "pj_scanner \<Rightarrow> (sdp_media \<times> pj_scanner) scan" where
  "parse_media sc =
     check_equal_sign sc
       (scan_bind (pj_scan_advance_n sc 2 False) (\<lambda>sc1.
        scan_bind (until_and_eat 32 sc1) (\<lambda>(media, sc2).
        scan_bind (pj_scan_get sc2 cs_token) (\<lambda>(port, sc3).
        scan_bind (rd (sc_mem sc3) (sc_cur sc3)) (\<lambda>c.
        scan_bind
          (if c = 47 then
             scan_bind (pj_scan_get_char sc3) (\<lambda>(_, sc4).
             scan_bind (pj_scan_get sc4 cs_token) (\<lambda>(count, sc5).
               Ok (ucast (pj_strtoul (str_of (sc_mem sc4) count)), sc5)))
           else Ok (0, sc3)) (\<lambda>(port_count, sc6).
        scan_bind (pj_scan_get_char sc6) (\<lambda>(chr, sc7).
        if chr \<noteq> 32 then Syntax_Err
        else
          scan_bind (pj_scan_get_until_chr sc7 [32, 9, 13, 10]) (\<lambda>(transport, sc8).
          scan_bind (fmt_loop sc8 []) (\<lambda>(fmts, sc9).
          scan_bind (pj_scan_skip_line sc9) (\<lambda>sc10.
            Ok (media_zero\<lparr>m_media := media, m_port := ucast (pj_strtoul (str_of (sc_mem sc2) port)),
                           m_port_count := port_count, m_transport := str_of (sc_mem sc7) transport,
                           m_fmt := fmts\<rparr>, sc10)))))))))))"

definition parse_attr :: "pj_scanner \<Rightarrow> (sdp_attr \<times> pj_scanner) scan" where
  "parse_attr sc =
     check_equal_sign sc
       (scan_bind (pj_scan_advance_n sc 2 False) (\<lambda>sc1.
        scan_bind (pj_scan_get sc1 cs_token) (\<lambda>(name, sc2).
        scan_bind (rd (sc_mem sc2) (sc_cur sc2)) (\<lambda>c.
        scan_bind
          (if c \<noteq> 0 \<and> c \<noteq> 13 \<and> c \<noteq> 10 then
             scan_bind (if c = 58 then pj_scan_get_char sc2 else Ok (c, sc2)) (\<lambda>(_, sc3).
             scan_bind (rd (sc_mem sc3) (sc_cur sc3)) (\<lambda>c1.
               if c1 \<noteq> 13 \<and> c1 \<noteq> 10 then
                 scan_bind (pj_scan_get_until_chr sc3 [13, 10]) (\<lambda>(v, sc4).
                   Ok (str_of (sc_mem sc3) v, sc4))
               else Ok ([], sc3)))
           else Ok ([], sc2)) (\<lambda>(v, sc5).
        scan_bind (pj_scan_skip_line sc5) (\<lambda>sc6.
          Ok (\<lparr>at_name = str_of (sc_mem sc1) name, at_value = v\<rparr>, sc6)))))))"

section \<open>Parsing a description\<close>

text \<open>
  The variables of \<^verbatim>\<open>pjmedia_sdp_parse\<close>: the session and the pointer \<^verbatim>\<open>media\<close>, which is null, points to the
  last media line of the session, or, behind more lines than the array holds, to one that is not
  part of it.
\<close>

datatype cur_media = No_Media | Last_Media | Ignored_Media sdp_media

record parse_state =
  ps_session :: sdp_session
  ps_media :: cur_media

definition session_zero :: sdp_session where
  "session_zero =
     \<lparr>s_origin = \<lparr>or_user = [], or_id = 0, or_version = 0, or_net_type = [], or_addr_type = [], or_addr = []\<rparr>,
      s_name = [], s_conn = None, s_bandw = [], s_start = 0, s_stop = 0, s_attr = [], s_media = []\<rparr>"

definition upd_media :: "(sdp_media \<Rightarrow> sdp_media) \<Rightarrow> parse_state \<Rightarrow> parse_state" where
  "upd_media f st =
     (case ps_media st of
        No_Media \<Rightarrow> st
      | Last_Media \<Rightarrow>
          (let ses = ps_session st; ms = s_media ses
           in st\<lparr>ps_session := ses\<lparr>s_media := butlast ms @ [f (last ms)]\<rparr>\<rparr>)
      | Ignored_Media m \<Rightarrow> st\<lparr>ps_media := Ignored_Media (f m)\<rparr>)"

definition add_attr :: "sdp_attr \<Rightarrow> parse_state \<Rightarrow> parse_state" where
  "add_attr attr st =
     (if ps_media st \<noteq> No_Media then
        upd_media (\<lambda>m. if length (m_attr m) < PJMEDIA_MAX_SDP_ATTR
                       then pjmedia_sdp_media_add_attr m attr else m) st
      else if length (s_attr (ps_session st)) < PJMEDIA_MAX_SDP_ATTR
      then st\<lparr>ps_session := pjmedia_sdp_session_add_attr (ps_session st) attr\<rparr>
      else st)"

definition add_bandw :: "sdp_bandw \<Rightarrow> parse_state \<Rightarrow> parse_state" where
  "add_bandw bandw st =
     (if ps_media st \<noteq> No_Media then
        upd_media (\<lambda>m. if length (m_bandw m) < PJMEDIA_MAX_SDP_BANDW
                       then m\<lparr>m_bandw := m_bandw m @ [bandw]\<rparr> else m) st
      else
        let ses = ps_session st
        in if length (s_bandw ses) < PJMEDIA_MAX_SDP_BANDW
           then st\<lparr>ps_session := ses\<lparr>s_bandw := s_bandw ses @ [bandw]\<rparr>\<rparr> else st)"

definition add_conn :: "sdp_conn \<Rightarrow> parse_state \<Rightarrow> parse_state" where
  "add_conn conn st =
     (if ps_media st \<noteq> No_Media then upd_media (\<lambda>m. m\<lparr>m_conn := Some conn\<rparr>) st
      else st\<lparr>ps_session := (ps_session st)\<lparr>s_conn := Some conn\<rparr>\<rparr>)"

definition add_media :: "sdp_media \<Rightarrow> parse_state \<Rightarrow> parse_state" where
  "add_media media st =
     (let ses = ps_session st
      in if length (s_media ses) < PJMEDIA_MAX_SDP_MEDIA
         then st\<lparr>ps_session := ses\<lparr>s_media := s_media ses @ [media]\<rparr>, ps_media := Last_Media\<rparr>
         else st\<lparr>ps_media := Ignored_Media media\<rparr>)"

text \<open>Empty lines are allowed only at the end of the message.\<close>

function newline_tail :: "pj_scanner \<Rightarrow> pj_scanner scan" where
  "newline_tail sc =
     (if pj_scan_is_eof sc then Ok sc
      else
        (case rd (sc_mem sc) (sc_cur sc) of
           Syntax_Err \<Rightarrow> Syntax_Err
         | Overrun \<Rightarrow> Overrun
         | Ok c \<Rightarrow>
             (if c \<noteq> 13 \<and> c \<noteq> 10 then Syntax_Err
              else
                (case pj_scan_get_char sc of
                   Syntax_Err \<Rightarrow> Syntax_Err
                 | Overrun \<Rightarrow> Overrun
                 | Ok (_, sc') \<Rightarrow> newline_tail sc'))))"
  by pat_completeness auto
termination
  by (relation "measure (\<lambda>sc. length (sc_mem sc) - sc_cur sc)") (auto simp: rd_Ok fwd_def dest!: get_char_fwd)

text \<open>\<^verbatim>\<open>Ignore leading newlines\<close>.\<close>

function leading_newlines :: "pj_scanner \<Rightarrow> pj_scanner scan" where
  "leading_newlines sc =
     (case rd (sc_mem sc) (sc_cur sc) of
        Syntax_Err \<Rightarrow> Syntax_Err
      | Overrun \<Rightarrow> Overrun
      | Ok c \<Rightarrow>
          (if c = 13 \<or> c = 10 then
             (case pj_scan_get_char sc of
                Syntax_Err \<Rightarrow> Syntax_Err
              | Overrun \<Rightarrow> Overrun
              | Ok (_, sc') \<Rightarrow> leading_newlines sc')
           else Ok sc))"
  by pat_completeness auto
termination
  by (relation "measure (\<lambda>sc. length (sc_mem sc) - sc_cur sc)") (auto simp: rd_Ok fwd_def dest!: get_char_fwd)

declare newline_tail.simps [simp del] leading_newlines.simps [simp del]

text \<open>
  A line with the error code it sets in \<^verbatim>\<open>ctx->last_error\<close>: \<open>Inl\<close> when an exception is thrown.
\<close>

definition line_or :: "pj_status \<Rightarrow> 'a scan \<Rightarrow> ('a \<Rightarrow> 'b) \<Rightarrow> (pj_status + 'b) scan" where
  "line_or err r f = scan_try r (\<lambda>x. Ok (Inr (f x))) (Inl err)"

definition parse_line :: "parse_state \<Rightarrow> pj_scanner \<Rightarrow> (pj_status + parse_state \<times> pj_scanner) scan" where
  "parse_line st sc =
     scan_bind (rd (sc_mem sc) (sc_cur sc)) (\<lambda>cur_name.
       if cur_name = 97 then
         line_or PJMEDIA_SDP_EINATTR (parse_attr sc) (\<lambda>(attr, sc'). (add_attr attr st, sc'))
       else if cur_name = 111 then
         line_or PJMEDIA_SDP_EINORIGIN (parse_origin sc (ps_session st))
           (\<lambda>(ses, sc'). (st\<lparr>ps_session := ses\<rparr>, sc'))
       else if cur_name = 115 then
         line_or PJMEDIA_SDP_EINSDP (parse_generic_line sc)
           (\<lambda>(name, sc'). (st\<lparr>ps_session := (ps_session st)\<lparr>s_name := name\<rparr>\<rparr>, sc'))
       else if cur_name = 99 then
         line_or PJMEDIA_SDP_EINCONN (parse_connection_info sc) (\<lambda>(conn, sc'). (add_conn conn st, sc'))
       else if cur_name = 116 then
         line_or PJMEDIA_SDP_EINTIME (parse_time sc (ps_session st))
           (\<lambda>(ses, sc'). (st\<lparr>ps_session := ses\<rparr>, sc'))
       else if cur_name = 109 then
         line_or PJMEDIA_SDP_EINMEDIA (parse_media sc) (\<lambda>(media, sc'). (add_media media st, sc'))
       else if cur_name = 118 then
         line_or PJMEDIA_SDP_EINVER (parse_version sc) (\<lambda>sc'. (st, sc'))
       else if cur_name = 13 \<or> cur_name = 10 then
         line_or PJMEDIA_SDP_EINSDP
           (scan_bind (pj_scan_get_char sc) (\<lambda>(_, sc'). newline_tail sc')) (\<lambda>sc'. (st, sc'))
       else if cur_name = 98 then
         line_or PJMEDIA_SDP_EINBANDW (parse_bandwidth_info sc) (\<lambda>(bandw, sc'). (add_bandw bandw st, sc'))
       else if 97 \<le> cur_name \<and> cur_name \<le> 122 then
         line_or PJMEDIA_SDP_EINSDP (parse_generic_line sc) (\<lambda>(dummy, sc'). (st, sc'))
       else Ok (Inl PJMEDIA_SDP_EINSDP))"

lemma line_or_Inr: "line_or err r f = Ok (Inr y) \<longleftrightarrow> (\<exists>x. r = Ok x \<and> y = f x)"
  by (cases r) (auto simp: line_or_def)

lemma newline_tail_fwd: "newline_tail sc = Ok sc' \<Longrightarrow> fwd sc sc'"
proof (induction sc arbitrary: sc' rule: newline_tail.induct)
  case (1 sc)
  show ?case
  proof (cases "pj_scan_is_eof sc")
    case False
    with "1.prems" obtain c x sc1 where c: "rd (sc_mem sc) (sc_cur sc) = Ok c" "\<not> (c \<noteq> 13 \<and> c \<noteq> 10)"
      and g: "pj_scan_get_char sc = Ok (x, sc1)" and n: "newline_tail sc1 = Ok sc'"
      by (subst (asm) newline_tail.simps) (auto split: scan.splits if_splits)
    from "1.IH" [OF False c g _ n] get_char_fwd [OF g] show ?thesis by (auto intro: fwd_trans)
  qed (use "1.prems" in \<open>subst (asm) newline_tail.simps, simp add: fwd_def\<close>)
qed

lemma fwd_less_past: "fwd a b \<Longrightarrow> sc_cur a < sc_cur b \<Longrightarrow> past a b"
  by (auto simp: fwd_def past_def)

lemma fmt_loop_fwd: "fmt_loop sc fmts = Ok (fmts', sc') \<Longrightarrow> fwd sc sc'"
proof (induction sc fmts arbitrary: fmts' sc' rule: fmt_loop.induct)
  case (1 sc fmts)
  from "1.prems" consider "sc' = sc"
    | x sc1 where "pj_scan_get_char sc = Ok (x, sc1)" "sc' = sc1"
    | c x sc1 c1 fmt sc2 where "rd (sc_mem sc) (sc_cur sc) = Ok c" "\<not> c \<noteq> 32"
        "pj_scan_get_char sc = Ok (x, sc1)" "rd (sc_mem sc1) (sc_cur sc1) = Ok c1"
        "\<not> (c1 = 13 \<or> c1 = 10)" "pj_scan_get sc1 cs_token = Ok (fmt, sc2)"
        "fmt_loop sc2 (if length fmts < PJMEDIA_MAX_SDP_FMT
                       then fmts @ [str_of (sc_mem sc1) fmt] else fmts) = Ok (fmts', sc')"
    by (subst (asm) fmt_loop.simps) (auto split: scan.splits if_splits)
  then show ?case
  proof cases
    case 3
    then show ?thesis
      using "1.IH" [OF 3(1-3) refl 3(4-6) refl 3(7)] get_char_fwd [OF 3(3)] get_fwd [OF 3(6)]
      by (auto intro: fwd_trans)
  qed (auto simp: fwd_def dest: get_char_fwd)
qed

lemmas fwd_facts = advance_fwd [THEN conjunct1] until_and_eat_fwd get_fwd get_char_fwd [THEN conjunct1]
  until_fwd fmt_loop_fwd

lemma parse_media_past: "parse_media sc = Ok (media, sc') \<Longrightarrow> past sc sc'"
  unfolding parse_media_def
  by (drule check_equal_sign_Ok)
    (auto simp: scan_bind_Ok split: if_splits dest!: fwd_facts skip_line_past; meson fwd_trans fwd_past)

lemma parse_attr_past: "parse_attr sc = Ok (attr, sc') \<Longrightarrow> past sc sc'"
  unfolding parse_attr_def
  by (drule check_equal_sign_Ok)
    (auto simp: scan_bind_Ok split: if_splits dest!: fwd_facts skip_line_past; meson fwd_trans fwd_past)

lemma parse_lines_past:
  "parse_origin sc ses = Ok (ses', sc') \<Longrightarrow> past sc sc'"
  "parse_time sc ses = Ok (ses', sc') \<Longrightarrow> past sc sc'"
  "parse_generic_line sc = Ok (str, sc') \<Longrightarrow> past sc sc'"
  "parse_connection_info sc = Ok (conn, sc') \<Longrightarrow> past sc sc'"
  "parse_bandwidth_info sc = Ok (bandw, sc') \<Longrightarrow> past sc sc'"
  "parse_version sc = Ok sc' \<Longrightarrow> past sc sc'"
  unfolding parse_origin_def parse_time_def parse_generic_line_def parse_connection_info_def
    parse_bandwidth_info_def parse_version_def
  by (auto simp: scan_bind_Ok split: if_splits dest!: check_equal_sign_Ok fwd_facts until_and_skip_past
      get_newline_past skip_line_past; meson fwd_trans fwd_past)+

text \<open>Every line moves the scanner on, as long as there is input.\<close>

lemma parse_line_past:
  assumes "parse_line st sc = Ok (Inr (st', sc'))"
  shows "past sc sc'"
  using assms
  by (auto simp: parse_line_def scan_bind_Ok line_or_Inr split: if_splits
      dest!: parse_media_past parse_attr_past parse_lines_past newline_tail_fwd get_char_fwd)
    (auto simp: fwd_def past_def)

function parse_loop :: "parse_state \<Rightarrow> pj_scanner \<Rightarrow> (pj_status + sdp_session) scan" where
  "parse_loop st sc =
     (if pj_scan_is_eof sc then Ok (Inr (ps_session st))
      else
        (case parse_line st sc of
           Ok (Inr (st', sc')) \<Rightarrow> parse_loop st' sc'
         | Ok (Inl err) \<Rightarrow> Ok (Inl err)
         | Syntax_Err \<Rightarrow> Syntax_Err
         | Overrun \<Rightarrow> Overrun))"
  by pat_completeness auto
termination
  by (relation "measure (\<lambda>(st, sc). sc_end sc - sc_cur sc)")
    (auto simp: pj_scan_is_eof_def past_def dest!: parse_line_past)

declare parse_loop.simps [simp del]

text \<open>
  \<^verbatim>\<open>apply_media_direction\<close> moves the first direction attribute of the session to the media lines that
  have none.
\<close>

definition is_direction :: "sdp_attr \<Rightarrow> bool" where
  "is_direction a \<longleftrightarrow>
     at_name a = cstr ''sendonly'' \<or> at_name a = cstr ''recvonly'' \<or> at_name a = cstr ''inactive''"

definition apply_media_direction :: "sdp_session \<Rightarrow> sdp_session" where
  "apply_media_direction sdp =
     (case attr_scan is_direction (s_attr sdp) of
        None \<Rightarrow> sdp
      | Some i \<Rightarrow>
          sdp\<lparr>s_attr := pjmedia_sdp_attr_remove (s_attr sdp) i,
              s_media := map (\<lambda>m.
                if list_ex (\<lambda>a. at_name a = cstr ''sendrecv'' \<or> is_direction a) (m_attr m) then m
                else pjmedia_sdp_media_add_attr m (s_attr sdp ! i)) (s_media sdp)\<rparr>)"

definition pjmedia_sdp_parse :: "bytes \<Rightarrow> nat \<Rightarrow> (pj_status + sdp_session) scan" where
  "pjmedia_sdp_parse buf len =
     scan_bind (pj_scan_init buf len 0) (\<lambda>sc.
     scan_bind (leading_newlines sc) (\<lambda>sc1.
     scan_bind (parse_loop \<lparr>ps_session = session_zero, ps_media = No_Media\<rparr> sc1) (\<lambda>r.
       Ok (map_sum (\<lambda>err. err) apply_media_direction r))))"

end
