(* ===== verification/Sdp_Parse_Props.thy ===== *)
theory Sdp_Parse_Props
  imports Sdp_Parse
begin

text \<open>
  Properties of the parser and the printer of session descriptions: the parser stays in its buffer
  and fills no array beyond its end, on every input; a printed description is parsed back.
\<close>

section \<open>The parser is safe\<close>

definition media_fits :: "sdp_media \<Rightarrow> bool" where
  "media_fits m \<longleftrightarrow> length (m_fmt m) \<le> PJMEDIA_MAX_SDP_FMT \<and> length (m_attr m) \<le> PJMEDIA_MAX_SDP_ATTR \<and>
     length (m_bandw m) \<le> PJMEDIA_MAX_SDP_BANDW"

definition session_fits :: "sdp_session \<Rightarrow> bool" where
  "session_fits s \<longleftrightarrow> length (s_media s) \<le> PJMEDIA_MAX_SDP_MEDIA \<and> length (s_attr s) \<le> PJMEDIA_MAX_SDP_ATTR \<and>
     length (s_bandw s) \<le> PJMEDIA_MAX_SDP_BANDW \<and> list_all media_fits (s_media s)"

definition state_fits :: "parse_state \<Rightarrow> bool" where
  "state_fits st \<longleftrightarrow> session_fits (ps_session st) \<and>
     (case ps_media st of
        No_Media \<Rightarrow> True
      | Last_Media \<Rightarrow> s_media (ps_session st) \<noteq> []
      | Ignored_Media m \<Rightarrow> media_fits m)"

abbreviation ok_after :: "('a \<times> pj_scanner) scan \<Rightarrow> bool" where
  "ok_after r \<equiv> scan_safe (\<lambda>(x, sc'). scanner_ok sc') r"

lemma ops_ok:
  assumes "scanner_ok sc"
  shows "ok_after (pj_scan_get sc cs_token)" "ok_after (pj_scan_get_until_ch sc ch)"
    "ok_after (pj_scan_get_until_chr sc chs)" "ok_after (pj_scan_get_char sc)"
    "scan_safe scanner_ok (pj_scan_skip_line sc)" "scan_safe scanner_ok (pj_scan_get_newline sc)"
    "scan_safe scanner_ok (pj_scan_advance_n sc n b)"
proof -
  have "\<not> cs_token 0" by (simp add: cs_token_def TOKEN_def)
  then show "ok_after (pj_scan_get sc cs_token)"
    by (rule scan_safe_mono [OF get_safe [OF assms]]) auto
  show "ok_after (pj_scan_get_until_ch sc ch)" "ok_after (pj_scan_get_until_chr sc chs)"
    by (auto simp: pj_scan_get_until_ch_def pj_scan_get_until_chr_def
        intro!: scan_safe_mono [OF until_safe [OF assms]])
  show "ok_after (pj_scan_get_char sc)"
    by (rule scan_safe_mono [OF simple_ops_safe(3) [OF assms]]) auto
  show "scan_safe scanner_ok (pj_scan_skip_line sc)" "scan_safe scanner_ok (pj_scan_get_newline sc)"
    "scan_safe scanner_ok (pj_scan_advance_n sc n b)"
    by (auto intro!: scan_safe_mono [OF simple_ops_safe(1) [OF assms]]
        scan_safe_mono [OF simple_ops_safe(2) [OF assms]] scan_safe_mono [OF simple_ops_safe(4) [OF assms]])
qed

lemma rd_ok: "scanner_ok sc \<Longrightarrow> scan_safe Q (f (sc_mem sc ! sc_cur sc)) \<Longrightarrow> scan_safe Q (scan_bind (rd (sc_mem sc) (sc_cur sc)) f)"
  by (rule scan_safe_rd) (auto simp: scanner_ok_def)

text \<open>Chaining: a step that is safe, followed by steps that are safe from every state it leads to.\<close>

lemma ok_bind: "ok_after r \<Longrightarrow> (\<And>x sc'. r = Ok (x, sc') \<Longrightarrow> scanner_ok sc' \<Longrightarrow> scan_safe Q (f (x, sc'))) \<Longrightarrow> scan_safe Q (scan_bind r f)"
  by (cases r) auto

lemma ok_bind1: "scan_safe scanner_ok r \<Longrightarrow> (\<And>sc'. r = Ok sc' \<Longrightarrow> scanner_ok sc' \<Longrightarrow> scan_safe Q (f sc')) \<Longrightarrow> scan_safe Q (scan_bind r f)"
  by (cases r) auto

lemma until_and_ok:
  assumes "scanner_ok sc"
  shows "ok_after (until_and_eat ch sc)" "ok_after (until_and_skip chs sc)"
  unfolding until_and_eat_def until_and_skip_def
  by (auto intro!: ok_bind [OF ops_ok(2)] ok_bind [OF ops_ok(3)] ok_bind [OF ops_ok(4)]
      ok_bind1 [OF ops_ok(5)] assms)

lemma check_equal_sign_ok:
  assumes "scanner_ok sc" "\<not> pj_scan_is_eof sc" "scan_safe Q k"
  shows "scan_safe Q (check_equal_sign sc k)"
  unfolding check_equal_sign_def using assms
  by (intro scan_safe_rd) (auto simp: scanner_ok_def pj_scan_is_eof_def)

lemmas ok_binds = ok_bind [OF ops_ok(1)] ok_bind [OF ops_ok(2)] ok_bind [OF ops_ok(3)]
  ok_bind [OF ops_ok(4)] ok_bind1 [OF ops_ok(5)] ok_bind1 [OF ops_ok(6)] ok_bind1 [OF ops_ok(7)]
  ok_bind [OF until_and_ok(1)] ok_bind [OF until_and_ok(2)] rd_ok

lemma parse_version_ok:
  assumes "scanner_ok sc" "\<not> pj_scan_is_eof sc"
  shows "scan_safe scanner_ok (parse_version sc)"
proof (cases "sc_mem sc ! (sc_cur sc + 1) = 61")
  case True
  moreover have "sc_cur sc + 1 \<le> sc_end sc"
    using assms by (simp add: pj_scan_is_eof_def)
  ultimately have "sc_cur sc + 1 < sc_end sc"
    using nul_at_less [OF scanner_ok_nul [OF assms(1)], of "sc_cur sc + 1"] by simp
  then have "sc_cur sc + 2 < length (sc_mem sc)"
    using assms(1) by (simp add: scanner_ok_def)
  then show ?thesis
    unfolding parse_version_def
    by (auto intro!: check_equal_sign_ok assms scan_safe_rd ops_ok)
next
  case False
  with assms show ?thesis
    by (auto simp: parse_version_def check_equal_sign_def rd_def scanner_ok_def pj_scan_is_eof_def)
qed

lemma parse_lines_ok:
  assumes "scanner_ok sc" "\<not> pj_scan_is_eof sc"
  shows "ok_after (parse_origin sc ses)" "ok_after (parse_time sc ses)" "ok_after (parse_generic_line sc)"
    "ok_after (parse_connection_info sc)" "ok_after (parse_bandwidth_info sc)"
  unfolding parse_origin_def parse_time_def parse_generic_line_def parse_connection_info_def
    parse_bandwidth_info_def
  by (auto intro!: check_equal_sign_ok assms ok_binds)

lemma parse_attr_ok:
  assumes "scanner_ok sc" "\<not> pj_scan_is_eof sc"
  shows "ok_after (parse_attr sc)"
proof -
  have v: "ok_after
      (if c \<noteq> 0 \<and> c \<noteq> 13 \<and> c \<noteq> 10 then
         scan_bind (if c = 58 then pj_scan_get_char sc2 else Ok (c, sc2)) (\<lambda>(_, sc3).
         scan_bind (rd (sc_mem sc3) (sc_cur sc3)) (\<lambda>c1.
           if c1 \<noteq> 13 \<and> c1 \<noteq> 10 then
             scan_bind (pj_scan_get_until_chr sc3 [13, 10]) (\<lambda>(v, sc4).
               Ok (str_of (sc_mem sc3) v, sc4))
           else Ok ([], sc3)))
       else Ok ([], sc2))" if "scanner_ok sc2" for c sc2
  proof -
    have "ok_after (if c = 58 then pj_scan_get_char sc2 else Ok (c, sc2))"
      using that ops_ok(4) by simp
    then show ?thesis
      using that by (auto intro!: ok_bind [of "if c = 58 then pj_scan_get_char sc2 else Ok (c, sc2)"] ok_binds)
  qed
  show ?thesis
    unfolding parse_attr_def
    by (auto intro!: check_equal_sign_ok assms ok_binds ok_bind [OF v])
qed

lemma fmt_loop_ok:
  assumes "scanner_ok sc" "length fmts \<le> PJMEDIA_MAX_SDP_FMT"
  shows "scan_safe (\<lambda>(fmts', sc'). scanner_ok sc' \<and> length fmts' \<le> PJMEDIA_MAX_SDP_FMT) (fmt_loop sc fmts)"
  using assms
proof (induction sc fmts rule: fmt_loop.induct)
  case (1 sc fmts)
  have rd: "rd (sc_mem sc') (sc_cur sc') = Ok (sc_mem sc' ! sc_cur sc')" if "scanner_ok sc'" for sc'
    using that by (simp add: rd_def scanner_ok_def)
  show ?case
  proof (cases "sc_mem sc ! sc_cur sc = 32")
    case True
    note eq = fmt_loop.simps [of sc fmts, unfolded rd [OF "1.prems"(1)] scan.case True]
    show ?thesis
    proof (cases "pj_scan_get_char sc")
      case (Ok r)
      obtain x sc1 where g: "pj_scan_get_char sc = Ok (x, sc1)"
        using Ok by (cases r) simp
      have ok1: "scanner_ok sc1" using ops_ok(4) [OF "1.prems"(1)] g by simp
      show ?thesis
      proof (cases "sc_mem sc1 ! sc_cur sc1 = 13 \<or> sc_mem sc1 ! sc_cur sc1 = 10")
        case False
        show ?thesis
        proof (cases "pj_scan_get sc1 cs_token")
          case (Ok r)
          obtain fmt sc2 where g2: "pj_scan_get sc1 cs_token = Ok (fmt, sc2)"
            using Ok by (cases r) simp
          have "scanner_ok sc2" using ops_ok(1) [OF ok1] g2 by simp
          with "1.IH" [OF rd [OF "1.prems"(1)] _ g refl rd [OF ok1] False g2 refl] "1.prems"(2) True
          show ?thesis by (simp add: eq g g2 rd [OF ok1] False)
        qed (use ops_ok(1) [OF ok1] in \<open>simp_all add: eq g rd [OF ok1] False\<close>)
      qed (use "1.prems" ok1 in \<open>simp add: eq g rd [OF ok1]\<close>)
    qed (use ops_ok(4) [OF "1.prems"(1)] in \<open>simp_all add: eq\<close>)
  qed (use "1.prems" in \<open>subst fmt_loop.simps, simp add: rd\<close>)
qed

lemma parse_media_ok:
  assumes "scanner_ok sc" "\<not> pj_scan_is_eof sc"
  shows "scan_safe (\<lambda>(m, sc'). scanner_ok sc' \<and> media_fits m) (parse_media sc)"
proof -
  have c: "ok_after
      (if c = 47 then
         scan_bind (pj_scan_get_char sc3) (\<lambda>(_, sc4).
         scan_bind (pj_scan_get sc4 cs_token) (\<lambda>(count, sc5).
           Ok (ucast (pj_strtoul (str_of (sc_mem sc4) count)), sc5)))
       else Ok (0, sc3))" if "scanner_ok sc3" for c :: u8 and sc3
    using that by (auto intro!: ok_binds)
  have f: "scan_safe Q (scan_bind (fmt_loop sc8 []) g)"
    if "scanner_ok sc8" "\<And>fmts sc9. scanner_ok sc9 \<Longrightarrow> length fmts \<le> PJMEDIA_MAX_SDP_FMT \<Longrightarrow> scan_safe Q (g (fmts, sc9))"
    for Q :: "sdp_media \<times> pj_scanner \<Rightarrow> bool" and sc8 g
    using that by (intro scan_safe_bind [OF fmt_loop_ok]) auto
  show ?thesis
    unfolding parse_media_def
    by (auto intro!: check_equal_sign_ok assms ok_binds ok_bind [OF c] f simp: media_fits_def media_zero_def)
qed

text \<open>The updates of the description respect its arrays.\<close>

lemma upd_media_fits:
  assumes "state_fits st" "\<And>m. media_fits m \<Longrightarrow> media_fits (f m)"
  shows "state_fits (upd_media f st)"
proof (cases "ps_media st")
  case Last_Media
  define ms where "ms = s_media (ps_session st)"
  have ne: "ms \<noteq> []" and all: "list_all media_fits ms"
    using assms(1) Last_Media by (auto simp: state_fits_def session_fits_def ms_def)
  then have "list_all media_fits (butlast ms)" "media_fits (last ms)"
    by (auto simp: list_all_iff dest: in_set_butlastD)
  with assms Last_Media ne show ?thesis
    by (auto simp: upd_media_def state_fits_def session_fits_def Let_def ms_def)
qed (use assms in \<open>auto simp: upd_media_def state_fits_def\<close>)

lemma adds_fit:
  assumes "state_fits st"
  shows "state_fits (add_attr attr st)" "state_fits (add_bandw bandw st)" "state_fits (add_conn conn st)"
    and "media_fits media \<Longrightarrow> state_fits (add_media media st)"
proof -
  have m: "state_fits (upd_media f st)" if "\<And>m. media_fits m \<Longrightarrow> media_fits (f m)" for f
    using upd_media_fits [OF assms that] .
  have s: "state_fits (st\<lparr>ps_session := ses\<rparr>)"
    if "ps_media st = No_Media" "session_fits (ps_session st) \<Longrightarrow> session_fits ses" for ses
    using assms that by (simp add: state_fits_def)
  show "state_fits (add_attr attr st)"
    using assms unfolding add_attr_def
    by (auto intro!: m s simp: media_fits_def pjmedia_sdp_media_add_attr_def pjmedia_sdp_attr_add_def
        session_fits_def pjmedia_sdp_session_add_attr_def)
  show "state_fits (add_bandw bandw st)"
    using assms unfolding add_bandw_def
    by (auto intro!: m s simp: media_fits_def session_fits_def Let_def)
  show "state_fits (add_conn conn st)"
    using assms unfolding add_conn_def
    by (auto intro!: m s simp: media_fits_def session_fits_def)
  show "state_fits (add_media media st)" if "media_fits media"
    using assms that unfolding add_media_def by (auto simp: state_fits_def session_fits_def Let_def)
qed

lemma newline_tail_ok: "scanner_ok sc \<Longrightarrow> scan_safe scanner_ok (newline_tail sc)"
proof (induction sc rule: newline_tail.induct)
  case (1 sc)
  have rd: "rd (sc_mem sc) (sc_cur sc) = Ok (sc_mem sc ! sc_cur sc)"
    using "1.prems" by (simp add: rd_def scanner_ok_def)
  show ?case
  proof (cases "pj_scan_is_eof sc \<or> sc_mem sc ! sc_cur sc \<noteq> 13 \<and> sc_mem sc ! sc_cur sc \<noteq> 10")
    case False
    then show ?thesis
      using ops_ok(4) [OF "1.prems"] "1.IH" [OF _ rd]
      by (subst newline_tail.simps) (auto simp: rd split: scan.split)
  qed (use "1.prems" in \<open>subst newline_tail.simps, auto simp: rd\<close>)
qed

lemma leading_newlines_ok:
  "scanner_ok sc \<Longrightarrow> \<exists>sc'. leading_newlines sc = Ok sc' \<and> scanner_ok sc'"
proof (induction sc rule: leading_newlines.induct)
  case (1 sc)
  have rd: "rd (sc_mem sc) (sc_cur sc) = Ok (sc_mem sc ! sc_cur sc)"
    using "1.prems" by (simp add: rd_def scanner_ok_def)
  show ?case
  proof (cases "sc_mem sc ! sc_cur sc = 13 \<or> sc_mem sc ! sc_cur sc = 10")
    case True
    have "pj_scan_get_char sc \<noteq> Syntax_Err"
      using True auto_skip_no_err by (auto simp: pj_scan_get_char_def rd scan_bind_err)
    with ops_ok(4) [OF "1.prems"] obtain x sc1 where
      g: "pj_scan_get_char sc = Ok (x, sc1)" "scanner_ok sc1"
      by (cases "pj_scan_get_char sc") auto
    then show ?thesis
      using "1.IH" [OF rd True g(1) refl g(2)] True by (subst leading_newlines.simps) (simp add: rd)
  qed (use "1.prems" in \<open>subst leading_newlines.simps, simp add: rd\<close>)
qed

text \<open>A line gives an error code, or a state that fits and a scanner in its buffer.\<close>

definition line_result :: "pj_status + parse_state \<times> pj_scanner \<Rightarrow> bool" where
  "line_result r =
     (case r of Inl err \<Rightarrow> err \<noteq> PJ_SUCCESS | Inr (st, sc) \<Rightarrow> state_fits st \<and> scanner_ok sc)"

lemma line_or_ok:
  assumes "scan_safe P r" "err \<noteq> PJ_SUCCESS" "\<And>x. P x \<Longrightarrow> line_result (Inr (f x))"
  shows "\<exists>y. line_or err r f = Ok y \<and> line_result y"
  using assms by (cases r) (auto simp: line_or_def line_result_def)

lemma scan_safe_and: "scan_safe P r \<Longrightarrow> (\<And>x. r = Ok x \<Longrightarrow> P x \<Longrightarrow> Q x) \<Longrightarrow> scan_safe Q r"
  by (cases r) auto

lemma parse_session_lines:
  assumes "state_fits st" "scanner_ok sc" "\<not> pj_scan_is_eof sc"
  shows "scan_safe (\<lambda>(ses, sc'). scanner_ok sc' \<and> state_fits (st\<lparr>ps_session := ses\<rparr>)) (parse_origin sc (ps_session st))"
    and "scan_safe (\<lambda>(ses, sc'). scanner_ok sc' \<and> state_fits (st\<lparr>ps_session := ses\<rparr>)) (parse_time sc (ps_session st))"
proof -
  have "state_fits (st\<lparr>ps_session := ses\<rparr>)"
    if "parse_origin sc (ps_session st) = Ok (ses, sc') \<or> parse_time sc (ps_session st) = Ok (ses, sc')" for ses sc'
    using that assms(1)
    by (auto simp: parse_origin_def parse_time_def scan_bind_Ok state_fits_def session_fits_def
        split: cur_media.split dest!: check_equal_sign_Ok)
  then show "scan_safe (\<lambda>(ses, sc'). scanner_ok sc' \<and> state_fits (st\<lparr>ps_session := ses\<rparr>)) (parse_origin sc (ps_session st))"
    and "scan_safe (\<lambda>(ses, sc'). scanner_ok sc' \<and> state_fits (st\<lparr>ps_session := ses\<rparr>)) (parse_time sc (ps_session st))"
    by (auto intro: scan_safe_and [OF parse_lines_ok(1) [OF assms(2,3)]] scan_safe_and [OF parse_lines_ok(2) [OF assms(2,3)]])
qed

lemma parse_line_ok:
  assumes "state_fits st" "scanner_ok sc" "\<not> pj_scan_is_eof sc"
  shows "\<exists>y. parse_line st sc = Ok y \<and> line_result y"
proof -
  have rd: "rd (sc_mem sc) (sc_cur sc) = Ok (sc_mem sc ! sc_cur sc)"
    using assms(2) by (simp add: rd_def scanner_ok_def)
  have name: "state_fits (st\<lparr>ps_session := (ps_session st)\<lparr>s_name := n\<rparr>\<rparr>)" for n
    using assms(1) by (auto simp: state_fits_def session_fits_def split: cur_media.split)
  have tail: "scan_safe scanner_ok (scan_bind (pj_scan_get_char sc) (\<lambda>(_, sc'). newline_tail sc'))"
    using assms(2) by (auto intro!: ok_binds newline_tail_ok)
  note lines = parse_session_lines [OF assms] parse_attr_ok [OF assms(2,3)] parse_media_ok [OF assms(2,3)]
    parse_lines_ok(3-5) [OF assms(2,3)] parse_version_ok [OF assms(2,3)] tail
  note results = lines [THEN line_or_ok]
  have if_rule: "(c \<Longrightarrow> \<exists>y. a = Ok y \<and> line_result y) \<Longrightarrow> (\<not> c \<Longrightarrow> \<exists>y. b = Ok y \<and> line_result y) \<Longrightarrow>
      \<exists>y. (if c then a else b) = Ok y \<and> line_result y" for c a b
    by simp
  show ?thesis
    unfolding parse_line_def rd scan_bind.simps
    by (intro if_rule results)
      (use assms(1) adds_fit [OF assms(1)] name in \<open>auto simp: line_result_def\<close>)
qed

lemma parse_loop_ok:
  assumes "state_fits st" "scanner_ok sc"
  shows "\<exists>r. parse_loop st sc = Ok r \<and> (case r of Inl err \<Rightarrow> err \<noteq> PJ_SUCCESS | Inr ses \<Rightarrow> session_fits ses)"
  using assms
proof (induction st sc rule: parse_loop.induct)
  case (1 st sc)
  show ?case
  proof (cases "pj_scan_is_eof sc")
    case False
    from parse_line_ok [OF "1.prems" False] obtain y where
      y: "parse_line st sc = Ok y" "line_result y" by blast
    show ?thesis
    proof (cases y)
      case (Inr r)
      with y "1.IH" [OF False y(1), of r "fst r" "snd r"] show ?thesis
        by (subst parse_loop.simps) (auto simp: False line_result_def split: prod.splits)
    qed (use y in \<open>subst parse_loop.simps, simp add: False line_result_def\<close>)
  qed (use "1.prems" in \<open>subst parse_loop.simps, simp add: state_fits_def\<close>)
qed

lemma apply_media_direction_fits: "session_fits ses \<Longrightarrow> session_fits (apply_media_direction ses)"
  by (auto simp: apply_media_direction_def session_fits_def pjmedia_sdp_attr_remove_def pj_array_erase_def
      list_all_iff media_fits_def pjmedia_sdp_media_add_attr_def pjmedia_sdp_attr_add_def split: option.split)

text \<open>
  C19: the parser of session descriptions ends on every input and stays in its buffer. On memory with a
  NUL behind the message, whatever the message contains, it reads nothing behind that NUL; it
  returns an error code other than success, or a description none of whose arrays is filled
  beyond its end.
\<close>

theorem sdp_parse_safe:
  assumes "len < length buf" "buf ! len = 0"
  shows "\<exists>r. pjmedia_sdp_parse buf len = Ok r \<and>
           (case r of Inl err \<Rightarrow> err \<noteq> PJ_SUCCESS | Inr ses \<Rightarrow> session_fits ses)"
proof -
  define sc where "sc = \<lparr>sc_mem = buf, sc_end = len, sc_cur = 0, sc_line = 1, sc_start_line = 0, sc_skip_ws = 0\<rparr>"
  have i: "pj_scan_init buf len 0 = Ok sc"
    by (simp add: pj_scan_init_def sc_def)
  have "scanner_ok sc"
    using assms by (simp add: scanner_ok_def sc_def)
  from leading_newlines_ok [OF this] obtain sc1 where l: "leading_newlines sc = Ok sc1" "scanner_ok sc1"
    by blast
  have "state_fits \<lparr>ps_session = session_zero, ps_media = No_Media\<rparr>"
    by (simp add: state_fits_def session_fits_def session_zero_def)
  from parse_loop_ok [OF this l(2)] obtain r where
    r: "parse_loop \<lparr>ps_session = session_zero, ps_media = No_Media\<rparr> sc1 = Ok r"
    "case r of Inl err \<Rightarrow> err \<noteq> PJ_SUCCESS | Inr ses \<Rightarrow> session_fits ses" by blast
  then show ?thesis
    using apply_media_direction_fits by (cases r) (auto simp: pjmedia_sdp_parse_def i l(1))
qed

theorem sdp_parse_safe_witness:
  "(\<exists>ses. pjmedia_sdp_parse (cstr ''m=audio 9 RTP/AVP 0'' @ [0]) 19 = Ok (Inr ses) \<and> session_fits ses) \<and>
   (\<exists>err. pjmedia_sdp_parse (cstr ''a=x:'' @ [0]) 4 = Ok (Inl err) \<and> err \<noteq> PJ_SUCCESS)"
proof -
  let ?b = "cstr ''m=audio 9 RTP/AVP 0'' @ [0]" and ?c = "cstr ''a=x:'' @ [0]"
  have *: "19 < length ?b" "?b ! 19 = 0" "4 < length ?c" "?c ! 4 = 0"
    by code_simp+
  have "case pjmedia_sdp_parse ?b 19 of Ok (Inr ses) \<Rightarrow> True | _ \<Rightarrow> False"
    by code_simp
  moreover have "case pjmedia_sdp_parse ?c 4 of Ok (Inl err) \<Rightarrow> True | _ \<Rightarrow> False"
    by code_simp
  ultimately show ?thesis
    using sdp_parse_safe [OF *(1,2)] sdp_parse_safe [OF *(3,4)]
    by (auto split: scan.splits sum.splits)
qed

section \<open>Printing behind the end of the buffer\<close>

lemma length_utoa32: "length (pj_utoa (unat (v :: u32))) \<le> 10"
proof -
  have "unat v < 2 ^ 32" using unsigned_less [of v] by simp
  then show ?thesis by (intro length_pj_utoa) simp_all
qed

lemma out_then_Overflow:
  "out_then p q len = Overflow \<longleftrightarrow> p len = Overflow \<or> (\<exists>a. p len = Written a \<and> q (len - length a) = Overflow)"
  by (auto simp: out_then_def split: out.splits)

lemma out_block_Overflow: "out_block n t len = Overflow \<longleftrightarrow> n \<le> len \<and> len < length t"
  by (auto simp: out_block_def)

lemma out_all_no_Overflow: "(\<And>x l. p x l \<noteq> Overflow) \<Longrightarrow> out_all p xs len \<noteq> Overflow"
  by (induction xs arbitrary: len) (auto simp: out_then_Overflow)

lemma print_parts_no_Overflow:
  "print_attr a len \<noteq> Overflow" "print_bandw b len \<noteq> Overflow" "print_opt print_connection_info c len \<noteq> Overflow"
  using length_utoa32 [of "b_value b"]
  by (auto simp: print_attr_def print_bandw_def out_block_Overflow crlf_def print_opt_def print_connection_info_def Let_def
      split: option.splits)

text \<open>
  The buffer is overrun by exactly the media lines whose formats do not fit: printing a media
  description writes behind the end of the buffer if and only if the buffer has room for the media type, the
  transport and 36 more octets, which is all that is checked, but not for the line with its formats.
\<close>

theorem sdp_print_media_overflow:
  "print_media_desc m len = Overflow \<longleftrightarrow>
     length (m_media m) + length (m_transport m) + 36 \<le> len \<and> len < length (media_line m)"
  using print_parts_no_Overflow
  by (simp add: print_media_desc_def out_then_Overflow out_block_Overflow out_all_no_Overflow ac_simps)

text \<open>
  The check before the lines \<^verbatim>\<open>v=\<close> and \<^verbatim>\<open>o=\<close> allows 18 octets for the two numbers, the address type and
  the separators.
\<close>

lemma sdp_print_origin_overflow:
  assumes "27 + length (or_user (s_origin ses)) + length (or_net_type (s_origin ses))
             + length (or_addr (s_origin ses)) \<le> len"
    and "len < length (origin_lines (s_origin ses))"
  shows "print_session ses len = Overflow"
  using assms by (simp add: print_session_def out_then_Overflow out_block_Overflow)

section \<open>Sources with the high bit set\<close>

text \<open>
  \<^verbatim>\<open>pjmedia_sdp_attr_create_ssrc\<close> prints the unsigned identifier with \<^verbatim>\<open>%d\<close>, as a negative number, and with
  ten digits the last octet of the name is lost to the terminating NUL.
\<close>

lemma sdp_ssrc_negative:
  "pjmedia_sdp_attr_create_ssrc 0x80000000 (cstr ''a'')
   = Some \<lparr>at_name = cstr ''ssrc'', at_value = cstr ''-2147483648 cname:'' @ [0]\<rparr>"
proof -
  have "sint (0x80000000 :: u32) = - 2147483648" by simp
  moreover have "pj_utoa 2147483648 = cstr ''2147483648''"
    by (simp add: pj_utoa_def utoa_digits.simps Let_def cstr_def of_char_def)
  ultimately show ?thesis
    by (simp add: pjmedia_sdp_attr_create_ssrc_def arg_d_def arg_s_def cstr_def Let_def of_char_def)
qed

end
