(* ===== verification/Sdp_Roundtrip.thy ===== *)
theory Sdp_Roundtrip
  imports Sdp_Parse_Props
begin

text \<open>
  Parsing inverts printing: for every printed line what the parser does with it, then for whole
  descriptions.
\<close>

section \<open>Definitions\<close>

text \<open>The scanner is at the given rest of the input, which a NUL follows, and skips no white space.\<close>

definition at_in :: "bytes \<Rightarrow> pj_scanner \<Rightarrow> bool" where
  "at_in rest sc \<longleftrightarrow> sc_skip_ws sc = 0 \<and> sc_end sc = sc_cur sc + length rest \<and>
     drop (sc_cur sc) (sc_mem sc) = rest @ [0]"

text \<open>Descriptions that can be printed so that they are read back: no field contains its separators.\<close>

definition lacks :: "bytes \<Rightarrow> bytes \<Rightarrow> bool" where
  "lacks str chs \<longleftrightarrow> set str \<inter> set chs = {}"

definition is_token :: "bytes \<Rightarrow> bool" where
  "is_token str \<longleftrightarrow> str \<noteq> [] \<and> list_all cs_token str"

definition attr_wf :: "sdp_attr \<Rightarrow> bool" where
  "attr_wf a \<longleftrightarrow> is_token (at_name a) \<and> lacks (at_value a) [13, 10]"

definition conn_wf :: "sdp_conn \<Rightarrow> bool" where
  "conn_wf c \<longleftrightarrow> lacks (c_net_type c) [0, 32] \<and> lacks (c_addr_type c) [0, 32] \<and>
     lacks (c_addr c) [0, 47, 32, 9, 13, 10]"

definition conn_opt_wf :: "sdp_conn option \<Rightarrow> bool" where
  "conn_opt_wf c = (case c of Some c \<Rightarrow> conn_wf c | None \<Rightarrow> True)"

definition bandw_wf :: "sdp_bandw \<Rightarrow> bool" where
  "bandw_wf b \<longleftrightarrow> lacks (b_modifier b) [58]"

definition media_wf :: "sdp_media \<Rightarrow> bool" where
  "media_wf m \<longleftrightarrow> media_fits m \<and> lacks (m_media m) [32] \<and> m_port_count m \<noteq> 1 \<and>
     lacks (m_transport m) [32, 9, 13, 10] \<and> list_all is_token (m_fmt m) \<and>
     conn_opt_wf (m_conn m) \<and> list_all bandw_wf (m_bandw m) \<and> list_all attr_wf (m_attr m)"

definition origin_wf :: "sdp_origin \<Rightarrow> bool" where
  "origin_wf og \<longleftrightarrow> lacks (or_user og) [32] \<and> lacks (or_net_type og) [32] \<and> lacks (or_addr_type og) [32] \<and>
     lacks (or_addr og) [32, 9, 13, 10]"

definition session_wf :: "sdp_session \<Rightarrow> bool" where
  "session_wf s \<longleftrightarrow> session_fits s \<and> origin_wf (s_origin s) \<and> lacks (s_name s) [13, 10] \<and>
     conn_opt_wf (s_conn s) \<and> list_all bandw_wf (s_bandw s) \<and> list_all attr_wf (s_attr s) \<and>
     list_all media_wf (s_media s)"

text \<open>A piece of input takes the parser from one state to another.\<close>

definition parses :: "bytes \<Rightarrow> parse_state \<Rightarrow> parse_state \<Rightarrow> bool" where
  "parses text st st' \<longleftrightarrow>
     (\<forall>rest sc. at_in (text @ rest) sc \<longrightarrow> (\<exists>sc'. at_in rest sc' \<and> parse_loop st sc = parse_loop st' sc'))"

definition attr_text :: "sdp_attr \<Rightarrow> bytes" where
  "attr_text a = [97, 61] @ at_name a @ (if at_value a \<noteq> [] then 58 # at_value a else []) @ crlf"

definition bandw_text :: "sdp_bandw \<Rightarrow> bytes" where
  "bandw_text b = [98, 61] @ b_modifier b @ [58] @ pj_utoa (unat (b_value b)) @ crlf"

definition conn_text :: "sdp_conn \<Rightarrow> bytes" where
  "conn_text c = [99, 61] @ c_net_type c @ [32] @ c_addr_type c @ [32] @ c_addr c @ crlf"

definition origin_text :: "sdp_origin \<Rightarrow> bytes" where
  "origin_text og = [111, 61] @ or_user og @ [32] @ pj_utoa (unat (or_id og)) @ [32]
     @ pj_utoa (unat (or_version og)) @ [32] @ or_net_type og @ [32] @ or_addr_type og @ [32] @ or_addr og @ crlf"

definition time_text :: "sdp_session \<Rightarrow> bytes" where
  "time_text s = [116, 61] @ pj_utoa (unat (s_start s)) @ [32] @ pj_utoa (unat (s_stop s)) @ crlf"

definition media_base :: "sdp_media \<Rightarrow> sdp_media" where
  "media_base m = m\<lparr>m_conn := None, m_bandw := [], m_attr := []\<rparr>"

definition media_state :: "sdp_session \<Rightarrow> sdp_media list \<Rightarrow> sdp_media \<Rightarrow> parse_state" where
  "media_state ses ms m = \<lparr>ps_session = ses\<lparr>s_media := ms @ [m]\<rparr>, ps_media = Last_Media\<rparr>"

definition opt_text :: "sdp_conn option \<Rightarrow> bytes" where
  "opt_text c = (case c of Some c \<Rightarrow> conn_text c | None \<Rightarrow> [])"

definition media_text :: "sdp_media \<Rightarrow> bytes" where
  "media_text m = media_line m @ opt_text (m_conn m) @ concat (map bandw_text (m_bandw m))
     @ concat (map attr_text (m_attr m))"

definition session_text :: "sdp_session \<Rightarrow> bytes" where
  "session_text s = ([118, 61, 48] @ crlf) @ origin_text (s_origin s) @ ([115, 61] @ s_name s @ crlf)
     @ opt_text (s_conn s) @ concat (map bandw_text (s_bandw s)) @ time_text s
     @ concat (map attr_text (s_attr s)) @ concat (map media_text (s_media s))"

definition ex_sdp :: sdp_session where
  "ex_sdp =
     \<lparr>s_origin = \<lparr>or_user = cstr ''-'', or_id = 1, or_version = 2, or_net_type = cstr ''IN'',
                  or_addr_type = cstr ''IP4'', or_addr = cstr ''h''\<rparr>,
      s_name = cstr ''a b'', s_conn = Some \<lparr>c_net_type = cstr ''IN'', c_addr_type = cstr ''IP4'', c_addr = cstr ''h''\<rparr>,
      s_bandw = [], s_start = 0, s_stop = 0, s_attr = [\<lparr>at_name = cstr ''recvonly'', at_value = []\<rparr>],
      s_media = [media_zero\<lparr>m_media := cstr ''audio'', m_port := 40, m_transport := cstr ''RTP/AVP'',
                 m_fmt := [cstr ''0'', cstr ''8''], m_attr := [\<lparr>at_name = cstr ''ptime'', at_value = cstr ''20''\<rparr>]\<rparr>]\<rparr>"

section \<open>Reading what was printed\<close>

lemma at_in_nth:
  assumes "at_in rest sc" "i \<le> length rest"
  shows "sc_cur sc + i < length (sc_mem sc)" "sc_mem sc ! (sc_cur sc + i) = (rest @ [0]) ! i"
proof -
  have d: "drop (sc_cur sc) (sc_mem sc) = rest @ [0]" using assms(1) by (simp add: at_in_def)
  then have l: "length (sc_mem sc) - sc_cur sc = length rest + 1"
    by (metis length_drop length_append_singleton Suc_eq_plus1)
  with assms(2) show "sc_cur sc + i < length (sc_mem sc)" by linarith
  with l show "sc_mem sc ! (sc_cur sc + i) = (rest @ [0]) ! i"
    by (simp add: d [symmetric])
qed

lemma at_in_rd:
  "at_in (c # rest) sc \<Longrightarrow> rd (sc_mem sc) (sc_cur sc) = Ok c"
  "at_in (c # d # rest) sc \<Longrightarrow> rd (sc_mem sc) (sc_cur sc + 1) = Ok d"
  "at_in (c # d # e # rest) sc \<Longrightarrow> rd (sc_mem sc) (sc_cur sc + 2) = Ok e"
  using at_in_nth [of "c # rest" sc 0] at_in_nth [of "c # d # rest" sc 1] at_in_nth [of "c # d # e # rest" sc 2]
  by (auto simp: rd_def)

lemma at_in_move:
  assumes "at_in (xs @ rest) sc"
  shows "at_in rest (sc\<lparr>sc_cur := sc_cur sc + length xs\<rparr>)"
    and "at_in rest (sc\<lparr>sc_cur := sc_cur sc + length xs, sc_start_line := l, sc_line := n\<rparr>)"
    and "str_of (sc_mem sc) (sc_cur sc, length xs) = xs"
proof -
  have d: "drop (sc_cur sc) (sc_mem sc) = xs @ rest @ [0]" using assms by (simp add: at_in_def)
  then have "drop (sc_cur sc + length xs) (sc_mem sc) = rest @ [0]"
    by (metis add.commute append_eq_conv_conj drop_drop)
  then show "at_in rest (sc\<lparr>sc_cur := sc_cur sc + length xs\<rparr>)"
    and "at_in rest (sc\<lparr>sc_cur := sc_cur sc + length xs, sc_start_line := l, sc_line := n\<rparr>)"
    using assms by (auto simp: at_in_def)
  show "str_of (sc_mem sc) (sc_cur sc, length xs) = xs"
    using d by (simp add: str_of_def)
qed

lemma loops_at:
  assumes "drop s mem = tok @ c # rest" "\<forall>x \<in> set tok. P x" "\<not> P c"
  shows "while_loop P mem s = Ok (s + length tok)"
    and "s + length tok < e \<Longrightarrow> while_not_eof P e mem s = Ok (s + length tok)"
proof -
  have "while_loop P mem s = Ok (s + length tok) \<and>
        (s + length tok < e \<longrightarrow> while_not_eof P e mem s = Ok (s + length tok))"
    using assms
  proof (induction tok arbitrary: s)
    case Nil
    then have "s < length mem" by (metis append_Nil drop_eq_Nil leI list.distinct(1))
    moreover from this have "mem ! s = c" using Nil(1) by (simp add: Cons_nth_drop_Suc [symmetric])
    ultimately show ?case
      using Nil
      by (subst while_loop.simps, subst while_not_eof.simps) simp
  next
    case (Cons x tok)
    have "s < length mem" using Cons.prems(1) by (metis append_Cons drop_eq_Nil leI list.distinct(1))
    then have "mem ! s = x" "drop (Suc s) mem = tok @ c # rest"
      using Cons.prems(1) by (auto simp: Cons_nth_drop_Suc [symmetric])
    with Cons \<open>s < length mem\<close> show ?case
      using Cons.IH [of "Suc s"] by (subst while_loop.simps, subst while_not_eof.simps) auto
  qed
  then show "while_loop P mem s = Ok (s + length tok)"
    and "s + length tok < e \<Longrightarrow> while_not_eof P e mem s = Ok (s + length tok)" by auto
qed

lemma take_token_at:
  assumes "at_in (tok @ rest) sc"
  shows "take_token sc (sc_cur sc + length tok)
         = Ok ((sc_cur sc, length tok), sc\<lparr>sc_cur := sc_cur sc + length tok\<rparr>)"
  using at_in_nth(1) [OF assms, of "length tok"] assms
  by (simp add: take_token_def auto_skip_def rd_def at_in_def)

lemma get_char_at:
  assumes "at_in (c # rest) sc" "c \<noteq> 0"
  shows "\<exists>sc'. pj_scan_get_char sc = Ok (c, sc') \<and> at_in rest sc'"
proof -
  have "at_in rest (sc\<lparr>sc_cur := sc_cur sc + 1\<rparr>)"
    using at_in_move(1) [of "[c]" rest sc] assms(1) by simp
  moreover have "sc_cur sc + 1 < length (sc_mem sc)"
    using at_in_nth(1) [OF assms(1), of 1] by simp
  ultimately show ?thesis
    using at_in_rd(1) [OF assms(1)] assms by (simp add: pj_scan_get_char_def auto_skip_def rd_def at_in_def)
qed

lemma until_at:
  assumes "at_in (tok @ c # rest) sc"
  shows "c \<notin> set tok \<Longrightarrow> sint c = ch \<Longrightarrow>
      pj_scan_get_until_ch sc ch = Ok ((sc_cur sc, length tok), sc\<lparr>sc_cur := sc_cur sc + length tok\<rparr>)"
    and "set tok \<inter> set chs = {} \<Longrightarrow> c \<in> set chs \<Longrightarrow>
      pj_scan_get_until_chr sc chs = Ok ((sc_cur sc, length tok), sc\<lparr>sc_cur := sc_cur sc + length tok\<rparr>)"
proof -
  have d: "drop (sc_cur sc) (sc_mem sc) = tok @ c # rest @ [0]" and e: "sc_cur sc + length tok < sc_end sc"
    using assms by (simp_all add: at_in_def)
  have t: "take_token sc (sc_cur sc + length tok) = Ok ((sc_cur sc, length tok), sc\<lparr>sc_cur := sc_cur sc + length tok\<rparr>)"
    by (rule take_token_at [OF assms])
  show "pj_scan_get_until_ch sc ch = Ok ((sc_cur sc, length tok), sc\<lparr>sc_cur := sc_cur sc + length tok\<rparr>)"
    if "c \<notin> set tok" "sint c = ch"
  proof -
    have "\<forall>x \<in> set tok. sint x \<noteq> ch"
      using that by (metis signed_word_eqI)
    with e t loops_at(2) [OF d _ _ e, of "\<lambda>x. sint x \<noteq> ch"] that show ?thesis
      by (simp add: pj_scan_get_until_ch_def)
  qed
  show "pj_scan_get_until_chr sc chs = Ok ((sc_cur sc, length tok), sc\<lparr>sc_cur := sc_cur sc + length tok\<rparr>)"
    if "set tok \<inter> set chs = {}" "c \<in> set chs"
  proof -
    have "\<forall>x \<in> set tok. x \<notin> set chs" using that by blast
    with e t loops_at(2) [OF d _ _ e, of "\<lambda>x. x \<notin> set chs"] that show ?thesis
      by (simp add: pj_scan_get_until_chr_def)
  qed
qed

lemma get_at:
  assumes "at_in (tok @ c # rest) sc" "tok \<noteq> []" "\<forall>x \<in> set tok. spec x" "\<not> spec c"
  shows "pj_scan_get sc spec = Ok ((sc_cur sc, length tok), sc\<lparr>sc_cur := sc_cur sc + length tok\<rparr>)"
proof -
  obtain x tok' where x: "tok = x # tok'" using assms(2) by (cases tok) auto
  have d: "drop (sc_cur sc) (sc_mem sc) = x # tok' @ c # rest @ [0]"
    using assms(1) by (simp add: at_in_def x)
  then have "drop (sc_cur sc + 1) (sc_mem sc) = tok' @ c # rest @ [0]"
    by (metis drop_drop drop_Suc_Cons drop0 One_nat_def add.commute)
  from loops_at(1) [OF this] assms(3,4) have
    "while_loop spec (sc_mem sc) (sc_cur sc + 1) = Ok (sc_cur sc + length tok)" by (simp add: x)
  then show ?thesis
    using at_in_rd(1) [of x _ sc] assms(1,3) take_token_at [OF assms(1)] by (simp add: pj_scan_get_def x)
qed

lemma skip_line_at:
  assumes "at_in (crlf @ rest) sc"
  shows "\<exists>sc'. pj_scan_skip_line sc = Ok sc' \<and> at_in rest sc'"
proof -
  have d: "drop (sc_cur sc) (sc_mem sc) = [13] @ 10 # rest @ [0]"
    using assms by (simp add: at_in_def crlf_def)
  have "while_loop (\<lambda>c. c \<noteq> 10 \<and> c \<noteq> 0) (sc_mem sc) (sc_cur sc) = Ok (sc_cur sc + 1)"
    using loops_at(1) [OF d, of "\<lambda>c. c \<noteq> 10 \<and> c \<noteq> 0"] by simp
  moreover have "rd (sc_mem sc) (sc_cur sc + 1) = Ok 10"
    using at_in_rd(2) [of 13 10 rest sc] assms by (simp add: crlf_def)
  moreover have "at_in rest (sc\<lparr>sc_cur := sc_cur sc + 2, sc_start_line := sc_cur sc + 2, sc_line := sc_line sc + 1\<rparr>)"
    using at_in_move(2) [OF assms] by (simp add: crlf_def)
  ultimately show ?thesis
    by (simp add: pj_scan_skip_line_def)
qed

lemma advance_at:
  assumes "at_in (a # b # rest) sc"
  shows "\<exists>sc'. pj_scan_advance_n sc 2 False = Ok sc' \<and> at_in rest sc'"
  using at_in_move(1) [of "[a, b]" rest sc] at_in_nth(1) [OF assms, of 2] assms
  by (auto simp: pj_scan_advance_n_def auto_skip_def rd_def at_in_def)

lemma until_and_eat_at:
  assumes "at_in (tok @ c # rest) sc" "c \<notin> set tok" "sint c = ch" "c \<noteq> 0"
  shows "\<exists>sc'. until_and_eat ch sc = Ok (tok, sc') \<and> at_in rest sc'"
  using until_at(1) [OF assms(1-3)] at_in_move [OF assms(1)] get_char_at [OF _ assms(4)]
  by (fastforce simp: until_and_eat_def)

lemma until_and_skip_at:
  assumes "at_in (tok @ crlf @ rest) sc" "set tok \<inter> set chs = {}" "13 \<in> set chs"
  shows "\<exists>sc'. until_and_skip chs sc = Ok (tok, sc') \<and> at_in rest sc'"
proof -
  have a: "at_in (tok @ 13 # 10 # rest) sc" using assms(1) by (simp add: crlf_def)
  show ?thesis
    using until_at(2) [OF a assms(2,3)] at_in_move [OF assms(1)] skip_line_at
    by (fastforce simp: until_and_skip_def)
qed

lemma check_equal_sign_at: "at_in (a # 61 # rest) sc \<Longrightarrow> check_equal_sign sc k = k"
  unfolding check_equal_sign_def by (simp only: at_in_rd(2)) simp

lemma parses_Nil [simp]: "parses [] st st"
  by (auto simp: parses_def)

lemma parses_append: "parses t1 st st1 \<Longrightarrow> parses t2 st1 st2 \<Longrightarrow> parses (t1 @ t2) st st2"
  unfolding parses_def append_assoc by metis

lemma parses_line:
  assumes "text \<noteq> []"
    and "\<And>rest sc. at_in (text @ rest) sc \<Longrightarrow> \<exists>sc'. parse_line st sc = Ok (Inr (st', sc')) \<and> at_in rest sc'"
  shows "parses text st st'"
  unfolding parses_def
proof (intro allI impI)
  fix rest sc assume a: "at_in (text @ rest) sc"
  from assms(2) [OF a] obtain sc' where l: "parse_line st sc = Ok (Inr (st', sc'))" "at_in rest sc'" by blast
  have "\<not> pj_scan_is_eof sc"
    using a assms(1) by (cases "text") (auto simp: at_in_def pj_scan_is_eof_def)
  with l show "\<exists>sc'. at_in rest sc' \<and> parse_loop st sc = parse_loop st' sc'"
    by (subst parse_loop.simps) auto
qed

text \<open>Facts on fields: the characters of numbers and of separators.\<close>

lemma digit_token: "pj_isdigit c \<Longrightarrow> cs_token c"
  by (simp add: pj_isdigit_def cs_token_def)

lemma seps_not_token: "\<not> cs_token 32" "\<not> cs_token 9" "\<not> cs_token 13" "\<not> cs_token 10" "\<not> cs_token 47" "\<not> cs_token 58"
  "\<not> cs_token 0" "\<not> cs_token 61"
  by (simp_all add: cs_token_def TOKEN_def)

lemma utoa_lacks: "(\<And>c. c \<in> set chs \<Longrightarrow> \<not> pj_isdigit c) \<Longrightarrow> lacks (pj_utoa n) chs"
  by (auto simp: lacks_def dest: pj_utoa_digits)

lemma utoa_is_token: "is_token (pj_utoa n)"
  by (auto simp: is_token_def list_all_iff intro: digit_token pj_utoa_digits)

lemma lacks_notin: "lacks str chs \<Longrightarrow> c \<in> set chs \<Longrightarrow> c \<notin> set str"
  by (auto simp: lacks_def)

lemma arg_s_id: "lacks str [0] \<Longrightarrow> arg_s str = str"
  by (auto simp: arg_s_def lacks_def intro: takeWhile_eq_all_conv [THEN iffD2])

lemma lacks_Cons: "lacks str (c # chs) \<longleftrightarrow> c \<notin> set str \<and> lacks str chs"
  by (auto simp: lacks_def)

lemma lacks_Nil [simp]: "lacks str []"
  by (simp add: lacks_def)

lemma ucast_of_nat_unat: "ucast (of_nat (unat v) :: u64) = (v :: u32)"
  by (rule bit_word_eqI) (simp add: bit_simps)

lemma ucast_of_nat_unat16: "ucast (of_nat (unat v) :: u64) = (v :: u16)"
  by (rule bit_word_eqI) (simp add: bit_simps)

lemma digit_seps:
  "\<not> pj_isdigit 32" "\<not> pj_isdigit 9" "\<not> pj_isdigit 13" "\<not> pj_isdigit 10" "\<not> pj_isdigit 58" "\<not> pj_isdigit 47"
  by (simp_all add: pj_isdigit_def)

lemma number_fields [simp]:
  "32 \<notin> set (pj_utoa n)" "lacks (pj_utoa n) [32, 9, 13, 10]"
  by (auto simp: digit_seps dest: pj_utoa_digits intro!: utoa_lacks)

lemma sints: "sint (32 :: u8) = 32" "sint (58 :: u8) = 58"
  by simp_all

text \<open>A field up to a space, and the last field of a line.\<close>

lemma field_at:
  "at_in (tok @ 32 # rest) sc \<Longrightarrow> 32 \<notin> set tok \<Longrightarrow> \<exists>sc'. until_and_eat 32 sc = Ok (tok, sc') \<and> at_in rest sc'"
  by (rule until_and_eat_at, assumption) simp_all

lemma last_field_at:
  "at_in (tok @ crlf @ rest) sc \<Longrightarrow> lacks tok chs \<Longrightarrow> 13 \<in> set chs \<Longrightarrow>
   \<exists>sc'. until_and_skip chs sc = Ok (tok, sc') \<and> at_in rest sc'"
  by (rule until_and_skip_at) (simp_all add: lacks_def)

lemma parse_origin_at:
  assumes "at_in (origin_text og @ rest) sc" "origin_wf og"
  shows "\<exists>sc'. parse_origin sc ses = Ok (ses\<lparr>s_origin := og\<rparr>, sc') \<and> at_in rest sc'"
proof -
  have wf: "32 \<notin> set (or_user og)" "32 \<notin> set (or_net_type og)" "32 \<notin> set (or_addr_type og)"
    "lacks (or_addr og) [32, 9, 13, 10]"
    using assms(2) by (auto simp: origin_wf_def lacks_Cons)
  have a: "at_in (111 # 61 # (or_user og @ 32 # pj_utoa (unat (or_id og)) @ 32 # pj_utoa (unat (or_version og))
      @ 32 # or_net_type og @ 32 # or_addr_type og @ 32 # or_addr og @ crlf @ rest)) sc"
    using assms(1) by (simp add: origin_text_def)
  from advance_at [OF a] obtain sc1 where 1: "pj_scan_advance_n sc 2 False = Ok sc1"
    "at_in (or_user og @ 32 # pj_utoa (unat (or_id og)) @ 32 # pj_utoa (unat (or_version og))
      @ 32 # or_net_type og @ 32 # or_addr_type og @ 32 # or_addr og @ crlf @ rest) sc1" by blast
  from field_at [OF 1(2) wf(1)] obtain sc2 where 2: "until_and_eat 32 sc1 = Ok (or_user og, sc2)"
    "at_in (pj_utoa (unat (or_id og)) @ 32 # pj_utoa (unat (or_version og))
      @ 32 # or_net_type og @ 32 # or_addr_type og @ 32 # or_addr og @ crlf @ rest) sc2" by blast
  from field_at [OF 2(2)] obtain sc3 where 3: "until_and_eat 32 sc2 = Ok (pj_utoa (unat (or_id og)), sc3)"
    "at_in (pj_utoa (unat (or_version og)) @ 32 # or_net_type og @ 32 # or_addr_type og @ 32 # or_addr og
      @ crlf @ rest) sc3" by auto
  from field_at [OF 3(2)] obtain sc4 where 4: "until_and_eat 32 sc3 = Ok (pj_utoa (unat (or_version og)), sc4)"
    "at_in (or_net_type og @ 32 # or_addr_type og @ 32 # or_addr og @ crlf @ rest) sc4" by auto
  from field_at [OF 4(2) wf(2)] obtain sc5 where 5: "until_and_eat 32 sc4 = Ok (or_net_type og, sc5)"
    "at_in (or_addr_type og @ 32 # or_addr og @ crlf @ rest) sc5" by blast
  from field_at [OF 5(2) wf(3)] obtain sc6 where 6: "until_and_eat 32 sc5 = Ok (or_addr_type og, sc6)"
    "at_in (or_addr og @ crlf @ rest) sc6" by blast
  from last_field_at [OF 6(2) wf(4)] obtain sc7 where
    7: "until_and_skip [32, 9, 13, 10] sc6 = Ok (or_addr og, sc7)" "at_in rest sc7" by auto
  show ?thesis
    by (simp add: parse_origin_def check_equal_sign_at [OF a] 1 2 3 4 5 6 7 ucast_of_nat_unat del: of_nat_unat)
qed

lemma parse_time_at:
  assumes "at_in (time_text s @ rest) sc"
  shows "\<exists>sc'. parse_time sc ses = Ok (ses\<lparr>s_start := s_start s, s_stop := s_stop s\<rparr>, sc') \<and> at_in rest sc'"
proof -
  have a: "at_in (116 # 61 # (pj_utoa (unat (s_start s)) @ 32 # pj_utoa (unat (s_stop s)) @ crlf @ rest)) sc"
    using assms by (simp add: time_text_def)
  from advance_at [OF a] obtain sc1 where 1: "pj_scan_advance_n sc 2 False = Ok sc1"
    "at_in (pj_utoa (unat (s_start s)) @ 32 # pj_utoa (unat (s_stop s)) @ crlf @ rest) sc1" by blast
  from field_at [OF 1(2)] obtain sc2 where 2: "until_and_eat 32 sc1 = Ok (pj_utoa (unat (s_start s)), sc2)"
    "at_in (pj_utoa (unat (s_stop s)) @ crlf @ rest) sc2" by auto
  from last_field_at [OF 2(2), of "[32, 9, 13, 10]"] obtain sc3 where
    3: "until_and_skip [32, 9, 13, 10] sc2 = Ok (pj_utoa (unat (s_stop s)), sc3)" "at_in rest sc3" by auto
  show ?thesis
    by (simp add: parse_time_def check_equal_sign_at [OF a] 1 2 3 ucast_of_nat_unat del: of_nat_unat)
qed

lemma parse_connection_info_at:
  assumes "at_in (conn_text c @ rest) sc" "conn_wf c"
  shows "\<exists>sc'. parse_connection_info sc = Ok (c, sc') \<and> at_in rest sc'"
proof -
  have wf: "32 \<notin> set (c_net_type c)" "32 \<notin> set (c_addr_type c)" "lacks (c_addr c) [47, 32, 9, 13, 10]"
    using assms(2) by (auto simp: conn_wf_def lacks_Cons)
  have a: "at_in (99 # 61 # (c_net_type c @ 32 # c_addr_type c @ 32 # c_addr c @ crlf @ rest)) sc"
    using assms(1) by (simp add: conn_text_def)
  from advance_at [OF a] obtain sc1 where 1: "pj_scan_advance_n sc 2 False = Ok sc1"
    "at_in (c_net_type c @ 32 # c_addr_type c @ 32 # c_addr c @ crlf @ rest) sc1" by blast
  from field_at [OF 1(2) wf(1)] obtain sc2 where 2: "until_and_eat 32 sc1 = Ok (c_net_type c, sc2)"
    "at_in (c_addr_type c @ 32 # c_addr c @ crlf @ rest) sc2" by blast
  from field_at [OF 2(2) wf(2)] obtain sc3 where 3: "until_and_eat 32 sc2 = Ok (c_addr_type c, sc3)"
    "at_in (c_addr c @ crlf @ rest) sc3" by blast
  from last_field_at [OF 3(2) wf(3)] obtain sc4 where
    4: "until_and_skip [47, 32, 9, 13, 10] sc3 = Ok (c_addr c, sc4)" "at_in rest sc4" by auto
  show ?thesis by (simp add: parse_connection_info_def 1 2 3 4)
qed

lemma parse_bandwidth_info_at:
  assumes "at_in (bandw_text b @ rest) sc" "bandw_wf b"
  shows "\<exists>sc'. parse_bandwidth_info sc = Ok (b, sc') \<and> at_in rest sc'"
proof -
  have a: "at_in (98 # 61 # (b_modifier b @ 58 # pj_utoa (unat (b_value b)) @ crlf @ rest)) sc"
    using assms(1) by (simp add: bandw_text_def)
  from advance_at [OF a] obtain sc1 where 1: "pj_scan_advance_n sc 2 False = Ok sc1"
    "at_in (b_modifier b @ 58 # pj_utoa (unat (b_value b)) @ crlf @ rest) sc1" by blast
  from until_and_eat_at [OF 1(2)] assms(2) obtain sc2 where 2: "until_and_eat 58 sc1 = Ok (b_modifier b, sc2)"
    "at_in (pj_utoa (unat (b_value b)) @ crlf @ rest) sc2" by (auto simp: bandw_wf_def lacks_Cons sints)
  from last_field_at [OF 2(2), of "[32, 9, 13, 10]"] obtain sc3 where
    3: "until_and_skip [32, 9, 13, 10] sc2 = Ok (pj_utoa (unat (b_value b)), sc3)" "at_in rest sc3" by auto
  show ?thesis
    by (simp add: parse_bandwidth_info_def 1 2 3 ucast_of_nat_unat del: of_nat_unat)
qed

lemma get_token_at:
  assumes "at_in (tok @ c # rest) sc" "is_token tok" "\<not> cs_token c"
  shows "\<exists>sc' str. pj_scan_get sc cs_token = Ok (str, sc') \<and> str_of (sc_mem sc) str = tok \<and> at_in (c # rest) sc'"
  using get_at [where tok = tok and c = c and rest = rest and sc = sc and spec = cs_token] assms(1,3) at_in_move(1,3) [OF assms(1)] assms(2)
  by (auto simp: is_token_def list_all_iff)

lemma parse_attr_at:
  assumes "at_in (attr_text a @ rest) sc" "attr_wf a"
  shows "\<exists>sc'. parse_attr sc = Ok (a, sc') \<and> at_in rest sc'"
proof -
  define v where "v = (if at_value a \<noteq> [] then 58 # at_value a else []) @ crlf"
  have wf: "is_token (at_name a)" "lacks (at_value a) [13, 10]"
    using assms(2) by (auto simp: attr_wf_def)
  have a: "at_in (97 # 61 # (at_name a @ v @ rest)) sc"
    using assms(1) by (simp add: attr_text_def v_def)
  from advance_at [OF a] obtain sc1 where 1: "pj_scan_advance_n sc 2 False = Ok sc1"
    "at_in (at_name a @ v @ rest) sc1" by blast
  show ?thesis
  proof (cases "at_value a = []")
    case True
    then have "v @ rest = 13 # 10 # rest" by (simp add: v_def crlf_def)
    with 1(2) have "at_in (at_name a @ 13 # 10 # rest) sc1" by simp
    from get_token_at [OF this wf(1)] seps_not_token obtain sc2 str where
      2: "pj_scan_get sc1 cs_token = Ok (str, sc2)" "str_of (sc_mem sc1) str = at_name a" "at_in (13 # 10 # rest) sc2"
      by blast
    from skip_line_at [of rest sc2] 2(3) obtain sc3 where
      3: "pj_scan_skip_line sc2 = Ok sc3" "at_in rest sc3" by (auto simp: crlf_def)
    have "a = \<lparr>at_name = at_name a, at_value = []\<rparr>" using True by simp
    then show ?thesis
      by (simp add: parse_attr_def check_equal_sign_at [OF a] 1 2 3 at_in_rd(1) [OF 2(3)])
  next
    case False
    then obtain x xs where x: "at_value a = x # xs" by (cases "at_value a") auto
    have "v @ rest = 58 # at_value a @ crlf @ rest" using False by (simp add: v_def)
    with 1(2) have "at_in (at_name a @ 58 # at_value a @ crlf @ rest) sc1" by simp
    from get_token_at [OF this wf(1)] seps_not_token obtain sc2 str where
      2: "pj_scan_get sc1 cs_token = Ok (str, sc2)" "str_of (sc_mem sc1) str = at_name a"
      "at_in (58 # at_value a @ crlf @ rest) sc2" by blast
    from get_char_at [OF 2(3)] obtain sc3 where 3: "pj_scan_get_char sc2 = Ok (58, sc3)"
      "at_in (at_value a @ crlf @ rest) sc3" by auto
    have vx: "x \<noteq> 13" "x \<noteq> 10" using wf(2) by (auto simp: x lacks_Cons)
    have 4: "pj_scan_get_until_chr sc3 [13, 10]
             = Ok ((sc_cur sc3, length (at_value a)), sc3\<lparr>sc_cur := sc_cur sc3 + length (at_value a)\<rparr>)"
      using until_at(2) [of "at_value a" 13 "10 # rest" sc3 "[13, 10]"] 3(2) wf(2) by (simp add: crlf_def lacks_def)
    note 5 = at_in_move(1,3) [OF 3(2)]
    from skip_line_at [OF 5(1)] obtain sc4 where
      6: "pj_scan_skip_line (sc3\<lparr>sc_cur := sc_cur sc3 + length (at_value a)\<rparr>) = Ok sc4" "at_in rest sc4" by blast
    have rd: "rd (sc_mem sc3) (sc_cur sc3) = Ok x"
      using at_in_rd(1) [of x _ sc3] 3(2) by (simp add: x)
    show ?thesis
      by (simp add: parse_attr_def check_equal_sign_at [OF a] 1 2 at_in_rd(1) [OF 2(3)] 3 rd vx 4 5(2) 6)
  qed
qed

lemma fmt_loop_at:
  assumes "at_in (concat (map (\<lambda>fmt. 32 # fmt) fmts) @ crlf @ rest) sc" "list_all is_token fmts"
    and "length acc + length fmts \<le> PJMEDIA_MAX_SDP_FMT"
  shows "\<exists>sc'. fmt_loop sc acc = Ok (acc @ fmts, sc') \<and> at_in (crlf @ rest) sc'"
  using assms
proof (induction fmts arbitrary: sc acc)
  case Nil
  then have "at_in (13 # 10 # rest) sc" by (simp add: crlf_def)
  from at_in_rd(1) [OF this] Nil show ?case
    by (subst fmt_loop.simps) (simp add: crlf_def)
next
  case (Cons fmt fmts)
  define tail where "tail = concat (map (\<lambda>fmt. 32 # fmt) fmts) @ crlf @ rest"
  have a: "at_in (32 # fmt @ tail) sc" using Cons.prems(1) by (simp add: tail_def)
  from get_char_at [OF a] obtain sc1 where 1: "pj_scan_get_char sc = Ok (32, sc1)" "at_in (fmt @ tail) sc1"
    by auto
  obtain c r where c: "tail = c # r" "\<not> cs_token c"
    using seps_not_token by (cases fmts) (auto simp: tail_def crlf_def)
  have tok: "is_token fmt" using Cons.prems(2) by simp
  then obtain x xs where x: "fmt = x # xs" "cs_token x" by (cases fmt) (auto simp: is_token_def)
  then have nl: "x \<noteq> 13" "x \<noteq> 10" using seps_not_token by auto
  have rd1: "rd (sc_mem sc1) (sc_cur sc1) = Ok x" using at_in_rd(1) [of x _ sc1] 1(2) by (simp add: x)
  from get_token_at [of fmt c r sc1] 1(2) tok c obtain sc2 str where
    2: "pj_scan_get sc1 cs_token = Ok (str, sc2)" "str_of (sc_mem sc1) str = fmt" "at_in tail sc2" by auto
  have "length (acc @ [fmt]) + length fmts \<le> PJMEDIA_MAX_SDP_FMT" "length acc < PJMEDIA_MAX_SDP_FMT"
    using Cons.prems(3) by simp_all
  moreover from this Cons.IH [OF 2(3) [unfolded tail_def], of "acc @ [fmt]"] Cons.prems(2) obtain sc' where
    "fmt_loop sc2 (acc @ [fmt]) = Ok ((acc @ [fmt]) @ fmts, sc')" "at_in (crlf @ rest) sc'" by auto
  ultimately show ?case
    by (subst fmt_loop.simps) (simp add: at_in_rd(1) [OF a] 1(1) rd1 nl 2)
qed

lemma port_count_at:
  fixes n :: u32
  assumes "at_in ((if n > 1 then 47 # pj_utoa (unat n) else []) @ 32 # rest) sc3" "n \<noteq> 1"
  shows "\<exists>c sc6. rd (sc_mem sc3) (sc_cur sc3) = Ok c \<and>
    (if c = 47 then
       scan_bind (pj_scan_get_char sc3) (\<lambda>(_, sc4).
       scan_bind (pj_scan_get sc4 cs_token) (\<lambda>(count, sc5).
         Ok (ucast (pj_strtoul (str_of (sc_mem sc4) count)), sc5)))
     else Ok (0, sc3)) = Ok (n, sc6) \<and> at_in (32 # rest) sc6"
proof (cases "n > 1")
  case True
  then have a: "at_in (47 # pj_utoa (unat n) @ 32 # rest) sc3" using assms(1) by simp
  from get_char_at [OF a] obtain sc4 where 4: "pj_scan_get_char sc3 = Ok (47, sc4)"
    "at_in (pj_utoa (unat n) @ 32 # rest) sc4" by auto
  from get_token_at [OF 4(2) utoa_is_token] seps_not_token obtain sc5 str where
    5: "pj_scan_get sc4 cs_token = Ok (str, sc5)" "str_of (sc_mem sc4) str = pj_utoa (unat n)"
    "at_in (32 # rest) sc5" by blast
  show ?thesis
    by (simp add: at_in_rd(1) [OF a] 4 5 ucast_of_nat_unat del: of_nat_unat)
next
  case False
  with assms(2) have "n = 0"
    by (metis linorder_less_linear word_less_1)
  with assms(1) have a: "at_in (32 # rest) sc3" by simp
  then show ?thesis using \<open>n = 0\<close> by (simp add: at_in_rd(1) [OF a])
qed

lemma parse_media_at:
  assumes "at_in (media_line m @ rest) sc" "media_wf m"
  shows "\<exists>sc'. parse_media sc = Ok (media_base m, sc') \<and> at_in rest sc'"
proof -
  define t5 where "t5 = concat (map (\<lambda>fmt. 32 # fmt) (m_fmt m)) @ crlf @ rest"
  define t4 where "t4 = m_transport m @ t5"
  define t3 where "t3 = (if m_port_count m > 1 then 47 # pj_utoa (unat (m_port_count m)) else []) @ 32 # t4"
  have wf: "32 \<notin> set (m_media m)" "m_port_count m \<noteq> 1" "lacks (m_transport m) [32, 9, 13, 10]"
    "list_all is_token (m_fmt m)" "length (m_fmt m) \<le> PJMEDIA_MAX_SDP_FMT"
    using assms(2) by (auto simp: media_wf_def media_fits_def lacks_Cons)
  have a: "at_in (109 # 61 # (m_media m @ 32 # pj_utoa (unat (m_port m)) @ t3)) sc"
    using assms(1) by (simp add: media_line_def t3_def t4_def t5_def)
  from advance_at [OF a] obtain sc1 where 1: "pj_scan_advance_n sc 2 False = Ok sc1"
    "at_in (m_media m @ 32 # pj_utoa (unat (m_port m)) @ t3) sc1" by blast
  from field_at [OF 1(2) wf(1)] obtain sc2 where 2: "until_and_eat 32 sc1 = Ok (m_media m, sc2)"
    "at_in (pj_utoa (unat (m_port m)) @ t3) sc2" by blast
  obtain c r where c: "t3 = c # r" "\<not> cs_token c"
    using seps_not_token by (cases "m_port_count m > 1") (auto simp: t3_def)
  from get_token_at [OF 2(2) [unfolded c(1)] utoa_is_token c(2)] obtain sc3 str where
    3: "pj_scan_get sc2 cs_token = Ok (str, sc3)" "str_of (sc_mem sc2) str = pj_utoa (unat (m_port m))" "at_in t3 sc3"
    by (auto simp: c(1))
  from port_count_at [OF 3(3) [unfolded t3_def] wf(2)] obtain ch sc6 where
    6: "rd (sc_mem sc3) (sc_cur sc3) = Ok ch"
    "(if ch = 47 then
       scan_bind (pj_scan_get_char sc3) (\<lambda>(_, sc4).
       scan_bind (pj_scan_get sc4 cs_token) (\<lambda>(count, sc5).
         Ok (ucast (pj_strtoul (str_of (sc_mem sc4) count)), sc5)))
     else Ok (0, sc3)) = Ok (m_port_count m, sc6)" "at_in (32 # t4) sc6" by blast
  from get_char_at [OF 6(3)] obtain sc7 where 7: "pj_scan_get_char sc6 = Ok (32, sc7)" "at_in t4 sc7" by auto
  obtain d u where d: "t5 = d # u" "d \<in> set [32, 9, 13, 10]"
    by (cases "m_fmt m") (auto simp: t5_def crlf_def)
  have 8: "pj_scan_get_until_chr sc7 [32, 9, 13, 10]
      = Ok ((sc_cur sc7, length (m_transport m)), sc7\<lparr>sc_cur := sc_cur sc7 + length (m_transport m)\<rparr>)"
    using until_at(2) [of "m_transport m" d u sc7 "[32, 9, 13, 10]"] 7(2) d wf(3) by (simp add: t4_def lacks_def)
  note 9 = at_in_move(1,3) [OF 7(2) [unfolded t4_def]]
  from fmt_loop_at [OF 9(1) [unfolded t5_def] wf(4), of "[]"] wf(5) obtain sc9 where
    10: "fmt_loop (sc7\<lparr>sc_cur := sc_cur sc7 + length (m_transport m)\<rparr>) [] = Ok (m_fmt m, sc9)"
    "at_in (crlf @ rest) sc9" by auto
  from skip_line_at [OF 10(2)] obtain sc10 where 11: "pj_scan_skip_line sc9 = Ok sc10" "at_in rest sc10" by blast
  have "parse_media sc = Ok (media_zero\<lparr>m_media := m_media m, m_port := m_port m,
      m_port_count := m_port_count m, m_transport := m_transport m, m_fmt := m_fmt m\<rparr>, sc10)"
    unfolding parse_media_def check_equal_sign_at [OF a]
    by (simp add: 1 2 3 6(1) 6(2) 7 8 9(2) 10 11 ucast_of_nat_unat16 del: of_nat_unat)
  then show ?thesis using 11(2) by (simp add: media_base_def media_zero_def)
qed

lemma parse_generic_line_at:
  assumes "at_in (k # 61 # (str @ crlf @ rest)) sc" "lacks str [13, 10]"
  shows "\<exists>sc'. parse_generic_line sc = Ok (str, sc') \<and> at_in rest sc'"
proof -
  from advance_at [OF assms(1)] obtain sc1 where 1: "pj_scan_advance_n sc 2 False = Ok sc1"
    "at_in (str @ crlf @ rest) sc1" by blast
  have 2: "pj_scan_get_until_chr sc1 [13, 10] = Ok ((sc_cur sc1, length str), sc1\<lparr>sc_cur := sc_cur sc1 + length str\<rparr>)"
    using until_at(2) [of str 13 "10 # rest" sc1 "[13, 10]"] 1(2) assms(2) by (simp add: crlf_def lacks_def)
  note 3 = at_in_move(1,3) [OF 1(2)]
  define sc2 where "sc2 = sc1\<lparr>sc_cur := sc_cur sc1 + length str\<rparr>"
  have n: "at_in (13 # 10 # rest) sc2" using 3(1) by (simp add: sc2_def crlf_def)
  have "pj_scan_get_newline sc2 = Ok (sc2\<lparr>sc_cur := sc_cur sc2 + 2, sc_line := sc_line sc2 + 1, sc_start_line := sc_cur sc2 + 2\<rparr>)"
    using at_in_rd(1,2) [OF n] by (simp add: pj_scan_get_newline_def PJ_SCAN_IS_NEWLINE_def)
  moreover have "at_in rest (sc2\<lparr>sc_cur := sc_cur sc2 + 2, sc_line := sc_line sc2 + 1, sc_start_line := sc_cur sc2 + 2\<rparr>)"
    using at_in_move(1) [of "[13, 10]" rest sc2] n by (simp add: at_in_def)
  ultimately show ?thesis
    by (simp add: parse_generic_line_def check_equal_sign_at [OF assms(1)] 1 2 3(2) sc2_def [symmetric])
qed

lemma parse_version_at:
  assumes "at_in ([118, 61, 48] @ crlf @ rest) sc"
  shows "\<exists>sc'. parse_version sc = Ok sc' \<and> at_in rest sc'"
proof -
  have a: "at_in (118 # 61 # 48 # 13 # 10 # rest) sc" using assms by (simp add: crlf_def)
  have d: "drop (sc_cur sc) (sc_mem sc) = [118, 61, 48, 13] @ 10 # rest @ [0]"
    using a by (simp add: at_in_def)
  have "while_loop (\<lambda>c. c \<noteq> 10 \<and> c \<noteq> 0) (sc_mem sc) (sc_cur sc) = Ok (sc_cur sc + 4)"
    using loops_at(1) [OF d, of "\<lambda>c. c \<noteq> 10 \<and> c \<noteq> 0"] by simp
  moreover have "rd (sc_mem sc) (sc_cur sc + 4) = Ok 10"
    using at_in_nth [OF a, of 4] by (simp add: rd_def)
  moreover have "at_in rest (sc\<lparr>sc_cur := sc_cur sc + 5, sc_start_line := sc_cur sc + 5, sc_line := sc_line sc + 1\<rparr>)"
    using at_in_move(2) [of "[118, 61, 48, 13, 10]" rest sc] a by (simp add: eval_nat_numeral)
  ultimately show ?thesis
    unfolding parse_version_def check_equal_sign_at [OF a] at_in_rd(3) [OF a]
    by (simp add: pj_scan_skip_line_def add.commute)
qed

text \<open>From the lines to the parser: what each printed piece does to the state of the parser.\<close>

lemma parse_line_dispatch:
  assumes "at_in (c # rest) sc"
  shows "c = 97 \<Longrightarrow> parse_attr sc = Ok (a, sc') \<Longrightarrow> parse_line st sc = Ok (Inr (add_attr a st, sc'))"
    and "c = 111 \<Longrightarrow> parse_origin sc (ps_session st) = Ok (ses, sc') \<Longrightarrow>
         parse_line st sc = Ok (Inr (st\<lparr>ps_session := ses\<rparr>, sc'))"
    and "c = 115 \<Longrightarrow> parse_generic_line sc = Ok (name, sc') \<Longrightarrow>
         parse_line st sc = Ok (Inr (st\<lparr>ps_session := (ps_session st)\<lparr>s_name := name\<rparr>\<rparr>, sc'))"
    and "c = 99 \<Longrightarrow> parse_connection_info sc = Ok (conn, sc') \<Longrightarrow> parse_line st sc = Ok (Inr (add_conn conn st, sc'))"
    and "c = 116 \<Longrightarrow> parse_time sc (ps_session st) = Ok (ses, sc') \<Longrightarrow>
         parse_line st sc = Ok (Inr (st\<lparr>ps_session := ses\<rparr>, sc'))"
    and "c = 109 \<Longrightarrow> parse_media sc = Ok (media, sc') \<Longrightarrow> parse_line st sc = Ok (Inr (add_media media st, sc'))"
    and "c = 118 \<Longrightarrow> parse_version sc = Ok sc' \<Longrightarrow> parse_line st sc = Ok (Inr (st, sc'))"
    and "c = 98 \<Longrightarrow> parse_bandwidth_info sc = Ok (bandw, sc') \<Longrightarrow> parse_line st sc = Ok (Inr (add_bandw bandw st, sc'))"
  by (simp_all add: parse_line_def at_in_rd(1) [OF assms] line_or_def)

lemma parses_lines:
  shows "attr_wf a \<Longrightarrow> parses (attr_text a) st (add_attr a st)"
    and "origin_wf og \<Longrightarrow> parses (origin_text og) st (st\<lparr>ps_session := (ps_session st)\<lparr>s_origin := og\<rparr>\<rparr>)"
    and "lacks name [13, 10] \<Longrightarrow>
         parses ([115, 61] @ name @ crlf) st (st\<lparr>ps_session := (ps_session st)\<lparr>s_name := name\<rparr>\<rparr>)"
    and "conn_wf c \<Longrightarrow> parses (conn_text c) st (add_conn c st)"
    and "parses (time_text s) st
           (st\<lparr>ps_session := (ps_session st)\<lparr>s_start := s_start s, s_stop := s_stop s\<rparr>\<rparr>)"
    and "media_wf m \<Longrightarrow> parses (media_line m) st (add_media (media_base m) st)"
    and "parses ([118, 61, 48] @ crlf) st st"
    and "bandw_wf b \<Longrightarrow> parses (bandw_text b) st (add_bandw b st)"
proof -
  show "parses (attr_text a) st (add_attr a st)" if "attr_wf a"
    using parse_attr_at [OF _ that] parse_line_dispatch(1)
    by (intro parses_line) (fastforce simp: attr_text_def)+
  show "parses (origin_text og) st (st\<lparr>ps_session := (ps_session st)\<lparr>s_origin := og\<rparr>\<rparr>)" if "origin_wf og"
    using parse_origin_at [OF _ that] parse_line_dispatch(2)
    by (intro parses_line) (fastforce simp: origin_text_def)+
  show "parses ([115, 61] @ name @ crlf) st (st\<lparr>ps_session := (ps_session st)\<lparr>s_name := name\<rparr>\<rparr>)"
    if "lacks name [13, 10]"
    using parse_generic_line_at [OF _ that] parse_line_dispatch(3) by (intro parses_line) fastforce+
  show "parses (conn_text c) st (add_conn c st)" if "conn_wf c"
    using parse_connection_info_at [OF _ that] parse_line_dispatch(4)
    by (intro parses_line) (fastforce simp: conn_text_def)+
  show "parses (time_text s) st
           (st\<lparr>ps_session := (ps_session st)\<lparr>s_start := s_start s, s_stop := s_stop s\<rparr>\<rparr>)"
    using parse_time_at parse_line_dispatch(5)
    by (intro parses_line) (fastforce simp: time_text_def)+
  show "parses (media_line m) st (add_media (media_base m) st)" if "media_wf m"
    using parse_media_at [OF _ that] parse_line_dispatch(6)
    by (intro parses_line) (fastforce simp: media_line_def)+
  show "parses ([118, 61, 48] @ crlf) st st"
    using parse_version_at parse_line_dispatch(7) by (intro parses_line) fastforce+
  show "parses (bandw_text b) st (add_bandw b st)" if "bandw_wf b"
    using parse_bandwidth_info_at [OF _ that] parse_line_dispatch(8)
    by (intro parses_line) (fastforce simp: bandw_text_def)+
qed

lemma parses_list:
  assumes "\<And>x st. x \<in> set xs \<Longrightarrow> parses (g x) st (f x st)"
  shows "parses (concat (map g xs)) st (fold f xs st)"
  using assms by (induction xs arbitrary: st) (auto intro: parses_append)

lemma media_state_adds:
  shows "add_conn c (media_state ses ms m) = media_state ses ms (m\<lparr>m_conn := Some c\<rparr>)"
    and "length (m_bandw m) + length bs \<le> PJMEDIA_MAX_SDP_BANDW \<Longrightarrow>
         fold add_bandw bs (media_state ses ms m) = media_state ses ms (m\<lparr>m_bandw := m_bandw m @ bs\<rparr>)"
    and "length (m_attr m) + length as \<le> PJMEDIA_MAX_SDP_ATTR \<Longrightarrow>
         fold add_attr as (media_state ses ms m) = media_state ses ms (m\<lparr>m_attr := m_attr m @ as\<rparr>)"
proof -
  show "add_conn c (media_state ses ms m) = media_state ses ms (m\<lparr>m_conn := Some c\<rparr>)"
    by (simp add: add_conn_def upd_media_def media_state_def Let_def)
  show "fold add_bandw bs (media_state ses ms m) = media_state ses ms (m\<lparr>m_bandw := m_bandw m @ bs\<rparr>)"
    if "length (m_bandw m) + length bs \<le> PJMEDIA_MAX_SDP_BANDW"
    using that by (induction bs arbitrary: m) (simp_all add: add_bandw_def upd_media_def media_state_def Let_def)
  show "fold add_attr as (media_state ses ms m) = media_state ses ms (m\<lparr>m_attr := m_attr m @ as\<rparr>)"
    if "length (m_attr m) + length as \<le> PJMEDIA_MAX_SDP_ATTR"
    using that
    by (induction as arbitrary: m)
      (simp_all add: add_attr_def upd_media_def media_state_def Let_def pjmedia_sdp_media_add_attr_def
        pjmedia_sdp_attr_add_def)
qed

lemma session_adds:
  assumes "ps_media st = No_Media"
  shows "add_conn c st = st\<lparr>ps_session := (ps_session st)\<lparr>s_conn := Some c\<rparr>\<rparr>"
    and "length (s_bandw (ps_session st)) + length bs \<le> PJMEDIA_MAX_SDP_BANDW \<Longrightarrow>
         fold add_bandw bs st = st\<lparr>ps_session := (ps_session st)\<lparr>s_bandw := s_bandw (ps_session st) @ bs\<rparr>\<rparr>"
    and "length (s_attr (ps_session st)) + length as \<le> PJMEDIA_MAX_SDP_ATTR \<Longrightarrow>
         fold add_attr as st = st\<lparr>ps_session := (ps_session st)\<lparr>s_attr := s_attr (ps_session st) @ as\<rparr>\<rparr>"
proof -
  show "add_conn c st = st\<lparr>ps_session := (ps_session st)\<lparr>s_conn := Some c\<rparr>\<rparr>"
    using assms by (simp add: add_conn_def)
  show "fold add_bandw bs st = st\<lparr>ps_session := (ps_session st)\<lparr>s_bandw := s_bandw (ps_session st) @ bs\<rparr>\<rparr>"
    if "length (s_bandw (ps_session st)) + length bs \<le> PJMEDIA_MAX_SDP_BANDW"
    using that assms by (induction bs arbitrary: st) (simp_all add: add_bandw_def Let_def)
  show "fold add_attr as st = st\<lparr>ps_session := (ps_session st)\<lparr>s_attr := s_attr (ps_session st) @ as\<rparr>\<rparr>"
    if "length (s_attr (ps_session st)) + length as \<le> PJMEDIA_MAX_SDP_ATTR"
    using that assms
    by (induction as arbitrary: st)
      (simp_all add: add_attr_def pjmedia_sdp_session_add_attr_def pjmedia_sdp_attr_add_def)
qed

lemma parses_media:
  assumes "media_wf m" "length (s_media (ps_session st)) < PJMEDIA_MAX_SDP_MEDIA"
  shows "parses (media_text m) st (media_state (ps_session st) (s_media (ps_session st)) m)"
proof -
  define base where "base = media_state (ps_session st) (s_media (ps_session st))"
  have wf: "conn_opt_wf (m_conn m)" "list_all bandw_wf (m_bandw m)" "list_all attr_wf (m_attr m)"
    "length (m_bandw m) \<le> PJMEDIA_MAX_SDP_BANDW" "length (m_attr m) \<le> PJMEDIA_MAX_SDP_ATTR"
    using assms(1) by (auto simp: media_wf_def media_fits_def)
  have 1: "parses (media_line m) st (base (media_base m))"
    using parses_lines(6) [OF assms(1), of st] assms(2)
    by (cases st) (simp add: base_def add_media_def media_state_def Let_def)
  have 2: "parses (opt_text (m_conn m)) (base (media_base m)) (base ((media_base m)\<lparr>m_conn := m_conn m\<rparr>))"
  proof (cases "m_conn m")
    case (Some c)
    then show ?thesis
      using parses_lines(4) [of c "base (media_base m)"] wf(1)
      by (simp add: opt_text_def base_def media_state_adds conn_opt_wf_def)
  qed (cases m, simp add: opt_text_def media_base_def)
  have 3: "parses (concat (map bandw_text (m_bandw m))) (base ((media_base m)\<lparr>m_conn := m_conn m\<rparr>))
             (base ((media_base m)\<lparr>m_conn := m_conn m, m_bandw := m_bandw m\<rparr>))"
    using parses_list [of "m_bandw m" bandw_text add_bandw "base ((media_base m)\<lparr>m_conn := m_conn m\<rparr>)"]
      parses_lines(8) wf(2,4) by (simp add: base_def media_state_adds media_base_def list_all_iff)
  have 4: "parses (concat (map attr_text (m_attr m))) (base ((media_base m)\<lparr>m_conn := m_conn m, m_bandw := m_bandw m\<rparr>))
             (base m)"
    using parses_list [of "m_attr m" attr_text add_attr "base ((media_base m)\<lparr>m_conn := m_conn m, m_bandw := m_bandw m\<rparr>)"]
      parses_lines(1) wf(3,5) by (simp add: base_def media_state_adds media_base_def list_all_iff)
  show ?thesis
    unfolding media_text_def base_def [symmetric] by (intro parses_append [OF 1] parses_append [OF 2] parses_append [OF 3] 4)
qed

lemma parses_medias:
  assumes "list_all media_wf ms" "length (s_media (ps_session st)) + length ms \<le> PJMEDIA_MAX_SDP_MEDIA"
  shows "\<exists>st'. parses (concat (map media_text ms)) st st' \<and>
           ps_session st' = (ps_session st)\<lparr>s_media := s_media (ps_session st) @ ms\<rparr>"
  using assms
proof (induction ms arbitrary: st)
  case Nil
  then show ?case by (intro exI [of _ st]) simp
next
  case (Cons m ms)
  define st1 where "st1 = media_state (ps_session st) (s_media (ps_session st)) m"
  have 1: "parses (media_text m) st st1"
    using parses_media [of m st] Cons.prems by (simp add: st1_def)
  from Cons.IH [of st1] Cons.prems obtain st' where
    "parses (concat (map media_text ms)) st1 st'"
    "ps_session st' = (ps_session st1)\<lparr>s_media := s_media (ps_session st1) @ ms\<rparr>"
    by (auto simp: st1_def media_state_def)
  with parses_append [OF 1] show ?case
    by (intro exI [of _ st']) (simp add: st1_def media_state_def)
qed

lemma parses_session:
  assumes "session_wf s"
  shows "\<exists>st'. parses (session_text s) \<lparr>ps_session = session_zero, ps_media = No_Media\<rparr> st' \<and> ps_session st' = s"
proof -
  define S where "S ses = \<lparr>ps_session = ses, ps_media = No_Media\<rparr>" for ses
  define s1 where "s1 = session_zero\<lparr>s_origin := s_origin s\<rparr>"
  define s2 where "s2 = s1\<lparr>s_name := s_name s\<rparr>"
  define s3 where "s3 = s2\<lparr>s_conn := s_conn s\<rparr>"
  define s4 where "s4 = s3\<lparr>s_bandw := s_bandw s\<rparr>"
  define s5 where "s5 = s4\<lparr>s_start := s_start s, s_stop := s_stop s\<rparr>"
  define s6 where "s6 = s5\<lparr>s_attr := s_attr s\<rparr>"
  note defs = S_def s1_def s2_def s3_def s4_def s5_def s6_def session_zero_def
  have wf: "origin_wf (s_origin s)" "lacks (s_name s) [13, 10]" "conn_opt_wf (s_conn s)"
    "list_all bandw_wf (s_bandw s)" "list_all attr_wf (s_attr s)" "list_all media_wf (s_media s)"
    "length (s_bandw s) \<le> PJMEDIA_MAX_SDP_BANDW" "length (s_attr s) \<le> PJMEDIA_MAX_SDP_ATTR"
    "length (s_media s) \<le> PJMEDIA_MAX_SDP_MEDIA"
    using assms by (auto simp: session_wf_def session_fits_def)
  have 0: "parses ([118, 61, 48] @ crlf) (S session_zero) (S session_zero)"
    by (rule parses_lines(7))
  have 1: "parses (origin_text (s_origin s)) (S session_zero) (S s1)"
    using parses_lines(2) [OF wf(1), of "S session_zero"] by (simp add: defs)
  have 2: "parses ([115, 61] @ s_name s @ crlf) (S s1) (S s2)"
    using parses_lines(3) [OF wf(2), of "S s1"] by (simp add: defs)
  have 3: "parses (opt_text (s_conn s)) (S s2) (S s3)"
  proof (cases "s_conn s")
    case (Some c)
    then show ?thesis
      using parses_lines(4) [of c "S s2"] wf(3) by (simp add: opt_text_def defs session_adds conn_opt_wf_def)
  qed (simp add: opt_text_def defs)
  have 4: "parses (concat (map bandw_text (s_bandw s))) (S s3) (S s4)"
    using parses_list [of "s_bandw s" bandw_text add_bandw "S s3"] parses_lines(8) wf(4,7)
    by (simp add: defs session_adds list_all_iff)
  have 5: "parses (time_text s) (S s4) (S s5)"
    using parses_lines(5) [of s "S s4"] by (simp add: defs)
  have 6: "parses (concat (map attr_text (s_attr s))) (S s5) (S s6)"
    using parses_list [of "s_attr s" attr_text add_attr "S s5"] parses_lines(1) wf(5,8)
    by (simp add: defs session_adds list_all_iff)
  obtain st' where 7: "parses (concat (map media_text (s_media s))) (S s6) st'" "ps_session st' = s"
    using parses_medias [OF wf(6), of "S s6"] wf(9) by (auto simp: defs)
  have "parses (session_text s) (S session_zero) st'"
    unfolding session_text_def
    by (intro parses_append [OF 0] parses_append [OF 1] parses_append [OF 2] parses_append [OF 3]
        parses_append [OF 4] parses_append [OF 5] parses_append [OF 6] 7(1))
  with 7(2) show ?thesis by (auto simp: S_def)
qed

section \<open>What is printed\<close>

lemma out_then_Written:
  "out_then p q len = Written t \<longleftrightarrow> (\<exists>a b. p len = Written a \<and> q (len - length a) = Written b \<and> t = a @ b)"
  by (auto simp: out_then_def split: out.splits)

lemma out_block_Written: "out_block n t len = Written u \<longleftrightarrow> u = t \<and> n \<le> len \<and> length t \<le> len"
  by (auto simp: out_block_def)

lemma out_all_Written:
  assumes "out_all p xs len = Written t" "\<And>x l u. x \<in> set xs \<Longrightarrow> p x l = Written u \<Longrightarrow> u = g x"
  shows "t = concat (map g xs)"
  using assms by (induction xs arbitrary: len t) (auto simp: out_then_Written)

lemma print_parts:
  shows "print_attr a len = Written t \<Longrightarrow> t = attr_text a"
    and "print_bandw b len = Written t \<Longrightarrow> t = bandw_text b"
    and "conn_wf c \<Longrightarrow> print_connection_info c len = Written t \<Longrightarrow> t = conn_text c"
  by (auto simp: print_attr_def attr_text_def print_bandw_def bandw_text_def out_block_Written
      print_connection_info_def conn_text_def conn_wf_def lacks_Cons arg_s_id Let_def split: if_splits)

lemma print_opt_text: "conn_opt_wf c \<Longrightarrow> print_opt print_connection_info c len = Written t \<Longrightarrow> t = opt_text c"
  by (cases c) (auto simp: print_opt_def opt_text_def conn_opt_wf_def dest: print_parts(3))

lemma print_media_text:
  assumes "media_wf m" "print_media_desc m len = Written t"
  shows "t = media_text m"
proof -
  have c: "conn_opt_wf (m_conn m)" using assms(1) by (simp add: media_wf_def)
  from assms(2) obtain l1 l2 l3 t1 t2 t3 where
    "print_opt print_connection_info (m_conn m) l1 = Written t1" "out_all print_bandw (m_bandw m) l2 = Written t2"
    "out_all print_attr (m_attr m) l3 = Written t3" "t = media_line m @ t1 @ t2 @ t3"
    by (auto simp: print_media_desc_def out_then_Written out_block_Written)
  then show ?thesis
    using print_opt_text [OF c] out_all_Written [of print_bandw "m_bandw m" l2 t2 bandw_text]
      out_all_Written [of print_attr "m_attr m" l3 t3 attr_text] print_parts(1,2)
    by (simp add: media_text_def)
qed

lemma print_session_text:
  assumes "session_wf s" "print_session s len = Written t"
  shows "t = session_text s"
proof -
  have wf: "conn_opt_wf (s_conn s)" "list_all media_wf (s_media s)"
    using assms(1) by (auto simp: session_wf_def)
  from assms(2) obtain l1 l2 l3 l4 t1 t2 t3 t4 where
    *: "print_opt print_connection_info (s_conn s) l1 = Written t1" "out_all print_bandw (s_bandw s) l2 = Written t2"
    "out_all print_attr (s_attr s) l3 = Written t3" "out_all print_media_desc (s_media s) l4 = Written t4"
    "t = origin_lines (s_origin s) @ ([115, 61] @ s_name s @ crlf) @ t1 @ t2 @ time_text s @ t3 @ t4"
    by (auto simp: print_session_def out_then_Written out_block_Written time_text_def)
  have "t4 = concat (map media_text (s_media s))"
    using wf(2) by (intro out_all_Written [OF *(4)] print_media_text) (auto simp: list_all_iff)
  then show ?thesis
    using * print_opt_text [OF wf(1) *(1)] out_all_Written [OF *(2), of bandw_text]
      out_all_Written [OF *(3), of attr_text] print_parts(1,2)
    by (simp add: session_text_def origin_lines_def origin_text_def)
qed

text \<open>
  C18: parsing inverts printing. A description whose fields do not contain their separators, and that
  fits the arrays, is parsed back from its printed form, for every size of the buffer that it fits
  into; a direction given for the whole session is then moved to the media lines.
\<close>

theorem sdp_print_parse:
  assumes "session_wf s" "pjmedia_sdp_print s n = Written t"
  shows "pjmedia_sdp_parse (t @ [0]) (length t) = Ok (Inr (apply_media_direction s))"
proof -
  have t: "t = session_text s"
    using print_session_text [OF assms(1)] assms(2) by (simp add: pjmedia_sdp_print_def)
  define sc where "sc = \<lparr>sc_mem = t @ [0], sc_end = length t, sc_cur = 0, sc_line = 1, sc_start_line = 0, sc_skip_ws = 0\<rparr>"
  have i: "pj_scan_init (t @ [0]) (length t) 0 = Ok sc"
    by (simp add: pj_scan_init_def sc_def)
  have a: "at_in (t @ []) sc" by (simp add: at_in_def sc_def)
  have "at_in (118 # drop 1 t) sc"
    using a by (simp add: t session_text_def)
  then have l: "leading_newlines sc = Ok sc"
    by (subst leading_newlines.simps) (simp add: at_in_rd(1))
  from parses_session [OF assms(1)] obtain st' where
    p: "parses t \<lparr>ps_session = session_zero, ps_media = No_Media\<rparr> st'" "ps_session st' = s"
    by (auto simp: t)
  with a obtain sc' where "at_in [] sc'"
    "parse_loop \<lparr>ps_session = session_zero, ps_media = No_Media\<rparr> sc = parse_loop st' sc'"
    unfolding parses_def by blast
  moreover from this have "parse_loop st' sc' = Ok (Inr s)"
    by (subst parse_loop.simps) (simp add: pj_scan_is_eof_def at_in_def p(2))
  ultimately show ?thesis
    by (simp add: pjmedia_sdp_parse_def i l)
qed

theorem sdp_print_parse_witness:
  "\<exists>t. pjmedia_sdp_print ex_sdp 200 = Written t \<and>
       pjmedia_sdp_parse (t @ [0]) (length t) = Ok (Inr (apply_media_direction ex_sdp)) \<and>
       s_attr (apply_media_direction ex_sdp) = []"
proof -
  have wf: "session_wf ex_sdp" by code_simp
  have "case pjmedia_sdp_print ex_sdp 200 of Written t \<Rightarrow> True | _ \<Rightarrow> False" by code_simp
  then obtain t where t: "pjmedia_sdp_print ex_sdp 200 = Written t"
    by (cases "pjmedia_sdp_print ex_sdp 200") auto
  have "s_attr (apply_media_direction ex_sdp) = []" by code_simp
  with sdp_print_parse [OF wf t] t show ?thesis by blast
qed

end
