(* ===== verification/Sdp_Cmp.thy ===== *)
theory Sdp_Cmp
  imports Sdp
begin

text \<open>
  Comparison of session descriptions, \<^verbatim>\<open>pjmedia/src/pjmedia/sdp_cmp.c\<close>.
\<close>

section \<open>Definitions\<close>

definition compare_conn :: "sdp_conn \<Rightarrow> sdp_conn \<Rightarrow> pj_status" where
  "compare_conn c1 c2 =
     (if c_net_type c1 \<noteq> c_net_type c2 then PJMEDIA_SDP_ECONNNOTEQUAL
      else if c_addr_type c1 \<noteq> c_addr_type c2 then PJMEDIA_SDP_ECONNNOTEQUAL
      else if c_addr c1 \<noteq> c_addr c2 then PJMEDIA_SDP_ECONNNOTEQUAL
      else PJ_SUCCESS)"

text \<open>The loop body for one attribute: the status to return, or success to go on.\<close>

definition compare_fmtp :: "sdp_attr \<Rightarrow> sdp_attr list \<Rightarrow> pj_status" where
  "compare_fmtp a1 attr2 =
     (case pjmedia_sdp_attr_get_fmtp a1 of
        Inl _ \<Rightarrow> PJMEDIA_SDP_EFMTPNOTEQUAL
      | Inr fmtp1 \<Rightarrow>
          (case pjmedia_sdp_attr_find attr2 (at_name a1) (Some (fp_fmt fmtp1)) of
             None \<Rightarrow> PJMEDIA_SDP_EFMTPNOTEQUAL
           | Some i \<Rightarrow>
               (case pjmedia_sdp_attr_get_fmtp (attr2 ! i) of
                  Inl _ \<Rightarrow> PJMEDIA_SDP_EFMTPNOTEQUAL
                | Inr fmtp2 \<Rightarrow>
                    if fp_fmt_param fmtp1 \<noteq> fp_fmt_param fmtp2 then PJMEDIA_SDP_EFMTPNOTEQUAL
                    else PJ_SUCCESS)))"

definition compare_rtpmap :: "sdp_attr \<Rightarrow> sdp_attr list \<Rightarrow> pj_status scan" where
  "compare_rtpmap a1 attr2 =
     scan_bind (pjmedia_sdp_attr_get_rtpmap a1) (\<lambda>(status, rm).
       case rm of
         Some r1 \<Rightarrow>
           if status \<noteq> PJ_SUCCESS then Ok PJMEDIA_SDP_ERTPMAPNOTEQUAL
           else
             (case pjmedia_sdp_attr_find attr2 (at_name a1) (Some (rm_pt r1)) of
                None \<Rightarrow> Ok PJMEDIA_SDP_ERTPMAPNOTEQUAL
              | Some i \<Rightarrow>
                  scan_bind (pjmedia_sdp_attr_get_rtpmap (attr2 ! i)) (\<lambda>(status2, rm2).
                    case rm2 of
                      Some r2 \<Rightarrow>
                        Ok (if status2 \<noteq> PJ_SUCCESS \<or> rm_pt r1 \<noteq> rm_pt r2
                               \<or> rm_enc_name r1 \<noteq> rm_enc_name r2
                               \<or> rm_clock_rate r1 \<noteq> rm_clock_rate r2
                               \<or> rm_param r1 \<noteq> rm_param r2
                            then PJMEDIA_SDP_ERTPMAPNOTEQUAL else PJ_SUCCESS)
                    | None \<Rightarrow> Ok PJMEDIA_SDP_ERTPMAPNOTEQUAL))
       | None \<Rightarrow> Ok PJMEDIA_SDP_ERTPMAPNOTEQUAL)"

definition compare_one :: "sdp_attr \<Rightarrow> sdp_attr list \<Rightarrow> pj_status scan" where
  "compare_one a1 attr2 =
     (if at_name a1 = cstr ''inactive'' \<or> at_name a1 = cstr ''sendrecv'' \<or>
         at_name a1 = cstr ''sendonly'' \<or> at_name a1 = cstr ''recvonly'' then
        Ok (case pjmedia_sdp_attr_find attr2 (at_name a1) None of
              None \<Rightarrow> PJMEDIA_SDP_EDIRNOTEQUAL | Some _ \<Rightarrow> PJ_SUCCESS)
      else if at_name a1 = cstr ''fmtp'' then Ok (compare_fmtp a1 attr2)
      else if at_name a1 = cstr ''rtpmap'' then compare_rtpmap a1 attr2
      else Ok PJ_SUCCESS)"

fun compare_attr_imp :: "sdp_attr list \<Rightarrow> sdp_attr list \<Rightarrow> pj_status scan" where
  "compare_attr_imp [] attr2 = Ok PJ_SUCCESS"
| "compare_attr_imp (a1 # attr1) attr2 =
     scan_bind (compare_one a1 attr2) (\<lambda>status.
       if status \<noteq> PJ_SUCCESS then Ok status else compare_attr_imp attr1 attr2)"

definition compare_attr :: "sdp_attr list \<Rightarrow> sdp_attr list \<Rightarrow> pj_status scan" where
  "compare_attr attr1 attr2 =
     scan_bind (compare_attr_imp attr1 attr2) (\<lambda>status.
       if status \<noteq> PJ_SUCCESS then Ok status
       else
         scan_bind (compare_attr_imp attr2 attr1) (\<lambda>status.
           if status \<noteq> PJ_SUCCESS then Ok status else Ok PJ_SUCCESS))"

text \<open>
  The result of comparing the two connection lines is stored and then overwritten by that of the
  attributes.
\<close>

definition pjmedia_sdp_media_cmp :: "sdp_media \<Rightarrow> sdp_media \<Rightarrow> u32 \<Rightarrow> pj_status scan" where
  "pjmedia_sdp_media_cmp sd1 sd2 option =
     (if option \<noteq> 0 then Ok PJ_EINVAL
      else if m_media sd1 \<noteq> m_media sd2 then Ok PJMEDIA_SDP_EMEDIANOTEQUAL
      else if m_port sd1 \<noteq> m_port sd2 then Ok PJMEDIA_SDP_EPORTNOTEQUAL
      else if m_port_count sd1 \<noteq> m_port_count sd2 then Ok PJMEDIA_SDP_EPORTNOTEQUAL
      else if m_transport sd1 \<noteq> m_transport sd2 then Ok PJMEDIA_SDP_ETPORTNOTEQUAL
      else if m_port sd1 = 0 then Ok PJ_SUCCESS
      else if length (m_fmt sd1) \<noteq> length (m_fmt sd2) then Ok PJMEDIA_SDP_EFORMATNOTEQUAL
      else if list_ex (\<lambda>(f1, f2). f1 \<noteq> f2) (zip (m_fmt sd1) (m_fmt sd2))
      then Ok PJMEDIA_SDP_EFORMATNOTEQUAL
      else
        (case (m_conn sd1, m_conn sd2) of
           (Some _, None) \<Rightarrow> Ok PJMEDIA_SDP_EMEDIANOTEQUAL
         | (None, Some _) \<Rightarrow> Ok PJMEDIA_SDP_EMEDIANOTEQUAL
         | _ \<Rightarrow>
             scan_bind (compare_attr (m_attr sd1) (m_attr sd2)) (\<lambda>status.
               if status \<noteq> PJ_SUCCESS then Ok status else Ok PJ_SUCCESS)))"

fun compare_medias :: "sdp_media list \<Rightarrow> sdp_media list \<Rightarrow> pj_status scan" where
  "compare_medias (m1 # ms1) (m2 # ms2) =
     scan_bind (pjmedia_sdp_media_cmp m1 m2 0) (\<lambda>status.
       if status \<noteq> PJ_SUCCESS then Ok status else compare_medias ms1 ms2)"
| "compare_medias _ _ = Ok PJ_SUCCESS"

definition compare_origin :: "sdp_origin \<Rightarrow> sdp_origin \<Rightarrow> pj_status" where
  "compare_origin o1 o2 =
     (if or_user o1 \<noteq> or_user o2 then PJMEDIA_SDP_EORIGINNOTEQUAL
      else if or_id o1 \<noteq> or_id o2 then PJMEDIA_SDP_EORIGINNOTEQUAL
      else if or_version o1 \<noteq> or_version o2 then PJMEDIA_SDP_EORIGINNOTEQUAL
      else if or_net_type o1 \<noteq> or_net_type o2 then PJMEDIA_SDP_EORIGINNOTEQUAL
      else if or_addr_type o1 \<noteq> or_addr_type o2 then PJMEDIA_SDP_EORIGINNOTEQUAL
      else if or_addr o1 \<noteq> or_addr o2 then PJMEDIA_SDP_EORIGINNOTEQUAL
      else PJ_SUCCESS)"

definition pjmedia_sdp_session_cmp :: "sdp_session \<Rightarrow> sdp_session \<Rightarrow> u32 \<Rightarrow> pj_status scan" where
  "pjmedia_sdp_session_cmp sd1 sd2 option =
     (if option \<noteq> 0 then Ok PJ_EINVAL
      else if compare_origin (s_origin sd1) (s_origin sd2) \<noteq> PJ_SUCCESS
      then Ok (compare_origin (s_origin sd1) (s_origin sd2))
      else if s_name sd1 \<noteq> s_name sd2 then Ok PJMEDIA_SDP_ENAMENOTEQUAL
      else
        let conn_status =
              (case (s_conn sd1, s_conn sd2) of
                 (Some c1, Some c2) \<Rightarrow> compare_conn c1 c2
               | (None, None) \<Rightarrow> PJ_SUCCESS
               | _ \<Rightarrow> PJMEDIA_SDP_ECONNNOTEQUAL)
        in if conn_status \<noteq> PJ_SUCCESS then Ok conn_status
           else if s_start sd1 \<noteq> s_start sd2 then Ok PJMEDIA_SDP_ETIMENOTEQUAL
           else if s_stop sd1 \<noteq> s_stop sd2 then Ok PJMEDIA_SDP_ETIMENOTEQUAL
           else
             scan_bind (compare_attr (s_attr sd1) (s_attr sd2)) (\<lambda>status.
               if status \<noteq> PJ_SUCCESS then Ok status
               else if length (s_media sd1) \<noteq> length (s_media sd2) then Ok PJMEDIA_SDP_EMEDIANOTEQUAL
               else compare_medias (s_media sd1) (s_media sd2)))"

definition pjmedia_sdp_conn_cmp :: "sdp_conn \<Rightarrow> sdp_conn \<Rightarrow> u32 \<Rightarrow> pj_status" where
  "pjmedia_sdp_conn_cmp conn1 conn2 option = compare_conn conn1 conn2"

section \<open>Properties\<close>

text \<open>The loops agree exactly when every element does.\<close>

lemma compare_attr_imp_success:
  "compare_attr_imp attr1 attr2 = Ok PJ_SUCCESS \<longleftrightarrow> (\<forall>a\<in>set attr1. compare_one a attr2 = Ok PJ_SUCCESS)"
  by (induction attr1) (auto simp: scan_bind_Ok)

lemma compare_attr_success:
  "compare_attr attr1 attr2 = Ok PJ_SUCCESS \<longleftrightarrow>
     (\<forall>a\<in>set attr1. compare_one a attr2 = Ok PJ_SUCCESS) \<and> (\<forall>a\<in>set attr2. compare_one a attr1 = Ok PJ_SUCCESS)"
  by (auto simp: compare_attr_def scan_bind_Ok simp flip: compare_attr_imp_success)

lemma compare_conn_success [simp]: "compare_conn c1 c2 = PJ_SUCCESS \<longleftrightarrow> c1 = c2"
  by (cases c1; cases c2) (simp add: compare_conn_def)

lemma compare_origin_success [simp]: "compare_origin o1 o2 = PJ_SUCCESS \<longleftrightarrow> o1 = o2"
  by (cases o1; cases o2) (simp add: compare_origin_def)

lemma zip_differs: "length xs = length ys \<Longrightarrow> list_ex (\<lambda>(x, y). x \<noteq> y) (zip xs ys) \<longleftrightarrow> xs \<noteq> ys"
  by (induction xs ys rule: list_induct2) auto

text \<open>
  What it means for two descriptions to compare equal. An attribute is answered in a list when the first
  one for the same format there says the same: a direction is present, the parameters of a format and the
  codec of a payload type are equal. Other attributes count for nothing.
\<close>

definition attr_answered :: "sdp_attr list \<Rightarrow> sdp_attr \<Rightarrow> bool" where
  "attr_answered as a \<longleftrightarrow>
     (at_name a \<in> {cstr ''inactive'', cstr ''sendrecv'', cstr ''sendonly'', cstr ''recvonly''} \<longrightarrow>
        (\<exists>b\<in>set as. at_name b = at_name a)) \<and>
     (at_name a = cstr ''fmtp'' \<longrightarrow>
        (\<exists>f b g. pjmedia_sdp_attr_get_fmtp a = Inr f \<and> find (attr_matches (at_name a) (Some (fp_fmt f))) as = Some b \<and>
                 pjmedia_sdp_attr_get_fmtp b = Inr g \<and> fp_fmt_param f = fp_fmt_param g)) \<and>
     (at_name a = cstr ''rtpmap'' \<longrightarrow>
        (\<exists>r b. pjmedia_sdp_attr_get_rtpmap a = Ok (PJ_SUCCESS, Some r) \<and>
               find (attr_matches (at_name a) (Some (rm_pt r))) as = Some b \<and>
               pjmedia_sdp_attr_get_rtpmap b = Ok (PJ_SUCCESS, Some r)))"

definition attrs_alike :: "sdp_attr list \<Rightarrow> sdp_attr list \<Rightarrow> bool" where
  "attrs_alike as bs \<longleftrightarrow> list_all (attr_answered bs) as \<and> list_all (attr_answered as) bs"

definition media_alike :: "sdp_media \<Rightarrow> sdp_media \<Rightarrow> bool" where
  "media_alike m1 m2 \<longleftrightarrow>
     m_media m1 = m_media m2 \<and> m_port m1 = m_port m2 \<and> m_port_count m1 = m_port_count m2 \<and>
     m_transport m1 = m_transport m2 \<and>
     (m_port m1 = 0 \<or>
      m_fmt m1 = m_fmt m2 \<and> (m_conn m1 = None \<longleftrightarrow> m_conn m2 = None) \<and> attrs_alike (m_attr m1) (m_attr m2))"

definition session_alike :: "sdp_session \<Rightarrow> sdp_session \<Rightarrow> bool" where
  "session_alike s1 s2 \<longleftrightarrow>
     s_origin s1 = s_origin s2 \<and> s_name s1 = s_name s2 \<and> s_conn s1 = s_conn s2 \<and>
     s_start s1 = s_start s2 \<and> s_stop s1 = s_stop s2 \<and>
     attrs_alike (s_attr s1) (s_attr s2) \<and> list_all2 media_alike (s_media s1) (s_media s2)"

text \<open>The arrays of attributes of a description hold what they have room for.\<close>

definition attrs_fit :: "sdp_session \<Rightarrow> bool" where
  "attrs_fit s \<longleftrightarrow>
     length (s_attr s) \<le> PJMEDIA_MAX_SDP_ATTR \<and> list_all (\<lambda>m. length (m_attr m) \<le> PJMEDIA_MAX_SDP_ATTR) (s_media s)"

lemma attr_scan_find: "map_option (\<lambda>i. as ! i) (attr_scan P as) = find P as"
  by (induction as) (auto simp: option.map_comp comp_def)

lemma attr_find_find:
  "length as \<le> PJMEDIA_MAX_SDP_ATTR \<Longrightarrow>
   find (attr_matches name fmt) as = map_option (\<lambda>i. as ! i) (pjmedia_sdp_attr_find as name fmt)"
  by (simp add: pjmedia_sdp_attr_find_def attr_scan_find)

lemma attr_find_name:
  assumes "length as \<le> PJMEDIA_MAX_SDP_ATTR"
  shows "pjmedia_sdp_attr_find as name None = None \<longleftrightarrow> \<not> (\<exists>b\<in>set as. at_name b = name)"
proof -
  have "pjmedia_sdp_attr_find as name None = None \<longleftrightarrow> find (attr_matches name None) as = None"
    by (simp add: attr_find_find [OF assms])
  then show ?thesis by (auto simp: find_None_iff attr_matches_def)
qed

lemma compare_fmtp_success:
  assumes "length as \<le> PJMEDIA_MAX_SDP_ATTR"
  shows "compare_fmtp a as = PJ_SUCCESS \<longleftrightarrow>
     (\<exists>f b g. pjmedia_sdp_attr_get_fmtp a = Inr f \<and> find (attr_matches (at_name a) (Some (fp_fmt f))) as = Some b \<and>
              pjmedia_sdp_attr_get_fmtp b = Inr g \<and> fp_fmt_param f = fp_fmt_param g)"
proof (cases "pjmedia_sdp_attr_get_fmtp a")
  case f: (Inr f)
  show ?thesis
  proof (cases "pjmedia_sdp_attr_find as (at_name a) (Some (fp_fmt f))")
    case (Some i)
    with f show ?thesis
      by (cases "pjmedia_sdp_attr_get_fmtp (as ! i)") (simp_all add: compare_fmtp_def attr_find_find [OF assms])
  qed (simp add: compare_fmtp_def f attr_find_find [OF assms])
qed (simp add: compare_fmtp_def)

lemma compare_rtpmap_success:
  assumes "length as \<le> PJMEDIA_MAX_SDP_ATTR"
  shows "compare_rtpmap a as = Ok PJ_SUCCESS \<longleftrightarrow>
     (\<exists>r b. pjmedia_sdp_attr_get_rtpmap a = Ok (PJ_SUCCESS, Some r) \<and>
            find (attr_matches (at_name a) (Some (rm_pt r))) as = Some b \<and>
            pjmedia_sdp_attr_get_rtpmap b = Ok (PJ_SUCCESS, Some r))"
proof (cases "\<exists>r. pjmedia_sdp_attr_get_rtpmap a = Ok (PJ_SUCCESS, Some r)")
  case True
  then obtain r where r: "pjmedia_sdp_attr_get_rtpmap a = Ok (PJ_SUCCESS, Some r)" by blast
  have eq: "r = r2 \<longleftrightarrow> rm_pt r = rm_pt r2 \<and> rm_enc_name r = rm_enc_name r2 \<and> rm_clock_rate r = rm_clock_rate r2 \<and>
      rm_param r = rm_param r2" for r2
    by (cases r; cases r2) simp
  show ?thesis
  proof (cases "pjmedia_sdp_attr_find as (at_name a) (Some (rm_pt r))")
    case None
    with r show ?thesis by (simp add: compare_rtpmap_def attr_find_find [OF assms])
  next
    case (Some i)
    with r have "compare_rtpmap a as = Ok PJ_SUCCESS \<longleftrightarrow> pjmedia_sdp_attr_get_rtpmap (as ! i) = Ok (PJ_SUCCESS, Some r)"
      by (cases "pjmedia_sdp_attr_get_rtpmap (as ! i)") (auto simp: compare_rtpmap_def eq split: option.splits if_splits)
    with r Some show ?thesis by (simp add: attr_find_find [OF assms])
  qed
next
  case False
  then have "compare_rtpmap a as \<noteq> Ok PJ_SUCCESS"
    by (cases "pjmedia_sdp_attr_get_rtpmap a") (auto simp: compare_rtpmap_def split: option.splits)
  with False show ?thesis by blast
qed

lemma compare_one_success:
  assumes "length as \<le> PJMEDIA_MAX_SDP_ATTR"
  shows "compare_one a as = Ok PJ_SUCCESS \<longleftrightarrow> attr_answered as a"
proof -
  have distinct: "cstr ''fmtp'' \<notin> {cstr ''inactive'', cstr ''sendrecv'', cstr ''sendonly'', cstr ''recvonly'', cstr ''rtpmap''}"
    "cstr ''rtpmap'' \<notin> {cstr ''inactive'', cstr ''sendrecv'', cstr ''sendonly'', cstr ''recvonly''}"
    by code_simp+
  have dir: "(case pjmedia_sdp_attr_find as n None of None \<Rightarrow> PJMEDIA_SDP_EDIRNOTEQUAL | Some _ \<Rightarrow> PJ_SUCCESS) = PJ_SUCCESS \<longleftrightarrow>
      (\<exists>b\<in>set as. at_name b = n)" for n
    by (cases "pjmedia_sdp_attr_find as n None") (use attr_find_name [OF assms, of n] in auto)
  show ?thesis
    using distinct unfolding compare_one_def attr_answered_def
    by (auto simp: dir compare_fmtp_success [OF assms] compare_rtpmap_success [OF assms])
qed

lemma compare_attr_alike:
  "length as \<le> PJMEDIA_MAX_SDP_ATTR \<Longrightarrow> length bs \<le> PJMEDIA_MAX_SDP_ATTR \<Longrightarrow>
   compare_attr as bs = Ok PJ_SUCCESS \<longleftrightarrow> attrs_alike as bs"
  by (simp add: compare_attr_success compare_one_success attrs_alike_def list_all_iff)

lemma media_cmp_success:
  assumes "length (m_attr m1) \<le> PJMEDIA_MAX_SDP_ATTR" "length (m_attr m2) \<le> PJMEDIA_MAX_SDP_ATTR"
  shows "pjmedia_sdp_media_cmp m1 m2 0 = Ok PJ_SUCCESS \<longleftrightarrow> media_alike m1 m2"
proof (cases "length (m_fmt m1) = length (m_fmt m2)")
  case True
  show ?thesis
    unfolding pjmedia_sdp_media_cmp_def media_alike_def zip_differs [OF True]
    by (auto simp: scan_bind_Ok compare_attr_alike [OF assms] split: option.splits)
qed (auto simp: pjmedia_sdp_media_cmp_def media_alike_def)

lemma compare_medias_success:
  "length ms1 = length ms2 \<Longrightarrow>
   list_all (\<lambda>m. length (m_attr m) \<le> PJMEDIA_MAX_SDP_ATTR) ms1 \<Longrightarrow> list_all (\<lambda>m. length (m_attr m) \<le> PJMEDIA_MAX_SDP_ATTR) ms2 \<Longrightarrow>
   compare_medias ms1 ms2 = Ok PJ_SUCCESS \<longleftrightarrow> list_all2 media_alike ms1 ms2"
  by (induction ms1 ms2 rule: list_induct2) (auto simp: scan_bind_Ok media_cmp_success)

lemma media_alike_sym: "media_alike m1 m2 \<longleftrightarrow> media_alike m2 m1"
  by (auto simp: media_alike_def attrs_alike_def)

lemma session_alike_sym: "session_alike s1 s2 \<longleftrightarrow> session_alike s2 s1"
proof -
  have "list_all2 media_alike (s_media s1) (s_media s2) \<longleftrightarrow> list_all2 media_alike (s_media s2) (s_media s1)"
    by (auto simp: list_all2_conv_all_nth media_alike_sym)
  then show ?thesis by (auto simp: session_alike_def attrs_alike_def)
qed

lemma session_cmp_success:
  assumes "attrs_fit s1" "attrs_fit s2"
  shows "pjmedia_sdp_session_cmp s1 s2 0 = Ok PJ_SUCCESS \<longleftrightarrow> session_alike s1 s2"
proof -
  have conn: "(case (s_conn s1, s_conn s2) of (Some c1, Some c2) \<Rightarrow> compare_conn c1 c2
               | (None, None) \<Rightarrow> PJ_SUCCESS | _ \<Rightarrow> PJMEDIA_SDP_ECONNNOTEQUAL) = PJ_SUCCESS \<longleftrightarrow> s_conn s1 = s_conn s2"
    by (cases "s_conn s1"; cases "s_conn s2") auto
  show ?thesis
    using assms conn compare_medias_success [of "s_media s1" "s_media s2"] compare_attr_alike [of "s_attr s1" "s_attr s2"]
    by (auto simp: pjmedia_sdp_session_cmp_def session_alike_def attrs_fit_def Let_def scan_bind_Ok
        dest: list_all2_lengthD)
qed

text \<open>
  C20: Two session descriptions compare equal exactly when their origins, names, connections, times and
  directions, formats and codec attributes agree, line by line; of a disabled media line only the
  type, the ports and the transport count, and of the connection of a media line only its presence.
  The comparison is symmetric.
\<close>

theorem sdp_session_cmp_alike:
  assumes "attrs_fit s1" "attrs_fit s2"
  shows "(pjmedia_sdp_session_cmp s1 s2 0 = Ok PJ_SUCCESS \<longleftrightarrow> session_alike s1 s2) \<and>
         (pjmedia_sdp_session_cmp s1 s2 0 = Ok PJ_SUCCESS \<longleftrightarrow> pjmedia_sdp_session_cmp s2 s1 0 = Ok PJ_SUCCESS)"
  using session_cmp_success [OF assms] session_cmp_success [OF assms(2,1)] session_alike_sym by simp

definition cmp_sample :: "bytes \<Rightarrow> sdp_session" where
  "cmp_sample codec =
     \<lparr>s_origin = \<lparr>or_user = cstr ''-'', or_id = 1, or_version = 1, or_net_type = cstr ''IN'', or_addr_type = cstr ''IP4'',
                 or_addr = cstr ''10.0.0.1''\<rparr>,
      s_name = cstr ''call'', s_conn = None, s_bandw = [], s_start = 0, s_stop = 0, s_attr = [],
      s_media = [\<lparr>m_media = cstr ''audio'', m_port = 4000, m_port_count = 1, m_transport = cstr ''RTP/AVP'',
                  m_fmt = [cstr ''0''], m_conn = None, m_bandw = [],
                  m_attr = [\<lparr>at_name = cstr ''rtpmap'', at_value = codec\<rparr>, \<lparr>at_name = cstr ''sendrecv'', at_value = []\<rparr>]\<rparr>]\<rparr>"

theorem sdp_session_cmp_alike_witness:
  "session_alike (cmp_sample (cstr ''0 PCMU/8000'')) (cmp_sample (cstr ''0 PCMU/8000'')) \<and>
   \<not> session_alike (cmp_sample (cstr ''0 PCMU/8000'')) (cmp_sample (cstr ''0 PCMA/8000''))"
proof -
  let ?u = "cmp_sample (cstr ''0 PCMU/8000'')" and ?a = "cmp_sample (cstr ''0 PCMA/8000'')"
  have fit: "attrs_fit ?u" "attrs_fit ?a" by code_simp+
  have "pjmedia_sdp_session_cmp ?u ?u 0 = Ok PJ_SUCCESS" "pjmedia_sdp_session_cmp ?u ?a 0 \<noteq> Ok PJ_SUCCESS" by code_simp+
  then show ?thesis
    using sdp_session_cmp_alike [OF fit(1) fit(1)] sdp_session_cmp_alike [OF fit] by simp
qed

text \<open>The address a media line is sent to may differ.\<close>

lemma sdp_media_cmp_ignores_address:
  "m_conn m = Some c \<Longrightarrow> pjmedia_sdp_media_cmp m (m\<lparr>m_conn := Some c'\<rparr>) 0 = pjmedia_sdp_media_cmp m m 0"
  by (simp add: pjmedia_sdp_media_cmp_def)

end
