(* ===== verification/Packet.thy ===== *)
theory Packet
  imports Pj_String
begin

text \<open>
  Reading received packets, for the parsers of DNS and STUN messages. A parser works on the memory a
  packet was received into, a list of octets, with offsets as pointers. It returns a value, or an
  error code, or it has left the memory.
\<close>

datatype 'a pkt_res = Parsed 'a | Refused pj_status | Outside

fun pkt_bind :: "'a pkt_res \<Rightarrow> ('a \<Rightarrow> 'b pkt_res) \<Rightarrow> 'b pkt_res" where
  "pkt_bind (Parsed x) f = f x"
| "pkt_bind (Refused status) f = Refused status"
| "pkt_bind Outside f = Outside"

text \<open>One octet, and \<^verbatim>\<open>pj_memcpy\<close> of several.\<close>

definition octet :: "bytes \<Rightarrow> nat \<Rightarrow> u8 pkt_res" where
  "octet mem p = (if p < length mem then Parsed (mem ! p) else Outside)"

definition octets :: "bytes \<Rightarrow> nat \<Rightarrow> nat \<Rightarrow> bytes pkt_res" where
  "octets mem p n = (if p + n \<le> length mem then Parsed (take n (drop p mem)) else Outside)"

text \<open>Values in network byte order.\<close>

definition be16 :: "bytes \<Rightarrow> u16" where
  "be16 b = push_bit 8 (ucast (b ! 0)) OR ucast (b ! 1)"

definition be32 :: "bytes \<Rightarrow> u32" where
  "be32 b = push_bit 24 (ucast (b ! 0)) OR push_bit 16 (ucast (b ! 1)) OR push_bit 8 (ucast (b ! 2)) OR ucast (b ! 3)"

definition get16 :: "bytes \<Rightarrow> nat \<Rightarrow> u16 pkt_res" where
  "get16 mem p = pkt_bind (octets mem p 2) (\<lambda>b. Parsed (be16 b))"

definition get32 :: "bytes \<Rightarrow> nat \<Rightarrow> u32 pkt_res" where
  "get32 mem p = pkt_bind (octets mem p 4) (\<lambda>b. Parsed (be32 b))"

definition put16 :: "u16 \<Rightarrow> bytes" where
  "put16 v = [ucast (drop_bit 8 v), ucast v]"

definition put32 :: "u32 \<Rightarrow> bytes" where
  "put32 v = [ucast (drop_bit 24 v), ucast (drop_bit 16 v), ucast (drop_bit 8 v), ucast v]"

section \<open>Facts\<close>

lemma pkt_bind_Parsed: "pkt_bind r f = Parsed y \<longleftrightarrow> (\<exists>x. r = Parsed x \<and> f x = Parsed y)"
  by (cases r) auto

lemma pkt_bind_Outside: "pkt_bind r f = Outside \<longleftrightarrow> r = Outside \<or> (\<exists>x. r = Parsed x \<and> f x = Outside)"
  by (cases r) auto

lemma pkt_bind_cong [fundef_cong]:
  "r = r' \<Longrightarrow> (\<And>x. r' = Parsed x \<Longrightarrow> f x = f' x) \<Longrightarrow> pkt_bind r f = pkt_bind r' f'"
  by (cases r') auto

lemma octet_Parsed: "octet mem p = Parsed c \<longleftrightarrow> p < length mem \<and> c = mem ! p"
  by (auto simp: octet_def)

lemma octets_Parsed: "octets mem p n = Parsed b \<longleftrightarrow> p + n \<le> length mem \<and> b = take n (drop p mem)"
  by (auto simp: octets_def)

lemma read_Outside [simp]:
  "octet mem p = Outside \<longleftrightarrow> length mem \<le> p"
  "octets mem p n = Outside \<longleftrightarrow> length mem < p + n"
  "get16 mem p = Outside \<longleftrightarrow> length mem < p + 2"
  "get32 mem p = Outside \<longleftrightarrow> length mem < p + 4"
  by (auto simp: octet_def octets_def get16_def get32_def)

lemma read_not_Refused [simp]:
  "octet mem p \<noteq> Refused e" "octets mem p n \<noteq> Refused e" "get16 mem p \<noteq> Refused e" "get32 mem p \<noteq> Refused e"
  by (auto simp: octet_def octets_def get16_def get32_def)

lemma length_put [simp]: "length (put16 v) = 2" "length (put32 w) = 4"
  by (simp_all add: put16_def put32_def)

lemma be16_put16 [simp]: "be16 (put16 v) = v"
proof (rule bit_word_eqI)
  fix n assume "n < LENGTH(16)"
  then show "bit (be16 (put16 v)) n = bit v n"
    by (cases "n < 8") (auto simp: be16_def put16_def bit_simps)
qed

lemma be32_put32 [simp]: "be32 (put32 v) = v"
proof (rule bit_word_eqI)
  fix n assume n: "n < LENGTH(32)"
  consider "n < 8" | "8 \<le> n" "n < 16" | "16 \<le> n" "n < 24" | "24 \<le> n" "n < 32"
    using n by fastforce
  then show "bit (be32 (put32 v)) n = bit v n"
    by cases (auto simp: be32_def put32_def bit_simps)
qed

lemma take_drop_mid: "p = length xs \<Longrightarrow> n = length ys \<Longrightarrow> take n (drop p (xs @ ys @ zs)) = ys"
  by simp

lemma octet_at: "mem = xs @ c # zs \<Longrightarrow> p = length xs \<Longrightarrow> octet mem p = Parsed c"
  by (simp add: octet_def)

lemma octets_at: "mem = xs @ ys @ zs \<Longrightarrow> p = length xs \<Longrightarrow> n = length ys \<Longrightarrow> octets mem p n = Parsed ys"
  by (simp add: octets_def)

lemma get16_at: "mem = xs @ put16 v @ zs \<Longrightarrow> p = length xs \<Longrightarrow> get16 mem p = Parsed v"
  by (simp add: get16_def octets_at [of _ xs "put16 v" zs])

lemma get32_at: "mem = xs @ put32 v @ zs \<Longrightarrow> p = length xs \<Longrightarrow> get32 mem p = Parsed v"
  by (simp add: get32_def octets_at [of _ xs "put32 v" zs])

end
