(* ===== verification/Dns.thy ===== *)
theory Dns
  imports Packet
begin

text \<open>
  DNS messages, \<^verbatim>\<open>pjlib-util/src/pjlib-util/dns.c\<close>: making queries, parsing packets with compressed
  names, and copying parsed packets. A packet occupies the first \<^verbatim>\<open>size\<close> octets of the memory it was
  received into; \<^verbatim>\<open>pkt\<close> is the offset 0 and \<^verbatim>\<open>max\<close> the offset \<^verbatim>\<open>size\<close>.
\<close>

section \<open>Types\<close>

definition PJ_DNS_CLASS_IN :: u16 where "PJ_DNS_CLASS_IN = 1"

definition PJ_DNS_TYPE_A :: u16 where "PJ_DNS_TYPE_A = 1"
definition PJ_DNS_TYPE_NS :: u16 where "PJ_DNS_TYPE_NS = 2"
definition PJ_DNS_TYPE_CNAME :: u16 where "PJ_DNS_TYPE_CNAME = 5"
definition PJ_DNS_TYPE_PTR :: u16 where "PJ_DNS_TYPE_PTR = 12"
definition PJ_DNS_TYPE_MX :: u16 where "PJ_DNS_TYPE_MX = 15"
definition PJ_DNS_TYPE_TXT :: u16 where "PJ_DNS_TYPE_TXT = 16"
definition PJ_DNS_TYPE_AAAA :: u16 where "PJ_DNS_TYPE_AAAA = 28"
definition PJ_DNS_TYPE_SRV :: u16 where "PJ_DNS_TYPE_SRV = 33"
definition PJ_DNS_TYPE_NAPTR :: u16 where "PJ_DNS_TYPE_NAPTR = 35"

lemmas dns_types = PJ_DNS_TYPE_A_def PJ_DNS_TYPE_NS_def PJ_DNS_TYPE_CNAME_def PJ_DNS_TYPE_PTR_def
  PJ_DNS_TYPE_MX_def PJ_DNS_TYPE_TXT_def PJ_DNS_TYPE_AAAA_def PJ_DNS_TYPE_SRV_def PJ_DNS_TYPE_NAPTR_def

definition pj_dns_get_type_name :: "u16 \<Rightarrow> string" where
  "pj_dns_get_type_name t =
     (if t = PJ_DNS_TYPE_A then ''A'' else if t = PJ_DNS_TYPE_AAAA then ''AAAA''
      else if t = PJ_DNS_TYPE_SRV then ''SRV'' else if t = PJ_DNS_TYPE_NS then ''NS''
      else if t = PJ_DNS_TYPE_CNAME then ''CNAME'' else if t = PJ_DNS_TYPE_PTR then ''PTR''
      else if t = PJ_DNS_TYPE_MX then ''MX'' else if t = PJ_DNS_TYPE_TXT then ''TXT''
      else if t = PJ_DNS_TYPE_NAPTR then ''NAPTR'' else ''(Unknown)'')"

record dns_hdr =
  dh_id :: u16
  dh_flags :: u16
  dh_qdcount :: u16
  dh_anscount :: u16
  dh_nscount :: u16
  dh_arcount :: u16

definition PJ_DNS_SET_RCODE :: "u16 \<Rightarrow> u16" where "PJ_DNS_SET_RCODE c = c AND 0x0F"
definition PJ_DNS_SET_RA :: "u16 \<Rightarrow> u16" where "PJ_DNS_SET_RA on = push_bit 7 on"
definition PJ_DNS_SET_RD :: "u16 \<Rightarrow> u16" where "PJ_DNS_SET_RD on = push_bit 8 on"
definition PJ_DNS_SET_TC :: "u16 \<Rightarrow> u16" where "PJ_DNS_SET_TC on = push_bit 9 on"
definition PJ_DNS_SET_AA :: "u16 \<Rightarrow> u16" where "PJ_DNS_SET_AA on = push_bit 10 on"
definition PJ_DNS_SET_OPCODE :: "u16 \<Rightarrow> u16" where "PJ_DNS_SET_OPCODE c = push_bit 11 c"
definition PJ_DNS_SET_QR :: "u16 \<Rightarrow> u16" where "PJ_DNS_SET_QR on = push_bit 15 on"

definition PJ_DNS_GET_RCODE :: "u16 \<Rightarrow> u16" where "PJ_DNS_GET_RCODE v = v AND PJ_DNS_SET_RCODE 0x0F"
definition PJ_DNS_GET_RA :: "u16 \<Rightarrow> u16" where "PJ_DNS_GET_RA v = drop_bit 7 (v AND PJ_DNS_SET_RA 1)"
definition PJ_DNS_GET_RD :: "u16 \<Rightarrow> u16" where "PJ_DNS_GET_RD v = drop_bit 8 (v AND PJ_DNS_SET_RD 1)"
definition PJ_DNS_GET_TC :: "u16 \<Rightarrow> u16" where "PJ_DNS_GET_TC v = drop_bit 9 (v AND PJ_DNS_SET_TC 1)"
definition PJ_DNS_GET_AA :: "u16 \<Rightarrow> u16" where "PJ_DNS_GET_AA v = drop_bit 10 (v AND PJ_DNS_SET_AA 1)"
definition PJ_DNS_GET_OPCODE :: "u16 \<Rightarrow> u16" where "PJ_DNS_GET_OPCODE v = drop_bit 11 (v AND PJ_DNS_SET_OPCODE 0x0F)"
definition PJ_DNS_GET_QR :: "u16 \<Rightarrow> u16" where "PJ_DNS_GET_QR v = drop_bit 15 (v AND PJ_DNS_SET_QR 1)"

record dns_query =
  dq_name :: bytes
  dq_type :: u16
  dq_dnsclass :: u16

text \<open>
  The union \<^verbatim>\<open>rdata\<close>, all zero at first. The members \<^verbatim>\<open>cname\<close>, \<^verbatim>\<open>ns\<close> and \<^verbatim>\<open>ptr\<close> have the same layout; the
  addresses are kept in network byte order.
\<close>

datatype rdata =
    Rdata_Zero
  | Rdata_Srv (srv_prio: u16) (srv_weight: u16) (srv_port: u16) (srv_target: bytes)
  | Rdata_Name bytes
  | Rdata_A bytes
  | Rdata_AAAA bytes

record dns_rr =
  rr_name :: bytes
  rr_type :: u16
  rr_dnsclass :: u16
  rr_ttl :: u32
  rr_rdlength :: u16
  rr_data :: "bytes option"
  rr_rdata :: rdata

record dns_packet =
  dp_hdr :: dns_hdr
  dp_q :: "dns_query list"
  dp_ans :: "dns_rr list"
  dp_ns :: "dns_rr list"
  dp_arr :: "dns_rr list"

section \<open>Making a query\<close>

text \<open>The loop over the labels of a name. The length of a label is cut to an octet.\<close>

function name_labels :: "bytes \<Rightarrow> bytes" where
  "name_labels name =
     (if name = [] then []
      else
        let label = takeWhile (\<lambda>c. c \<noteq> 46) name; rest = dropWhile (\<lambda>c. c \<noteq> 46) name
        in of_nat (length label) # label @ name_labels (drop 1 rest))"
  by pat_completeness auto
termination
proof (relation "measure length")
  fix name label rest :: bytes
  assume "name \<noteq> []" "rest = dropWhile (\<lambda>c. c \<noteq> 46) name"
  then show "(drop 1 rest, name) \<in> measure length"
    using length_dropWhile_le [of "\<lambda>c. c \<noteq> 46" name] by (cases name) auto
qed simp

declare name_labels.simps [simp del]

text \<open>
  \<^verbatim>\<open>pj_dns_make_query\<close> with a buffer of \<open>pktsize\<close> octets; \<open>Outside\<close> when it writes behind the end of it.
\<close>

definition pj_dns_make_query :: "nat \<Rightarrow> u16 \<Rightarrow> int \<Rightarrow> bytes \<Rightarrow> bytes pkt_res" where
  "pj_dns_make_query pktsize tid qtype name =
     (let d = 12 + length name + 4
      in if qtype = 0 then Refused PJ_EINVAL
         else if pktsize < d then Refused PJLIB_UTIL_EDNSQRYTOOSMALL
         else
           let packet = put16 tid @ put16 (PJ_DNS_SET_RD 1) @ put16 1 @ replicate 6 0
                        @ name_labels name @ [0] @ put16 (word_of_int qtype) @ put16 1
           in if length packet \<le> pktsize then Parsed packet else Outside)"

section \<open>Parsing\<close>

text \<open>
  The length of the name at \<open>p\<close> within the packet and when written out. A loop over the labels of the
  name; a compression pointer calls the function again. The check of the length of a label compares
  it with the size of the packet.
\<close>

function get_name_len :: "nat \<Rightarrow> bytes \<Rightarrow> nat \<Rightarrow> nat \<Rightarrow> (nat \<times> nat) pkt_res" where
  "get_name_len rec_counter mem p pktsize =
     (if rec_counter > 10 then Refused PJLIB_UTIL_EDNSINNAMEPTR
      else if length mem \<le> p then Outside
      else if mem ! p = 0 then Parsed (1, 0)
      else if mem ! p AND 0xc0 = 0xc0 then
        (case get16 mem p of
           Parsed w \<Rightarrow>
             let offset = unat (w XOR 0xc000)
             in if offset \<ge> pktsize then Refused PJLIB_UTIL_EDNSINNAMEPTR
                else
                  (case get_name_len (rec_counter + 1) mem offset pktsize of
                     Parsed (_, ptr_len) \<Rightarrow> Parsed (2, ptr_len)
                   | r \<Rightarrow> r)
         | Refused status \<Rightarrow> Refused status
         | Outside \<Rightarrow> Outside)
      else
        let label_len = unat (mem ! p); p' = p + label_len + 1
        in if label_len > pktsize then Refused PJLIB_UTIL_EDNSINNAMEPTR
           else if length mem \<le> p' then Outside
           else if p' \<ge> pktsize then Refused PJLIB_UTIL_EDNSINSIZE
           else
             (case get_name_len rec_counter mem p' pktsize of
                Parsed (parsed_len, name_len) \<Rightarrow>
                  Parsed (label_len + 1 + parsed_len,
                          label_len + (if mem ! p' \<noteq> 0 then 1 else 0) + name_len)
              | r \<Rightarrow> r))"
  by pat_completeness auto
termination
  by (relation "measures [\<lambda>(rec_counter, mem, p, pktsize). 11 - rec_counter, \<lambda>(rec_counter, mem, p, pktsize). length mem - p]") auto

text \<open>The octets a name is written out to, in the same way.\<close>

function get_name :: "nat \<Rightarrow> bytes \<Rightarrow> nat \<Rightarrow> nat \<Rightarrow> bytes pkt_res" where
  "get_name rec_counter mem p pktsize =
     (if rec_counter > 10 then Refused PJLIB_UTIL_EDNSINNAMEPTR
      else if length mem \<le> p then Outside
      else if mem ! p = 0 then Parsed []
      else if mem ! p AND 0xc0 = 0xc0 then
        (case get16 mem p of
           Parsed w \<Rightarrow>
             let offset = unat (w XOR 0xc000)
             in if offset \<ge> pktsize then Refused PJLIB_UTIL_EDNSINNAMEPTR
                else get_name (rec_counter + 1) mem offset pktsize
         | Refused status \<Rightarrow> Refused status
         | Outside \<Rightarrow> Outside)
      else
        let label_len = unat (mem ! p); p' = p + label_len + 1
        in if label_len > pktsize then Refused PJLIB_UTIL_EDNSINNAMEPTR
           else
             (case octets mem (p + 1) label_len of
                Parsed label \<Rightarrow>
                  if length mem \<le> p' then Outside
                  else if p' \<ge> pktsize then Refused PJLIB_UTIL_EDNSINSIZE
                  else
                    (case get_name rec_counter mem p' pktsize of
                       Parsed name \<Rightarrow> Parsed (label @ (if mem ! p' \<noteq> 0 then [46] else []) @ name)
                     | r \<Rightarrow> r)
              | Refused status \<Rightarrow> Refused status
              | Outside \<Rightarrow> Outside))"
  by pat_completeness auto
termination
  by (relation "measures [\<lambda>(rec_counter, mem, p, pktsize). 11 - rec_counter, \<lambda>(rec_counter, mem, p, pktsize). length mem - p]") auto

declare get_name_len.simps [simp del] get_name.simps [simp del]

text \<open>A name read into a buffer that was allocated for its length.\<close>

definition name_at :: "bytes \<Rightarrow> nat \<Rightarrow> nat \<Rightarrow> (bytes \<times> nat) pkt_res" where
  "name_at mem p pktsize =
     pkt_bind (get_name_len 0 mem p pktsize) (\<lambda>(name_part_len, name_len).
     pkt_bind (get_name 0 mem p pktsize) (\<lambda>name. Parsed (name, name_part_len)))"

definition parse_query :: "bytes \<Rightarrow> nat \<Rightarrow> nat \<Rightarrow> (dns_query \<times> nat) pkt_res" where
  "parse_query mem pktsize start =
     pkt_bind (name_at mem start pktsize) (\<lambda>(name, name_part_len).
     pkt_bind (get16 mem (start + name_part_len)) (\<lambda>type.
     pkt_bind (get16 mem (start + name_part_len + 2)) (\<lambda>dnsclass.
       Parsed (\<lparr>dq_name = name, dq_type = type, dq_dnsclass = dnsclass\<rparr>, name_part_len + 4))))"

text \<open>The types whose class has to be IN.\<close>

definition known_type :: "u16 \<Rightarrow> bool" where
  "known_type type \<longleftrightarrow>
     type = PJ_DNS_TYPE_A \<or> type = PJ_DNS_TYPE_AAAA \<or> type = PJ_DNS_TYPE_CNAME \<or>
     type = PJ_DNS_TYPE_NS \<or> type = PJ_DNS_TYPE_PTR \<or> type = PJ_DNS_TYPE_SRV"

text \<open>The resource data at \<open>p\<close>: the raw data, the parsed data and the number of octets read.\<close>

definition parse_rdata :: "bytes \<Rightarrow> nat \<Rightarrow> u16 \<Rightarrow> u16 \<Rightarrow> nat \<Rightarrow> (bytes option \<times> rdata \<times> nat) pkt_res" where
  "parse_rdata mem pktsize type rdlength p =
     (if type = PJ_DNS_TYPE_A then
        pkt_bind (octets mem p 4) (\<lambda>ip_addr. Parsed (None, Rdata_A ip_addr, 4))
      else if type = PJ_DNS_TYPE_AAAA then
        pkt_bind (octets mem p 16) (\<lambda>ip_addr. Parsed (None, Rdata_AAAA ip_addr, 16))
      else if type = PJ_DNS_TYPE_CNAME \<or> type = PJ_DNS_TYPE_NS \<or> type = PJ_DNS_TYPE_PTR then
        pkt_bind (name_at mem p pktsize) (\<lambda>(name, name_part_len).
          Parsed (None, Rdata_Name name, name_part_len))
      else if type = PJ_DNS_TYPE_SRV then
        pkt_bind (get16 mem p) (\<lambda>prio.
        pkt_bind (get16 mem (p + 2)) (\<lambda>weight.
        pkt_bind (get16 mem (p + 4)) (\<lambda>port.
        pkt_bind (name_at mem (p + 6) pktsize) (\<lambda>(target, name_part_len).
          Parsed (None, Rdata_Srv prio weight port target, 6 + name_part_len)))))
      else
        pkt_bind (octets mem p (unat rdlength)) (\<lambda>data. Parsed (Some data, Rdata_Zero, unat rdlength)))"

definition parse_rr :: "bytes \<Rightarrow> nat \<Rightarrow> nat \<Rightarrow> (dns_rr \<times> nat) pkt_res" where
  "parse_rr mem pktsize start =
     pkt_bind (name_at mem start pktsize) (\<lambda>(name, name_part_len).
     let p = start + name_part_len
     in if p + 10 > pktsize then Refused PJLIB_UTIL_EDNSINSIZE
        else
          pkt_bind (get16 mem p) (\<lambda>type.
          pkt_bind (get16 mem (p + 2)) (\<lambda>dnsclass.
          if dnsclass \<noteq> 1 \<and> known_type type then Refused PJLIB_UTIL_EDNSINCLASS
          else
            pkt_bind (get32 mem (p + 4)) (\<lambda>ttl.
            pkt_bind (get16 mem (p + 8)) (\<lambda>rdlength.
            if p + 10 + unat rdlength > pktsize then Refused PJLIB_UTIL_EDNSINSIZE
            else
              pkt_bind (parse_rdata mem pktsize type rdlength (p + 10)) (\<lambda>(data, rdata, len).
                Parsed (\<lparr>rr_name = name, rr_type = type, rr_dnsclass = dnsclass, rr_ttl = ttl,
                         rr_rdlength = rdlength, rr_data = data, rr_rdata = rdata\<rparr>,
                        name_part_len + 10 + len)))))))"

text \<open>The loop over the records of a section; the result is where the next section starts.\<close>

fun parse_section :: "(nat \<Rightarrow> ('a \<times> nat) pkt_res) \<Rightarrow> nat \<Rightarrow> nat \<Rightarrow> ('a list \<times> nat) pkt_res" where
  "parse_section parse 0 start = Parsed ([], start)"
| "parse_section parse (Suc n) start =
     pkt_bind (parse start) (\<lambda>(x, parsed_len).
     pkt_bind (parse_section parse n (start + parsed_len)) (\<lambda>(xs, next_start).
       Parsed (x # xs, next_start)))"

definition parse_hdr :: "bytes \<Rightarrow> dns_hdr pkt_res" where
  "parse_hdr mem =
     pkt_bind (get16 mem 0) (\<lambda>tid.
     pkt_bind (get16 mem 2) (\<lambda>flags.
     pkt_bind (get16 mem 4) (\<lambda>qdcount.
     pkt_bind (get16 mem 6) (\<lambda>anscount.
     pkt_bind (get16 mem 8) (\<lambda>nscount.
     pkt_bind (get16 mem 10) (\<lambda>arcount.
       Parsed \<lparr>dh_id = tid, dh_flags = flags, dh_qdcount = qdcount, dh_anscount = anscount,
               dh_nscount = nscount, dh_arcount = arcount\<rparr>))))))"

definition pj_dns_parse_packet :: "bytes \<Rightarrow> nat \<Rightarrow> dns_packet pkt_res" where
  "pj_dns_parse_packet mem pktsize =
     (if pktsize = 0 then Refused PJ_EINVAL
      else if pktsize < 12 then Refused PJLIB_UTIL_EDNSINSIZE
      else
        pkt_bind (parse_hdr mem) (\<lambda>hdr.
        pkt_bind (parse_section (parse_query mem pktsize) (unat (dh_qdcount hdr)) 12) (\<lambda>(q, start1).
        pkt_bind (parse_section (parse_rr mem pktsize) (unat (dh_anscount hdr)) start1) (\<lambda>(ans, start2).
        pkt_bind (parse_section (parse_rr mem pktsize) (unat (dh_nscount hdr)) start2) (\<lambda>(ns, start3).
        pkt_bind (parse_section (parse_rr mem pktsize) (unat (dh_arcount hdr)) start3) (\<lambda>(arr, start4).
          Parsed \<lparr>dp_hdr = hdr, dp_q = q, dp_ans = ans, dp_ns = ns, dp_arr = arr\<rparr>))))))"

section \<open>Copying\<close>

definition PJ_DNS_MAX_NAMES_IN_NAMETABLE :: nat where
  "PJ_DNS_MAX_NAMES_IN_NAMETABLE = 16"

definition PJ_DNS_NO_QD :: u32 where "PJ_DNS_NO_QD = 1"
definition PJ_DNS_NO_ANS :: u32 where "PJ_DNS_NO_ANS = 2"
definition PJ_DNS_NO_NS :: u32 where "PJ_DNS_NO_NS = 4"
definition PJ_DNS_NO_AR :: u32 where "PJ_DNS_NO_AR = 8"

text \<open>Names that were copied before are shared; the comparison ignores case.\<close>

definition apply_name_table :: "bytes list \<Rightarrow> bytes \<Rightarrow> bytes \<times> bytes list" where
  "apply_name_table nametable src =
     (case find (\<lambda>name. pj_stricmp_eq name src) nametable of
        Some name \<Rightarrow> (name, nametable)
      | None \<Rightarrow>
          (src, if length nametable < PJ_DNS_MAX_NAMES_IN_NAMETABLE then nametable @ [src] else nametable))"

definition copy_query :: "bytes list \<Rightarrow> dns_query \<Rightarrow> dns_query \<times> bytes list" where
  "copy_query nametable src =
     (let (name, nametable') = apply_name_table nametable (dq_name src)
      in (src\<lparr>dq_name := name\<rparr>, nametable'))"

text \<open>
  The copy of the structure copies the union; the names in it are then duplicated. A record of type
  SRV whose union holds no service, which no parser makes, keeps what it has.
\<close>

definition copy_rr :: "bytes list \<Rightarrow> dns_rr \<Rightarrow> dns_rr \<times> bytes list" where
  "copy_rr nametable src =
     (let (name, nametable1) = apply_name_table nametable (rr_name src);
          dst = src\<lparr>rr_name := name, rr_data := map_option (take (unat (rr_rdlength src))) (rr_data src)\<rparr>
      in case rr_rdata src of
           Rdata_Srv prio weight port target \<Rightarrow>
             if rr_type src = PJ_DNS_TYPE_SRV then
               let (target', nametable2) = apply_name_table nametable1 target
               in (dst\<lparr>rr_rdata := Rdata_Srv prio weight port target'\<rparr>, nametable2)
             else (dst, nametable1)
         | _ \<Rightarrow> (dst, nametable1))"

fun copy_section :: "(bytes list \<Rightarrow> 'a \<Rightarrow> 'a \<times> bytes list) \<Rightarrow> bytes list \<Rightarrow> 'a list \<Rightarrow> 'a list \<times> bytes list" where
  "copy_section copy nametable [] = ([], nametable)"
| "copy_section copy nametable (x # xs) =
     (let (y, nametable1) = copy nametable x; (ys, nametable2) = copy_section copy nametable1 xs
      in (y # ys, nametable2))"

text \<open>
  \<^verbatim>\<open>pj_dns_packet_dup\<close>. The counts of the header say how long the sections are; an option leaves a
  section out.
\<close>

definition dup_part :: "u32 \<Rightarrow> u32 \<Rightarrow> u16 \<Rightarrow> 'a list \<Rightarrow> 'a list" where
  "dup_part options flag count xs =
     (if count \<noteq> 0 \<and> options AND flag = 0 then take (unat count) xs else [])"

definition pj_dns_packet_dup :: "dns_packet \<Rightarrow> u32 \<Rightarrow> dns_packet" where
  "pj_dns_packet_dup p options =
     (let hdr = dp_hdr p;
          (q, t1) = copy_section copy_query [] (dup_part options PJ_DNS_NO_QD (dh_qdcount hdr) (dp_q p));
          (ans, t2) = copy_section copy_rr t1 (dup_part options PJ_DNS_NO_ANS (dh_anscount hdr) (dp_ans p));
          (ns, t3) = copy_section copy_rr t2 (dup_part options PJ_DNS_NO_NS (dh_nscount hdr) (dp_ns p));
          (arr, t4) = copy_section copy_rr t3 (dup_part options PJ_DNS_NO_AR (dh_arcount hdr) (dp_arr p))
      in \<lparr>dp_hdr = hdr\<lparr>dh_qdcount := of_nat (length q), dh_anscount := of_nat (length ans),
                       dh_nscount := of_nat (length ns), dh_arcount := of_nat (length arr)\<rparr>,
          dp_q = q, dp_ans = ans, dp_ns = ns, dp_arr = arr\<rparr>)"

section \<open>Making records\<close>

definition rr_make :: "bytes \<Rightarrow> u16 \<Rightarrow> u32 \<Rightarrow> u32 \<Rightarrow> rdata \<Rightarrow> dns_rr" where
  "rr_make res_name type dnsclass ttl rdata =
     \<lparr>rr_name = res_name, rr_type = type, rr_dnsclass = ucast dnsclass, rr_ttl = ttl, rr_rdlength = 0,
      rr_data = None, rr_rdata = rdata\<rparr>"

definition pj_dns_init_srv_rr :: "bytes \<Rightarrow> u32 \<Rightarrow> u32 \<Rightarrow> u32 \<Rightarrow> u32 \<Rightarrow> u32 \<Rightarrow> bytes \<Rightarrow> dns_rr" where
  "pj_dns_init_srv_rr res_name dnsclass ttl prio weight port target =
     rr_make res_name PJ_DNS_TYPE_SRV dnsclass ttl (Rdata_Srv (ucast prio) (ucast weight) (ucast port) target)"

definition pj_dns_init_cname_rr :: "bytes \<Rightarrow> u32 \<Rightarrow> u32 \<Rightarrow> bytes \<Rightarrow> dns_rr" where
  "pj_dns_init_cname_rr res_name dnsclass ttl name =
     rr_make res_name PJ_DNS_TYPE_CNAME dnsclass ttl (Rdata_Name name)"

definition pj_dns_init_a_rr :: "bytes \<Rightarrow> u32 \<Rightarrow> u32 \<Rightarrow> bytes \<Rightarrow> dns_rr" where
  "pj_dns_init_a_rr res_name dnsclass ttl ip_addr =
     rr_make res_name PJ_DNS_TYPE_A dnsclass ttl (Rdata_A ip_addr)"

definition pj_dns_init_aaaa_rr :: "bytes \<Rightarrow> u32 \<Rightarrow> u32 \<Rightarrow> bytes \<Rightarrow> dns_rr" where
  "pj_dns_init_aaaa_rr res_name dnsclass ttl ip_addr =
     rr_make res_name PJ_DNS_TYPE_AAAA dnsclass ttl (Rdata_AAAA ip_addr)"

end
