(* ===== verification/Dns_Props.thy ===== *)
theory Dns_Props
  imports Dns
begin

text \<open>
  Properties of the DNS messages: names fit the buffers allocated for them, how far the parser can
  read behind a packet, queries are parsed back, and copies agree with what they are made from.
\<close>

section \<open>Names\<close>

text \<open>Whenever the length of a name is found, the name is read and has that length.\<close>

lemma get_name_length:
  "get_name_len rec_counter mem p pktsize = Parsed (k, n) \<Longrightarrow>
   \<exists>name. get_name rec_counter mem p pktsize = Parsed name \<and> length name = n"
proof (induction rec_counter mem p pktsize arbitrary: k n rule: get_name_len.induct)
  case (1 rec_counter mem p pktsize)
  note prems = "1.prems"
  have r: "\<not> 10 < rec_counter" and l: "\<not> length mem \<le> p"
    using prems by (subst (asm) get_name_len.simps, simp split: if_splits)+
  consider (nul) "mem ! p = 0" | (pointer) "mem ! p \<noteq> 0" "mem ! p AND 0xc0 = 0xc0"
    | (label) "mem ! p \<noteq> 0" "mem ! p AND 0xc0 \<noteq> 0xc0"
    by blast
  then show ?case
  proof cases
    case nul
    with prems r l show ?thesis
      by (subst (asm) get_name_len.simps, subst get_name.simps) simp
  next
    case pointer
    then obtain w k' where w: "get16 mem p = Parsed w" and s: "\<not> pktsize \<le> unat (w XOR 0xc000)"
      and g: "get_name_len (rec_counter + 1) mem (unat (w XOR 0xc000)) pktsize = Parsed (k', n)"
      using prems r l by (subst (asm) get_name_len.simps) (auto simp: Let_def split: pkt_res.splits if_splits)
    show ?thesis
      using "1.IH"(1) [OF r l pointer w refl s g] r l pointer w s
      by (subst get_name.simps) (simp add: Let_def)
  next
    case label
    define q where "q = p + unat (mem ! p) + 1"
    have q: "\<not> pktsize < unat (mem ! p)" "\<not> length mem \<le> q" "\<not> pktsize \<le> q"
      using prems r l label by (subst (asm) get_name_len.simps, auto simp: Let_def q_def split: if_splits)+
    obtain k' n' where g: "get_name_len rec_counter mem q pktsize = Parsed (k', n')"
      and n: "n = unat (mem ! p) + (if mem ! q \<noteq> 0 then 1 else 0) + n'"
      using prems r l label q
      by (subst (asm) get_name_len.simps) (auto simp: Let_def q_def split: pkt_res.splits if_splits)
    obtain name where name: "get_name rec_counter mem q pktsize = Parsed name" "length name = n'"
      using "1.IH"(2) [OF r l label refl q_def q(1,2,3) g] by blast
    have o: "octets mem (p + 1) (unat (mem ! p)) = Parsed (take (unat (mem ! p)) (drop (p + 1) mem))"
      using q(2) by (simp add: octets_def q_def)
    have "length (take (unat (mem ! p)) (drop (p + 1) mem)) = unat (mem ! p)"
      using q(2) by (simp add: q_def)
    with name n o r l label q show ?thesis
      by (subst get_name.simps) (simp add: Let_def q_def)
  qed
qed

text \<open>
  How far a name reaches and reads. A label has at most 191 octets; a name that starts within the
  packet ends at most one octet behind it.
\<close>

lemma label_less:
  assumes "(c :: u8) AND 0xc0 \<noteq> 0xc0"
  shows "unat c < 192"
proof (rule ccontr)
  have all: "\<forall>n\<in>set [192 ..< 256]. (of_nat n :: u8) AND 0xc0 = 0xc0" by code_simp
  assume "\<not> ?thesis"
  moreover have "unat c < 256" using unsigned_less [of c, where 'a = nat] by simp
  ultimately have "unat c \<in> set [192 ..< 256]" unfolding set_upt by auto
  with all have "(of_nat (unat c) :: u8) AND 0xc0 = 0xc0" by blast
  with assms show False by simp
qed

lemma get_name_len_ends:
  "get_name_len rec_counter mem p pktsize = Parsed (k, n) \<Longrightarrow>
   0 < k \<and> p + k \<le> max (pktsize + 1) (p + 2)"
proof (induction rec_counter mem p pktsize arbitrary: k n rule: get_name_len.induct)
  case (1 rec_counter mem p pktsize)
  note prems = "1.prems"
  have r: "\<not> 10 < rec_counter" and l: "\<not> length mem \<le> p"
    using prems by (subst (asm) get_name_len.simps, simp split: if_splits)+
  consider (nul) "mem ! p = 0" | (pointer) "mem ! p \<noteq> 0" "mem ! p AND 0xc0 = 0xc0"
    | (label) "mem ! p \<noteq> 0" "mem ! p AND 0xc0 \<noteq> 0xc0"
    by blast
  then show ?case
  proof cases
    case nul
    with prems r l have "k = 1" by (subst (asm) get_name_len.simps) simp
    then show ?thesis by simp
  next
    case pointer
    with prems r l have "k = 2"
      by (subst (asm) get_name_len.simps) (auto simp: Let_def split: pkt_res.splits if_splits)
    then show ?thesis by simp
  next
    case label
    define q where "q = p + unat (mem ! p) + 1"
    have q: "\<not> pktsize < unat (mem ! p)" "\<not> length mem \<le> q" "\<not> pktsize \<le> q"
      using prems r l label by (subst (asm) get_name_len.simps, auto simp: Let_def q_def split: if_splits)+
    obtain k' n' where g: "get_name_len rec_counter mem q pktsize = Parsed (k', n')"
      and k: "k = unat (mem ! p) + 1 + k'"
      using prems r l label q
      by (subst (asm) get_name_len.simps) (auto simp: Let_def q_def split: pkt_res.splits if_splits)
    from "1.IH"(2) [OF r l label refl q_def q(1,2,3) g] q(3) show ?thesis
      by (simp add: k q_def max_def split: if_splits)
  qed
qed

lemma get_name_len_inside:
  "pktsize + 192 \<le> length mem \<Longrightarrow> p + 193 \<le> length mem \<Longrightarrow> get_name_len rec_counter mem p pktsize \<noteq> Outside"
proof (induction rec_counter mem p pktsize rule: get_name_len.induct)
  case (1 rec_counter mem p pktsize)
  consider "10 < rec_counter" | (nul) "\<not> 10 < rec_counter" "mem ! p = 0"
    | (pointer) "\<not> 10 < rec_counter" "mem ! p \<noteq> 0" "mem ! p AND 0xc0 = 0xc0"
    | (label) "\<not> 10 < rec_counter" "mem ! p \<noteq> 0" "mem ! p AND 0xc0 \<noteq> 0xc0"
    by blast
  then show ?case
  proof cases
    case pointer
    have l: "\<not> length mem \<le> p" using "1.prems" by simp
    obtain w where w: "get16 mem p = Parsed w"
      using "1.prems" by (cases "get16 mem p") simp_all
    have "\<not> pktsize \<le> unat (w XOR 0xc000) \<Longrightarrow>
          get_name_len (rec_counter + 1) mem (unat (w XOR 0xc000)) pktsize \<noteq> Outside"
      using "1.IH"(1) [OF pointer(1) l pointer(2,3) w refl] "1.prems" by simp
    with pointer l w show ?thesis
      by (subst get_name_len.simps) (auto simp: Let_def split: pkt_res.splits)
  next
    case label
    have l: "\<not> length mem \<le> p" using "1.prems" by simp
    define q where "q = p + unat (mem ! p) + 1"
    have q: "\<not> length mem \<le> q" using label_less [OF label(3)] "1.prems" by (simp add: q_def)
    have "\<not> pktsize < unat (mem ! p) \<Longrightarrow> \<not> pktsize \<le> q \<Longrightarrow> get_name_len rec_counter mem q pktsize \<noteq> Outside"
      using "1.IH"(2) [OF label(1) l label(2,3) refl q_def _ q] "1.prems" by simp
    with label l q show ?thesis
      by (subst get_name_len.simps) (auto simp: Let_def q_def split: pkt_res.splits)
  qed (use "1.prems" in \<open>subst get_name_len.simps, simp\<close>)+
qed

lemma name_at_inside:
  assumes "pktsize + 192 \<le> length mem" "p + 193 \<le> length mem"
  shows "name_at mem p pktsize \<noteq> Outside"
proof (cases "get_name_len 0 mem p pktsize")
  case (Parsed x)
  then obtain name where "get_name 0 mem p pktsize = Parsed name"
    using get_name_length [of 0 mem p pktsize "fst x" "snd x"] by auto
  with Parsed show ?thesis by (simp add: name_at_def split: prod.splits)
qed (use get_name_len_inside [OF assms] in \<open>simp_all add: name_at_def\<close>)

lemma name_at_ends:
  "name_at mem p pktsize = Parsed (name, k) \<Longrightarrow> 0 < k \<and> p + k \<le> max (pktsize + 1) (p + 2)"
  by (auto simp: name_at_def pkt_bind_Parsed dest: get_name_len_ends)

section \<open>Records and packets\<close>

lemma parse_query_inside:
  assumes "pktsize + 192 \<le> length mem" "start + 193 \<le> length mem"
  shows "parse_query mem pktsize start \<noteq> Outside"
  using name_at_inside [OF assms] name_at_ends [of mem start pktsize] assms
  by (fastforce simp: parse_query_def pkt_bind_Outside)

lemma parse_query_ends:
  "parse_query mem pktsize start = Parsed (q, k) \<Longrightarrow> start + k \<le> max (pktsize + 5) (start + 6)"
  by (fastforce simp: parse_query_def pkt_bind_Parsed dest: name_at_ends)

lemma parse_rdata_inside:
  assumes "p + unat rdlength \<le> pktsize" "pktsize + 199 \<le> length mem"
  shows "parse_rdata mem pktsize type rdlength p \<noteq> Outside"
  using name_at_inside [of pktsize mem p] name_at_inside [of pktsize mem "p + 6"] assms
  by (auto simp: parse_rdata_def pkt_bind_Outside)

lemma parse_rdata_ends:
  assumes "p + unat rdlength \<le> pktsize" "parse_rdata mem pktsize type rdlength p = Parsed (d, r, k)"
  shows "p + k \<le> pktsize + 16"
  using assms by (fastforce simp: parse_rdata_def pkt_bind_Parsed split: if_splits dest: name_at_ends)

lemma parse_rr_inside:
  assumes "pktsize + 199 \<le> length mem" "start + 193 \<le> length mem"
  shows "parse_rr mem pktsize start \<noteq> Outside"
  using name_at_inside [of pktsize mem start] parse_rdata_inside assms
  by (fastforce simp: parse_rr_def pkt_bind_Outside Let_def split: if_splits)

lemma parse_rr_ends:
  assumes "parse_rr mem pktsize start = Parsed (rr, k)"
  shows "start + k \<le> pktsize + 16"
proof -
  from assms obtain b x xc d r l where "\<not> pktsize < start + b + 10 + unat xc"
    and "parse_rdata mem pktsize x xc (start + b + 10) = Parsed (d, r, l)" and k: "k = b + 10 + l"
    by (auto simp: parse_rr_def pkt_bind_Parsed Let_def split: if_splits)
  then have "start + b + 10 + l \<le> pktsize + 16" by (intro parse_rdata_ends [of _ xc]) auto
  with k show ?thesis by simp
qed

lemma parse_section_length: "parse_section f n start = Parsed (xs, e) \<Longrightarrow> length xs = n"
  by (induction n arbitrary: start xs) (auto simp: pkt_bind_Parsed)

lemma query_section_inside:
  "pktsize + 192 \<le> length mem \<Longrightarrow> start \<le> pktsize + d \<Longrightarrow> pktsize + d + 6 * n + 193 \<le> length mem \<Longrightarrow>
   parse_section (parse_query mem pktsize) n start \<noteq> Outside"
proof (induction n arbitrary: start d)
  case (Suc n)
  have "parse_query mem pktsize start \<noteq> Outside"
    using Suc.prems by (intro parse_query_inside) simp_all
  moreover have "parse_section (parse_query mem pktsize) n (start + k) \<noteq> Outside"
    if "parse_query mem pktsize start = Parsed (q, k)" for q k
    using parse_query_ends [OF that] Suc.prems by (intro Suc.IH [of _ "d + 6"]) auto
  ultimately show ?case by (auto simp: pkt_bind_Outside)
qed simp

lemma query_section_ends:
  "parse_section (parse_query mem pktsize) n start = Parsed (qs, e) \<Longrightarrow> start \<le> pktsize + d \<Longrightarrow>
   e \<le> pktsize + d + 6 * n"
proof (induction n arbitrary: start d qs)
  case (Suc n)
  then obtain q k qs' where "parse_query mem pktsize start = Parsed (q, k)"
    and p: "parse_section (parse_query mem pktsize) n (start + k) = Parsed (qs', e)"
    by (auto simp: pkt_bind_Parsed)
  then show ?case
    using parse_query_ends Suc.prems(2) Suc.IH [OF p, of "d + 6"] by fastforce
qed simp

lemma rr_section_inside:
  "pktsize + 209 \<le> length mem \<Longrightarrow> start + 193 \<le> length mem \<Longrightarrow>
   parse_section (parse_rr mem pktsize) n start \<noteq> Outside"
proof (induction n arbitrary: start)
  case (Suc n)
  have "parse_rr mem pktsize start \<noteq> Outside"
    using Suc.prems by (intro parse_rr_inside) simp_all
  moreover have "parse_section (parse_rr mem pktsize) n (start + k) \<noteq> Outside"
    if "parse_rr mem pktsize start = Parsed (q, k)" for q k
    using parse_rr_ends [OF that] Suc.prems by (intro Suc.IH) auto
  ultimately show ?case by (auto simp: pkt_bind_Outside)
qed simp

lemma rr_section_ends:
  "parse_section (parse_rr mem pktsize) n start = Parsed (rrs, e) \<Longrightarrow> e \<le> max start (pktsize + 16)"
proof (induction n arbitrary: start rrs)
  case (Suc n)
  then obtain q k rrs' where "parse_rr mem pktsize start = Parsed (q, k)"
    and p: "parse_section (parse_rr mem pktsize) n (start + k) = Parsed (rrs', e)"
    by (auto simp: pkt_bind_Parsed)
  then show ?case
    using parse_rr_ends Suc.IH [OF p] by fastforce
qed simp

definition sections_match :: "dns_packet \<Rightarrow> bool" where
  "sections_match pkt \<longleftrightarrow>
     length (dp_q pkt) = unat (dh_qdcount (dp_hdr pkt)) \<and> length (dp_ans pkt) = unat (dh_anscount (dp_hdr pkt)) \<and>
     length (dp_ns pkt) = unat (dh_nscount (dp_hdr pkt)) \<and> length (dp_arr pkt) = unat (dh_arcount (dp_hdr pkt))"

text \<open>The raw data of a record is as long as the record says.\<close>

definition rr_ok :: "dns_rr \<Rightarrow> bool" where
  "rr_ok rr \<longleftrightarrow> (case rr_data rr of None \<Rightarrow> True | Some d \<Rightarrow> length d = unat (rr_rdlength rr))"

definition packet_ok :: "dns_packet \<Rightarrow> bool" where
  "packet_ok p \<longleftrightarrow> sections_match p \<and> list_all rr_ok (dp_ans p @ dp_ns p @ dp_arr p)"

lemma parse_rr_ok: "parse_rr mem pktsize start = Parsed (rr, k) \<Longrightarrow> rr_ok rr"
  by (auto simp: parse_rr_def pkt_bind_Parsed Let_def parse_rdata_def rr_ok_def octets_Parsed split: if_splits)

lemma rr_section_ok: "parse_section (parse_rr mem pktsize) n start = Parsed (rrs, e) \<Longrightarrow> list_all rr_ok rrs"
  by (induction n arbitrary: start rrs) (auto simp: pkt_bind_Parsed dest: parse_rr_ok)

lemma parse_packet_ok: "pj_dns_parse_packet mem pktsize = Parsed pkt \<Longrightarrow> packet_ok pkt"
  by (auto simp: pj_dns_parse_packet_def pkt_bind_Parsed packet_ok_def sections_match_def split: if_splits
      dest: parse_section_length rr_section_ok)

text \<open>
  C22: The parser of DNS packets ends, and it never reads more than \<open>6 * qdcount + 210\<close> octets behind the
  packet; the sections of a parsed packet are as long as its header says, and so is the raw data of a
  record of an unknown type.
\<close>

theorem dns_parse_overread_bounded:
  assumes "pktsize + 6 * unat (be16 (take 2 (drop 4 mem))) + 210 \<le> length mem"
  shows "pj_dns_parse_packet mem pktsize \<noteq> Outside \<and>
         (\<forall>pkt. pj_dns_parse_packet mem pktsize = Parsed pkt \<longrightarrow> packet_ok pkt)"
proof
  show "pj_dns_parse_packet mem pktsize \<noteq> Outside"
  proof (cases "pktsize < 12")
    case False
    obtain hdr where h: "parse_hdr mem = Parsed hdr" and c: "dh_qdcount hdr = be16 (take 2 (drop 4 mem))"
      using assms False by (auto simp: parse_hdr_def get16_def octets_def)
    define n where "n = unat (dh_qdcount hdr)"
    have q: "parse_section (parse_query mem pktsize) n 12 \<noteq> Outside"
      using assms False by (intro query_section_inside [of _ _ _ 0]) (simp_all add: n_def c)
    have rr: "s \<le> pktsize + 6 * n + 16 \<Longrightarrow> parse_section (parse_rr mem pktsize) k s \<noteq> Outside" for k s
      using assms by (intro rr_section_inside) (simp_all add: n_def c)
    have e: "e \<le> pktsize + 6 * n" if "parse_section (parse_query mem pktsize) n 12 = Parsed (x, e)" for x e
      using query_section_ends [OF that, of 0] False by simp
    have e': "e \<le> pktsize + 6 * n + 16"
      if "parse_section (parse_rr mem pktsize) k s = Parsed (x, e)" "s \<le> pktsize + 6 * n + 16" for x e k s
      using rr_section_ends [OF that(1)] that(2) by simp
    have *: "e \<le> pktsize + 6 * n + 16" if "parse_section (parse_query mem pktsize) n 12 = Parsed (x, e)" for x e
      using e [OF that] by simp
    show ?thesis
      using False q h unfolding pj_dns_parse_packet_def
      by (auto simp: pkt_bind_Outside n_def [symmetric] dest!: * dest: rr e')
  qed (simp add: pj_dns_parse_packet_def)
  show "\<forall>pkt. pj_dns_parse_packet mem pktsize = Parsed pkt \<longrightarrow> packet_ok pkt"
    by (blast intro: parse_packet_ok)
qed

text \<open>A response with a question and an answer that points back to the name of the question.\<close>

definition ex_response :: bytes where
  "ex_response = [0, 7, 0x81, 0x80, 0, 1, 0, 1, 0, 0, 0, 0, 1, 97, 1, 98, 0, 0, 1, 0, 1,
                  0xc0, 12, 0, 1, 0, 1, 0, 0, 0, 60, 0, 4, 10, 0, 0, 1]"

definition ex_parsed :: dns_packet where
  "ex_parsed =
     \<lparr>dp_hdr = \<lparr>dh_id = 7, dh_flags = 0x8180, dh_qdcount = 1, dh_anscount = 1, dh_nscount = 0, dh_arcount = 0\<rparr>,
      dp_q = [\<lparr>dq_name = cstr ''a.b'', dq_type = PJ_DNS_TYPE_A, dq_dnsclass = 1\<rparr>],
      dp_ans = [\<lparr>rr_name = cstr ''a.b'', rr_type = PJ_DNS_TYPE_A, rr_dnsclass = 1, rr_ttl = 60, rr_rdlength = 4,
                 rr_data = None, rr_rdata = Rdata_A [10, 0, 0, 1]\<rparr>],
      dp_ns = [], dp_arr = []\<rparr>"

theorem dns_parse_overread_bounded_witness:
  "pj_dns_parse_packet (ex_response @ replicate 216 0) 37 = Parsed ex_parsed \<and> packet_ok ex_parsed"
proof -
  let ?mem = "ex_response @ replicate 216 0"
  have "37 + 6 * unat (be16 (take 2 (drop 4 ?mem))) + 210 \<le> length ?mem" by code_simp
  moreover have "pj_dns_parse_packet ?mem 37 = Parsed ex_parsed" by code_simp
  ultimately show ?thesis using dns_parse_overread_bounded [of 37 ?mem] by blast
qed

text \<open>
  It does read behind the packet: for a question that is missing, for a label that is longer than the
  rest, for a type and class that are missing, for an address that is shorter than its type says and
  for a pointer that is cut.
\<close>

lemma dns_parse_reads_outside:
  "pj_dns_parse_packet [0, 7, 1, 0, 0, 1, 0, 0, 0, 0, 0, 0] 12 = Outside"
  "pj_dns_parse_packet [0, 7, 1, 0, 0, 1, 0, 0, 0, 0, 0, 0, 9, 97] 14 = Outside"
  "pj_dns_parse_packet [0, 7, 1, 0, 0, 1, 0, 0, 0, 0, 0, 0, 1, 97, 0] 15 = Outside"
  "pj_dns_parse_packet [0, 7, 1, 0, 0, 0, 0, 1, 0, 0, 0, 0, 0, 0, 1, 0, 1, 0, 0, 0, 60, 0, 0] 23 = Outside"
  "pj_dns_parse_packet [0, 7, 1, 0, 0, 1, 0, 0, 0, 0, 0, 0, 0xc0] 13 = Outside"
  by code_simp+

section \<open>Queries\<close>

lemma length_name_labels:
  "length (name_labels name) = length name + (if name \<noteq> [] \<and> last name \<noteq> 46 then 1 else 0)"
proof (induction name rule: name_labels.induct)
  case (1 name)
  show ?case
  proof (cases "name = []")
    case False
    define label where "label = takeWhile (\<lambda>c. c \<noteq> 46) name"
    define rest where "rest = dropWhile (\<lambda>c. c \<noteq> 46) name"
    have n: "name = label @ rest" by (simp add: label_def rest_def)
    have IH: "length (name_labels (drop 1 rest))
              = length (drop 1 rest) + (if drop 1 rest \<noteq> [] \<and> last (drop 1 rest) \<noteq> 46 then 1 else 0)"
      using "1.IH" [OF False refl refl] by (simp only: rest_def)
    have e: "length (name_labels name) = 1 + length label + length (name_labels (drop 1 rest))"
      using False by (subst name_labels.simps) (simp add: Let_def label_def rest_def)
    show ?thesis
    proof (cases rest)
      case Nil
      then have "last name \<in> set label" using False n by simp
      then have "last name \<noteq> 46" unfolding label_def by (blast dest: set_takeWhileD)
      with Nil e n False show ?thesis by (simp add: name_labels.simps)
    next
      case (Cons c r)
      have "dropWhile (\<lambda>c. c \<noteq> 46) name \<noteq> []" using Cons by (simp add: rest_def)
      from hd_dropWhile [OF this] have "c = 46" using Cons by (simp add: rest_def)
      with IH e n Cons show ?thesis by auto
    qed
  qed (simp add: name_labels.simps)
qed

text \<open>
  Making a query writes behind the end of the buffer exactly when the buffer is accepted with fewer
  octets than the query needs: the check counts the header, the name, the type and the class, but
  neither the length octet of the first label nor the empty label at the end.
\<close>

theorem dns_make_query_overflow:
  "pj_dns_make_query n tid qtype name = Outside \<longleftrightarrow>
     qtype \<noteq> 0 \<and> length name + 16 \<le> n \<and>
     n < length name + 17 + (if name \<noteq> [] \<and> last name \<noteq> 46 then 1 else 0)"
  by (auto simp: pj_dns_make_query_def Let_def length_name_labels)

text \<open>A name of labels, and what the query has of it.\<close>

fun join_labels :: "bytes list \<Rightarrow> bytes" where
  "join_labels [] = []"
| "join_labels [l] = l"
| "join_labels (l # ls) = l @ [46] @ join_labels ls"

definition label_ok :: "bytes \<Rightarrow> bool" where
  "label_ok l \<longleftrightarrow> 0 < length l \<and> length l < 64 \<and> 46 \<notin> set l"

definition wire :: "bytes list \<Rightarrow> bytes" where
  "wire ls = concat (map (\<lambda>l. of_nat (length l) # l) ls)"

lemma takeWhile_label: "46 \<notin> set l \<Longrightarrow> takeWhile (\<lambda>c. c \<noteq> 46) (l @ 46 # r) = l"
  "46 \<notin> set l \<Longrightarrow> dropWhile (\<lambda>c. c \<noteq> 46) (l @ 46 # r) = 46 # r"
  "46 \<notin> set l \<Longrightarrow> takeWhile (\<lambda>c. c \<noteq> 46) l = l" "46 \<notin> set l \<Longrightarrow> dropWhile (\<lambda>c. c \<noteq> 46) l = []"
  for l r :: bytes
  by (induction l) auto

lemma name_labels_join: "list_all label_ok ls \<Longrightarrow> name_labels (join_labels ls) = wire ls"
proof (induction ls rule: join_labels.induct)
  case 1
  then show ?case by (simp add: wire_def name_labels.simps)
next
  case (2 l)
  then show ?case
    by (subst name_labels.simps) (auto simp: label_ok_def wire_def takeWhile_label name_labels.simps)
next
  case (3 l l' ls)
  then show ?case
    by (subst name_labels.simps) (simp add: label_ok_def wire_def takeWhile_label)
qed

lemma label_octet:
  assumes "label_ok l"
  shows "(of_nat (length l) :: u8) \<noteq> 0" "(of_nat (length l) :: u8) AND 0xc0 \<noteq> 0xc0"
    "unat (of_nat (length l) :: u8) = length l"
proof -
  show u: "unat (of_nat (length l) :: u8) = length l"
    using assms by (simp add: label_ok_def unat_of_nat)
  then show "(of_nat (length l) :: u8) \<noteq> 0" using assms by (auto simp: label_ok_def)
  have "\<forall>n\<in>set [0 ..< 64]. (of_nat n :: u8) AND 0xc0 \<noteq> 0xc0" by code_simp
  moreover have "length l \<in> set [0 ..< 64]" using assms unfolding set_upt by (auto simp: label_ok_def)
  ultimately show "(of_nat (length l) :: u8) AND 0xc0 \<noteq> 0xc0" by blast
qed

lemma name_at_wire:
  assumes "list_all label_ok ls" "r \<le> 10" "length pre + length (wire ls) < n" "n \<le> length (pre @ wire ls @ 0 # post)"
  shows "get_name_len r (pre @ wire ls @ 0 # post) (length pre) n
           = Parsed (length (wire ls) + 1, length (join_labels ls)) \<and>
         get_name r (pre @ wire ls @ 0 # post) (length pre) n = Parsed (join_labels ls)"
  using assms
proof (induction ls arbitrary: pre rule: join_labels.induct)
  case 1
  then show ?case
    by (subst get_name_len.simps, subst get_name.simps) (simp add: wire_def)
next
  case (2 l)
  define mem where "mem = pre @ wire [l] @ 0 # post"
  have l: "label_ok l" using "2.prems"(1) by simp
  have m: "mem ! length pre = of_nat (length l)" "mem ! (length pre + length l + 1) = 0"
    "take (length l) (drop (length pre + 1) mem) = l" "length pre + length l + 1 < length mem"
    by (simp_all add: mem_def wire_def nth_append)
  have n: "length pre + length l + 1 < n" using "2.prems"(3) by (simp add: wire_def)
  show ?case
    unfolding mem_def [symmetric]
    using label_octet [OF l] m n "2.prems"(2)
    by (subst get_name_len.simps, subst get_name.simps)
      (simp add: Let_def octets_def get_name_len.simps [of _ _ "Suc (length pre + length l)"]
        get_name.simps [of _ _ "Suc (length pre + length l)"] wire_def)
next
  case (3 l l' ls)
  define mem where "mem = pre @ wire (l # l' # ls) @ 0 # post"
  define pre' where "pre' = pre @ of_nat (length l) # l"
  have l: "label_ok l" "label_ok l'" using "3.prems"(1) by simp_all
  have mem: "mem = pre' @ wire (l' # ls) @ 0 # post" by (simp add: mem_def pre'_def wire_def)
  have m: "mem ! length pre = of_nat (length l)" "mem ! length pre' = of_nat (length l')"
    "take (length l) (drop (length pre + 1) mem) = l" "length pre + length l + 1 < length mem"
    "length pre' = length pre + length l + 1"
    by (simp_all add: mem_def pre'_def wire_def nth_append)
  have w: "length (wire (l # l' # ls)) = length l + 1 + length (wire (l' # ls))" by (simp add: wire_def)
  have n: "length pre' + length (wire (l' # ls)) < n" using "3.prems"(3) w by (simp add: pre'_def)
  have IH: "get_name_len r mem (length pre') n = Parsed (length (wire (l' # ls)) + 1, length (join_labels (l' # ls))) \<and>
    get_name r mem (length pre') n = Parsed (join_labels (l' # ls))"
    using "3.IH" [of pre'] "3.prems" n by (simp add: mem [symmetric] mem_def [symmetric])
  show ?case
    unfolding mem_def [symmetric] w
    using label_octet [OF l(1)] label_octet [OF l(2)] m n "3.prems"(2) IH
    by (subst get_name_len.simps, subst get_name.simps) (simp add: Let_def octets_def)
qed

lemma parse_query_wire:
  assumes "list_all label_ok ls"
  shows "parse_query (pre @ wire ls @ [0] @ put16 t @ put16 c) (length pre + length (wire ls) + 5) (length pre)
         = Parsed (\<lparr>dq_name = join_labels ls, dq_type = t, dq_dnsclass = c\<rparr>, length (wire ls) + 5)"
proof -
  define mem where "mem = pre @ wire ls @ [0] @ put16 t @ put16 c"
  have "name_at mem (length pre) (length pre + length (wire ls) + 5)
        = Parsed (join_labels ls, length (wire ls) + 1)"
    using name_at_wire [OF assms, of 0 pre "length pre + length (wire ls) + 5" "put16 t @ put16 c"]
    by (simp add: name_at_def mem_def)
  moreover have "get16 mem (length pre + (length (wire ls) + 1)) = Parsed t"
    by (rule get16_at [of _ "pre @ wire ls @ [0]" _ "put16 c"]) (simp_all add: mem_def)
  moreover have "get16 mem (length pre + (length (wire ls) + 1) + 2) = Parsed c"
    by (rule get16_at [of _ "pre @ wire ls @ [0] @ put16 t" _ "[]"]) (simp_all add: mem_def)
  ultimately show ?thesis
    unfolding mem_def [symmetric] parse_query_def by simp
qed

text \<open>
  C21: A query made for a name of labels of 1 to 63 octets is parsed back: the identifier, the flag for
  recursion, the name, the type and the class, and no other records.
\<close>

theorem dns_query_roundtrip:
  assumes "list_all label_ok ls" "pj_dns_make_query n tid qtype (join_labels ls) = Parsed pkt"
  shows "pj_dns_parse_packet pkt (length pkt) =
         Parsed \<lparr>dp_hdr = \<lparr>dh_id = tid, dh_flags = PJ_DNS_SET_RD 1, dh_qdcount = 1, dh_anscount = 0,
                           dh_nscount = 0, dh_arcount = 0\<rparr>,
                 dp_q = [\<lparr>dq_name = join_labels ls, dq_type = word_of_int qtype, dq_dnsclass = PJ_DNS_CLASS_IN\<rparr>],
                 dp_ans = [], dp_ns = [], dp_arr = []\<rparr>"
proof -
  define rd where "rd = PJ_DNS_SET_RD 1"
  define t :: u16 where "t = word_of_int qtype"
  define pre where "pre = put16 tid @ put16 rd @ put16 1 @ replicate 6 0"
  have pkt: "pkt = pre @ wire ls @ [0] @ put16 t @ put16 1"
    using assms(2)
    by (auto simp: pj_dns_make_query_def Let_def pre_def rd_def t_def name_labels_join [OF assms(1)] split: if_splits)
  have pre: "length pre = 12" and len: "length pkt = length pre + length (wire ls) + 5"
    by (simp_all add: pre_def pkt)
  have z: "replicate 6 (0 :: u8) = put16 0 @ put16 0 @ put16 0"
    by (simp add: put16_def numeral_eq_Suc)
  define rest where "rest = wire ls @ [0] @ put16 t @ put16 1"
  have hd: "parse_hdr pkt = Parsed \<lparr>dh_id = tid, dh_flags = rd, dh_qdcount = 1, dh_anscount = 0, dh_nscount = 0, dh_arcount = 0\<rparr>"
  proof -
    have "get16 pkt 0 = Parsed tid" "get16 pkt 2 = Parsed rd" "get16 pkt 4 = Parsed 1"
      "get16 pkt 6 = Parsed 0" "get16 pkt 8 = Parsed 0" "get16 pkt 10 = Parsed 0"
      unfolding pkt pre_def z rest_def [symmetric] append_assoc
      by (rule get16_at [of _ "[]"], simp, simp,
          rule get16_at [of _ "put16 tid"], simp, simp,
          rule get16_at [of _ "put16 tid @ put16 rd"], simp, simp,
          rule get16_at [of _ "put16 tid @ put16 rd @ put16 1"], simp, simp,
          rule get16_at [of _ "put16 tid @ put16 rd @ put16 1 @ put16 0"], simp, simp,
          rule get16_at [of _ "put16 tid @ put16 rd @ put16 1 @ put16 0 @ put16 0"], simp, simp)
    then show ?thesis by (simp add: parse_hdr_def)
  qed
  have q: "parse_query pkt (length pkt) 12 = Parsed (\<lparr>dq_name = join_labels ls, dq_type = t, dq_dnsclass = 1\<rparr>, length (wire ls) + 5)"
    using parse_query_wire [OF assms(1), of pre t 1] pre unfolding len by (simp add: pkt)
  show ?thesis
    using len pre hd q by (simp add: pj_dns_parse_packet_def rd_def [symmetric] t_def [symmetric] PJ_DNS_CLASS_IN_def)
qed

theorem dns_query_roundtrip_witness:
  "\<exists>pkt. pj_dns_make_query 100 5 33 (cstr ''_sip._udp.a.b'') = Parsed pkt \<and>
         (\<exists>p. pj_dns_parse_packet pkt (length pkt) = Parsed p \<and> map dq_name (dp_q p) = [cstr ''_sip._udp.a.b''])"
proof -
  let ?ls = "[cstr ''_sip'', cstr ''_udp'', cstr ''a'', cstr ''b'']"
  have j: "join_labels ?ls = cstr ''_sip._udp.a.b''" and o: "list_all label_ok ?ls" by code_simp+
  have "case pj_dns_make_query 100 5 33 (join_labels ?ls) of Parsed _ \<Rightarrow> True | _ \<Rightarrow> False" by code_simp
  then obtain pkt where p: "pj_dns_make_query 100 5 33 (join_labels ?ls) = Parsed pkt"
    by (auto split: pkt_res.splits)
  from dns_query_roundtrip [OF o p] p show ?thesis unfolding j by auto
qed

section \<open>Copies\<close>

text \<open>
  The copy of a name is the same up to case, as \<^verbatim>\<open>pj_stricmp\<close> compares: behind a NUL octet of a name
  nothing is compared.
\<close>

fun rdata_alike :: "rdata \<Rightarrow> rdata \<Rightarrow> bool" where
  "rdata_alike (Rdata_Srv p w q t) (Rdata_Srv p' w' q' t') \<longleftrightarrow> p' = p \<and> w' = w \<and> q' = q \<and> pj_stricmp_eq t' t"
| "rdata_alike d r = (r = d)"

definition query_alike :: "dns_query \<Rightarrow> dns_query \<Rightarrow> bool" where
  "query_alike a b \<longleftrightarrow> pj_stricmp_eq (dq_name b) (dq_name a) \<and> b\<lparr>dq_name := dq_name a\<rparr> = a"

definition rr_alike :: "dns_rr \<Rightarrow> dns_rr \<Rightarrow> bool" where
  "rr_alike a b \<longleftrightarrow> pj_stricmp_eq (rr_name b) (rr_name a) \<and> rdata_alike (rr_rdata a) (rr_rdata b) \<and>
     b\<lparr>rr_name := rr_name a, rr_rdata := rr_rdata a\<rparr> = a"

lemma stricmp_refl [simp]: "pj_stricmp_eq a a"
proof -
  have "strnicmp_eq a a" by (induction a) simp_all
  then show ?thesis by (simp add: pj_stricmp_eq_def)
qed

lemma rdata_alike_refl [simp]: "rdata_alike d d"
  by (cases d) simp_all

lemma apply_name_table_alike: "apply_name_table t src = (dst, t') \<Longrightarrow> pj_stricmp_eq dst src"
  by (auto simp: apply_name_table_def find_Some_iff split: option.splits)

lemma copy_query_alike: "query_alike a (fst (copy_query t a))"
  by (cases a) (auto simp: copy_query_def query_alike_def split: prod.splits dest: apply_name_table_alike)

lemma copy_rr_alike:
  assumes "rr_ok a"
  shows "rr_alike a (fst (copy_rr t a))"
proof -
  have d: "map_option (take (unat (rr_rdlength a))) (rr_data a) = rr_data a"
    using assms by (auto simp: rr_ok_def split: option.splits)
  obtain name t1 where n: "apply_name_table t (rr_name a) = (name, t1)" by (cases "apply_name_table t (rr_name a)")
  note name = apply_name_table_alike [OF n]
  show ?thesis
  proof (cases "rr_rdata a")
    case (Rdata_Srv p w q target)
    obtain target' t2 where t: "apply_name_table t1 target = (target', t2)" by (cases "apply_name_table t1 target")
    show ?thesis
      using name apply_name_table_alike [OF t] d n t Rdata_Srv
      by (cases a) (simp add: copy_rr_def rr_alike_def Let_def)
  qed (use name d n in \<open>cases a, simp add: copy_rr_def rr_alike_def Let_def\<close>)+
qed

lemma copy_section_alike:
  assumes "\<And>t x. ok x \<Longrightarrow> R x (fst (copy t x))" "list_all ok xs"
  shows "list_all2 R xs (fst (copy_section copy t xs))"
  using assms(2)
proof (induction xs arbitrary: t)
  case (Cons x xs)
  then show ?case
    using assms(1) [of x t] by (simp split: prod.splits) (metis fst_conv)
qed simp

lemma alike_length: "list_all2 R xs ys \<Longrightarrow> length xs = unat c \<Longrightarrow> of_nat (length ys) = c"
  for c :: u16
  by (metis list_all2_lengthD of_nat_unat ucast_id)

lemma dup_part_all: "length xs = unat c \<Longrightarrow> dup_part 0 f c xs = xs"
  by (auto simp: dup_part_def)

text \<open>
  Copying a parsed packet without options gives the same packet up to the case of names: the same
  header and, section by section and record by record, the same contents.
\<close>

theorem dns_packet_dup_alike:
  assumes "packet_ok p"
  shows "dp_hdr (pj_dns_packet_dup p 0) = dp_hdr p \<and>
         list_all2 query_alike (dp_q p) (dp_q (pj_dns_packet_dup p 0)) \<and>
         list_all2 rr_alike (dp_ans p) (dp_ans (pj_dns_packet_dup p 0)) \<and>
         list_all2 rr_alike (dp_ns p) (dp_ns (pj_dns_packet_dup p 0)) \<and>
         list_all2 rr_alike (dp_arr p) (dp_arr (pj_dns_packet_dup p 0))"
proof -
  have m: "sections_match p" and ok: "list_all rr_ok (dp_ans p)" "list_all rr_ok (dp_ns p)" "list_all rr_ok (dp_arr p)"
    using assms by (auto simp: packet_ok_def)
  define c1 where "c1 = copy_section copy_query [] (dp_q p)"
  define c2 where "c2 = copy_section copy_rr (snd c1) (dp_ans p)"
  define c3 where "c3 = copy_section copy_rr (snd c2) (dp_ns p)"
  define c4 where "c4 = copy_section copy_rr (snd c3) (dp_arr p)"
  have "pj_dns_packet_dup p 0 =
        \<lparr>dp_hdr = (dp_hdr p)\<lparr>dh_qdcount := of_nat (length (fst c1)), dh_anscount := of_nat (length (fst c2)),
                              dh_nscount := of_nat (length (fst c3)), dh_arcount := of_nat (length (fst c4))\<rparr>,
         dp_q = fst c1, dp_ans = fst c2, dp_ns = fst c3, dp_arr = fst c4\<rparr>"
    using m by (simp add: pj_dns_packet_dup_def Let_def sections_match_def dup_part_all case_prod_beta
        c1_def c2_def c3_def c4_def)
  moreover have a1: "list_all2 query_alike (dp_q p) (fst c1)"
    unfolding c1_def by (rule copy_section_alike [of "\<lambda>_. True"]) (simp_all add: copy_query_alike list_all_iff)
  moreover have a2: "list_all2 rr_alike (dp_ans p) (fst c2)"
    unfolding c2_def by (rule copy_section_alike [of rr_ok]) (simp_all add: copy_rr_alike ok)
  moreover have a3: "list_all2 rr_alike (dp_ns p) (fst c3)"
    unfolding c3_def by (rule copy_section_alike [of rr_ok]) (simp_all add: copy_rr_alike ok)
  moreover have a4: "list_all2 rr_alike (dp_arr p) (fst c4)"
    unfolding c4_def by (rule copy_section_alike [of rr_ok]) (simp_all add: copy_rr_alike ok)
  ultimately show ?thesis
    using alike_length [OF a1] alike_length [OF a2] alike_length [OF a3] alike_length [OF a4] m
    by (cases "dp_hdr p") (simp add: sections_match_def)
qed

theorem dns_packet_dup_alike_witness:
  "packet_ok ex_parsed \<and> dp_hdr (pj_dns_packet_dup ex_parsed 0) = dp_hdr ex_parsed"
proof -
  have ok: "packet_ok ex_parsed" by code_simp
  with dns_packet_dup_alike [OF ok] show ?thesis by blast
qed

end
