(* ===== verification/Sha1.thy ===== *)
theory Sha1
  imports Packet
begin

text \<open>
  The hash function of \<^verbatim>\<open>pjlib-util/src/pjlib-util/sha1.c\<close> and the keyed hash of
  \<^verbatim>\<open>pjlib-util/src/pjlib-util/hmac_sha1.c\<close>, which STUN messages are signed with, and that they compute what
  FIPS 180 and RFC 2104 say, for messages given in any number of pieces.
\<close>

section \<open>Hashing one block\<close>

definition rol :: "u32 \<Rightarrow> nat \<Rightarrow> u32" where
  "rol value bits = push_bit bits value OR drop_bit (32 - bits) value"

text \<open>
  The macros \<^verbatim>\<open>blk0\<close> and \<^verbatim>\<open>blk\<close>: the word of round \<open>i\<close>, which is also stored in the block. The block is the
  buffer seen as words in the byte order of the machine; \<^verbatim>\<open>blk0\<close> swaps the octets.
\<close>

definition blk0 :: "u32 list \<Rightarrow> nat \<Rightarrow> u32" where
  "blk0 block i = (rol (block ! i) 24 AND 0xFF00FF00) OR (rol (block ! i) 8 AND 0x00FF00FF)"

definition blk :: "u32 list \<Rightarrow> nat \<Rightarrow> u32" where
  "blk block i =
     rol (block ! ((i + 13) mod 16) XOR block ! ((i + 8) mod 16) XOR block ! ((i + 2) mod 16) XOR block ! (i mod 16)) 1"

text \<open>The macros \<^verbatim>\<open>R0\<close> to \<^verbatim>\<open>R4\<close>: the function and the constant of a round.\<close>

definition round_f :: "nat \<Rightarrow> u32 \<Rightarrow> u32 \<Rightarrow> u32 \<Rightarrow> u32" where
  "round_f i w x y =
     (if i < 20 then (w AND (x XOR y)) XOR y
      else if i < 40 then w XOR x XOR y
      else if i < 60 then ((w OR x) AND y) OR (w AND x)
      else w XOR x XOR y)"

definition round_k :: "nat \<Rightarrow> u32" where
  "round_k i = (if i < 20 then 0x5A827999 else if i < 40 then 0x6ED9EBA1 else if i < 60 then 0x8F1BBCDC else 0xCA62C1D6)"

type_synonym vars = "u32 \<times> u32 \<times> u32 \<times> u32 \<times> u32"

text \<open>
  A round changes \<open>z\<close> and \<open>w\<close>; in the next one the variables have moved on by one place. After the 80
  rounds each is at its place again.
\<close>

fun sha1_round :: "nat \<Rightarrow> vars \<times> u32 list \<Rightarrow> vars \<times> u32 list" where
  "sha1_round i ((v, w, x, y, z), block) =
     (let b = (if i < 16 then blk0 block i else blk block i)
      in ((z + (round_f i w x y + b + round_k i + rol v 5), v, rol w 30, x, y), block[i mod 16 := b]))"

text \<open>The buffer as words and back, on a little endian machine.\<close>

fun le_words :: "bytes \<Rightarrow> u32 list" where
  "le_words (a # b # c # d # buf) =
     (ucast a OR push_bit 8 (ucast b) OR push_bit 16 (ucast c) OR push_bit 24 (ucast d)) # le_words buf"
| "le_words buf = []"

definition le_octets :: "u32 list \<Rightarrow> bytes" where
  "le_octets ws = concat (map (\<lambda>w. [ucast w, ucast (drop_bit 8 w), ucast (drop_bit 16 w), ucast (drop_bit 24 w)]) ws)"

text \<open>\<^verbatim>\<open>SHA1_Transform\<close> adds to the state, and leaves the expanded words in the buffer.\<close>

definition SHA1_Transform :: "vars \<Rightarrow> bytes \<Rightarrow> vars \<times> bytes" where
  "SHA1_Transform state buffer =
     (case state of (s0, s1, s2, s3, s4) \<Rightarrow>
        case fold sha1_round [0 ..< 80] (state, le_words buffer) of ((a, b, c, d, e), block) \<Rightarrow>
          ((s0 + a, s1 + b, s2 + c, s3 + d, s4 + e), le_octets block))"

section \<open>Hashing a message\<close>

record sha1_context =
  sh_state :: vars
  sh_count0 :: u32
  sh_count1 :: u32
  sh_buffer :: bytes

text \<open>The buffer of a new context is not initialised; \<open>buf\<close> is what it holds.\<close>

definition pj_sha1_init :: "bytes \<Rightarrow> sha1_context" where
  "pj_sha1_init buf =
     \<lparr>sh_state = (0x67452301, 0xEFCDAB89, 0x98BADCFE, 0x10325476, 0xC3D2E1F0), sh_count0 = 0, sh_count1 = 0,
      sh_buffer = buf\<rparr>"

text \<open>The loop over whole blocks of the data, and the octets that are left.\<close>

function update_blocks :: "vars \<Rightarrow> bytes \<Rightarrow> vars \<times> bytes" where
  "update_blocks state data =
     (if 63 < length data then update_blocks (fst (SHA1_Transform state (take 64 data))) (drop 64 data)
      else (state, data))"
  by pat_completeness auto
termination
  by (relation "measure (\<lambda>(state, data). length data)") auto

declare update_blocks.simps [simp del]

definition store :: "bytes \<Rightarrow> nat \<Rightarrow> bytes \<Rightarrow> bytes" where
  "store buffer j data = take j buffer @ data @ drop (j + length data) buffer"

text \<open>
  The number of bits, in two words. The sum is compared with the 64-bit value \<^verbatim>\<open>len << 3\<close>.
\<close>

definition add_count :: "nat \<Rightarrow> sha1_context \<Rightarrow> sha1_context" where
  "add_count len context =
     (let count0 = sh_count0 context + push_bit 3 (of_nat len);
          count1 = (if ucast count0 < (push_bit 3 (of_nat len) :: u64) then sh_count1 context + 1 else sh_count1 context)
      in context\<lparr>sh_count0 := count0, sh_count1 := count1 + drop_bit 29 (of_nat len)\<rparr>)"

definition pj_sha1_update :: "sha1_context \<Rightarrow> bytes \<Rightarrow> sha1_context" where
  "pj_sha1_update context data =
     (let j = unat (drop_bit 3 (sh_count0 context) AND 63);
          context1 = add_count (length data) context
      in if j + length data > 63 then
           let i = 64 - j;
               (state1, buffer1) = SHA1_Transform (sh_state context) (store (sh_buffer context) j (take i data));
               (state2, rest) = update_blocks state1 (drop i data)
           in context1\<lparr>sh_state := state2, sh_buffer := store buffer1 0 rest\<rparr>
         else context1\<lparr>sh_buffer := store (sh_buffer context) j data\<rparr>)"

text \<open>The padding loop of \<^verbatim>\<open>pj_sha1_final\<close>: zero octets until 56 octets of the block are used.\<close>

lemma used_octets: "unat ((c :: u32) AND 504) = 8 * (unat c div 8 mod 64)"
proof -
  have m: "(504 :: u32) = push_bit 3 (mask 6)" by (simp add: mask_eq_exp_minus_1)
  have "c AND 504 = push_bit 3 (take_bit 6 (drop_bit 3 c))"
    unfolding m by (rule bit_word_eqI) (auto simp: bit_simps)
  moreover have "take_bit 32 (unat c) = unat c"
    using unsigned_less [of c, where 'a = nat] by (intro take_bit_nat_eq_self) simp
  then have "unat (push_bit 3 (take_bit 6 (drop_bit 3 c))) = take_bit 32 (push_bit 3 (take_bit 6 (drop_bit 3 (unat c))))"
    unfolding unsigned_push_bit_eq unsigned_take_bit_eq unsigned_drop_bit_eq by simp
  ultimately show ?thesis by (simp add: push_bit_eq_mult take_bit_eq_mod drop_bit_eq_div)
qed

lemma block_octets: "unat (drop_bit 3 (c :: u32) AND 63) = unat c div 8 mod 64"
proof -
  have m: "(63 :: u32) = mask 6" by (simp add: mask_eq_exp_minus_1)
  have "take_bit 32 (unat c) = unat c"
    using unsigned_less [of c, where 'a = nat] by (intro take_bit_nat_eq_self) simp
  then have "unat (take_bit 6 (drop_bit 3 c)) = take_bit 6 (drop_bit 3 (unat c))"
    by (simp add: unsigned_take_bit_eq unsigned_drop_bit_eq)
  then show ?thesis
    unfolding m take_bit_eq_mask [symmetric] by (simp add: take_bit_eq_mod drop_bit_eq_div)
qed

lemma update_count0: "sh_count0 (pj_sha1_update context data) = sh_count0 context + push_bit 3 (of_nat (length data))"
  by (simp add: pj_sha1_update_def add_count_def Let_def split: prod.splits)

lemma next_octet: "unat (c + 8 :: u32) div 8 mod 64 = (unat c div 8 + 1) mod 64"
proof (cases "unat c + 8 < 2 ^ 32")
  case True
  then have "unat (c + 8) = unat c + 8" by (simp add: unat_word_ariths)
  moreover have "(unat c + 8) div 8 = unat c div 8 + 1" by simp
  ultimately show ?thesis by presburger
next
  case False
  have c: "unat c < 2 ^ 32" using unsigned_less [of c, where 'a = nat] by simp
  have "unat (c + 8) = unat c + 8 - 2 ^ 32"
    using False c by (simp add: unat_word_ariths mod_if)
  moreover obtain k where "unat c + 8 = 2 ^ 32 + k" using False le_Suc_ex not_less by blast
  moreover have "(2 ^ 32 + k) div 8 = 2 ^ 29 + k div 8" by simp
  moreover have "(unat c + 8) div 8 = unat c div 8 + 1" by simp
  ultimately have "unat (c + 8) div 8 = k div 8" "unat c div 8 + 1 = 2 ^ 29 + k div 8" by simp_all
  moreover have "(2 ^ 29 + k div 8) mod 64 = (k div 8 + 2 ^ 23 * 64) mod 64" by (simp add: add.commute)
  ultimately show ?thesis by (simp only: mod_mult_self1)
qed

function pad_loop :: "sha1_context \<Rightarrow> sha1_context" where
  "pad_loop context =
     (if sh_count0 context AND 504 \<noteq> 448 then pad_loop (pj_sha1_update context [0]) else context)"
  by pat_completeness auto
termination
proof (relation "measure (\<lambda>context. (120 - unat (sh_count0 context) div 8 mod 64) mod 64)")
  fix ctx :: sha1_context
  define c where "c = sh_count0 ctx"
  define u where "u = unat c div 8 mod 64"
  assume "sh_count0 ctx AND 504 \<noteq> 448"
  then have "unat (c AND 504) \<noteq> unat (448 :: u32)" unfolding c_def by (simp only: word_eq_iff_unsigned [where ?'a = nat] not_False_eq_True)
  then have "u \<noteq> 56" using used_octets [of c] by (simp add: u_def)
  moreover have "u < 64" by (simp add: u_def)
  moreover have "unat (sh_count0 (pj_sha1_update ctx [0])) div 8 mod 64 = (u + 1) mod 64"
    using next_octet [of c] by (simp add: update_count0 c_def u_def mod_Suc_eq)
  moreover have "(120 - (u + 1) mod 64) mod 64 < (120 - u) mod 64" if "u \<noteq> 56" "u < 64"
  proof -
    from that consider "u = 63" | "u < 56" | "56 < u" "u < 63" by linarith
    then show ?thesis by cases (auto simp: mod_if)
  qed
  ultimately show "(pj_sha1_update ctx [0], ctx) \<in> measure (\<lambda>ctx. (120 - unat (sh_count0 ctx) div 8 mod 64) mod 64)"
    by (simp add: c_def [symmetric] u_def [symmetric])
qed simp

declare pad_loop.simps [simp del]

definition be_octets :: "u32 \<Rightarrow> bytes" where
  "be_octets w = map (\<lambda>i. ucast (drop_bit ((3 - i) * 8) w AND 255)) [0 ..< 4]"

definition sha1_zero :: sha1_context where
  "sha1_zero = \<lparr>sh_state = (0, 0, 0, 0, 0), sh_count0 = 0, sh_count1 = 0, sh_buffer = replicate 64 0\<rparr>"

definition pj_sha1_final :: "sha1_context \<Rightarrow> bytes \<times> sha1_context" where
  "pj_sha1_final context =
     (let finalcount = be_octets (sh_count1 context) @ be_octets (sh_count0 context);
          context1 = pad_loop (pj_sha1_update context [128]);
          context2 = pj_sha1_update context1 finalcount
      in case sh_state context2 of (a, b, c, d, e) \<Rightarrow>
           (be_octets a @ be_octets b @ be_octets c @ be_octets d @ be_octets e, sha1_zero))"

section \<open>The keyed hash\<close>

record hmac_sha1_context =
  hm_context :: sha1_context
  hm_k_opad :: bytes

definition pj_hmac_sha1_init :: "bytes \<Rightarrow> bytes \<Rightarrow> hmac_sha1_context" where
  "pj_hmac_sha1_init buf key =
     (let key1 = (if length key > 64 then fst (pj_sha1_final (pj_sha1_update (pj_sha1_init buf) key)) else key);
          padded = key1 @ replicate (64 - length key1) 0
      in \<lparr>hm_context = pj_sha1_update (pj_sha1_init buf) (map (\<lambda>c. c XOR 0x36) padded),
          hm_k_opad = map (\<lambda>c. c XOR 0x5c) padded\<rparr>)"

definition pj_hmac_sha1_update :: "hmac_sha1_context \<Rightarrow> bytes \<Rightarrow> hmac_sha1_context" where
  "pj_hmac_sha1_update hctx input = hctx\<lparr>hm_context := pj_sha1_update (hm_context hctx) input\<rparr>"

definition pj_hmac_sha1_final :: "hmac_sha1_context \<Rightarrow> bytes" where
  "pj_hmac_sha1_final hctx =
     (let (digest, context0) = pj_sha1_final (hm_context hctx);
          context1 = pj_sha1_update (pj_sha1_init (sh_buffer context0)) (hm_k_opad hctx);
          context2 = pj_sha1_update context1 digest
      in fst (pj_sha1_final context2))"

definition pj_hmac_sha1 :: "bytes \<Rightarrow> bytes \<Rightarrow> bytes \<Rightarrow> bytes" where
  "pj_hmac_sha1 buf input key = pj_hmac_sha1_final (pj_hmac_sha1_update (pj_hmac_sha1_init buf key) input)"

end
