(* ===== verification/Sha1_Props.thy ===== *)
theory Sha1_Props
  imports Sha1
begin

text \<open>
  The hash function of FIPS 180 and the keyed hash of RFC 2104, and that the code computes them.
\<close>

section \<open>FIPS 180\<close>

fun sched :: "(nat \<Rightarrow> u32) \<Rightarrow> nat \<Rightarrow> u32" where
  "sched m t =
     (if t < 16 then m t
      else rol (sched m (t - 3) XOR sched m (t - 8) XOR sched m (t - 14) XOR sched m (t - 16)) 1)"

definition fips_f :: "nat \<Rightarrow> u32 \<Rightarrow> u32 \<Rightarrow> u32 \<Rightarrow> u32" where
  "fips_f t x y z =
     (if t < 20 then (x AND y) XOR (NOT x AND z)
      else if 40 \<le> t \<and> t < 60 then (x AND y) XOR (x AND z) XOR (y AND z)
      else x XOR y XOR z)"

definition fips_step :: "(nat \<Rightarrow> u32) \<Rightarrow> nat \<Rightarrow> vars \<Rightarrow> vars" where
  "fips_step m t v =
     (case v of (a, b, c, d, e) \<Rightarrow>
        (rol a 5 + fips_f t b c d + e + round_k t + sched m t, a, rol b 30, c, d))"

definition msg_word :: "bytes \<Rightarrow> nat \<Rightarrow> u32" where
  "msg_word block t = be32 (take 4 (drop (4 * t) block))"

definition compress :: "vars \<Rightarrow> bytes \<Rightarrow> vars" where
  "compress v block =
     (case v of (s0, s1, s2, s3, s4) \<Rightarrow>
        case fold (fips_step (msg_word block)) [0 ..< 80] v of (a, b, c, d, e) \<Rightarrow>
          (s0 + a, s1 + b, s2 + c, s3 + d, s4 + e))"

text \<open>The blocks of a message, and the octets that are left.\<close>

function absorb :: "vars \<Rightarrow> bytes \<Rightarrow> vars \<times> bytes" where
  "absorb v m = (if 63 < length m then absorb (compress v (take 64 m)) (drop 64 m) else (v, m))"
  by pat_completeness auto
termination
  by (relation "measure (\<lambda>(v, m). length m)") auto

declare absorb.simps [simp del] sched.simps [simp del]

definition pad :: "bytes \<Rightarrow> bytes" where
  "pad m = m @ [128] @ replicate ((119 - length m mod 64) mod 64) 0
           @ put32 (of_nat (8 * length m div 2 ^ 32)) @ put32 (of_nat (8 * length m))"

definition H0 :: vars where
  "H0 = (0x67452301, 0xEFCDAB89, 0x98BADCFE, 0x10325476, 0xC3D2E1F0)"

definition digest :: "vars \<Rightarrow> bytes" where
  "digest v = (case v of (a, b, c, d, e) \<Rightarrow> put32 a @ put32 b @ put32 c @ put32 d @ put32 e)"

definition sha1 :: "bytes \<Rightarrow> bytes" where
  "sha1 m = digest (fst (absorb H0 (pad m)))"

section \<open>One block\<close>

lemma round_f_fips: "round_f t x y z = fips_f t x y z"
  by (auto simp: round_f_def fips_f_def bit_simps intro!: bit_word_eqI)

lemma swap_octets:
  "(rol (ucast a OR push_bit 8 (ucast b) OR push_bit 16 (ucast c) OR push_bit 24 (ucast (d :: u8))) 24 AND 0xFF00FF00)
   OR (rol (ucast (a :: u8) OR push_bit 8 (ucast (b :: u8)) OR push_bit 16 (ucast (c :: u8)) OR push_bit 24 (ucast d)) 8 AND 0x00FF00FF)
   = be32 [a, b, c, d]"
proof (rule bit_word_eqI)
  fix n assume "n < LENGTH(32)"
  have m: "(0xFF00FF00 :: u32) = push_bit 24 (mask 8) OR push_bit 8 (mask 8)"
    "(0x00FF00FF :: u32) = push_bit 16 (mask 8) OR mask 8"
    by (simp_all add: mask_eq_exp_minus_1)
  from \<open>n < LENGTH(32)\<close> consider "n < 8" | "8 \<le> n" "n < 16" | "16 \<le> n" "n < 24" | "24 \<le> n" "n < 32" by fastforce
  then show "bit ((rol (ucast a OR push_bit 8 (ucast b) OR push_bit 16 (ucast c) OR push_bit 24 (ucast d)) 24 AND 0xFF00FF00)
   OR (rol (ucast a OR push_bit 8 (ucast b) OR push_bit 16 (ucast c) OR push_bit 24 (ucast d)) 8 AND 0x00FF00FF)) n
   = bit (be32 [a, b, c, d]) n"
    unfolding m rol_def be32_def
    by cases (simp_all add: bit_simps, auto)
qed

lemma le_words_length: "length (le_words buf) = length buf div 4"
  by (induction buf rule: le_words.induct) simp_all

lemma le_words_nth:
  "t < length buf div 4 \<Longrightarrow>
   le_words buf ! t = ucast (buf ! (4 * t)) OR push_bit 8 (ucast (buf ! (4 * t + 1)))
     OR push_bit 16 (ucast (buf ! (4 * t + 2))) OR push_bit 24 (ucast (buf ! (4 * t + 3)))"
proof (induction buf arbitrary: t rule: le_words.induct)
  case (1 a b c d buf)
  show ?case
  proof (cases t)
    case (Suc u)
    then have "u < length buf div 4" using "1.prems" by simp
    from "1.IH" [OF this] Suc show ?thesis by (simp add: add.commute)
  qed simp
qed simp_all

lemma blk0_msg_word:
  assumes "length buf = 64" "t < 16" "block ! t = le_words buf ! t"
  shows "blk0 block t = msg_word buf t"
proof -
  have "take 4 (drop (4 * t) buf) = [buf ! (4 * t), buf ! (4 * t + 1), buf ! (4 * t + 2), buf ! (4 * t + 3)]"
    using assms(1,2) by (intro nth_equalityI) (auto simp: numeral_eq_Suc less_Suc_eq)
  then show ?thesis
    using assms le_words_nth [of t buf] by (simp add: blk0_def msg_word_def swap_octets)
qed

text \<open>
  Before round \<open>i\<close> the block holds the last sixteen words of the schedule, and behind them the words
  of the message that have not been used yet.
\<close>

definition block_ok :: "bytes \<Rightarrow> nat \<Rightarrow> u32 list \<Rightarrow> bool" where
  "block_ok buf i block \<longleftrightarrow> length block = 16 \<and>
     (\<forall>t<i. i \<le> t + 16 \<longrightarrow> block ! (t mod 16) = sched (msg_word buf) t) \<and>
     (\<forall>t<16. i \<le> t \<longrightarrow> block ! t = le_words buf ! t)"

lemma sched_next:
  assumes "length buf = 64" "block_ok buf i block"
  shows "(if i < 16 then blk0 block i else blk block i) = sched (msg_word buf) i"
proof (cases "i < 16")
  case True
  then show ?thesis
    using assms blk0_msg_word [of buf i block] by (subst sched.simps) (simp add: block_ok_def)
next
  case False
  have old: "block ! ((i + (16 - k)) mod 16) = sched (msg_word buf) (i - k)" if "0 < k" "k \<le> 16" for k
  proof -
    have "i + (16 - k) = (i - k) + 16" using that False by simp
    then have "(i + (16 - k)) mod 16 = (i - k) mod 16" by simp
    moreover have "i - k < i" "i \<le> (i - k) + 16" using that False by auto
    ultimately show ?thesis
      using assms(2) unfolding block_ok_def by metis
  qed
  show ?thesis
    using False old [of 3] old [of 8] old [of 14] old [of 16]
    by (subst sched.simps) (simp add: blk_def)
qed

lemma round_ok:
  assumes "length buf = 64" "block_ok buf i block" "sha1_round i (v, block) = (v', block')"
  shows "v' = fips_step (msg_word buf) i v \<and> block_ok buf (Suc i) block'"
proof -
  obtain a b c d e where v: "v = (a, b, c, d, e)" by (cases v)
  define w where "w = sched (msg_word buf) i"
  have r: "sha1_round i (v, block) =
           ((e + (round_f i b c d + w + round_k i + rol a 5), a, rol b 30, c, d), block[i mod 16 := w])"
    using sched_next [OF assms(1,2)] by (simp add: v w_def Let_def)
  have len: "length block = 16" using assms(2) by (simp add: block_ok_def)
  have "block[i mod 16 := w] ! (t mod 16) = sched (msg_word buf) t" if "t < Suc i" "Suc i \<le> t + 16" for t
  proof (cases "t = i")
    case True
    then show ?thesis by (simp add: w_def len)
  next
    case False
    then have t: "t < i" "i < t + 16" using that by auto
    then have "t mod 16 \<noteq> i mod 16"
      by (metis add_diff_inverse_nat diff_less_mono2 le_add_diff_inverse less_imp_le_nat mod_eq_dvd_iff_nat nat_dvd_not_less not_less_iff_gr_or_eq zero_less_diff add.commute less_diff_conv2 less_imp_le)
    with t assms(2) show ?thesis by (simp add: block_ok_def)
  qed
  moreover have "block[i mod 16 := w] ! t = le_words buf ! t" if "t < 16" "Suc i \<le> t" for t
    using that assms(2) by (simp add: block_ok_def)
  ultimately have ok: "block_ok buf (Suc i) (block[i mod 16 := w])"
    by (simp add: block_ok_def len)
  have sum: "e + (round_f i b c d + w + round_k i + rol a 5) = rol a 5 + fips_f i b c d + e + round_k i + w"
    by (simp add: round_f_fips)
  have "v' = (rol a 5 + fips_f i b c d + e + round_k i + w, a, rol b 30, c, d)" "block' = block[i mod 16 := w]"
    using assms(3) unfolding r sum by simp_all
  with ok show ?thesis by (simp add: fips_step_def v w_def)
qed

lemma rounds_ok:
  assumes "length buf = 64" "fold sha1_round [0 ..< n] (v, le_words buf) = (v', block)"
  shows "v' = fold (fips_step (msg_word buf)) [0 ..< n] v \<and> block_ok buf n block"
  using assms(2)
proof (induction n arbitrary: v' block)
  case 0
  then have "v' = v" "block = le_words buf" by simp_all
  then show ?case using assms(1) by (simp add: block_ok_def le_words_length)
next
  case (Suc n)
  obtain v1 block1 where f: "fold sha1_round [0 ..< n] (v, le_words buf) = (v1, block1)"
    by (cases "fold sha1_round [0 ..< n] (v, le_words buf)")
  note IH = Suc.IH [OF f]
  have "sha1_round n (v1, block1) = (v', block)" using Suc.prems f by simp
  from round_ok [OF assms(1) conjunct2 [OF IH] this] IH show ?case by simp
qed

lemma transform_fips:
  assumes "length buf = 64"
  shows "fst (SHA1_Transform v buf) = compress v buf" "length (snd (SHA1_Transform v buf)) = 64"
proof -
  obtain v' block where f: "fold sha1_round [0 ..< 80] (v, le_words buf) = (v', block)"
    by (cases "fold sha1_round [0 ..< 80] (v, le_words buf)")
  note r = rounds_ok [OF assms f]
  show "fst (SHA1_Transform v buf) = compress v buf"
    using r f by (auto simp: SHA1_Transform_def compress_def split: prod.splits)
  have "length (concat (map (\<lambda>w :: u32. [ucast w, ucast (drop_bit 8 w), ucast (drop_bit 16 w), ucast (drop_bit 24 w) :: u8]) ws)) = 4 * length ws" for ws
    by (induction ws) simp_all
  moreover have "length block = 16" using r by (simp add: block_ok_def)
  ultimately show "length (snd (SHA1_Transform v buf)) = 64"
    using f by (simp add: SHA1_Transform_def le_octets_def split: prod.splits)
qed

section \<open>A message\<close>

lemma update_blocks_absorb: "update_blocks v data = absorb v data"
  by (induction v data rule: update_blocks.induct)
    (subst update_blocks.simps, subst absorb.simps, simp add: transform_fips)

lemma absorb_rest: "length (snd (absorb v m)) = length m mod 64"
proof (induction v m rule: absorb.induct)
  case (1 v m)
  show ?case
  proof (cases "63 < length m")
    case True
    with "1.IH" show ?thesis by (subst absorb.simps) (simp add: le_mod_geq)
  qed (subst absorb.simps, simp)
qed

lemma absorb_append: "absorb v m = (v', r) \<Longrightarrow> absorb v (m @ d) = absorb v' (r @ d)"
proof (induction v m arbitrary: v' r rule: absorb.induct)
  case (1 v m)
  show ?case
  proof (cases "63 < length m")
    case True
    then have "absorb (compress v (take 64 m)) (drop 64 m) = (v', r)"
      using "1.prems" by (subst (asm) absorb.simps) simp
    from "1.IH" [OF True this] True show ?thesis
      by (subst absorb.simps) simp
  qed (use "1.prems" in \<open>subst (asm) absorb.simps, simp\<close>)
qed

definition represents :: "sha1_context \<Rightarrow> bytes \<Rightarrow> bool" where
  "represents ctx m \<longleftrightarrow>
     absorb H0 m = (sh_state ctx, take (length m mod 64) (sh_buffer ctx)) \<and> length (sh_buffer ctx) = 64 \<and>
     sh_count0 ctx = of_nat (8 * length m) \<and> sh_count1 ctx = of_nat (8 * length m div 2 ^ 32)"

lemma init_represents: "length buf = 64 \<Longrightarrow> represents (pj_sha1_init buf) []"
  by (subst represents_def, subst absorb.simps) (simp add: pj_sha1_init_def H0_def)

lemma count_octets: "unat (of_nat (8 * n) :: u32) div 8 mod 64 = n mod 64"
proof -
  have "(8 * n) mod 2 ^ 32 = 8 * (n mod 2 ^ 29)" using mult_mod_right [of 8 n "2 ^ 29"] by simp
  then have "unat (of_nat (8 * n) :: u32) div 8 = n mod 2 ^ 29"
    by (simp only: unat_of_nat) simp
  moreover have "n mod 2 ^ 29 mod 64 = n mod 64" by (rule mod_mod_cancel) simp
  ultimately show ?thesis by simp
qed

lemma count_carry:
  assumes "n < 2 ^ 29"
  shows "sh_count0 ctx = of_nat (8 * l) \<Longrightarrow> sh_count1 ctx = of_nat (8 * l div 2 ^ 32) \<Longrightarrow>
         sh_count0 (add_count n ctx) = of_nat (8 * (l + n)) \<and>
         sh_count1 (add_count n ctx) = of_nat (8 * (l + n) div 2 ^ 32)"
proof -
  assume c: "sh_count0 ctx = of_nat (8 * l)" "sh_count1 ctx = of_nat (8 * l div 2 ^ 32)"
  define r where "r = (8 * l) mod 2 ^ 32"
  define q where "q = (8 * l) div 2 ^ 32"
  have l: "8 * l = q * 2 ^ 32 + r" unfolding q_def r_def by (rule div_mult_mod_eq [symmetric])
  have r: "r < 2 ^ 32" by (simp add: r_def)
  have n8: "8 * n < 2 ^ 32" using assms by simp
  have p: "push_bit 3 (of_nat n :: u32) = of_nat (8 * n)" "push_bit 3 (of_nat n :: u64) = of_nat (8 * n)"
    by (simp_all add: push_bit_eq_mult)
  have d: "drop_bit 29 (of_nat n :: u32) = 0"
  proof -
    have "unat (of_nat n :: u32) = n" using assms by (simp add: unat_of_nat)
    moreover have "take_bit 32 n = n" using assms by (intro take_bit_nat_eq_self) simp
    ultimately have "unat (drop_bit 29 (of_nat n :: u32)) = drop_bit 29 n"
      by (simp add: unsigned_drop_bit_eq)
    also have "drop_bit 29 n = 0" using assms by (simp add: drop_bit_eq_div)
    finally show ?thesis by (simp add: word_eq_iff_unsigned [where ?'a = nat])
  qed
  have c0: "sh_count0 (add_count n ctx) = of_nat (8 * (l + n))"
    by (simp add: add_count_def Let_def p c)
  have u: "unat (of_nat (8 * (l + n)) :: u32) = (r + 8 * n) mod 2 ^ 32"
  proof -
    have "unat (of_nat (8 * (l + n)) :: u32) = (8 * l + 8 * n) mod 2 ^ 32"
      by (simp only: unat_of_nat) (simp add: distrib_left)
    then show ?thesis unfolding r_def by (simp only: mod_add_left_eq)
  qed
  have lt: "ucast (of_nat (8 * (l + n)) :: u32) < (of_nat (8 * n) :: u64) \<longleftrightarrow> (r + 8 * n) mod 2 ^ 32 < 8 * n"
  proof -
    have "unat (ucast (of_nat (8 * (l + n)) :: u32) :: u64) = (r + 8 * n) mod 2 ^ 32"
      using u by (simp add: unsigned_ucast_eq take_bit_nat_eq_self)
    moreover have "unat (of_nat (8 * n) :: u64) = 8 * n"
      using n8 by (simp only: unat_of_nat) simp
    ultimately show ?thesis by (simp only: word_less_nat_alt)
  qed
  have div: "8 * (l + n) div 2 ^ 32 = q + (if (r + 8 * n) mod 2 ^ 32 < 8 * n then 1 else 0)"
  proof (cases "r + 8 * n < 2 ^ 32")
    case True
    then have "8 * (l + n) div 2 ^ 32 = q" using l by (simp add: distrib_left add.assoc)
    moreover have "\<not> (r + 8 * n) mod 2 ^ 32 < 8 * n" using True by simp
    ultimately show ?thesis by simp
  next
    case False
    define x where "x = r + 8 * n - 2 ^ 32"
    have x: "r + 8 * n = 2 ^ 32 + x" "x < 2 ^ 32" "x < 8 * n" using False r n8 by (auto simp: x_def)
    have "8 * (l + n) = (q + 1) * 2 ^ 32 + x" using l x(1) by (simp add: distrib_left)
    then have "8 * (l + n) div 2 ^ 32 = q + 1" using x(2) by (simp only: div_mult_self3) simp
    moreover have "(r + 8 * n) mod 2 ^ 32 = x" using x by simp
    ultimately show ?thesis using x by simp
  qed
  have "sh_count1 (add_count n ctx) = of_nat (8 * (l + n) div 2 ^ 32)"
    unfolding div using lt by (simp add: add_count_def Let_def p c d q_def)
  with c0 show ?thesis by blast
qed

lemma update_represents:
  assumes "represents ctx m" "length d < 2 ^ 29"
  shows "represents (pj_sha1_update ctx d) (m @ d)"
proof -
  define j where "j = length m mod 64"
  define r where "r = take j (sh_buffer ctx)"
  define ctx1 where "ctx1 = add_count (length d) ctx"
  have a: "absorb H0 m = (sh_state ctx, r)" and b: "length (sh_buffer ctx) = 64"
    using assms(1) by (auto simp: represents_def r_def j_def)
  have rl: "length r = j" and j64: "j < 64" by (simp_all add: r_def j_def b)
  have j: "unat (drop_bit 3 (sh_count0 ctx) AND 63) = j"
    using assms(1) count_octets [of "length m"] by (simp add: block_octets represents_def j_def)
  have c: "sh_count0 ctx1 = of_nat (8 * length (m @ d))" "sh_count1 ctx1 = of_nat (8 * length (m @ d) div 2 ^ 32)"
    using count_carry [OF assms(2), of ctx "length m"] assms(1) by (simp_all add: represents_def ctx1_def)
  have ab: "absorb H0 (m @ d) = absorb (sh_state ctx) (r @ d)" by (rule absorb_append [OF a])
  have st: "store (sh_buffer ctx) j x = r @ x @ drop (j + length x) (sh_buffer ctx)" for x
    by (simp add: store_def r_def)
  have rest: "length (snd (absorb H0 (m @ d))) = length (m @ d) mod 64" by (rule absorb_rest)
  show ?thesis
  proof (cases "j + length d > 63")
    case True
    define i where "i = 64 - j"
    define buf where "buf = store (sh_buffer ctx) j (take i d)"
    have i: "i \<le> length d" using True j64 by (simp add: i_def)
    have bufe: "buf = take 64 (r @ d)" and bl: "length buf = 64"
      using rl j64 i b by (simp_all add: buf_def st i_def)
    have dr: "drop 64 (r @ d) = drop i d" using rl j64 by (simp add: i_def)
    obtain v1 buf1 where t: "SHA1_Transform (sh_state ctx) buf = (v1, buf1)" by (cases "SHA1_Transform (sh_state ctx) buf")
    have v1: "v1 = compress (sh_state ctx) buf" and b1: "length buf1 = 64"
      using transform_fips [OF bl, of "sh_state ctx"] t by simp_all
    obtain v2 e where u: "absorb v1 (drop i d) = (v2, e)" by (cases "absorb v1 (drop i d)")
    have ab': "absorb H0 (m @ d) = (v2, e)"
      unfolding ab using True rl u unfolding v1 bufe dr [symmetric] by (subst absorb.simps) simp
    then have el: "length e = length (m @ d) mod 64" using rest by simp
    then have "length e < 64" by simp
    have "pj_sha1_update ctx d = ctx1\<lparr>sh_state := v2, sh_buffer := store buf1 0 e\<rparr>"
      unfolding pj_sha1_update_def Let_def j
      using True t u by (simp add: i_def [symmetric] buf_def [symmetric] ctx1_def update_blocks_absorb)
    then show ?thesis
      using ab' c el b1 \<open>length e < 64\<close> unfolding represents_def by (simp add: store_def)
  next
    case False
    then have small: "length (r @ d) < 64" using rl by simp
    have ab': "absorb H0 (m @ d) = (sh_state ctx, r @ d)"
      unfolding ab using small by (subst absorb.simps) simp
    then have "length (r @ d) = length (m @ d) mod 64" using rest by simp
    moreover have "pj_sha1_update ctx d = ctx1\<lparr>sh_buffer := store (sh_buffer ctx) j d\<rparr>"
      unfolding pj_sha1_update_def Let_def j using False by (simp add: ctx1_def)
    moreover have "sh_state ctx1 = sh_state ctx" by (simp add: ctx1_def add_count_def Let_def)
    ultimately show ?thesis
      using ab' c small b rl False unfolding represents_def by (simp add: st)
  qed
qed

lemma pad_represents:
  "represents ctx m \<Longrightarrow>
   \<exists>k<64. (length m + k) mod 64 = 56 \<and> represents (pad_loop ctx) (m @ replicate k 0)"
proof (induction ctx arbitrary: m rule: pad_loop.induct)
  case (1 ctx)
  define L where "L = length m mod 64"
  have c: "unat (sh_count0 ctx AND 504) = 8 * L"
    using "1.prems" count_octets [of "length m"] by (simp add: used_octets represents_def L_def)
  show ?case
  proof (cases "sh_count0 ctx AND 504 = 448")
    case True
    then have "L = 56" using c by simp
    with "1.prems" True show ?thesis
      by (intro exI [of _ 0]) (subst pad_loop.simps, simp add: L_def)
  next
    case False
    have "L \<noteq> 56"
    proof
      assume "L = 56"
      then have "unat (sh_count0 ctx AND 504) = unat (448 :: u32)" using c by simp
      with False show False by (simp only: word_eq_iff_unsigned [where ?'a = nat])
    qed
    have "represents (pj_sha1_update ctx [0]) (m @ [0])"
      using "1.prems" by (intro update_represents) simp_all
    from "1.IH" [OF False this] obtain k where k: "k < 64" "(length (m @ [0]) + k) mod 64 = 56"
      "represents (pad_loop (pj_sha1_update ctx [0])) ((m @ [0]) @ replicate k 0)" by blast
    have p: "pad_loop ctx = pad_loop (pj_sha1_update ctx [0])"
      using False by (subst pad_loop.simps) simp
    have "Suc k \<noteq> 64"
    proof
      assume "Suc k = 64"
      then have "(length (m @ [0]) + k) = length m + 64" by simp
      with k(2) have "length m mod 64 = 56" by simp
      with \<open>L \<noteq> 56\<close> show False by (simp add: L_def)
    qed
    with k p show ?thesis by (intro exI [of _ "Suc k"]) simp
  qed
qed

lemma be_octets_put32: "be_octets w = put32 w"
proof -
  have m: "(255 :: u32) = mask 8" by (simp add: mask_eq_exp_minus_1)
  have "(ucast (x AND 255 :: u32) :: u8) = ucast x" for x
    unfolding m by (rule bit_word_eqI) (auto simp: bit_simps)
  then show ?thesis by (simp add: be_octets_def put32_def numeral_eq_Suc)
qed

lemma final_digest:
  assumes "represents ctx m"
  shows "fst (pj_sha1_final ctx) = sha1 m"
proof -
  define n where "n = length m"
  have "represents (pj_sha1_update ctx [128]) (m @ [128])"
    by (rule update_represents [OF assms]) simp
  from pad_represents [OF this] obtain k where k: "k < 64" "(n + 1 + k) mod 64 = 56"
    and rep: "represents (pad_loop (pj_sha1_update ctx [128])) (m @ [128] @ replicate k 0)"
    by (auto simp: n_def)
  have k': "k = (119 - n mod 64) mod 64"
  proof -
    define x where "x = n mod 64 + 1 + k"
    have "(n mod 64 + (1 + k)) mod 64 = (n + (1 + k)) mod 64" by (rule mod_add_left_eq)
    with k(2) have "x mod 64 = 56" by (simp add: x_def)
    moreover have nm: "n mod 64 < 64" by simp
    then have "x div 64 < 2" using k(1) by (simp add: x_def less_mult_imp_div_less)
    ultimately have "x = 56 \<or> x = 120"
      using div_mult_mod_eq [of x 64] by (auto simp: less_2_cases_iff)
    then show ?thesis
    proof
      assume "x = 56"
      then have "119 - n mod 64 = k + 64" by (simp add: x_def)
      then show ?thesis using k(1) by simp
    next
      assume "x = 120"
      then have "119 - n mod 64 = k" by (simp add: x_def)
      then show ?thesis using k(1) by simp
    qed
  qed
  have "represents (pj_sha1_update (pad_loop (pj_sha1_update ctx [128]))
          (put32 (sh_count1 ctx) @ put32 (sh_count0 ctx)))
        ((m @ [128] @ replicate k 0) @ put32 (sh_count1 ctx) @ put32 (sh_count0 ctx))"
    by (rule update_represents [OF rep]) simp
  also have "(m @ [128] @ replicate k 0) @ put32 (sh_count1 ctx) @ put32 (sh_count0 ctx) = pad m"
    using assms by (simp add: pad_def represents_def k' n_def)
  finally show ?thesis
    by (simp add: pj_sha1_final_def Let_def be_octets_put32 represents_def sha1_def digest_def split: prod.splits)
qed

text \<open>
  C24: Hashing a message in any number of pieces gives the digest of FIPS 180 for the whole message, as
  long as each piece has fewer than \<open>2 ^ 29\<close> octets.
\<close>

theorem sha1_fips180:
  assumes "length buf = 64" "\<forall>d\<in>set pieces. length d < 2 ^ 29"
  shows "fst (pj_sha1_final (foldl pj_sha1_update (pj_sha1_init buf) pieces)) = sha1 (concat pieces)"
proof -
  have "represents ctx m \<Longrightarrow> represents (foldl pj_sha1_update ctx pieces) (m @ concat pieces)" for ctx m
    using assms(2)
  proof (induction pieces arbitrary: ctx m)
    case (Cons d pieces)
    then have "represents (pj_sha1_update ctx d) (m @ d)" by (intro update_represents) simp_all
    from Cons.IH [OF this] Cons.prems show ?case by simp
  qed simp
  from this [OF init_represents [OF assms(1)]] show ?thesis
    using final_digest by fastforce
qed

theorem sha1_fips180_witness:
  "fst (pj_sha1_final (foldl pj_sha1_update (pj_sha1_init (replicate 64 0)) [[97], [98, 99]])) = sha1 [97, 98, 99]"
  using sha1_fips180 [of "replicate 64 0" "[[97], [98, 99]]"] by simp

section \<open>RFC 2104\<close>

definition hmac_key :: "bytes \<Rightarrow> bytes" where
  "hmac_key key = (let k = (if length key > 64 then sha1 key else key) in k @ replicate (64 - length k) 0)"

definition hmac :: "bytes \<Rightarrow> bytes \<Rightarrow> bytes" where
  "hmac key m = sha1 (map (\<lambda>c. c XOR 0x5c) (hmac_key key) @ sha1 (map (\<lambda>c. c XOR 0x36) (hmac_key key) @ m))"

lemma sha1_length [simp]: "length (sha1 m) = 20"
  by (simp add: sha1_def digest_def split: prod.splits)

lemma hmac_key_length: "length (hmac_key key) = 64"
  by (auto simp: hmac_key_def Let_def)

text \<open>
  C25: The keyed hash is HMAC of RFC 2104 over SHA-1; a key of more than 64 octets is hashed first.
\<close>

theorem hmac_sha1_rfc2104:
  assumes "length buf = 64" "length key < 2 ^ 29" "length input < 2 ^ 29"
  shows "pj_hmac_sha1 buf input key = hmac key input"
proof -
  note init = init_represents [OF assms(1)]
  have "fst (pj_sha1_final (pj_sha1_update (pj_sha1_init buf) key)) = sha1 key"
    using final_digest [OF update_represents [OF init assms(2)]] by simp
  then have k: "(let key1 = (if length key > 64 then fst (pj_sha1_final (pj_sha1_update (pj_sha1_init buf) key)) else key)
                 in key1 @ replicate (64 - length key1) 0) = hmac_key key"
    by (simp add: hmac_key_def)
  define ctx where "ctx = pj_sha1_update (pj_sha1_init buf) (map (\<lambda>c. c XOR 0x36) (hmac_key key))"
  have h: "pj_hmac_sha1_init buf key = \<lparr>hm_context = ctx, hm_k_opad = map (\<lambda>c. c XOR 0x5c) (hmac_key key)\<rparr>"
    unfolding pj_hmac_sha1_init_def ctx_def k [symmetric] by (simp add: Let_def)
  have "represents ctx (map (\<lambda>c. c XOR 0x36) (hmac_key key))"
    using update_represents [OF init, of "map (\<lambda>c. c XOR 0x36) (hmac_key key)"] by (simp add: ctx_def hmac_key_length)
  from final_digest [OF update_represents [OF this assms(3)]]
  have inner: "fst (pj_sha1_final (pj_sha1_update ctx input)) = sha1 (map (\<lambda>c. c XOR 0x36) (hmac_key key) @ input)" .
  have zero: "sh_buffer (snd (pj_sha1_final c)) = replicate 64 0" for c
    by (simp add: pj_sha1_final_def Let_def sha1_zero_def split: prod.splits)
  have "represents (pj_sha1_init (replicate 64 0)) []" by (rule init_represents) simp
  from update_represents [OF this, of "map (\<lambda>c. c XOR 0x5c) (hmac_key key)"]
  have "represents (pj_sha1_update (pj_sha1_init (replicate 64 0)) (map (\<lambda>c. c XOR 0x5c) (hmac_key key)))
        (map (\<lambda>c. c XOR 0x5c) (hmac_key key))" by (simp add: hmac_key_length)
  from final_digest [OF update_represents [OF this]] inner zero
  show ?thesis
    by (simp add: pj_hmac_sha1_def pj_hmac_sha1_final_def pj_hmac_sha1_update_def h hmac_def case_prod_beta)
qed

theorem hmac_sha1_rfc2104_witness:
  "pj_hmac_sha1 (replicate 64 0) [1, 2] (replicate 70 7) = hmac (replicate 70 7) [1, 2]"
  using hmac_sha1_rfc2104 [of "replicate 64 0" "replicate 70 7" "[1, 2]"] by simp

end
