(* ===== verification/Crc32.thy ===== *)
theory Crc32
  imports Packet
begin

text \<open>
  The checksum of \<^verbatim>\<open>pjlib-util/src/pjlib-util/crc32.c\<close>, in the two versions of the source: with a table, as it
  is built by default on little endian machines, and bit by bit (\<^verbatim>\<open>PJ_CRC32_HAS_TABLES\<close> 0). The two
  are shown to compute the same.
\<close>

section \<open>With tables\<close>

definition CRC32_NEGL :: u32 where
  "CRC32_NEGL = 0xffffffff"

definition crc_tab :: "u32 list" where
  "crc_tab = [
     0x00000000, 0x77073096, 0xee0e612c, 0x990951ba, 0x076dc419, 0x706af48f,
     0xe963a535, 0x9e6495a3, 0x0edb8832, 0x79dcb8a4, 0xe0d5e91e, 0x97d2d988,
     0x09b64c2b, 0x7eb17cbd, 0xe7b82d07, 0x90bf1d91, 0x1db71064, 0x6ab020f2,
     0xf3b97148, 0x84be41de, 0x1adad47d, 0x6ddde4eb, 0xf4d4b551, 0x83d385c7,
     0x136c9856, 0x646ba8c0, 0xfd62f97a, 0x8a65c9ec, 0x14015c4f, 0x63066cd9,
     0xfa0f3d63, 0x8d080df5, 0x3b6e20c8, 0x4c69105e, 0xd56041e4, 0xa2677172,
     0x3c03e4d1, 0x4b04d447, 0xd20d85fd, 0xa50ab56b, 0x35b5a8fa, 0x42b2986c,
     0xdbbbc9d6, 0xacbcf940, 0x32d86ce3, 0x45df5c75, 0xdcd60dcf, 0xabd13d59,
     0x26d930ac, 0x51de003a, 0xc8d75180, 0xbfd06116, 0x21b4f4b5, 0x56b3c423,
     0xcfba9599, 0xb8bda50f, 0x2802b89e, 0x5f058808, 0xc60cd9b2, 0xb10be924,
     0x2f6f7c87, 0x58684c11, 0xc1611dab, 0xb6662d3d, 0x76dc4190, 0x01db7106,
     0x98d220bc, 0xefd5102a, 0x71b18589, 0x06b6b51f, 0x9fbfe4a5, 0xe8b8d433,
     0x7807c9a2, 0x0f00f934, 0x9609a88e, 0xe10e9818, 0x7f6a0dbb, 0x086d3d2d,
     0x91646c97, 0xe6635c01, 0x6b6b51f4, 0x1c6c6162, 0x856530d8, 0xf262004e,
     0x6c0695ed, 0x1b01a57b, 0x8208f4c1, 0xf50fc457, 0x65b0d9c6, 0x12b7e950,
     0x8bbeb8ea, 0xfcb9887c, 0x62dd1ddf, 0x15da2d49, 0x8cd37cf3, 0xfbd44c65,
     0x4db26158, 0x3ab551ce, 0xa3bc0074, 0xd4bb30e2, 0x4adfa541, 0x3dd895d7,
     0xa4d1c46d, 0xd3d6f4fb, 0x4369e96a, 0x346ed9fc, 0xad678846, 0xda60b8d0,
     0x44042d73, 0x33031de5, 0xaa0a4c5f, 0xdd0d7cc9, 0x5005713c, 0x270241aa,
     0xbe0b1010, 0xc90c2086, 0x5768b525, 0x206f85b3, 0xb966d409, 0xce61e49f,
     0x5edef90e, 0x29d9c998, 0xb0d09822, 0xc7d7a8b4, 0x59b33d17, 0x2eb40d81,
     0xb7bd5c3b, 0xc0ba6cad, 0xedb88320, 0x9abfb3b6, 0x03b6e20c, 0x74b1d29a,
     0xead54739, 0x9dd277af, 0x04db2615, 0x73dc1683, 0xe3630b12, 0x94643b84,
     0x0d6d6a3e, 0x7a6a5aa8, 0xe40ecf0b, 0x9309ff9d, 0x0a00ae27, 0x7d079eb1,
     0xf00f9344, 0x8708a3d2, 0x1e01f268, 0x6906c2fe, 0xf762575d, 0x806567cb,
     0x196c3671, 0x6e6b06e7, 0xfed41b76, 0x89d32be0, 0x10da7a5a, 0x67dd4acc,
     0xf9b9df6f, 0x8ebeeff9, 0x17b7be43, 0x60b08ed5, 0xd6d6a3e8, 0xa1d1937e,
     0x38d8c2c4, 0x4fdff252, 0xd1bb67f1, 0xa6bc5767, 0x3fb506dd, 0x48b2364b,
     0xd80d2bda, 0xaf0a1b4c, 0x36034af6, 0x41047a60, 0xdf60efc3, 0xa867df55,
     0x316e8eef, 0x4669be79, 0xcb61b38c, 0xbc66831a, 0x256fd2a0, 0x5268e236,
     0xcc0c7795, 0xbb0b4703, 0x220216b9, 0x5505262f, 0xc5ba3bbe, 0xb2bd0b28,
     0x2bb45a92, 0x5cb36a04, 0xc2d7ffa7, 0xb5d0cf31, 0x2cd99e8b, 0x5bdeae1d,
     0x9b64c2b0, 0xec63f226, 0x756aa39c, 0x026d930a, 0x9c0906a9, 0xeb0e363f,
     0x72076785, 0x05005713, 0x95bf4a82, 0xe2b87a14, 0x7bb12bae, 0x0cb61b38,
     0x92d28e9b, 0xe5d5be0d, 0x7cdcefb7, 0x0bdbdf21, 0x86d3d2d4, 0xf1d4e242,
     0x68ddb3f8, 0x1fda836e, 0x81be16cd, 0xf6b9265b, 0x6fb077e1, 0x18b74777,
     0x88085ae6, 0xff0f6a70, 0x66063bca, 0x11010b5c, 0x8f659eff, 0xf862ae69,
     0x616bffd3, 0x166ccf45, 0xa00ae278, 0xd70dd2ee, 0x4e048354, 0x3903b3c2,
     0xa7672661, 0xd06016f7, 0x4969474d, 0x3e6e77db, 0xaed16a4a, 0xd9d65adc,
     0x40df0b66, 0x37d83bf0, 0xa9bcae53, 0xdebb9ec5, 0x47b2cf7f, 0x30b5ffe9,
     0xbdbdf21c, 0xcabac28a, 0x53b39330, 0x24b4a3a6, 0xbad03605, 0xcdd70693,
     0x54de5729, 0x23d967bf, 0xb3667a2e, 0xc4614ab8, 0x5d681b02, 0x2a6f2b94,
     0xb40bbe37, 0xc30c8ea1, 0x5a05df1b, 0x2d02ef8d]"

definition CRC32_INDEX :: "u32 \<Rightarrow> u32" where
  "CRC32_INDEX c = c AND 0xff"

definition CRC32_SHIFTED :: "u32 \<Rightarrow> u32" where
  "CRC32_SHIFTED c = drop_bit 8 c"

definition CRC32_SWAP :: "u32 \<Rightarrow> u32" where
  "CRC32_SWAP c = c"

definition pj_crc32_init :: u32 where
  "pj_crc32_init = 0"

text \<open>A step for one octet, as in the first and the last loop.\<close>

definition crc_step :: "u32 \<Rightarrow> u8 \<Rightarrow> u32" where
  "crc_step crc d = crc_tab ! unat (CRC32_INDEX crc XOR ucast d) XOR CRC32_SHIFTED crc"

text \<open>The first loop runs until the address of the data is a multiple of four.\<close>

fun crc_align :: "nat \<Rightarrow> u32 \<Rightarrow> bytes \<Rightarrow> u32 \<times> bytes" where
  "crc_align addr crc [] = (crc, [])"
| "crc_align addr crc (d # data) =
     (if addr mod 4 \<noteq> 0 then crc_align (addr + 1) (crc_step crc d) data else (crc, d # data))"

text \<open>The second loop takes four octets at once, as a little endian word.\<close>

definition crc_shift :: "u32 \<Rightarrow> u32" where
  "crc_shift crc = crc_tab ! unat (CRC32_INDEX crc) XOR CRC32_SHIFTED crc"

definition le32 :: "u8 \<Rightarrow> u8 \<Rightarrow> u8 \<Rightarrow> u8 \<Rightarrow> u32" where
  "le32 a b c d = ucast a OR push_bit 8 (ucast b) OR push_bit 16 (ucast c) OR push_bit 24 (ucast d)"

fun crc_words :: "u32 \<Rightarrow> bytes \<Rightarrow> u32 \<times> bytes" where
  "crc_words crc (a # b # c # d # data) =
     crc_words (crc_shift (crc_shift (crc_shift (crc_shift (crc XOR le32 a b c d))))) data"
| "crc_words crc data = (crc, data)"

fun crc_tail :: "u32 \<Rightarrow> bytes \<Rightarrow> u32" where
  "crc_tail crc [] = crc"
| "crc_tail crc (d # data) = crc_tail (crc_step crc d) data"

text \<open>The state is kept complemented; \<open>addr\<close> is the address of the data.\<close>

definition pj_crc32_update :: "u32 \<Rightarrow> nat \<Rightarrow> bytes \<Rightarrow> u32" where
  "pj_crc32_update crc_state addr data =
     (let (crc1, data1) = crc_align addr (crc_state XOR CRC32_NEGL) data;
          (crc2, data2) = crc_words crc1 data1
      in crc_tail crc2 data2 XOR CRC32_NEGL)"

definition pj_crc32_final :: "u32 \<Rightarrow> u32" where
  "pj_crc32_final crc_state = CRC32_SWAP crc_state"

definition pj_crc32_calc :: "nat \<Rightarrow> bytes \<Rightarrow> u32" where
  "pj_crc32_calc addr data = pj_crc32_final (pj_crc32_update pj_crc32_init addr data)"

section \<open>Bit by bit\<close>

definition bit_init :: u32 where
  "bit_init = CRC32_NEGL"

text \<open>The inner loop over the eight bits.\<close>

fun bit_loop :: "nat \<Rightarrow> u32 \<Rightarrow> u32" where
  "bit_loop 0 temp = temp"
| "bit_loop (Suc n) temp =
     bit_loop n (if temp AND 1 \<noteq> 0 then drop_bit 1 temp XOR 0xEDB88320 else drop_bit 1 temp)"

fun bit_update :: "u32 \<Rightarrow> bytes \<Rightarrow> u32" where
  "bit_update crc [] = crc"
| "bit_update crc (d # data) =
     bit_update (drop_bit 8 crc XOR bit_loop 8 ((crc AND 0xFF) XOR ucast d)) data"

definition bit_final :: "u32 \<Rightarrow> u32" where
  "bit_final crc_state = crc_state XOR CRC32_NEGL"

definition bit_calc :: "bytes \<Rightarrow> u32" where
  "bit_calc data = bit_final (bit_update bit_init data)"

section \<open>Both compute the same\<close>

text \<open>The loop over the bits is linear, so its values follow from those at the powers of two.\<close>

lemma bit_step_xor:
  fixes a b :: u32
  shows "(if (a XOR b) AND 1 \<noteq> 0 then drop_bit 1 (a XOR b) XOR p else drop_bit 1 (a XOR b))
         = (if a AND 1 \<noteq> 0 then drop_bit 1 a XOR p else drop_bit 1 a)
           XOR (if b AND 1 \<noteq> 0 then drop_bit 1 b XOR p else drop_bit 1 b)"
proof -
  have odd: "(w AND 1 \<noteq> 0) = bit w 0" for w :: u32
    by (simp add: and_one_eq bit_0 odd_iff_mod_2_eq_one flip: mod_2_eq_odd)
  have "x XOR y = (x XOR p) XOR (y XOR p)" "(x XOR y) XOR p = x XOR (y XOR p)"
    "(x XOR y) XOR p = (x XOR p) XOR y" for x y :: u32
    by (auto intro!: bit_word_eqI simp: bit_xor_iff)
  then show ?thesis
    unfolding odd drop_bit_xor bit_xor_iff
    by (cases "bit a 0"; cases "bit b 0") (simp_all only: if_True if_False simp_thms)
qed

lemma bit_loop_xor: "bit_loop n (a XOR b) = bit_loop n a XOR bit_loop n b"
  by (induction n arbitrary: a b) (simp_all only: bit_loop.simps bit_step_xor)

lemma bit_loop_powers:
  "bit_loop 8 1 = 0x77073096" "bit_loop 8 2 = 0xee0e612c" "bit_loop 8 4 = 0x076dc419"
  "bit_loop 8 8 = 0x0edb8832" "bit_loop 8 16 = 0x1db71064" "bit_loop 8 32 = 0x3b6e20c8"
  "bit_loop 8 64 = 0x76dc4190" "bit_loop 8 128 = 0xedb88320" "bit_loop 8 0 = 0"
  by code_simp+

fun xor_table :: "u32 list \<Rightarrow> u32 list" where
  "xor_table [] = [0]"
| "xor_table (v # vs) = xor_table vs @ map (\<lambda>t. v XOR t) (xor_table vs)"

lemma crc_tab_xor: "crc_tab = xor_table [0xedb88320, 0x76dc4190, 0x3b6e20c8, 0x1db71064, 0x0edb8832, 0x076dc419, 0xee0e612c, 0x77073096]"
  by (simp add: crc_tab_def)

text \<open>The table is the loop over the bits, for every octet.\<close>

lemma xor_table_length: "length (xor_table vs) = 2 ^ length vs"
  by (induction vs) simp_all

lemma power_xor: "n < 2 ^ k \<Longrightarrow> k < 32 \<Longrightarrow> (of_nat (2 ^ k + n) :: u32) = 2 ^ k XOR of_nat n"
proof -
  assume "n < 2 ^ k" "k < 32"
  then have "take_bit k n = n" by (simp add: take_bit_nat_eq_self)
  then have "\<not> bit n k" by (metis bit_take_bit_iff less_irrefl)
  then have "(2 ^ k :: nat) AND n = 0"
    by (auto intro!: bit_eqI simp: bit_and_iff bit_exp_iff)
  then have "(of_nat (2 ^ k) :: u32) AND of_nat n = 0"
    by (simp flip: of_nat_and_eq del: of_nat_power)
  from disjunctive_add_eq_xor [OF this] show ?thesis by simp
qed

lemma xor_table_bits:
  assumes "\<And>i. i < length vs \<Longrightarrow> vs ! i = bit_loop 8 (2 ^ (length vs - 1 - i))" "length vs \<le> 8"
  shows "n < 2 ^ length vs \<Longrightarrow> xor_table vs ! n = bit_loop 8 (of_nat n)"
  using assms
proof (induction vs arbitrary: n)
  case Nil
  then show ?case by (simp add: bit_loop_powers)
next
  case (Cons v vs)
  have vs: "vs ! i = bit_loop 8 (2 ^ (length vs - 1 - i))" if "i < length vs" for i
    using Cons.prems(2) [of "Suc i"] that by simp
  have v: "v = bit_loop 8 (2 ^ length vs)" using Cons.prems(2) [of 0] by simp
  note IH = Cons.IH [OF _ vs]
  show ?case
  proof (cases "n < 2 ^ length vs")
    case True
    with IH [of n] Cons.prems(3) show ?thesis by (simp add: nth_append xor_table_length)
  next
    case False
    define m where "m = n - 2 ^ length vs"
    have n: "n = 2 ^ length vs + m" and m: "m < 2 ^ length vs" using False Cons.prems(1) by (auto simp: m_def)
    have "xor_table (v # vs) ! n = v XOR xor_table vs ! m"
      using m by (simp add: nth_append xor_table_length n)
    also have "\<dots> = bit_loop 8 (2 ^ length vs XOR of_nat m)"
      using IH [OF m] Cons.prems(3) by (simp add: v bit_loop_xor)
    also have "2 ^ length vs XOR of_nat m = (of_nat n :: u32)"
      using power_xor [OF m] Cons.prems(3) by (simp add: n)
    finally show ?thesis .
  qed
qed

lemma low_octet: "(w AND 0xff :: u32) = take_bit 8 w"
  by (simp add: take_bit_eq_mask mask_eq_exp_minus_1)

lemma crc_tab_low: "crc_tab ! unat (w AND 0xff :: u32) = bit_loop 8 (w AND 0xff)"
proof -
  define vs :: "u32 list" where
    "vs = [0xedb88320, 0x76dc4190, 0x3b6e20c8, 0x1db71064, 0x0edb8832, 0x076dc419, 0xee0e612c, 0x77073096]"
  have len: "length vs = 8" by (simp add: vs_def)
  have "unat (w AND 0xff) < 2 ^ 8"
    unfolding low_octet unsigned_take_bit_eq by (rule take_bit_nat_less_exp)
  moreover have "vs ! i = bit_loop 8 (2 ^ (8 - 1 - i))" if "i < 8" for i
    using less_8_cases [OF that] by (auto simp: bit_loop_powers vs_def)
  ultimately have "xor_table vs ! unat (w AND 0xff) = bit_loop 8 (of_nat (unat (w AND 0xff)))"
    by (intro xor_table_bits) (simp_all only: len order.refl)
  then show ?thesis by (simp add: crc_tab_xor vs_def)
qed

lemma bit_octet: "bit (d :: u8) n \<Longrightarrow> n < 8"
  using no_high_bit(1) not_le by blast

text \<open>A step of the loops with the table is a step of the loop without.\<close>

lemma octet_low: "(ucast (d :: u8) :: u32) AND 0xff = ucast d"
  unfolding low_octet by (rule bit_word_eqI) (auto simp: bit_simps dest: bit_octet)

lemma crc_step_bits: "crc_step crc d = drop_bit 8 crc XOR bit_loop 8 ((crc AND 0xFF) XOR ucast d)"
proof -
  have "(crc AND 0xff) XOR ucast d = (crc XOR ucast d) AND 0xff"
    using octet_low [of d] by (simp add: low_octet)
  then show ?thesis
    using crc_tab_low [of "crc XOR ucast d"] by (simp add: crc_step_def CRC32_INDEX_def CRC32_SHIFTED_def xor.commute)
qed

lemma crc_step_shift: "crc_step crc d = crc_shift (crc XOR ucast d)"
proof -
  have "(crc XOR ucast d) AND 0xff = (crc AND 0xff) XOR ucast d" using octet_low [of d] by (simp add: low_octet)
  moreover have "drop_bit 8 (crc XOR ucast d) = drop_bit 8 crc"
    by (rule bit_word_eqI) (auto simp: bit_simps)
  ultimately show ?thesis by (simp add: crc_step_def crc_shift_def CRC32_INDEX_def CRC32_SHIFTED_def)
qed

lemma crc_shift_xor: "drop_bit 8 (push_bit 8 x) = x \<Longrightarrow> crc_shift (crc XOR push_bit 8 x) = crc_shift crc XOR x"
proof -
  assume "drop_bit 8 (push_bit 8 x) = x"
  moreover have "(crc XOR push_bit 8 x) AND 0xff = crc AND 0xff"
    unfolding low_octet by (rule bit_word_eqI) (auto simp: bit_simps)
  ultimately show ?thesis by (simp add: crc_shift_def CRC32_INDEX_def CRC32_SHIFTED_def xor.assoc)
qed

lemma crc_tail_bits: "crc_tail crc data = bit_update crc data"
  by (induction data arbitrary: crc) (simp_all add: crc_step_bits)

lemma crc_align_bits:
  "crc_align addr crc data = (crc1, data1) \<Longrightarrow> bit_update crc1 data1 = bit_update crc data"
  by (induction addr crc data rule: crc_align.induct) (auto simp: crc_step_bits split: if_splits)

lemma low_24_bits:
  assumes "\<And>n. bit x n \<Longrightarrow> n < 24"
  shows "drop_bit 8 (push_bit 8 x) = (x :: u32)"
  by (rule bit_word_eqI) (auto simp: bit_simps dest: assms)

lemma crc_four:
  "crc_shift (crc_shift (crc_shift (crc_shift (crc XOR le32 a b c d))))
   = crc_step (crc_step (crc_step (crc_step crc a) b) c) d"
proof -
  define w3 :: u32 where "w3 = ucast d"
  define w2 :: u32 where "w2 = ucast c XOR push_bit 8 w3"
  define w1 :: u32 where "w1 = ucast b XOR push_bit 8 w2"
  have b3: "bit w3 n \<Longrightarrow> n < 8" for n by (auto simp: w3_def bit_simps dest: bit_octet)
  have b2: "bit w2 n \<Longrightarrow> n < 16" for n using b3 [of "n - 8"] by (auto simp: w2_def bit_simps dest: bit_octet)
  have b1: "bit w1 n \<Longrightarrow> n < 24" for n using b2 [of "n - 8"] by (auto simp: w1_def bit_simps dest: bit_octet)
  have w: "drop_bit 8 (push_bit 8 w1) = w1" "drop_bit 8 (push_bit 8 w2) = w2" "drop_bit 8 (push_bit 8 w3) = w3"
    by (rule low_24_bits, drule b1 b2 b3, simp)+
  have "le32 a b c d = ucast a XOR push_bit 8 w1"
    by (rule bit_word_eqI) (auto simp: le32_def w1_def w2_def w3_def bit_simps)
  then have "crc XOR le32 a b c d = (crc XOR ucast a) XOR push_bit 8 w1" by (simp add: xor.assoc)
  then have 1: "crc_shift (crc XOR le32 a b c d) = crc_step crc a XOR w1"
    by (simp add: crc_shift_xor [OF w(1)] crc_step_shift)
  have 2: "crc_shift (x XOR w1) = crc_step x b XOR w2" for x
    using crc_shift_xor [OF w(2), of "x XOR ucast b"] by (simp add: w1_def xor.assoc crc_step_shift)
  have 3: "crc_shift (x XOR w2) = crc_step x c XOR w3" for x
    using crc_shift_xor [OF w(3), of "x XOR ucast c"] by (simp add: w2_def xor.assoc crc_step_shift)
  show ?thesis by (simp add: 1 2 3) (simp add: w3_def crc_step_shift)
qed

lemma crc_words_bits:
  "crc_words crc data = (crc1, data1) \<Longrightarrow> bit_update crc1 data1 = bit_update crc data"
  by (induction crc data rule: crc_words.induct) (simp_all add: crc_four crc_step_bits)

lemma crc_update_bits:
  "pj_crc32_update crc_state addr data = bit_update (crc_state XOR CRC32_NEGL) data XOR CRC32_NEGL"
  by (simp add: pj_crc32_update_def crc_tail_bits crc_align_bits crc_words_bits split: prod.splits)

lemma bit_update_append: "bit_update crc (a @ b) = bit_update (bit_update crc a) b"
  by (induction a arbitrary: crc) simp_all

text \<open>
  C23: With the table, four octets at a time and at any address, the checksum of octets given in any
  number of pieces is the checksum computed bit by bit.
\<close>

theorem crc32_table_is_bitwise:
  "pj_crc32_final (foldl (\<lambda>st (addr, data). pj_crc32_update st addr data) pj_crc32_init pieces)
   = bit_calc (concat (map snd pieces))"
proof -
  have neg: "(x XOR CRC32_NEGL) XOR CRC32_NEGL = x" for x
    by (simp add: xor.assoc)
  have "foldl (\<lambda>st (addr, data). pj_crc32_update st addr data) st pieces
        = bit_update (st XOR CRC32_NEGL) (concat (map snd pieces)) XOR CRC32_NEGL" for st
    by (induction pieces arbitrary: st) (auto simp: neg crc_update_bits bit_update_append)
  then show ?thesis
    by (simp add: pj_crc32_init_def pj_crc32_final_def CRC32_SWAP_def bit_calc_def bit_final_def bit_init_def)
qed

end
