(* ===== verification/Stun_Msg.thy ===== *)
theory Stun_Msg
  imports Crc32 Sha1
begin

text \<open>
  STUN messages, \<^verbatim>\<open>pjnath/src/pjnath/stun_msg.c\<close>: making messages and attributes, checking and decoding
  received packets with the error responses, and encoding with message integrity and fingerprint.
  Decoding reads from the memory of the packet, encoding writes to a buffer; \<open>Outside\<close> is the result
  when either leaves it, or when a length is negative.
\<close>

section \<open>Types\<close>

definition PJ_STUN_MAGIC :: u32 where "PJ_STUN_MAGIC = 0x2112A442"
definition STUN_XOR_FINGERPRINT :: u32 where "STUN_XOR_FINGERPRINT = 0x5354554e"
definition PJ_STUN_MAX_ATTR :: nat where "PJ_STUN_MAX_ATTR = 16"

definition PJ_STUN_IS_REQUEST :: "u16 \<Rightarrow> bool" where
  "PJ_STUN_IS_REQUEST msg_type \<longleftrightarrow> msg_type AND 0x0110 = 0"
definition PJ_STUN_IS_SUCCESS_RESPONSE :: "u16 \<Rightarrow> bool" where
  "PJ_STUN_IS_SUCCESS_RESPONSE msg_type \<longleftrightarrow> msg_type AND 0x0110 = 0x0100"
definition PJ_STUN_IS_ERROR_RESPONSE :: "u16 \<Rightarrow> bool" where
  "PJ_STUN_IS_ERROR_RESPONSE msg_type \<longleftrightarrow> msg_type AND 0x0110 = 0x0110"
definition PJ_STUN_IS_INDICATION :: "u16 \<Rightarrow> bool" where
  "PJ_STUN_IS_INDICATION msg_type \<longleftrightarrow> msg_type AND 0x0110 = 0x0010"
definition PJ_STUN_SUCCESS_RESPONSE_BIT :: u16 where "PJ_STUN_SUCCESS_RESPONSE_BIT = 0x0100"
definition PJ_STUN_ERROR_RESPONSE_BIT :: u16 where "PJ_STUN_ERROR_RESPONSE_BIT = 0x0110"
definition PJ_STUN_GET_METHOD :: "u16 \<Rightarrow> u16" where "PJ_STUN_GET_METHOD msg_type = msg_type AND 0xFEEF"

definition PJ_STUN_ATTR_MESSAGE_INTEGRITY :: u16 where "PJ_STUN_ATTR_MESSAGE_INTEGRITY = 0x0008"
definition PJ_STUN_ATTR_ERROR_CODE :: u16 where "PJ_STUN_ATTR_ERROR_CODE = 0x0009"
definition PJ_STUN_ATTR_UNKNOWN_ATTRIBUTES :: u16 where "PJ_STUN_ATTR_UNKNOWN_ATTRIBUTES = 0x000A"
definition PJ_STUN_ATTR_SOFTWARE :: u16 where "PJ_STUN_ATTR_SOFTWARE = 0x8022"
definition PJ_STUN_ATTR_FINGERPRINT :: u16 where "PJ_STUN_ATTR_FINGERPRINT = 0x8028"
definition PJ_STUN_ATTR_END_MANDATORY_ATTR :: u16 where "PJ_STUN_ATTR_END_MANDATORY_ATTR = 0x0031"
definition PJ_STUN_ATTR_START_EXTENDED_ATTR :: u16 where "PJ_STUN_ATTR_START_EXTENDED_ATTR = 0x8021"
definition PJ_STUN_ATTR_END_EXTENDED_ATTR :: u16 where "PJ_STUN_ATTR_END_EXTENDED_ATTR = 0x802b"

definition PJ_STUN_IS_DATAGRAM :: u32 where "PJ_STUN_IS_DATAGRAM = 1"
definition PJ_STUN_CHECK_PACKET :: u32 where "PJ_STUN_CHECK_PACKET = 2"
definition PJ_STUN_NO_FINGERPRINT_CHECK :: u32 where "PJ_STUN_NO_FINGERPRINT_CHECK = 8"

lemmas stun_consts = PJ_STUN_ATTR_MESSAGE_INTEGRITY_def PJ_STUN_ATTR_ERROR_CODE_def
  PJ_STUN_ATTR_UNKNOWN_ATTRIBUTES_def PJ_STUN_ATTR_SOFTWARE_def PJ_STUN_ATTR_FINGERPRINT_def
  PJ_STUN_ATTR_END_MANDATORY_ATTR_def PJ_STUN_ATTR_START_EXTENDED_ATTR_def PJ_STUN_ATTR_END_EXTENDED_ATTR_def

record stun_hdr =
  mh_type :: u16
  mh_length :: u16
  mh_magic :: u32
  mh_tsx_id :: bytes

text \<open>
  A socket address: the port, which the structure has in network byte order, and the octets of the
  address; other address families have neither.
\<close>

datatype sockaddr = Sockaddr_In u16 bytes | Sockaddr_In6 u16 bytes | Sockaddr_Other

text \<open>
  What follows the attribute header in the structures \<^verbatim>\<open>pj_stun_*_attr\<close>. The flag of an address says
  whether it is sent exclusive-ored; a binary attribute has a magic number that marks the structure.
\<close>

datatype attr_body =
    Sockaddr_Body bool sockaddr
  | Empty_Body
  | String_Body bytes
  | Uint_Body u32
  | Uint64_Body u32 u32
  | Msgint_Body bytes
  | Errcode_Body int bytes
  | Unknown_Body "u16 list"
  | Binary_Body u32 bytes

record stun_attr =
  sa_type :: u16
  sa_length :: u16
  sa_body :: attr_body

record stun_msg =
  sm_hdr :: stun_hdr
  sm_attr :: "stun_attr list"

section \<open>Tables\<close>

text \<open>
  The descriptors: a name and the three functions \<^verbatim>\<open>decode_attr\<close>, \<^verbatim>\<open>encode_attr\<close> and \<^verbatim>\<open>clone_attr\<close>, which come in
  the combinations below.
\<close>

datatype attr_kind =
  K_Sockaddr | K_Xored_Sockaddr | K_String | K_Uint | K_Uint64 | K_Msgint | K_Errcode | K_Unknown | K_Binary | K_Empty

type_synonym attr_desc = "(string \<times> attr_kind) option"

definition mandatory_attr_desc_1 :: "attr_desc list" where
  "mandatory_attr_desc_1 =
     [None, Some (''MAPPED-ADDRESS'', K_Sockaddr), Some (''RESPONSE-ADDRESS'', K_Sockaddr),
      Some (''CHANGE-REQUEST'', K_Uint), Some (''SOURCE-ADDRESS'', K_Sockaddr),
      Some (''CHANGED-ADDRESS'', K_Sockaddr), Some (''USERNAME'', K_String), Some (''PASSWORD'', K_String),
      Some (''MESSAGE-INTEGRITY'', K_Msgint), Some (''ERROR-CODE'', K_Errcode),
      Some (''UNKNOWN-ATTRIBUTES'', K_Unknown), Some (''REFLECTED-FROM'', K_Sockaddr),
      Some (''CHANNEL-NUMBER'', K_Uint), Some (''LIFETIME'', K_Uint), None, Some (''MAGIC-COOKIE'', K_Uint)]"

definition mandatory_attr_desc_2 :: "attr_desc list" where
  "mandatory_attr_desc_2 =
     [Some (''BANDWIDTH'', K_Uint), None, Some (''XOR-PEER-ADDRESS'', K_Xored_Sockaddr),
      Some (''DATA'', K_Binary), Some (''REALM'', K_String), Some (''NONCE'', K_String),
      Some (''XOR-RELAYED-ADDRESS'', K_Xored_Sockaddr), Some (''REQUESTED-ADDRESS-FAMILY'', K_Uint),
      Some (''EVEN-PORT'', K_Uint), Some (''REQUESTED-TRANSPORT'', K_Uint), Some (''DONT-FRAGMENT'', K_Empty),
      None, None, None, None, None]"

definition mandatory_attr_desc_3 :: "attr_desc list" where
  "mandatory_attr_desc_3 =
     [Some (''XOR-MAPPED-ADDRESS'', K_Xored_Sockaddr), Some (''TIMER-VAL'', K_Uint),
      Some (''RESERVATION-TOKEN'', K_Uint64), Some (''XOR-REFLECTED-FROM'', K_Xored_Sockaddr),
      Some (''PRIORITY'', K_Uint), Some (''USE-CANDIDATE'', K_Empty), None, None, None, None,
      Some (''CONNECTION-ID'', K_Uint), None, None, None, None, None, Some (''ICMP'', K_Uint), None]"

definition mandatory_attr_desc :: "attr_desc list" where
  "mandatory_attr_desc = mandatory_attr_desc_1 @ mandatory_attr_desc_2 @ mandatory_attr_desc_3"

definition extended_attr_desc :: "attr_desc list" where
  "extended_attr_desc =
     [None, Some (''SOFTWARE'', K_String), Some (''ALTERNATE-SERVER'', K_Sockaddr),
      Some (''REFRESH-INTERVAL'', K_Uint), None, None, None, Some (''FINGERPRINT'', K_Uint),
      Some (''ICE-CONTROLLED'', K_Uint64), Some (''ICE-CONTROLLING'', K_Uint64)]"

definition find_attr_desc :: "u16 \<Rightarrow> attr_desc" where
  "find_attr_desc attr_type =
     (if attr_type < PJ_STUN_ATTR_END_MANDATORY_ATTR then mandatory_attr_desc ! unat attr_type
      else if PJ_STUN_ATTR_START_EXTENDED_ATTR \<le> attr_type \<and> attr_type < PJ_STUN_ATTR_END_EXTENDED_ATTR
      then extended_attr_desc ! unat (attr_type - PJ_STUN_ATTR_START_EXTENDED_ATTR)
      else None)"

definition pj_stun_get_attr_name :: "u16 \<Rightarrow> string" where
  "pj_stun_get_attr_name attr_type =
     (case find_attr_desc attr_type of None \<Rightarrow> ''???'' | Some (name, _) \<Rightarrow> name)"

definition stun_method_names :: "string list" where
  "stun_method_names =
     [''Unknown'', ''Binding'', ''SharedSecret'', ''Allocate'', ''Refresh'', ''???'', ''Send'', ''Data'',
      ''CreatePermission'', ''ChannelBind'', ''Connect'', ''ConnectionBind'', ''ConnectionAttempt'']"

definition pj_stun_get_method_name :: "u16 \<Rightarrow> string" where
  "pj_stun_get_method_name msg_type =
     (let method = unat (PJ_STUN_GET_METHOD msg_type)
      in if method \<ge> length stun_method_names then ''???'' else stun_method_names ! method)"

definition pj_stun_get_class_name :: "u16 \<Rightarrow> string" where
  "pj_stun_get_class_name msg_type =
     (if PJ_STUN_IS_REQUEST msg_type then ''request''
      else if PJ_STUN_IS_SUCCESS_RESPONSE msg_type then ''success response''
      else if PJ_STUN_IS_ERROR_RESPONSE msg_type then ''error response''
      else if PJ_STUN_IS_INDICATION msg_type then ''indication''
      else ''???'')"

definition stun_err_msg_map :: "(int \<times> string) list" where
  "stun_err_msg_map =
     [(300, ''Try Alternate''), (400, ''Bad Request''), (401, ''Unauthorized''), (403, ''Forbidden''),
      (420, ''Unknown Attribute''), (437, ''Allocation Mismatch''), (438, ''Stale Nonce''),
      (439, ''Active Destination Already Set''), (441, ''Wrong Credentials''),
      (442, ''Unsupported Transport Protocol''), (445, ''Operation for TCP Only''),
      (446, ''Connection Failure''), (447, ''Connection Timeout''), (486, ''Allocation Quota Reached''),
      (487, ''Role Conflict''), (500, ''Server Error''), (508, ''Insufficient Capacity''),
      (600, ''Global Failure'')]"

text \<open>The binary search of \<^verbatim>\<open>pj_stun_get_err_reason\<close>: the index it ends with.\<close>

function err_search :: "int \<Rightarrow> nat \<Rightarrow> nat \<Rightarrow> nat" where
  "err_search err_code first n =
     (if n = 0 then first
      else
        let half = n div 2; mid = first + half
        in if fst (stun_err_msg_map ! mid) < err_code then err_search err_code (mid + 1) (n - (half + 1))
           else if fst (stun_err_msg_map ! mid) > err_code then err_search err_code first half
           else mid)"
  by pat_completeness auto
termination
  by (relation "measure (\<lambda>(err_code, first, n). n)") auto

declare err_search.simps [simp del]

definition pj_stun_get_err_reason :: "int \<Rightarrow> bytes option pkt_res" where
  "pj_stun_get_err_reason err_code =
     (let first = err_search err_code 0 (length stun_err_msg_map)
      in if first \<ge> length stun_err_msg_map then Outside
         else if fst (stun_err_msg_map ! first) = err_code
         then Parsed (Some (cstr (snd (stun_err_msg_map ! first))))
         else Parsed None)"

section \<open>Making attributes and messages\<close>

definition INIT_ATTR :: "u16 \<Rightarrow> nat \<Rightarrow> attr_body \<Rightarrow> stun_attr" where
  "INIT_ATTR t l body = \<lparr>sa_type = t, sa_length = of_nat l, sa_body = body\<rparr>"

text \<open>The character strings are padded with, a static variable: the old value is returned.\<close>

definition pj_stun_set_padding_char :: "int \<Rightarrow> int \<Rightarrow> int \<times> int" where
  "pj_stun_set_padding_char padding_char chr = (let old_pad = padding_char in (old_pad, chr))"

text \<open>
  An address of another family has the length 0 (an assertion of \<^verbatim>\<open>pj_sockaddr_get_addr_len\<close>). The makers of
  attributes get the size of an address structure, which is that of its family here.
\<close>

definition pj_sockaddr_get_addr_len :: "sockaddr \<Rightarrow> nat" where
  "pj_sockaddr_get_addr_len addr =
     (case addr of Sockaddr_In _ _ \<Rightarrow> 4 | Sockaddr_In6 _ _ \<Rightarrow> 16 | Sockaddr_Other \<Rightarrow> 0)"

definition pj_stun_sockaddr_attr_create :: "u16 \<Rightarrow> bool \<Rightarrow> sockaddr \<Rightarrow> stun_attr" where
  "pj_stun_sockaddr_attr_create attr_type xor_ed addr =
     INIT_ATTR attr_type (pj_sockaddr_get_addr_len addr + 4) (Sockaddr_Body xor_ed addr)"

definition pj_stun_string_attr_create :: "u16 \<Rightarrow> bytes \<Rightarrow> stun_attr" where
  "pj_stun_string_attr_create attr_type value = INIT_ATTR attr_type (length value) (String_Body value)"

definition pj_stun_empty_attr_create :: "u16 \<Rightarrow> stun_attr" where
  "pj_stun_empty_attr_create attr_type = INIT_ATTR attr_type 0 Empty_Body"

definition pj_stun_uint_attr_create :: "u16 \<Rightarrow> u32 \<Rightarrow> stun_attr" where
  "pj_stun_uint_attr_create attr_type value = INIT_ATTR attr_type 4 (Uint_Body value)"

definition pj_stun_uint64_attr_create :: "u16 \<Rightarrow> (u32 \<times> u32) option \<Rightarrow> stun_attr" where
  "pj_stun_uint64_attr_create attr_type value =
     INIT_ATTR attr_type 8 (case value of Some (hi, lo) \<Rightarrow> Uint64_Body hi lo | None \<Rightarrow> Uint64_Body 0 0)"

definition pj_stun_msgint_attr_create :: stun_attr where
  "pj_stun_msgint_attr_create = INIT_ATTR PJ_STUN_ATTR_MESSAGE_INTEGRITY 20 (Msgint_Body (replicate 20 0))"

definition print_int :: "int \<Rightarrow> bytes" where
  "print_int v = (if v < 0 then 45 # pj_utoa (nat (- v)) else pj_utoa (nat v))"

definition pj_stun_errcode_attr_create :: "int \<Rightarrow> bytes option \<Rightarrow> stun_attr pkt_res" where
  "pj_stun_errcode_attr_create err_code err_reason =
     (if err_code = 0 then Refused PJ_EINVAL
      else
        pkt_bind
          (case err_reason of
             Some reason \<Rightarrow> Parsed reason
           | None \<Rightarrow>
               pkt_bind (pj_stun_get_err_reason err_code) (\<lambda>str.
                 Parsed (case str of Some s \<Rightarrow> s | None \<Rightarrow> cstr ''Unknown error '' @ print_int err_code)))
          (\<lambda>reason. Parsed (INIT_ATTR PJ_STUN_ATTR_ERROR_CODE (4 + length reason) (Errcode_Body err_code reason))))"

definition pj_stun_unknown_attr_create :: "u16 list \<Rightarrow> stun_attr pkt_res" where
  "pj_stun_unknown_attr_create attr_array =
     (if length attr_array < PJ_STUN_MAX_ATTR
      then Parsed (INIT_ATTR PJ_STUN_ATTR_UNKNOWN_ATTRIBUTES (length attr_array * 2) (Unknown_Body attr_array))
      else Refused PJ_EINVAL)"

definition pj_stun_binary_attr_create :: "u16 \<Rightarrow> bytes \<Rightarrow> stun_attr pkt_res" where
  "pj_stun_binary_attr_create attr_type data =
     (if attr_type = 0 then Refused PJ_EINVAL
      else Parsed (INIT_ATTR attr_type (length data) (Binary_Body PJ_STUN_MAGIC data)))"

text \<open>
  \<^verbatim>\<open>pj_stun_msg_init\<close>. Without a transaction identifier one is made from the process, a random number and a
  counter, which starts at a random number; \<open>sys\<close> has the process identifier and two random numbers.
\<close>

definition le_bytes :: "u32 \<Rightarrow> bytes" where
  "le_bytes w = [ucast w, ucast (drop_bit 8 w), ucast (drop_bit 16 w), ucast (drop_bit 24 w)]"

definition pj_stun_msg_init :: "u16 \<Rightarrow> u32 \<Rightarrow> bytes option \<Rightarrow> u32 \<times> u32 \<times> u32 \<Rightarrow> u32 \<Rightarrow> (stun_msg \<times> u32) pkt_res" where
  "pj_stun_msg_init msg_type magic tsx_id sys counter =
     (if msg_type = 0 then Refused PJ_EINVAL
      else
        let (pid, rand1, rand2) = sys;
            counter0 = (if counter = 0 then rand1 else counter);
            (uid, counter') =
              (case tsx_id of
                 Some t \<Rightarrow> (t, counter)
               | None \<Rightarrow> (le_bytes pid @ le_bytes rand2 @ le_bytes counter0, counter0 + 1))
        in Parsed (\<lparr>sm_hdr = \<lparr>mh_type = msg_type, mh_length = 0, mh_magic = magic, mh_tsx_id = uid\<rparr>,
                    sm_attr = []\<rparr>, counter'))"

definition pj_stun_msg_add_attr :: "stun_msg \<Rightarrow> stun_attr \<Rightarrow> stun_msg pkt_res" where
  "pj_stun_msg_add_attr msg attr =
     (if length (sm_attr msg) < PJ_STUN_MAX_ATTR then Parsed (msg\<lparr>sm_attr := sm_attr msg @ [attr]\<rparr>)
      else Refused PJ_ETOOMANY)"

definition pj_stun_msg_add_errcode_attr :: "stun_msg \<Rightarrow> int \<Rightarrow> bytes option \<Rightarrow> stun_msg pkt_res" where
  "pj_stun_msg_add_errcode_attr msg err_code err_reason =
     pkt_bind (pj_stun_errcode_attr_create err_code err_reason) (pj_stun_msg_add_attr msg)"

definition pj_stun_msg_add_unknown_attr :: "stun_msg \<Rightarrow> u16 list \<Rightarrow> stun_msg pkt_res" where
  "pj_stun_msg_add_unknown_attr msg attr_type =
     pkt_bind (pj_stun_unknown_attr_create attr_type) (pj_stun_msg_add_attr msg)"

definition pj_stun_msg_add_binary_attr :: "stun_msg \<Rightarrow> u16 \<Rightarrow> bytes \<Rightarrow> stun_msg pkt_res" where
  "pj_stun_msg_add_binary_attr msg attr_type data =
     pkt_bind (pj_stun_binary_attr_create attr_type data) (pj_stun_msg_add_attr msg)"

definition pj_stun_msg_add_sockaddr_attr :: "stun_msg \<Rightarrow> u16 \<Rightarrow> bool \<Rightarrow> sockaddr \<Rightarrow> stun_msg pkt_res" where
  "pj_stun_msg_add_sockaddr_attr msg attr_type xor_ed addr =
     pj_stun_msg_add_attr msg (pj_stun_sockaddr_attr_create attr_type xor_ed addr)"

definition pj_stun_msg_add_string_attr :: "stun_msg \<Rightarrow> u16 \<Rightarrow> bytes \<Rightarrow> stun_msg pkt_res" where
  "pj_stun_msg_add_string_attr msg attr_type value =
     pj_stun_msg_add_attr msg (pj_stun_string_attr_create attr_type value)"

definition pj_stun_msg_add_empty_attr :: "stun_msg \<Rightarrow> u16 \<Rightarrow> stun_msg pkt_res" where
  "pj_stun_msg_add_empty_attr msg attr_type = pj_stun_msg_add_attr msg (pj_stun_empty_attr_create attr_type)"

definition pj_stun_msg_add_uint_attr :: "stun_msg \<Rightarrow> u16 \<Rightarrow> u32 \<Rightarrow> stun_msg pkt_res" where
  "pj_stun_msg_add_uint_attr msg attr_type value =
     pj_stun_msg_add_attr msg (pj_stun_uint_attr_create attr_type value)"

definition pj_stun_msg_add_uint64_attr :: "stun_msg \<Rightarrow> u16 \<Rightarrow> (u32 \<times> u32) option \<Rightarrow> stun_msg pkt_res" where
  "pj_stun_msg_add_uint64_attr msg attr_type value =
     pj_stun_msg_add_attr msg (pj_stun_uint64_attr_create attr_type value)"

definition pj_stun_msg_add_msgint_attr :: "stun_msg \<Rightarrow> stun_msg pkt_res" where
  "pj_stun_msg_add_msgint_attr msg = pj_stun_msg_add_attr msg pj_stun_msgint_attr_create"

definition pj_stun_msg_create_response :: "stun_msg \<Rightarrow> int \<Rightarrow> bytes option \<Rightarrow> stun_msg pkt_res" where
  "pj_stun_msg_create_response req_msg err_code err_msg =
     (let hdr = sm_hdr req_msg; msg_type = mh_type hdr
      in if \<not> PJ_STUN_IS_REQUEST msg_type then Refused PJNATH_EINSTUNMSGTYPE
         else
           let msg_type' = msg_type OR (if err_code \<noteq> 0 then PJ_STUN_ERROR_RESPONSE_BIT else PJ_STUN_SUCCESS_RESPONSE_BIT)
           in pkt_bind (pj_stun_msg_init msg_type' (mh_magic hdr) (Some (mh_tsx_id hdr)) (0, 0, 0) 0) (\<lambda>(response, _).
                if err_code \<noteq> 0 then pj_stun_msg_add_errcode_attr response err_code err_msg
                else Parsed response))"

definition pj_stun_msg_find_attr :: "stun_msg \<Rightarrow> u16 \<Rightarrow> nat \<Rightarrow> stun_attr option" where
  "pj_stun_msg_find_attr msg attr_type index = find (\<lambda>a. sa_type a = attr_type) (drop index (sm_attr msg))"

text \<open>
  Cloning copies an attribute with what it points to. An attribute whose type has no descriptor has
  to be a binary one; one whose structure does not fit its type is read as what it is not.
\<close>

definition body_kind :: "attr_body \<Rightarrow> attr_kind list" where
  "body_kind body =
     (case body of
        Sockaddr_Body _ _ \<Rightarrow> [K_Sockaddr, K_Xored_Sockaddr] | Empty_Body \<Rightarrow> [K_Empty] | String_Body _ \<Rightarrow> [K_String]
      | Uint_Body _ \<Rightarrow> [K_Uint] | Uint64_Body _ _ \<Rightarrow> [K_Uint64] | Msgint_Body _ \<Rightarrow> [K_Msgint]
      | Errcode_Body _ _ \<Rightarrow> [K_Errcode] | Unknown_Body _ \<Rightarrow> [K_Unknown] | Binary_Body _ _ \<Rightarrow> [K_Binary])"

definition pj_stun_attr_clone :: "stun_attr \<Rightarrow> stun_attr option pkt_res" where
  "pj_stun_attr_clone attr =
     (case find_attr_desc (sa_type attr) of
        Some (_, kind) \<Rightarrow> if kind \<in> set (body_kind (sa_body attr)) then Parsed (Some attr) else Outside
      | None \<Rightarrow>
          (case sa_body attr of
             Binary_Body magic data \<Rightarrow> if magic = PJ_STUN_MAGIC then Parsed (Some attr) else Parsed None
           | _ \<Rightarrow> Outside))"

fun clone_attrs :: "stun_attr list \<Rightarrow> stun_attr list pkt_res" where
  "clone_attrs [] = Parsed []"
| "clone_attrs (a # as) =
     pkt_bind (pj_stun_attr_clone a) (\<lambda>c.
     pkt_bind (clone_attrs as) (\<lambda>cs. Parsed (case c of Some b \<Rightarrow> b # cs | None \<Rightarrow> cs)))"

definition pj_stun_msg_clone :: "stun_msg \<Rightarrow> stun_msg pkt_res" where
  "pj_stun_msg_clone src =
     pkt_bind (clone_attrs (sm_attr src)) (\<lambda>as. Parsed (src\<lparr>sm_attr := as\<rparr>))"

end
