(* ===== verification/Stun_Codec.thy ===== *)
theory Stun_Codec
  imports Stun_Msg
begin

text \<open>
  Checking, decoding and encoding STUN messages (\<^verbatim>\<open>pjnath/src/pjnath/stun_msg.c\<close>).
\<close>

section \<open>Decoding attributes\<close>

definition ATTR_HDR_LEN :: nat where "ATTR_HDR_LEN = 4"
definition STUN_GENERIC_IPV4_ADDR_LEN :: u16 where "STUN_GENERIC_IPV4_ADDR_LEN = 8"
definition STUN_GENERIC_IPV6_ADDR_LEN :: u16 where "STUN_GENERIC_IPV6_ADDR_LEN = 20"

text \<open>\<^verbatim>\<open>GETATTRHDR\<close>: type and length of the attribute at \<open>p\<close>.\<close>

definition GETATTRHDR :: "bytes \<Rightarrow> nat \<Rightarrow> (u16 \<times> u16) pkt_res" where
  "GETATTRHDR mem p =
     pkt_bind (get16 mem p) (\<lambda>t. pkt_bind (get16 mem (p + 2)) (\<lambda>l. Parsed (t, l)))"

definition mk_attr :: "u16 \<times> u16 \<Rightarrow> attr_body \<Rightarrow> stun_attr" where
  "mk_attr th body = \<lparr>sa_type = fst th, sa_length = snd th, sa_body = body\<rparr>"

definition decode_sockaddr_attr :: "bytes \<Rightarrow> nat \<Rightarrow> stun_attr pkt_res" where
  "decode_sockaddr_attr mem p =
     pkt_bind (GETATTRHDR mem p) (\<lambda>th.
     if snd th \<noteq> STUN_GENERIC_IPV4_ADDR_LEN \<and> snd th \<noteq> STUN_GENERIC_IPV6_ADDR_LEN
     then Refused PJNATH_ESTUNINATTRLEN
     else
       pkt_bind (octet mem (p + ATTR_HDR_LEN + 1)) (\<lambda>val.
       if val = 1 then
         if snd th \<noteq> STUN_GENERIC_IPV4_ADDR_LEN then Refused PJNATH_ESTUNINATTRLEN
         else
           pkt_bind (get16 mem (p + ATTR_HDR_LEN + 2)) (\<lambda>port.
           pkt_bind (octets mem (p + ATTR_HDR_LEN + 4) 4) (\<lambda>addr.
             Parsed (mk_attr th (Sockaddr_Body False (Sockaddr_In port addr)))))
       else if val = 2 then
         if snd th \<noteq> STUN_GENERIC_IPV6_ADDR_LEN then Refused PJNATH_ESTUNINATTRLEN
         else
           pkt_bind (get16 mem (p + ATTR_HDR_LEN + 2)) (\<lambda>port.
           pkt_bind (octets mem (p + ATTR_HDR_LEN + 4) 16) (\<lambda>addr.
             Parsed (mk_attr th (Sockaddr_Body False (Sockaddr_In6 port addr)))))
       else Refused PJNATH_EINVAF))"

text \<open>
  The exclusive or of an address: the port with the upper half of the magic cookie, the address with
  the cookie, and an address of 16 octets with cookie and transaction identifier.
\<close>

definition magic_octets :: bytes where
  "magic_octets = put32 PJ_STUN_MAGIC"

definition xor_octets :: "bytes \<Rightarrow> bytes \<Rightarrow> bytes" where
  "xor_octets a b = map2 (\<lambda>x y. x XOR y) a b"

definition xor_port :: "u16 \<Rightarrow> u16" where
  "xor_port port = port XOR ucast (drop_bit 16 PJ_STUN_MAGIC)"

fun xor_sockaddr :: "stun_hdr \<Rightarrow> sockaddr \<Rightarrow> sockaddr" where
  "xor_sockaddr hdr (Sockaddr_In port addr) = Sockaddr_In (xor_port port) (xor_octets addr magic_octets)"
| "xor_sockaddr hdr (Sockaddr_In6 port addr) =
     Sockaddr_In6 (xor_port port) (xor_octets addr (magic_octets @ mh_tsx_id hdr))"
| "xor_sockaddr hdr Sockaddr_Other = Sockaddr_Other"

definition decode_xored_sockaddr_attr :: "bytes \<Rightarrow> nat \<Rightarrow> stun_hdr \<Rightarrow> stun_attr pkt_res" where
  "decode_xored_sockaddr_attr mem p msghdr =
     pkt_bind (decode_sockaddr_attr mem p) (\<lambda>attr.
       case sa_body attr of
         Sockaddr_Body _ addr \<Rightarrow> Parsed (attr\<lparr>sa_body := Sockaddr_Body True (xor_sockaddr msghdr addr)\<rparr>)
       | _ \<Rightarrow> Refused PJNATH_EINVAF)"

definition decode_string_attr :: "bytes \<Rightarrow> nat \<Rightarrow> stun_attr pkt_res" where
  "decode_string_attr mem p =
     pkt_bind (GETATTRHDR mem p) (\<lambda>th.
     pkt_bind (octets mem (p + ATTR_HDR_LEN) (unat (snd th))) (\<lambda>value. Parsed (mk_attr th (String_Body value))))"

definition decode_empty_attr :: "bytes \<Rightarrow> nat \<Rightarrow> stun_attr pkt_res" where
  "decode_empty_attr mem p =
     pkt_bind (GETATTRHDR mem p) (\<lambda>th.
       if snd th \<noteq> 0 then Refused PJNATH_ESTUNINATTRLEN else Parsed (mk_attr th Empty_Body))"

text \<open>The value is read before the length is checked.\<close>

definition decode_uint_attr :: "bytes \<Rightarrow> nat \<Rightarrow> stun_attr pkt_res" where
  "decode_uint_attr mem p =
     pkt_bind (GETATTRHDR mem p) (\<lambda>th.
     pkt_bind (get32 mem (p + 4)) (\<lambda>value.
       if snd th \<noteq> 4 then Refused PJNATH_ESTUNINATTRLEN else Parsed (mk_attr th (Uint_Body value))))"

definition decode_uint64_attr :: "bytes \<Rightarrow> nat \<Rightarrow> stun_attr pkt_res" where
  "decode_uint64_attr mem p =
     pkt_bind (GETATTRHDR mem p) (\<lambda>th.
       if snd th \<noteq> 8 then Refused PJNATH_ESTUNINATTRLEN
       else
         pkt_bind (get32 mem (p + 4)) (\<lambda>hi.
         pkt_bind (get32 mem (p + 8)) (\<lambda>lo. Parsed (mk_attr th (Uint64_Body hi lo)))))"

definition decode_msgint_attr :: "bytes \<Rightarrow> nat \<Rightarrow> stun_attr pkt_res" where
  "decode_msgint_attr mem p =
     pkt_bind (GETATTRHDR mem p) (\<lambda>th.
       if snd th \<noteq> 20 then Refused PJNATH_ESTUNINATTRLEN
       else pkt_bind (octets mem (p + 4) 20) (\<lambda>hmac. Parsed (mk_attr th (Msgint_Body hmac))))"

text \<open>
  The length of the reason is the length of the attribute less four; \<^verbatim>\<open>pj_strdup\<close> copies a string whose
  length is not zero, and a negative length is a huge size.
\<close>

definition decode_errcode_attr :: "bytes \<Rightarrow> nat \<Rightarrow> stun_attr pkt_res" where
  "decode_errcode_attr mem p =
     pkt_bind (GETATTRHDR mem p) (\<lambda>th.
     pkt_bind (octet mem (p + 6)) (\<lambda>c.
     pkt_bind (octet mem (p + 7)) (\<lambda>n.
       if unat (snd th) < 4 then Outside
       else
         pkt_bind (octets mem (p + ATTR_HDR_LEN + 4) (unat (snd th) - 4)) (\<lambda>reason.
           Parsed (mk_attr th (Errcode_Body (uint c * 100 + uint n) reason))))))"

fun get16s :: "bytes \<Rightarrow> nat \<Rightarrow> nat \<Rightarrow> u16 list pkt_res" where
  "get16s mem p 0 = Parsed []"
| "get16s mem p (Suc n) =
     pkt_bind (get16 mem p) (\<lambda>v. pkt_bind (get16s mem (p + 2) n) (\<lambda>vs. Parsed (v # vs)))"

definition decode_unknown_attr :: "bytes \<Rightarrow> nat \<Rightarrow> stun_attr pkt_res" where
  "decode_unknown_attr mem p =
     pkt_bind (GETATTRHDR mem p) (\<lambda>th.
     let attr_count = unat (snd th) div 2
     in if attr_count > PJ_STUN_MAX_ATTR then Refused PJ_ETOOMANY
        else pkt_bind (get16s mem (p + ATTR_HDR_LEN) attr_count) (\<lambda>attrs. Parsed (mk_attr th (Unknown_Body attrs))))"

text \<open>The structure is zeroed, so the magic number of a decoded binary attribute is zero.\<close>

definition decode_binary_attr :: "bytes \<Rightarrow> nat \<Rightarrow> stun_attr pkt_res" where
  "decode_binary_attr mem p =
     pkt_bind (GETATTRHDR mem p) (\<lambda>th.
     pkt_bind (octets mem (p + ATTR_HDR_LEN) (unat (snd th))) (\<lambda>data. Parsed (mk_attr th (Binary_Body 0 data))))"

definition decode_attr :: "attr_kind \<Rightarrow> bytes \<Rightarrow> nat \<Rightarrow> stun_hdr \<Rightarrow> stun_attr pkt_res" where
  "decode_attr kind mem p msghdr =
     (case kind of
        K_Sockaddr \<Rightarrow> decode_sockaddr_attr mem p
      | K_Xored_Sockaddr \<Rightarrow> decode_xored_sockaddr_attr mem p msghdr
      | K_String \<Rightarrow> decode_string_attr mem p
      | K_Uint \<Rightarrow> decode_uint_attr mem p
      | K_Uint64 \<Rightarrow> decode_uint64_attr mem p
      | K_Msgint \<Rightarrow> decode_msgint_attr mem p
      | K_Errcode \<Rightarrow> decode_errcode_attr mem p
      | K_Unknown \<Rightarrow> decode_unknown_attr mem p
      | K_Binary \<Rightarrow> decode_binary_attr mem p
      | K_Empty \<Rightarrow> decode_empty_attr mem p)"

section \<open>Checking and decoding messages\<close>

text \<open>
  \<^verbatim>\<open>pj_stun_msg_check\<close> returns a status; \<open>Parsed ()\<close> is success. The address of the packet only matters
  for the order in which the checksum is computed.
\<close>

definition pj_stun_msg_check :: "bytes \<Rightarrow> nat \<Rightarrow> u32 \<Rightarrow> unit pkt_res" where
  "pj_stun_msg_check mem pdu_len options =
     (if pdu_len < 20 then Refused PJNATH_EINSTUNMSGLEN
      else
        pkt_bind (octet mem 0) (\<lambda>c.
        if c \<noteq> 0 \<and> c \<noteq> 1 then Refused PJNATH_EINSTUNMSGTYPE
        else
          pkt_bind (get16 mem 2) (\<lambda>l.
          let msg_len = unat l
          in if msg_len + 20 > pdu_len \<or> (options AND PJ_STUN_IS_DATAGRAM \<noteq> 0 \<and> msg_len + 20 \<noteq> pdu_len)
             then Refused PJNATH_EINSTUNMSGLEN
             else if msg_len mod 4 \<noteq> 0 then Refused PJNATH_EINSTUNMSGLEN
             else
               pkt_bind (get32 mem 4) (\<lambda>magic.
               if magic \<noteq> PJ_STUN_MAGIC \<or> options AND PJ_STUN_NO_FINGERPRINT_CHECK \<noteq> 0 then Parsed ()
               else
                 pkt_bind (get16 mem (msg_len + 20 - 8)) (\<lambda>attr_type.
                 if attr_type \<noteq> PJ_STUN_ATTR_FINGERPRINT then Parsed ()
                 else
                   pkt_bind (get16 mem (msg_len + 20 - 8 + 2)) (\<lambda>attr_len.
                   pkt_bind (get32 mem (msg_len + 20 - 8 + 4)) (\<lambda>fingerprint.
                   if attr_len \<noteq> 4 then Refused PJNATH_ESTUNINATTRLEN
                   else
                     pkt_bind (octets mem 0 (msg_len + 20 - 8)) (\<lambda>data.
                     if pj_crc32_calc 0 data XOR STUN_XOR_FINGERPRINT \<noteq> fingerprint
                     then Refused PJNATH_ESTUNFINGERPRINT
                     else Parsed ()))))))))"

text \<open>
  The result of decoding: a message and the number of octets it had, or a status and the error response
  for the peer, when one was asked for.
\<close>

datatype decoded = Decoded stun_msg nat | Rejected pj_status "stun_msg option"

text \<open>
  Rejecting with an error response. The status of \<^verbatim>\<open>pj_stun_msg_create_response\<close> is ignored.
\<close>

definition reject :: "bool \<Rightarrow> stun_msg \<Rightarrow> pj_status \<Rightarrow> int \<Rightarrow> bytes option \<Rightarrow> decoded pkt_res" where
  "reject want msg status err_code err_msg =
     (if want then
        (case pj_stun_msg_create_response msg err_code err_msg of
           Parsed response \<Rightarrow> Parsed (Rejected status (Some response))
         | Refused _ \<Rightarrow> Parsed (Rejected status None)
         | Outside \<Rightarrow> Outside)
      else Parsed (Rejected status None))"

text \<open>With the type of an attribute that has to be understood.\<close>

definition reject_unknown :: "bool \<Rightarrow> stun_msg \<Rightarrow> u16 \<Rightarrow> decoded pkt_res" where
  "reject_unknown want msg attr_type =
     (let status = PJNATH_ERRNO 420
      in if want then
           (case pj_stun_msg_create_response msg 420 None of
              Parsed response \<Rightarrow>
                (case pj_stun_msg_add_unknown_attr response [attr_type] of
                   Parsed response' \<Rightarrow> Parsed (Rejected status (Some response'))
                 | Refused _ \<Rightarrow> Parsed (Rejected status (Some response))
                 | Outside \<Rightarrow> Outside)
            | Refused _ \<Rightarrow> Parsed (Rejected status None)
            | Outside \<Rightarrow> Outside)
         else Parsed (Rejected status None))"

text \<open>
  One turn of the attribute loop at \<open>p\<close>, with \<open>pdu_len\<close> octets left: the message with the attribute added,
  the two flags and the padded length of the attribute, or the rejection (\<open>Inl\<close>). The text for a status
  comes from \<^verbatim>\<open>pj_strerror\<close>, the argument \<open>strerror\<close>. The check of the length does not count the header of the
  attribute.
\<close>

definition pad4 :: "nat \<Rightarrow> nat" where
  "pad4 n = (n + 3) div 4 * 4"

definition decode_step ::
  "(pj_status \<Rightarrow> bytes) \<Rightarrow> bool \<Rightarrow> bytes \<Rightarrow> nat \<Rightarrow> nat \<Rightarrow> stun_msg \<Rightarrow> bool \<Rightarrow> bool
     \<Rightarrow> (decoded + stun_msg \<times> bool \<times> bool \<times> nat) pkt_res" where
  "decode_step strerror want mem p pdu_len msg has_msg_int has_fingerprint =
     pkt_bind (get16 mem p) (\<lambda>attr_type.
     pkt_bind (get16 mem (p + 2)) (\<lambda>len.
     let attr_val_len = pad4 (unat len);
         rej = (\<lambda>status err_code err_msg. pkt_bind (reject want msg status err_code err_msg) (\<lambda>r. Parsed (Inl r)));
         add = (\<lambda>attr mi fp.
           if length (sm_attr msg) \<ge> PJ_STUN_MAX_ATTR then rej PJNATH_ESTUNTOOMANYATTR 500 None
           else Parsed (Inr (msg\<lparr>sm_attr := sm_attr msg @ [attr]\<rparr>, mi, fp, attr_val_len)))
     in if pdu_len < attr_val_len then
          rej PJNATH_ESTUNINATTRLEN 400
            (Some (cstr ''Attribute '' @ cstr (pj_stun_get_attr_name attr_type) @ cstr '' has invalid length''))
        else
          case find_attr_desc attr_type of
            None \<Rightarrow>
              if attr_type \<le> 0x7FFF then pkt_bind (reject_unknown want msg attr_type) (\<lambda>r. Parsed (Inl r))
              else if length (sm_attr msg) \<ge> PJ_STUN_MAX_ATTR then rej PJNATH_ESTUNTOOMANYATTR 500 None
              else
                pkt_bind (octets mem (p + 4) (unat len)) (\<lambda>data.
                  case pj_stun_binary_attr_create attr_type data of
                    Parsed attr \<Rightarrow> add attr has_msg_int has_fingerprint
                  | Refused status \<Rightarrow> rej status 500 None
                  | Outside \<Rightarrow> Outside)
          | Some (name, kind) \<Rightarrow>
              (case decode_attr kind mem p (sm_hdr msg) of
                 Outside \<Rightarrow> Outside
               | Refused status \<Rightarrow>
                   rej status 400 (Some (take 79 (strerror status @ cstr '' in '' @ cstr name)))
               | Parsed attr \<Rightarrow>
                   if attr_type = PJ_STUN_ATTR_MESSAGE_INTEGRITY \<and> \<not> has_fingerprint then
                     if has_msg_int then rej PJNATH_ESTUNDUPATTR 400 None else add attr True has_fingerprint
                   else if attr_type = PJ_STUN_ATTR_FINGERPRINT then
                     if has_fingerprint then rej PJNATH_ESTUNDUPATTR 400 None else add attr has_msg_int True
                   else if has_fingerprint then rej PJNATH_ESTUNFINGERPOS 400 None
                   else add attr has_msg_int has_fingerprint)))"

function stun_decode_loop ::
  "(pj_status \<Rightarrow> bytes) \<Rightarrow> bool \<Rightarrow> bytes \<Rightarrow> nat \<Rightarrow> nat \<Rightarrow> stun_msg \<Rightarrow> bool \<Rightarrow> bool \<Rightarrow> decoded pkt_res" where
  "stun_decode_loop strerror want mem p pdu_len msg has_msg_int has_fingerprint =
     (if pdu_len < 4 then
        (if pdu_len > 0 then Parsed (Rejected PJNATH_EINSTUNMSGLEN None) else Parsed (Decoded msg p))
      else
        (case decode_step strerror want mem p pdu_len msg has_msg_int has_fingerprint of
           Outside \<Rightarrow> Outside
         | Refused status \<Rightarrow> Refused status
         | Parsed (Inl r) \<Rightarrow> Parsed r
         | Parsed (Inr (msg', mi, fp, attr_val_len)) \<Rightarrow>
             if attr_val_len + 4 \<ge> pdu_len then stun_decode_loop strerror want mem (p + pdu_len) 0 msg' mi fp
             else stun_decode_loop strerror want mem (p + (attr_val_len + 4)) (pdu_len - (attr_val_len + 4)) msg' mi fp))"
  by pat_completeness auto
termination
  by (relation "measure (\<lambda>(strerror, want, mem, p, pdu_len, msg, mi, fp). pdu_len)") auto

declare stun_decode_loop.simps [simp del]

definition decode_hdr :: "bytes \<Rightarrow> stun_hdr pkt_res" where
  "decode_hdr mem =
     pkt_bind (get16 mem 0) (\<lambda>type.
     pkt_bind (get16 mem 2) (\<lambda>len.
     pkt_bind (get32 mem 4) (\<lambda>magic.
     pkt_bind (octets mem 8 12) (\<lambda>tsx_id.
       Parsed \<lparr>mh_type = type, mh_length = len, mh_magic = magic, mh_tsx_id = tsx_id\<rparr>))))"

definition pj_stun_msg_decode ::
  "(pj_status \<Rightarrow> bytes) \<Rightarrow> bool \<Rightarrow> bytes \<Rightarrow> nat \<Rightarrow> u32 \<Rightarrow> decoded pkt_res" where
  "pj_stun_msg_decode strerror want_response mem pdu_len options =
     (if pdu_len = 0 then Parsed (Rejected PJ_EINVAL None)
      else
        case (if options AND PJ_STUN_CHECK_PACKET \<noteq> 0 then pj_stun_msg_check mem pdu_len options else Parsed ()) of
          Outside \<Rightarrow> Outside
        | Refused status \<Rightarrow> Parsed (Rejected status None)
        | Parsed _ \<Rightarrow>
            pkt_bind (decode_hdr mem) (\<lambda>hdr.
              stun_decode_loop strerror (want_response \<and> PJ_STUN_IS_REQUEST (mh_type hdr)) mem 20 (unat (mh_length hdr))
                \<lparr>sm_hdr = hdr, sm_attr = []\<rparr> False False))"

section \<open>Encoding attributes\<close>

text \<open>
  Writing to the buffer. An encoder gets the buffer, the place of the attribute in it and the room the
  caller believes to be left, and returns the buffer and how far to go on.
\<close>

definition poke :: "bytes \<Rightarrow> nat \<Rightarrow> bytes \<Rightarrow> bytes pkt_res" where
  "poke buf pos data =
     (if pos + length data \<le> length buf then Parsed (take pos buf @ data @ drop (pos + length data) buf)
      else Outside)"

definition encode_done :: "bytes \<Rightarrow> nat \<Rightarrow> bytes \<Rightarrow> nat \<Rightarrow> (bytes \<times> nat) pkt_res" where
  "encode_done buf pos data printed = pkt_bind (poke buf pos data) (\<lambda>buf'. Parsed (buf', printed))"

text \<open>The type is written before the room is checked.\<close>

definition encode_sockaddr_attr ::
  "u16 \<Rightarrow> bool \<Rightarrow> sockaddr \<Rightarrow> bytes \<Rightarrow> nat \<Rightarrow> nat \<Rightarrow> stun_hdr \<Rightarrow> (bytes \<times> nat) pkt_res" where
  "encode_sockaddr_attr type xor_ed sockaddr buf pos len msghdr =
     pkt_bind (poke buf pos (put16 type)) (\<lambda>buf1.
       case (if xor_ed then xor_sockaddr msghdr sockaddr else sockaddr) of
         Sockaddr_In port addr \<Rightarrow>
           if len < 12 then Refused PJ_ETOOSMALL
           else encode_done buf1 (pos + 2) (put16 STUN_GENERIC_IPV4_ADDR_LEN @ [0, 1] @ put16 port @ addr) 12
       | Sockaddr_In6 port addr \<Rightarrow>
           if len < 24 then Refused PJ_ETOOSMALL
           else encode_done buf1 (pos + 2) (put16 STUN_GENERIC_IPV6_ADDR_LEN @ [0, 2] @ put16 port @ addr) 24
       | Sockaddr_Other \<Rightarrow> Refused PJNATH_EINVAF)"

text \<open>
  The length of a string is rounded up for peers of RFC 3489 and in the attribute SOFTWARE; \<open>padding\<close> is
  the static variable \<^verbatim>\<open>padding_char\<close>, as an octet.
\<close>

definition string_length :: "u16 \<Rightarrow> stun_hdr \<Rightarrow> nat \<Rightarrow> u16" where
  "string_length type msghdr slen =
     (if mh_magic msghdr \<noteq> PJ_STUN_MAGIC \<or> type = PJ_STUN_ATTR_SOFTWARE then of_nat (pad4 slen) else of_nat slen)"

definition encode_string_attr ::
  "u8 \<Rightarrow> u16 \<Rightarrow> bytes \<Rightarrow> bytes \<Rightarrow> nat \<Rightarrow> nat \<Rightarrow> stun_hdr \<Rightarrow> (bytes \<times> nat) pkt_res" where
  "encode_string_attr padding type value buf pos len msghdr =
     (let printed = pad4 (length value + 4)
      in if len < printed then Refused PJ_ETOOSMALL
         else
           encode_done buf pos
             (put16 type @ put16 (string_length type msghdr (length value)) @ value
              @ replicate (pad4 (length value) - length value) padding) printed)"

definition encode_empty_attr :: "u16 \<Rightarrow> bytes \<Rightarrow> nat \<Rightarrow> nat \<Rightarrow> (bytes \<times> nat) pkt_res" where
  "encode_empty_attr type buf pos len =
     (if len < 4 then Refused PJ_ETOOSMALL else encode_done buf pos (put16 type @ put16 0) 4)"

definition encode_uint_attr :: "u16 \<Rightarrow> u32 \<Rightarrow> bytes \<Rightarrow> nat \<Rightarrow> nat \<Rightarrow> (bytes \<times> nat) pkt_res" where
  "encode_uint_attr type value buf pos len =
     (if len < 8 then Refused PJ_ETOOSMALL else encode_done buf pos (put16 type @ put16 4 @ put32 value) 8)"

definition encode_uint64_attr :: "u16 \<Rightarrow> u32 \<Rightarrow> u32 \<Rightarrow> bytes \<Rightarrow> nat \<Rightarrow> nat \<Rightarrow> (bytes \<times> nat) pkt_res" where
  "encode_uint64_attr type hi lo buf pos len =
     (if len < 12 then Refused PJ_ETOOSMALL
      else encode_done buf pos (put16 type @ put16 8 @ put32 hi @ put32 lo) 12)"

definition encode_msgint_attr :: "u16 \<Rightarrow> u16 \<Rightarrow> bytes \<Rightarrow> bytes \<Rightarrow> nat \<Rightarrow> nat \<Rightarrow> (bytes \<times> nat) pkt_res" where
  "encode_msgint_attr type hlen hmac buf pos len =
     (if len < 24 then Refused PJ_ETOOSMALL
      else encode_done buf pos (put16 type @ put16 hlen @ hmac) 24)"

text \<open>
  The room is compared with the length before it is rounded up. The octets of the padding are not written.
\<close>

definition encode_errcode_attr :: "u16 \<Rightarrow> int \<Rightarrow> bytes \<Rightarrow> bytes \<Rightarrow> nat \<Rightarrow> nat \<Rightarrow> (bytes \<times> nat) pkt_res" where
  "encode_errcode_attr type err_code reason buf pos len =
     (if len < 8 + length reason then Refused PJ_ETOOSMALL
      else
        encode_done buf pos
          (put16 type @ put16 (of_nat (4 + length reason)) @ put16 0
           @ [word_of_int (err_code sdiv 100), word_of_int (err_code smod 100)] @ reason)
          (pad4 (8 + length reason)))"

definition encode_unknown_attr :: "u16 \<Rightarrow> u16 list \<Rightarrow> bytes \<Rightarrow> nat \<Rightarrow> nat \<Rightarrow> (bytes \<times> nat) pkt_res" where
  "encode_unknown_attr type attrs buf pos len =
     (if len < 4 + 2 * length attrs then Refused PJ_ETOOSMALL
      else
        encode_done buf pos
          (put16 type @ put16 (of_nat (2 * length attrs)) @ concat (map put16 attrs))
          (pad4 (4 + 2 * length attrs)))"

definition encode_binary_attr :: "u16 \<Rightarrow> bytes \<Rightarrow> bytes \<Rightarrow> nat \<Rightarrow> nat \<Rightarrow> (bytes \<times> nat) pkt_res" where
  "encode_binary_attr type data buf pos len =
     (let printed = pad4 (length data + 4)
      in if len < printed then Refused PJ_ETOOSMALL
         else encode_done buf pos (put16 type @ put16 (of_nat (length data)) @ data) printed)"

text \<open>
  The encoder is chosen by the type; a structure that does not fit the type is not modelled
  (\<open>Outside\<close>).
\<close>

definition encode_attr ::
  "u8 \<Rightarrow> stun_attr \<Rightarrow> bytes \<Rightarrow> nat \<Rightarrow> nat \<Rightarrow> stun_hdr \<Rightarrow> (bytes \<times> nat) pkt_res" where
  "encode_attr padding a buf pos len msghdr =
     (let type = sa_type a; body = sa_body a
      in case find_attr_desc type of
           Some (_, kind) \<Rightarrow>
             if kind \<notin> set (body_kind body) then Outside
             else
               (case body of
                  Sockaddr_Body xor_ed addr \<Rightarrow> encode_sockaddr_attr type xor_ed addr buf pos len msghdr
                | Empty_Body \<Rightarrow> encode_empty_attr type buf pos len
                | String_Body value \<Rightarrow> encode_string_attr padding type value buf pos len msghdr
                | Uint_Body value \<Rightarrow> encode_uint_attr type value buf pos len
                | Uint64_Body hi lo \<Rightarrow> encode_uint64_attr type hi lo buf pos len
                | Msgint_Body hmac \<Rightarrow> encode_msgint_attr type (sa_length a) hmac buf pos len
                | Errcode_Body err_code reason \<Rightarrow> encode_errcode_attr type err_code reason buf pos len
                | Unknown_Body attrs \<Rightarrow> encode_unknown_attr type attrs buf pos len
                | Binary_Body magic data \<Rightarrow> encode_binary_attr type data buf pos len)
         | None \<Rightarrow>
             (case body of
                Binary_Body magic data \<Rightarrow>
                  if magic \<noteq> PJ_STUN_MAGIC then Refused PJ_EBUG else encode_binary_attr type data buf pos len
              | _ \<Rightarrow> Outside))"

section \<open>Encoding messages\<close>

text \<open>
  The loop over the attributes up to MESSAGE-INTEGRITY or FINGERPRINT: the buffer, the place and the
  room afterwards, and the attributes from there on. The room is a \<^verbatim>\<open>pj_size_t\<close>, from which the length of the
  attribute is subtracted, and which is passed as an \<^verbatim>\<open>unsigned\<close>.
\<close>

fun stun_encode_loop ::
  "u8 \<Rightarrow> stun_hdr \<Rightarrow> stun_attr list \<Rightarrow> bytes \<Rightarrow> nat \<Rightarrow> u64 \<Rightarrow> (bytes \<times> nat \<times> u64 \<times> stun_attr list) pkt_res" where
  "stun_encode_loop padding hdr [] buf pos room = Parsed (buf, pos, room, [])"
| "stun_encode_loop padding hdr (a # as) buf pos room =
     (if sa_type a = PJ_STUN_ATTR_MESSAGE_INTEGRITY \<or> sa_type a = PJ_STUN_ATTR_FINGERPRINT
      then Parsed (buf, pos, room, a # as)
      else
        pkt_bind (encode_attr padding a buf pos (unat (ucast room :: u32)) hdr) (\<lambda>(buf', printed).
          stun_encode_loop padding hdr as buf' (pos + printed) (room - of_nat printed)))"

text \<open>The second loop looks for the two attributes in the rest.\<close>

fun scan_rest :: "stun_attr list \<Rightarrow> stun_attr option \<Rightarrow> stun_attr option \<Rightarrow> (stun_attr option \<times> stun_attr option) pkt_res" where
  "scan_rest [] amsgint afingerprint = Parsed (amsgint, afingerprint)"
| "scan_rest (a # as) amsgint afingerprint =
     (if afingerprint \<noteq> None then Refused PJNATH_ESTUNFINGERPOS
      else if sa_type a = PJ_STUN_ATTR_MESSAGE_INTEGRITY then
        if amsgint \<noteq> None then Refused PJNATH_ESTUNMSGINTPOS else scan_rest as (Some a) afingerprint
      else if sa_type a = PJ_STUN_ATTR_FINGERPRINT then scan_rest as amsgint (Some a)
      else scan_rest as amsgint afingerprint)"

definition stop_at :: "stun_attr list \<Rightarrow> (stun_attr option \<times> stun_attr option) pkt_res" where
  "stop_at rest =
     (case rest of
        [] \<Rightarrow> Parsed (None, None)
      | a # as \<Rightarrow>
          if sa_type a = PJ_STUN_ATTR_MESSAGE_INTEGRITY then scan_rest as (Some a) None
          else scan_rest as None (Some a))"

text \<open>
  Message integrity: the keyed hash of what was written. The tests of the position of the attribute use
  the index of the second loop, which has run to the end of the attributes: the first is never true, and
  neither is the second, \<^verbatim>\<open>i == msg->attr_count-2\<close>, which is left out. The result has the hash.
\<close>

definition encode_msgint ::
  "nat \<Rightarrow> stun_attr option \<Rightarrow> bytes option \<Rightarrow> bytes \<Rightarrow> nat \<Rightarrow> u64 \<Rightarrow> (bytes \<times> nat \<times> u64 \<times> bytes) pkt_res" where
  "encode_msgint attr_count amsgint key buf pos room =
     (case amsgint of
        None \<Rightarrow> Parsed (buf, pos, room, [])
      | Some a \<Rightarrow>
          (case key of
             None \<Rightarrow> Refused PJ_EINVALIDOP
           | Some k \<Rightarrow>
               let i = attr_count
               in if attr_count > 1 \<and> i < attr_count - 2 then Refused PJNATH_ESTUNMSGINTPOS
                  else
                    pkt_bind (octets buf 0 pos) (\<lambda>data.
                    let ctx = pj_hmac_sha1_update (pj_hmac_sha1_init (replicate 64 0) k) data;
                        hmac = pj_hmac_sha1_final ctx
                    in pkt_bind (encode_msgint_attr (sa_type a) (sa_length a) hmac buf pos (unat (ucast room :: u32)))
                         (\<lambda>(buf', printed). Parsed (buf', pos + printed, room - of_nat printed, hmac)))))"

text \<open>The fingerprint: the checksum of what was written, after the length was raised by eight.\<close>

definition encode_fingerprint ::
  "stun_attr option \<Rightarrow> bytes \<Rightarrow> nat \<Rightarrow> u64 \<Rightarrow> (bytes \<times> nat \<times> u32) pkt_res" where
  "encode_fingerprint afingerprint buf pos room =
     (case afingerprint of
        None \<Rightarrow> Parsed (buf, pos, 0)
      | Some a \<Rightarrow>
          pkt_bind (get16 buf 2) (\<lambda>len.
          pkt_bind (poke buf 2 (put16 (len + 8))) (\<lambda>buf1.
          pkt_bind (octets buf1 0 pos) (\<lambda>data.
          let value = pj_crc32_calc 0 data XOR STUN_XOR_FINGERPRINT
          in pkt_bind (encode_uint_attr (sa_type a) value buf1 pos (unat (ucast room :: u32))) (\<lambda>(buf', printed).
               Parsed (buf', pos + printed, value))))))"

text \<open>
  \<^verbatim>\<open>pj_stun_msg_encode\<close> into \<open>buf\<close>, of which \<open>buf_size\<close> octets may be used: the buffer, the length of the
  message, and the values that are stored to the attributes.
\<close>

definition pj_stun_msg_encode ::
  "u8 \<Rightarrow> stun_msg \<Rightarrow> bytes \<Rightarrow> nat \<Rightarrow> u32 \<Rightarrow> bytes option \<Rightarrow> (bytes \<times> nat \<times> bytes \<times> u32) pkt_res" where
  "pj_stun_msg_encode padding msg buf buf_size options key =
     (if buf_size = 0 \<or> options \<noteq> 0 then Refused PJ_EINVAL
      else if buf_size < 20 then Refused PJ_ETOOSMALL
      else
        let hdr = sm_hdr msg
        in pkt_bind (poke buf 0 (put16 (mh_type hdr) @ put16 0 @ put32 (mh_magic hdr) @ mh_tsx_id hdr)) (\<lambda>buf1.
           pkt_bind (stun_encode_loop padding hdr (sm_attr msg) buf1 20 (of_nat buf_size - 20)) (\<lambda>(buf2, pos, room, rest).
           pkt_bind (stop_at rest) (\<lambda>(amsgint, afingerprint).
           pkt_bind (poke buf2 2 (put16 (of_nat (pos - 20 + (if amsgint \<noteq> None then 24 else 0))))) (\<lambda>buf3.
           pkt_bind (encode_msgint (length (sm_attr msg)) amsgint key buf3 pos room) (\<lambda>(buf4, pos4, room4, hmac).
           pkt_bind (encode_fingerprint afingerprint buf4 pos4 room4) (\<lambda>(buf5, pos5, value).
             Parsed (buf5, pos5, hmac, value))))))))"

end
