(* ===== verification/Stun_Props.thy ===== *)
theory Stun_Props
  imports Stun_Codec
begin

text \<open>
  Properties of the decoder of STUN messages: how far it can read behind a packet, and that there is one
  attribute it cannot decode.
\<close>

section \<open>Tables\<close>

text \<open>The binary search finds the same as a search through the table, for codes the table covers.\<close>

lemma err_reason_codes:
  "pj_stun_get_err_reason 400 = Parsed (Some (cstr ''Bad Request''))"
  "pj_stun_get_err_reason 420 = Parsed (Some (cstr ''Unknown Attribute''))"
  "pj_stun_get_err_reason 500 = Parsed (Some (cstr ''Server Error''))"
  by code_simp+

text \<open>Behind the last code the search ends behind the table.\<close>

lemma stun_err_reason_outside: "pj_stun_get_err_reason 699 = Outside"
  by code_simp

lemma mandatory_errcode:
  "\<forall>n\<in>set [0 ..< 49]. (case mandatory_attr_desc ! n of Some (_, K_Errcode) \<Rightarrow> n = 9 | _ \<Rightarrow> True)"
  by code_simp

lemma extended_errcode:
  "\<forall>n\<in>set [0 ..< 10]. (case extended_attr_desc ! n of Some (_, K_Errcode) \<Rightarrow> False | _ \<Rightarrow> True)"
  by code_simp

lemma find_errcode:
  assumes "find_attr_desc t = Some (name, K_Errcode)"
  shows "t = PJ_STUN_ATTR_ERROR_CODE"
proof (cases "t < PJ_STUN_ATTR_END_MANDATORY_ATTR")
  case True
  then have "unat t < 49" by (simp add: PJ_STUN_ATTR_END_MANDATORY_ATTR_def word_less_nat_alt)
  then have "unat t \<in> set [0 ..< 49]" unfolding set_upt by simp
  with mandatory_errcode have "case mandatory_attr_desc ! unat t of Some (_, K_Errcode) \<Rightarrow> unat t = 9 | _ \<Rightarrow> True"
    by blast
  with assms True have "unat t = 9" by (simp add: find_attr_desc_def)
  then have "unat t = unat (9 :: u16)" by simp
  then show ?thesis by (simp only: PJ_STUN_ATTR_ERROR_CODE_def word_eq_iff_unsigned [where ?'a = nat])
next
  case False
  then have e: "PJ_STUN_ATTR_START_EXTENDED_ATTR \<le> t" "t < PJ_STUN_ATTR_END_EXTENDED_ATTR"
    using assms by (auto simp: find_attr_desc_def split: if_splits)
  then have "unat (t - PJ_STUN_ATTR_START_EXTENDED_ATTR) < 10"
    by (simp add: PJ_STUN_ATTR_START_EXTENDED_ATTR_def PJ_STUN_ATTR_END_EXTENDED_ATTR_def word_less_nat_alt word_le_nat_alt unat_sub)
  then have "unat (t - PJ_STUN_ATTR_START_EXTENDED_ATTR) \<in> set [0 ..< 10]" unfolding set_upt by simp
  with extended_errcode have "case extended_attr_desc ! unat (t - PJ_STUN_ATTR_START_EXTENDED_ATTR) of
      Some (_, K_Errcode) \<Rightarrow> False | _ \<Rightarrow> True" by blast
  with assms False e show ?thesis by (simp add: find_attr_desc_def)
qed

section \<open>Decoding stays near the packet\<close>

lemma get16s_Outside: "get16s mem p n = Outside \<Longrightarrow> length mem < p + 2 * n"
proof (induction n arbitrary: p)
  case (Suc n)
  then show ?case using Suc.IH [of "p + 2"] by (auto simp: pkt_bind_Outside)
qed simp

lemma GETATTRHDR_Parsed: "GETATTRHDR mem p = Parsed th \<longleftrightarrow> get16 mem p = Parsed (fst th) \<and> get16 mem (p + 2) = Parsed (snd th)"
  by (cases th) (auto simp: GETATTRHDR_def pkt_bind_Parsed)

lemma GETATTRHDR_Outside: "GETATTRHDR mem p = Outside \<longleftrightarrow> length mem < p + 4"
  by (cases "length mem < p + 4"; cases "length mem < p + 2") (auto simp: GETATTRHDR_def get16_def octets_def)

text \<open>An attribute is decoded within its header and value, or the first four octets of a value.\<close>

lemma decode_attr_inside:
  assumes "get16 mem (p + 2) = Parsed l" "p + 8 \<le> length mem" "p + 4 + unat l \<le> length mem"
    and "kind = K_Errcode \<Longrightarrow> 4 \<le> unat l"
  shows "decode_attr kind mem p hdr \<noteq> Outside"
proof -
  have h: "GETATTRHDR mem p \<noteq> Outside" using assms(2) by (simp add: GETATTRHDR_Outside)
  have l: "GETATTRHDR mem p = Parsed th \<Longrightarrow> snd th = l" for th using assms(1) by (simp add: GETATTRHDR_Parsed)
  have s: "decode_sockaddr_attr mem p \<noteq> Outside"
    using assms h l
    by (auto simp: decode_sockaddr_attr_def pkt_bind_Outside ATTR_HDR_LEN_def STUN_GENERIC_IPV4_ADDR_LEN_def
        STUN_GENERIC_IPV6_ADDR_LEN_def split: if_splits)
  have x: "decode_xored_sockaddr_attr mem p hdr \<noteq> Outside"
    using s by (auto simp: decode_xored_sockaddr_attr_def pkt_bind_Outside split: attr_body.splits)
  have u: "decode_unknown_attr mem p \<noteq> Outside"
    using assms h l by (auto simp: decode_unknown_attr_def pkt_bind_Outside ATTR_HDR_LEN_def Let_def dest!: get16s_Outside split: if_splits)
  have st: "decode_string_attr mem p \<noteq> Outside" "decode_binary_attr mem p \<noteq> Outside" "decode_empty_attr mem p \<noteq> Outside"
    "decode_uint_attr mem p \<noteq> Outside"
    using assms h l by (auto simp: decode_string_attr_def decode_binary_attr_def decode_empty_attr_def decode_uint_attr_def
        pkt_bind_Outside ATTR_HDR_LEN_def split: if_splits)
  have n: "decode_uint64_attr mem p \<noteq> Outside" "decode_msgint_attr mem p \<noteq> Outside"
    using assms h l by (auto simp: decode_uint64_attr_def decode_msgint_attr_def pkt_bind_Outside split: if_splits)
  have e: "kind = K_Errcode \<Longrightarrow> decode_errcode_attr mem p \<noteq> Outside"
    using assms h l by (auto simp: decode_errcode_attr_def pkt_bind_Outside ATTR_HDR_LEN_def split: if_splits)
  show ?thesis using s x u st n e by (cases kind) (simp_all add: decode_attr_def)
qed


lemma decode_sockaddr_type: "decode_sockaddr_attr mem p = Parsed a \<Longrightarrow> get16 mem p = Parsed (sa_type a)"
  by (auto simp: decode_sockaddr_attr_def pkt_bind_Parsed GETATTRHDR_Parsed mk_attr_def split: if_splits)

lemma decode_xored_sockaddr_type: "decode_xored_sockaddr_attr mem p hdr = Parsed a \<Longrightarrow> get16 mem p = Parsed (sa_type a)"
  unfolding decode_xored_sockaddr_attr_def pkt_bind_Parsed
  by (elim exE conjE, drule decode_sockaddr_type) (auto split: attr_body.split_asm)

lemma decode_attr_type: "decode_attr kind mem p hdr = Parsed a \<Longrightarrow> get16 mem p = Parsed (sa_type a)"
  by (cases kind)
    (auto simp: decode_attr_def decode_string_attr_def decode_empty_attr_def
      decode_uint_attr_def decode_uint64_attr_def decode_msgint_attr_def decode_errcode_attr_def decode_unknown_attr_def
      decode_binary_attr_def pkt_bind_Parsed GETATTRHDR_Parsed mk_attr_def Let_def
      dest!: decode_sockaddr_type decode_xored_sockaddr_type split: if_splits)

text \<open>Error responses are made with codes of the table, whose texts are found.\<close>

lemma create_response_inside:
  "code \<in> {400, 420, 500} \<Longrightarrow> pj_stun_msg_create_response msg code err_msg \<noteq> Outside"
  by (cases err_msg)
    (auto simp: pj_stun_msg_create_response_def pj_stun_msg_init_def pj_stun_msg_add_errcode_attr_def
      pj_stun_errcode_attr_create_def pj_stun_msg_add_attr_def Let_def pkt_bind_Outside err_reason_codes split: if_splits)

lemma reject_inside: "code \<in> {400, 420, 500} \<Longrightarrow> \<exists>response. reject want msg status code err_msg = Parsed (Rejected status response)"
  using create_response_inside [of code msg err_msg] by (auto simp: reject_def split: pkt_res.splits)

lemma reject_unknown_inside: "\<exists>status response. reject_unknown want msg t = Parsed (Rejected status response)"
  using create_response_inside [of 420 msg None]
  by (auto simp: reject_unknown_def Let_def pj_stun_msg_add_unknown_attr_def pj_stun_unknown_attr_create_def
      pj_stun_msg_add_attr_def PJ_STUN_MAX_ATTR_def split: pkt_res.splits)

section \<open>The order of attributes\<close>

text \<open>
  What a decoded message has: one MESSAGE-INTEGRITY, and behind FINGERPRINT nothing but attributes that
  are not known.
\<close>

fun attrs_ordered :: "stun_attr list \<Rightarrow> bool" where
  "attrs_ordered [] \<longleftrightarrow> True"
| "attrs_ordered (a # as) \<longleftrightarrow>
     (sa_type a = PJ_STUN_ATTR_FINGERPRINT \<longrightarrow> (\<forall>b\<in>set as. find_attr_desc (sa_type b) = None)) \<and>
     (sa_type a = PJ_STUN_ATTR_MESSAGE_INTEGRITY \<longrightarrow> (\<forall>b\<in>set as. sa_type b \<noteq> PJ_STUN_ATTR_MESSAGE_INTEGRITY)) \<and>
     attrs_ordered as"

lemma attrs_ordered_append:
  "attrs_ordered (as @ [b]) \<longleftrightarrow> attrs_ordered as \<and>
     (PJ_STUN_ATTR_FINGERPRINT \<in> sa_type ` set as \<longrightarrow> find_attr_desc (sa_type b) = None) \<and>
     (PJ_STUN_ATTR_MESSAGE_INTEGRITY \<in> sa_type ` set as \<longrightarrow> sa_type b \<noteq> PJ_STUN_ATTR_MESSAGE_INTEGRITY)"
  by (induction as) auto

lemma fingerprint_not_msgint:
  "PJ_STUN_ATTR_FINGERPRINT \<noteq> PJ_STUN_ATTR_MESSAGE_INTEGRITY" "PJ_STUN_ATTR_MESSAGE_INTEGRITY \<noteq> PJ_STUN_ATTR_FINGERPRINT"
  by (simp_all add: PJ_STUN_ATTR_FINGERPRINT_def PJ_STUN_ATTR_MESSAGE_INTEGRITY_def)

lemma find_msgint_fingerprint:
  "find_attr_desc PJ_STUN_ATTR_MESSAGE_INTEGRITY \<noteq> None" "find_attr_desc PJ_STUN_ATTR_FINGERPRINT \<noteq> None"
  by code_simp+

definition decode_inv :: "stun_hdr \<Rightarrow> stun_msg \<Rightarrow> bool \<Rightarrow> bool \<Rightarrow> bool" where
  "decode_inv hdr msg has_msg_int has_fingerprint \<longleftrightarrow>
     sm_hdr msg = hdr \<and> length (sm_attr msg) \<le> PJ_STUN_MAX_ATTR \<and> attrs_ordered (sm_attr msg) \<and>
     (has_msg_int \<longleftrightarrow> PJ_STUN_ATTR_MESSAGE_INTEGRITY \<in> sa_type ` set (sm_attr msg)) \<and>
     (has_fingerprint \<longleftrightarrow> PJ_STUN_ATTR_FINGERPRINT \<in> sa_type ` set (sm_attr msg))"


lemma decode_inv_add:
  assumes "decode_inv hdr msg mi fp" "length (sm_attr msg) < PJ_STUN_MAX_ATTR"
    and "fp \<Longrightarrow> find_attr_desc (sa_type a) = None" "mi \<Longrightarrow> sa_type a \<noteq> PJ_STUN_ATTR_MESSAGE_INTEGRITY"
    and "mi' \<longleftrightarrow> mi \<or> sa_type a = PJ_STUN_ATTR_MESSAGE_INTEGRITY" "fp' \<longleftrightarrow> fp \<or> sa_type a = PJ_STUN_ATTR_FINGERPRINT"
  shows "decode_inv hdr (msg\<lparr>sm_attr := sm_attr msg @ [a]\<rparr>) mi' fp'"
  using assms by (auto simp: decode_inv_def attrs_ordered_append)

text \<open>The attribute at \<open>p\<close> is an ERROR-CODE of less than four octets.\<close>

definition short_errcode :: "bytes \<Rightarrow> nat \<Rightarrow> bool" where
  "short_errcode mem p \<longleftrightarrow>
     get16 mem p = Parsed PJ_STUN_ATTR_ERROR_CODE \<and>
     (case get16 mem (p + 2) of Parsed l \<Rightarrow> unat l < 4 | _ \<Rightarrow> False)"

text \<open>What a turn of the loop can result in: the decoder goes on, or it has rejected the packet.\<close>

fun step_ok :: "stun_hdr \<Rightarrow> decoded + stun_msg \<times> bool \<times> bool \<times> nat \<Rightarrow> bool" where
  "step_ok hdr (Inl (Rejected status response)) \<longleftrightarrow> True"
| "step_ok hdr (Inl (Decoded msg n)) \<longleftrightarrow> False"
| "step_ok hdr (Inr (msg, mi, fp, len)) \<longleftrightarrow> decode_inv hdr msg mi fp \<and> len mod 4 = 0"

lemma step_ok_reject:
  assumes "code \<in> {400, 420, 500}"
  shows "\<exists>r. pkt_bind (reject want msg status code err_msg) (\<lambda>r. Parsed (Inl r)) = Parsed r \<and> step_ok hdr r"
  using reject_inside [OF assms, of want msg status err_msg] by auto

lemma step_ok_reject_unknown:
  "\<exists>r. pkt_bind (reject_unknown want msg t) (\<lambda>r. Parsed (Inl r)) = Parsed r \<and> step_ok hdr r"
  using reject_unknown_inside [of want msg t] by auto

lemma pad4_bounds: "n \<le> pad4 n" "pad4 n < n + 4" "pad4 n mod 4 = 0"
  unfolding pad4_def by presburger+

lemma decode_step_ok:
  assumes inv: "decode_inv hdr msg mi fp" and room: "4 \<le> pdu_len" "p + pdu_len + 4 \<le> length mem"
    and errcode: "\<not> short_errcode mem p"
  shows "\<exists>r. decode_step strerror want mem p pdu_len msg mi fp = Parsed r \<and> step_ok hdr r"
proof -
  obtain t where t: "get16 mem p = Parsed t" using room by (cases "get16 mem p") auto
  obtain l where l: "get16 mem (p + 2) = Parsed l" using room by (cases "get16 mem (p + 2)") auto
  then have l': "get16 mem (Suc (Suc p)) = Parsed l" by simp
  note pad = pad4_bounds [of "unat l"]
  show ?thesis
  proof (cases "pdu_len < pad4 (unat l)")
    case True
    then show ?thesis by (simp add: decode_step_def t l l' Let_def step_ok_reject)
  next
    case fits: False
    then have mem: "p + 4 + unat l \<le> length mem" using room pad by linarith
    note step = decode_step_def t l l' Let_def fits step_ok_reject step_ok_reject_unknown pad
    show ?thesis
    proof (cases "find_attr_desc t")
      case None
      obtain data where data: "octets mem (p + 4) (unat l) = Parsed data"
        using mem by (cases "octets mem (p + 4) (unat l)") auto
      have n: "t \<noteq> PJ_STUN_ATTR_MESSAGE_INTEGRITY" "t \<noteq> PJ_STUN_ATTR_FINGERPRINT"
        using None find_msgint_fingerprint by auto
      then show ?thesis using None data
        by (auto simp: step pj_stun_binary_attr_create_def INIT_ATTR_def intro!: decode_inv_add [OF inv])
    next
      case (Some nk)
      obtain name kind where nk: "nk = (name, kind)" by (cases nk)
      have "kind = K_Errcode \<Longrightarrow> 4 \<le> unat l"
        using errcode find_errcode [of t name] Some nk t l by (auto simp: short_errcode_def)
      with decode_attr_inside [OF l _ mem, of kind "sm_hdr msg"] room
      have inside: "decode_attr kind mem p (sm_hdr msg) \<noteq> Outside" by simp
      show ?thesis
      proof (cases "decode_attr kind mem p (sm_hdr msg)")
        case (Parsed a)
        then have "sa_type a = t" using decode_attr_type [OF Parsed] t by simp
        then show ?thesis using Some nk Parsed
          by (auto simp: step fingerprint_not_msgint intro!: decode_inv_add [OF inv])
      qed (use Some nk inside in \<open>auto simp: step\<close>)
    qed
  qed
qed


lemma stun_decode_loop_ok:
  assumes "decode_inv hdr msg mi fp" "p + pdu_len + 4 \<le> length mem" "p mod 4 = 0"
    and "\<And>q. p \<le> q \<Longrightarrow> q + 4 \<le> p + pdu_len \<Longrightarrow> q mod 4 = 0 \<Longrightarrow> \<not> short_errcode mem q"
  shows "\<exists>r. stun_decode_loop strerror want mem p pdu_len msg mi fp = Parsed r \<and>
           (\<forall>msg' n. r = Decoded msg' n \<longrightarrow> n = p + pdu_len \<and> (\<exists>mi' fp'. decode_inv hdr msg' mi' fp'))"
  using assms
proof (induction strerror want mem p pdu_len msg mi fp rule: stun_decode_loop.induct)
  case (1 strerror want mem p pdu_len msg mi fp)
  show ?case
  proof (cases "pdu_len < 4")
    case True
    with "1.prems"(1) show ?thesis by (auto simp: stun_decode_loop.simps)
  next
    case False
    obtain r where r: "decode_step strerror want mem p pdu_len msg mi fp = Parsed r" "step_ok hdr r"
      using decode_step_ok [OF "1.prems"(1) _ "1.prems"(2), of strerror want] "1.prems"(3,4) False by force
    show ?thesis
    proof (cases r)
      case (Inl x)
      with r False show ?thesis by (cases x) (simp_all add: stun_decode_loop.simps)
    next
      case (Inr y)
      obtain msg' mi' fp' len where y: "y = (msg', mi', fp', len)" by (cases y)
      with r Inr have inv': "decode_inv hdr msg' mi' fp'" "len mod 4 = 0" by simp_all
      show ?thesis
      proof (cases "len + 4 \<ge> pdu_len")
        case True
        with False r Inr y inv' show ?thesis
          by (auto simp: stun_decode_loop.simps [of _ _ _ _ pdu_len] stun_decode_loop.simps [of _ _ _ _ 0])
      next
        case rest: False
        have "(p + (len + 4)) mod 4 = 0" using inv'(2) "1.prems"(3) by presburger
        then show ?thesis
          using "1.IH"(2) [OF False r(1) Inr y [symmetric] refl refl rest] inv' "1.prems"(2,4) False rest r(1) Inr y
          by (simp add: stun_decode_loop.simps [of _ _ _ _ pdu_len])
      qed
    qed
  qed
qed


lemma decode_hdr_Parsed:
  "decode_hdr mem = Parsed hdr \<Longrightarrow> get16 mem 2 = Parsed (mh_length hdr)"
  by (auto simp: decode_hdr_def pkt_bind_Parsed)

lemma decode_hdr_inside: "20 \<le> length mem \<Longrightarrow> \<exists>hdr. decode_hdr mem = Parsed hdr"
  by (simp add: decode_hdr_def get16_def get32_def octets_def)

lemma msg_check_Parsed:
  assumes "pj_stun_msg_check mem pdu_len options = Parsed u"
  shows "20 \<le> pdu_len" "\<exists>l. get16 mem 2 = Parsed l \<and> unat l + 20 \<le> pdu_len \<and> unat l mod 4 = 0"
  using assms by (auto simp: pj_stun_msg_check_def Let_def pkt_bind_Parsed split: if_splits)

lemma msg_check_inside:
  assumes "pdu_len \<le> length mem"
  shows "pj_stun_msg_check mem pdu_len options \<noteq> Outside"
  using assms by (auto simp: pj_stun_msg_check_def Let_def pkt_bind_Outside split: if_splits)

text \<open>
  C27: A packet that is checked while it is decoded, and that has no ERROR-CODE attribute shorter than four
  octets, is decoded without reading more than four octets behind its end. A message that is returned is
  as long as its header says, which is within the packet, has at most sixteen attributes, one
  MESSAGE-INTEGRITY at most, and behind a FINGERPRINT no attribute that the decoder knows.
\<close>

theorem stun_decode_bounded:
  assumes "pdu_len + 4 \<le> length mem" "options AND PJ_STUN_CHECK_PACKET \<noteq> 0"
    and "\<And>q. q mod 4 = 0 \<Longrightarrow> 20 \<le> q \<Longrightarrow> q + 4 \<le> pdu_len \<Longrightarrow> \<not> short_errcode mem q"
  shows "\<exists>r. pj_stun_msg_decode strerror want mem pdu_len options = Parsed r \<and>
           (\<forall>msg n. r = Decoded msg n \<longrightarrow>
              n = 20 + unat (mh_length (sm_hdr msg)) \<and> n \<le> pdu_len \<and>
              length (sm_attr msg) \<le> PJ_STUN_MAX_ATTR \<and> attrs_ordered (sm_attr msg))"
proof (cases "pj_stun_msg_check mem pdu_len options")
  case (Parsed u)
  note chk = msg_check_Parsed [OF Parsed]
  obtain hdr where hdr: "decode_hdr mem = Parsed hdr" using decode_hdr_inside [of mem] chk(1) assms(1) by auto
  then have l: "unat (mh_length hdr) + 20 \<le> pdu_len" using chk(2) decode_hdr_Parsed [OF hdr] by auto
  have inv: "decode_inv hdr \<lparr>sm_hdr = hdr, sm_attr = []\<rparr> False False" by (simp add: decode_inv_def)
  have room: "20 + unat (mh_length hdr) + 4 \<le> length mem" using assms(1) l by simp
  have aligned: "(20 :: nat) mod 4 = 0" by simp
  have safe: "\<not> short_errcode mem q" if "20 \<le> q" "q + 4 \<le> 20 + unat (mh_length hdr)" "q mod 4 = 0" for q
    using assms(3) [of q] that l by linarith
  obtain r where r: "stun_decode_loop strerror (want \<and> PJ_STUN_IS_REQUEST (mh_type hdr)) mem 20 (unat (mh_length hdr))
      \<lparr>sm_hdr = hdr, sm_attr = []\<rparr> False False = Parsed r"
      "\<forall>msg' n. r = Decoded msg' n \<longrightarrow> n = 20 + unat (mh_length hdr) \<and> (\<exists>mi' fp'. decode_inv hdr msg' mi' fp')"
    using stun_decode_loop_ok [OF inv room aligned safe, where strerror = strerror and want = "want \<and> PJ_STUN_IS_REQUEST (mh_type hdr)"]
    by blast
  have "pj_stun_msg_decode strerror want mem pdu_len options = Parsed r"
    using Parsed hdr chk(1) assms(2) r(1) by (simp add: pj_stun_msg_decode_def)
  moreover have "n = 20 + unat (mh_length (sm_hdr msg)) \<and> n \<le> pdu_len \<and>
      length (sm_attr msg) \<le> PJ_STUN_MAX_ATTR \<and> attrs_ordered (sm_attr msg)" if d: "r = Decoded msg n" for msg n
  proof -
    obtain mi fp where "decode_inv hdr msg mi fp" "n = 20 + unat (mh_length hdr)" using r(2) d by blast
    then show ?thesis using l unfolding decode_inv_def by simp
  qed
  ultimately show ?thesis by blast
qed (use assms msg_check_inside [of pdu_len mem options] in \<open>auto simp: pj_stun_msg_decode_def\<close>)


text \<open>
  A binding request with a priority of its own and a fingerprint of nought: it is refused; without the check of
  fingerprints it is decoded.
\<close>

definition sample_packet :: bytes where
  "sample_packet =
     put16 1 @ put16 16 @ put32 PJ_STUN_MAGIC @ [1, 2, 3, 4, 5, 6, 7, 8, 9, 10, 11, 12]
     @ put16 0x24 @ put16 4 @ put32 77 @ put16 PJ_STUN_ATTR_FINGERPRINT @ put16 4 @ put32 0"

lemma sample_no_errcode:
  assumes "q mod 4 = 0" "20 \<le> q" "q + 4 \<le> 36"
  shows "\<not> short_errcode (sample_packet @ replicate 4 0) q"
proof -
  have "q = 20 \<or> q = 24 \<or> q = 28 \<or> q = 32" using assms by presburger
  moreover have "\<not> short_errcode (sample_packet @ replicate 4 0) 20" "\<not> short_errcode (sample_packet @ replicate 4 0) 24"
    "\<not> short_errcode (sample_packet @ replicate 4 0) 28" "\<not> short_errcode (sample_packet @ replicate 4 0) 32"
    by code_simp+
  ultimately show ?thesis by blast
qed

theorem stun_decode_bounded_witness:
  "\<exists>r. pj_stun_msg_decode (\<lambda>_. []) True (sample_packet @ replicate 4 0) 36 (PJ_STUN_CHECK_PACKET OR PJ_STUN_NO_FINGERPRINT_CHECK)
     = Parsed r \<and> (\<forall>msg n. r = Decoded msg n \<longrightarrow>
              n = 20 + unat (mh_length (sm_hdr msg)) \<and> n \<le> 36 \<and>
              length (sm_attr msg) \<le> PJ_STUN_MAX_ATTR \<and> attrs_ordered (sm_attr msg))"
proof (rule stun_decode_bounded)
  show "36 + 4 \<le> length (sample_packet @ replicate 4 0)" by code_simp
  show "(PJ_STUN_CHECK_PACKET OR PJ_STUN_NO_FINGERPRINT_CHECK) AND PJ_STUN_CHECK_PACKET \<noteq> 0" by code_simp
qed (rule sample_no_errcode)

lemma stun_sample_decoded:
  "pj_stun_msg_decode (\<lambda>_. []) True (sample_packet @ replicate 4 0) 36 (PJ_STUN_CHECK_PACKET OR PJ_STUN_NO_FINGERPRINT_CHECK)
     = Parsed (Decoded \<lparr>sm_hdr = \<lparr>mh_type = 1, mh_length = 16, mh_magic = PJ_STUN_MAGIC,
                                 mh_tsx_id = [1, 2, 3, 4, 5, 6, 7, 8, 9, 10, 11, 12]\<rparr>,
                       sm_attr = [pj_stun_uint_attr_create 0x24 77, pj_stun_uint_attr_create PJ_STUN_ATTR_FINGERPRINT 0]\<rparr> 36)"
  by code_simp

section \<open>Where decoding goes wrong\<close>

text \<open>
  The length of an attribute is compared with what is left of the message, but the header of the attribute is
  not counted: the last attribute is read beyond the end of the packet, by up to four octets.
\<close>

definition overread_packet :: bytes where
  "overread_packet =
     put16 1 @ put16 4 @ put32 PJ_STUN_MAGIC @ [1, 2, 3, 4, 5, 6, 7, 8, 9, 10, 11, 12] @ put16 0x24 @ put16 4"

lemma stun_decode_reads_behind:
  "pj_stun_msg_decode strerror False overread_packet 24 PJ_STUN_CHECK_PACKET = Outside"
  "pj_stun_msg_decode strerror False (overread_packet @ put32 9) 24 PJ_STUN_CHECK_PACKET =
     Parsed (Decoded \<lparr>sm_hdr = \<lparr>mh_type = 1, mh_length = 4, mh_magic = PJ_STUN_MAGIC,
                                 mh_tsx_id = [1, 2, 3, 4, 5, 6, 7, 8, 9, 10, 11, 12]\<rparr>,
                       sm_attr = [pj_stun_uint_attr_create 0x24 9]\<rparr> 24)"
  by code_simp+

text \<open>An ERROR-CODE attribute without a value has a reason of a negative length, whatever follows it.\<close>

definition errcode_packet :: bytes where
  "errcode_packet =
     put16 0x111 @ put16 4 @ put32 PJ_STUN_MAGIC @ [1, 2, 3, 4, 5, 6, 7, 8, 9, 10, 11, 12] @ put16 9 @ put16 0"

lemma stun_short_errcode_outside:
  "pj_stun_msg_decode strerror False (errcode_packet @ replicate 64 0) 24 PJ_STUN_CHECK_PACKET = Outside"
  by code_simp

text \<open>An attribute that is not known is accepted behind FINGERPRINT, where none is allowed.\<close>

definition behind_fingerprint :: bytes where
  "behind_fingerprint =
     put16 1 @ put16 12 @ put32 PJ_STUN_MAGIC @ [1, 2, 3, 4, 5, 6, 7, 8, 9, 10, 11, 12]
     @ put16 PJ_STUN_ATTR_FINGERPRINT @ put16 4 @ put32 0 @ put16 0x9000 @ put16 0"

lemma stun_unknown_behind_fingerprint:
  "\<exists>hdr. pj_stun_msg_decode strerror False behind_fingerprint 32 PJ_STUN_CHECK_PACKET =
     Parsed (Decoded \<lparr>sm_hdr = hdr, sm_attr = [pj_stun_uint_attr_create PJ_STUN_ATTR_FINGERPRINT 0,
                       \<lparr>sa_type = 0x9000, sa_length = 0, sa_body = Binary_Body PJ_STUN_MAGIC []\<rparr>]\<rparr> 32)"
  by (rule exI [of _ "\<lparr>mh_type = 1, mh_length = 12, mh_magic = PJ_STUN_MAGIC,
                       mh_tsx_id = [1, 2, 3, 4, 5, 6, 7, 8, 9, 10, 11, 12]\<rparr>"]) code_simp

end
