(* ===== verification/Stun_Roundtrip.thy ===== *)
theory Stun_Roundtrip
  imports Stun_Props
begin

text \<open>
  Encoding a STUN message and decoding it again: the octets every attribute is encoded to, what they are
  decoded as, and the message with message integrity and fingerprint that arrives.
\<close>

section \<open>Buffers\<close>

definition holds :: "bytes \<Rightarrow> nat \<Rightarrow> bytes \<Rightarrow> bool" where
  "holds buf p data \<longleftrightarrow> p + length data \<le> length buf \<and> take (length data) (drop p buf) = data"

definition patch :: "bytes \<Rightarrow> nat \<Rightarrow> bytes \<Rightarrow> bytes" where
  "patch buf pos data = take pos buf @ data @ drop (pos + length data) buf"

lemma poke_patch: "pos + length data \<le> length buf \<Longrightarrow> poke buf pos data = Parsed (patch buf pos data)"
  by (simp add: poke_def patch_def)

lemma length_patch [simp]: "pos + length data \<le> length buf \<Longrightarrow> length (patch buf pos data) = length buf"
  by (simp add: patch_def)

lemma take_patch: "pos + length data \<le> length buf \<Longrightarrow> n \<le> pos \<Longrightarrow> take n (patch buf pos data) = take n buf"
  by (simp add: patch_def)

lemma drop_patch: "pos + length data \<le> length buf \<Longrightarrow> pos + length data \<le> n \<Longrightarrow> drop n (patch buf pos data) = drop n buf"
  by (simp add: patch_def)

lemma holds_patch: "pos + length data \<le> length buf \<Longrightarrow> holds (patch buf pos data) pos data"
  by (simp add: holds_def patch_def)

lemma patch_patch:
  "pos + length a + length b \<le> length buf \<Longrightarrow> patch (patch buf pos a) (pos + length a) b = patch buf pos (a @ b)"
  by (simp add: patch_def ac_simps)

lemma holds_append: "holds buf p (a @ b) \<longleftrightarrow> holds buf p a \<and> holds buf (p + length a) b"
proof (cases "p + length a + length b \<le> length buf")
  case True
  have "take (length (a @ b)) (drop p buf) = take (length a) (drop p buf) @ take (length b) (drop (p + length a) buf)"
    by (simp add: take_add add.commute)
  then show ?thesis using True by (simp add: holds_def)
next
  case False
  then show ?thesis by (simp add: holds_def)
qed

lemma holds_sub: "holds buf p (xs @ ys @ zs) \<Longrightarrow> q = p + length xs \<Longrightarrow> holds buf q ys"
  by (simp add: holds_append)

lemma holds_nil: "holds buf p [] \<longleftrightarrow> p \<le> length buf"
  by (simp add: holds_def)

lemma holds_cons: "holds buf p (x # xs) \<longleftrightarrow> holds buf p [x] \<and> holds buf (Suc p) xs"
  using holds_append [of buf p "[x]" xs] by simp

lemma octets_holds: "holds buf p data \<Longrightarrow> n = length data \<Longrightarrow> octets buf p n = Parsed data"
  by (simp add: holds_def octets_def)

lemma octet_holds: "holds buf p [c] \<Longrightarrow> octet buf p = Parsed c"
  by (auto simp: holds_def octet_def hd_drop_conv_nth [symmetric] take_Suc split: if_splits)

lemma get16_holds: "holds buf p (put16 v) \<Longrightarrow> get16 buf p = Parsed v"
  by (simp add: get16_def octets_holds [of _ _ "put16 v"])

lemma get32_holds: "holds buf p (put32 v) \<Longrightarrow> get32 buf p = Parsed v"
  by (simp add: get32_def octets_holds [of _ _ "put32 v"])

lemma holds_take: "holds buf p data \<Longrightarrow> take n buf' = take n buf \<Longrightarrow> p + length data \<le> n \<Longrightarrow> length buf' = length buf \<Longrightarrow> holds buf' p data"
  unfolding holds_def by (metis min.absorb1 drop_take take_take add_diff_cancel_left' diff_le_mono)

lemma holds_drop: "holds buf p data \<Longrightarrow> drop n buf' = drop n buf \<Longrightarrow> n \<le> p \<Longrightarrow> length buf' = length buf \<Longrightarrow> holds buf' p data"
  unfolding holds_def by (metis drop_drop le_add_diff_inverse2)

lemma take_holds: "holds buf 0 data \<Longrightarrow> take (length data) buf = data"
  by (simp add: holds_def)

section \<open>Attributes on the wire\<close>

definition rounds :: "stun_hdr \<Rightarrow> u16 \<Rightarrow> bool" where
  "rounds hdr t \<longleftrightarrow> mh_magic hdr \<noteq> PJ_STUN_MAGIC \<or> t = PJ_STUN_ATTR_SOFTWARE"

text \<open>The address as it is sent; the value of an attribute, with the octets of the padding that are written.\<close>

fun addr_octets :: "sockaddr \<Rightarrow> bytes" where
  "addr_octets (Sockaddr_In port addr) = [0, 1] @ put16 port @ addr"
| "addr_octets (Sockaddr_In6 port addr) = [0, 2] @ put16 port @ addr"
| "addr_octets Sockaddr_Other = []"

fun value_octets :: "stun_hdr \<Rightarrow> attr_body \<Rightarrow> bytes" where
  "value_octets hdr (Sockaddr_Body xor_ed addr) = addr_octets (if xor_ed then xor_sockaddr hdr addr else addr)"
| "value_octets hdr Empty_Body = []"
| "value_octets hdr (String_Body value) = value"
| "value_octets hdr (Uint_Body value) = put32 value"
| "value_octets hdr (Uint64_Body hi lo) = put32 hi @ put32 lo"
| "value_octets hdr (Msgint_Body hmac) = hmac"
| "value_octets hdr (Errcode_Body err_code reason) =
     put16 0 @ [word_of_int (err_code div 100), word_of_int (err_code mod 100)] @ reason"
| "value_octets hdr (Unknown_Body attrs) = concat (map put16 attrs)"
| "value_octets hdr (Binary_Body magic data) = data"

definition string_pad :: "u8 \<Rightarrow> stun_attr \<Rightarrow> bytes" where
  "string_pad padding a =
     (case sa_body a of String_Body value \<Rightarrow> replicate (pad4 (length value) - length value) padding | _ \<Rightarrow> [])"

text \<open>The value the receiver sees, and the attribute it makes of it.\<close>

definition seen :: "u8 \<Rightarrow> stun_hdr \<Rightarrow> stun_attr \<Rightarrow> bytes" where
  "seen padding hdr a = value_octets hdr (sa_body a) @ (if rounds hdr (sa_type a) then string_pad padding a else [])"

definition attr_octets :: "u8 \<Rightarrow> stun_hdr \<Rightarrow> stun_attr \<Rightarrow> bytes" where
  "attr_octets padding hdr a =
     put16 (sa_type a) @ put16 (of_nat (length (seen padding hdr a))) @ value_octets hdr (sa_body a) @ string_pad padding a"

definition received :: "u8 \<Rightarrow> stun_hdr \<Rightarrow> stun_attr \<Rightarrow> stun_attr" where
  "received padding hdr a =
     \<lparr>sa_type = sa_type a, sa_length = of_nat (length (seen padding hdr a)),
      sa_body =
        (case sa_body a of
           String_Body value \<Rightarrow> String_Body (seen padding hdr a)
         | Binary_Body magic data \<Rightarrow> Binary_Body (if find_attr_desc (sa_type a) = None then PJ_STUN_MAGIC else 0) data
         | body \<Rightarrow> body)\<rparr>"

definition attr_size :: "stun_hdr \<Rightarrow> stun_attr \<Rightarrow> nat" where
  "attr_size hdr a = 4 + pad4 (length (value_octets hdr (sa_body a)))"

text \<open>Attributes that can be sent: of the structure and size their type asks for.\<close>

fun addr_ok :: "sockaddr \<Rightarrow> bool" where
  "addr_ok (Sockaddr_In port addr) \<longleftrightarrow> length addr = 4"
| "addr_ok (Sockaddr_In6 port addr) \<longleftrightarrow> length addr = 16"
| "addr_ok Sockaddr_Other \<longleftrightarrow> False"

fun body_ok :: "attr_kind option \<Rightarrow> u16 \<Rightarrow> attr_body \<Rightarrow> bool" where
  "body_ok kind l (Sockaddr_Body xor_ed addr) \<longleftrightarrow>
     kind = Some (if xor_ed then K_Xored_Sockaddr else K_Sockaddr) \<and> addr_ok addr"
| "body_ok kind l Empty_Body \<longleftrightarrow> kind = Some K_Empty"
| "body_ok kind l (String_Body value) \<longleftrightarrow> kind = Some K_String"
| "body_ok kind l (Uint_Body value) \<longleftrightarrow> kind = Some K_Uint"
| "body_ok kind l (Uint64_Body hi lo) \<longleftrightarrow> kind = Some K_Uint64"
| "body_ok kind l (Msgint_Body hmac) \<longleftrightarrow> kind = Some K_Msgint \<and> l = 20 \<and> length hmac = 20"
| "body_ok kind l (Errcode_Body err_code reason) \<longleftrightarrow> kind = Some K_Errcode \<and> 0 \<le> err_code \<and> err_code < 25600"
| "body_ok kind l (Unknown_Body attrs) \<longleftrightarrow> kind = Some K_Unknown \<and> length attrs \<le> PJ_STUN_MAX_ATTR"
| "body_ok kind l (Binary_Body magic data) \<longleftrightarrow> kind = Some K_Binary \<or> kind = None \<and> magic = PJ_STUN_MAGIC"

definition attr_ok :: "stun_hdr \<Rightarrow> stun_attr \<Rightarrow> bool" where
  "attr_ok hdr a \<longleftrightarrow>
     body_ok (map_option snd (find_attr_desc (sa_type a))) (sa_length a) (sa_body a) \<and>
     (find_attr_desc (sa_type a) = None \<longrightarrow> 0x7FFF < sa_type a) \<and>
     attr_size hdr a < 65536"

section \<open>Encoding an attribute\<close>

lemma pad4_add4: "pad4 (n + 4) = pad4 n + 4"
  unfolding pad4_def by presburger

lemma pad4_aligned: "n mod 4 = 0 \<Longrightarrow> pad4 n = n"
  unfolding pad4_def by presburger

lemma encode_done_patch:
  "pos + length data \<le> length buf \<Longrightarrow> encode_done buf pos data n = Parsed (patch buf pos data, n)"
  by (simp add: encode_done_def poke_patch)

lemma xor_sockaddr_ok: "length (mh_tsx_id hdr) = 12 \<Longrightarrow> addr_ok addr \<Longrightarrow> addr_ok (xor_sockaddr hdr addr)"
  by (cases addr) (auto simp: xor_octets_def magic_octets_def)

lemma encode_sockaddr_patch:
  assumes "addr_ok (if xor_ed then xor_sockaddr hdr addr else addr)"
    and "pos + 4 + length (addr_octets (if xor_ed then xor_sockaddr hdr addr else addr)) \<le> length buf"
    and "4 + length (addr_octets (if xor_ed then xor_sockaddr hdr addr else addr)) \<le> len"
  shows "encode_sockaddr_attr t xor_ed addr buf pos len hdr =
     Parsed (patch buf pos (put16 t @ put16 (of_nat (length (addr_octets (if xor_ed then xor_sockaddr hdr addr else addr))))
               @ addr_octets (if xor_ed then xor_sockaddr hdr addr else addr)),
             4 + length (addr_octets (if xor_ed then xor_sockaddr hdr addr else addr)))"
proof -
  define sent where "sent = (if xor_ed then xor_sockaddr hdr addr else addr)"
  have join: "patch (patch buf pos (put16 t)) (Suc (Suc pos)) rest = patch buf pos (put16 t @ rest)"
    if "pos + 2 + length rest \<le> length buf" for rest
    using patch_patch [of pos "put16 t" rest buf] that by simp
  show ?thesis
    using assms unfolding encode_sockaddr_attr_def sent_def [symmetric]
    by (cases sent)
      (simp_all add: poke_patch encode_done_patch join STUN_GENERIC_IPV4_ADDR_LEN_def STUN_GENERIC_IPV6_ADDR_LEN_def)
qed

lemma length_attr_octets: "length (attr_octets padding hdr a) \<le> attr_size hdr a"
  using pad4_bounds [of "length (value_octets hdr (sa_body a))"]
  by (auto simp: attr_octets_def attr_size_def string_pad_def split: attr_body.splits)

lemma sdiv_nonneg: "0 \<le> c \<Longrightarrow> c sdiv 100 = c div (100 :: int)" "0 \<le> c \<Longrightarrow> c smod 100 = c mod (100 :: int)"
  by (auto simp: signed_divide_int_def signed_modulo_int_def sgn_if minus_div_mult_eq_mod)

lemma length_put16s: "length (concat (map put16 ts)) = 2 * length ts"
  by (induction ts) simp_all

lemma encode_string_patch:
  assumes "4 + pad4 (length value) \<le> len" "pos + 4 + pad4 (length value) \<le> length buf"
  shows "encode_string_attr padding t value buf pos len hdr =
     Parsed (patch buf pos (put16 t
               @ put16 (of_nat (length (value @ (if rounds hdr t then replicate (pad4 (length value) - length value) padding else []))))
               @ value @ replicate (pad4 (length value) - length value) padding), 4 + pad4 (length value))"
  using assms pad4_bounds [of "length value"]
  by (simp add: encode_string_attr_def encode_done_patch pad4_add4 string_length_def rounds_def)

lemma addr_octets_size: "addr_ok addr \<Longrightarrow> pad4 (length (addr_octets addr)) = length (addr_octets addr)"
  by (cases addr) (simp_all add: pad4_def)

lemma Suc4: "Suc (Suc (Suc (Suc n))) = n + 4"
  by simp

lemma encode_attr_patch:
  assumes ok: "attr_ok hdr a" and tsx_id: "length (mh_tsx_id hdr) = 12"
    and room: "attr_size hdr a \<le> len" "pos + attr_size hdr a \<le> length buf"
  shows "encode_attr padding a buf pos len hdr = Parsed (patch buf pos (attr_octets padding hdr a), attr_size hdr a)"
proof -
  obtain t l body where a: "a = \<lparr>sa_type = t, sa_length = l, sa_body = body\<rparr>" by (cases a)
  note pad = pad4_bounds [of "length (value_octets hdr body)"]
  note enc = encode_attr_def attr_octets_def attr_size_def seen_def string_pad_def attr_ok_def body_kind_def
  show ?thesis
  proof (cases body)
    case (Sockaddr_Body xor_ed addr)
    define sent where "sent = (if xor_ed then xor_sockaddr hdr addr else addr)"
    have "addr_ok sent" using ok xor_sockaddr_ok [OF tsx_id, of addr] by (auto simp: a Sockaddr_Body sent_def attr_ok_def)
    then show ?thesis
      using ok room addr_octets_size [OF \<open>addr_ok sent\<close>] encode_sockaddr_patch [of xor_ed hdr addr pos buf len t]
      by (auto simp: a Sockaddr_Body enc sent_def [symmetric] Let_def split: option.splits) (auto split: if_split_asm)
  next
    case (String_Body v)
    then show ?thesis using ok room encode_string_patch [of v len pos buf padding t hdr]
      by (auto simp: a enc Let_def split: option.splits)
  next
    case (Errcode_Body err_code reason)
    then show ?thesis using ok room pad pad4_add4 [of "4 + length reason"]
      by (auto simp: a enc Let_def encode_errcode_attr_def encode_done_patch sdiv_nonneg Suc4 ac_simps split: option.splits)
  next
    case (Unknown_Body attrs)
    then show ?thesis using ok room pad pad4_add4 [of "2 * length attrs"]
      by (auto simp: a enc Let_def encode_unknown_attr_def encode_done_patch length_put16s ac_simps split: option.splits)
  next
    case (Binary_Body magic data)
    then show ?thesis using ok room pad
      by (auto simp: a enc Let_def encode_binary_attr_def encode_done_patch pad4_add4 split: option.splits)
  next
    case (Msgint_Body hmac)
    then show ?thesis using ok room
      by (auto simp: a enc Let_def encode_msgint_attr_def encode_done_patch pad4_def split: option.splits)
  qed (use ok room in \<open>auto simp: a enc Let_def encode_empty_attr_def encode_uint_attr_def encode_uint64_attr_def
      encode_done_patch pad4_def split: option.splits\<close>)
qed

section \<open>Decoding an attribute\<close>

lemma xor_octets_twice: "length a \<le> length b \<Longrightarrow> xor_octets (xor_octets a b) b = a"
  by (rule nth_equalityI) (simp_all add: xor_octets_def xor.assoc)

lemma xor_port_twice: "xor_port (xor_port port) = port"
  by (simp add: xor_port_def xor.assoc)

lemma xor_sockaddr_twice:
  "length (mh_tsx_id hdr) = 12 \<Longrightarrow> addr_ok addr \<Longrightarrow> xor_sockaddr hdr (xor_sockaddr hdr addr) = addr"
  by (cases addr) (simp_all add: xor_octets_twice xor_port_twice magic_octets_def)

lemma xor_sockaddr_tsx: "mh_tsx_id hdr' = mh_tsx_id hdr \<Longrightarrow> xor_sockaddr hdr' addr = xor_sockaddr hdr addr"
  by (cases addr) simp_all

lemma length_seen: "attr_ok hdr a \<Longrightarrow> length (seen padding hdr a) < 65536"
  using pad4_bounds [of "length (value_octets hdr (sa_body a))"]
  by (auto simp: attr_ok_def attr_size_def seen_def string_pad_def split: attr_body.splits)

lemma unat_length_seen: "attr_ok hdr a \<Longrightarrow> unat (of_nat (length (seen padding hdr a)) :: u16) = length (seen padding hdr a)"
  using length_seen [of hdr a padding] by (simp add: unat_of_nat)

lemma pad4_seen: "pad4 (length (seen padding hdr a)) = pad4 (length (value_octets hdr (sa_body a)))"
  using pad4_bounds [of "length (value_octets hdr (sa_body a))"]
  by (auto simp: seen_def string_pad_def pad4_aligned split: attr_body.splits)

lemma holds_attr:
  assumes "holds mem p (attr_octets padding hdr a)"
  shows "GETATTRHDR mem p = Parsed (sa_type a, of_nat (length (seen padding hdr a)))"
    and "holds mem (p + 4) (value_octets hdr (sa_body a))" and "holds mem (p + 4) (seen padding hdr a)"
proof -
  define l :: u16 where "l = of_nat (length (seen padding hdr a))"
  define v where "v = value_octets hdr (sa_body a)"
  have h: "holds mem p (put16 (sa_type a) @ put16 l @ v @ string_pad padding a)"
    using assms by (simp add: attr_octets_def l_def v_def)
  have "get16 mem p = Parsed (sa_type a)"
    by (rule get16_holds, rule holds_sub [of _ p "[]"]) (use h in simp_all)
  moreover have "get16 mem (p + 2) = Parsed l"
    by (rule get16_holds, rule holds_sub [OF h]) simp
  ultimately show "GETATTRHDR mem p = Parsed (sa_type a, of_nat (length (seen padding hdr a)))"
    by (simp add: GETATTRHDR_def l_def)
  have "holds mem (p + 4) (v @ string_pad padding a)"
    by (rule holds_sub [of mem p "put16 (sa_type a) @ put16 l" _ "[]"]) (use h in simp_all)
  then show "holds mem (p + 4) (value_octets hdr (sa_body a))" "holds mem (p + 4) (seen padding hdr a)"
    by (auto simp: holds_append seen_def v_def holds_nil) (simp add: holds_def)
qed

lemma decode_sockaddr_holds:
  assumes "GETATTRHDR mem p = Parsed (t, of_nat (length (addr_octets addr)))" "holds mem (p + 4) (addr_octets addr)" "addr_ok addr"
  shows "decode_sockaddr_attr mem p =
     Parsed \<lparr>sa_type = t, sa_length = of_nat (length (addr_octets addr)), sa_body = Sockaddr_Body False addr\<rparr>"
proof (cases addr)
  case (Sockaddr_In port ip)
  then have "octet mem (p + 4 + 1) = Parsed 1" "get16 mem (p + 4 + 2) = Parsed port" "octets mem (p + 4 + 4) 4 = Parsed ip"
    using assms(2,3)
    by - (rule octet_holds, rule holds_sub [of _ "p + 4" "[0]" _ "put16 port @ ip"], simp, simp,
        rule get16_holds, rule holds_sub [of _ "p + 4" "[0, 1]" _ ip], simp, simp,
        rule octets_holds, rule holds_sub [of _ "p + 4" "[0, 1] @ put16 port" _ "[]"], simp, simp, simp)
  then show ?thesis using assms(1,3) Sockaddr_In
    by (simp add: decode_sockaddr_attr_def STUN_GENERIC_IPV4_ADDR_LEN_def ATTR_HDR_LEN_def mk_attr_def)
next
  case (Sockaddr_In6 port ip)
  then have "octet mem (p + 4 + 1) = Parsed 2" "get16 mem (p + 4 + 2) = Parsed port" "octets mem (p + 4 + 4) 16 = Parsed ip"
    using assms(2,3)
    by - (rule octet_holds, rule holds_sub [of _ "p + 4" "[0]" _ "put16 port @ ip"], simp, simp,
        rule get16_holds, rule holds_sub [of _ "p + 4" "[0, 2]" _ ip], simp, simp,
        rule octets_holds, rule holds_sub [of _ "p + 4" "[0, 2] @ put16 port" _ "[]"], simp, simp, simp)
  then show ?thesis using assms(1,3) Sockaddr_In6
    by (simp add: decode_sockaddr_attr_def STUN_GENERIC_IPV6_ADDR_LEN_def STUN_GENERIC_IPV4_ADDR_LEN_def ATTR_HDR_LEN_def mk_attr_def)
qed (use assms in simp)

lemma get16s_holds: "holds mem p (concat (map put16 vs)) \<Longrightarrow> get16s mem p (length vs) = Parsed vs"
proof (induction vs arbitrary: p)
  case (Cons v vs)
  then show ?case using get16_holds [of mem p v] Cons.IH [of "p + 2"] by (simp add: holds_append)
qed simp

lemma errcode_octets:
  "0 \<le> c \<Longrightarrow> c < 25600 \<Longrightarrow> uint (word_of_int (c div 100) :: u8) * 100 + uint (word_of_int (c mod 100) :: u8) = c"
  by (simp add: uint_word_of_int)

lemma decode_errcode_holds:
  assumes "GETATTRHDR mem p = Parsed (t, l)" "unat l = 4 + length reason" "0 \<le> c" "c < 25600"
    and "holds mem (p + 4) (put16 0 @ [word_of_int (c div 100), word_of_int (c mod 100)] @ reason)"
  shows "decode_errcode_attr mem p = Parsed \<lparr>sa_type = t, sa_length = l, sa_body = Errcode_Body c reason\<rparr>"
proof -
  define x y :: u8 where "x = word_of_int (c div 100)" and "y = word_of_int (c mod 100)"
  have h: "holds mem (p + 4) (put16 0 @ [x, y] @ reason)" using assms(5) by (simp add: x_def y_def)
  have "octet mem (p + 6) = Parsed x"
    by (rule octet_holds, rule holds_sub [of _ "p + 4" "put16 0" _ "[y] @ reason"]) (use h in simp_all)
  moreover have "octet mem (p + 7) = Parsed y"
    by (rule octet_holds, rule holds_sub [of _ "p + 4" "put16 0 @ [x]" _ reason]) (use h in simp_all)
  moreover have "octets mem (p + 8) (length reason) = Parsed reason"
    by (rule octets_holds, rule holds_sub [of _ "p + 4" "put16 0 @ [x, y]" _ "[]"]) (use h in simp_all)
  moreover have "uint x * 100 + uint y = c" unfolding x_def y_def by (rule errcode_octets [OF assms(3,4)])
  ultimately show ?thesis using assms(1,2)
    by (simp add: decode_errcode_attr_def ATTR_HDR_LEN_def mk_attr_def add.assoc)
qed

lemma decode_attr_holds:
  assumes ok: "attr_ok hdr a" and tsx_id: "length (mh_tsx_id hdr) = 12" "mh_tsx_id hdr' = mh_tsx_id hdr"
    and desc: "find_attr_desc (sa_type a) = Some (name, kind)" and mem: "holds mem p (attr_octets padding hdr a)"
  shows "decode_attr kind mem p hdr' = Parsed (received padding hdr a)"
proof -
  obtain t l body where a: "a = \<lparr>sa_type = t, sa_length = l, sa_body = body\<rparr>" by (cases a)
  note hdr = holds_attr(1) [OF mem] and val = holds_attr(2) [OF mem] and seen = holds_attr(3) [OF mem]
  note unat = unat_length_seen [OF ok, of padding]
  note dec = decode_attr_def received_def mk_attr_def seen_def string_pad_def attr_ok_def
  show ?thesis
  proof (cases body)
    case (Sockaddr_Body xor_ed addr)
    define sent where "sent = (if xor_ed then xor_sockaddr hdr addr else addr)"
    have kind: "kind = (if xor_ed then K_Xored_Sockaddr else K_Sockaddr)" "addr_ok addr"
      using ok desc by (auto simp: a Sockaddr_Body attr_ok_def)
    then have "addr_ok sent" using xor_sockaddr_ok [OF tsx_id(1), of addr] by (auto simp: sent_def)
    from decode_sockaddr_holds [of mem p t sent, OF _ _ this] hdr val
    have "decode_sockaddr_attr mem p =
        Parsed \<lparr>sa_type = t, sa_length = of_nat (length (addr_octets sent)), sa_body = Sockaddr_Body False sent\<rparr>"
      by (simp add: a Sockaddr_Body seen_def string_pad_def sent_def)
    then show ?thesis using kind xor_sockaddr_twice [OF tsx_id(1)]
      by (cases xor_ed)
        (simp_all add: a Sockaddr_Body dec decode_xored_sockaddr_attr_def sent_def xor_sockaddr_tsx [OF tsx_id(2)])
  next
    case (Errcode_Body c reason)
    then show ?thesis using ok desc hdr val unat decode_errcode_holds [of mem p t _ reason c]
      by (auto simp: a dec)
  next
    case (Unknown_Body attrs)
    then show ?thesis using ok desc hdr val unat get16s_holds [of mem "p + 4" attrs]
      by (auto simp: a dec decode_unknown_attr_def length_put16s ATTR_HDR_LEN_def)
  next
    case (Uint64_Body hi lo)
    have "get32 mem (p + 4) = Parsed hi"
      by (rule get32_holds, rule holds_sub [of _ "p + 4" "[]" _ "put32 lo"]) (use val Uint64_Body in \<open>simp_all add: a\<close>)
    moreover have "get32 mem (p + 8) = Parsed lo"
      by (rule get32_holds, rule holds_sub [of _ "p + 4" "put32 hi" _ "[]"]) (use val Uint64_Body in \<open>simp_all add: a\<close>)
    ultimately show ?thesis using ok desc hdr Uint64_Body by (auto simp: a dec decode_uint64_attr_def)
  next
    case (Uint_Body v)
    then have "get32 mem (p + 4) = Parsed v" using val by (auto simp: a intro!: get32_holds)
    then show ?thesis using ok desc hdr Uint_Body by (auto simp: a dec decode_uint_attr_def)
  next
    case (Msgint_Body hmac)
    then show ?thesis using ok desc hdr val octets_holds [of mem "p + 4" hmac 20]
      by (auto simp: a dec decode_msgint_attr_def)
  next
    case (String_Body v)
    then show ?thesis using ok desc hdr octets_holds [OF seen refl] unat
      by (auto simp: a decode_attr_def received_def mk_attr_def attr_ok_def decode_string_attr_def ATTR_HDR_LEN_def)
  next
    case (Binary_Body magic data)
    then show ?thesis using ok desc hdr octets_holds [OF val refl] unat
      by (auto simp: a dec decode_binary_attr_def ATTR_HDR_LEN_def)
  next
    case Empty_Body
    then show ?thesis using ok desc hdr by (auto simp: a dec decode_empty_attr_def)
  qed
qed

section \<open>Decoding all attributes\<close>

lemma received_type [simp]: "sa_type (received padding hdr a) = sa_type a"
  by (simp add: received_def)

text \<open>What is known after an attribute, and where it may stand.\<close>

abbreviation after_mi :: "stun_attr \<Rightarrow> bool \<Rightarrow> bool" where
  "after_mi a mi \<equiv> mi \<or> sa_type a = PJ_STUN_ATTR_MESSAGE_INTEGRITY"

abbreviation after_fp :: "stun_attr \<Rightarrow> bool \<Rightarrow> bool" where
  "after_fp a fp \<equiv> fp \<or> sa_type a = PJ_STUN_ATTR_FINGERPRINT"

lemma decode_step_received:
  assumes ok: "attr_ok hdr a" and tsx_id: "length (mh_tsx_id hdr) = 12" "mh_tsx_id (sm_hdr msg) = mh_tsx_id hdr"
    and mem: "holds mem p (attr_octets padding hdr a)" and room: "attr_size hdr a \<le> pdu_len"
    and count: "length (sm_attr msg) < PJ_STUN_MAX_ATTR"
    and order: "\<not> fp" "mi \<Longrightarrow> sa_type a \<noteq> PJ_STUN_ATTR_MESSAGE_INTEGRITY"
  shows "decode_step strerror want mem p pdu_len msg mi fp =
     Parsed (Inr (msg\<lparr>sm_attr := sm_attr msg @ [received padding hdr a]\<rparr>, after_mi a mi, after_fp a fp, attr_size hdr a - 4))"
proof -
  define l :: u16 where "l = of_nat (length (seen padding hdr a))"
  have "get16 mem p = Parsed (sa_type a)" "get16 mem (p + 2) = Parsed l"
    using holds_attr(1) [OF mem] by (auto simp: GETATTRHDR_Parsed l_def)
  then have hd: "get16 mem p = Parsed (sa_type a)" "get16 mem (Suc (Suc p)) = Parsed l" by simp_all
  have l: "unat l = length (seen padding hdr a)" unfolding l_def by (rule unat_length_seen [OF ok])
  have pad: "pad4 (unat l) = attr_size hdr a - 4" by (simp add: l pad4_seen attr_size_def)
  have fits: "\<not> pdu_len < attr_size hdr a - 4" using room by simp
  have count': "\<not> PJ_STUN_MAX_ATTR \<le> length (sm_attr msg)" using count by simp
  note step = decode_step_def hd Let_def fits pad count'
  show ?thesis
  proof (cases "find_attr_desc (sa_type a)")
    case None
    then obtain data where body: "sa_body a = Binary_Body PJ_STUN_MAGIC data" and t: "0x7FFF < sa_type a"
      using ok by (cases "sa_body a") (auto simp: attr_ok_def split: if_splits)
    then have n: "sa_type a \<noteq> PJ_STUN_ATTR_MESSAGE_INTEGRITY" "sa_type a \<noteq> PJ_STUN_ATTR_FINGERPRINT" "sa_type a \<noteq> 0"
      using None find_msgint_fingerprint by auto
    have "seen padding hdr a = data" by (simp add: seen_def string_pad_def body)
    then have "octets mem (p + 4) (unat l) = Parsed data" using octets_holds [OF holds_attr(3) [OF mem]] l by simp
    then show ?thesis using None t n order count
      by (simp add: step pj_stun_binary_attr_create_def INIT_ATTR_def received_def body seen_def string_pad_def
          linorder_not_le [THEN iffD2, OF t])
  next
    case (Some nk)
    obtain name kind where nk: "nk = (name, kind)" by (cases nk)
    have "decode_attr kind mem p (sm_hdr msg) = Parsed (received padding hdr a)"
      using decode_attr_holds [OF ok tsx_id _ mem] Some nk by simp
    then show ?thesis using Some nk order count fingerprint_not_msgint by (auto simp: step)
  qed
qed

text \<open>Attributes one after the other, each taking its size.\<close>

fun laid :: "u8 \<Rightarrow> stun_hdr \<Rightarrow> bytes \<Rightarrow> nat \<Rightarrow> stun_attr list \<Rightarrow> bool" where
  "laid padding hdr mem p [] \<longleftrightarrow> True"
| "laid padding hdr mem p (a # as) \<longleftrightarrow>
     holds mem p (attr_octets padding hdr a) \<and> laid padding hdr mem (p + attr_size hdr a) as"

definition total_size :: "stun_hdr \<Rightarrow> stun_attr list \<Rightarrow> nat" where
  "total_size hdr as = sum_list (map (attr_size hdr) as)"

lemma total_size_simps [simp]: "total_size hdr [] = 0" "total_size hdr (a # as) = attr_size hdr a + total_size hdr as"
  "total_size hdr (as @ bs) = total_size hdr as + total_size hdr bs"
  by (simp_all add: total_size_def)

text \<open>The attributes may be decoded in this order: one MESSAGE-INTEGRITY, and FINGERPRINT last.\<close>

fun may_follow :: "bool \<Rightarrow> stun_attr list \<Rightarrow> bool" where
  "may_follow mi [] \<longleftrightarrow> True"
| "may_follow mi (a # as) \<longleftrightarrow>
     (mi \<longrightarrow> sa_type a \<noteq> PJ_STUN_ATTR_MESSAGE_INTEGRITY) \<and> (sa_type a = PJ_STUN_ATTR_FINGERPRINT \<longrightarrow> as = []) \<and>
     may_follow (after_mi a mi) as"

lemma decode_loop_received:
  assumes "list_all (attr_ok hdr) as" "length (mh_tsx_id hdr) = 12" "mh_tsx_id (sm_hdr msg) = mh_tsx_id hdr"
    and "laid padding hdr mem p as" "may_follow mi as" "\<not> fp" "length (sm_attr msg) + length as \<le> PJ_STUN_MAX_ATTR"
  shows "stun_decode_loop strerror want mem p (total_size hdr as) msg mi fp =
     Parsed (Decoded (msg\<lparr>sm_attr := sm_attr msg @ map (received padding hdr) as\<rparr>) (p + total_size hdr as))"
  using assms
proof (induction as arbitrary: p msg mi fp)
  case Nil
  then show ?case by (simp add: stun_decode_loop.simps)
next
  case (Cons a as)
  let ?msg = "msg\<lparr>sm_attr := sm_attr msg @ [received padding hdr a]\<rparr>"
  have size4: "4 \<le> attr_size hdr a" by (simp add: attr_size_def)
  have step: "decode_step strerror want mem p (total_size hdr (a # as)) msg mi fp =
      Parsed (Inr (?msg, after_mi a mi, after_fp a fp, attr_size hdr a - 4))"
    using Cons.prems by (intro decode_step_received) auto
  have rest: "stun_decode_loop strerror want mem (p + attr_size hdr a) (total_size hdr as) ?msg (after_mi a mi) (after_fp a fp) =
      Parsed (Decoded (msg\<lparr>sm_attr := sm_attr msg @ map (received padding hdr) (a # as)\<rparr>) (p + total_size hdr (a # as)))"
  proof (cases as)
    case Nil
    then show ?thesis by (simp add: stun_decode_loop.simps)
  next
    case (Cons b bs)
    then have "\<not> after_fp a fp" using Cons.prems(5,6) by auto
    then show ?thesis using Cons.IH [of ?msg "p + attr_size hdr a" "after_mi a mi" "after_fp a fp"] Cons.prems
      by (simp add: add.assoc)
  qed
  show ?case
  proof (cases "as = []")
    case True
    then show ?thesis using rest step size4 by (simp add: stun_decode_loop.simps [of _ _ _ p])
  next
    case False
    then have "0 < total_size hdr as" by (cases as) (simp_all add: attr_size_def)
    then show ?thesis using rest step size4 by (simp add: stun_decode_loop.simps [of _ _ _ p])
  qed
qed

section \<open>Encoding all attributes\<close>

fun lay :: "u8 \<Rightarrow> stun_hdr \<Rightarrow> stun_attr list \<Rightarrow> bytes \<Rightarrow> nat \<Rightarrow> bytes" where
  "lay padding hdr [] buf pos = buf"
| "lay padding hdr (a # as) buf pos = lay padding hdr as (patch buf pos (attr_octets padding hdr a)) (pos + attr_size hdr a)"

lemma attr_fits: "pos + attr_size hdr a \<le> n \<Longrightarrow> pos + length (attr_octets padding hdr a) \<le> n"
  using length_attr_octets [of padding hdr a] by linarith

lemma length_lay: "pos + total_size hdr as \<le> length buf \<Longrightarrow> length (lay padding hdr as buf pos) = length buf"
  by (induction as arbitrary: buf pos) (simp_all add: attr_fits)

lemma take_lay: "pos + total_size hdr as \<le> length buf \<Longrightarrow> n \<le> pos \<Longrightarrow> take n (lay padding hdr as buf pos) = take n buf"
  by (induction as arbitrary: buf pos) (simp_all add: attr_fits take_patch)

lemma laid_lay: "pos + total_size hdr as \<le> length buf \<Longrightarrow> laid padding hdr (lay padding hdr as buf pos) pos as"
proof (induction as arbitrary: buf pos)
  case (Cons a as)
  let ?buf = "patch buf pos (attr_octets padding hdr a)"
  have fit: "pos + length (attr_octets padding hdr a) \<le> length buf" using Cons.prems by (intro attr_fits) simp
  have "holds (lay padding hdr as ?buf (pos + attr_size hdr a)) pos (attr_octets padding hdr a)"
    by (rule holds_take [OF holds_patch [OF fit], of "pos + attr_size hdr a"])
      (use Cons.prems fit length_attr_octets [of padding hdr a] in \<open>simp_all add: take_lay length_lay\<close>)
  then show ?case using Cons.IH [of "pos + attr_size hdr a" ?buf] Cons.prems fit by (simp add: add.assoc)
qed simp

lemma laid_take:
  "laid padding hdr mem p as \<Longrightarrow> p + total_size hdr as \<le> n \<Longrightarrow> take n mem' = take n mem \<Longrightarrow> length mem' = length mem \<Longrightarrow>
   laid padding hdr mem' p as"
proof (induction as arbitrary: p)
  case (Cons a as)
  have "p + length (attr_octets padding hdr a) \<le> n" by (rule attr_fits) (use Cons.prems in simp)
  then show ?case using Cons holds_take [of mem p "attr_octets padding hdr a" n mem'] by simp
qed simp

lemma laid_drop:
  "laid padding hdr mem p as \<Longrightarrow> n \<le> p \<Longrightarrow> drop n mem' = drop n mem \<Longrightarrow> length mem' = length mem \<Longrightarrow>
   laid padding hdr mem' p as"
  by (induction as arbitrary: p) (auto intro: holds_drop)

lemma laid_append: "laid padding hdr mem p (as @ bs) \<longleftrightarrow> laid padding hdr mem p as \<and> laid padding hdr mem (p + total_size hdr as) bs"
  by (induction as arbitrary: p) (auto simp: add.assoc)

lemma unat_room: "r < 2 ^ 32 \<Longrightarrow> unat (ucast (of_nat r :: u64) :: u32) = r"
  unfolding unsigned_ucast_eq unat_of_nat by (simp add: take_bit_eq_mod)

lemma encode_loop_lay:
  assumes "list_all (attr_ok hdr) as" "length (mh_tsx_id hdr) = 12"
    and "\<forall>a\<in>set as. sa_type a \<noteq> PJ_STUN_ATTR_MESSAGE_INTEGRITY \<and> sa_type a \<noteq> PJ_STUN_ATTR_FINGERPRINT"
    and "\<forall>a rest'. rest = a # rest' \<longrightarrow> sa_type a = PJ_STUN_ATTR_MESSAGE_INTEGRITY \<or> sa_type a = PJ_STUN_ATTR_FINGERPRINT"
    and "total_size hdr as \<le> r" "r < 2 ^ 32" "pos + r \<le> length buf"
  shows "stun_encode_loop padding hdr (as @ rest) buf pos (of_nat r) =
     Parsed (lay padding hdr as buf pos, pos + total_size hdr as, of_nat (r - total_size hdr as), rest)"
  using assms
proof (induction as arbitrary: buf pos r)
  case Nil
  then show ?case by (cases rest) simp_all
next
  case (Cons a as)
  have "encode_attr padding a buf pos r hdr = Parsed (patch buf pos (attr_octets padding hdr a), attr_size hdr a)"
    using Cons.prems by (intro encode_attr_patch) auto
  moreover have "(of_nat r :: u64) - of_nat (attr_size hdr a) = of_nat (r - attr_size hdr a)"
    using Cons.prems(5) by (simp add: of_nat_diff)
  moreover have "length (patch buf pos (attr_octets padding hdr a)) = length buf"
    using Cons.prems(5,7) by (intro length_patch attr_fits) simp
  ultimately show ?case using Cons.IH [of "r - attr_size hdr a" "pos + attr_size hdr a" "patch buf pos (attr_octets padding hdr a)"]
      Cons.prems by (simp add: unat_room add.assoc)
qed

section \<open>Messages\<close>

text \<open>The attributes at the end of a message, with the hash and the checksum.\<close>

definition sign :: "bool \<Rightarrow> bool \<Rightarrow> bytes \<Rightarrow> u32 \<Rightarrow> stun_attr list" where
  "sign mi fp hmac value =
     (if mi then [INIT_ATTR PJ_STUN_ATTR_MESSAGE_INTEGRITY 20 (Msgint_Body hmac)] else []) @
     (if fp then [INIT_ATTR PJ_STUN_ATTR_FINGERPRINT 4 (Uint_Body value)] else [])"

lemma stop_at_sign:
  "stop_at (sign mi fp hmac value) =
     Parsed (if mi then Some (INIT_ATTR PJ_STUN_ATTR_MESSAGE_INTEGRITY 20 (Msgint_Body hmac)) else None,
             if fp then Some (INIT_ATTR PJ_STUN_ATTR_FINGERPRINT 4 (Uint_Body value)) else None)"
  by (simp add: stop_at_def sign_def INIT_ATTR_def fingerprint_not_msgint)

lemma nth_patch:
  "pos + length data \<le> length buf \<Longrightarrow> i < length buf \<Longrightarrow>
   patch buf pos data ! i = (if pos \<le> i \<and> i < pos + length data then data ! (i - pos) else buf ! i)"
  by (auto simp: patch_def nth_append min_def)

lemma patch_commute:
  assumes "p + length a \<le> q" "q + length b \<le> length buf"
  shows "patch (patch buf q b) p a = patch (patch buf p a) q b"
  using assms by (intro nth_equalityI) (auto simp: nth_patch)

lemma patch_again: "p + length a \<le> length buf \<Longrightarrow> length b = length a \<Longrightarrow> patch (patch buf p a) p b = patch buf p b"
  by (intro nth_equalityI) (auto simp: nth_patch)

lemma patch_mid: "length xs = p \<Longrightarrow> length ys = length zs \<Longrightarrow> patch (xs @ ys @ rest) p zs = xs @ zs @ rest"
  by (simp add: patch_def)

lemma take_patch_cong:
  assumes "take n b = take n b'" "p + length d \<le> n" "n \<le> length b" "length b' = length b"
  shows "take n (patch b p d) = take n (patch b' p d)"
proof (rule nth_equalityI)
  fix i assume "i < length (take n (patch b p d))"
  then have i: "i < n" "i < length b" using assms(2,3) by simp_all
  have "b ! i = b' ! i" using assms(1) i by (metis nth_take)
  then show "take n (patch b p d) ! i = take n (patch b' p d) ! i" using i assms by (simp add: nth_patch)
qed (use assms in simp)

lemma patch_nil: "pos \<le> length buf \<Longrightarrow> patch buf pos [] = buf"
  by (simp add: patch_def)

lemma length_hmac: "length (pj_hmac_sha1_final ctx) = 20"
  by (simp add: pj_hmac_sha1_final_def pj_sha1_final_def be_octets_def Let_def split: prod.splits)

definition mi_octets :: "bool \<Rightarrow> bytes \<Rightarrow> bytes" where
  "mi_octets mi hmac = (if mi then put16 PJ_STUN_ATTR_MESSAGE_INTEGRITY @ put16 20 @ hmac else [])"

definition fp_octets :: "bool \<Rightarrow> u32 \<Rightarrow> bytes" where
  "fp_octets fp v = (if fp then put16 PJ_STUN_ATTR_FINGERPRINT @ put16 4 @ put32 v else [])"

lemma encode_msgint_patch:
  fixes key :: bytes
  assumes "mi \<Longrightarrow> 24 \<le> r" "r < 2 ^ 32" "pos + r \<le> length buf"
  defines "hmac \<equiv> (if mi then pj_hmac_sha1 (replicate 64 0) (take pos buf) key else [])"
  shows "encode_msgint n (if mi then Some (INIT_ATTR PJ_STUN_ATTR_MESSAGE_INTEGRITY 20 (Msgint_Body h0)) else None) (Some key) buf pos (of_nat r)
     = Parsed (patch buf pos (mi_octets mi hmac), pos + length (mi_octets mi hmac), of_nat (r - length (mi_octets mi hmac)), hmac)"
proof (cases mi)
  case True
  have "(of_nat r :: u64) - 24 = of_nat (r - 24)" using assms(1) True by (simp add: of_nat_diff)
  moreover have "\<not> n < n - 2" by simp
  moreover have "length hmac = 20" using True by (simp add: hmac_def pj_hmac_sha1_def length_hmac)
  moreover have "octets buf 0 pos = Parsed (take pos buf)" using assms(3) by (simp add: octets_def)
  moreover have "hmac = pj_hmac_sha1_final (pj_hmac_sha1_update (pj_hmac_sha1_init (replicate 64 0) key) (take pos buf))"
    using True by (simp add: hmac_def pj_hmac_sha1_def)
  ultimately show ?thesis using assms(1-3) True
    by (simp add: encode_msgint_def Let_def encode_msgint_attr_def encode_done_patch INIT_ATTR_def mi_octets_def unat_room)
next
  case False
  then show ?thesis using assms(3) by (simp add: encode_msgint_def mi_octets_def hmac_def patch_nil)
qed

lemma encode_fingerprint_patch:
  assumes "fp \<Longrightarrow> 8 \<le> r" "r < 2 ^ 32" "pos + r \<le> length buf" "20 \<le> pos" "get16 buf 2 = Parsed len"
  defines "buf' \<equiv> (if fp then patch buf 2 (put16 (len + 8)) else buf)"
  defines "v \<equiv> (if fp then pj_crc32_calc 0 (take pos buf') XOR STUN_XOR_FINGERPRINT else 0)"
  shows "encode_fingerprint (if fp then Some (INIT_ATTR PJ_STUN_ATTR_FINGERPRINT 4 (Uint_Body v0)) else None) buf pos (of_nat r)
     = Parsed (patch buf' pos (fp_octets fp v), pos + length (fp_octets fp v), v)"
proof (cases fp)
  case True
  have fit: "2 + length (put16 (len + 8)) \<le> length buf" using assms(3,4) by simp
  have "octets buf' 0 pos = Parsed (take pos buf')" using True assms(3) fit by (simp add: octets_def buf'_def)
  moreover have "length buf' = length buf" using True fit by (simp add: buf'_def)
  moreover have "poke buf 2 (put16 (len + 8)) = Parsed buf'" using True fit by (simp add: poke_patch buf'_def)
  ultimately show ?thesis using True assms(1-5)
    by (simp add: encode_fingerprint_def Let_def encode_uint_attr_def encode_done_patch INIT_ATTR_def fp_octets_def unat_room v_def)
next
  case False
  then show ?thesis using assms(3) by (simp add: encode_fingerprint_def fp_octets_def v_def buf'_def patch_nil)
qed

text \<open>The octets of the header, and the whole message.\<close>

definition hdr_octets :: "stun_hdr \<Rightarrow> u16 \<Rightarrow> bytes" where
  "hdr_octets hdr len = put16 (mh_type hdr) @ put16 len @ put32 (mh_magic hdr) @ mh_tsx_id hdr"

definition body_buffer :: "u8 \<Rightarrow> stun_hdr \<Rightarrow> stun_attr list \<Rightarrow> bytes \<Rightarrow> u16 \<Rightarrow> bytes" where
  "body_buffer padding hdr as buf len = patch (lay padding hdr as (patch buf 0 (hdr_octets hdr 0)) 20) 2 (put16 len)"

lemma body_buffer:
  assumes "20 + total_size hdr as \<le> length buf" "length (mh_tsx_id hdr) = 12"
  shows "length (body_buffer padding hdr as buf len) = length buf"
    and "holds (body_buffer padding hdr as buf len) 0 (hdr_octets hdr len)"
    and "laid padding hdr (body_buffer padding hdr as buf len) 20 as"
    and "patch (body_buffer padding hdr as buf len) 2 (put16 len') = body_buffer padding hdr as buf len'"
proof -
  define b where "b = lay padding hdr as (patch buf 0 (hdr_octets hdr 0)) 20"
  have n: "length (hdr_octets hdr len) = 20" for len using assms(2) by (simp add: hdr_octets_def)
  then have fit: "0 + length (hdr_octets hdr 0) \<le> length buf" using assms(1) by simp
  have b: "length b = length buf" using assms(1) fit by (simp add: b_def length_lay)
  have fit2: "2 + length (put16 len) \<le> length b" using assms(1) b by simp
  show "length (body_buffer padding hdr as buf len) = length buf"
    using b fit2 by (simp add: body_buffer_def b_def [symmetric])
  have "take 20 b = hdr_octets hdr 0"
    using take_lay [of 20 hdr as "patch buf 0 (hdr_octets hdr 0)" 20 padding] assms(1) fit
      take_holds [OF holds_patch [OF fit]] n [of 0] by (simp add: b_def)
  then have "b = put16 (mh_type hdr) @ put16 0 @ (put32 (mh_magic hdr) @ mh_tsx_id hdr @ drop 20 b)"
    using append_take_drop_id [of 20 b] by (simp add: hdr_octets_def)
  then have "patch b 2 (put16 len) = put16 (mh_type hdr) @ put16 len @ (put32 (mh_magic hdr) @ mh_tsx_id hdr @ drop 20 b)"
    using patch_mid [of "put16 (mh_type hdr)" 2 "put16 0" "put16 len"] by (metis length_put(1))
  then have "take 20 (patch b 2 (put16 len)) = hdr_octets hdr len"
    using assms(2) by (simp add: hdr_octets_def)
  then show "holds (body_buffer padding hdr as buf len) 0 (hdr_octets hdr len)"
    using assms(1) b n [of len] fit2 by (simp add: holds_def body_buffer_def b_def [symmetric])
  have "laid padding hdr b 20 as" unfolding b_def by (rule laid_lay) (use assms(1) fit in simp)
  then show "laid padding hdr (body_buffer padding hdr as buf len) 20 as"
    unfolding body_buffer_def b_def [symmetric]
    by (rule laid_drop [where n = 4]) (use fit2 in \<open>simp_all add: drop_patch\<close>)
  show "patch (body_buffer padding hdr as buf len) 2 (put16 len') = body_buffer padding hdr as buf len'"
    using fit2 by (simp add: body_buffer_def b_def [symmetric] patch_again)
qed

text \<open>The hash of the message up to it, the message with it, and the checksum of that.\<close>

definition msg_hmac :: "bool \<Rightarrow> bytes \<Rightarrow> u8 \<Rightarrow> stun_hdr \<Rightarrow> stun_attr list \<Rightarrow> bytes \<Rightarrow> bytes" where
  "msg_hmac mi key padding hdr as buf =
     (if mi then pj_hmac_sha1 (replicate 64 0)
                   (take (20 + total_size hdr as) (body_buffer padding hdr as buf (of_nat (total_size hdr as + 24)))) key
      else [])"

definition sign_size :: "bool \<Rightarrow> bool \<Rightarrow> nat" where
  "sign_size mi fp = (if mi then 24 else 0) + (if fp then 8 else 0)"

definition hashed_buffer :: "bool \<Rightarrow> bool \<Rightarrow> bytes \<Rightarrow> u8 \<Rightarrow> stun_hdr \<Rightarrow> stun_attr list \<Rightarrow> bytes \<Rightarrow> bytes" where
  "hashed_buffer mi fp key padding hdr as buf =
     patch (body_buffer padding hdr as buf (of_nat (total_size hdr as + sign_size mi fp))) (20 + total_size hdr as)
       (mi_octets mi (msg_hmac mi key padding hdr as buf))"

definition msg_crc :: "bool \<Rightarrow> bool \<Rightarrow> bytes \<Rightarrow> u8 \<Rightarrow> stun_hdr \<Rightarrow> stun_attr list \<Rightarrow> bytes \<Rightarrow> u32" where
  "msg_crc mi fp key padding hdr as buf =
     (if fp then pj_crc32_calc 0 (take (20 + total_size hdr as + sign_size mi False) (hashed_buffer mi fp key padding hdr as buf))
                 XOR STUN_XOR_FINGERPRINT
      else 0)"

definition signed_buffer :: "bool \<Rightarrow> bool \<Rightarrow> bytes \<Rightarrow> u8 \<Rightarrow> stun_hdr \<Rightarrow> stun_attr list \<Rightarrow> bytes \<Rightarrow> bytes" where
  "signed_buffer mi fp key padding hdr as buf =
     patch (hashed_buffer mi fp key padding hdr as buf) (20 + total_size hdr as + sign_size mi False)
       (fp_octets fp (msg_crc mi fp key padding hdr as buf))"

lemma sign_size_split: "sign_size mi False + sign_size False fp = sign_size mi fp"
  by (simp add: sign_size_def)

lemma length_mi_octets: "length (mi_octets mi (msg_hmac mi key padding hdr as buf)) = sign_size mi False"
  by (simp add: mi_octets_def msg_hmac_def sign_size_def pj_hmac_sha1_def length_hmac)

lemma length_fp_octets: "length (fp_octets fp v) = sign_size False fp"
  by (simp add: fp_octets_def sign_size_def)

lemma encode_message:
  assumes ok: "list_all (attr_ok hdr) as" and tsx_id: "length (mh_tsx_id hdr) = 12"
    and types: "\<forall>a\<in>set as. sa_type a \<noteq> PJ_STUN_ATTR_MESSAGE_INTEGRITY \<and> sa_type a \<noteq> PJ_STUN_ATTR_FINGERPRINT"
    and room: "20 + total_size hdr as + sign_size mi fp \<le> buf_size" "buf_size \<le> length buf" "buf_size < 2 ^ 32"
  shows "pj_stun_msg_encode padding \<lparr>sm_hdr = hdr, sm_attr = as @ sign mi fp h0 v0\<rparr> buf buf_size 0 (Some key) =
     Parsed (signed_buffer mi fp key padding hdr as buf, 20 + total_size hdr as + sign_size mi fp,
             msg_hmac mi key padding hdr as buf, msg_crc mi fp key padding hdr as buf)"
proof -
  define T where "T = total_size hdr as"
  define r where "r = buf_size - 20 - T"
  define hmac where "hmac = msg_hmac mi key padding hdr as buf"
  define b1 where "b1 = patch buf 0 (hdr_octets hdr 0)"
  define b2 where "b2 = lay padding hdr as b1 20"
  define B where "B = body_buffer padding hdr as buf"
  have fit: "0 + length (hdr_octets hdr 0) \<le> length buf" using room tsx_id by (simp add: hdr_octets_def)
  have poke1: "poke buf 0 (hdr_octets hdr 0) = Parsed b1" unfolding b1_def by (rule poke_patch [OF fit])
  have u64: "(of_nat buf_size :: u64) - 20 = of_nat (buf_size - 20)" using room by (simp add: of_nat_diff)
  have len1: "length b1 = length buf" using fit by (simp add: b1_def)
  have loop: "stun_encode_loop padding hdr (as @ sign mi fp h0 v0) b1 20 (of_nat (buf_size - 20)) =
      Parsed (b2, 20 + T, of_nat r, sign mi fp h0 v0)"
    unfolding b2_def T_def r_def by (rule encode_loop_lay [OF ok tsx_id types])
      (use room len1 in \<open>auto simp: sign_def INIT_ATTR_def split: if_splits\<close>)
  have len2: "length b2 = length buf" using room len1 by (simp add: b2_def length_lay)
  have size: "20 + total_size hdr as \<le> length buf" using room by simp
  note B = body_buffer [OF size tsx_id, of padding, folded B_def]
  have poke3: "poke b2 2 (put16 len) = Parsed (B len)" for len
    using poke_patch [of 2 "put16 len" b2] room len2 by (simp add: B_def body_buffer_def b2_def b1_def)
  define L1 :: u16 where "L1 = of_nat (T + sign_size mi False)"
  have r: "24 \<le> r" if mi using room that by (simp add: r_def T_def sign_size_def)
  have r': "r < 2 ^ 32" "20 + T + r \<le> length (B L1)" using room B(1) [of L1] by (simp_all add: r_def T_def)
  have h: "hmac = (if mi then pj_hmac_sha1 (replicate 64 0) (take (20 + T) (B L1)) key else [])"
    by (simp add: hmac_def msg_hmac_def T_def B_def L1_def sign_size_def)
  have hmac: "encode_msgint n (if mi then Some (INIT_ATTR PJ_STUN_ATTR_MESSAGE_INTEGRITY 20 (Msgint_Body h0)) else None)
      (Some key) (B L1) (20 + T) (of_nat r) =
      Parsed (patch (B L1) (20 + T) (mi_octets mi hmac), 20 + T + sign_size mi False, of_nat (r - sign_size mi False), hmac)" for n
    using encode_msgint_patch [of mi r "20 + T" "B L1" n h0 key, OF r r'] length_mi_octets [of mi key padding hdr as buf]
    by (simp only: h [symmetric] hmac_def [symmetric])
  define b4 where "b4 = patch (B L1) (20 + T) (mi_octets mi hmac)"
  have mi_fit: "20 + T + length (mi_octets mi hmac) \<le> length (B len)" for len
    using room B(1) length_mi_octets [of mi key padding hdr as buf] by (simp add: hmac_def T_def sign_size_def split: if_splits)
  have get: "get16 b4 2 = Parsed L1"
  proof (rule get16_holds)
    have "holds (B L1) 2 (put16 L1)"
      by (rule holds_sub [of _ 0 "put16 (mh_type hdr)" _ "put32 (mh_magic hdr) @ mh_tsx_id hdr"])
        (use B(2) [of L1] in \<open>simp_all add: hdr_octets_def\<close>)
    then show "holds b4 2 (put16 L1)" unfolding b4_def
      by (rule holds_take [where n = 4]) (use mi_fit in \<open>simp_all add: take_patch\<close>)
  qed
  define L where "L = T + sign_size mi fp"
  have L: "(if fp then patch b4 2 (put16 (L1 + 8)) else b4) = hashed_buffer mi fp key padding hdr as buf"
  proof (cases fp)
    case True
    have "patch b4 2 (put16 (L1 + 8)) = patch (patch (B L1) 2 (put16 (L1 + 8))) (20 + T) (mi_octets mi hmac)"
      unfolding b4_def by (rule patch_commute) (use mi_fit in simp_all)
    then have "patch b4 2 (put16 (L1 + 8)) = patch (B (L1 + 8)) (20 + T) (mi_octets mi hmac)" by (simp only: B(4))
    moreover have "L1 + 8 = of_nat (T + sign_size mi fp)" using True by (simp add: L1_def sign_size_def)
    ultimately show ?thesis using True
      by (simp only: if_True hashed_buffer_def T_def hmac_def B_def)
  next
    case False
    then show ?thesis by (simp add: b4_def hashed_buffer_def L1_def T_def hmac_def B_def)
  qed
  have r4: "8 \<le> r - sign_size mi False" if fp using room that by (simp add: r_def T_def sign_size_def)
  have r4': "r - sign_size mi False < 2 ^ 32" using r'(1) by simp
  have r4_room: "20 + T + sign_size mi False + (r - sign_size mi False) \<le> length b4"
    using room B(1) [of L1] length_patch [OF mi_fit] by (simp add: b4_def r_def T_def sign_size_def)
  have fin: "encode_fingerprint (if fp then Some (INIT_ATTR PJ_STUN_ATTR_FINGERPRINT 4 (Uint_Body v0)) else None)
      b4 (20 + T + sign_size mi False) (of_nat (r - sign_size mi False)) =
      Parsed (signed_buffer mi fp key padding hdr as buf, 20 + T + sign_size mi fp, msg_crc mi fp key padding hdr as buf)"
    using encode_fingerprint_patch [of fp "r - sign_size mi False" "20 + T + sign_size mi False" b4 L1 v0, OF r4 r4' r4_room _ get]
    unfolding L msg_crc_def signed_buffer_def T_def [symmetric]
    by (simp add: length_fp_octets sign_size_split add.assoc)
  have lenfield: "mi \<Longrightarrow> of_nat T + 24 = L1" "\<not> mi \<Longrightarrow> of_nat T = L1" by (simp_all add: L1_def sign_size_def)
  show ?thesis
    using room poke1 u64 loop poke3 hmac [folded b4_def] fin lenfield
    by (cases mi) (simp_all add: pj_stun_msg_encode_def Let_def hdr_octets_def [symmetric] stop_at_sign
        T_def [symmetric] hmac_def)
qed

lemma find_sign: "find_attr_desc PJ_STUN_ATTR_MESSAGE_INTEGRITY = Some (''MESSAGE-INTEGRITY'', K_Msgint)"
  "find_attr_desc PJ_STUN_ATTR_FINGERPRINT = Some (''FINGERPRINT'', K_Uint)"
  by code_simp+

lemma sign_attrs:
  assumes "mi \<Longrightarrow> length hmac = 20"
  shows "list_all (attr_ok hdr) (sign mi fp hmac v)" "total_size hdr (sign mi fp hmac v) = sign_size mi fp"
    "map (received padding hdr) (sign mi fp hmac v) = sign mi fp hmac v"
    "laid padding hdr mem p (sign mi fp hmac v) \<longleftrightarrow>
       (mi \<longrightarrow> holds mem p (mi_octets mi hmac)) \<and> (fp \<longrightarrow> holds mem (p + sign_size mi False) (fp_octets fp v))"
    "may_follow False (sign mi fp hmac v)"
  using assms
  by (auto simp: sign_def attr_ok_def find_sign INIT_ATTR_def attr_size_def pad4_def sign_size_def received_def seen_def
      string_pad_def attr_octets_def mi_octets_def fp_octets_def fingerprint_not_msgint)

lemma sign_length: "length (sign mi fp hmac v) = length (sign mi fp h0 v0)"
  by (simp add: sign_def)

lemma may_follow_sign:
  "\<forall>a\<in>set as. sa_type a \<noteq> PJ_STUN_ATTR_MESSAGE_INTEGRITY \<and> sa_type a \<noteq> PJ_STUN_ATTR_FINGERPRINT \<Longrightarrow>
   may_follow False (as @ sign mi fp hmac v)"
  by (induction as) (auto simp: sign_def INIT_ATTR_def fingerprint_not_msgint)

lemma signed_buffer:
  fixes padding :: u8 and key :: bytes
  assumes size: "20 + total_size hdr as + sign_size mi fp \<le> length buf" and tsx_id: "length (mh_tsx_id hdr) = 12"
  defines "S \<equiv> signed_buffer mi fp key padding hdr as buf" and "T \<equiv> total_size hdr as"
    and "hmac \<equiv> msg_hmac mi key padding hdr as buf" and "v \<equiv> msg_crc mi fp key padding hdr as buf"
  shows "length S = length buf" "holds S 0 (hdr_octets hdr (of_nat (T + sign_size mi fp)))"
    "laid padding hdr S 20 (as @ sign mi fp hmac v)"
    "fp \<Longrightarrow> v = pj_crc32_calc 0 (take (20 + T + sign_size mi False) S) XOR STUN_XOR_FINGERPRINT"
    "mi \<Longrightarrow> hmac = pj_hmac_sha1 (replicate 64 0) (take (20 + T) (patch S 2 (put16 (of_nat (T + 24))))) key"
proof -
  define len :: u16 where "len = of_nat (T + sign_size mi fp)"
  define B where "B = body_buffer padding hdr as buf len"
  define H where "H = hashed_buffer mi fp key padding hdr as buf"
  have size': "20 + total_size hdr as \<le> length buf" using size by simp
  note B = body_buffer [OF size' tsx_id, of padding len, folded B_def]
  have H: "H = patch B (20 + T) (mi_octets mi hmac)" by (simp add: H_def B_def hashed_buffer_def T_def hmac_def len_def)
  have S: "S = patch H (20 + T + sign_size mi False) (fp_octets fp v)"
    by (simp add: S_def H_def signed_buffer_def T_def v_def)
  have fit1: "20 + T + length (mi_octets mi hmac) \<le> length B"
    using size B(1) by (simp add: hmac_def length_mi_octets T_def sign_size_def split: if_splits)
  then have lenH: "length H = length B" by (simp add: H)
  have fit2: "20 + T + sign_size mi False + length (fp_octets fp v) \<le> length H"
    using size B(1) lenH sign_size_split [of mi fp] by (simp add: length_fp_octets T_def)
  show lenS: "length S = length buf" using fit2 lenH B(1) by (simp add: S)
  have takeB: "take (20 + T) S = take (20 + T) B"
    using fit1 fit2 by (simp add: S H take_patch)
  show "holds S 0 (hdr_octets hdr (of_nat (T + sign_size mi fp)))"
    by (rule holds_take [OF B(2) [unfolded len_def] takeB]) (use tsx_id lenS B(1) in \<open>simp_all add: hdr_octets_def\<close>)
  have lenm: "mi \<Longrightarrow> length hmac = 20" by (simp add: hmac_def msg_hmac_def pj_hmac_sha1_def length_hmac)
  have "holds S (20 + T) (mi_octets mi hmac)"
    by (rule holds_take [OF holds_patch [OF fit1, folded H], of "20 + T + sign_size mi False"])
      (use fit2 lenH lenm in \<open>simp_all add: S take_patch mi_octets_def sign_size_def\<close>)
  moreover have "holds S (20 + T + sign_size mi False) (fp_octets fp v)" using holds_patch [OF fit2] by (simp add: S)
  moreover have "laid padding hdr S 20 as" by (rule laid_take [OF B(3) _ takeB]) (use lenS B(1) in \<open>simp_all add: T_def\<close>)
  ultimately show "laid padding hdr S 20 (as @ sign mi fp hmac v)"
    by (auto simp: laid_append sign_attrs(4) [OF lenm] T_def)
  show "v = pj_crc32_calc 0 (take (20 + T + sign_size mi False) S) XOR STUN_XOR_FINGERPRINT" if fp
    using that fit2 by (simp add: v_def msg_crc_def S take_patch H_def T_def)
  have "take (20 + T) (patch S 2 (put16 (of_nat (T + 24)))) = take (20 + T) (patch B 2 (put16 (of_nat (T + 24))))"
    by (rule take_patch_cong [OF takeB]) (use lenS B(1) size in \<open>simp_all add: T_def\<close>)
  also have "patch B 2 (put16 (of_nat (T + 24))) = body_buffer padding hdr as buf (of_nat (T + 24))" by (rule B(4))
  finally show "hmac = pj_hmac_sha1 (replicate 64 0) (take (20 + T) (patch S 2 (put16 (of_nat (T + 24))))) key" if mi
    using that by (simp add: hmac_def msg_hmac_def T_def)
qed

lemma total_size_aligned: "total_size hdr as mod 4 = 0"
proof (induction as)
  case (Cons a as)
  have "attr_size hdr a mod 4 = 0" using pad4_bounds(3) by (simp add: attr_size_def mod_add_eq [symmetric])
  with Cons show ?case by (simp add: mod_add_eq [symmetric])
qed simp

lemma first_octet: "(t :: u16) < 0x200 \<Longrightarrow> (ucast (drop_bit 8 t) :: u8) = 0 \<or> (ucast (drop_bit 8 t) :: u8) = 1"
proof -
  assume "t < 0x200"
  then have "unat t div 256 < 2" by (simp add: word_less_nat_alt less_mult_imp_div_less)
  moreover have "unat (ucast (drop_bit 8 t) :: u8) = take_bit 8 (unat t div 256)"
    unfolding unsigned_ucast_eq unsigned_drop_bit_eq using unsigned_less [of t, where 'a = nat]
    by (simp add: drop_bit_eq_div take_bit_nat_eq_self)
  ultimately have "unat (ucast (drop_bit 8 t) :: u8) = 0 \<or> unat (ucast (drop_bit 8 t) :: u8) = 1"
    by (auto simp: take_bit_eq_mod)
  then show ?thesis by (auto simp: word_eq_iff_unsigned [where ?'a = nat])
qed

lemma read_hdr:
  assumes "holds S 0 (hdr_octets hdr len)" "length (mh_tsx_id hdr) = 12"
  shows "octet S 0 = Parsed (ucast (drop_bit 8 (mh_type hdr)))" "get16 S 0 = Parsed (mh_type hdr)" "get16 S 2 = Parsed len"
    "get32 S 4 = Parsed (mh_magic hdr)" "octets S 8 12 = Parsed (mh_tsx_id hdr)" "20 \<le> length S"
  using assms
  by - (rule octet_holds, rule holds_sub [of _ 0 "[]" _ "[ucast (mh_type hdr)] @ put16 len @ put32 (mh_magic hdr) @ mh_tsx_id hdr"],
      simp add: hdr_octets_def put16_def, simp,
    rule get16_holds, rule holds_sub [of _ 0 "[]" _ "put16 len @ put32 (mh_magic hdr) @ mh_tsx_id hdr"], simp add: hdr_octets_def, simp,
    rule get16_holds, rule holds_sub [of _ 0 "put16 (mh_type hdr)" _ "put32 (mh_magic hdr) @ mh_tsx_id hdr"], simp add: hdr_octets_def, simp,
    rule get32_holds, rule holds_sub [of _ 0 "put16 (mh_type hdr) @ put16 len" _ "mh_tsx_id hdr"], simp add: hdr_octets_def, simp,
    rule octets_holds, rule holds_sub [of _ 0 "put16 (mh_type hdr) @ put16 len @ put32 (mh_magic hdr)" _ "[]"], simp add: hdr_octets_def, simp, simp,
    simp add: holds_def hdr_octets_def)

lemma check_signed:
  assumes hdr: "holds S 0 (hdr_octets hdr (of_nat n))" "length (mh_tsx_id hdr) = 12" "mh_type hdr < 0x200"
    and n: "n < 65536" "n mod 4 = 0" "20 + n \<le> length S"
    and fp: "fp \<Longrightarrow> 8 \<le> n \<and> holds S (n + 12) (fp_octets True v) \<and> v = pj_crc32_calc 0 (take (n + 12) S) XOR STUN_XOR_FINGERPRINT"
    and chk: "fp \<or> options AND PJ_STUN_NO_FINGERPRINT_CHECK \<noteq> 0 \<or> mh_magic hdr \<noteq> PJ_STUN_MAGIC"
  shows "pj_stun_msg_check S (20 + n) options = Parsed ()"
proof -
  have un: "unat (of_nat n :: u16) = n" using n(1) by (simp add: unat_of_nat)
  note rd = read_hdr [OF hdr(1,2)]
  show ?thesis
  proof (cases "options AND PJ_STUN_NO_FINGERPRINT_CHECK \<noteq> 0 \<or> mh_magic hdr \<noteq> PJ_STUN_MAGIC")
    case True
    then show ?thesis using rd first_octet [OF hdr(3)] n(2) by (auto simp: pj_stun_msg_check_def Let_def un)
  next
    case False
    then have f: "8 \<le> n" "holds S (n + 12) (put16 PJ_STUN_ATTR_FINGERPRINT @ put16 4 @ put32 v)"
        "v = pj_crc32_calc 0 (take (n + 12) S) XOR STUN_XOR_FINGERPRINT"
      using chk fp by (auto simp: fp_octets_def)
    define m where "m = n + 12"
    have h: "holds S m (put16 PJ_STUN_ATTR_FINGERPRINT @ put16 4 @ put32 v)" using f(2) by (simp add: m_def)
    have "get16 S m = Parsed PJ_STUN_ATTR_FINGERPRINT"
      by (rule get16_holds, rule holds_sub [of _ m "[]" _ "put16 4 @ put32 v"]) (use h in simp_all)
    moreover have "get16 S (m + 2) = Parsed 4"
      by (rule get16_holds, rule holds_sub [OF h]) simp
    moreover have "get32 S (m + 4) = Parsed v"
      by (rule get32_holds, rule holds_sub [of _ m "put16 PJ_STUN_ATTR_FINGERPRINT @ put16 4" _ "[]"]) (use h in simp_all)
    moreover have "octets S 0 m = Parsed (take m S)" using n(3) by (simp add: octets_def m_def)
    moreover have "n + 20 - 8 = m" by (simp add: m_def)
    ultimately show ?thesis using rd first_octet [OF hdr(3)] n(2) f(3) [folded m_def] False
      by (auto simp: pj_stun_msg_check_def Let_def un)
  qed
qed



text \<open>
  A binding request for ICE: user name, priority, the role, an unknown optional attribute, then message
  integrity and fingerprint.
\<close>

definition ice_hdr :: stun_hdr where
  "ice_hdr = \<lparr>mh_type = 1, mh_length = 0, mh_magic = PJ_STUN_MAGIC, mh_tsx_id = replicate 12 5\<rparr>"

definition ice_attrs :: "stun_attr list" where
  "ice_attrs =
     [pj_stun_string_attr_create 6 (cstr ''a:bcd''), pj_stun_uint_attr_create 0x24 1000,
      pj_stun_uint64_attr_create 0x802a (Some (1, 2)), INIT_ATTR 0x9001 3 (Binary_Body PJ_STUN_MAGIC [1, 2, 3])]"

lemma find_ice:
  "find_attr_desc 6 = Some (''USERNAME'', K_String)" "find_attr_desc 0x24 = Some (''PRIORITY'', K_Uint)"
  "find_attr_desc 0x802a = Some (''ICE-CONTROLLING'', K_Uint64)" "find_attr_desc 0x9001 = None"
  "find_attr_desc PJ_STUN_ATTR_ERROR_CODE = Some (''ERROR-CODE'', K_Errcode)"
  by code_simp+


text \<open>Attributes that the makers return arrive unchanged, but for strings that are rounded up.\<close>

lemma received_created:
  "received padding hdr (pj_stun_uint_attr_create t v) = pj_stun_uint_attr_create t v"
  "received padding hdr (pj_stun_uint64_attr_create t (Some (hi, lo))) = pj_stun_uint64_attr_create t (Some (hi, lo))"
  "received padding hdr (pj_stun_empty_attr_create t) = pj_stun_empty_attr_create t"
  "\<not> rounds hdr t \<Longrightarrow> received padding hdr (pj_stun_string_attr_create t s) = pj_stun_string_attr_create t s"
  "length (mh_tsx_id hdr) = 12 \<Longrightarrow> addr_ok addr \<Longrightarrow>
     received padding hdr (pj_stun_sockaddr_attr_create t x addr) = pj_stun_sockaddr_attr_create t x addr"
proof -
  assume "length (mh_tsx_id hdr) = 12" "addr_ok addr"
  then show "received padding hdr (pj_stun_sockaddr_attr_create t x addr) = pj_stun_sockaddr_attr_create t x addr"
    by (cases addr; cases x)
      (simp_all add: received_def pj_stun_sockaddr_attr_create_def INIT_ATTR_def seen_def string_pad_def
        pj_sockaddr_get_addr_len_def xor_octets_def magic_octets_def)
qed (simp_all add: received_def pj_stun_uint_attr_create_def pj_stun_uint64_attr_create_def pj_stun_empty_attr_create_def
    pj_stun_string_attr_create_def INIT_ATTR_def seen_def string_pad_def)

section \<open>Where encoding goes wrong\<close>

text \<open>
  The room for ERROR-CODE is compared with its length before that is rounded up: a buffer that ends within
  the padding is accepted, and the room left afterwards is a huge number, so that the next attribute is
  written behind the buffer.
\<close>

definition error_response :: stun_msg where
  "error_response =
     \<lparr>sm_hdr = ice_hdr\<lparr>mh_type := 0x111\<rparr>,
      sm_attr = [INIT_ATTR PJ_STUN_ATTR_ERROR_CODE 5 (Errcode_Body 400 [66]), pj_stun_uint_attr_create 0x24 7]\<rparr>"

lemma stun_encode_writes_behind:
  "pj_stun_msg_encode 0 error_response (replicate 29 0) 29 0 None = Outside"
proof -
  define hdr where "hdr = sm_hdr error_response"
  define buf where "buf = patch (replicate 29 0) 0 (hdr_octets hdr 0)"
  have len: "length (hdr_octets hdr 0) = 20" "length buf = 29"
    by (simp_all add: hdr_octets_def hdr_def error_response_def ice_hdr_def buf_def)
  have "stun_encode_loop 0 hdr (sm_attr error_response) buf 20 9 = Outside"
    using len(2) find_ice(2,5)
    by (simp add: error_response_def Let_def PJ_STUN_ATTR_MESSAGE_INTEGRITY_def PJ_STUN_ATTR_FINGERPRINT_def
        PJ_STUN_ATTR_ERROR_CODE_def INIT_ATTR_def pj_stun_uint_attr_create_def encode_attr_def body_kind_def
        encode_errcode_attr_def encode_uint_attr_def encode_done_def poke_def pad4_def)
  moreover have "poke (replicate 29 0) 0 (hdr_octets hdr 0) = Parsed buf" using len(1) by (simp add: poke_patch buf_def)
  ultimately show ?thesis by (simp add: pj_stun_msg_encode_def Let_def hdr_def hdr_octets_def)
qed

text \<open>
  An attribute behind MESSAGE-INTEGRITY is left out without an error: the tests of its position use an index
  that is always behind the attributes.
\<close>

lemma encode_msgint_count: "encode_msgint (Suc n) a key buf pos room = encode_msgint n a key buf pos room"
proof -
  have "\<not> n < n - 2" "\<not> Suc n < Suc n - 2" by simp_all
  then show ?thesis by (cases a; cases key) (simp_all add: encode_msgint_def Let_def)
qed

lemma stun_encode_drops_attribute:
  assumes "sa_type a \<noteq> PJ_STUN_ATTR_MESSAGE_INTEGRITY" "sa_type a \<noteq> PJ_STUN_ATTR_FINGERPRINT"
  shows "pj_stun_msg_encode padding \<lparr>sm_hdr = hdr, sm_attr = [pj_stun_msgint_attr_create, a]\<rparr> buf buf_size options key =
         pj_stun_msg_encode padding \<lparr>sm_hdr = hdr, sm_attr = [pj_stun_msgint_attr_create]\<rparr> buf buf_size options key"
  using assms
  by (simp add: pj_stun_msg_encode_def stop_at_def encode_msgint_count pj_stun_msgint_attr_create_def INIT_ATTR_def Let_def)

end
